(* ===== verification/Prelude.thy ===== *)
theory Prelude
  imports Main "HOL-Library.Char_ord" "HOL-Library.List_Lexorder"
begin

text \<open>
  Shared vocabulary of the development: the string operations of the Go standard library that
  the repository uses (\<open>strings.Cut\<close>, \<open>strings.Join\<close>, \<open>strings.ReplaceAll\<close>, \<dots>) on byte strings,
  decimal printing, and the generic list lemmas the components share. A Go string is a byte
  string, so \<open>string\<close> (a list of 8-bit \<open>char\<close>) models it directly; \<open>length\<close> counts bytes as
  \<open>len\<close> does, and the order of HOL-Library.List\_Lexorder is the byte-wise order of Go's \<open><\<close>.
  The collection \<open>den_simps\<close> gathers the evaluation rules used by the witnesses.
\<close>

named_theorems den_simps

section \<open>Strings\<close>

fun has_prefix :: "string \<Rightarrow> string \<Rightarrow> bool" where
  "has_prefix s [] = True"
| "has_prefix [] (p # ps) = False"
| "has_prefix (c # cs) (p # ps) = (c = p \<and> has_prefix cs ps)"

definition trim_prefix :: "string \<Rightarrow> string \<Rightarrow> string" where
  "trim_prefix s p = (if has_prefix s p then drop (length p) s else s)"

text \<open>\<open>strings.CutPrefix\<close>: the rest after the prefix, or \<open>None\<close>.\<close>

definition cut_prefix :: "string \<Rightarrow> string \<Rightarrow> string option" where
  "cut_prefix s p = (if has_prefix s p then Some (drop (length p) s) else None)"

text \<open>\<open>strings.Cut\<close>: the text before and after the first occurrence of the separator.\<close>

fun str_cut :: "string \<Rightarrow> string \<Rightarrow> (string \<times> string) option" where
  "str_cut [] sep = (if sep = [] then Some ([], []) else None)"
| "str_cut (c # cs) sep =
     (if has_prefix (c # cs) sep then Some ([], drop (length sep) (c # cs))
      else map_option (\<lambda>(a, b). (c # a, b)) (str_cut cs sep))"

fun join :: "string \<Rightarrow> string list \<Rightarrow> string" where
  "join sep [] = []"
| "join sep [x] = x"
| "join sep (x # y # ys) = x @ sep @ join sep (y # ys)"

text \<open>\<open>strings.Split\<close> and \<open>strings.ReplaceAll\<close> for a one-byte separator / pattern.\<close>

fun split_on :: "char \<Rightarrow> string \<Rightarrow> string list" where
  "split_on c [] = [[]]"
| "split_on c (x # xs) =
     (if x = c then [] # split_on c xs
      else (case split_on c xs of [] \<Rightarrow> [[x]] | p # ps \<Rightarrow> (x # p) # ps))"

definition replace_char :: "char \<Rightarrow> string \<Rightarrow> string \<Rightarrow> string" where
  "replace_char c r s = concat (map (\<lambda>x. if x = c then r else [x]) s)"

text \<open>\<open>strings.ReplaceAll\<close> for a non-empty pattern, scanning left to right without overlap.\<close>

function replace_all :: "string \<Rightarrow> string \<Rightarrow> string \<Rightarrow> string" where
  "replace_all old new s =
     (case s of [] \<Rightarrow> []
      | c # cs \<Rightarrow>
          if old \<noteq> [] \<and> has_prefix s old
          then new @ replace_all old new (drop (length old) s)
          else c # replace_all old new cs)"
  by pat_completeness auto
termination
  by (relation "measure (\<lambda>(old, new, s). length s)") auto

declare replace_all.simps [simp del]

text \<open>\<open>strings.ToLower\<close> on ASCII letters; other bytes are left as they are.\<close>

definition lower_char :: "char \<Rightarrow> char" where
  "lower_char c = (if 65 \<le> (of_char c :: nat) \<and> (of_char c :: nat) \<le> 90
                   then char_of ((of_char c :: nat) + 32) else c)"

definition to_lower :: "string \<Rightarrow> string" where
  "to_lower = map lower_char"

text \<open>White space (\<open>unicode.IsSpace\<close>) in UTF-8: six ASCII bytes, and the runes above as the byte
  sequences that begin with a lead byte, so that a sequence found anywhere is a rune of the text.
  \<open>space_width ws s\<close> is the length of the white-space rune \<open>s\<close> begins with, and 0 when it begins with
  none.\<close>

definition is_space :: "char \<Rightarrow> bool" where
  "is_space c \<longleftrightarrow> (of_char c :: nat) \<in> {9, 10, 11, 12, 13, 32}"

definition wide_spaces :: "string list" where
  "wide_spaces =
    [[CHR 0xC2, CHR 0x85], [CHR 0xC2, CHR 0xA0], [CHR 0xE1, CHR 0x9A, CHR 0x80],
     [CHR 0xE2, CHR 0x80, CHR 0x80], [CHR 0xE2, CHR 0x80, CHR 0x81], [CHR 0xE2, CHR 0x80, CHR 0x82],
     [CHR 0xE2, CHR 0x80, CHR 0x83], [CHR 0xE2, CHR 0x80, CHR 0x84], [CHR 0xE2, CHR 0x80, CHR 0x85],
     [CHR 0xE2, CHR 0x80, CHR 0x86], [CHR 0xE2, CHR 0x80, CHR 0x87], [CHR 0xE2, CHR 0x80, CHR 0x88],
     [CHR 0xE2, CHR 0x80, CHR 0x89], [CHR 0xE2, CHR 0x80, CHR 0x8A], [CHR 0xE2, CHR 0x80, CHR 0xA8],
     [CHR 0xE2, CHR 0x80, CHR 0xA9], [CHR 0xE2, CHR 0x80, CHR 0xAF], [CHR 0xE2, CHR 0x81, CHR 0x9F],
     [CHR 0xE3, CHR 0x80, CHR 0x80]]"

text \<open>The fast path for bytes below \<open>utf8.RuneSelf\<close> comes first.\<close>

fun space_width :: "string list \<Rightarrow> string \<Rightarrow> nat" where
  "space_width ws [] = 0"
| "space_width ws (c # cs) =
     (if is_space c then 1
      else if \<not> digit7 c then 0
      else (case find (has_prefix (c # cs)) ws of Some w \<Rightarrow> length w | None \<Rightarrow> 0))"

lemma space_width_shrinks: "0 < space_width ws s \<Longrightarrow> length s - space_width ws s < length s"
  by (cases s) simp_all

function trim_left :: "string list \<Rightarrow> string \<Rightarrow> string" where
  "trim_left ws s = (if space_width ws s = 0 then s else trim_left ws (drop (space_width ws s) s))"
  by pat_completeness auto
termination
  by (relation "measure (\<lambda>(ws, s). length s)") (auto simp: space_width_shrinks)

declare trim_left.simps [simp del]

lemma trim_left_Nil [simp]: "trim_left ws [] = []"
  by (simp add: trim_left.simps)

definition trim_space :: "string \<Rightarrow> string" where
  "trim_space s = rev (trim_left (map rev wide_spaces) (rev (trim_left wide_spaces s)))"

text \<open>\<open>strings.Fields\<close>: the maximal runs without white space. The accumulator is the run read so
  far, reversed.\<close>

function fields_acc :: "string \<Rightarrow> string \<Rightarrow> string list" where
  "fields_acc acc [] = (if acc = [] then [] else [rev acc])"
| "fields_acc acc (c # cs) =
     (if space_width wide_spaces (c # cs) > 0
      then (let rest = fields_acc [] (drop (space_width wide_spaces (c # cs)) (c # cs))
            in if acc = [] then rest else rev acc # rest)
      else fields_acc (c # acc) cs)"
  by pat_completeness auto
termination
  by (relation "measure (\<lambda>(acc, s). length s)") auto

definition str_fields :: "string \<Rightarrow> string list" where
  "str_fields s = fields_acc [] s"

definition is_digit :: "char \<Rightarrow> bool" where
  "is_digit c \<longleftrightarrow> 48 \<le> (of_char c :: nat) \<and> (of_char c :: nat) \<le> 57"

definition is_letter :: "char \<Rightarrow> bool" where
  "is_letter c \<longleftrightarrow> 65 \<le> (of_char c :: nat) \<and> (of_char c :: nat) \<le> 90
                 \<or> 97 \<le> (of_char c :: nat) \<and> (of_char c :: nat) \<le> 122"

text \<open>Decimal printing (\<open>%d\<close>) of non-negative integers.\<close>

definition digit_char :: "nat \<Rightarrow> char" where
  "digit_char d = char_of (48 + d)"

fun dec :: "nat \<Rightarrow> string" where
  "dec n = (if n < 10 then [digit_char n] else dec (n div 10) @ [digit_char (n mod 10)])"

declare dec.simps [simp del]

definition zero_padded :: "nat \<Rightarrow> nat \<Rightarrow> string" where
  "zero_padded w n = replicate (w - length (dec n)) CHR ''0'' @ dec n"

fun dec_int :: "int \<Rightarrow> string" where
  "dec_int i = (if i < 0 then CHR ''-'' # dec (nat (- i)) else dec (nat i))"

declare dec_int.simps [simp del]

text \<open>
  Go's \<open>%q\<close> for byte strings: backslash escapes for the quote, the backslash and the ASCII
  control bytes; other bytes are copied (multi-byte UTF-8 text is printed verbatim by
  \<open>strconv.Quote\<close> when it is printable; other non-ASCII input is outside the model).
\<close>

definition hex_char :: "nat \<Rightarrow> char" where
  "hex_char d = (if d < 10 then char_of (48 + d) else char_of (87 + d))"

definition quote_char :: "char \<Rightarrow> string" where
  "quote_char c =
     (let n = (of_char c :: nat); b = CHR 0x5C in
      if n = 34 \<or> n = 92 then [b, c]
      else if n = 7 then [b, CHR ''a''] else if n = 8 then [b, CHR ''b'']
      else if n = 9 then [b, CHR ''t''] else if n = 10 then [b, CHR ''n'']
      else if n = 11 then [b, CHR ''v''] else if n = 12 then [b, CHR ''f'']
      else if n = 13 then [b, CHR ''r'']
      else if n < 32 \<or> n = 127 then [b, CHR ''x'', hex_char (n div 16), hex_char (n mod 16)]
      else [c])"

definition go_quote :: "string \<Rightarrow> string" where
  "go_quote s = [CHR 0x22] @ concat (map quote_char s) @ [CHR 0x22]"

section \<open>Generic lemmas\<close>

lemma has_prefix_take: "has_prefix s p \<longleftrightarrow> take (length p) s = p"
  by (induction s p rule: has_prefix.induct) auto

lemma has_prefix_append [simp]: "has_prefix (p @ s) p"
  by (simp add: has_prefix_take)

lemma has_prefix_split: "has_prefix s p \<Longrightarrow> s = p @ drop (length p) s"
  by (metis append_take_drop_id has_prefix_take)

lemma str_cut_Some: "str_cut s sep = Some (a, b) \<Longrightarrow> s = a @ sep @ b"
proof (induction s arbitrary: a b)
  case Nil
  then show ?case by (auto split: if_splits)
next
  case (Cons c cs)
  then show ?case
    by (fastforce split: if_splits dest: has_prefix_split)
qed

lemma str_cut_None: "str_cut s sep = None \<Longrightarrow> s \<noteq> a @ sep @ b"
proof (induction s arbitrary: a)
  case Nil
  then show ?case by (auto split: if_splits)
next
  case (Cons c cs)
  then have np: "\<not> has_prefix (c # cs) sep" and rec: "str_cut cs sep = None"
    by (auto split: if_splits)
  show ?case
  proof (cases a)
    case Nil
    with np show ?thesis by (metis append_Nil has_prefix_append)
  next
    case (Cons d ds)
    with Cons.IH [OF rec, of ds] show ?thesis by auto
  qed
qed

lemma set_replace_char: "set (replace_char c r s) \<subseteq> set r \<union> (set s - {c})"
  by (auto simp: replace_char_def split: if_splits)

lemma replace_char_append: "replace_char c r (a @ b) = replace_char c r a @ replace_char c r b"
  by (simp add: replace_char_def)

lemma split_on_nonempty [simp]: "split_on c s \<noteq> []"
  by (induction s) (auto split: list.splits)

lemma join_split_on: "join [c] (split_on c s) = s"
proof (induction s)
  case Nil
  show ?case by simp
next
  case (Cons x xs)
  obtain p ps where "split_on c xs = p # ps"
    by (meson list.exhaust split_on_nonempty)
  with Cons show ?case by (cases ps) auto
qed

lemma split_on_free: "p \<in> set (split_on c s) \<Longrightarrow> c \<notin> set p"
  by (induction s arbitrary: p) (force split: list.splits if_splits)+

lemma split_on_free_word: "c \<notin> set p \<Longrightarrow> split_on c p = [p]"
  by (induction p) auto

lemma set_split_on: "p \<in> set (split_on c s) \<Longrightarrow> set p \<subseteq> set s"
proof (induction s arbitrary: p)
  case Nil
  then show ?case by simp
next
  case (Cons x xs)
  obtain q qs where "split_on c xs = q # qs"
    by (meson list.exhaust split_on_nonempty)
  with Cons show ?case by (force split: if_splits)
qed

lemma set_join: "set (join sep xs) \<subseteq> set sep \<union> (\<Union>x\<in>set xs. set x)"
  by (induction sep xs rule: join.induct) auto

lemma join_append:
  "xs \<noteq> [] \<Longrightarrow> ys \<noteq> [] \<Longrightarrow> join sep (xs @ ys) = join sep xs @ sep @ join sep ys"
proof (induction sep xs rule: join.induct)
  case (2 sep x)
  then show ?case by (cases ys) auto
qed auto

lemma length_dec [simp]: "dec n \<noteq> []"
  by (subst dec.simps) simp

lemma dec_digits: "c \<in> set (dec n) \<Longrightarrow> is_digit c"
proof (induction n rule: dec.induct)
  case (1 n)
  then show ?case
    by (subst (asm) (2) dec.simps)
      (auto simp: digit_char_def is_digit_def split: if_splits)
qed

text \<open>An increasing relation on adjacent elements, transitive, orders the whole list.\<close>

lemma sorted_wrt_adjacent:
  assumes "transp r" and "\<And>i. Suc i < length xs \<Longrightarrow> r (xs ! i) (xs ! Suc i)"
  shows "sorted_wrt r xs"
  using assms by (simp add: sorted_wrt_iff_nth_Suc_transp)

end
