(* ===== verification/Outcome.thy ===== *)
theory Outcome
  imports Prelude
begin

text \<open>
  Errors and effects. \<open>gerr\<close> is the shape of every Go error value the repository builds: the
  sentinels of \<^verbatim>\<open>engine/errors.go\<close> and \<^verbatim>\<open>storage/registry.go\<close>, an opaque message
  (\<open>errors.New\<close>, an error of the database driver or of user code), a \<open>fmt.Errorf\<close> value that
  wraps one or more errors with \<open>%w\<close>, and \<open>*DanglingLinkError\<close>. \<open>errors_is\<close> is \<open>errors.Is\<close>: it
  walks the wrapped errors. A computation \<open>'s \<Rightarrow> 'a outcome \<times> 's\<close> returns a value, an error or a
  panic, and the state it leaves in each case; \<open>bindP\<close> is the \<open>if err != nil { return err }\<close> of the
  source and the unwinding of a panic.
\<close>

datatype sentinel =
    ErrNotFound | ErrMultipleMatches | ErrDuplicate | ErrRevisionConflict | ErrNotRegistered
  | ErrValidation | ErrTransactionFailed | ErrNoSnapshot | ErrMigrationFailed | ErrLocked
  | ErrDeadlock | ErrSerialization | ErrFTSNotSupported | ErrLockRequiresTransaction
  | ErrIncompatiblePagination | ErrUnsupportedScheme | ErrInvalidFieldName | ErrEmptyContent

datatype gerr =
    Sent sentinel
  | Msg string
  | Wrap string "gerr list"
  | DanglingLink string string

fun errors_is :: "gerr \<Rightarrow> sentinel \<Rightarrow> bool" where
  "errors_is (Sent s) t = (s = t)"
| "errors_is (Msg m) t = False"
| "errors_is (Wrap m es) t = list_ex (\<lambda>e. errors_is e t) es"
| "errors_is (DanglingLink c i) t = (t = ErrNotFound)"

datatype 'a outcome = Ok 'a | Err gerr | Panic string

type_synonym ('s, 'a) prog = "'s \<Rightarrow> 'a outcome \<times> 's"

definition returnP :: "'a \<Rightarrow> ('s, 'a) prog" where
  "returnP x s = (Ok x, s)"

definition throwP :: "gerr \<Rightarrow> ('s, 'a) prog" where
  "throwP e s = (Err e, s)"

definition panicP :: "string \<Rightarrow> ('s, 'a) prog" where
  "panicP m s = (Panic m, s)"

definition bindP :: "('s, 'a) prog \<Rightarrow> ('a \<Rightarrow> ('s, 'b) prog) \<Rightarrow> ('s, 'b) prog" where
  "bindP m f s = (case m s of
      (Ok x, s') \<Rightarrow> f x s'
    | (Err e, s') \<Rightarrow> (Err e, s')
    | (Panic p, s') \<Rightarrow> (Panic p, s'))"

definition getP :: "('s, 's) prog" where
  "getP s = (Ok s, s)"

definition putP :: "'s \<Rightarrow> ('s, unit) prog" where
  "putP t s = (Ok (), t)"

definition modifyP :: "('s \<Rightarrow> 's) \<Rightarrow> ('s, unit) prog" where
  "modifyP f s = (Ok (), f s)"

text \<open>An optional error as a result: \<open>None\<close> is Go's nil error.\<close>

definition checkP :: "gerr option \<Rightarrow> ('s, unit) prog" where
  "checkP r = (case r of None \<Rightarrow> returnP () | Some e \<Rightarrow> throwP e)"

text \<open>\<open>return fmt.Errorf("\<dots>", err)\<close>: the error of a computation, rewritten.\<close>

definition map_err :: "(gerr \<Rightarrow> gerr) \<Rightarrow> ('s, 'a) prog \<Rightarrow> ('s, 'a) prog" where
  "map_err h m s = (case m s of (Err e, s') \<Rightarrow> (Err (h e), s') | r \<Rightarrow> r)"

text \<open>A computation on the second component of a pair state.\<close>

definition on_snd :: "('w, 'a) prog \<Rightarrow> ('d \<times> 'w, 'a) prog" where
  "on_snd m = (\<lambda>(d, w). case m w of (r, w') \<Rightarrow> (r, (d, w')))"

text \<open>A loop over a list that stops at the first error: \<open>for _, x := range xs\<close>.\<close>

primrec forP :: "('a \<Rightarrow> ('s, unit) prog) \<Rightarrow> 'a list \<Rightarrow> ('s, unit) prog" where
  "forP f [] = returnP ()"
| "forP f (x # xs) = bindP (f x) (\<lambda>_. forP f xs)"

fun is_ok :: "'a outcome \<Rightarrow> bool" where
  "is_ok (Ok x) = True"
| "is_ok (Err e) = False"
| "is_ok (Panic p) = False"

section \<open>Evaluation rules\<close>

lemma returnP_simps [simp, den_simps]: "returnP x s = (Ok x, s)"
  by (simp add: returnP_def)

lemma throwP_simps [simp, den_simps]: "throwP e s = (Err e, s)"
  by (simp add: throwP_def)

lemma panicP_simps [simp, den_simps]: "panicP m s = (Panic m, s)"
  by (simp add: panicP_def)

lemma state_simps [simp, den_simps]:
  "getP s = (Ok s, s)" "putP t s = (Ok (), t)" "modifyP f s = (Ok (), f s)"
  by (simp_all add: getP_def putP_def modifyP_def)

lemma checkP_simps [simp, den_simps]: "checkP None = returnP ()" "checkP (Some e) = throwP e"
  by (simp_all add: checkP_def)

lemma bindP_simps [simp, den_simps]:
  "bindP (returnP x) f = f x" "bindP (throwP e) f = throwP e" "bindP (panicP m) f = panicP m"
  by (simp_all add: bindP_def fun_eq_iff)

lemma bindP_Ok: "m s = (Ok x, s') \<Longrightarrow> bindP m f s = f x s'"
  by (simp add: bindP_def)

lemma bindP_Err: "m s = (Err e, s') \<Longrightarrow> bindP m f s = (Err e, s')"
  by (simp add: bindP_def)

lemma bindP_Panic: "m s = (Panic p, s') \<Longrightarrow> bindP m f s = (Panic p, s')"
  by (simp add: bindP_def)

lemma bindP_assoc: "bindP (bindP m f) g = bindP m (\<lambda>x. bindP (f x) g)"
  by (simp add: bindP_def fun_eq_iff split: prod.split outcome.split)

lemma bindP_eq_Ok:
  "bindP m f s = (Ok y, t) \<longleftrightarrow> (\<exists>x s'. m s = (Ok x, s') \<and> f x s' = (Ok y, t))"
  by (auto simp: bindP_def split: prod.split outcome.split)

lemma bindP_OkE:
  assumes "bindP m f s = (Ok y, t)"
  obtains x s' where "m s = (Ok x, s')" and "f x s' = (Ok y, t)"
  using assms by (auto simp: bindP_eq_Ok)

lemma map_err_simps [simp, den_simps]:
  "map_err h (returnP x) = returnP x" "map_err h (throwP e) = throwP (h e)"
  "map_err h (panicP m) = panicP m"
  by (simp_all add: map_err_def fun_eq_iff)

lemma map_err_eq_Ok [simp]: "map_err h m s = (Ok x, t) \<longleftrightarrow> m s = (Ok x, t)"
  by (auto simp: map_err_def split: prod.split outcome.split)

lemma on_snd_eq:
  "on_snd m (d, w) = (r, (d', w')) \<longleftrightarrow> m w = (r, w') \<and> d' = d"
  by (auto simp: on_snd_def split: prod.split)

lemma on_snd_simps [simp, den_simps]: "on_snd m (d, w) = (fst (m w), (d, snd (m w)))"
  by (simp add: on_snd_def split: prod.split)

lemma checkP_eq_Ok [simp]: "checkP r s = (Ok u, t) \<longleftrightarrow> r = None \<and> t = s"
  by (cases r) auto

section \<open>Invariants of computations\<close>

text \<open>\<open>preserves I m\<close>: whatever the outcome, \<open>m\<close> keeps \<open>I\<close>.\<close>

definition preserves :: "('s \<Rightarrow> bool) \<Rightarrow> ('s, 'a) prog \<Rightarrow> bool" where
  "preserves I m \<longleftrightarrow> (\<forall>s. I s \<longrightarrow> I (snd (m s)))"

named_theorems preserves_intros

lemma preservesD: "preserves I m \<Longrightarrow> m s = (r, t) \<Longrightarrow> I s \<Longrightarrow> I t"
  by (metis preserves_def snd_conv)

lemma preserves_return [preserves_intros]: "preserves I (returnP x)"
  by (simp add: preserves_def)

lemma preserves_throw [preserves_intros]: "preserves I (throwP e)"
  by (simp add: preserves_def)

lemma preserves_panic [preserves_intros]: "preserves I (panicP m)"
  by (simp add: preserves_def)

lemma preserves_get [preserves_intros]: "preserves I getP"
  by (simp add: preserves_def)

lemma preserves_check [preserves_intros]: "preserves I (checkP r)"
  by (cases r) (simp_all add: preserves_def)

lemma preserves_bind [preserves_intros]:
  "preserves I m \<Longrightarrow> (\<And>x. preserves I (f x)) \<Longrightarrow> preserves I (bindP m f)"
  by (auto simp: preserves_def bindP_def split: prod.split outcome.split)

lemma preserves_map_err [preserves_intros]: "preserves I m \<Longrightarrow> preserves I (map_err h m)"
  by (auto simp: preserves_def map_err_def split: prod.split outcome.split)

lemma preserves_for [preserves_intros]: "(\<And>x. preserves I (f x)) \<Longrightarrow> preserves I (forP f xs)"
  by (induction xs) (auto intro: preserves_intros)

lemma preserves_if [preserves_intros]:
  "(b \<Longrightarrow> preserves I m) \<Longrightarrow> (\<not> b \<Longrightarrow> preserves I n) \<Longrightarrow> preserves I (if b then m else n)"
  by simp

lemma preserves_case_option [preserves_intros]:
  "(x = None \<Longrightarrow> preserves I m) \<Longrightarrow> (\<And>y. x = Some y \<Longrightarrow> preserves I (f y))
   \<Longrightarrow> preserves I (case x of None \<Rightarrow> m | Some y \<Rightarrow> f y)"
  by (cases x) simp_all

end
