(* ===== verification/Ulid.thy ===== *)
theory Ulid
  imports Outcome "HOL-Library.Word"
begin

unbundle bit_operations_syntax

text \<open>
  \<^verbatim>\<open>idgen/ulid.go\<close>: the generator of document identifiers. The state is the last millisecond and
  the last 80 random bits (ten bytes, big endian); \<open>crypto/rand\<close> is a supply of bytes that the
  computations consume, and a read that the supply cannot serve is the panic of \<open>readRand\<close>. The
  clock reading is an argument, as \<open>g.now\<close> is a field of the Go generator.

  The lemmas read an identifier as one number of 26 base-32 digits: \<open>encode\<close> is shown to print
  \<open>(ms mod 2^50) * 2^80 + rand\<close>, so that byte-wise comparison of identifiers is comparison of
  numbers, and \<open>gen_new\<close> is strictly increasing as long as the 80-bit counter does not overflow.
\<close>

type_synonym u64 = "64 word"
type_synonym byte = "8 word"

section \<open>The generator\<close>

definition crockford_alphabet :: string where
  "crockford_alphabet = ''0123456789ABCDEFGHJKMNPQRSTVWXYZ''"

record generator =
  lastMs :: u64
  lastRand :: "byte list"

definition new_generator :: generator where
  "new_generator = \<lparr>lastMs = 0, lastRand = replicate 10 0\<rparr>"

definition read_rand :: "nat \<Rightarrow> (byte list, byte list) prog" where
  "read_rand n src =
     (if length src < n then (Panic ''idgen: crypto/rand failed'', src)
      else (Ok (take n src), drop n src))"

definition seed :: "(byte list, byte list) prog" where
  "seed = read_rand 10"

text \<open>\<open>binary.BigEndian.Uint32\<close> of four bytes.\<close>

definition be_uint32 :: "byte list \<Rightarrow> 32 word" where
  "be_uint32 b = (push_bit 24 (ucast (b ! 0))) OR (push_bit 16 (ucast (b ! 1)))
     OR (push_bit 8 (ucast (b ! 2))) OR (ucast (b ! 3))"

text \<open>The carry loop \<open>for i := 9; i >= 0 && carry > 0; i--\<close>; the list holds the bytes from
  index \<open>i\<close> downwards.\<close>

fun carry_loop :: "u64 \<Rightarrow> byte list \<Rightarrow> byte list \<times> u64" where
  "carry_loop carry [] = ([], carry)"
| "carry_loop carry (b # bs) =
     (if carry > 0 then
        let sum = ucast b + carry;
            (rest, c) = carry_loop (drop_bit 8 sum) bs
        in (ucast (sum AND 0xFF) # rest, c)
      else (b # bs, carry))"

definition add_rand_step80 :: "byte list \<Rightarrow> (byte list, bool \<times> byte list) prog" where
  "add_rand_step80 b =
     bindP (read_rand 4) (\<lambda>sb.
       let step0 = be_uint32 sb;
           step = (if step0 = 0 then 1 else step0);
           (r, carry) = carry_loop (ucast step) (rev b)
       in returnP (carry = 0, rev r))"

definition alpha :: "u64 \<Rightarrow> char" where
  "alpha i = crockford_alphabet ! unat i"

definition alphab :: "byte \<Rightarrow> char" where
  "alphab i = crockford_alphabet ! unat i"

definition encode_ms :: "u64 \<Rightarrow> string" where
  "encode_ms ms =
    [alpha (drop_bit 45 ms AND 0x1F), alpha (drop_bit 40 ms AND 0x1F),
     alpha (drop_bit 35 ms AND 0x1F), alpha (drop_bit 30 ms AND 0x1F),
     alpha (drop_bit 25 ms AND 0x1F), alpha (drop_bit 20 ms AND 0x1F),
     alpha (drop_bit 15 ms AND 0x1F), alpha (drop_bit 10 ms AND 0x1F),
     alpha (drop_bit 5 ms AND 0x1F), alpha (ms AND 0x1F)]"

text \<open>Eight characters for five bytes; \<open>encode\<close> writes the same eight expressions for
  \<open>r[0..4]\<close> (lines 120--127) and \<open>r[5..9]\<close> (lines 128--135).\<close>

definition encode_five :: "byte \<Rightarrow> byte \<Rightarrow> byte \<Rightarrow> byte \<Rightarrow> byte \<Rightarrow> string" where
  "encode_five r0 r1 r2 r3 r4 =
    [alphab (drop_bit 3 (r0 AND 0xF8)),
     alphab (push_bit 2 (r0 AND 0x07) OR drop_bit 6 (r1 AND 0xC0)),
     alphab (drop_bit 1 (r1 AND 0x3E)),
     alphab (push_bit 4 (r1 AND 0x01) OR drop_bit 4 (r2 AND 0xF0)),
     alphab (push_bit 1 (r2 AND 0x0F) OR drop_bit 7 (r3 AND 0x80)),
     alphab (drop_bit 2 (r3 AND 0x7C)),
     alphab (push_bit 3 (r3 AND 0x03) OR drop_bit 5 (r4 AND 0xE0)),
     alphab (r4 AND 0x1F)]"

definition encode :: "u64 \<Rightarrow> byte list \<Rightarrow> string" where
  "encode ms r = encode_ms ms @ encode_five (r!0) (r!1) (r!2) (r!3) (r!4)
                              @ encode_five (r!5) (r!6) (r!7) (r!8) (r!9)"

definition gen_new :: "u64 \<Rightarrow> (generator \<times> byte list, string) prog" where
  "gen_new now = (\<lambda>(g, src).
     if now > lastMs g then
       (case seed src of
          (Ok r, src') \<Rightarrow> (let g' = g\<lparr>lastMs := now, lastRand := r\<rparr>
                          in (Ok (encode (lastMs g') (lastRand g')), (g', src')))
        | (Err e, src') \<Rightarrow> (Err e, (g\<lparr>lastMs := now\<rparr>, src'))
        | (Panic p, src') \<Rightarrow> (Panic p, (g\<lparr>lastMs := now\<rparr>, src')))
     else
       (case add_rand_step80 (lastRand g) src of
          (Ok (ok, r), src') \<Rightarrow>
            (if ok then (let g' = g\<lparr>lastRand := r\<rparr>
                         in (Ok (encode (lastMs g') (lastRand g')), (g', src')))
             else (case seed src' of
                 (Ok r', src'') \<Rightarrow> (let g' = g\<lparr>lastRand := r'\<rparr>
                                    in (Ok (encode (lastMs g') (lastRand g')), (g', src'')))
               | (Err e, src'') \<Rightarrow> (Err e, (g\<lparr>lastRand := r\<rparr>, src''))
               | (Panic p, src'') \<Rightarrow> (Panic p, (g\<lparr>lastRand := r\<rparr>, src''))))
        | (Err e, src') \<Rightarrow> (Err e, (g, src'))
        | (Panic p, src') \<Rightarrow> (Panic p, (g, src'))))"

section \<open>Byte strings as numbers\<close>

fun le_val :: "byte list \<Rightarrow> nat" where
  "le_val [] = 0"
| "le_val (b # bs) = unat b + 256 * le_val bs"

definition be_val :: "byte list \<Rightarrow> nat" where
  "be_val bs = le_val (rev bs)"

lemma unat_byte_less: "unat (b :: byte) < 256"
proof -
  have "unat b < 2 ^ LENGTH(8)" by (rule unsigned_less)
  then show ?thesis by simp
qed

lemma le_val_less: "le_val bs < 256 ^ length bs"
proof (induction bs)
  case (Cons b bs)
  have "unat b + 256 * le_val bs < 256 + 256 * le_val bs"
    using unat_byte_less by simp
  also have "\<dots> \<le> 256 * 256 ^ length bs"
    using Cons by (simp add: Suc_le_eq [symmetric] del: Suc_le_eq)
  finally show ?case by simp
qed simp

lemma be_val_less: "length bs = n \<Longrightarrow> be_val bs < 256 ^ n"
  using le_val_less [of "rev bs"] by (simp add: be_val_def)

lemma be_val_inj: "length xs = length ys \<Longrightarrow> be_val xs = be_val ys \<Longrightarrow> xs = ys"
proof -
  have "length xs = length ys \<Longrightarrow> le_val xs = le_val ys \<Longrightarrow> xs = ys" for xs ys
  proof (induction xs ys rule: list_induct2)
    case (Cons x xs y ys)
    then have eq: "unat x + 256 * le_val xs = unat y + 256 * le_val ys" by simp
    then have "(unat x + 256 * le_val xs) mod 256 = (unat y + 256 * le_val ys) mod 256" by simp
    then have "unat x = unat y" using unat_byte_less [of x] unat_byte_less [of y] by simp
    with eq Cons show ?case by (simp add: word_unat_eq_iff)
  qed simp
  then show "length xs = length ys \<Longrightarrow> be_val xs = be_val ys \<Longrightarrow> xs = ys"
    by (metis be_val_def length_rev rev_swap)
qed

text \<open>The carry loop adds: what it leaves in the bytes plus the carry out is the sum.\<close>

lemma unat_carry_sum:
  fixes b :: byte and c :: u64
  assumes "unat c \<le> 2 ^ 32"
  shows "unat (ucast b + c) = unat b + unat c"
proof -
  have "unat (ucast b :: u64) = unat b"
    by (simp add: unsigned_ucast_eq take_bit_nat_eq_self_iff)
      (use unat_byte_less [of b] in simp)
  moreover have "unat b + unat c < 2 ^ 64"
    using assms unat_byte_less [of b] by simp
  ultimately show ?thesis
    by (subst unat_add_lem [THEN iffD1]) simp_all
qed

lemma carry_loop_sum:
  assumes "unat carry \<le> 2 ^ 32" and "carry_loop carry bs = (rs, c)"
  shows "length rs = length bs \<and> le_val rs + 256 ^ length bs * unat c = le_val bs + unat carry"
  using assms
proof (induction carry bs arbitrary: rs c rule: carry_loop.induct)
  case (2 carry b bs)
  show ?case
  proof (cases "carry > 0")
    case False
    then have "carry = 0" by (simp add: word_gt_0)
    with 2 show ?thesis by simp
  next
    case True
    define s where "s = ucast b + carry"
    obtain rest d where rec: "carry_loop (drop_bit 8 s) bs = (rest, d)" by fastforce
    from 2(3) True rec have rs: "rs = ucast (s AND 0xFF) # rest" and c: "c = d"
      by (auto simp: s_def Let_def)
    have us: "unat s = unat b + unat carry"
      using "2.prems"(1) by (simp add: s_def unat_carry_sum)
    have hi: "unat (drop_bit 8 s) = unat s div 256"
      by (simp add: drop_bit_eq_div unat_div)
    have "unat (drop_bit 8 s) \<le> 2 ^ 32"
      using us hi "2.prems"(1) unat_byte_less [of b] by simp
    from "2.IH" [OF True s_def this rec]
    have IH: "length rest = length bs"
      "le_val rest + 256 ^ length bs * unat d = le_val bs + unat s div 256"
      by (auto simp: hi)
    have lo: "unat (ucast (s AND 0xFF) :: byte) = unat s mod 256"
    proof -
      have "s AND 0xFF = take_bit 8 s" by (simp add: take_bit_eq_mask mask_eq_exp_minus_1)
      then show ?thesis
        by (simp add: unsigned_ucast_eq unsigned_take_bit_eq take_bit_eq_mod unat_mod)
    qed
    have "le_val rs + 256 ^ length (b # bs) * unat c
        = unat s mod 256 + 256 * (le_val rest + 256 ^ length bs * unat d)"
      by (simp add: rs c lo algebra_simps)
    also have "\<dots> = unat s mod 256 + 256 * (le_val bs + unat s div 256)"
      by (simp add: IH)
    also have "\<dots> = 256 * le_val bs + unat s"
      by (simp add: algebra_simps)
    finally show ?thesis using IH by (simp add: rs us)
  qed
qed simp


section \<open>The identifier as a number\<close>

text \<open>Base-32 digits, most significant first.\<close>

fun val32 :: "nat list \<Rightarrow> nat" where
  "val32 [] = 0"
| "val32 (d # ds) = 32 ^ length ds * d + val32 ds"

lemma val32_append: "val32 (xs @ ys) = 32 ^ length ys * val32 xs + val32 ys"
  by (induction xs) (simp_all add: power_add algebra_simps)

lemma val32_less: "\<forall>d\<in>set ds. d < 32 \<Longrightarrow> val32 ds < 32 ^ length ds"
proof (induction ds)
  case (Cons d ds)
  then have "d \<le> 31" and "val32 ds < 32 ^ length ds" by auto
  moreover from \<open>d \<le> 31\<close> have "32 ^ length ds * d \<le> 32 ^ length ds * 31" by simp
  ultimately have "32 ^ length ds * d + val32 ds < 32 ^ length ds * 32" by linarith
  then show ?case by simp
qed simp

text \<open>On digit lists of one length, lexicographic order is the order of the values.\<close>

lemma val32_less_iff:
  "length xs = length ys \<Longrightarrow> \<forall>d\<in>set xs. d < 32 \<Longrightarrow> \<forall>d\<in>set ys. d < 32 \<Longrightarrow>
   val32 xs < val32 ys \<longleftrightarrow> xs < ys"
proof (induction xs ys rule: list_induct2)
  case (Cons x xs y ys)
  let ?p = "32 ^ length ys :: nat"
  have bx: "val32 xs < ?p" and b_y: "val32 ys < ?p"
    using Cons.prems Cons.hyps val32_less [of xs] val32_less [of ys] by auto
  show ?case
  proof (cases x y rule: linorder_cases)
    case less
    then have "?p * x + ?p \<le> ?p * y" by (metis Suc_leI add.commute mult_Suc_right mult_le_mono2)
    with bx less Cons.hyps show ?thesis by simp
  next
    case equal
    with Cons show ?thesis by simp
  next
    case greater
    then have "?p * y + ?p \<le> ?p * x" by (metis Suc_leI add.commute mult_Suc_right mult_le_mono2)
    with b_y greater Cons.hyps show ?thesis by simp
  qed
qed simp

definition digit32 :: "nat \<Rightarrow> char" where
  "digit32 d = crockford_alphabet ! d"

lemma length_alphabet [simp]: "length crockford_alphabet = 32"
  by (simp add: crockford_alphabet_def)

lemma alphabet_increasing:
  assumes "d < e" and "e < 32"
  shows "digit32 d < digit32 e"
proof -
  have "sorted_wrt (<) crockford_alphabet"
    by (simp add: crockford_alphabet_def less_char_def)
  with assms show ?thesis
    unfolding digit32_def using sorted_wrt_nth_less [of "(<)" crockford_alphabet d e] by simp
qed

lemma digit32_less_iff: "d < 32 \<Longrightarrow> e < 32 \<Longrightarrow> digit32 d < digit32 e \<longleftrightarrow> d < e"
  by (metis alphabet_increasing linorder_less_linear order_less_asym)

lemma map_digit32_less_iff:
  "length xs = length ys \<Longrightarrow> \<forall>d\<in>set xs. d < 32 \<Longrightarrow> \<forall>d\<in>set ys. d < 32 \<Longrightarrow>
   map digit32 xs < map digit32 ys \<longleftrightarrow> xs < ys"
proof (induction xs ys rule: list_induct2)
  case (Cons x xs y ys)
  then have "digit32 x < digit32 y \<longleftrightarrow> x < y" "digit32 x = digit32 y \<longleftrightarrow> x = y"
    using digit32_less_iff [of x y] digit32_less_iff [of y x] by (auto simp: neq_iff)
  with Cons show ?case by simp
qed simp

definition ms_digits :: "nat \<Rightarrow> nat list" where
  "ms_digits m = map (\<lambda>k. m div 32 ^ k mod 32) (rev [0..<10])"

definition five_digits :: "nat \<Rightarrow> nat \<Rightarrow> nat \<Rightarrow> nat \<Rightarrow> nat \<Rightarrow> nat list" where
  "five_digits a b c d e = [a div 8, 4 * (a mod 8) + b div 64, b div 2 mod 32,
     16 * (b mod 2) + c div 16, 2 * (c mod 16) + d div 128, d div 4 mod 32,
     8 * (d mod 4) + e div 32, e mod 32]"

lemma val32_digits: "val32 (map (\<lambda>k. m div 32 ^ k mod 32) (rev [0..<n])) = m mod 32 ^ n"
proof (induction n)
  case (Suc n)
  then show ?case
    using mod_mult2_eq [of m "32 ^ n" 32] by (simp add: mult.commute)
qed simp

lemma val32_ms_digits: "val32 (ms_digits m) = m mod 32 ^ 10"
  unfolding ms_digits_def by (rule val32_digits)

lemma val32_five_digits:
  "val32 (five_digits a b c d e)
    = 2 ^ 32 * a + 2 ^ 24 * b + 2 ^ 16 * c + 2 ^ 8 * d + (e :: nat)"
proof -
  have split: "x = (p * q) * (x div (p * q)) + p * (x div p mod q) + x mod p" for x p q :: nat
    using mod_mult2_eq [of x p q] mult_div_mod_eq [of "p * q" x] by simp
  define a1 a0 b2 b1 b0 c1 c0 d2 d1 d0 e1 e0 where
    defs: "a1 = a div 8" "a0 = a mod 8" "b2 = b div 64" "b1 = b div 2 mod 32" "b0 = b mod 2"
      "c1 = c div 16" "c0 = c mod 16" "d2 = d div 128" "d1 = d div 4 mod 32" "d0 = d mod 4"
      "e1 = e div 32" "e0 = e mod 32"
  have eqs: "a = 8 * a1 + a0" "b = 64 * b2 + 2 * b1 + b0" "c = 16 * c1 + c0"
    "d = 128 * d2 + 4 * d1 + d0" "e = 32 * e1 + e0"
    using split [of b 2 32] split [of d 4 32] by (simp_all add: defs)
  have "five_digits a b c d e = [a1, 4 * a0 + b2, b1, 16 * b0 + c1, 2 * c0 + d2, d1, 8 * d0 + e1, e0]"
    by (simp add: five_digits_def defs)
  then show ?thesis
    unfolding eqs by (simp add: algebra_simps)
qed

section \<open>What \<open>encode\<close> prints\<close>

lemma unat_take_bit: "unat (take_bit n (b :: 'a :: len word)) = unat b mod 2 ^ n"
  unfolding unsigned_take_bit_eq by (rule take_bit_eq_mod)

lemma unat_drop_bit: "unat (drop_bit n (b :: 'a :: len word)) = unat b div 2 ^ n"
  unfolding unat_drop_bit_eq by (rule drop_bit_eq_div)

lemma unat_mask_byte:
  fixes b :: byte
  assumes "n \<le> 8"
  shows "unat (b AND mask n) = unat b mod 2 ^ n"
  unfolding take_bit_eq_mask [symmetric] by (rule unat_take_bit)

text \<open>The two shapes of a printed byte group: the high part of one byte, and the low bits of
  one byte above the high bits of the next.\<close>

lemma unat_drop_and:
  fixes b :: "'a :: len word"
  assumes "m = push_bit k (mask n)"
  shows "unat (drop_bit k (b AND m)) = unat b div 2 ^ k mod 2 ^ n"
proof -
  have "drop_bit k (b AND m) = take_bit n (drop_bit k b)"
  proof (rule bit_word_eqI)
    fix i assume "i < LENGTH('a)"
    then show "bit (drop_bit k (b AND m)) i = bit (take_bit n (drop_bit k b)) i"
      using bit_imp_le_length [of b "k + i"] by (auto simp: assms bit_simps)
  qed
  then show ?thesis by (simp only: unat_take_bit unat_drop_bit)
qed

lemma unat_push_or:
  fixes a b :: byte
  assumes m: "m = mask n" and "k + n \<le> 8" and b: "unat b < 2 ^ k"
  shows "unat (push_bit k (a AND m) OR b) = 2 ^ k * (unat a mod 2 ^ n) + unat b"
proof -
  have high: "\<not> bit b i" if "k \<le> i" for i
  proof -
    have "take_bit k b = b"
      using b by (simp add: word_unat_eq_iff unsigned_take_bit_eq take_bit_nat_eq_self_iff)
    with that show ?thesis by (metis bit_take_bit_iff not_less)
  qed
  have "push_bit k (a AND m) OR b = push_bit k (a AND m) + b"
    by (rule disjunctive_add_eq_or [symmetric])
      (auto simp: bit_eq_iff bit_simps dest: high)
  moreover have p: "unat (push_bit k (a AND m)) = 2 ^ k * (unat a mod 2 ^ n)"
  proof -
    have "2 ^ k * (unat a mod 2 ^ n) < 2 ^ k * 2 ^ n" by simp
    also have "\<dots> \<le> 2 ^ 8" using assms(2) by (metis one_le_numeral power_add power_increasing)
    finally have less: "2 ^ k * (unat a mod 2 ^ n) < 2 ^ 8" .
    have "n \<le> 8" using assms(2) by simp
    have "unat (push_bit k (a AND m)) = take_bit 8 (2 ^ k * (unat a mod 2 ^ n))"
      unfolding m unsigned_push_bit_eq unat_mask_byte [OF \<open>n \<le> 8\<close>]
      by (simp add: push_bit_eq_mult mult.commute)
    with less show ?thesis by (simp add: take_bit_nat_eq_self)
  qed
  moreover have "2 ^ k * (unat a mod 2 ^ n) + unat b < 2 ^ 8"
  proof -
    have "unat a mod 2 ^ n + 1 \<le> 2 ^ n" by (simp add: Suc_le_eq)
    then have "2 ^ k * (unat a mod 2 ^ n + 1) \<le> 2 ^ k * 2 ^ n" by (rule mult_le_mono2)
    also have "\<dots> \<le> 2 ^ 8" using assms(2) by (metis one_le_numeral power_add power_increasing)
    finally show ?thesis using b by simp
  qed
  ultimately show ?thesis by (simp add: unat_word_ariths)
qed

lemma alpha_digit: "alpha (drop_bit k ms AND 0x1F) = digit32 (unat ms div 2 ^ k mod 32)"
proof -
  have "(0x1F :: u64) = mask 5" by (simp add: mask_eq_exp_minus_1)
  then have "drop_bit k ms AND 0x1F = take_bit 5 (drop_bit k ms)"
    by (simp only: take_bit_eq_mask)
  then have "unat (drop_bit k ms AND 0x1F) = unat ms div 2 ^ k mod 2 ^ 5"
    by (simp only: unat_take_bit unat_drop_bit)
  then show ?thesis by (simp add: alpha_def digit32_def)
qed

lemma encode_ms_digits: "encode_ms ms = map digit32 (ms_digits (unat ms))"
proof -
  have "ms AND 0x1F = drop_bit 0 ms AND 0x1F" by simp
  then show ?thesis
    unfolding encode_ms_def ms_digits_def alpha_digit
    by (simp only: alpha_digit) (simp add: upt_rec)
qed

lemma encode_five_digits:
  "encode_five a b c d e = map digit32 (five_digits (unat a) (unat b) (unat c) (unat d) (unat e))"
proof -
  have masks: "(0xF8 :: byte) = push_bit 3 (mask 5)" "(0x07 :: byte) = mask 3"
    "(0xC0 :: byte) = push_bit 6 (mask 2)" "(0x3E :: byte) = push_bit 1 (mask 5)"
    "(0x01 :: byte) = mask 1" "(0xF0 :: byte) = push_bit 4 (mask 4)" "(0x0F :: byte) = mask 4"
    "(0x80 :: byte) = push_bit 7 (mask 1)" "(0x7C :: byte) = push_bit 2 (mask 5)"
    "(0x03 :: byte) = mask 2" "(0xE0 :: byte) = push_bit 5 (mask 3)" "(0x1F :: byte) = mask 5"
    by (simp_all add: mask_eq_exp_minus_1)
  have top: "unat (drop_bit k (x AND m)) = unat x div p"
    if "m = push_bit k (mask n)" "k + n = 8" "p = 2 ^ k" for k n p and x m :: byte
  proof -
    have "unat x < 2 ^ k * 2 ^ n"
      using unat_byte_less [of x] that(2) by (simp add: power_add [symmetric])
    then have "unat x div 2 ^ k < 2 ^ n" by (simp add: less_mult_imp_div_less mult.commute)
    then show ?thesis by (simp only: unat_drop_and [OF that(1)] that(3) mod_less)
  qed
  have mid: "unat (drop_bit k (x AND m)) = unat x div p mod 32"
    if "m = push_bit k (mask 5)" "p = 2 ^ k" for k p and x m :: byte
    unfolding unat_drop_and [OF that(1)] that(2) by simp
  have pair: "unat (push_bit k (x AND m) OR drop_bit j (y AND m')) = p * (unat x mod q) + unat y div r"
    if "m = mask n" "m' = push_bit j (mask l)" "k + n \<le> 8" "j + l = 8" "l = k"
      "p = 2 ^ k" "q = 2 ^ n" "r = 2 ^ j" for k n j l p q r and x y m m' :: byte
  proof -
    have "unat y < 2 ^ j * 2 ^ l"
      using unat_byte_less [of y] that(4) by (simp add: power_add [symmetric])
    then have "unat (drop_bit j (y AND m')) < 2 ^ k"
      unfolding top [OF that(2,4) refl] that(5)
      by (simp add: less_mult_imp_div_less mult.commute)
    from unat_push_or [OF that(1,3) this, of x] show ?thesis
      by (simp only: top [OF that(2,4) refl] that(6,7,8))
  qed
  have last: "unat (e AND 0x1F) = unat e mod 32"
    unfolding masks(12) by (subst unat_mask_byte) simp_all
  have groups: "unat (drop_bit 3 (a AND 0xF8)) = unat a div 8"
    "unat (drop_bit 1 (b AND 0x3E)) = unat b div 2 mod 32"
    "unat (drop_bit 2 (d AND 0x7C)) = unat d div 4 mod 32"
    by (rule top [OF masks(1)] mid [OF masks(4)] mid [OF masks(9)]; simp)+
  have pairs: "unat (push_bit 2 (a AND 0x07) OR drop_bit 6 (b AND 0xC0))
      = 4 * (unat a mod 8) + unat b div 64"
    "unat (push_bit 4 (b AND 0x01) OR drop_bit 4 (c AND 0xF0))
      = 16 * (unat b mod 2) + unat c div 16"
    "unat (push_bit 1 (c AND 0x0F) OR drop_bit 7 (d AND 0x80))
      = 2 * (unat c mod 16) + unat d div 128"
    "unat (push_bit 3 (d AND 0x03) OR drop_bit 5 (e AND 0xE0))
      = 8 * (unat d mod 4) + unat e div 32"
    by (rule pair [OF masks(2) masks(3)] pair [OF masks(5) masks(6)] pair [OF masks(7) masks(8)]
        pair [OF masks(10) masks(11)]; simp)+
  show ?thesis
    by (simp only: encode_five_def five_digits_def alphab_def digit32_def list.map groups pairs last)
qed

text \<open>The digits of an identifier and their value.\<close>

definition id_digits :: "u64 \<Rightarrow> byte list \<Rightarrow> nat list" where
  "id_digits ms r = ms_digits (unat ms)
     @ five_digits (unat (r!0)) (unat (r!1)) (unat (r!2)) (unat (r!3)) (unat (r!4))
     @ five_digits (unat (r!5)) (unat (r!6)) (unat (r!7)) (unat (r!8)) (unat (r!9))"

lemma encode_digits: "encode ms r = map digit32 (id_digits ms r)"
  by (simp add: encode_def id_digits_def encode_ms_digits encode_five_digits)

lemma length_ms_digits [simp]: "length (ms_digits m) = 10"
  by (simp add: ms_digits_def)

lemma length_five_digits [simp]: "length (five_digits a b c d e) = 8"
  by (simp add: five_digits_def)

lemma length_id_digits [simp]: "length (id_digits ms r) = 26"
  by (simp add: id_digits_def)

lemma five_digits_less:
  assumes "a < 256" "b < 256" "c < 256" "d < 256" "e < 256"
  shows "\<forall>x\<in>set (five_digits a b c d e). x < 32"
proof -
  have "4 * (a mod 8) + b div 64 < 32" "16 * (b mod 2) + c div 16 < 32"
    "2 * (c mod 16) + d div 128 < 32" "8 * (d mod 4) + e div 32 < 32" "a div 8 < 32"
    using assms mod_less_divisor [of 8 a] mod_less_divisor [of 2 b] mod_less_divisor [of 16 c]
      mod_less_divisor [of 4 d] less_mult_imp_div_less [of b 4 64] less_mult_imp_div_less [of c 16 16]
      less_mult_imp_div_less [of d 2 128] less_mult_imp_div_less [of e 8 32]
      less_mult_imp_div_less [of a 32 8] by linarith+
  moreover have "x mod 32 < 32" for x :: nat by simp
  ultimately show ?thesis
    by (simp only: five_digits_def list.set ball_simps simp_thms)
qed

lemma id_digits_less: "\<forall>x\<in>set (id_digits ms r). x < 32"
proof -
  have "\<forall>x\<in>set (ms_digits m). x < 32" for m
    by (auto simp: ms_digits_def)
  then show ?thesis
    unfolding id_digits_def set_append
    using five_digits_less [OF unat_byte_less unat_byte_less unat_byte_less unat_byte_less
        unat_byte_less]
    by blast
qed

lemma be_val_10:
  assumes "length r = 10"
  shows "be_val r = 2 ^ 40 * (2 ^ 32 * unat (r!0) + 2 ^ 24 * unat (r!1) + 2 ^ 16 * unat (r!2)
      + 2 ^ 8 * unat (r!3) + unat (r!4))
    + (2 ^ 32 * unat (r!5) + 2 ^ 24 * unat (r!6) + 2 ^ 16 * unat (r!7) + 2 ^ 8 * unat (r!8)
      + unat (r!9))"
proof -
  obtain a b c d e f g h i j where "r = [a, b, c, d, e, f, g, h, i, j]"
    using assms by (auto simp: numeral_eq_Suc length_Suc_conv)
  then show ?thesis
    by (simp add: be_val_def)
qed

lemma val32_id_digits:
  assumes "length r = 10"
  shows "val32 (id_digits ms r) = (unat ms mod 2 ^ 50) * 2 ^ 80 + be_val r"
  using assms
  by (simp add: id_digits_def val32_append val32_ms_digits val32_five_digits be_val_10)

lemma encode_less_iff:
  assumes "length r = 10" "length r' = 10"
  shows "encode ms r < encode ms' r' \<longleftrightarrow>
    (unat ms mod 2 ^ 50) * 2 ^ 80 + be_val r < (unat ms' mod 2 ^ 50) * 2 ^ 80 + be_val r'"
proof -
  have "encode ms r < encode ms' r' \<longleftrightarrow> id_digits ms r < id_digits ms' r'"
    unfolding encode_digits by (rule map_digit32_less_iff) (simp_all add: id_digits_less)
  also have "\<dots> \<longleftrightarrow> val32 (id_digits ms r) < val32 (id_digits ms' r')"
    by (rule val32_less_iff [symmetric]) (simp_all add: id_digits_less)
  finally show ?thesis by (simp only: val32_id_digits [OF assms(1)] val32_id_digits [OF assms(2)])
qed

lemma pair_less_iff:
  fixes m m' b b' p :: nat
  assumes "b < p" "b' < p"
  shows "m * p + b < m' * p + b' \<longleftrightarrow> m < m' \<or> m = m' \<and> b < b'"
proof (cases m m' rule: linorder_cases)
  case less
  then have "m * p + p \<le> m' * p" by (metis Suc_leI mult_Suc add.commute mult_le_mono1)
  with less assms show ?thesis by simp
next
  case greater
  then have "m' * p + p \<le> m * p" by (metis Suc_leI mult_Suc add.commute mult_le_mono1)
  with greater assms show ?thesis by simp
qed simp

lemma encode_order:
  assumes "length r = 10" "length r' = 10" "unat ms < 2 ^ 50" "unat ms' < 2 ^ 50"
  shows "encode ms r < encode ms' r' \<longleftrightarrow> ms < ms' \<or> ms = ms' \<and> be_val r < be_val r'"
proof -
  have "be_val r < 2 ^ 80" "be_val r' < 2 ^ 80"
    using be_val_less [OF assms(1)] be_val_less [OF assms(2)] by simp_all
  from pair_less_iff [OF this, of "unat ms" "unat ms'"] assms show ?thesis
    by (simp add: encode_less_iff word_less_nat_alt word_unat_eq_iff)
qed

section \<open>The counter step\<close>

definition step_of :: "byte list \<Rightarrow> nat" where
  "step_of sb = unat (if be_uint32 sb = 0 then 1 else be_uint32 sb)"

lemma step_of_bounds: "0 < step_of sb \<and> step_of sb < 2 ^ 32"
proof -
  have "unat w < 2 ^ LENGTH(32)" for w :: "32 word" by (rule unsigned_less)
  then show ?thesis by (auto simp: step_of_def unat_gt_0)
qed

lemma be_val_rev: "be_val (rev bs) = le_val bs"
  by (simp add: be_val_def)

lemma add_rand_step80_result:
  assumes "4 \<le> length src"
  shows "\<exists>r. add_rand_step80 b src
       = (Ok (be_val b + step_of (take 4 src) < 256 ^ length b, r), drop 4 src)
     \<and> length r = length b
     \<and> be_val r = (be_val b + step_of (take 4 src)) mod 256 ^ length b"
proof -
  define st :: "32 word" where
    "st = (if be_uint32 (take 4 src) = 0 then 1 else be_uint32 (take 4 src))"
  obtain r c where loop: "carry_loop (ucast st) (rev b) = (r, c)" by fastforce
  have st: "unat (ucast st :: u64) = step_of (take 4 src)"
    by (simp add: st_def step_of_def unsigned_ucast_eq take_bit_nat_eq_self
        order_less_le_trans [OF unsigned_less])
  then have "unat (ucast st :: u64) \<le> 2 ^ 32"
    using step_of_bounds [of "take 4 src"] by simp
  from carry_loop_sum [OF this loop]
  have len: "length r = length b"
    and sum: "le_val r + 256 ^ length b * unat c = be_val b + step_of (take 4 src)"
    by (simp_all add: st be_val_def)
  have less: "le_val r < 256 ^ length b"
    using le_val_less [of r] by (simp add: len)
  have "(be_val b + step_of (take 4 src)) mod 256 ^ length b = le_val r"
    unfolding sum [symmetric] using less by simp
  moreover have "c = 0 \<longleftrightarrow> be_val b + step_of (take 4 src) < 256 ^ length b"
  proof
    assume "c = 0" then show "be_val b + step_of (take 4 src) < 256 ^ length b"
      using sum less by simp
  next
    assume "be_val b + step_of (take 4 src) < 256 ^ length b"
    then have "256 ^ length b * unat c < 256 ^ length b * 1" using sum by linarith
    then show "c = 0" by (simp add: unat_eq_zero)
  qed
  ultimately show ?thesis
    using assms loop len
    by (simp add: add_rand_step80_def bindP_def read_rand_def st_def [symmetric] Let_def be_val_rev)
qed

section \<open>Monotonicity\<close>

definition generator_ok :: "generator \<Rightarrow> bool" where
  "generator_ok g \<longleftrightarrow> length (lastRand g) = 10 \<and> unat (lastMs g) < 2 ^ 50"

definition last_id :: "generator \<Rightarrow> string" where
  "last_id g = encode (lastMs g) (lastRand g)"

text \<open>The draw whose 80-bit counter wraps: the branch in which \<open>new\<close> re-seeds.\<close>

definition gen_overflows :: "u64 \<Rightarrow> generator \<times> byte list \<Rightarrow> bool" where
  "gen_overflows now s \<longleftrightarrow> \<not> now > lastMs (fst s) \<and>
     2 ^ 80 \<le> be_val (lastRand (fst s)) + step_of (take 4 (snd s))"

lemma gen_new_increasing:
  assumes ok: "generator_ok g" and now: "unat now < 2 ^ 50" and src: "14 \<le> length src"
    and nov: "\<not> gen_overflows now (g, src)"
  shows "\<exists>g' src'. gen_new now (g, src) = (Ok (last_id g'), (g', src')) \<and> generator_ok g'
     \<and> last_id g < last_id g' \<and> length src \<le> 14 + length src'"
proof (cases "now > lastMs g")
  case True
  define g' where "g' = g\<lparr>lastMs := now, lastRand := take 10 src\<rparr>"
  have "gen_new now (g, src) = (Ok (last_id g'), (g', drop 10 src))"
    using True src by (simp add: gen_new_def seed_def read_rand_def g'_def last_id_def Let_def)
  moreover have "generator_ok g'" "last_id g < last_id g'"
    using ok now src True
    by (simp_all add: generator_ok_def g'_def last_id_def encode_order)
  ultimately show ?thesis by fastforce
next
  case False
  have len: "length (lastRand g) = 10" using ok by (simp add: generator_ok_def)
  from src have "4 \<le> length src" by simp
  from add_rand_step80_result [OF this, of "lastRand g"] obtain r where
    step: "add_rand_step80 (lastRand g) src
       = (Ok (be_val (lastRand g) + step_of (take 4 src) < 256 ^ 10, r), drop 4 src)"
    and r: "length r = 10"
      "be_val r = (be_val (lastRand g) + step_of (take 4 src)) mod 256 ^ 10"
    unfolding len by blast
  have small: "be_val (lastRand g) + step_of (take 4 src) < 256 ^ 10"
    using nov False by (simp add: gen_overflows_def not_le)
  define g' where "g' = g\<lparr>lastRand := r\<rparr>"
  have "gen_new now (g, src) = (Ok (last_id g'), (g', drop 4 src))"
    using False step small by (simp add: gen_new_def g'_def last_id_def Let_def)
  moreover have "be_val (lastRand g) < be_val r"
    unfolding r(2) using small step_of_bounds [of "take 4 src"] by simp
  then have "generator_ok g'" "last_id g < last_id g'"
    using ok len r(1) by (simp_all add: generator_ok_def g'_def last_id_def encode_order)
  ultimately show ?thesis by fastforce
qed

text \<open>A run of the generator over the clock readings of its successive calls.\<close>

fun gen_run :: "u64 list \<Rightarrow> (generator \<times> byte list, string list) prog" where
  "gen_run [] = returnP []"
| "gen_run (now # nows) =
     bindP (gen_new now) (\<lambda>i. bindP (gen_run nows) (\<lambda>is. returnP (i # is)))"

fun run_overflows :: "u64 list \<Rightarrow> generator \<times> byte list \<Rightarrow> bool" where
  "run_overflows [] s = False"
| "run_overflows (now # nows) s =
     (gen_overflows now s \<or> run_overflows nows (snd (gen_new now s)))"

lemma gen_run_increasing:
  assumes "generator_ok g" "\<forall>now\<in>set nows. unat now < 2 ^ 50" "14 * length nows \<le> length src"
    and "\<not> run_overflows nows (g, src)"
  shows "\<exists>ids s'. gen_run nows (g, src) = (Ok ids, s') \<and> length ids = length nows
     \<and> sorted_wrt (<) (last_id g # ids) \<and> (\<forall>i\<in>set ids. length i = 26)"
  using assms
proof (induction nows arbitrary: g src)
  case (Cons now nows)
  from gen_new_increasing [of g now src] Cons.prems obtain g' src' where
    new: "gen_new now (g, src) = (Ok (last_id g'), (g', src'))" "generator_ok g'"
      "last_id g < last_id g'" "length src \<le> 14 + length src'"
    by auto
  then obtain ids s' where run: "gen_run nows (g', src') = (Ok ids, s')"
      "length ids = length nows" "sorted_wrt (<) (last_id g' # ids)" "\<forall>i\<in>set ids. length i = 26"
    using Cons.IH [of g' src'] Cons.prems by auto
  have "gen_run (now # nows) (g, src) = (Ok (last_id g' # ids), s')"
    using new run by (simp add: bindP_def)
  moreover have "length (last_id g') = 26" by (simp add: last_id_def encode_digits)
  moreover have "sorted_wrt (<) (last_id g # last_id g' # ids)"
    using run(3) new(3) by (auto intro: less_trans)
  ultimately show ?case using run(2,4) by (intro exI conjI) (assumption | simp)+
qed simp

section \<open>Properties\<close>

text \<open>Identifiers sort as the pairs of their time stamp and their random part: for time
  stamps below \<open>2^50\<close> milliseconds, the byte-wise order of two encoded identifiers is the
  lexicographic order of the millisecond and of the 80-bit number.\<close>

theorem id_order:
  assumes "length r = 10" "length r' = 10" "unat ms < 2 ^ 50" "unat ms' < 2 ^ 50"
  shows "(encode ms r < encode ms' r' \<longleftrightarrow> ms < ms' \<or> ms = ms' \<and> be_val r < be_val r')
    \<and> length (encode ms r) = 26"
  using encode_order [OF assms] by (simp add: encode_digits)

theorem id_order_witness:
  "encode 5 [0, 0, 0, 0, 0, 0, 0, 0, 0, 7] < encode 5 [0, 0, 0, 0, 0, 0, 0, 0, 1, 0]"
  using id_order [of "[0, 0, 0, 0, 0, 0, 0, 0, 0, 7]" "[0, 0, 0, 0, 0, 0, 0, 0, 1, 0]" 5 5]
  by (simp add: be_val_def)

text \<open>C10. Every run of calls of \<open>New\<close>, whatever the clock shows at each call (going backwards
  included), returns as many identifiers as calls when the entropy source delivers, each of 26
  characters, strictly increasing, the first one above the last identifier issued before the run,
  provided that no draw wraps the 80-bit counter.\<close>

theorem ids_strictly_increase:
  assumes "generator_ok g" "\<forall>now\<in>set nows. unat now < 2 ^ 50" "14 * length nows \<le> length src"
    and "\<not> run_overflows nows (g, src)"
  shows "\<exists>ids s'. gen_run nows (g, src) = (Ok ids, s') \<and> length ids = length nows
     \<and> sorted_wrt (<) (encode (lastMs g) (lastRand g) # ids) \<and> (\<forall>i\<in>set ids. length i = 26)"
  using gen_run_increasing [OF assms] by (simp add: last_id_def)

lemma replicate_ten: "replicate 10 x = [x, x, x, x, x, x, x, x, x, x]"
  by (simp add: numeral_eq_Suc)

theorem ids_strictly_increase_witness:
  "\<exists>ids s'. gen_run [3, 2] (new_generator, replicate 10 9 @ replicate 18 0) = (Ok ids, s')
     \<and> sorted_wrt (<) ids"
proof -
  let ?src = "replicate 10 9 @ replicate 18 0"
  have "gen_new 3 (new_generator, ?src)
      = (Ok (encode 3 (replicate 10 9)), (\<lparr>lastMs = 3, lastRand = replicate 10 9\<rparr>, replicate 18 0))"
    by (simp add: gen_new_def new_generator_def seed_def read_rand_def Let_def)
  moreover have "be_val (replicate 10 9) + step_of (take 4 (replicate 18 0)) < 2 ^ 80"
    using step_of_bounds [of "take 4 (replicate 18 0)"] by (simp add: replicate_ten be_val_def)
  ultimately have "\<not> run_overflows [3, 2] (new_generator, ?src)"
    by (simp add: gen_overflows_def new_generator_def not_le)
  then show ?thesis
    using ids_strictly_increase [of new_generator "[3, 2]" ?src]
    by (auto simp: generator_ok_def new_generator_def)
qed

text \<open>The intra-millisecond step is exact: it consumes four bytes, adds the big-endian
  number they form (1 when they are all zero) to the 80-bit counter modulo \<open>2^80\<close>, and reports
  success exactly when the sum did not wrap.\<close>

theorem rand_step_exact:
  assumes "length b = 10" "4 \<le> length src"
  shows "\<exists>r. add_rand_step80 b src = (Ok (be_val b + step_of (take 4 src) < 2 ^ 80, r), drop 4 src)
     \<and> length r = 10 \<and> be_val r = (be_val b + step_of (take 4 src)) mod 2 ^ 80"
  using add_rand_step80_result [OF assms(2), of b] assms(1) by simp

theorem rand_step_exact_witness:
  "\<exists>r. add_rand_step80 (replicate 10 255) [0, 0, 0, 0] = (Ok (False, r), []) \<and> be_val r = 0"
  using rand_step_exact [of "replicate 10 255" "[0, 0, 0, 0]"]
  by (auto simp: replicate_ten be_val_def step_of_def be_uint32_def)

text \<open>C11. The overflow branch re-seeds below the last identifier without moving the time stamp: two
  successive calls in one millisecond can return decreasing identifiers.\<close>

theorem overflow_breaks_order:
  "\<exists>g'. gen_new 7 (\<lparr>lastMs = 7, lastRand = replicate 10 255\<rparr>, replicate 14 1)
       = (Ok (encode 7 (replicate 10 1)), (g', []))
     \<and> encode 7 (replicate 10 1) < encode 7 (replicate 10 255)"
proof -
  let ?g = "\<lparr>lastMs = 7, lastRand = replicate 10 255\<rparr>"
  from add_rand_step80_result [of "replicate 14 1" "replicate 10 255"] obtain r where
    "add_rand_step80 (replicate 10 255) (replicate 14 1) = (Ok (False, r), replicate 10 1)"
    using step_of_bounds [of "take 4 (replicate 14 1)"]
    by (auto simp: replicate_ten be_val_def)
  then have "gen_new 7 (?g, replicate 14 1)
      = (Ok (encode 7 (replicate 10 1)), (?g\<lparr>lastRand := replicate 10 1\<rparr>, []))"
    by (simp add: gen_new_def seed_def read_rand_def Let_def)
  moreover have "encode 7 (replicate 10 1) < encode 7 (replicate 10 255)"
    by (subst encode_order) (simp_all add: replicate_ten be_val_def)
  ultimately show ?thesis by blast
qed

end
