(* ===== verification/Names.thy ===== *)
theory Names
  imports Outcome
begin

text \<open>
  The string helpers that stand between user text and SQL: \<^verbatim>\<open>internal/util/sql.go\<close>
  (\<open>SanitizeFieldName\<close>, \<open>IdentifierSegment\<close>, \<open>EscapeLike\<close>), \<^verbatim>\<open>internal/util/validate.go\<close>, the tag
  parsers of \<^verbatim>\<open>internal/util/reflect.go\<close> and \<open>LiteralFTS5\<close> of \<^verbatim>\<open>search/search.go\<close>. The lemmas
  say what the escaping is for: a sanitized name contains no byte that could end a quoted JSON
  path, an escaped text used in a LIKE pattern matches exactly itself, and the FTS5 expression
  reads back as the list of the term's words. \<open>like_match\<close> is the pattern language of SQL's
  \<open>LIKE \<dots> ESCAPE '\'\<close>, with the comparison of single characters (case-folding or not) as a
  parameter.
\<close>

section \<open>Field names\<close>

definition name_char :: "char \<Rightarrow> bool" where
  "name_char r \<longleftrightarrow> is_letter r \<or> is_digit r \<or> r = CHR ''_'' \<or> r = CHR ''.''"

definition SanitizeFieldName :: "string \<Rightarrow> string" where
  "SanitizeFieldName field = filter name_char field"

definition IdentifierSegment :: "string \<Rightarrow> string" where
  "IdentifierSegment jsonName = replace_char CHR ''.'' ''_'' jsonName"

definition bslash :: char where
  "bslash = CHR 0x5C"

definition EscapeLike :: "string \<Rightarrow> string" where
  "EscapeLike s =
     (let s = replace_char bslash [bslash, bslash] s;
          s = replace_char CHR ''%'' [bslash, CHR ''%''] s;
          s = replace_char CHR ''_'' [bslash, CHR ''_''] s
      in s)"

definition field_name_ok :: "string \<Rightarrow> bool" where
  "field_name_ok name = (case name of
       [] \<Rightarrow> False
     | c # cs \<Rightarrow> (is_letter c \<or> c = CHR ''_'')
                 \<and> list_all (\<lambda>x. is_letter x \<or> is_digit x \<or> x = CHR ''_'') cs)"

definition ValidateFieldName :: "string \<Rightarrow> gerr option" where
  "ValidateFieldName name =
     (if \<not> field_name_ok name
      then Some (Wrap (go_quote name @ '' must match ^[A-Za-z_][A-Za-z0-9_]*$'')
                   [Sent ErrInvalidFieldName])
      else None)"

section \<open>Struct tags\<close>

record tag_options =
  Index :: bool
  Unique :: bool
  FTS :: bool
  OmitEmpty :: bool
  Eager :: bool
  UniqueTogether :: string
  IndexTogether :: string

definition no_options :: tag_options where
  "no_options = \<lparr>Index = False, Unique = False, FTS = False, OmitEmpty = False, Eager = False,
     UniqueTogether = [], IndexTogether = []\<rparr>"

text \<open>One comma-separated part; \<open>None\<close> is the unknown-option error.\<close>

definition den_tag_part :: "string \<Rightarrow> tag_options \<Rightarrow> tag_options option" where
  "den_tag_part trimmed opts =
     (if trimmed = ''index'' then Some (opts\<lparr>Index := True\<rparr>)
      else if trimmed = ''unique'' then Some (opts\<lparr>Unique := True\<rparr>)
      else if trimmed = ''fts'' then Some (opts\<lparr>FTS := True\<rparr>)
      else if trimmed = ''omitempty'' then Some (opts\<lparr>OmitEmpty := True\<rparr>)
      else if trimmed = ''eager'' then Some (opts\<lparr>Eager := True\<rparr>)
      else if has_prefix trimmed ''unique_together:''
        then Some (opts\<lparr>UniqueTogether := trim_prefix trimmed ''unique_together:''\<rparr>)
      else if has_prefix trimmed ''index_together:''
        then Some (opts\<lparr>IndexTogether := trim_prefix trimmed ''index_together:''\<rparr>)
      else None)"

fun den_tag_parts :: "string list \<Rightarrow> tag_options \<Rightarrow> gerr + tag_options" where
  "den_tag_parts [] opts = Inr opts"
| "den_tag_parts (part # parts) opts =
     (let trimmed = trim_space part in
      if trimmed = [] then den_tag_parts parts opts
      else (case den_tag_part trimmed opts of
          Some opts' \<Rightarrow> den_tag_parts parts opts'
        | None \<Rightarrow> Inl (Msg (''unknown den tag option '' @ go_quote trimmed))))"

definition ParseDenTag :: "string \<Rightarrow> gerr + tag_options" where
  "ParseDenTag tag =
     (if tag = [] then Inr no_options else den_tag_parts (split_on CHR '','' tag) no_options)"

definition ParseJSONTagName :: "string \<Rightarrow> string" where
  "ParseJSONTagName tag =
     (if tag = [] \<or> tag = ''-'' then []
      else (case str_cut tag '','' of Some (name, _) \<Rightarrow> name | None \<Rightarrow> tag))"

definition CollectionName :: "string \<Rightarrow> string" where
  "CollectionName typeName = to_lower typeName"

section \<open>FTS terms\<close>

definition dquote :: char where
  "dquote = CHR 0x22"

text \<open>The loop body of \<open>LiteralFTS5\<close> on the text \<open>b\<close> built so far.\<close>

definition fts5_token :: "string \<Rightarrow> string \<Rightarrow> string" where
  "fts5_token b tok =
     b @ (if b \<noteq> [] then '' '' else []) @ [dquote] @ replace_char dquote [dquote, dquote] tok
       @ [dquote]"

definition LiteralFTS5 :: "string \<Rightarrow> string" where
  "LiteralFTS5 term = foldl fts5_token [] (str_fields term)"

section \<open>Sanitized names\<close>

lemma name_char_not_special [simp]:
  "\<not> name_char (CHR ''?'')" "\<not> name_char (CHR ''$'')" "\<not> name_char (CHR ''('')"
  "\<not> name_char (CHR '')'')" "\<not> name_char (CHR '','')" "\<not> name_char (CHR '' '')"
  "\<not> name_char (CHR 0x27)" "\<not> name_char dquote" "\<not> name_char bslash"
  by (simp_all add: name_char_def is_letter_def is_digit_def dquote_def bslash_def)

lemma set_sanitize: "c \<in> set (SanitizeFieldName f) \<Longrightarrow> name_char c"
  by (simp add: SanitizeFieldName_def)

lemma sanitize_id: "list_all name_char f \<Longrightarrow> SanitizeFieldName f = f"
  by (simp add: SanitizeFieldName_def list_all_iff)

lemma sanitize_idem [simp]: "SanitizeFieldName (SanitizeFieldName f) = SanitizeFieldName f"
  by (simp add: SanitizeFieldName_def)

lemma field_name_ok_chars: "field_name_ok n \<Longrightarrow> c \<in> set n \<Longrightarrow> name_char c \<and> c \<noteq> CHR ''.''"
  by (cases n) (auto simp: field_name_ok_def name_char_def list_all_iff is_letter_def is_digit_def)

lemma field_name_ok_sanitize:
  assumes "field_name_ok n"
  shows "SanitizeFieldName n = n \<and> IdentifierSegment n = n"
proof
  show "SanitizeFieldName n = n"
    using field_name_ok_chars [OF assms] by (simp add: sanitize_id list_all_iff)
  have "map (\<lambda>x. if x = CHR ''.'' then ''_'' else [x]) n = map (\<lambda>x. [x]) n"
    using field_name_ok_chars [OF assms] by simp
  then have "concat (map (\<lambda>x. if x = CHR ''.'' then ''_'' else [x]) n) = n"
    by (simp only: concat_map_singleton list.map_ident)
  then show "IdentifierSegment n = n"
    by (simp add: IdentifierSegment_def replace_char_def)
qed

section \<open>LIKE patterns\<close>

fun like_match :: "(char \<Rightarrow> char \<Rightarrow> bool) \<Rightarrow> string \<Rightarrow> string \<Rightarrow> bool" where
  "like_match eq [] s = (s = [])"
| "like_match eq (p # ps) s =
     (if p = CHR ''%'' then
        like_match eq ps s \<or> (case s of [] \<Rightarrow> False | c # cs \<Rightarrow> like_match eq (p # ps) cs)
      else if p = CHR ''_'' then (case s of [] \<Rightarrow> False | c # cs \<Rightarrow> like_match eq ps cs)
      else if p = bslash then
        (case ps of [] \<Rightarrow> False
         | q # qs \<Rightarrow> (case s of [] \<Rightarrow> False | c # cs \<Rightarrow> eq q c \<and> like_match eq qs cs))
      else (case s of [] \<Rightarrow> False | c # cs \<Rightarrow> eq p c \<and> like_match eq ps cs))"

definition escape_char :: "char \<Rightarrow> string" where
  "escape_char c = (if c = bslash \<or> c = CHR ''%'' \<or> c = CHR ''_'' then [bslash, c] else [c])"

lemma bslash_neq [simp]: "bslash \<noteq> CHR ''%''" "bslash \<noteq> CHR ''_''" "CHR ''%'' \<noteq> bslash"
  "CHR ''_'' \<noteq> bslash"
  by (simp_all add: bslash_def)

lemma EscapeLike_chars: "EscapeLike s = concat (map escape_char s)"
proof -
  have "replace_char CHR ''_'' [bslash, CHR ''_'']
      (replace_char CHR ''%'' [bslash, CHR ''%''] (replace_char bslash [bslash, bslash] s))
      = concat (map escape_char s)"
    by (induction s) (auto simp: replace_char_def escape_char_def)
  then show ?thesis by (simp add: EscapeLike_def Let_def)
qed

lemma like_match_escaped:
  "like_match eq (EscapeLike v @ p) s \<longleftrightarrow>
     (\<exists>a b. s = a @ b \<and> list_all2 eq v a \<and> like_match eq p b)"
proof (induction v arbitrary: s)
  case Nil
  then show ?case by (auto simp: EscapeLike_chars)
next
  case (Cons x v)
  have "EscapeLike (x # v) @ p = escape_char x @ (EscapeLike v @ p)"
    by (simp add: EscapeLike_chars)
  moreover have "like_match eq (escape_char x @ q) s \<longleftrightarrow>
      (\<exists>c cs. s = c # cs \<and> eq x c \<and> like_match eq q cs)" for q
    by (auto simp: escape_char_def split: list.splits)
  ultimately have "like_match eq (EscapeLike (x # v) @ p) s \<longleftrightarrow>
      (\<exists>c cs a b. s = c # cs \<and> eq x c \<and> cs = a @ b \<and> list_all2 eq v a \<and> like_match eq p b)"
    by (simp add: Cons)
  also have "\<dots> \<longleftrightarrow> (\<exists>a b. s = a @ b \<and> list_all2 eq (x # v) a \<and> like_match eq p b)"
    by (auto simp: list_all2_Cons1 Cons_eq_append_conv) blast+
  finally show ?case .
qed

lemma like_match_percent: "like_match eq (CHR ''%'' # p) s \<longleftrightarrow> (\<exists>a b. s = a @ b \<and> like_match eq p b)"
  by (induction s) (auto simp: Cons_eq_append_conv)

lemma like_any: "like_match eq ''%'' s"
  by (induction s) auto

section \<open>FTS5 expressions\<close>

text \<open>A reader of FTS5 string literals: a doubled quote stands for a quote; literals are
  separated by one space. It returns the literal read and the rest after the closing quote.\<close>

fun fts5_literal :: "string \<Rightarrow> (string \<times> string) option" where
  "fts5_literal [] = None"
| "fts5_literal [c] = (if c = dquote then Some ([], []) else None)"
| "fts5_literal (c # d # cs) =
     (if c = dquote then
        (if d = dquote then map_option (\<lambda>(a, r). (dquote # a, r)) (fts5_literal cs)
         else Some ([], d # cs))
      else map_option (\<lambda>(a, r). (c # a, r)) (fts5_literal (d # cs)))"

inductive fts5_terms :: "string \<Rightarrow> string list \<Rightarrow> bool" where
  fts5_none: "fts5_terms [] []"
| fts5_one: "fts5_literal s = Some (t, []) \<Longrightarrow> fts5_terms (dquote # s) [t]"
| fts5_more: "fts5_literal s = Some (t, CHR '' '' # r) \<Longrightarrow> fts5_terms r ts \<Longrightarrow> ts \<noteq> [] \<Longrightarrow>
    fts5_terms (dquote # s) (t # ts)"

lemma fts5_literal_quoted:
  assumes "r = [] \<or> hd r \<noteq> dquote"
  shows "fts5_literal (replace_char dquote [dquote, dquote] t @ dquote # r) = Some (t, r)"
proof (induction t)
  case Nil
  from assms show ?case by (cases r) (simp_all add: replace_char_def)
next
  case (Cons c cs)
  show ?case
  proof (cases "c = dquote")
    case True
    with Cons show ?thesis by (simp add: replace_char_def)
  next
    case False
    obtain d ds where "replace_char dquote [dquote, dquote] cs @ dquote # r = d # ds"
      by (cases "replace_char dquote [dquote, dquote] cs @ dquote # r") auto
    with Cons False show ?thesis by (simp add: replace_char_def)
  qed
qed

definition fts5_quoted :: "string \<Rightarrow> string" where
  "fts5_quoted t = dquote # replace_char dquote [dquote, dquote] t @ [dquote]"

lemma LiteralFTS5_join: "LiteralFTS5 term = join '' '' (map fts5_quoted (str_fields term))"
proof -
  have fts5_step: "fts5_token b t = b @ (if b \<noteq> [] then '' '' else []) @ fts5_quoted t" for b t
    by (simp add: fts5_token_def fts5_quoted_def)
  have ne: "b \<noteq> [] \<Longrightarrow> ts \<noteq> [] \<Longrightarrow>
      foldl fts5_token b ts = b @ '' '' @ join '' '' (map fts5_quoted ts)" for b ts
  proof (induction ts arbitrary: b)
    case (Cons t ts)
    then show ?case
      using Cons.IH [of "b @ '' '' @ fts5_quoted t"] by (cases ts) (simp_all add: fts5_step)
  qed simp
  show ?thesis
  proof (cases "str_fields term")
    case (Cons t ts)
    have "fts5_quoted t \<noteq> []" by (simp add: fts5_quoted_def)
    from ne [OF this] Cons show ?thesis
      by (cases "ts = []") (auto simp: LiteralFTS5_def fts5_step neq_Nil_conv)
  qed (simp add: LiteralFTS5_def)
qed

lemma fts5_terms_join: "fts5_terms (join '' '' (map fts5_quoted ts)) ts"
proof (induction ts rule: induct_list012)
  case (3 t u ts)
  have "fts5_literal (replace_char dquote [dquote, dquote] t @ dquote #
      CHR '' '' # join '' '' (map fts5_quoted (u # ts)))
     = Some (t, CHR '' '' # join '' '' (map fts5_quoted (u # ts)))"
    by (rule fts5_literal_quoted) (simp add: dquote_def)
  from fts5_more [OF this "3.IH"(2)] show ?case
    by (simp add: fts5_quoted_def [of t])
qed (auto simp: fts5_quoted_def intro!: fts5_terms.intros fts5_literal_quoted)

text \<open>A word is not empty and holds no ASCII white space.\<close>

lemma ascii_space_width: "is_space c \<Longrightarrow> 0 < space_width ws (c # cs)"
  by simp

lemma fields_acc_words:
  "list_all (\<lambda>c. \<not> is_space c) acc \<Longrightarrow>
    list_all (\<lambda>w. w \<noteq> [] \<and> list_all (\<lambda>c. \<not> is_space c) w) (fields_acc acc s)"
proof (induction acc s rule: fields_acc.induct)
  case (2 acc c cs)
  show ?case
  proof (cases "space_width wide_spaces (c # cs) > 0")
    case True
    with 2 show ?thesis by (cases "acc = []") (simp_all add: Let_def del: space_width.simps)
  next
    case False
    then have "\<not> is_space c" by (metis ascii_space_width)
    with 2 False show ?thesis by (simp del: space_width.simps)
  qed
qed simp

section \<open>Properties\<close>

lemma like_prefix: "like_match eq (EscapeLike v @ ''%'') s \<longleftrightarrow> (\<exists>a b. s = a @ b \<and> list_all2 eq v a)"
  unfolding like_match_escaped using like_any by blast

lemma like_exact: "like_match eq (EscapeLike v) s \<longleftrightarrow> list_all2 eq v s"
  using like_match_escaped [of eq v "[]" s] by simp

lemma like_suffix:
  "like_match eq (CHR ''%'' # EscapeLike v) s \<longleftrightarrow> (\<exists>a b. s = a @ b \<and> list_all2 eq v b)"
  unfolding like_match_percent like_exact by (rule refl)

lemma like_infix:
  "like_match eq (CHR ''%'' # EscapeLike v @ ''%'') s \<longleftrightarrow>
    (\<exists>a m b. s = a @ m @ b \<and> list_all2 eq v m)"
  unfolding like_match_percent like_prefix by blast

text \<open>The LIKE patterns the backends build from a user's text match literally: with
  \<open>EscapeLike v\<close> followed, preceded or surrounded by the percent wildcard, a text matches exactly
  when it starts with, ends with or contains \<open>v\<close> (characters compared as the database compares
  them), whatever wildcards and backslashes \<open>v\<close> contains.\<close>

theorem escaped_like_is_literal:
  "(like_match eq (EscapeLike v @ ''%'') s \<longleftrightarrow> (\<exists>a b. s = a @ b \<and> list_all2 eq v a))
   \<and> (like_match eq (''%'' @ EscapeLike v) s \<longleftrightarrow> (\<exists>a b. s = a @ b \<and> list_all2 eq v b))
   \<and> (like_match eq (''%'' @ EscapeLike v @ ''%'') s \<longleftrightarrow>
        (\<exists>a m b. s = a @ m @ b \<and> list_all2 eq v m))"
  unfolding append_Cons append_Nil like_prefix like_suffix like_infix by blast

text \<open>The FTS5 expression built from a search term is a sequence of string literals that
  reads back as the words of the term, in order and with their quotes restored; no word is empty
  or contains white space, and a blank term gives the empty expression.\<close>

theorem fts5_expression_roundtrip:
  "fts5_terms (LiteralFTS5 term) (str_fields term)
   \<and> list_all (\<lambda>w. w \<noteq> [] \<and> list_all (\<lambda>c. \<not> is_space c) w) (str_fields term)
   \<and> (LiteralFTS5 term = [] \<longleftrightarrow> str_fields term = [])"
proof (intro conjI)
  show "fts5_terms (LiteralFTS5 term) (str_fields term)"
    unfolding LiteralFTS5_join by (rule fts5_terms_join)
  show "list_all (\<lambda>w. w \<noteq> [] \<and> list_all (\<lambda>c. \<not> is_space c) w) (str_fields term)"
    unfolding str_fields_def by (rule fields_acc_words) simp
  show "LiteralFTS5 term = [] \<longleftrightarrow> str_fields term = []"
    unfolding LiteralFTS5_join
    by (cases "str_fields term" rule: remdups_adj.cases) (simp_all add: fts5_quoted_def)
qed

text \<open>A field name that passes validation is left unchanged by sanitizing and by the
  identifier form, so the name under which a field is stored, queried and indexed is one name;
  sanitizing any text gives letters, digits, underscores and dots only, and is idempotent.\<close>

theorem validated_names_are_stable:
  "(ValidateFieldName n = None \<longrightarrow> SanitizeFieldName n = n \<and> IdentifierSegment n = n)
   \<and> list_all name_char (SanitizeFieldName f)
   \<and> SanitizeFieldName (SanitizeFieldName f) = SanitizeFieldName f"
  using field_name_ok_sanitize [of n]
  by (auto simp: ValidateFieldName_def list_all_iff dest: set_sanitize)

theorem validated_names_are_stable_witness:
  "SanitizeFieldName ''_created_at'' = ''_created_at'' \<and> IdentifierSegment ''_created_at'' = ''_created_at''"
proof -
  have "ValidateFieldName ''_created_at'' = None"
    by (simp add: ValidateFieldName_def field_name_ok_def is_letter_def is_digit_def)
  then show ?thesis using validated_names_are_stable [of "''_created_at''" "[]"] by simp
qed

section \<open>Struct tags\<close>

text \<open>A tag is accepted exactly when each of its non-blank parts is a known option.\<close>

definition known_option :: "string \<Rightarrow> bool" where
  "known_option t \<longleftrightarrow> t \<in> {''index'', ''unique'', ''fts'', ''omitempty'', ''eager''}
     \<or> has_prefix t ''unique_together:'' \<or> has_prefix t ''index_together:''"

lemma den_tag_part_known: "den_tag_part t opts = None \<longleftrightarrow> \<not> known_option t"
  by (simp add: den_tag_part_def known_option_def)

lemma den_tag_parts_known:
  "(\<exists>opts'. den_tag_parts ps opts = Inr opts') \<longleftrightarrow>
    (\<forall>part\<in>set ps. trim_space part = [] \<or> known_option (trim_space part))"
proof (induction ps arbitrary: opts)
  case (Cons p ps)
  show ?case
  proof (cases "den_tag_part (trim_space p) opts")
    case None
    with den_tag_part_known [of "trim_space p" opts] Cons show ?thesis by (simp add: Let_def)
  next
    case (Some opts')
    then have "known_option (trim_space p)"
      using den_tag_part_known [of "trim_space p" opts] by simp
    with Some Cons [of opts'] Cons [of opts] show ?thesis by (simp add: Let_def)
  qed
qed simp

text \<open>A \<open>den\<close> struct tag is accepted exactly when each of its comma-separated parts is blank
  or a known option after trimming; every other tag is the unknown-option error.\<close>

theorem den_tag_accepted_iff:
  "(\<exists>opts. ParseDenTag tag = Inr opts) \<longleftrightarrow>
    list_all (\<lambda>part. trim_space part = [] \<or> known_option (trim_space part)) (split_on CHR '','' tag)"
  by (simp add: ParseDenTag_def den_tag_parts_known trim_space_def list_all_iff)

end
