(* ===== verification/Json.thy ===== *)
theory Json
  imports Names
begin

text \<open>
  JSON text as \<^verbatim>\<open>encoding/json\<close> writes it, and the Go values that reach the backends as bind
  arguments. \<open>json_string\<close> is the encoder's string literal (HTML characters escaped, as
  \<open>json.Marshal\<close> does by default; bytes above 127 are taken to be valid UTF-8 and copied, with the
  line separators U+2028 and U+2029 escaped). \<open>base64\<close> is \<open>base64.StdEncoding.EncodeToString\<close>.
\<close>

section \<open>String literals\<close>

definition u_escape :: "char \<Rightarrow> string" where
  "u_escape c = [bslash] @ ''u00''
     @ [hex_char (of_char c div 16), hex_char (of_char c mod 16)]"

definition json_char :: "char \<Rightarrow> string" where
  "json_char c =
     (if c = dquote \<or> c = bslash then [bslash, c]
      else if c = CHR 0x08 then [bslash, CHR ''b''] else if c = CHR 0x0C then [bslash, CHR ''f'']
      else if c = CHR 0x0A then [bslash, CHR ''n''] else if c = CHR 0x0D then [bslash, CHR ''r'']
      else if c = CHR 0x09 then [bslash, CHR ''t'']
      else if (of_char c :: nat) < 32 \<or> c \<in> {CHR ''<'', CHR ''>'', CHR ''&''} then u_escape c
      else [c])"

fun json_chars :: "string \<Rightarrow> string" where
  "json_chars (c # d # e # cs) =
     (if c = CHR 0xE2 \<and> d = CHR 0x80 \<and> e = CHR 0xA8 then bslash # ''u2028'' @ json_chars cs
      else if c = CHR 0xE2 \<and> d = CHR 0x80 \<and> e = CHR 0xA9 then bslash # ''u2029'' @ json_chars cs
      else json_char c @ json_chars (d # e # cs))"
| "json_chars (c # cs) = json_char c @ json_chars cs"
| "json_chars [] = []"

definition json_string :: "string \<Rightarrow> string" where
  "json_string s = [dquote] @ json_chars s @ [dquote]"

section \<open>Base 64\<close>

definition base64_alphabet :: string where
  "base64_alphabet = ''ABCDEFGHIJKLMNOPQRSTUVWXYZabcdefghijklmnopqrstuvwxyz0123456789+/''"

definition b64 :: "nat \<Rightarrow> char" where
  "b64 n = base64_alphabet ! n"

fun base64 :: "string \<Rightarrow> string" where
  "base64 [] = []"
| "base64 [a] = (let x = of_char a in [b64 (x div 4), b64 (x mod 4 * 16), CHR ''='', CHR ''=''])"
| "base64 [a, b] = (let x = of_char a; y = of_char b in
     [b64 (x div 4), b64 (x mod 4 * 16 + y div 16), b64 (y mod 16 * 4), CHR ''=''])"
| "base64 (a # b # c # cs) = (let x = of_char a; y = of_char b; z = of_char c in
     [b64 (x div 4), b64 (x mod 4 * 16 + y div 16), b64 (y mod 16 * 4 + z div 64), b64 (z mod 64)]
       @ base64 cs)"

section \<open>Go values\<close>

text \<open>
  The values a query carries. A time is carried as its RFC 3339 text (the text Go formats it to,
  in the value's own location) together with its \<open>%v\<close> text; a float as its \<open>%v\<close> text and its JSON
  text (\<open>None\<close> for the values \<open>json.Marshal\<close> refuses); a raw message is compact JSON; every value
  of another kind is carried by its \<open>%v\<close> text and its JSON text.
\<close>

datatype gval =
    GNil
  | GStr string
  | GBool bool
  | GInt int
  | GFloat string "string option"
  | GTime string string
  | GTimePtr "(string \<times> string) option"
  | GRaw "string option"
  | GBytes "string option"
  | GFieldRef string
  | GOther string "string option"

definition fmt_bytes :: "string \<Rightarrow> string" where
  "fmt_bytes b = ''['' @ join '' '' (map (\<lambda>c. dec (of_char c)) b) @ '']''"

text \<open>\<open>fmt.Sprintf("%v", v)\<close>.\<close>

fun fmt_v :: "gval \<Rightarrow> string" where
  "fmt_v GNil = ''<nil>''"
| "fmt_v (GStr s) = s"
| "fmt_v (GBool b) = (if b then ''true'' else ''false'')"
| "fmt_v (GInt i) = dec_int i"
| "fmt_v (GFloat v j) = v"
| "fmt_v (GTime t v) = v"
| "fmt_v (GTimePtr None) = ''<nil>''"
| "fmt_v (GTimePtr (Some (t, v))) = v"
| "fmt_v (GRaw r) = fmt_bytes (case r of None \<Rightarrow> [] | Some b \<Rightarrow> b)"
| "fmt_v (GBytes r) = fmt_bytes (case r of None \<Rightarrow> [] | Some b \<Rightarrow> b)"
| "fmt_v (GFieldRef f) = f"
| "fmt_v (GOther v j) = v"

text \<open>\<open>json.Marshal(v)\<close>; \<open>None\<close> is its error.\<close>

fun json_marshal :: "gval \<Rightarrow> string option" where
  "json_marshal GNil = Some ''null''"
| "json_marshal (GStr s) = Some (json_string s)"
| "json_marshal (GBool b) = Some (if b then ''true'' else ''false'')"
| "json_marshal (GInt i) = Some (dec_int i)"
| "json_marshal (GFloat v j) = j"
| "json_marshal (GTime t v) = Some (json_string t)"
| "json_marshal (GTimePtr None) = Some ''null''"
| "json_marshal (GTimePtr (Some (t, v))) = Some (json_string t)"
| "json_marshal (GRaw None) = Some ''null''"
| "json_marshal (GRaw (Some r)) = Some r"
| "json_marshal (GBytes None) = Some ''null''"
| "json_marshal (GBytes (Some b)) = Some (json_string (base64 b))"
| "json_marshal (GFieldRef f) = Some (json_string f)"
| "json_marshal (GOther v j) = j"

end
