(* ===== verification/Where.thy ===== *)
theory Where
  imports Json
begin

text \<open>
  Query conditions and the backend contract's data: \<^verbatim>\<open>where/where.go\<close> (operators, the
  \<open>FieldBuilder\<close> methods, the combinators) and the plain types of \<^verbatim>\<open>backend/backend.go\<close> (queries,
  sort entries, aggregates, lock modes, index and collection metadata). \<open>Condition\<close> is an
  interface with three implementations, which are the constructors; its nil value is \<open>NilCond\<close>.
\<close>

section \<open>Conditions\<close>

datatype Operator =
    OpEq | OpNe | OpGt | OpGte | OpLt | OpLte | OpIn | OpNotIn | OpIsNil | OpIsNotNil
  | OpContains | OpContainsAny | OpContainsAll | OpRegExp | OpHasKey | OpStartsWith
  | OpEndsWith | OpStringContains

datatype LogicType = LogicAnd | LogicOr

datatype condition =
    FieldCond string Operator gval "gval list"
  | LogicalCond LogicType "condition list"
  | NotCond condition
  | NilCond

type_synonym field_builder = string

definition Field :: "string \<Rightarrow> field_builder" where "Field name = name"

definition Eq :: "field_builder \<Rightarrow> gval \<Rightarrow> condition" where
  "Eq fb value = FieldCond fb OpEq value []"
definition Ne :: "field_builder \<Rightarrow> gval \<Rightarrow> condition" where
  "Ne fb value = FieldCond fb OpNe value []"
definition Gt :: "field_builder \<Rightarrow> gval \<Rightarrow> condition" where
  "Gt fb value = FieldCond fb OpGt value []"
definition Gte :: "field_builder \<Rightarrow> gval \<Rightarrow> condition" where
  "Gte fb value = FieldCond fb OpGte value []"
definition Lt :: "field_builder \<Rightarrow> gval \<Rightarrow> condition" where
  "Lt fb value = FieldCond fb OpLt value []"
definition Lte :: "field_builder \<Rightarrow> gval \<Rightarrow> condition" where
  "Lte fb value = FieldCond fb OpLte value []"
definition In :: "field_builder \<Rightarrow> gval list \<Rightarrow> condition" where
  "In fb values = FieldCond fb OpIn GNil values"
definition NotIn :: "field_builder \<Rightarrow> gval list \<Rightarrow> condition" where
  "NotIn fb values = FieldCond fb OpNotIn GNil values"
definition AnyOf :: "('a \<Rightarrow> gval) \<Rightarrow> 'a list \<Rightarrow> gval list" where
  "AnyOf to_any values = map to_any values"
definition IsNil :: "field_builder \<Rightarrow> condition" where
  "IsNil fb = FieldCond fb OpIsNil GNil []"
definition IsNotNil :: "field_builder \<Rightarrow> condition" where
  "IsNotNil fb = FieldCond fb OpIsNotNil GNil []"
definition Contains :: "field_builder \<Rightarrow> gval \<Rightarrow> condition" where
  "Contains fb value = FieldCond fb OpContains value []"
definition ContainsAny :: "field_builder \<Rightarrow> gval list \<Rightarrow> condition" where
  "ContainsAny fb values = FieldCond fb OpContainsAny GNil values"
definition ContainsAll :: "field_builder \<Rightarrow> gval list \<Rightarrow> condition" where
  "ContainsAll fb values = FieldCond fb OpContainsAll GNil values"
definition StartsWith :: "field_builder \<Rightarrow> string \<Rightarrow> condition" where
  "StartsWith fb prefix = FieldCond fb OpStartsWith (GStr prefix) []"
definition EndsWith :: "field_builder \<Rightarrow> string \<Rightarrow> condition" where
  "EndsWith fb suffix = FieldCond fb OpEndsWith (GStr suffix) []"
definition StringContains :: "field_builder \<Rightarrow> string \<Rightarrow> condition" where
  "StringContains fb substr = FieldCond fb OpStringContains (GStr substr) []"
definition HasKey :: "field_builder \<Rightarrow> string \<Rightarrow> condition" where
  "HasKey fb key = FieldCond fb OpHasKey (GStr key) []"
definition RegExp :: "field_builder \<Rightarrow> gval \<Rightarrow> condition" where
  "RegExp fb re = FieldCond fb OpRegExp re []"
definition And :: "condition list \<Rightarrow> condition" where
  "And conditions = LogicalCond LogicAnd conditions"
definition Or :: "condition list \<Rightarrow> condition" where
  "Or conditions = LogicalCond LogicOr conditions"
definition Not :: "condition \<Rightarrow> condition" where
  "Not c = NotCond c"

fun FieldName :: "condition \<Rightarrow> string" where
  "FieldName (FieldCond f op v vs) = f"
| "FieldName (LogicalCond l cs) = []"
| "FieldName (NotCond c) = []"
| "FieldName NilCond = []"

lemmas builder_defs = Field_def Eq_def Ne_def Gt_def Gte_def Lt_def Lte_def In_def NotIn_def
  IsNil_def IsNotNil_def Contains_def ContainsAny_def ContainsAll_def StartsWith_def EndsWith_def
  StringContains_def HasKey_def RegExp_def And_def Or_def Not_def

section \<open>Queries\<close>

datatype lock_mode = LockDefault | LockSkipLocked | LockNoWait

datatype aggregate_op = OpSum | OpAvg | OpMin | OpMax | OpCount | OtherOp string

fun op_text :: "aggregate_op \<Rightarrow> string" where
  "op_text OpSum = ''SUM''"
| "op_text OpAvg = ''AVG''"
| "op_text OpMin = ''MIN''"
| "op_text OpMax = ''MAX''"
| "op_text OpCount = ''COUNT''"
| "op_text (OtherOp s) = s"

record group_by_agg =
  ga_Op :: aggregate_op
  ga_Field :: string

datatype sort_direction = Asc | Desc

record sort_entry =
  so_Field :: string
  so_Dir :: sort_direction

record group_by_sort_entry =
  gs_Op :: aggregate_op
  gs_Field :: string
  gs_Dir :: sort_direction

record query =
  Collection :: string
  Conditions :: "condition list"
  SortFields :: "sort_entry list"
  LimitN :: int
  SkipN :: int
  AfterID :: string
  BeforeID :: string
  Lock :: "lock_mode option"
  GroupBySort :: "group_by_sort_entry list"

definition empty_query :: "string \<Rightarrow> query" where
  "empty_query c = \<lparr>Collection = c, Conditions = [], SortFields = [], LimitN = 0, SkipN = 0,
     AfterID = [], BeforeID = [], Lock = None, GroupBySort = []\<rparr>"

section \<open>Collection metadata\<close>

record index_definition =
  ix_Name :: string
  ix_Fields :: "string list"
  ix_Unique :: bool

record field_meta =
  fm_Name :: string
  fm_GoName :: string
  fm_Type :: string
  fm_Indexed :: bool
  fm_Unique :: bool
  fm_FTS :: bool
  fm_IsPointer :: bool

record collection_meta =
  cm_Name :: string
  cm_Fields :: "field_meta list"
  cm_Indexes :: "index_definition list"
  cm_HasSoftDelete :: bool
  cm_HasRevision :: bool
  cm_HasChangeTracking :: bool

end
