(* ===== verification/Sqlite_SQL.thy ===== *)
theory Sqlite_SQL
  imports Where
begin

text \<open>
  The SQL text of the SQLite backend: \<^verbatim>\<open>backend/sqlite/sql.go\<close>, the search statement and the
  trigger expressions of \<^verbatim>\<open>backend/sqlite/fts.go\<close> and the index statement of
  \<^verbatim>\<open>backend/sqlite/schema.go\<close>, as exact strings with their bind arguments. Names that both
  backends declare carry the suffix \<open>_lite\<close> here and \<open>_pg\<close> in \<open>Postgres_SQL\<close>. A builder that can
  fail returns a sum. A placeholder is a question mark.
\<close>

section \<open>Bind arguments\<close>

fun formatBindArg :: "gval \<Rightarrow> gval" where
  "formatBindArg (GTime t v) = GStr t"
| "formatBindArg (GTimePtr None) = GNil"
| "formatBindArg (GTimePtr (Some (t, v))) = GStr t"
| "formatBindArg (GRaw None) = GNil"
| "formatBindArg (GRaw (Some r)) = GStr r"
| "formatBindArg (GBytes None) = GNil"
| "formatBindArg (GBytes (Some b)) = GStr (base64 b)"
| "formatBindArg v = v"

definition formatBindArgs :: "gval list \<Rightarrow> gval list" where
  "formatBindArgs vs = map formatBindArg vs"

section \<open>Conditions\<close>

definition squoted :: "string \<Rightarrow> string" where
  "squoted s = [CHR 0x27] @ s @ [CHR 0x27]"

definition json_extract_lite :: "string \<Rightarrow> string \<Rightarrow> string" where
  "json_extract_lite src field = ''json_extract('' @ src @ '', '' @ squoted (''$.'' @ field) @ '')''"

fun fieldRefToSQL :: "string \<Rightarrow> string \<Rightarrow> Operator \<Rightarrow> string" where
  "fieldRefToSQL left right OpEq = left @ '' = '' @ right"
| "fieldRefToSQL left right OpNe = left @ '' != '' @ right"
| "fieldRefToSQL left right OpGt = left @ '' > '' @ right"
| "fieldRefToSQL left right OpGte = left @ '' >= '' @ right"
| "fieldRefToSQL left right OpLt = left @ '' < '' @ right"
| "fieldRefToSQL left right OpLte = left @ '' <= '' @ right"
| "fieldRefToSQL left right _ = []"

definition json_each_lite :: "string \<Rightarrow> string \<Rightarrow> string" where
  "json_each_lite field test =
     ''EXISTS (SELECT 1 FROM json_each('' @ json_extract_lite ''data'' field @ '') WHERE value '' @ test @ '')''"

definition like_escape :: string where
  "like_escape = '' ESCAPE '' @ squoted [bslash]"

fun operatorToSQL_lite :: "string \<Rightarrow> Operator \<Rightarrow> gval \<Rightarrow> gval list \<Rightarrow> string \<times> gval list" where
  "operatorToSQL_lite field OpEq value values
    = (json_extract_lite ''data'' field @ '' = ?'', [formatBindArg value])"
| "operatorToSQL_lite field OpNe value values
    = (json_extract_lite ''data'' field @ '' != ?'', [formatBindArg value])"
| "operatorToSQL_lite field OpGt value values
    = (json_extract_lite ''data'' field @ '' > ?'', [formatBindArg value])"
| "operatorToSQL_lite field OpGte value values
    = (json_extract_lite ''data'' field @ '' >= ?'', [formatBindArg value])"
| "operatorToSQL_lite field OpLt value values
    = (json_extract_lite ''data'' field @ '' < ?'', [formatBindArg value])"
| "operatorToSQL_lite field OpLte value values
    = (json_extract_lite ''data'' field @ '' <= ?'', [formatBindArg value])"
| "operatorToSQL_lite field OpIsNil value values
    = (json_extract_lite ''data'' field @ '' IS NULL'', [])"
| "operatorToSQL_lite field OpIsNotNil value values
    = (json_extract_lite ''data'' field @ '' IS NOT NULL'', [])"
| "operatorToSQL_lite field OpIn value values
    = (json_extract_lite ''data'' field @ '' IN ('' @ join '', '' (map (\<lambda>_. ''?'') values) @ '')'',
       formatBindArgs values)"
| "operatorToSQL_lite field OpNotIn value values
    = (json_extract_lite ''data'' field @ '' NOT IN ('' @ join '', '' (map (\<lambda>_. ''?'') values) @ '')'',
       formatBindArgs values)"
| "operatorToSQL_lite field OpContains value values
    = (json_each_lite field ''= ?'', [formatBindArg value])"
| "operatorToSQL_lite field OpContainsAny value values
    = (json_each_lite field (''IN ('' @ join '', '' (map (\<lambda>_. ''?'') values) @ '')''),
       formatBindArgs values)"
| "operatorToSQL_lite field OpContainsAll value values
    = (join '' AND '' (map (\<lambda>_. json_each_lite field ''= ?'') values), map formatBindArg values)"
| "operatorToSQL_lite field OpHasKey value values
    = (let key = (case value of GStr k \<Rightarrow> k | _ \<Rightarrow> []) in
       (''json_type(data, '' @ squoted (''$.'' @ field @ ''.'' @ SanitizeFieldName key)
         @ '') IS NOT NULL'', []))"
| "operatorToSQL_lite field OpRegExp value values
    = (json_extract_lite ''data'' field @ '' REGEXP ?'', [GStr (fmt_v value)])"
| "operatorToSQL_lite field OpStartsWith value values
    = (json_extract_lite ''data'' field @ '' LIKE ?'' @ like_escape,
       [GStr (EscapeLike (fmt_v value) @ ''%'')])"
| "operatorToSQL_lite field OpEndsWith value values
    = (json_extract_lite ''data'' field @ '' LIKE ?'' @ like_escape,
       [GStr (''%'' @ EscapeLike (fmt_v value))])"
| "operatorToSQL_lite field OpStringContains value values
    = (json_extract_lite ''data'' field @ '' LIKE ?'' @ like_escape,
       [GStr (''%'' @ EscapeLike (fmt_v value) @ ''%'')])"

definition fieldConditionToSQL_lite ::
    "string \<Rightarrow> Operator \<Rightarrow> gval \<Rightarrow> gval list \<Rightarrow> string \<times> gval list" where
  "fieldConditionToSQL_lite rawField op value values =
     (let field = SanitizeFieldName rawField in
      case value of
        GFieldRef ref \<Rightarrow>
          (fieldRefToSQL (json_extract_lite ''data'' field)
             (json_extract_lite ''data'' (SanitizeFieldName ref)) op, [])
      | _ \<Rightarrow> operatorToSQL_lite field op value values)"

definition logic_sep :: "LogicType \<Rightarrow> string" where
  "logic_sep logic = (if logic = LogicOr then '' OR '' else '' AND '')"

text \<open>\<open>clauses_lite\<close> is the loop that \<open>logicalToSQL\<close> and \<open>buildWhereClauses\<close> share: every
  non-empty clause, parenthesised, with its arguments.\<close>

fun conditionToSQL_lite :: "condition \<Rightarrow> string \<times> gval list"
and clauses_lite :: "condition list \<Rightarrow> string list \<times> gval list" where
  "conditionToSQL_lite (FieldCond field op value values) = fieldConditionToSQL_lite field op value values"
| "conditionToSQL_lite (LogicalCond logic conditions) =
     (let (clauses, args) = clauses_lite conditions in
      if clauses = [] then ([], []) else (join (logic_sep logic) clauses, args))"
| "conditionToSQL_lite (NotCond c) =
     (let (inner, args) = conditionToSQL_lite c in
      if inner = [] then ([], []) else (''NOT ('' @ inner @ '')'', args))"
| "conditionToSQL_lite NilCond = ([], [])"
| "clauses_lite [] = ([], [])"
| "clauses_lite (c # cs) =
     (let (clause, clauseArgs) = conditionToSQL_lite c;
          (clauses, args) = clauses_lite cs
      in if clause \<noteq> [] then ((''('' @ clause @ '')'') # clauses, clauseArgs @ args)
         else (clauses, args))"

definition buildWhereClauses_lite :: "condition list \<Rightarrow> string list \<times> gval list" where
  "buildWhereClauses_lite conditions = clauses_lite conditions"

section \<open>Statements\<close>

definition appendCursorClauses_lite ::
    "string list \<Rightarrow> gval list \<Rightarrow> query \<Rightarrow> string list \<times> gval list" where
  "appendCursorClauses_lite clauses args q =
     (let (clauses, args) =
            (if AfterID q \<noteq> [] then (clauses @ [''id > ?''], args @ [GStr (AfterID q)])
             else (clauses, args))
      in if BeforeID q \<noteq> [] then (clauses @ [''id < ?''], args @ [GStr (BeforeID q)])
         else (clauses, args))"

definition where_text :: "string list \<Rightarrow> string" where
  "where_text clauses = (if clauses \<noteq> [] then '' WHERE '' @ join '' AND '' clauses else [])"

definition limit_offset_lite :: "query \<Rightarrow> string" where
  "limit_offset_lite q =
     (if LimitN q > 0 then '' LIMIT '' @ dec_int (LimitN q) else [])
     @ (if SkipN q > 0
        then (if LimitN q = 0 then '' LIMIT -1'' else []) @ '' OFFSET '' @ dec_int (SkipN q)
        else [])"

definition sortDirSQL :: "sort_direction \<Rightarrow> string" where
  "sortDirSQL dir = (if dir = Desc then '' DESC'' else '' ASC'')"

definition order_by_lite :: "string \<Rightarrow> sort_entry list \<Rightarrow> string" where
  "order_by_lite src sorts =
     '' ORDER BY '' @ join '', ''
       (map (\<lambda>s. json_extract_lite src (SanitizeFieldName (so_Field s)) @ sortDirSQL (so_Dir s)) sorts)"

definition buildSelectSQL_lite :: "string \<Rightarrow> query \<Rightarrow> string \<times> gval list" where
  "buildSelectSQL_lite collection q =
     (let (clauses, args) = buildWhereClauses_lite (Conditions q);
          (clauses, args) = appendCursorClauses_lite clauses args q
      in (''SELECT id, json(data) FROM '' @ go_quote collection @ where_text clauses
            @ (if SortFields q \<noteq> [] then order_by_lite ''data'' (SortFields q) else [])
            @ limit_offset_lite q, args))"

definition buildCountSQL_lite :: "string \<Rightarrow> query \<Rightarrow> string \<times> gval list" where
  "buildCountSQL_lite collection q =
     (let (clauses, args) = buildWhereClauses_lite (Conditions q);
          (clauses, args) = appendCursorClauses_lite clauses args q
      in (''SELECT COUNT(*) FROM '' @ go_quote collection @ where_text clauses, args))"

definition buildExistsSQL_lite :: "string \<Rightarrow> query \<Rightarrow> string \<times> gval list" where
  "buildExistsSQL_lite collection q =
     (let (clauses, args) = buildWhereClauses_lite (Conditions q);
          (clauses, args) = appendCursorClauses_lite clauses args q;
          inner = ''SELECT 1 FROM '' @ go_quote collection @ where_text clauses @ '' LIMIT 1''
      in (''SELECT EXISTS('' @ inner @ '')'', args))"

definition scalar_op :: "aggregate_op \<Rightarrow> bool" where
  "scalar_op op \<longleftrightarrow> op \<in> {OpSum, OpAvg, OpMin, OpMax}"

definition real_expr_lite :: "string \<Rightarrow> string" where
  "real_expr_lite field = ''CAST('' @ json_extract_lite ''data'' (SanitizeFieldName field) @ '' AS REAL)''"

definition buildAggregateSQL_lite ::
    "string \<Rightarrow> aggregate_op \<Rightarrow> string \<Rightarrow> query \<Rightarrow> gerr + string \<times> gval list" where
  "buildAggregateSQL_lite collection op field q =
     (if \<not> scalar_op op then Inl (Msg (''den: unsupported aggregate op: '' @ op_text op))
      else (let (clauses, args) = buildWhereClauses_lite (Conditions q) in
        Inr (''SELECT '' @ op_text op @ ''('' @ real_expr_lite field @ '') FROM '' @ go_quote collection
               @ where_text clauses, args)))"

fun groupSelectParts_lite :: "group_by_agg list \<Rightarrow> gerr + string list" where
  "groupSelectParts_lite [] = Inr []"
| "groupSelectParts_lite (agg # aggs) =
     (if ga_Op agg = OpCount \<or> scalar_op (ga_Op agg) then
        (case groupSelectParts_lite aggs of
           Inl e \<Rightarrow> Inl e
         | Inr parts \<Rightarrow> Inr ((if ga_Op agg = OpCount then ''COUNT(*)''
             else op_text (ga_Op agg) @ ''('' @ real_expr_lite (ga_Field agg) @ '')'') # parts))
      else Inl (Msg (''den: unsupported aggregate op in group-by: '' @ op_text (ga_Op agg))))"

definition groupAggExprSQLite :: "group_by_sort_entry \<Rightarrow> gerr + string" where
  "groupAggExprSQLite gs =
     (if gs_Op gs = OpCount then Inr ''COUNT(*)''
      else if scalar_op (gs_Op gs) then Inr (op_text (gs_Op gs) @ ''('' @ real_expr_lite (gs_Field gs) @ '')'')
      else Inl (Msg (''den: unsupported aggregate op in order-by: '' @ op_text (gs_Op gs))))"

text \<open>The order parts: a sort on a group key re-uses that key's expression (the first match),
  a sort on another field is dropped; then the aggregate sorts.\<close>

fun keyOrderParts :: "(string \<times> string) list \<Rightarrow> sort_entry list \<Rightarrow> string list" where
  "keyOrderParts keys [] = []"
| "keyOrderParts keys (sf # sfs) =
     (case map_of keys (so_Field sf) of
        Some expr \<Rightarrow> (expr @ sortDirSQL (so_Dir sf)) # keyOrderParts keys sfs
      | None \<Rightarrow> keyOrderParts keys sfs)"

fun aggOrderParts ::
    "(group_by_sort_entry \<Rightarrow> gerr + string) \<Rightarrow> group_by_sort_entry list \<Rightarrow> gerr + string list" where
  "aggOrderParts expr_of [] = Inr []"
| "aggOrderParts expr_of (gs # gss) =
     (case expr_of gs of
        Inl e \<Rightarrow> Inl e
      | Inr expr \<Rightarrow> (case aggOrderParts expr_of gss of
            Inl e \<Rightarrow> Inl e
          | Inr parts \<Rightarrow> Inr ((expr @ sortDirSQL (gs_Dir gs)) # parts)))"

definition buildGroupBySQL_lite ::
    "string \<Rightarrow> string list \<Rightarrow> group_by_agg list \<Rightarrow> query \<Rightarrow> gerr + string \<times> gval list" where
  "buildGroupBySQL_lite collection groupFields aggs q =
     (if groupFields = [] then Inl (Msg ''den: GroupBy requires at least one field'')
      else
        let groupExprs = map (\<lambda>f. json_extract_lite ''data'' (SanitizeFieldName f)) groupFields in
        case groupSelectParts_lite aggs of
          Inl e \<Rightarrow> Inl e
        | Inr aggParts \<Rightarrow>
            (let (clauses, args) = buildWhereClauses_lite (Conditions q);
                 (clauses, args) = appendCursorClauses_lite clauses args q
             in case aggOrderParts groupAggExprSQLite (GroupBySort q) of
                  Inl e \<Rightarrow> Inl e
                | Inr aggOrder \<Rightarrow>
                    (let orderParts = keyOrderParts (zip groupFields groupExprs) (SortFields q) @ aggOrder
                     in Inr (''SELECT '' @ join '', '' (groupExprs @ aggParts) @ '' FROM ''
                           @ go_quote collection @ where_text clauses
                           @ '' GROUP BY '' @ join '', '' groupExprs
                           @ (if orderParts \<noteq> [] then '' ORDER BY '' @ join '', '' orderParts else [])
                           @ limit_offset_lite q, args))))"

section \<open>Full-text search\<close>

definition ftsExtractExprs :: "string \<Rightarrow> string list \<Rightarrow> string" where
  "ftsExtractExprs src jsonPaths = join '', '' (map (json_extract_lite src) jsonPaths)"

fun fts_condition_clauses :: "condition list \<Rightarrow> string \<times> gval list" where
  "fts_condition_clauses [] = ([], [])"
| "fts_condition_clauses (cond # conds) =
     (let (clause, clauseArgs) = conditionToSQL_lite cond;
          (rest, args) = fts_condition_clauses conds
      in if clause \<noteq> []
         then ('' AND ('' @ replace_all ''json_extract(data,'' ''json_extract(t.data,'' clause @ '')'' @ rest,
               clauseArgs @ args)
         else (rest, args))"

definition buildFTSSearchSQL_lite :: "string \<Rightarrow> string \<Rightarrow> query \<Rightarrow> string \<times> gval list" where
  "buildFTSSearchSQL_lite collection query q =
     (let ftsTable = collection @ ''_fts'';
          (conds, condArgs) = fts_condition_clauses (Conditions q)
      in (''SELECT t.id, json(t.data) FROM '' @ go_quote collection @ '' t JOIN '' @ go_quote ftsTable
            @ '' f ON t.rowid = f.rowid WHERE '' @ go_quote ftsTable @ '' MATCH ?''
            @ conds
            @ (if AfterID q \<noteq> [] then '' AND t.id > ?'' else [])
            @ (if BeforeID q \<noteq> [] then '' AND t.id < ?'' else [])
            @ (if SortFields q \<noteq> [] then order_by_lite ''t.data'' (SortFields q)
               else '' ORDER BY rank'')
            @ limit_offset_lite q,
          [GStr query] @ condArgs
            @ (if AfterID q \<noteq> [] then [GStr (AfterID q)] else [])
            @ (if BeforeID q \<noteq> [] then [GStr (BeforeID q)] else [])))"

section \<open>Index statements\<close>

definition createExpressionIndexSQL_lite :: "string \<Rightarrow> index_definition \<Rightarrow> string option" where
  "createExpressionIndexSQL_lite collection idx =
     (if ix_Fields idx = [] then None
      else
        (let path = (\<lambda>f. json_extract_lite ''data'' (SanitizeFieldName f));
             exprList = join '', '' (map path (ix_Fields idx));
             uniqueStr = (if ix_Unique idx then ''UNIQUE '' else []);
             whereClause = (if ix_Unique idx
               then '' WHERE '' @ join '' AND '' (map (\<lambda>f. path f @ '' IS NOT NULL'') (ix_Fields idx))
               else [])
         in Some (''CREATE '' @ uniqueStr @ ''INDEX IF NOT EXISTS '' @ go_quote (ix_Name idx) @ '' ON ''
              @ go_quote collection @ ''('' @ exprList @ '')'' @ whereClause)))"

end
