(* ===== verification/Postgres_SQL.thy ===== *)
theory Postgres_SQL
  imports Sqlite_SQL
begin

text \<open>
  The SQL text of the PostgreSQL backend: \<^verbatim>\<open>backend/postgres/sql.go\<close>, the search statement of
  \<^verbatim>\<open>backend/postgres/fts.go\<close>, the index statement of \<^verbatim>\<open>backend/postgres/schema.go\<close> and the version
  arithmetic of \<^verbatim>\<open>backend/postgres/version.go\<close>, as exact strings. A placeholder is a dollar sign
  and a number; the number of the next placeholder is threaded through the condition builders as
  \<open>paramN\<close>. Helpers whose Go text is the same in both backends (\<open>fieldRefToSQL\<close>, \<open>sortDirSQL\<close>)
  are those of \<open>Sqlite_SQL\<close>.
\<close>

section \<open>Paths and parameters\<close>

definition quoteIdent :: "string \<Rightarrow> string" where
  "quoteIdent s = [dquote] @ replace_char dquote [dquote, dquote] s @ [dquote]"

definition toJSONBParam :: "gval \<Rightarrow> gval" where
  "toJSONBParam v = GBytes (Some (case json_marshal v of Some b \<Rightarrow> b | None \<Rightarrow> fmt_v v))"

definition jsonbPath :: "string \<Rightarrow> string" where
  "jsonbPath rawField =
     ''jsonb_extract_path(data, ''
       @ join '', '' (map squoted (split_on CHR ''.'' (SanitizeFieldName rawField))) @ '')''"

definition jsonbPathText :: "string \<Rightarrow> string" where
  "jsonbPathText rawField =
     ''jsonb_extract_path_text(data, ''
       @ join '', '' (map squoted (split_on CHR ''.'' (SanitizeFieldName rawField))) @ '')''"

definition param :: "nat \<Rightarrow> string" where
  "param n = ''$'' @ dec n"

section \<open>Conditions\<close>

fun scalar_kind :: "gval \<Rightarrow> bool" where
  "scalar_kind (GStr s) = True"
| "scalar_kind (GBool b) = True"
| "scalar_kind (GInt i) = True"
| "scalar_kind (GFloat v j) = True"
| "scalar_kind _ = False"

definition canRewriteEqToContainment :: "string \<Rightarrow> gval \<Rightarrow> bool" where
  "canRewriteEqToContainment field value =
     (if value = GNil then False
      else if CHR ''.'' \<in> set field then False
      else scalar_kind value)"

text \<open>\<open>map[string]any{rawField: value}\<close> as \<open>toJSONBParam\<close> receives it.\<close>

definition singleton_object :: "string \<Rightarrow> gval \<Rightarrow> gval" where
  "singleton_object k v =
     GOther (''map['' @ k @ '':'' @ fmt_v v @ '']'')
       (map_option (\<lambda>j. ''{'' @ json_string k @ '':'' @ j @ ''}'') (json_marshal v))"

definition placeholders_pg :: "nat \<Rightarrow> nat \<Rightarrow> string list" where
  "placeholders_pg paramN k = map (\<lambda>i. param i @ ''::jsonb'') [paramN..<paramN + k]"

definition contains_pg :: "string \<Rightarrow> nat \<Rightarrow> string" where
  "contains_pg typed i = typed @ '' @> to_jsonb('' @ param i @ ''::text)''"

fun operatorToSQL_pg ::
    "string \<Rightarrow> Operator \<Rightarrow> gval \<Rightarrow> gval list \<Rightarrow> nat \<Rightarrow> string \<times> gval list \<times> nat" where
  "operatorToSQL_pg rawField OpEq value values paramN =
     (if canRewriteEqToContainment rawField value
      then (''data @> '' @ param paramN @ ''::jsonb'',
            [toJSONBParam (singleton_object rawField value)], paramN + 1)
      else (jsonbPath rawField @ '' = '' @ param paramN @ ''::jsonb'', [toJSONBParam value], paramN + 1))"
| "operatorToSQL_pg rawField OpNe value values paramN =
     (jsonbPath rawField @ '' != '' @ param paramN @ ''::jsonb'', [toJSONBParam value], paramN + 1)"
| "operatorToSQL_pg rawField OpGt value values paramN =
     (jsonbPath rawField @ '' > '' @ param paramN @ ''::jsonb'', [toJSONBParam value], paramN + 1)"
| "operatorToSQL_pg rawField OpGte value values paramN =
     (jsonbPath rawField @ '' >= '' @ param paramN @ ''::jsonb'', [toJSONBParam value], paramN + 1)"
| "operatorToSQL_pg rawField OpLt value values paramN =
     (jsonbPath rawField @ '' < '' @ param paramN @ ''::jsonb'', [toJSONBParam value], paramN + 1)"
| "operatorToSQL_pg rawField OpLte value values paramN =
     (jsonbPath rawField @ '' <= '' @ param paramN @ ''::jsonb'', [toJSONBParam value], paramN + 1)"
| "operatorToSQL_pg rawField OpIsNil value values paramN =
     (jsonbPathText rawField @ '' IS NULL'', [], paramN)"
| "operatorToSQL_pg rawField OpIsNotNil value values paramN =
     (jsonbPathText rawField @ '' IS NOT NULL'', [], paramN)"
| "operatorToSQL_pg rawField OpIn value values paramN =
     (jsonbPath rawField @ '' IN ('' @ join '', '' (placeholders_pg paramN (length values)) @ '')'',
      map toJSONBParam values, paramN + length values)"
| "operatorToSQL_pg rawField OpNotIn value values paramN =
     (jsonbPath rawField @ '' NOT IN ('' @ join '', '' (placeholders_pg paramN (length values)) @ '')'',
      map toJSONBParam values, paramN + length values)"
| "operatorToSQL_pg rawField OpContains value values paramN =
     (contains_pg (jsonbPath rawField) paramN, [value], paramN + 1)"
| "operatorToSQL_pg rawField OpContainsAny value values paramN =
     (''('' @ join '' OR '' (map (contains_pg (jsonbPath rawField)) [paramN..<paramN + length values]) @ '')'',
      values, paramN + length values)"
| "operatorToSQL_pg rawField OpContainsAll value values paramN =
     (join '' AND '' (map (contains_pg (jsonbPath rawField)) [paramN..<paramN + length values]),
      values, paramN + length values)"
| "operatorToSQL_pg rawField OpHasKey value values paramN =
     (''jsonb_exists('' @ jsonbPath rawField @ '', '' @ param paramN @ '')'', [value], paramN + 1)"
| "operatorToSQL_pg rawField OpRegExp value values paramN =
     (jsonbPathText rawField @ '' ~ '' @ param paramN, [GStr (fmt_v value)], paramN + 1)"
| "operatorToSQL_pg rawField OpStartsWith value values paramN =
     (jsonbPathText rawField @ '' LIKE '' @ param paramN @ like_escape,
      [GStr (EscapeLike (fmt_v value) @ ''%'')], paramN + 1)"
| "operatorToSQL_pg rawField OpEndsWith value values paramN =
     (jsonbPathText rawField @ '' LIKE '' @ param paramN @ like_escape,
      [GStr (''%'' @ EscapeLike (fmt_v value))], paramN + 1)"
| "operatorToSQL_pg rawField OpStringContains value values paramN =
     (jsonbPathText rawField @ '' LIKE '' @ param paramN @ like_escape,
      [GStr (''%'' @ EscapeLike (fmt_v value) @ ''%'')], paramN + 1)"

definition fieldConditionToSQL_pg ::
    "string \<Rightarrow> Operator \<Rightarrow> gval \<Rightarrow> gval list \<Rightarrow> nat \<Rightarrow> string \<times> gval list \<times> nat" where
  "fieldConditionToSQL_pg rawField op value values paramN =
     (case value of
        GFieldRef ref \<Rightarrow> (fieldRefToSQL (jsonbPath rawField) (jsonbPath ref) op, [], paramN)
      | _ \<Rightarrow> operatorToSQL_pg rawField op value values paramN)"

fun conditionToSQL_pg :: "condition \<Rightarrow> nat \<Rightarrow> string \<times> gval list \<times> nat"
and clauses_pg :: "condition list \<Rightarrow> nat \<Rightarrow> string list \<times> gval list \<times> nat" where
  "conditionToSQL_pg (FieldCond field op value values) paramN
    = fieldConditionToSQL_pg field op value values paramN"
| "conditionToSQL_pg (LogicalCond logic conditions) paramN =
     (let (clauses, args, nextN) = clauses_pg conditions paramN in
      if clauses = [] then ([], [], nextN) else (join (logic_sep logic) clauses, args, nextN))"
| "conditionToSQL_pg (NotCond c) paramN =
     (let (inner, args, nextN) = conditionToSQL_pg c paramN in
      if inner = [] then ([], [], paramN) else (''NOT ('' @ inner @ '')'', args, nextN))"
| "conditionToSQL_pg NilCond paramN = ([], [], paramN)"
| "clauses_pg [] paramN = ([], [], paramN)"
| "clauses_pg (c # cs) paramN =
     (let (clause, clauseArgs, nextN) = conditionToSQL_pg c paramN in
      if clause \<noteq> []
      then (let (clauses, args, lastN) = clauses_pg cs nextN
            in ((''('' @ clause @ '')'') # clauses, clauseArgs @ args, lastN))
      else clauses_pg cs paramN)"

definition buildWhereClauses_pg :: "condition list \<Rightarrow> string list \<times> gval list \<times> nat" where
  "buildWhereClauses_pg conditions = clauses_pg conditions 1"

section \<open>Statements\<close>

definition appendCursorClauses_pg ::
    "string list \<Rightarrow> gval list \<Rightarrow> nat \<Rightarrow> query \<Rightarrow> string list \<times> gval list" where
  "appendCursorClauses_pg clauses args paramN q =
     (let (clauses, args, paramN) =
            (if AfterID q \<noteq> []
             then (clauses @ [''id > '' @ param paramN], args @ [GStr (AfterID q)], paramN + 1)
             else (clauses, args, paramN))
      in if BeforeID q \<noteq> []
         then (clauses @ [''id < '' @ param paramN], args @ [GStr (BeforeID q)])
         else (clauses, args))"

definition limit_offset_pg :: "query \<Rightarrow> string" where
  "limit_offset_pg q =
     (if LimitN q > 0 then '' LIMIT '' @ dec_int (LimitN q) else [])
     @ (if SkipN q > 0 then '' OFFSET '' @ dec_int (SkipN q) else [])"

definition lock_suffix :: "lock_mode option \<Rightarrow> string" where
  "lock_suffix lock = (case lock of
       None \<Rightarrow> []
     | Some LockDefault \<Rightarrow> '' FOR UPDATE''
     | Some LockSkipLocked \<Rightarrow> '' FOR UPDATE SKIP LOCKED''
     | Some LockNoWait \<Rightarrow> '' FOR UPDATE NOWAIT'')"

definition order_by_pg :: "(string \<Rightarrow> string) \<Rightarrow> sort_entry list \<Rightarrow> string" where
  "order_by_pg path sorts =
     '' ORDER BY '' @ join '', '' (map (\<lambda>s. path (so_Field s) @ sortDirSQL (so_Dir s)) sorts)"

definition buildSelectSQL_pg :: "string \<Rightarrow> query \<Rightarrow> string \<times> gval list" where
  "buildSelectSQL_pg collection q =
     (let (whereClauses, args, paramN) = buildWhereClauses_pg (Conditions q);
          (whereClauses, args) = appendCursorClauses_pg whereClauses args paramN q
      in (''SELECT id, data::text FROM '' @ quoteIdent collection @ where_text whereClauses
            @ (if SortFields q \<noteq> [] then order_by_pg jsonbPath (SortFields q)
               else if Lock q \<noteq> None then '' ORDER BY id ASC'' else [])
            @ limit_offset_pg q @ lock_suffix (Lock q), args))"

definition float_expr_pg :: "string \<Rightarrow> string" where
  "float_expr_pg field = ''('' @ jsonbPathText field @ '')::float''"

fun groupSelectParts_pg :: "group_by_agg list \<Rightarrow> gerr + string list" where
  "groupSelectParts_pg [] = Inr []"
| "groupSelectParts_pg (agg # aggs) =
     (if ga_Op agg = OpCount \<or> scalar_op (ga_Op agg) then
        (case groupSelectParts_pg aggs of
           Inl e \<Rightarrow> Inl e
         | Inr parts \<Rightarrow> Inr ((if ga_Op agg = OpCount then ''COUNT(*)''
             else op_text (ga_Op agg) @ ''('' @ float_expr_pg (ga_Field agg) @ '')'') # parts))
      else Inl (Msg (''den: unsupported aggregate op in group-by: '' @ op_text (ga_Op agg))))"

definition groupAggExprPG :: "group_by_sort_entry \<Rightarrow> gerr + string" where
  "groupAggExprPG gs =
     (if gs_Op gs = OpCount then Inr ''COUNT(*)''
      else if scalar_op (gs_Op gs) then Inr (op_text (gs_Op gs) @ ''('' @ float_expr_pg (gs_Field gs) @ '')'')
      else Inl (Msg (''den: unsupported aggregate op in order-by: '' @ op_text (gs_Op gs))))"

definition buildGroupBySQL_pg ::
    "string \<Rightarrow> string list \<Rightarrow> group_by_agg list \<Rightarrow> query \<Rightarrow> gerr + string \<times> gval list" where
  "buildGroupBySQL_pg collection groupFields aggs q =
     (if groupFields = [] then Inl (Msg ''den: GroupBy requires at least one field'')
      else
        let groupExprs = map jsonbPathText groupFields in
        case groupSelectParts_pg aggs of
          Inl e \<Rightarrow> Inl e
        | Inr aggParts \<Rightarrow>
            (let (clauses, args, paramN) = buildWhereClauses_pg (Conditions q);
                 (clauses, args) = appendCursorClauses_pg clauses args paramN q
             in case aggOrderParts groupAggExprPG (GroupBySort q) of
                  Inl e \<Rightarrow> Inl e
                | Inr aggOrder \<Rightarrow>
                    (let orderParts = keyOrderParts (zip groupFields groupExprs) (SortFields q) @ aggOrder
                     in Inr (''SELECT '' @ join '', '' (groupExprs @ aggParts) @ '' FROM ''
                           @ quoteIdent collection @ where_text clauses
                           @ '' GROUP BY '' @ join '', '' groupExprs
                           @ (if orderParts \<noteq> [] then '' ORDER BY '' @ join '', '' orderParts else [])
                           @ limit_offset_pg q, args))))"

definition buildCountSQL_pg :: "string \<Rightarrow> query \<Rightarrow> string \<times> gval list" where
  "buildCountSQL_pg collection q =
     (let (clauses, args, paramN) = buildWhereClauses_pg (Conditions q);
          (clauses, args) = appendCursorClauses_pg clauses args paramN q
      in (''SELECT COUNT(*) FROM '' @ quoteIdent collection @ where_text clauses, args))"

definition buildExistsSQL_pg :: "string \<Rightarrow> query \<Rightarrow> string \<times> gval list" where
  "buildExistsSQL_pg collection q =
     (let (clauses, args, paramN) = buildWhereClauses_pg (Conditions q);
          (clauses, args) = appendCursorClauses_pg clauses args paramN q;
          inner = ''SELECT 1 FROM '' @ quoteIdent collection @ where_text clauses @ '' LIMIT 1''
      in (''SELECT EXISTS('' @ inner @ '')'', args))"

definition buildAggregateSQL_pg ::
    "string \<Rightarrow> aggregate_op \<Rightarrow> string \<Rightarrow> query \<Rightarrow> gerr + string \<times> gval list" where
  "buildAggregateSQL_pg collection op field q =
     (if \<not> scalar_op op then Inl (Msg (''den: unsupported aggregate op: '' @ op_text op))
      else (let (clauses, args, paramN) = buildWhereClauses_pg (Conditions q) in
        Inr (''SELECT '' @ op_text op @ ''('' @ float_expr_pg field @ '') FROM '' @ quoteIdent collection
               @ where_text clauses, args)))"

section \<open>Full-text search\<close>

fun fts_clauses_pg :: "condition list \<Rightarrow> nat \<Rightarrow> string \<times> gval list \<times> nat" where
  "fts_clauses_pg [] paramN = ([], [], paramN)"
| "fts_clauses_pg (cond # conds) paramN =
     (let (clause, clauseArgs, nextN) = conditionToSQL_pg cond paramN in
      if clause \<noteq> []
      then (let (rest, args, lastN) = fts_clauses_pg conds nextN
            in ('' AND ('' @ clause @ '')'' @ rest, clauseArgs @ args, lastN))
      else fts_clauses_pg conds paramN)"

definition buildFTSSearchSQL_pg :: "string \<Rightarrow> string \<Rightarrow> query \<Rightarrow> string \<times> gval list" where
  "buildFTSSearchSQL_pg collection query q =
     (let (conds, condArgs, paramN) = fts_clauses_pg (Conditions q) 2;
          (after, afterArgs, paramN) =
            (if AfterID q \<noteq> [] then ('' AND id > '' @ param paramN, [GStr (AfterID q)], paramN + 1)
             else ([], [], paramN));
          (before, beforeArgs) =
            (if BeforeID q \<noteq> [] then ('' AND id < '' @ param paramN, [GStr (BeforeID q)])
             else ([], []))
      in (''SELECT id, data::text FROM '' @ quoteIdent collection
            @ '' WHERE _fts_vector @@ plainto_tsquery('' @ squoted ''english'' @ '', $1)''
            @ conds @ after @ before
            @ (if SortFields q \<noteq> [] then order_by_pg jsonbPathText (SortFields q)
               else '' ORDER BY ts_rank(_fts_vector, plainto_tsquery('' @ squoted ''english'' @ '', $1)) DESC'')
            @ limit_offset_pg q,
          [GStr query] @ condArgs @ afterArgs @ beforeArgs))"

definition tsvector_expr :: "string list \<Rightarrow> string" where
  "tsvector_expr fs =
     ''to_tsvector('' @ squoted ''english'' @ '', ''
       @ join ('' || '' @ squoted '' '' @ '' || '')
           (map (\<lambda>f. ''coalesce('' @ jsonbPathText f @ '', '' @ squoted [] @ '')'') fs) @ '')''"

section \<open>Index statements and versions\<close>

definition createExpressionIndexSQL_pg :: "string \<Rightarrow> index_definition \<Rightarrow> string option" where
  "createExpressionIndexSQL_pg collection idx =
     (if ix_Fields idx = [] then None
      else
        (let exprList = join '', '' (map (\<lambda>f. ''('' @ jsonbPathText f @ '')'') (ix_Fields idx));
             uniqueStr = (if ix_Unique idx then ''UNIQUE '' else []);
             whereClause = (if ix_Unique idx
               then '' WHERE '' @ join '' AND '' (map (\<lambda>f. jsonbPathText f @ '' IS NOT NULL'') (ix_Fields idx))
               else [])
         in Some (''CREATE '' @ uniqueStr @ ''INDEX CONCURRENTLY IF NOT EXISTS '' @ quoteIdent (ix_Name idx)
              @ '' ON '' @ quoteIdent collection @ ''('' @ exprList @ '')'' @ whereClause)))"

text \<open>Go's integer division truncates; \<open>versionNum\<close> comes from \<open>server_version_num\<close>.\<close>

definition parseVersionNum :: "nat \<Rightarrow> nat \<times> nat" where
  "parseVersionNum num = (num div 10000, num mod 100)"

definition formatVersion :: "nat \<Rightarrow> nat \<Rightarrow> string" where
  "formatVersion major minor = dec major @ ''.'' @ dec minor"

definition minPGVersion :: nat where "minPGVersion = 13"

definition checkMinVersion :: "nat \<Rightarrow> gerr option" where
  "checkMinVersion versionNum =
     (let (major, minor) = parseVersionNum versionNum in
      if major < minPGVersion
      then Some (Msg (''den requires PostgreSQL '' @ dec minPGVersion @ '' or later, got ''
                        @ formatVersion major minor))
      else None)"

end
