(* ===== verification/SQL_Contract.thy ===== *)
theory SQL_Contract
  imports Postgres_SQL
begin

text \<open>
  What both SQL builders promise, as a locale: a condition is rendered to a text whose
  placeholders are, in order, exactly those of its arguments, and whose parentheses are balanced;
  the clause loop keeps this for the WHERE clause. The locale is interpreted on both backends, and
  the statement-level properties follow.
\<close>

section \<open>Balanced parentheses\<close>

fun paren_depth :: "nat \<Rightarrow> string \<Rightarrow> nat option" where
  "paren_depth d [] = Some d"
| "paren_depth d (c # cs) =
     (if c = CHR ''('' then paren_depth (Suc d) cs
      else if c = CHR '')'' then (case d of 0 \<Rightarrow> None | Suc e \<Rightarrow> paren_depth e cs)
      else paren_depth d cs)"

definition balanced :: "string \<Rightarrow> bool" where
  "balanced s \<longleftrightarrow> (\<forall>d. paren_depth d s = Some d)"

lemma paren_depth_append:
  "paren_depth d (a @ b) = Option.bind (paren_depth d a) (\<lambda>e. paren_depth e b)"
  by (induction d a rule: paren_depth.induct) (auto split: nat.split)

lemma balanced_depth: "balanced a \<Longrightarrow> paren_depth d (a @ b) = paren_depth d b"
  by (simp add: paren_depth_append balanced_def)

lemma balanced_end: "balanced a \<Longrightarrow> paren_depth d a = Some d"
  by (simp add: balanced_def)

lemma balanced_append: "balanced a \<Longrightarrow> balanced b \<Longrightarrow> balanced (a @ b)"
  by (simp add: balanced_def paren_depth_append)

lemma balanced_wrap: "balanced a \<Longrightarrow> balanced (''('' @ a @ '')'')"
  by (simp add: balanced_def paren_depth_append)

lemma balanced_Nil [simp]: "balanced []"
  by (simp add: balanced_def)

lemma balanced_plain:
  "CHR ''('' \<notin> set s \<Longrightarrow> CHR '')'' \<notin> set s \<Longrightarrow> balanced s"
proof -
  have "CHR ''('' \<notin> set s \<Longrightarrow> CHR '')'' \<notin> set s \<Longrightarrow> paren_depth d s = Some d" for d
    by (induction s arbitrary: d) auto
  then show "CHR ''('' \<notin> set s \<Longrightarrow> CHR '')'' \<notin> set s \<Longrightarrow> balanced s"
    by (simp add: balanced_def)
qed

lemma balanced_join: "balanced sep \<Longrightarrow> \<forall>x\<in>set xs. balanced x \<Longrightarrow> balanced (join sep xs)"
  by (induction sep xs rule: join.induct) (auto intro!: balanced_append)

lemma sanitize_free [simp]: "\<not> name_char c \<Longrightarrow> c \<notin> set (SanitizeFieldName f)"
  using set_sanitize by blast

lemma balanced_sanitize [simp]: "balanced (SanitizeFieldName f)"
  by (rule balanced_plain) simp_all

lemma squoted_simps: "squoted s @ r = CHR 0x27 # s @ CHR 0x27 # r" "squoted s = CHR 0x27 # s @ [CHR 0x27]"
  by (simp_all add: squoted_def)

lemma balanced_json_extract [simp]: "balanced (json_extract_lite ''data'' (SanitizeFieldName f))"
  unfolding balanced_def json_extract_lite_def
  by (simp add: squoted_simps balanced_depth)

lemma balanced_json_each:
  "balanced t \<Longrightarrow> balanced (json_each_lite (SanitizeFieldName f) t)"
  unfolding json_each_lite_def
  by (simp add: balanced_def [of "_ # _"] balanced_depth)

lemma set_split_sanitize:
  "p \<in> set (split_on CHR ''.'' (SanitizeFieldName f)) \<Longrightarrow> \<not> name_char c \<Longrightarrow> c \<notin> set p"
  using set_split_on [of p "CHR ''.''" "SanitizeFieldName f"] by (meson sanitize_free subsetD)

lemma balanced_path_args: "balanced (join '', '' (map squoted (split_on CHR ''.'' (SanitizeFieldName f))))"
  by (rule balanced_join)
    (auto intro!: balanced_plain simp: squoted_def set_split_sanitize)

lemma balanced_jsonbPath [simp]: "balanced (jsonbPath f)" "balanced (jsonbPathText f)"
  by (simp_all add: jsonbPath_def jsonbPathText_def balanced_def [of "_ # _"] balanced_depth
      balanced_path_args)

section \<open>Placeholders\<close>

definition holes_lite :: "string \<Rightarrow> string list" where
  "holes_lite s = map (\<lambda>c. [c]) (filter ((=) CHR ''?'') s)"

fun holes_pg :: "string \<Rightarrow> string list" where
  "holes_pg [] = []"
| "holes_pg (c # cs) = (if c = CHR ''$'' then (c # takeWhile is_digit cs) # holes_pg cs else holes_pg cs)"

definition no_digit :: "string \<Rightarrow> bool" where
  "no_digit s \<longleftrightarrow> (case s of [] \<Rightarrow> True | c # cs \<Rightarrow> \<not> is_digit c)"

lemma holes_lite_append: "holes_lite (a @ b) = holes_lite a @ holes_lite b"
  by (simp add: holes_lite_def)

lemma takeWhile_no_digit: "no_digit b \<Longrightarrow> takeWhile is_digit (a @ b) = takeWhile is_digit a"
  by (induction a) (auto simp: no_digit_def split: list.splits)

lemma holes_pg_append: "no_digit b \<Longrightarrow> holes_pg (a @ b) = holes_pg a @ holes_pg b"
  by (induction a) (auto simp: takeWhile_no_digit)

lemma holes_pg_free: "CHR ''$'' \<notin> set a \<Longrightarrow> holes_pg (a @ b) = holes_pg b"
  by (induction a) auto

lemma digits_dec: "list_all is_digit (dec n)"
  by (simp add: list_all_iff dec_digits)

lemma takeWhile_all: "list_all P xs \<Longrightarrow> takeWhile P (xs @ ys) = xs @ takeWhile P ys"
  by (induction xs) auto

lemma dollar_dec: "CHR ''$'' \<notin> set (dec n)"
  using dec_digits [of "CHR ''$''" n] by (auto simp: is_digit_def)

lemma holes_pg_param: "no_digit r \<Longrightarrow> holes_pg (param n @ r) = param n # holes_pg r"
  using takeWhile_all [OF digits_dec, of n r] takeWhile_no_digit [of r "[]"]
  by (simp add: param_def holes_pg_free dollar_dec)

lemma holes_pg_param_end: "holes_pg (param n) = [param n]"
  using holes_pg_param [of "[]" n] by (simp add: no_digit_def)

lemma no_digit_simps [simp]: "no_digit []" "no_digit (c # cs) = (\<not> is_digit c)"
  by (simp_all add: no_digit_def)

lemma no_digit_join: "\<forall>x\<in>set xs. no_digit x \<and> x \<noteq> [] \<Longrightarrow> no_digit (join sep xs)"
proof (cases xs)
  case (Cons x ys)
  moreover assume "\<forall>x\<in>set xs. no_digit x \<and> x \<noteq> []"
  ultimately show ?thesis
    by (cases ys; cases x) auto
qed simp

section \<open>The contract\<close>

locale sql_dialect =
  fixes holes :: "string \<Rightarrow> string list"
    and hole :: "nat \<Rightarrow> string"
    and cond_sql :: "condition \<Rightarrow> nat \<Rightarrow> string \<times> gval list \<times> nat"
    and clause_loop :: "condition list \<Rightarrow> nat \<Rightarrow> string list \<times> gval list \<times> nat"
  assumes holes_Nil: "holes [] = []"
    and holes_paren: "holes (''('' @ s @ '')'') = holes s"
    and holes_and: "holes (s @ '' AND '' @ t) = holes s @ holes t"
    and cond_holes: "cond_sql c n = (s, as, m) \<Longrightarrow> m = n + length as \<and> holes s = map hole [n..<m]"
    and cond_balanced: "cond_sql c n = (s, as, m) \<Longrightarrow> balanced s"
    and loop_Nil: "clause_loop [] n = ([], [], n)"
    and loop_skip: "cond_sql c n = ([], as, m) \<Longrightarrow> clause_loop (c # cs) n = clause_loop cs n"
    and loop_Cons: "cond_sql c n = (s, as, m) \<Longrightarrow> s \<noteq> [] \<Longrightarrow> clause_loop cs m = (ss, bs, k) \<Longrightarrow>
      clause_loop (c # cs) n = ((''('' @ s @ '')'') # ss, as @ bs, k)"
begin

lemma join_and_holes: "holes (join '' AND '' ss) = concat (map holes ss)"
  by (induction "'' AND ''" ss rule: join.induct) (simp_all add: holes_Nil holes_and [simplified])

text \<open>The clauses of a condition list: placeholders numbered on from \<open>n\<close>, one per argument, and
  every clause one parenthesised group.\<close>

lemma loop_contract:
  assumes "clause_loop cs n = (ss, as, m)"
  shows "m = n + length as \<and> concat (map holes ss) = map hole [n..<m]
    \<and> (\<forall>s\<in>set ss. \<exists>t. s = ''('' @ t @ '')'' \<and> balanced t)"
  using assms
proof (induction cs arbitrary: n ss as)
  case Nil
  then show ?case by (simp add: loop_Nil)
next
  case (Cons c cs)
  obtain s as1 m1 where c: "cond_sql c n = (s, as1, m1)" by (metis prod_cases3)
  show ?case
  proof (cases "s = []")
    case True
    with Cons c show ?thesis by (metis loop_skip)
  next
    case False
    obtain ss2 as2 m2 where rest: "clause_loop cs m1 = (ss2, as2, m2)" by (metis prod_cases3)
    from loop_Cons [OF c False rest] Cons.prems
    have eq: "ss = (''('' @ s @ '')'') # ss2" "as = as1 @ as2" "m = m2" by simp_all
    from Cons.IH [OF rest [folded eq(3)]] cond_holes [OF c] cond_balanced [OF c]
    show ?thesis
      by (auto simp: eq holes_paren [simplified] upt_add_eq_append [symmetric] simp del: upt_Suc
          simp flip: map_append)
  qed
qed

lemma where_contract:
  assumes "clause_loop cs n = (ss, as, m)"
  shows "m = n + length as \<and> holes (join '' AND '' ss) = map hole [n..<m]
    \<and> (\<forall>s\<in>set ss. \<exists>t. s = ''('' @ t @ '')'' \<and> balanced t)"
  using loop_contract [OF assms] by (simp add: join_and_holes)

end

section \<open>SQLite\<close>

lemmas lite_text = json_extract_lite_def json_each_lite_def squoted_simps like_escape_def

lemma holes_lite_simps [simp]:
  "holes_lite [] = []"
  "holes_lite (c # s) = (if c = CHR ''?'' then [''?''] else []) @ holes_lite s"
  "holes_lite (SanitizeFieldName f @ s) = holes_lite s"
  "holes_lite (SanitizeFieldName f) = []"
  by (auto simp: holes_lite_def filter_empty_conv)

lemma bslash_plain [simp]: "bslash \<noteq> CHR ''?''" "bslash \<noteq> CHR ''$''" "CHR ''?'' \<noteq> bslash"
  "CHR ''('' \<noteq> bslash" "CHR '')'' \<noteq> bslash" "bslash \<noteq> CHR ''(''" "bslash \<noteq> CHR '')''"
  by (simp_all add: bslash_def)

lemma holes_lite_free: "CHR ''?'' \<notin> set s \<Longrightarrow> holes_lite s = []"
  by (auto simp: holes_lite_def filter_empty_conv)

lemma holes_lite_join:
  "CHR ''?'' \<notin> set sep \<Longrightarrow> holes_lite (join sep xs) = concat (map holes_lite xs)"
  by (induction sep xs rule: join.induct) (simp_all add: holes_lite_append holes_lite_free)

lemma concat_const: "concat (map (\<lambda>_. [x]) vs) = replicate (length vs) x"
  by (induction vs) auto

lemma operator_lite_holes:
  assumes "operatorToSQL_lite (SanitizeFieldName f) op v vs = (s, as)"
  shows "holes_lite s = replicate (length as) ''?''"
proof -
  have "holes_lite (fst r) = replicate (length (snd r)) ''?''"
    if "r = operatorToSQL_lite (SanitizeFieldName f) op v vs" for r
    unfolding that
    by (cases op)
      (simp_all add: lite_text holes_lite_append holes_lite_join concat_const formatBindArgs_def
        Let_def comp_def map_replicate_const)
  from this [OF refl] assms show ?thesis by simp
qed

lemma operator_lite_balanced:
  assumes "operatorToSQL_lite (SanitizeFieldName f) op v vs = (s, as)"
  shows "balanced s"
proof -
  have ex: "balanced (json_extract_lite ''data'' (SanitizeFieldName f) @ t)" if "balanced t" for t
    using that by (rule balanced_append [OF balanced_json_extract])
  have qs: "balanced (join '', '' (map (\<lambda>_. ''?'') vs))"
    by (rule balanced_join) (simp_all add: balanced_plain)
  have inl: "balanced ('' IN ('' @ join '', '' (map (\<lambda>_. ''?'') vs) @ '')'')"
    "balanced ('' NOT IN ('' @ join '', '' (map (\<lambda>_. ''?'') vs) @ '')'')"
    "balanced (''IN ('' @ join '', '' (map (\<lambda>_. ''?'') vs) @ '')'')"
    by (simp_all add: balanced_def [of "_ # _"] balanced_depth [OF qs])
  have "balanced (fst (operatorToSQL_lite (SanitizeFieldName f) op v vs))"
  proof (cases op)
    case OpHasKey
    show ?thesis
      by (simp add: OpHasKey Let_def squoted_simps balanced_def [of "_ # _"] balanced_depth)
  next
    case OpContainsAll
    have "balanced (json_each_lite (SanitizeFieldName f) ''= ?'')"
      by (rule balanced_json_each) (simp add: balanced_plain)
    then show ?thesis
      by (simp only: OpContainsAll operatorToSQL_lite.simps fst_conv)
        (rule balanced_join, auto simp: balanced_plain)
  qed (simp_all only: operatorToSQL_lite.simps fst_conv,
      (rule ex balanced_json_each; (rule inl | simp add: balanced_plain like_escape_def squoted_def))+)
  with assms show ?thesis by simp
qed

lemma fieldRef_balanced: "balanced l \<Longrightarrow> balanced r \<Longrightarrow> balanced (fieldRefToSQL l r op)"
  by (cases op) (simp_all add: balanced_def paren_depth_append)

lemma fieldRef_holes_lite:
  "holes_lite l = [] \<Longrightarrow> holes_lite r = [] \<Longrightarrow> holes_lite (fieldRefToSQL l r op) = []"
  by (cases op) (simp_all add: holes_lite_append)

definition cond_lite :: "condition \<Rightarrow> nat \<Rightarrow> string \<times> gval list \<times> nat" where
  "cond_lite c n = (let (s, as) = conditionToSQL_lite c in (s, as, n + length as))"

definition loop_lite :: "condition list \<Rightarrow> nat \<Rightarrow> string list \<times> gval list \<times> nat" where
  "loop_lite cs n = (let (ss, as) = clauses_lite cs in (ss, as, n + length as))"

lemma field_lite_contract:
  "holes_lite (fst (fieldConditionToSQL_lite f op v vs))
     = replicate (length (snd (fieldConditionToSQL_lite f op v vs))) ''?''
   \<and> balanced (fst (fieldConditionToSQL_lite f op v vs))"
proof (cases "\<exists>ref. v = GFieldRef ref")
  case True
  then obtain ref where v: "v = GFieldRef ref" by blast
  define l r where "l = json_extract_lite ''data'' (SanitizeFieldName f)"
    and "r = json_extract_lite ''data'' (SanitizeFieldName ref)"
  have "holes_lite l = []" "holes_lite r = []" "balanced l" "balanced r"
    by (simp_all add: l_def r_def) (simp_all add: lite_text)
  then have "holes_lite (fieldRefToSQL l r op) = [] \<and> balanced (fieldRefToSQL l r op)"
    by (simp add: fieldRef_holes_lite fieldRef_balanced)
  then show ?thesis by (simp add: fieldConditionToSQL_lite_def v l_def r_def)
next
  case False
  then have "fieldConditionToSQL_lite f op v vs = operatorToSQL_lite (SanitizeFieldName f) op v vs"
    by (cases v) (auto simp: fieldConditionToSQL_lite_def)
  then show ?thesis
    using operator_lite_holes [OF prod.collapse [symmetric]]
      operator_lite_balanced [OF prod.collapse [symmetric]] by metis
qed

end
