(* ===== verification/SQL_Properties.thy ===== *)
theory SQL_Properties
  imports SQL_Contract
begin

text \<open>
  The contract \<open>sql_dialect\<close> interpreted on both backends, and the properties of the statements:
  one argument per placeholder, in order; WHERE clauses that are parenthesised groups; a text that
  does not depend on the values it compares with.
\<close>

section \<open>SQLite\<close>

lemma cond_lite_contract:
  "holes_lite (fst (conditionToSQL_lite c)) = replicate (length (snd (conditionToSQL_lite c))) ''?''
   \<and> balanced (fst (conditionToSQL_lite c))"
  "concat (map holes_lite (fst (clauses_lite cs))) = replicate (length (snd (clauses_lite cs))) ''?''
   \<and> (\<forall>s\<in>set (fst (clauses_lite cs)). balanced s)"
proof (induction c and cs rule: conditionToSQL_lite_clauses_lite.induct)
  case (1 f op v vs)
  then show ?case using field_lite_contract by simp
next
  case (2 logic conditions)
  then show ?case
    by (auto simp: holes_lite_join logic_sep_def balanced_join balanced_plain split: prod.split)
next
  case (3 c)
  then show ?case
    by (auto simp: holes_lite_append split: prod.split)
      (simp add: balanced_def [of "_ # _"] balanced_depth)
next
  case (6 c cs)
  then show ?case
    by (auto simp: holes_lite_append replicate_add balanced_wrap [simplified] split: prod.split)
qed simp_all

lemma replicate_upt: "replicate k x = map (\<lambda>_. x) [n..<n + k]"
  by (simp add: map_replicate_const)

interpretation lite: sql_dialect holes_lite "\<lambda>_. ''?''" cond_lite loop_lite
proof
  show "holes_lite [] = []" by simp
  show "holes_lite (''('' @ s @ '')'') = holes_lite s" for s by (simp add: holes_lite_append)
  show "holes_lite (s @ '' AND '' @ t) = holes_lite s @ holes_lite t" for s t
    by (simp add: holes_lite_append)
  show "m = n + length as \<and> holes_lite s = map (\<lambda>_. ''?'') [n..<m]"
    if "cond_lite c n = (s, as, m)" for c n s as m
    using that cond_lite_contract(1) [of c]
    by (auto simp: cond_lite_def replicate_upt [of _ _ n] split: prod.splits)
  show "balanced s" if "cond_lite c n = (s, as, m)" for c n s as m
    using that cond_lite_contract(1) [of c] by (auto simp: cond_lite_def split: prod.splits)
  show "loop_lite [] n = ([], [], n)" for n by (simp add: loop_lite_def)
  show "loop_lite (c # cs) n = loop_lite cs n" if "cond_lite c n = ([], as, m)" for c n as m cs
    using that by (auto simp: cond_lite_def loop_lite_def split: prod.splits)
  show "loop_lite (c # cs) n = ((''('' @ s @ '')'') # ss, as @ bs, k)"
    if "cond_lite c n = (s, as, m)" "s \<noteq> []" "loop_lite cs m = (ss, bs, k)" for c n s as m cs ss bs k
    using that by (auto simp: cond_lite_def loop_lite_def split: prod.splits)
qed

section \<open>PostgreSQL\<close>

lemma holes_pg_plain: "CHR ''$'' \<notin> set s \<Longrightarrow> holes_pg s = []"
  using holes_pg_free [of s "[]"] by simp

lemma dollar_path:
  "CHR ''$'' \<notin> set (join '', '' (map squoted (split_on CHR ''.'' (SanitizeFieldName f))))"
  using set_join [of "'', ''" "map squoted (split_on CHR ''.'' (SanitizeFieldName f))"]
  by (auto simp: squoted_def set_split_sanitize)

lemma holes_pg_path [simp]:
  "holes_pg (jsonbPath f @ r) = holes_pg r" "holes_pg (jsonbPathText f @ r) = holes_pg r"
  "holes_pg (jsonbPath f) = []" "holes_pg (jsonbPathText f) = []"
  by (simp_all add: jsonbPath_def jsonbPathText_def holes_pg_free [OF dollar_path])

lemma holes_pg_join:
  assumes "CHR ''$'' \<notin> set sep" "no_digit sep" "sep \<noteq> []"
  shows "holes_pg (join sep xs) = concat (map holes_pg xs)"
proof (induction xs rule: induct_list012)
  case (3 x y ys)
  have "no_digit (sep @ join sep (y # ys))" using assms by (cases sep) auto
  then have "holes_pg (x @ sep @ join sep (y # ys)) = holes_pg x @ holes_pg (sep @ join sep (y # ys))"
    by (rule holes_pg_append)
  with 3 assms show ?case by (simp add: holes_pg_free)
qed simp_all

lemma concat_singles: "concat (map (\<lambda>x. [f x]) xs) = map f xs"
  by (induction xs) auto

lemma holes_placeholders [simp]: "holes_pg (param i @ ''::jsonb'') = [param i]"
  by (simp add: holes_pg_param is_digit_def)

lemma holes_contains_pg [simp]: "holes_pg (contains_pg (jsonbPath f) i) = [param i]"
  by (simp add: contains_pg_def holes_pg_param is_digit_def)

lemma holes_in_list:
  "holes_pg (join '', '' (placeholders_pg n k) @ '')'') = map param [n..<n + k]"
  by (simp add: holes_pg_append is_digit_def holes_pg_join placeholders_pg_def comp_def
      concat_singles)

lemma operator_pg_holes:
  assumes "operatorToSQL_pg f op v vs n = (s, as, m)"
  shows "m = n + length as \<and> holes_pg s = map param [n..<m]"
proof -
  have "snd (snd r) = n + length (fst (snd r)) \<and> holes_pg (fst r) = map param [n..<snd (snd r)]"
    if "r = operatorToSQL_pg f op v vs n" for r
    unfolding that
    by (cases op)
      (simp_all add: holes_pg_param holes_pg_param_end is_digit_def holes_in_list holes_pg_join
        concat_singles comp_def holes_pg_append like_escape_def squoted_simps)
  from this [OF refl] assms show ?thesis by simp
qed

lemma param_plain: "balanced (param n)"
proof -
  have "CHR ''('' \<notin> set (dec n)" "CHR '')'' \<notin> set (dec n)"
    using dec_digits [of "CHR ''(''" n] dec_digits [of "CHR '')''" n] by (auto simp: is_digit_def)
  then show ?thesis by (auto simp: param_def intro!: balanced_plain)
qed

lemma balanced_contains: "balanced (contains_pg (jsonbPath f) i)"
  by (simp add: contains_pg_def balanced_def [of "_ @ _"] balanced_depth param_plain)

lemma balanced_in_list: "balanced (join '', '' (placeholders_pg n k))"
  by (rule balanced_join)
    (auto simp: placeholders_pg_def balanced_plain intro!: balanced_append param_plain)

lemma operator_pg_balanced:
  assumes "operatorToSQL_pg f op v vs n = (s, as, m)"
  shows "balanced s"
proof -
  have "balanced (join sep (map (contains_pg (jsonbPath f)) is))" if "balanced sep" for sep "is"
    using that by (intro balanced_join) (auto simp: balanced_contains)
  then have "balanced (join '' AND '' (map (contains_pg (jsonbPath f)) is))"
    "balanced (join '' OR '' (map (contains_pg (jsonbPath f)) is))" for "is"
    by (simp_all add: balanced_plain)
  then have "balanced (fst (operatorToSQL_pg f op v vs n))"
    by (cases op)
      (simp_all add: balanced_def [of "_ @ _"] balanced_def [of "_ # _"] balanced_depth param_plain
        balanced_end balanced_in_list balanced_contains like_escape_def squoted_simps)
  with assms show ?thesis by simp
qed

lemma fieldRef_holes_pg:
  "holes_pg (fieldRefToSQL (jsonbPath f) (jsonbPath g) op) = []"
  by (cases op) simp_all

lemma field_pg_contract:
  assumes "fieldConditionToSQL_pg f op v vs n = (s, as, m)"
  shows "m = n + length as \<and> holes_pg s = map param [n..<m] \<and> balanced s"
proof (cases "\<exists>ref. v = GFieldRef ref")
  case True
  with assms show ?thesis
    by (auto simp: fieldConditionToSQL_pg_def fieldRef_holes_pg fieldRef_balanced)
next
  case False
  then have "fieldConditionToSQL_pg f op v vs n = operatorToSQL_pg f op v vs n"
    by (cases v) (auto simp: fieldConditionToSQL_pg_def)
  with assms operator_pg_holes operator_pg_balanced show ?thesis by metis
qed

lemma holes_pg_paren: "holes_pg (''('' @ s @ '')'') = holes_pg s"
  by (simp add: holes_pg_append is_digit_def)

lemma holes_pg_and: "holes_pg (s @ '' AND '' @ t) = holes_pg s @ holes_pg t"
  by (simp add: holes_pg_append is_digit_def)

lemma cond_pg_contract:
  "\<And>s as m. conditionToSQL_pg c n = (s, as, m)
     \<Longrightarrow> m = n + length as \<and> holes_pg s = map param [n..<m] \<and> balanced s"
  "\<And>ss as m. clauses_pg cs n = (ss, as, m)
     \<Longrightarrow> m = n + length as \<and> concat (map holes_pg ss) = map param [n..<m]
       \<and> (\<forall>s\<in>set ss. balanced s)"
proof (induction c n and cs n rule: conditionToSQL_pg_clauses_pg.induct)
  case (1 f op v vs n)
  then show ?case using field_pg_contract by simp
next
  case (2 logic conditions n)
  obtain ss as1 m1 where rec: "clauses_pg conditions n = (ss, as1, m1)" by (metis prod_cases3)
  with "2.IH" [OF rec] "2.prems" show ?case
    by (auto simp: holes_pg_join is_digit_def logic_sep_def balanced_join balanced_plain
        split: if_splits)
next
  case (3 c n)
  obtain t as1 m1 where rec: "conditionToSQL_pg c n = (t, as1, m1)" by (metis prod_cases3)
  from "3.IH" [OF rec] have "balanced (''NOT ('' @ t @ '')'')"
    by (simp add: balanced_def [of "_ # _"] balanced_depth)
  with "3.IH" [OF rec] "3.prems" rec show ?case
    by (auto simp: holes_pg_append is_digit_def split: if_splits)
next
  case (6 c cs n)
  obtain t as1 m1 where c: "conditionToSQL_pg c n = (t, as1, m1)" by (metis prod_cases3)
  show ?case
  proof (cases "t = []")
    case True
    with c "6.prems" have "clauses_pg cs n = (ss, as, m)" by simp
    with "6.IH"(3) [OF c [symmetric] refl refl] True show ?thesis by simp
  next
    case False
    obtain ss2 as2 m2 where rest: "clauses_pg cs m1 = (ss2, as2, m2)" by (metis prod_cases3)
    with c False "6.prems" have eq: "ss = (''('' @ t @ '')'') # ss2" "as = as1 @ as2" "m = m2"
      by simp_all
    have IH: "m2 = m1 + length as2 \<and> concat (map holes_pg ss2) = map param [m1..<m2]
       \<and> (\<forall>s\<in>set ss2. balanced s)"
      using "6.IH"(2) [OF c [symmetric] refl refl False rest] .
    from "6.IH"(1) [OF c] have H: "m1 = n + length as1" "holes_pg t = map param [n..<m1]" "balanced t"
      by simp_all
    have "[n..<m1] @ [m1..<m2] = [n..<m2]"
      using upt_add_eq_append [of n m1 "length as2"] H(1) IH by simp
    then have "map param [n..<m1] @ map param [m1..<m2] = map param [n..<m2]"
      by (simp only: map_append [symmetric])
    with H IH show ?thesis
      by (simp add: eq holes_pg_paren [simplified] balanced_wrap [simplified])
  qed
qed simp_all

interpretation pg: sql_dialect holes_pg param conditionToSQL_pg clauses_pg
proof
  show "holes_pg [] = []" by simp
qed (auto simp: holes_pg_paren [simplified] holes_pg_and [simplified] dest: cond_pg_contract)

section \<open>Statements\<close>

lemma quote_name_char: "name_char c \<Longrightarrow> quote_char c = [c]"
  by (auto simp: quote_char_def name_char_def is_letter_def is_digit_def Let_def)

lemma go_quote_name: "list_all name_char s \<Longrightarrow> go_quote s = dquote # s @ [dquote]"
  by (induction s) (auto simp: go_quote_def quote_name_char dquote_def)

lemma quoteIdent_name:
  assumes "list_all name_char s"
  shows "quoteIdent s = dquote # s @ [dquote]"
proof -
  have "map (\<lambda>x. if x = dquote then [dquote, dquote] else [x]) s = map (\<lambda>x. [x]) s"
    using assms by (auto simp: list_all_iff)
  then show ?thesis
    unfolding quoteIdent_def replace_char_def by (simp only: concat_map_singleton) simp
qed

lemma name_chars_free: "list_all name_char s \<Longrightarrow> \<not> name_char c \<Longrightarrow> c \<notin> set s"
  by (auto simp: list_all_iff)

lemma dec_int_chars: "c \<in> set (dec_int i) \<Longrightarrow> is_digit c \<or> c = CHR ''-''"
  by (auto simp: dec_int.simps dest: dec_digits split: if_splits)

lemma dec_int_free [simp]: "CHR ''?'' \<notin> set (dec_int i)" "CHR ''$'' \<notin> set (dec_int i)"
  using dec_int_chars [of "CHR ''?''" i] dec_int_chars [of "CHR ''$''" i]
  by (auto simp: is_digit_def)

lemma dquote_plain [simp]: "dquote \<noteq> CHR ''?''" "dquote \<noteq> CHR ''$''" "CHR ''?'' \<noteq> dquote"
  "CHR ''$'' \<noteq> dquote" "\<not> is_digit dquote"
  by (simp_all add: dquote_def is_digit_def)

lemma holes_lite_limit [simp]: "holes_lite (limit_offset_lite q) = []"
  by (simp add: limit_offset_lite_def holes_lite_append holes_lite_free)

lemma holes_lite_order [simp]: "holes_lite (order_by_lite ''data'' ss) = []"
  by (simp add: order_by_lite_def holes_lite_join lite_text holes_lite_append sortDirSQL_def comp_def)

lemma cursor_lite:
  assumes "appendCursorClauses_lite cl as q = (cl', as')" "holes_lite (where_text cl) = replicate (length as) ''?''"
  shows "holes_lite (where_text cl') = replicate (length as') ''?''"
proof -
  have join: "holes_lite (where_text xs) = concat (map holes_lite xs)" for xs
    by (simp add: where_text_def holes_lite_join)
  have snoc: "replicate n a @ [a] = a # replicate n a" "replicate n a @ [a, a] = a # a # replicate n a"
    for n and a :: string
    using replicate_append_same [of n a] by (simp_all add: append_Cons [of a, symmetric] del: append_Cons)
      (metis append.assoc append_Cons append_Nil replicate_append_same)
  from assms show ?thesis
    by (auto simp: appendCursorClauses_lite_def join snoc Let_def split: if_splits)
qed

lemma where_lite: "holes_lite (where_text (fst (buildWhereClauses_lite cs)))
    = replicate (length (snd (buildWhereClauses_lite cs))) ''?''"
  using cond_lite_contract(2) [of cs]
  by (auto simp: where_text_def holes_lite_join buildWhereClauses_lite_def)

lemma where_cursor_lite:
  assumes "buildWhereClauses_lite cs = (cl, as)" "appendCursorClauses_lite cl as q = (cl', as')"
  shows "holes_lite (where_text cl') = replicate (length as') ''?''"
  using cursor_lite [OF assms(2)] where_lite [of cs] assms(1) by simp

text \<open>C13. The SQLite SELECT, COUNT and EXISTS statements of every query have one placeholder per
  bind argument, whatever the conditions (empty lists, nested negations, field references and
  dropped clauses included).\<close>

theorem sqlite_statement_arity:
  assumes "list_all name_char collection"
  shows "\<forall>r\<in>{buildSelectSQL_lite collection q, buildCountSQL_lite collection q,
      buildExistsSQL_lite collection q}.
    holes_lite (fst r) = replicate (length (snd r)) ''?''"
  using where_cursor_lite [of "Conditions q" _ _ q] assms
  by (auto simp: buildSelectSQL_lite_def buildCountSQL_lite_def buildExistsSQL_lite_def Let_def
      go_quote_name holes_lite_append holes_lite_free name_chars_free split: prod.split)

theorem sqlite_statement_arity_witness:
  "let r = buildCountSQL_lite ''note'' (empty_query ''note''\<lparr>Conditions := [Eq (Field ''a'') (GInt 1)]\<rparr>)
   in fst r = ''SELECT COUNT(*) FROM '' @ [CHR 0x22] @ ''note'' @ [CHR 0x22] @ '' WHERE (json_extract(data, ''
          @ [CHR 0x27] @ ''$.a'' @ [CHR 0x27] @ '') = ?)''
      \<and> snd r = [GInt 1] \<and> holes_lite (fst r) = [''?'']"
  using sqlite_statement_arity [of "''note''" "empty_query ''note''\<lparr>Conditions := [Eq (Field ''a'') (GInt 1)]\<rparr>"]
  by (simp add: name_char_def is_letter_def is_digit_def buildCountSQL_lite_def empty_query_def
      buildWhereClauses_lite_def builder_defs fieldConditionToSQL_lite_def SanitizeFieldName_def
      appendCursorClauses_lite_def where_text_def go_quote_name dquote_def lite_text Let_def)

lemma holes_pg_where: "holes_pg (where_text cl) = concat (map holes_pg cl)"
  by (simp add: where_text_def holes_pg_join is_digit_def)

lemma where_cursor_pg:
  assumes "buildWhereClauses_pg cs = (cl, as, n)" "appendCursorClauses_pg cl as n q = (cl', as')"
  shows "holes_pg (where_text cl') = map param [1..<Suc (length as')]"
proof -
  have "n = Suc (length as)" "concat (map holes_pg cl) = map param [1..<Suc (length as)]"
    using pg.loop_contract assms(1) by (fastforce simp: buildWhereClauses_pg_def)+
  with assms(2) show ?thesis
    by (auto simp: appendCursorClauses_pg_def holes_pg_where Let_def holes_pg_param_end
        split: if_splits)
qed

lemma no_digit_limit_pg [simp]: "no_digit (limit_offset_pg q)" "no_digit (limit_offset_pg q @ lock_suffix l)"
  by (auto simp: limit_offset_pg_def is_digit_def lock_suffix_def
      split: option.split lock_mode.split)

lemma holes_limit_pg [simp]: "holes_pg (limit_offset_pg q) = []" "holes_pg (lock_suffix l) = []"
  "holes_pg (limit_offset_pg q @ lock_suffix l) = []"
proof -
  have num: "holes_pg (dec_int i @ r) = holes_pg r" for i r by (simp add: holes_pg_free)
  show "holes_pg (lock_suffix l) = []"
    by (simp add: lock_suffix_def split: option.split lock_mode.split)
  moreover show "holes_pg (limit_offset_pg q) = []"
    using num by (simp add: limit_offset_pg_def holes_pg_plain)
  moreover have "no_digit (lock_suffix l)"
    by (auto simp: lock_suffix_def is_digit_def split: option.split lock_mode.split)
  ultimately show "holes_pg (limit_offset_pg q @ lock_suffix l) = []"
    by (simp add: holes_pg_append)
qed

lemma no_digit_where: "no_digit r \<Longrightarrow> no_digit (where_text cl @ r)"
  by (simp add: where_text_def is_digit_def)

lemma order_by_pg_holes: "holes_pg (order_by_pg jsonbPath ss) = []" "no_digit (order_by_pg f ss)"
  by (simp_all add: order_by_pg_def holes_pg_join is_digit_def comp_def sortDirSQL_def)

text \<open>C12. The PostgreSQL SELECT, COUNT and EXISTS statements of every query refer to exactly the
  parameters \<open>$1, \<dots>, $n\<close>, each once and in order, where \<open>n\<close> is the number of bind arguments:
  the numbers threaded through nested and dropped conditions and the cursor clauses never collide
  or skip.\<close>

theorem postgres_statement_parameters:
  assumes "list_all name_char collection"
  shows "\<forall>r\<in>{buildSelectSQL_pg collection q, buildCountSQL_pg collection q,
      buildExistsSQL_pg collection q}.
    holes_pg (fst r) = map param [1..<Suc (length (snd r))]"
proof -
  have quoted: "holes_pg (collection @ r) = holes_pg r" for r
    using assms by (simp add: holes_pg_free name_chars_free)
  have tail: "holes_pg (where_text cl @ r) = holes_pg (where_text cl)"
    if "no_digit r" "holes_pg r = []" for cl r
    using that by (simp add: holes_pg_append)
  have ord: "no_digit (order_by_pg jsonbPath ss @ r)" "holes_pg (order_by_pg jsonbPath ss @ r) = holes_pg r"
    if "no_digit r" for ss r
    using that by (auto simp: order_by_pg_holes holes_pg_append) (simp add: order_by_pg_def is_digit_def)
  show ?thesis
    using where_cursor_pg [of "Conditions q" _ _ _ q] assms
    by (auto simp: buildSelectSQL_pg_def buildCountSQL_pg_def buildExistsSQL_pg_def Let_def
        quoteIdent_name quoted tail ord is_digit_def simp del: upt_Suc split: prod.split)
qed

theorem postgres_statement_parameters_witness:
  "let q = empty_query ''note''\<lparr>Conditions := [Or [Gt (Field ''a'') (GInt 1), And [], Ne (Field ''b'') (GBool True)]],
         AfterID := ''01''\<rparr> in
   holes_pg (fst (buildCountSQL_pg ''note'' q)) = [''$1'', ''$2'', ''$3'']"
proof -
  let ?q = "empty_query ''note''\<lparr>Conditions := [Or [Gt (Field ''a'') (GInt 1), And [],
      Ne (Field ''b'') (GBool True)]], AfterID := ''01''\<rparr>"
  have "length (snd (buildCountSQL_pg ''note'' ?q)) = 3"
    by (simp add: buildCountSQL_pg_def buildWhereClauses_pg_def empty_query_def builder_defs
        fieldConditionToSQL_pg_def appendCursorClauses_pg_def jsonbPath_def logic_sep_def Let_def)
  moreover have "list_all name_char ''note''" by (simp add: name_char_def is_letter_def)
  ultimately have "holes_pg (fst (buildCountSQL_pg ''note'' ?q)) = map param [1..<Suc 3]"
    using postgres_statement_parameters [of "''note''" ?q] by (simp del: upt_Suc)
  also have "\<dots> = [''$1'', ''$2'', ''$3'']"
    by code_simp
  finally show ?thesis by (simp add: Let_def)
qed

text \<open>Every top-level clause of a WHERE clause, on both backends, is one parenthesised group
  with balanced parentheses inside: joining clauses with AND cannot re-associate an OR of one
  condition with its neighbour.\<close>

theorem where_clauses_are_groups:
  "list_all (\<lambda>s. \<exists>t. s = ''('' @ t @ '')'' \<and> balanced t) (fst (buildWhereClauses_lite cs))
   \<and> list_all (\<lambda>s. \<exists>t. s = ''('' @ t @ '')'' \<and> balanced t) (fst (buildWhereClauses_pg cs))"
proof -
  obtain ss as where "clauses_lite cs = (ss, as)" by fastforce
  moreover from this have "loop_lite cs 0 = (ss, as, length as)" by (simp add: loop_lite_def)
  moreover obtain ss' as' m where "clauses_pg cs 1 = (ss', as', m)" by (metis prod_cases3)
  ultimately show ?thesis
    using lite.loop_contract [of cs 0 ss as "length as"] pg.loop_contract [of cs 1 ss' as' m]
    by (simp add: buildWhereClauses_lite_def buildWhereClauses_pg_def list_all_iff)
qed

section \<open>Values never reach the text\<close>

text \<open>\<open>blank\<close> forgets a value but keeps its kind; the key of \<open>HasKey\<close> and field references are
  names, not values.\<close>

fun blank :: "gval \<Rightarrow> gval" where
  "blank (GStr s) = GStr []"
| "blank (GBool b) = GBool False"
| "blank (GInt i) = GInt 0"
| "blank (GFloat v j) = GFloat [] None"
| "blank (GFieldRef f) = GFieldRef f"
| "blank GNil = GNil"
| "blank _ = GTime [] []"

fun blank_condition :: "condition \<Rightarrow> condition" where
  "blank_condition (FieldCond f op v vs) =
     FieldCond f op (if op = OpHasKey then v else blank v) (map blank vs)"
| "blank_condition (LogicalCond l cs) = LogicalCond l (map blank_condition cs)"
| "blank_condition (NotCond c) = NotCond (blank_condition c)"
| "blank_condition NilCond = NilCond"

lemma field_lite_blank:
  "fst (fieldConditionToSQL_lite f op (if op = OpHasKey then v else blank v) (map blank vs))
     = fst (fieldConditionToSQL_lite f op v vs)"
  by (cases v; cases op) (simp_all add: fieldConditionToSQL_lite_def Let_def comp_def)

lemma lite_blank:
  "fst (conditionToSQL_lite (blank_condition c)) = fst (conditionToSQL_lite c)"
  "fst (clauses_lite (map blank_condition cs)) = fst (clauses_lite cs)"
proof (induction c and cs rule: conditionToSQL_lite_clauses_lite.induct)
  case (1 f op v vs)
  then show ?case by (simp only: blank_condition.simps conditionToSQL_lite.simps field_lite_blank)
qed (auto split: prod.splits)

lemma canRewrite_blank: "canRewriteEqToContainment f (blank v) = canRewriteEqToContainment f v"
  by (cases v) (auto simp: canRewriteEqToContainment_def)

lemma field_pg_blank:
  "fst (fieldConditionToSQL_pg f op (if op = OpHasKey then v else blank v) (map blank vs) n)
     = fst (fieldConditionToSQL_pg f op v vs n)"
  "snd (snd (fieldConditionToSQL_pg f op (if op = OpHasKey then v else blank v) (map blank vs) n))
     = snd (snd (fieldConditionToSQL_pg f op v vs n))"
proof -
  have op: "fst (operatorToSQL_pg f op v' (map blank vs) n) = fst (operatorToSQL_pg f op v vs n)
      \<and> snd (snd (operatorToSQL_pg f op v' (map blank vs) n)) = snd (snd (operatorToSQL_pg f op v vs n))"
    if "canRewriteEqToContainment f v' = canRewriteEqToContainment f v" for v'
    using that by (cases op) simp_all
  let ?v = "if op = OpHasKey then v else blank v"
  have "fst (fieldConditionToSQL_pg f op ?v (map blank vs) n) = fst (fieldConditionToSQL_pg f op v vs n)
    \<and> snd (snd (fieldConditionToSQL_pg f op ?v (map blank vs) n))
      = snd (snd (fieldConditionToSQL_pg f op v vs n))"
  proof (cases "\<exists>r. v = GFieldRef r")
    case True
    then show ?thesis by (auto simp: fieldConditionToSQL_pg_def)
  next
    case False
    then have "\<forall>r. ?v \<noteq> GFieldRef r" by (cases v) auto
    with False have "fieldConditionToSQL_pg f op ?v (map blank vs) n = operatorToSQL_pg f op ?v (map blank vs) n"
      "fieldConditionToSQL_pg f op v vs n = operatorToSQL_pg f op v vs n"
      unfolding fieldConditionToSQL_pg_def by (auto split: gval.split)
    then show ?thesis
      using op [of ?v] canRewrite_blank [of f v] by (cases "op = OpHasKey") auto
  qed
  then show "fst (fieldConditionToSQL_pg f op ?v (map blank vs) n) = fst (fieldConditionToSQL_pg f op v vs n)"
    "snd (snd (fieldConditionToSQL_pg f op ?v (map blank vs) n))
      = snd (snd (fieldConditionToSQL_pg f op v vs n))"
    by simp_all
qed

lemma pg_blank:
  "fst (conditionToSQL_pg (blank_condition c) n) = fst (conditionToSQL_pg c n)
   \<and> snd (snd (conditionToSQL_pg (blank_condition c) n)) = snd (snd (conditionToSQL_pg c n))"
  "fst (clauses_pg (map blank_condition cs) n) = fst (clauses_pg cs n)
   \<and> snd (snd (clauses_pg (map blank_condition cs) n)) = snd (snd (clauses_pg cs n))"
proof (induction c n and cs n rule: conditionToSQL_pg_clauses_pg.induct)
  case (1 f op v vs n)
  then show ?case
    by (simp only: blank_condition.simps conditionToSQL_pg.simps field_pg_blank simp_thms)
qed (auto split: prod.splits)

text \<open>C14. The text of a condition depends on its shape only, on both backends: replacing every
  compared value by a blank one of its kind leaves the SQL text (and the placeholder numbering)
  unchanged, so no value of a query can alter the statement. Field references and the key of
  \<open>HasKey\<close> are names of the document; they enter the text sanitized.\<close>

theorem values_never_reach_the_text:
  "fst (conditionToSQL_lite (blank_condition c)) = fst (conditionToSQL_lite c)
   \<and> fst (conditionToSQL_pg (blank_condition c) n) = fst (conditionToSQL_pg c n)
   \<and> snd (snd (conditionToSQL_pg (blank_condition c) n)) = snd (snd (conditionToSQL_pg c n))"
  using lite_blank(1) [of c] pg_blank(1) [of c n] by simp

end
