(* ===== verification/Document.thy ===== *)
theory Document
  imports Where
begin

text \<open>
  Documents in memory and in storage. A stored document is JSON, represented by its syntax tree
  \<open>json\<close> (the order of an object's members is kept, as the text keeps it). A document in memory is
  a Go struct registered with Den: its type name, the list of its fields under their JSON names
  (those of \<open>document.Base\<close>, \<open>document.SoftDelete\<close> and the type's own), each with its \<open>omitempty\<close>
  flag, and the change-tracking snapshot of \<open>document.Tracked\<close>. Field values carry what the field's
  Go type fixes: the zero value of a plain field, the target type and the \<open>eager\<close> tag of a link
  field. A nested struct is the list of its fields; a pointer to a struct also carries the zero fields of
  its target, which decoding starts from when the pointer is nil (types nested in themselves have no such
  value). Times are their RFC 3339 texts.

  \<open>encode\<close> and \<open>decode_into\<close> are \<open>encoding/json\<close> on such structs: decoding merges into the value it
  is given (an absent member leaves its field alone), skips unknown members, records a type
  mismatch and goes on, and stops at the error of a custom unmarshaller. Members are matched by their
  exact names, which are the names Den itself writes; \<open>encoding/json\<close> would also take other
  capitalisations.
\<close>

section \<open>Data\<close>

datatype json =
    JNull | JBool bool | JNum string | JStr string | JArr "json list"
  | JObj "(string \<times> json) list"

datatype attachment = Attachment (StoragePath: string) (Mime: string) (Size: int) (SHA256: string)

datatype fval =
    FStr string
  | FTime string
  | FTimePtr "string option"
  | FJson json json
  | FLink string bool link
  | FLinks string bool "link list"
  | FAtt attachment
  | FAttPtr "attachment option"
  | FStruct "(string \<times> bool \<times> fval) list"
  | FStructPtr "(string \<times> bool \<times> fval) list" "(string \<times> bool \<times> fval) list option"
and link = Link (link_ID: string) (link_Value: "doc option") (link_Loaded: bool)
and doc = Doc (doc_type: string) (doc_fields: "(string \<times> bool \<times> fval) list")
              (doc_tracked: "json option option")

text \<open>The recursions on a value descend into the fields of nested structs.\<close>

lemma nested_smaller [termination_simp]:
  "(n, oe, v) \<in> set fs \<Longrightarrow> size v < Suc (size_list (size_prod (\<lambda>_. 0) (size_prod (\<lambda>_. 0) size)) fs)"
  by (induction fs) auto

lemma nested_smaller_ptr:
  "(n, oe, v) \<in> set fs \<Longrightarrow> size v < Suc (Suc (a + size_list (size_prod (\<lambda>_. 0) (size_prod (\<lambda>_. 0) size)) fs))"
  by (drule nested_smaller) simp

text \<open>\<open>doc_tracked\<close> is \<open>None\<close> for a type that does not embed \<open>document.Tracked\<close>, and the snapshot
  otherwise.\<close>

definition zero_time :: string where
  "zero_time = ''0001-01-01T00:00:00Z''"

definition FieldID :: string where "FieldID = ''_id''"
definition FieldCreatedAt :: string where "FieldCreatedAt = ''_created_at''"
definition FieldUpdatedAt :: string where "FieldUpdatedAt = ''_updated_at''"
definition FieldRev :: string where "FieldRev = ''_rev''"
definition FieldDeletedAt :: string where "FieldDeletedAt = ''_deleted_at''"
definition FieldDeletedBy :: string where "FieldDeletedBy = ''_deleted_by''"
definition FieldDeleteReason :: string where "FieldDeleteReason = ''_delete_reason''"

definition serverOwnedFieldNames :: "string list" where
  "serverOwnedFieldNames = [FieldID, FieldCreatedAt, FieldUpdatedAt, FieldRev, FieldDeletedAt,
     FieldDeletedBy, FieldDeleteReason]"

lemmas field_name_defs = FieldID_def FieldCreatedAt_def FieldUpdatedAt_def FieldRev_def
  FieldDeletedAt_def FieldDeletedBy_def FieldDeleteReason_def

section \<open>Access by JSON name\<close>

definition field_of :: "doc \<Rightarrow> string \<Rightarrow> fval option" where
  "field_of d name = map_option snd (map_of (doc_fields d) name)"

fun set_in :: "string \<Rightarrow> fval \<Rightarrow> (string \<times> bool \<times> fval) list \<Rightarrow> (string \<times> bool \<times> fval) list" where
  "set_in name v [] = []"
| "set_in name v ((n, oe, w) # fs) =
     (if n = name then (n, oe, v) # fs else (n, oe, w) # set_in name v fs)"

definition set_field :: "string \<Rightarrow> fval \<Rightarrow> doc \<Rightarrow> doc" where
  "set_field name v d = Doc (doc_type d) (set_in name v (doc_fields d)) (doc_tracked d)"

text \<open>A string field that the struct may lack: \<open>reflect\<close>'s \<open>String()\<close> on it.\<close>

definition string_field :: "doc \<Rightarrow> string \<Rightarrow> string" where
  "string_field d name = (case field_of d name of Some (FStr s) \<Rightarrow> s | _ \<Rightarrow> [])"

definition getID :: "doc \<Rightarrow> string" where
  "getID d = string_field d FieldID"

definition getRevision :: "doc \<Rightarrow> string" where
  "getRevision d = string_field d FieldRev"

definition setRevision :: "string \<Rightarrow> doc \<Rightarrow> doc" where
  "setRevision r d = (if field_of d FieldRev = None then d else set_field FieldRev (FStr r) d)"

definition setSoftDeletedAt :: "string option \<Rightarrow> doc \<Rightarrow> doc" where
  "setSoftDeletedAt t d =
     (if field_of d FieldDeletedAt = None then d else set_field FieldDeletedAt (FTimePtr t) d)"

definition setSoftDeleteAuditFields :: "string \<Rightarrow> string \<Rightarrow> doc \<Rightarrow> doc" where
  "setSoftDeleteAuditFields actor reason d =
     (let d = (if actor \<noteq> [] \<and> field_of d FieldDeletedBy \<noteq> None
               then set_field FieldDeletedBy (FStr actor) d else d)
      in if reason \<noteq> [] \<and> field_of d FieldDeleteReason \<noteq> None
         then set_field FieldDeleteReason (FStr reason) d else d)"

definition IsDeleted :: "doc \<Rightarrow> bool" where
  "IsDeleted d \<longleftrightarrow> (\<exists>t. field_of d FieldDeletedAt = Some (FTimePtr (Some t)))"

definition preserveServerFields :: "doc \<Rightarrow> doc \<Rightarrow> doc" where
  "preserveServerFields dst src =
     foldl (\<lambda>d name. case (field_of d name, field_of src name) of
              (Some _, Some v) \<Rightarrow> set_field name v d | _ \<Rightarrow> d) dst serverOwnedFieldNames"

definition captureSnapshot :: "json \<Rightarrow> doc \<Rightarrow> doc" where
  "captureSnapshot data d =
     (case doc_tracked d of None \<Rightarrow> d | Some _ \<Rightarrow> Doc (doc_type d) (doc_fields d) (Some (Some data)))"

definition Snapshot :: "doc \<Rightarrow> json option" where
  "Snapshot d = (case doc_tracked d of None \<Rightarrow> None | Some s \<Rightarrow> s)"

section \<open>Encoding\<close>

fun empty_json :: "json \<Rightarrow> bool" where
  "empty_json JNull = True"
| "empty_json (JBool b) = (\<not> b)"
| "empty_json (JNum n) = (n = ''0'')"
| "empty_json (JStr s) = (s = [])"
| "empty_json (JArr xs) = (xs = [])"
| "empty_json (JObj ms) = (ms = [])"

text \<open>The \<open>omitempty\<close> test of \<open>encoding/json\<close>: a struct value (a time, a link, an attachment) is
  never empty.\<close>

fun is_empty :: "fval \<Rightarrow> bool" where
  "is_empty (FStr s) = (s = [])"
| "is_empty (FTimePtr t) = (t = None)"
| "is_empty (FJson z v) = empty_json v"
| "is_empty (FLinks ty e ls) = (ls = [])"
| "is_empty (FAttPtr a) = (a = None)"
| "is_empty (FStructPtr z p) = (p = None)"
| "is_empty _ = False"

fun enc_attachment :: "attachment \<Rightarrow> json" where
  "enc_attachment (Attachment p m s h) =
     JObj ([(''storage_path'', JStr p), (''mime'', JStr m), (''size'', JNum (dec_int s))]
           @ (if h = [] then [] else [(''sha256'', JStr h)]))"

function enc_field :: "fval \<Rightarrow> json" where
  "enc_field (FStr s) = JStr s"
| "enc_field (FTime t) = JStr t"
| "enc_field (FTimePtr None) = JNull"
| "enc_field (FTimePtr (Some t)) = JStr t"
| "enc_field (FJson z v) = v"
| "enc_field (FLink ty e l) = JStr (link_ID l)"
| "enc_field (FLinks ty e ls) = JArr (map (\<lambda>l. JStr (link_ID l)) ls)"
| "enc_field (FAtt a) = enc_attachment a"
| "enc_field (FAttPtr None) = JNull"
| "enc_field (FAttPtr (Some a)) = enc_attachment a"
| "enc_field (FStruct fs) = JObj (map (\<lambda>(n, oe, v). (n, enc_field v)) (filter (\<lambda>(n, oe, v). \<not> (oe \<and> is_empty v)) fs))"
| "enc_field (FStructPtr z None) = JNull"
| "enc_field (FStructPtr z (Some fs)) = enc_field (FStruct fs)"
  by pat_completeness auto
termination
  by (relation "measure size") (auto simp: nested_smaller nested_smaller_ptr less_SucI)

definition enc_fields :: "(string \<times> bool \<times> fval) list \<Rightarrow> (string \<times> json) list" where
  "enc_fields fs = map (\<lambda>(n, oe, v). (n, enc_field v)) (filter (\<lambda>(n, oe, v). \<not> (oe \<and> is_empty v)) fs)"

lemma enc_struct [simp]: "enc_field (FStruct fs) = JObj (enc_fields fs)"
  by (simp add: enc_fields_def)

declare enc_field.simps(11) [simp del]

definition encode :: "doc \<Rightarrow> json" where
  "encode d = JObj (enc_fields (doc_fields d))"

section \<open>Decoding\<close>

text \<open>The shape \<open>dddd-dd-ddTdd:dd:dd\<close> with a zone, which \<open>time.Time.UnmarshalJSON\<close> accepts.\<close>

definition time_text :: "string \<Rightarrow> bool" where
  "time_text s \<longleftrightarrow> 20 \<le> length s
     \<and> list_all (\<lambda>i. is_digit (s ! i)) [0, 1, 2, 3, 5, 6, 8, 9, 11, 12, 14, 15, 17, 18]
     \<and> s ! 4 = CHR ''-'' \<and> s ! 7 = CHR ''-'' \<and> s ! 10 = CHR ''T'' \<and> s ! 13 = CHR '':'' \<and> s ! 16 = CHR '':''"

datatype 'a decoded = Decoded 'a | Mismatch 'a gerr | Abort 'a gerr

definition mismatch :: gerr where "mismatch = Msg ''json: cannot unmarshal value into Go struct field''"

text \<open>\<open>dec_attachment\<close> merges: members that are absent keep their old value.\<close>

definition obj_string :: "(string \<times> json) list \<Rightarrow> string \<Rightarrow> string \<Rightarrow> string" where
  "obj_string ms k old = (case map_of (rev ms) k of Some (JStr s) \<Rightarrow> s | _ \<Rightarrow> old)"

fun dec_digits_acc :: "int \<Rightarrow> string \<Rightarrow> int option" where
  "dec_digits_acc n [] = Some n"
| "dec_digits_acc n (c # cs) =
     (if is_digit c then dec_digits_acc (10 * n + int (of_char c - 48)) cs else None)"

fun read_int :: "string \<Rightarrow> int option" where
  "read_int [] = None"
| "read_int (c # cs) = (if c = CHR ''-'' then (if cs = [] then None else map_option uminus (dec_digits_acc 0 cs))
                        else dec_digits_acc 0 (c # cs))"

fun dec_attachment :: "attachment \<Rightarrow> json \<Rightarrow> attachment decoded" where
  "dec_attachment (Attachment p m s h) (JObj ms) =
     (let a = Attachment (obj_string ms ''storage_path'' p) (obj_string ms ''mime'' m)
                (case map_of (rev ms) ''size'' of
                   Some (JNum n) \<Rightarrow> (case read_int n of Some i \<Rightarrow> i | None \<Rightarrow> s) | _ \<Rightarrow> s)
                (obj_string ms ''sha256'' h);
          bad = list_ex (\<lambda>(k, v). (k \<in> {''storage_path'', ''mime'', ''sha256''} \<and> (case v of JStr _ \<Rightarrow> False | JNull \<Rightarrow> False | _ \<Rightarrow> True))
                   \<or> (k = ''size'' \<and> (case v of JNum n \<Rightarrow> read_int n = None | JNull \<Rightarrow> False | _ \<Rightarrow> True))) ms
      in if bad then Mismatch a mismatch else Decoded a)"
| "dec_attachment a JNull = Decoded a"
| "dec_attachment a _ = Mismatch a mismatch"

text \<open>The JSON kind of a plain field's zero value; a field of interface type has zero \<open>JNull\<close>.\<close>

fun same_kind :: "json \<Rightarrow> json \<Rightarrow> bool" where
  "same_kind JNull _ = True"
| "same_kind (JBool _) (JBool _) = True"
| "same_kind (JNum _) (JNum _) = True"
| "same_kind (JStr _) (JStr _) = True"
| "same_kind (JArr _) (JArr _) = True"
| "same_kind (JObj _) (JObj _) = True"
| "same_kind _ _ = False"

fun dec_link :: "json \<Rightarrow> link option" where
  "dec_link JNull = Some (Link [] None False)"
| "dec_link (JStr s) = Some (Link s None False)"
| "dec_link _ = None"

fun dec_links :: "json list \<Rightarrow> link list option" where
  "dec_links [] = Some []"
| "dec_links (j # js) =
     (case dec_link j of None \<Rightarrow> None
      | Some l \<Rightarrow> map_option (Cons l) (dec_links js))"

text \<open>The members of an object go in order; the first recorded mismatch is the error of the object, the
  error of an unmarshaller stops the decoding and keeps what has been decoded.\<close>

function dec_field :: "fval \<Rightarrow> json \<Rightarrow> fval decoded"
  and dec_struct :: "(string \<times> json) list \<Rightarrow> gerr option \<Rightarrow> (string \<times> bool \<times> fval) list \<Rightarrow> (string \<times> bool \<times> fval) list decoded" where
  "dec_field (FStr s) j = (case j of JStr t \<Rightarrow> Decoded (FStr t) | JNull \<Rightarrow> Decoded (FStr s)
                           | _ \<Rightarrow> Mismatch (FStr s) mismatch)"
| "dec_field (FTime t) j = (case j of JNull \<Rightarrow> Decoded (FTime t)
      | JStr u \<Rightarrow> if time_text u then Decoded (FTime u) else Abort (FTime t) (Msg ''parsing time'')
      | _ \<Rightarrow> Abort (FTime t) (Msg ''Time.UnmarshalJSON: input is not a JSON string''))"
| "dec_field (FTimePtr t) j = (case j of JNull \<Rightarrow> Decoded (FTimePtr None)
      | JStr u \<Rightarrow> if time_text u then Decoded (FTimePtr (Some u)) else Abort (FTimePtr t) (Msg ''parsing time'')
      | _ \<Rightarrow> Abort (FTimePtr t) (Msg ''Time.UnmarshalJSON: input is not a JSON string''))"
| "dec_field (FJson z v) j =
     (if j = JNull then Decoded (FJson z (if z = JNull then JNull else v))
      else if same_kind z j then Decoded (FJson z j) else Mismatch (FJson z v) mismatch)"
| "dec_field (FLink ty e l) j = (case dec_link j of Some l' \<Rightarrow> Decoded (FLink ty e l')
      | None \<Rightarrow> Abort (FLink ty e l) mismatch)"
| "dec_field (FLinks ty e ls) j = (case j of JNull \<Rightarrow> Decoded (FLinks ty e [])
      | JArr js \<Rightarrow> (case dec_links js of Some ls' \<Rightarrow> Decoded (FLinks ty e ls')
                   | None \<Rightarrow> Abort (FLinks ty e ls) mismatch)
      | _ \<Rightarrow> Mismatch (FLinks ty e ls) mismatch)"
| "dec_field (FAtt a) j = map_decoded FAtt (dec_attachment a j)"
| "dec_field (FAttPtr a) j = (if j = JNull then Decoded (FAttPtr None)
      else map_decoded (\<lambda>b. FAttPtr (Some b))
        (dec_attachment (case a of Some x \<Rightarrow> x | None \<Rightarrow> Attachment [] [] 0 []) j))"
| "dec_field (FStruct fs) j = (case j of JNull \<Rightarrow> Decoded (FStruct fs)
      | JObj ms \<Rightarrow> map_decoded FStruct (dec_struct ms None fs)
      | _ \<Rightarrow> Mismatch (FStruct fs) mismatch)"
| "dec_field (FStructPtr z p) j = (let fs = (case p of Some fs \<Rightarrow> fs | None \<Rightarrow> z) in case j of
        JNull \<Rightarrow> Decoded (FStructPtr z None)
      | JObj ms \<Rightarrow> map_decoded (\<lambda>fs. FStructPtr z (Some fs)) (dec_struct ms None fs)
      | _ \<Rightarrow> Mismatch (FStructPtr z (Some fs)) mismatch)"
| "dec_struct [] saved fs = (case saved of None \<Rightarrow> Decoded fs | Some e \<Rightarrow> Mismatch fs e)"
| "dec_struct ((k, j) # ms) saved fs =
     (case map_of fs k of
        None \<Rightarrow> dec_struct ms saved fs
      | Some (oe, v) \<Rightarrow> (case dec_field v j of
            Decoded w \<Rightarrow> dec_struct ms saved (set_in k w fs)
          | Mismatch w e \<Rightarrow> dec_struct ms (if saved = None then Some e else saved) (set_in k w fs)
          | Abort w e \<Rightarrow> Abort (set_in k w fs) e))"
  by pat_completeness auto
termination
  by (relation "measure (case_sum (\<lambda>(v, j). size j) (\<lambda>(ms, saved, fs). size_list (size_prod (\<lambda>_. 0) size) ms))") auto

definition dec_members :: "(string \<times> json) list \<Rightarrow> gerr option \<Rightarrow> doc \<Rightarrow> gerr option \<times> doc" where
  "dec_members ms saved d =
     (let with = \<lambda>fs. Doc (doc_type d) fs (doc_tracked d) in case dec_struct ms saved (doc_fields d) of
        Decoded fs \<Rightarrow> (None, with fs) | Mismatch fs e \<Rightarrow> (Some e, with fs) | Abort fs e \<Rightarrow> (Some e, with fs))"

fun decode_into :: "json \<Rightarrow> doc \<Rightarrow> gerr option \<times> doc" where
  "decode_into (JObj ms) d = dec_members ms None d"
| "decode_into JNull d = (None, d)"
| "decode_into _ d = (Some mismatch, d)"

definition decodeWithSnapshot :: "json \<Rightarrow> doc \<Rightarrow> gerr option \<times> doc" where
  "decodeWithSnapshot data d =
     (case decode_into data d of
        (Some e, d') \<Rightarrow> (Some e, d')
      | (None, d') \<Rightarrow> (None, captureSnapshot data d'))"

text \<open>\<open>var partial struct { Rev string }\<close> of \<open>checkAndUpdateRevision\<close>.\<close>

fun decode_rev :: "json \<Rightarrow> gerr + string" where
  "decode_rev (JObj ms) =
     (if list_ex (\<lambda>(k, v). k = FieldRev \<and> (case v of JStr _ \<Rightarrow> False | JNull \<Rightarrow> False | _ \<Rightarrow> True)) ms
      then Inl mismatch
      else Inr (case map_of (rev (filter (\<lambda>(k, v). v \<noteq> JNull) ms)) FieldRev of
                  Some (JStr s) \<Rightarrow> s | _ \<Rightarrow> []))"
| "decode_rev JNull = Inr []"
| "decode_rev _ = Inl mismatch"

section \<open>Validation\<close>

text \<open>\<^verbatim>\<open>validate/validate.go\<close>: the outcome of the third-party struct validator, and the error Den
  builds of it.\<close>

record field_error =
  fe_Field :: string
  fe_Tag :: string
  fe_Param :: string

datatype validator_result = VOk | VFields "field_error list" | VRaw gerr

definition field_error_text :: "field_error \<Rightarrow> string" where
  "field_error_text f =
     (if fe_Param f \<noteq> []
      then fe_Field f @ '' failed on '' @ [CHR 0x27] @ fe_Tag f @ ''='' @ fe_Param f @ [CHR 0x27]
      else fe_Field f @ '' failed on '' @ [CHR 0x27] @ fe_Tag f @ [CHR 0x27])"

definition validate_errors_text :: "field_error list \<Rightarrow> string" where
  "validate_errors_text fs = ''validation failed: '' @ join ''; '' (map field_error_text fs)"

definition validate_Document :: "(doc \<Rightarrow> validator_result) \<Rightarrow> doc \<Rightarrow> gerr option" where
  "validate_Document validator_Struct d = (case validator_Struct d of
       VOk \<Rightarrow> None
     | VFields fs \<Rightarrow> Some (Msg (validate_errors_text fs))
     | VRaw e \<Rightarrow> Some e)"

section \<open>Zero values and well-formed documents\<close>

function zero_fval :: "fval \<Rightarrow> fval" where
  "zero_fval (FStr s) = FStr []"
| "zero_fval (FTime t) = FTime zero_time"
| "zero_fval (FTimePtr t) = FTimePtr None"
| "zero_fval (FJson z v) = FJson z z"
| "zero_fval (FLink ty e l) = FLink ty e (Link [] None False)"
| "zero_fval (FLinks ty e ls) = FLinks ty e []"
| "zero_fval (FAtt a) = FAtt (Attachment [] [] 0 [])"
| "zero_fval (FAttPtr a) = FAttPtr None"
| "zero_fval (FStruct fs) = FStruct (map (\<lambda>(n, oe, v). (n, oe, zero_fval v)) fs)"
| "zero_fval (FStructPtr z p) = FStructPtr z None"
  by pat_completeness auto
termination
  by (relation "measure size") (auto simp: nested_smaller)

definition zero_doc :: "doc \<Rightarrow> doc" where
  "zero_doc d = Doc (doc_type d) (map (\<lambda>(n, oe, v). (n, oe, zero_fval v)) (doc_fields d))
     (map_option (\<lambda>_. None) (doc_tracked d))"

text \<open>\<open>unload\<close>: links keep their IDs only, which is what storage keeps of them.\<close>

function (sequential) unload_fval :: "fval \<Rightarrow> fval" where
  "unload_fval (FLink ty e l) = FLink ty e (Link (link_ID l) None False)"
| "unload_fval (FLinks ty e ls) = FLinks ty e (map (\<lambda>l. Link (link_ID l) None False) ls)"
| "unload_fval (FStruct fs) = FStruct (map (\<lambda>(n, oe, v). (n, oe, unload_fval v)) fs)"
| "unload_fval (FStructPtr z (Some fs)) = FStructPtr z (Some (map (\<lambda>(n, oe, v). (n, oe, unload_fval v)) fs))"
| "unload_fval v = v"
  by pat_completeness auto
termination
  by (relation "measure size") (auto simp: nested_smaller nested_smaller_ptr less_SucI)

definition unload_fields :: "(string \<times> bool \<times> fval) list \<Rightarrow> (string \<times> bool \<times> fval) list" where
  "unload_fields fs = map (\<lambda>(n, oe, v). (n, oe, unload_fval v)) fs"

text \<open>A value that JSON can carry: times have the RFC 3339 shape, a plain value has the kind of
  its field, a value that \<open>omitempty\<close> drops is the zero value, and the target of a pointer to a struct has
  the zero fields of its type.\<close>

function (sequential) wf_fval :: "bool \<Rightarrow> fval \<Rightarrow> bool" where
  "wf_fval oe (FTime t) = time_text t"
| "wf_fval oe (FTimePtr (Some t)) = time_text t"
| "wf_fval oe (FJson z v) = (same_kind z v \<and> (v = JNull \<longrightarrow> z = JNull) \<and> (oe \<and> empty_json v \<longrightarrow> v = z))"
| "wf_fval oe (FStruct fs) = (distinct (map fst fs) \<and> list_all (\<lambda>(n, oe, v). wf_fval oe v) fs)"
| "wf_fval oe (FStructPtr z (Some fs)) = (map (\<lambda>(n, oe, v). (n, oe, zero_fval v)) fs = z
     \<and> distinct (map fst fs) \<and> list_all (\<lambda>(n, oe, v). wf_fval oe v) fs)"
| "wf_fval oe _ = True"
  by pat_completeness auto
termination
  by (relation "measure (\<lambda>(oe, v). size v)") (auto simp: nested_smaller nested_smaller_ptr less_SucI)

definition wf_doc :: "doc \<Rightarrow> bool" where
  "wf_doc d \<longleftrightarrow> distinct (map fst (doc_fields d)) \<and> list_all (\<lambda>(n, oe, v). wf_fval oe v) (doc_fields d)"

section \<open>Lemmas\<close>

lemma dec_members_simps [simp]:
  "dec_members [] saved d = (saved, d)"
  "dec_members ((k, j) # ms) saved d =
     (case field_of d k of
        None \<Rightarrow> dec_members ms saved d
      | Some v \<Rightarrow> (case dec_field v j of
            Decoded w \<Rightarrow> dec_members ms saved (set_field k w d)
          | Mismatch w e \<Rightarrow> dec_members ms (if saved = None then Some e else saved) (set_field k w d)
          | Abort w e \<Rightarrow> (Some e, set_field k w d)))"
  by (cases d; auto simp: dec_members_def field_of_def set_field_def split: option.split decoded.split)+

lemma doc_eqI:
  "doc_type d = doc_type e \<Longrightarrow> doc_fields d = doc_fields e \<Longrightarrow> doc_tracked d = doc_tracked e \<Longrightarrow> d = e"
  by (cases d; cases e) simp

lemma set_field_sel [simp]:
  "doc_type (set_field n v d) = doc_type d" "doc_tracked (set_field n v d) = doc_tracked d"
  "doc_fields (set_field n v d) = set_in n v (doc_fields d)"
  by (simp_all add: set_field_def)

lemma map_of_set_in:
  "map_of (set_in n v fs) m = (if m = n then map_option (\<lambda>(oe, w). (oe, v)) (map_of fs n) else map_of fs m)"
  by (induction fs) auto

lemma names_set_in [simp]: "map fst (set_in n v fs) = map fst fs"
  by (induction fs) auto

lemma field_of_set_field:
  "field_of (set_field n v d) m
     = (if m = n then (if field_of d n = None then None else Some v) else field_of d m)"
  by (auto simp: field_of_def map_of_set_in split: option.split)

lemma field_of_set_same: "field_of d n \<noteq> None \<Longrightarrow> field_of (set_field n v d) n = Some v"
  by (simp add: field_of_set_field)

lemma string_field_set_other [simp]:
  "m \<noteq> n \<Longrightarrow> string_field (set_field n v d) m = string_field d m"
  by (simp add: string_field_def field_of_set_field)

lemma getID_set_other: "n \<noteq> FieldID \<Longrightarrow> getID (set_field n v d) = getID d"
  by (simp add: getID_def)

lemma field_of_capture [simp]: "field_of (captureSnapshot j d) n = field_of d n"
  by (simp add: captureSnapshot_def field_of_def split: option.split)

lemma capture_sel [simp]: "doc_fields (captureSnapshot j d) = doc_fields d"
  "doc_type (captureSnapshot j d) = doc_type d"
  by (simp_all add: captureSnapshot_def split: option.split)

lemma encode_capture [simp]: "encode (captureSnapshot j d) = encode d"
  by (simp add: encode_def)

lemma Snapshot_capture: "doc_tracked d \<noteq> None \<Longrightarrow> Snapshot (captureSnapshot j d) = Some j"
  by (auto simp: captureSnapshot_def Snapshot_def)

section \<open>Round trip\<close>

lemma same_kind_refl [simp]: "same_kind j j"
  by (cases j) simp_all

lemma dec_links_enc: "dec_links (map (\<lambda>l. JStr (link_ID l)) ls) = Some (map (\<lambda>l. Link (link_ID l) None False) ls)"
  by (induction ls) auto

lemma dec_digits_acc_append:
  "dec_digits_acc a (xs @ ys) = Option.bind (dec_digits_acc a xs) (\<lambda>b. dec_digits_acc b ys)"
  by (induction xs arbitrary: a) auto

lemma digit_value: "d < 10 \<Longrightarrow> is_digit (digit_char d) \<and> of_char (digit_char d) = 48 + d"
  by (simp add: is_digit_def digit_char_def)

lemma dec_digits_acc_dec:
  "dec_digits_acc a (dec n) = Some (a * 10 ^ length (dec n) + int n)"
proof (induction n rule: dec.induct)
  case (1 n)
  show ?case
  proof (cases "n < 10")
    case True
    then show ?thesis using digit_value [of n] by (simp add: dec.simps)
  next
    case False
    then have split: "dec n = dec (n div 10) @ [digit_char (n mod 10)]" by (subst dec.simps) simp
    have "int n = 10 * int (n div 10) + int (n mod 10)" by presburger
    with 1 [OF False] digit_value [of "n mod 10"] show ?thesis
      by (simp add: split dec_digits_acc_append algebra_simps)
  qed
qed

lemma read_int_dec_int: "read_int (dec_int s) = Some s"
proof -
  obtain c cs where "dec (nat s) = c # cs" by (meson length_dec neq_Nil_conv)
  moreover have "c \<noteq> CHR ''-''"
    using dec_digits [of c "nat s"] calculation by (auto simp: is_digit_def)
  ultimately show ?thesis
    using dec_digits_acc_dec [of 0 "nat s"] dec_digits_acc_dec [of 0 "nat (- s)"]
    by (auto simp: dec_int.simps)
qed

lemma dec_attachment_enc: "dec_attachment (Attachment [] [] 0 []) (enc_attachment a) = Decoded a"
  by (cases a) (auto simp: obj_string_def Let_def read_int_dec_int)

lemma set_in_middle:
  "n \<notin> fst ` set ps \<Longrightarrow> set_in n v (ps @ (n, oe, w) # fs) = ps @ (n, oe, v) # fs"
  by (induction ps) auto

lemma map_of_middle:
  "n \<notin> fst ` set ps \<Longrightarrow> map_of (ps @ (n, x) # fs) n = Some x"
  by (induction ps) auto

lemma names_unload_fields [simp]: "map fst (unload_fields fs) = map fst fs"
  by (simp add: unload_fields_def split_def comp_def)

lemma unload_struct [simp]:
  "unload_fval (FStruct fs) = FStruct (unload_fields fs)"
  "unload_fval (FStructPtr z (Some fs)) = FStructPtr z (Some (unload_fields fs))"
  by (simp_all add: unload_fields_def)

declare unload_fval.simps(3,4) [simp del]

lemma empty_is_zero: "wf_fval oe v \<Longrightarrow> oe \<Longrightarrow> is_empty v \<Longrightarrow> zero_fval v = unload_fval v"
  by (cases v) auto

lemma dec_struct_enc:
  assumes "distinct (map fst (ps @ fs))"
    and "\<forall>(n, oe, v)\<in>set fs. wf_fval oe v \<and> dec_field (zero_fval v) (enc_field v) = Decoded (unload_fval v)"
  shows "dec_struct (enc_fields fs) None (unload_fields ps @ map (\<lambda>(n, oe, v). (n, oe, zero_fval v)) fs)
     = Decoded (unload_fields (ps @ fs))"
  using assms
proof (induction fs arbitrary: ps)
  case (Cons f fs)
  obtain n oe v where f: "f = (n, oe, v)" by (metis prod_cases3)
  let ?zs = "map (\<lambda>(n, oe, v). (n, oe, zero_fval v)) fs"
  have v: "wf_fval oe v" "dec_field (zero_fval v) (enc_field v) = Decoded (unload_fval v)"
    using Cons.prems(2) by (simp_all add: f)
  have fresh: "n \<notin> fst ` set (unload_fields ps)"
    using Cons.prems(1) by (simp add: f flip: set_map)
  have IH: "dec_struct (enc_fields fs) None (unload_fields ps @ (n, oe, unload_fval v) # ?zs)
      = Decoded (unload_fields (ps @ f # fs))"
    using Cons.IH [of "ps @ [f]"] Cons.prems by (simp add: f unload_fields_def)
  show ?case
  proof (cases "oe \<and> is_empty v")
    case True
    with v(1) IH empty_is_zero show ?thesis by (simp add: f enc_fields_def)
  next
    case False
    then have "enc_fields (f # fs) = (n, enc_field v) # enc_fields fs"
      by (auto simp: f enc_fields_def)
    then show ?thesis
      using IH v(2) by (simp add: f map_of_middle [OF fresh] set_in_middle [OF fresh] del: map_of_append)
  qed
qed (simp add: enc_fields_def unload_fields_def)

lemma dec_struct_zero:
  assumes "distinct (map fst fs)"
    and "\<forall>(n, oe, v)\<in>set fs. wf_fval oe v \<and> dec_field (zero_fval v) (enc_field v) = Decoded (unload_fval v)"
  shows "dec_struct (enc_fields fs) None (map (\<lambda>(n, oe, v). (n, oe, zero_fval v)) fs) = Decoded (unload_fields fs)"
  using dec_struct_enc [of "[]" fs] assms by (simp add: unload_fields_def)

lemma dec_field_enc:
  "wf_fval oe v \<Longrightarrow> dec_field (zero_fval v) (enc_field v) = Decoded (unload_fval v)"
proof (induction oe v rule: wf_fval.induct
    [case_names time time_ptr json nested nested_ptr str no_time link links att att_ptr no_ptr])
  case (nested oe fs)
  have "dec_struct (enc_fields fs) None (map (\<lambda>(n, oe, v). (n, oe, zero_fval v)) fs) = Decoded (unload_fields fs)"
    by (rule dec_struct_zero) (use nested in \<open>auto simp: list_all_iff\<close>)
  then show ?case by simp
next
  case (nested_ptr oe z fs)
  have "dec_struct (enc_fields fs) None (map (\<lambda>(n, oe, v). (n, oe, zero_fval v)) fs) = Decoded (unload_fields fs)"
    by (rule dec_struct_zero) (use nested_ptr in \<open>auto simp: list_all_iff\<close>)
  with nested_ptr show ?case by auto
next
  case (att_ptr oe a)
  show ?case
  proof (cases a)
    case (Some x)
    moreover have "enc_attachment x \<noteq> JNull" by (cases x) simp
    ultimately show ?thesis by (simp add: dec_attachment_enc)
  qed simp
qed (auto simp: dec_links_enc dec_attachment_enc)

definition unload_doc :: "doc \<Rightarrow> doc" where
  "unload_doc d = Doc (doc_type d) (unload_fields (doc_fields d)) (map_option (\<lambda>_. None) (doc_tracked d))"

lemma decode_encode:
  assumes "wf_doc d"
  shows "decode_into (encode d) (zero_doc d) = (None, unload_doc d)"
proof -
  have "dec_struct (enc_fields (doc_fields d)) None (map (\<lambda>(n, oe, v). (n, oe, zero_fval v)) (doc_fields d))
    = Decoded (unload_fields (doc_fields d))"
    by (rule dec_struct_zero) (use assms in \<open>auto simp: wf_doc_def list_all_iff intro!: dec_field_enc\<close>)
  then show ?thesis by (simp add: encode_def zero_doc_def unload_doc_def dec_members_def)
qed

lemma is_empty_unload [simp]: "is_empty (unload_fval v) = is_empty v"
  by (cases v rule: unload_fval.cases) auto

lemma unload_is_string [simp]: "unload_fval v = FStr s \<longleftrightarrow> v = FStr s"
  by (cases v rule: unload_fval.cases) auto

lemma enc_fields_unload_nested:
  assumes "\<And>n oe v. (n, oe, v) \<in> set fs \<Longrightarrow> enc_field (unload_fval v) = enc_field v"
  shows "enc_fields (unload_fields fs) = enc_fields fs"
  using assms by (induction fs) (auto simp: enc_fields_def unload_fields_def)

lemma enc_unload [simp]: "enc_field (unload_fval v) = enc_field v"
proof (induction v rule: unload_fval.induct)
  case (3 fs)
  then show ?case using enc_fields_unload_nested by auto
next
  case (4 z fs)
  then show ?case using enc_fields_unload_nested by auto
qed (auto simp: comp_def)

lemma enc_unload_fields: "enc_fields (unload_fields fs) = enc_fields fs"
  by (rule enc_fields_unload_nested) simp

lemma encode_unload: "encode (unload_doc d) = encode d"
  by (simp add: encode_def unload_doc_def enc_unload_fields)

lemma zero_unload [simp]: "zero_fval (unload_fval v) = zero_fval v"
proof (induction v rule: unload_fval.induct)
  case (3 fs)
  then show ?case by (auto simp: unload_fields_def)
qed auto

lemma wf_unload [simp]: "wf_fval oe (unload_fval v) = wf_fval oe v"
proof (induction oe v rule: wf_fval.induct)
  case (4 oe fs)
  then show ?case by (auto simp: unload_fields_def list_all_iff comp_def split_def)
next
  case (5 oe z fs)
  then show ?case by (auto simp: unload_fields_def list_all_iff comp_def split_def)
qed auto

end
