(* ===== verification/World.thy ===== *)
theory World
  imports Ulid Document "HOL-Library.AList"
begin

text \<open>
  The database as the engine sees it. \<open>store\<close> holds the collection tables, the indexes that exist
  and the metadata table \<open>_den_indexes\<close> (\<^verbatim>\<open>backend/sqlite/sqlite.go\<close>, \<^verbatim>\<open>transaction.go\<close>,
  \<^verbatim>\<open>schema.go\<close>): \<open>st_get\<close>, \<open>st_put\<close> and \<open>st_delete\<close> are the three prepared statements, and a
  unique index refuses a second row with the same non-null values. \<open>world\<close> is everything the engine
  touches: the store, the copy saved at the begin of an open transaction, the clock ticks, the
  identifier generator with its entropy, the answers of \<open>ctx.Err()\<close> still to come, the faults the
  backend is going to report, the files it asked the storage to delete, and a trace that user hooks
  may write. The backend operations are computations on \<open>world\<close>; each of them may first report the
  next fault, without effect.

  The interface \<open>kv_store\<close> states what the engine relies on; it is interpreted on the store model.
  What the repository does not contain is an argument: the JSON normal form of the database
  (\<open>jsonb\<close>), the evaluation of a SELECT, the struct-tag validator, user hooks, the clock, the blob
  storage and \<open>reflect\<close>'s value conversion, all fields of \<open>env\<close>.
\<close>

section \<open>The store\<close>

type_synonym rows = "(string \<times> json) list"

record store =
  st_tables :: "string \<Rightarrow> rows option"
  st_indexes :: "(string \<times> string \<times> string list \<times> bool) list"
  st_recorded :: "((string \<times> string) \<times> string list \<times> bool) list"

definition empty_store :: store where
  "empty_store = \<lparr>st_tables = (\<lambda>_. None), st_indexes = [], st_recorded = []\<rparr>"

text \<open>\<open>json_extract\<close> of a dotted path; SQL NULL is \<open>None\<close>.\<close>

fun extract_path :: "json \<Rightarrow> string list \<Rightarrow> json option" where
  "extract_path j [] = (if j = JNull then None else Some j)"
| "extract_path (JObj ms) (p # ps) = (case map_of ms p of None \<Rightarrow> None | Some j \<Rightarrow> extract_path j ps)"
| "extract_path j (p # ps) = None"

definition json_extract :: "json \<Rightarrow> string \<Rightarrow> json option" where
  "json_extract j field = extract_path j (split_on CHR ''.'' (SanitizeFieldName field))"

definition index_key :: "string list \<Rightarrow> json \<Rightarrow> json option list" where
  "index_key fs j = map (json_extract j) fs"

definition unique_violation :: "store \<Rightarrow> string \<Rightarrow> string \<Rightarrow> json \<Rightarrow> bool" where
  "unique_violation st col i j \<longleftrightarrow>
     list_ex (\<lambda>(name, c, fs, uniq). uniq \<and> c = col \<and> None \<notin> set (index_key fs j)
        \<and> list_ex (\<lambda>(i', j'). i' \<noteq> i \<and> index_key fs j' = index_key fs j)
             (case st_tables st col of None \<Rightarrow> [] | Some rs \<Rightarrow> rs))
       (st_indexes st)"

definition st_get :: "store \<Rightarrow> string \<Rightarrow> string \<Rightarrow> json option" where
  "st_get st col i = (case st_tables st col of None \<Rightarrow> None | Some rs \<Rightarrow> map_of rs i)"

definition st_put :: "string \<Rightarrow> string \<Rightarrow> json \<Rightarrow> store \<Rightarrow> store" where
  "st_put col i j st = (case st_tables st col of
       None \<Rightarrow> st
     | Some rs \<Rightarrow> st\<lparr>st_tables := (st_tables st)(col \<mapsto> AList.update i j rs)\<rparr>)"

definition st_delete :: "string \<Rightarrow> string \<Rightarrow> store \<Rightarrow> store" where
  "st_delete col i st = (case st_tables st col of
       None \<Rightarrow> st
     | Some rs \<Rightarrow> st\<lparr>st_tables := (st_tables st)(col \<mapsto> AList.delete i rs)\<rparr>)"

definition has_table :: "store \<Rightarrow> string \<Rightarrow> bool" where
  "has_table st col \<longleftrightarrow> st_tables st col \<noteq> None"

section \<open>The interface of a key-value store\<close>

locale kv_store =
  fixes get :: "'s \<Rightarrow> string \<Rightarrow> string \<Rightarrow> json option"
    and put :: "string \<Rightarrow> string \<Rightarrow> json \<Rightarrow> 's \<Rightarrow> 's"
    and del :: "string \<Rightarrow> string \<Rightarrow> 's \<Rightarrow> 's"
    and table :: "'s \<Rightarrow> string \<Rightarrow> bool"
  assumes get_put: "table s c \<Longrightarrow> get (put c i j s) c' i' = (if c' = c \<and> i' = i then Some j else get s c' i')"
    and get_del: "get (del c i s) c' i' = (if c' = c \<and> i' = i then None else get s c' i')"
    and table_put: "table (put c i j s) c' = table s c'"
    and table_del: "table (del c i s) c' = table s c'"
begin

lemma get_put_same: "table s c \<Longrightarrow> get (put c i j s) c i = Some j"
  by (simp add: get_put)

lemma get_put_other: "table s c \<Longrightarrow> (c', i') \<noteq> (c, i) \<Longrightarrow> get (put c i j s) c' i' = get s c' i'"
  by (auto simp: get_put)

lemma get_del_same: "get (del c i s) c i = None"
  by (simp add: get_del)

lemma get_del_other: "(c', i') \<noteq> (c, i) \<Longrightarrow> get (del c i s) c' i' = get s c' i'"
  by (auto simp: get_del)

text \<open>A sequence of writes to one table: the last write to an id is what is read.\<close>

lemma get_puts:
  "table s c \<Longrightarrow> distinct (map fst ws) \<Longrightarrow>
   get (fold (\<lambda>(i, j). put c i j) ws s) c i = (case map_of ws i of Some j \<Rightarrow> Some j | None \<Rightarrow> get s c i)"
proof (induction ws arbitrary: s)
  case (Cons w ws)
  obtain k j where w: "w = (k, j)" by fastforce
  from Cons have "get (fold (\<lambda>(i, j). put c i j) ws (put c k j s)) c i
      = (case map_of ws i of Some j \<Rightarrow> Some j | None \<Rightarrow> get (put c k j s) c i)"
    by (simp add: table_put w)
  moreover have "k \<notin> dom (map_of ws)" using Cons.prems by (simp add: w dom_map_of_conv_image_fst)
  ultimately show ?case
    using Cons.prems by (auto simp: w get_put split: option.split)
qed simp

end

interpretation kv: kv_store st_get st_put st_delete has_table
proof
  fix s c i j c' i'
  show "has_table s c \<Longrightarrow> st_get (st_put c i j s) c' i' = (if c' = c \<and> i' = i then Some j else st_get s c' i')"
    by (auto simp: has_table_def st_get_def st_put_def update_conv' split: option.splits)
  show "st_get (st_delete c i s) c' i' = (if c' = c \<and> i' = i then None else st_get s c' i')"
    by (auto simp: st_get_def st_delete_def delete_conv' split: option.splits)
  show "has_table (st_put c i j s) c' = has_table s c'"
    by (auto simp: has_table_def st_put_def split: option.split)
  show "has_table (st_delete c i s) c' = has_table s c'"
    by (auto simp: has_table_def st_delete_def split: option.split)
qed

section \<open>The world\<close>

record world =
  w_store :: store
  w_saved :: "store option"
  w_ticks :: nat
  w_gen :: generator
  w_rand :: "byte list"
  w_polls :: "gerr option list"
  w_faults :: "gerr option list"
  w_deleted :: "attachment list"
  w_trace :: "string list"

definition initial_world :: "store \<Rightarrow> byte list \<Rightarrow> world" where
  "initial_world st entropy = \<lparr>w_store = st, w_saved = None, w_ticks = 0, w_gen = new_generator,
     w_rand = entropy, w_polls = [], w_faults = [], w_deleted = [], w_trace = []\<rparr>"

datatype hook_kind =
    BeforeInsert | AfterInsert | BeforeUpdate | AfterUpdate | BeforeDelete | AfterDelete
  | BeforeSoftDelete | AfterSoftDelete | BeforeSave | AfterSave | Validate

record collection_info =
  ci_meta :: collection_meta
  ci_zero :: doc
  ci_HasValidateTags :: bool
  ci_UseRevision :: bool

record registry =
  rg_collections :: "(string \<times> collection_info) list"
  rg_types :: "(string \<times> string) list"

record env =
  e_reg :: registry
  e_hooks :: "string \<Rightarrow> hook_kind \<Rightarrow> (doc \<times> world, unit) prog option"
  e_validate :: "doc \<Rightarrow> validator_result"
  e_norm :: "json \<Rightarrow> json"
  e_select :: "query \<Rightarrow> rows \<Rightarrow> rows"
  e_now :: "nat \<Rightarrow> string \<times> u64"
  e_storage :: "(attachment \<Rightarrow> gerr option) option"
  e_convert :: "fval \<Rightarrow> fval \<Rightarrow> fval option"

section \<open>Backend operations\<close>

definition fault :: "(world, unit) prog" where
  "fault w = (case w_faults w of
       [] \<Rightarrow> (Ok (), w)
     | None # fs \<Rightarrow> (Ok (), w\<lparr>w_faults := fs\<rparr>)
     | Some e # fs \<Rightarrow> (Err e, w\<lparr>w_faults := fs\<rparr>))"

definition ctx_err :: "(world, unit) prog" where
  "ctx_err w = (case w_polls w of
       [] \<Rightarrow> (Ok (), w)
     | None # ps \<Rightarrow> (Ok (), w\<lparr>w_polls := ps\<rparr>)
     | Some e # ps \<Rightarrow> (Err e, w\<lparr>w_polls := ps\<rparr>))"

definition no_such_table :: "string \<Rightarrow> gerr" where
  "no_such_table col = Msg (''no such table: '' @ col)"

definition be_Get :: "string \<Rightarrow> string \<Rightarrow> (world, json) prog" where
  "be_Get col i = bindP fault (\<lambda>_ w.
     case st_tables (w_store w) col of
       None \<Rightarrow> (Err (no_such_table col), w)
     | Some rs \<Rightarrow> (case map_of rs i of
           None \<Rightarrow> (Err (Sent ErrNotFound), w)
         | Some data \<Rightarrow> (Ok data, w)))"

definition be_Put :: "env \<Rightarrow> string \<Rightarrow> string \<Rightarrow> json \<Rightarrow> (world, unit) prog" where
  "be_Put env col i data = bindP fault (\<lambda>_ w.
     if \<not> has_table (w_store w) col then (Err (no_such_table col), w)
     else if unique_violation (w_store w) col i (e_norm env data)
     then (Err (Wrap [] [Sent ErrDuplicate, Msg ''UNIQUE constraint failed'']), w)
     else (Ok (), w\<lparr>w_store := st_put col i (e_norm env data) (w_store w)\<rparr>))"

definition be_Delete :: "string \<Rightarrow> string \<Rightarrow> (world, unit) prog" where
  "be_Delete col i = bindP fault (\<lambda>_ w.
     if \<not> has_table (w_store w) col then (Err (no_such_table col), w)
     else (Ok (), w\<lparr>w_store := st_delete col i (w_store w)\<rparr>))"

definition be_Query :: "env \<Rightarrow> string \<Rightarrow> query \<Rightarrow> (world, rows) prog" where
  "be_Query env col q = bindP fault (\<lambda>_ w.
     case st_tables (w_store w) col of
       None \<Rightarrow> (Err (no_such_table col), w)
     | Some rs \<Rightarrow> (Ok (e_select env q rs), w))"

text \<open>COUNT and EXISTS ignore the order, the limit and the offset.\<close>

definition unpaged :: "query \<Rightarrow> query" where
  "unpaged q = q\<lparr>SortFields := [], LimitN := 0, SkipN := 0, Lock := None\<rparr>"

definition be_Count :: "env \<Rightarrow> string \<Rightarrow> query \<Rightarrow> (world, nat) prog" where
  "be_Count env col q = bindP (be_Query env col (unpaged q)) (\<lambda>rs. returnP (length rs))"

definition be_Exists :: "env \<Rightarrow> string \<Rightarrow> query \<Rightarrow> (world, bool) prog" where
  "be_Exists env col q = bindP (be_Query env col (unpaged q)) (\<lambda>rs. returnP (rs \<noteq> []))"

definition be_Begin :: "(world, unit) prog" where
  "be_Begin = bindP fault (\<lambda>_ w.
     if w_saved w \<noteq> None then (Err (Msg ''database is locked''), w)
     else (Ok (), w\<lparr>w_saved := Some (w_store w)\<rparr>))"

definition close_tx :: "bool \<Rightarrow> world \<Rightarrow> world" where
  "close_tx keep w = (case w_saved w of
       None \<Rightarrow> w
     | Some st \<Rightarrow> w\<lparr>w_store := (if keep then w_store w else st), w_saved := None\<rparr>)"

text \<open>A failing COMMIT or ROLLBACK leaves the transaction rolled back.\<close>

definition be_Commit :: "(world, unit) prog" where
  "be_Commit w = (case fault w of
       (Ok _, w') \<Rightarrow> (Ok (), close_tx True w')
     | (r, w') \<Rightarrow> (r, close_tx False w'))"

definition be_Rollback :: "(world, unit) prog" where
  "be_Rollback w = (case fault w of (r, w') \<Rightarrow> (r, close_tx False w'))"

text \<open>\<open>GetForUpdate\<close> and \<open>AdvisoryLock\<close> of the SQLite transaction.\<close>

definition be_GetForUpdate :: "string \<Rightarrow> string \<Rightarrow> lock_mode \<Rightarrow> (world, json) prog" where
  "be_GetForUpdate col i mode = be_Get col i"

definition be_AdvisoryLock :: "int \<Rightarrow> (world, unit) prog" where
  "be_AdvisoryLock key = returnP ()"

section \<open>Collections and indexes\<close>

definition be_EnsureCollection :: "string \<Rightarrow> collection_meta \<Rightarrow> (world, unit) prog" where
  "be_EnsureCollection name meta = bindP fault (\<lambda>_ w.
     (Ok (), if has_table (w_store w) name then w
        else w\<lparr>w_store := (w_store w)\<lparr>st_tables := (st_tables (w_store w))(name \<mapsto> [])\<rparr>\<rparr>))"

definition be_DropCollection :: "string \<Rightarrow> (world, unit) prog" where
  "be_DropCollection name = bindP fault (\<lambda>_ w.
     (Ok (), w\<lparr>w_store := (w_store w)\<lparr>st_tables := (st_tables (w_store w))(name := None),
        st_indexes := filter (\<lambda>(n, c, r). c \<noteq> name) (st_indexes (w_store w))\<rparr>\<rparr>))"

text \<open>Rows already present that a new unique index would refuse.\<close>

fun duplicate_key :: "string list \<Rightarrow> rows \<Rightarrow> bool" where
  "duplicate_key fs [] = False"
| "duplicate_key fs ((i, j) # rs) =
     (None \<notin> set (index_key fs j) \<and> list_ex (\<lambda>(i', j'). index_key fs j' = index_key fs j) rs
      \<or> duplicate_key fs rs)"

text \<open>\<open>CREATE \<dots> INDEX IF NOT EXISTS\<close> looks at the name only.\<close>

definition create_index :: "string \<Rightarrow> index_definition \<Rightarrow> (world, unit) prog" where
  "create_index col idx = bindP fault (\<lambda>_ w.
     if ix_Name idx \<in> fst ` set (st_indexes (w_store w)) then (Ok (), w)
     else (case st_tables (w_store w) col of
         None \<Rightarrow> (Err (no_such_table col), w)
       | Some rs \<Rightarrow>
           (if ix_Unique idx \<and> duplicate_key (ix_Fields idx) rs
            then (Err (Msg ''UNIQUE constraint failed''), w)
            else (Ok (), w\<lparr>w_store := (w_store w)\<lparr>st_indexes := st_indexes (w_store w)
                    @ [(ix_Name idx, col, ix_Fields idx, ix_Unique idx)]\<rparr>\<rparr>))))"

definition recordIndex :: "string \<Rightarrow> index_definition \<Rightarrow> (world, unit) prog" where
  "recordIndex col idx = bindP fault (\<lambda>_ w.
     (Ok (), w\<lparr>w_store := (w_store w)\<lparr>st_recorded :=
        AList.update (col, ix_Name idx) (ix_Fields idx, ix_Unique idx) (st_recorded (w_store w))\<rparr>\<rparr>))"

definition be_EnsureIndex :: "string \<Rightarrow> index_definition \<Rightarrow> (world, unit) prog" where
  "be_EnsureIndex col idx =
     (if ix_Fields idx = [] then returnP ()
      else bindP (create_index col idx) (\<lambda>_. recordIndex col idx))"

definition forgetIndex :: "string \<Rightarrow> (world, unit) prog" where
  "forgetIndex name = bindP fault (\<lambda>_ w.
     (Ok (), w\<lparr>w_store := (w_store w)\<lparr>st_recorded :=
        filter (\<lambda>((c, n), r). n \<noteq> name) (st_recorded (w_store w))\<rparr>\<rparr>))"

definition be_DropIndex :: "string \<Rightarrow> string \<Rightarrow> (world, unit) prog" where
  "be_DropIndex col name =
     bindP (bindP fault (\<lambda>_. modifyP (\<lambda>w. w\<lparr>w_store := (w_store w)\<lparr>st_indexes :=
              filter (\<lambda>(n, r). n \<noteq> name) (st_indexes (w_store w))\<rparr>\<rparr>)))
       (\<lambda>_. forgetIndex name)"

definition be_ListRecordedIndexes :: "string \<Rightarrow> (world, index_definition list) prog" where
  "be_ListRecordedIndexes col = bindP fault (\<lambda>_ w.
     (Ok (map (\<lambda>((c, n), fs, u). \<lparr>ix_Name = n, ix_Fields = fs, ix_Unique = u\<rparr>)
            (sort_key (\<lambda>((c, n), r). n) (filter (\<lambda>((c, n), r). c = col) (st_recorded (w_store w))))), w))"

section \<open>Clock and identifiers\<close>

definition time_now :: "env \<Rightarrow> (world, string) prog" where
  "time_now env w = (Ok (fst (e_now env (w_ticks w))), w\<lparr>w_ticks := Suc (w_ticks w)\<rparr>)"

definition NewID :: "env \<Rightarrow> (world, string) prog" where
  "NewID env w =
     (case gen_new (snd (e_now env (w_ticks w))) (w_gen w, w_rand w) of
        (r, (g, src)) \<Rightarrow> (r, w\<lparr>w_ticks := Suc (w_ticks w), w_gen := g, w_rand := src\<rparr>))"

definition hex_byte :: "byte \<Rightarrow> string" where
  "hex_byte b = [hex_char (unat b div 16), hex_char (unat b mod 16)]"

text \<open>\<open>rand.Read\<close> on eight zero bytes, its error ignored.\<close>

definition newRevision :: "(world, string) prog" where
  "newRevision w =
     (if length (w_rand w) < 8 then (Ok (concat (map hex_byte (replicate 8 0))), w)
      else (Ok (concat (map hex_byte (take 8 (w_rand w)))), w\<lparr>w_rand := drop 8 (w_rand w)\<rparr>))"

end
