(* ===== verification/Tx.thy ===== *)
theory Tx
  imports World
begin

text \<open>
  Transactions: \<^verbatim>\<open>engine/tx.go\<close>. The computations act on a pair of the caller's in-memory data and
  the world, so that what a body did to the documents in memory stays visible after a rollback, as
  it does in Go. A scope is either the database (\<open>*DB\<close>) or an open transaction (\<open>*Tx\<close>); the
  argument \<open>in_tx\<close> of the engine functions is the test \<open>b.(Backend)\<close> on the reader-writer.
  The lemmas: a transaction that does not return a value leaves the store as it was, whatever its
  body did, whether the body returns an error or panics and whether commit and rollback report
  faults, and closes the transaction in every case.
\<close>

type_synonym ('d, 'a) op = "('d \<times> world, 'a) prog"

datatype scope = ScopeDB | ScopeTx

definition scope_in_tx :: "scope \<Rightarrow> bool" where
  "scope_in_tx s = (s = ScopeTx)"

definition finish_tx :: "('d, 'a) op \<Rightarrow> ('d, 'a) op" where
  "finish_tx fn s = (case fn s of
     (Panic p, (d, w)) \<Rightarrow> (Panic p, (d, snd (be_Rollback w)))
   | (Err e, (d, w)) \<Rightarrow> (case be_Rollback w of
         (Err rbErr, w') \<Rightarrow> (Err (Wrap ''rollback failed after'' [e, rbErr]), (d, w'))
       | (_, w') \<Rightarrow> (Err e, (d, w')))
   | (Ok x, (d, w)) \<Rightarrow> (case be_Commit w of
         (Ok _, w') \<Rightarrow> (Ok x, (d, w'))
       | (Err e, w') \<Rightarrow> (Err (Wrap [] [Sent ErrTransactionFailed, e]), (d, w'))
       | (Panic p, w') \<Rightarrow> (Panic p, (d, w'))))"

definition RunInTransaction :: "('d, 'a) op \<Rightarrow> ('d, 'a) op" where
  "RunInTransaction fn =
     bindP (map_err (\<lambda>e. Wrap ''begin transaction'' [e]) (on_snd be_Begin)) (\<lambda>_. finish_tx fn)"

definition runOnScope :: "scope \<Rightarrow> ('d, 'a) op \<Rightarrow> ('d, 'a) op" where
  "runOnScope s body = (if s = ScopeTx then body else RunInTransaction body)"

definition runOnScopeVoid :: "scope \<Rightarrow> ('d, unit) op \<Rightarrow> ('d, unit) op" where
  "runOnScopeVoid s body = (if s = ScopeTx then body else RunInTransaction body)"

text \<open>\<open>runInWriteTx\<close> is the same code on a backend transaction.\<close>

definition runInWriteTx :: "('d, 'a) op \<Rightarrow> ('d, 'a) op" where
  "runInWriteTx fn =
     bindP (map_err (\<lambda>e. Wrap ''begin transaction'' [e]) (on_snd be_Begin)) (\<lambda>_. finish_tx fn)"

definition AdvisoryLock :: "int \<Rightarrow> ('d, unit) op" where
  "AdvisoryLock key = on_snd (be_AdvisoryLock key)"

section \<open>Bodies that leave the bookkeeping alone\<close>

text \<open>\<open>tx_neutral m\<close>: inside an open transaction, \<open>m\<close> neither ends it nor replaces its saved
  store; outside one, \<open>m\<close> leaves no transaction open.\<close>

definition tx_neutral :: "('d, 'a) op \<Rightarrow> bool" where
  "tx_neutral m \<longleftrightarrow> (\<forall>X. preserves (\<lambda>s. w_saved (snd s) = X) m)"

definition keeps_saved :: "(world, 'a) prog \<Rightarrow> bool" where
  "keeps_saved m \<longleftrightarrow> (\<forall>X. preserves (\<lambda>w. w_saved w = X) m)"

named_theorems neutral

lemma tx_neutralD: "tx_neutral m \<Longrightarrow> m (d, w) = (r, (d', w')) \<Longrightarrow> w_saved w' = w_saved w"
  unfolding tx_neutral_def preserves_def by (metis snd_conv)

lemma tx_neutralI: "(\<And>d w r d' w'. m (d, w) = (r, (d', w')) \<Longrightarrow> w_saved w' = w_saved w) \<Longrightarrow> tx_neutral m"
  unfolding tx_neutral_def preserves_def by (metis prod.collapse)

lemma keeps_savedI: "(\<And>w r w'. m w = (r, w') \<Longrightarrow> w_saved w' = w_saved w) \<Longrightarrow> keeps_saved m"
  unfolding keeps_saved_def preserves_def by (metis prod.collapse)

lemma keeps_savedD: "keeps_saved m \<Longrightarrow> m w = (r, w') \<Longrightarrow> w_saved w' = w_saved w"
  unfolding keeps_saved_def preserves_def by (metis snd_conv)

lemma tx_neutral_basic [neutral]:
  "tx_neutral (returnP x)" "tx_neutral (throwP e)" "tx_neutral (panicP p)" "tx_neutral getP"
  "tx_neutral (checkP r)"
  by (simp_all add: tx_neutral_def preserves_intros)

lemma tx_neutral_bind [neutral]:
  "tx_neutral m \<Longrightarrow> (\<And>x. tx_neutral (f x)) \<Longrightarrow> tx_neutral (bindP m f)"
  by (simp add: tx_neutral_def preserves_bind)

lemma tx_neutral_map_err [neutral]: "tx_neutral m \<Longrightarrow> tx_neutral (map_err h m)"
  by (simp add: tx_neutral_def preserves_map_err)

lemma tx_neutral_for [neutral]: "(\<And>x. tx_neutral (f x)) \<Longrightarrow> tx_neutral (forP f xs)"
  by (induction xs) (auto intro: neutral)

lemma tx_neutral_if [neutral]:
  "(b \<Longrightarrow> tx_neutral m) \<Longrightarrow> (\<not> b \<Longrightarrow> tx_neutral n) \<Longrightarrow> tx_neutral (if b then m else n)"
  by simp

lemma tx_neutral_option [neutral]:
  "(x = None \<Longrightarrow> tx_neutral m) \<Longrightarrow> (\<And>y. x = Some y \<Longrightarrow> tx_neutral (f y))
   \<Longrightarrow> tx_neutral (case x of None \<Rightarrow> m | Some y \<Rightarrow> f y)"
  by (cases x) simp_all

lemma tx_neutral_modify [neutral]: "(\<And>d w. w_saved (snd (f (d, w))) = w_saved w) \<Longrightarrow> tx_neutral (modifyP f)"
  by (rule tx_neutralI) (metis Pair_inject snd_conv state_simps(3))

lemma tx_neutral_on_snd [neutral]: "keeps_saved m \<Longrightarrow> tx_neutral (on_snd m)"
  by (rule tx_neutralI) (metis keeps_savedD on_snd_eq)

lemma keeps_saved_bind:
  "keeps_saved m \<Longrightarrow> (\<And>x. keeps_saved (f x)) \<Longrightarrow> keeps_saved (bindP m f)"
  by (simp add: keeps_saved_def preserves_bind)

lemma keeps_saved_fault: "keeps_saved fault" "keeps_saved ctx_err"
  by (auto intro!: keeps_savedI simp: fault_def ctx_err_def split: list.splits option.splits)

lemma keeps_saved_backend [neutral]:
  "keeps_saved fault" "keeps_saved ctx_err" "keeps_saved (be_Get c i)" "keeps_saved (be_Put env c i j)"
  "keeps_saved (be_Delete c i)" "keeps_saved (be_Query env c q)" "keeps_saved (be_Count env c q)"
  "keeps_saved (be_Exists env c q)" "keeps_saved (be_GetForUpdate c i m)" "keeps_saved (be_AdvisoryLock k)"
  "keeps_saved (time_now env)" "keeps_saved (NewID env)" "keeps_saved newRevision"
proof -
  show get: "keeps_saved (be_Get c i)"
    unfolding be_Get_def
    by (rule keeps_saved_bind [OF keeps_saved_fault(1)]) (auto intro!: keeps_savedI split: option.splits)
  show "keeps_saved (be_Put env c i j)"
    unfolding be_Put_def by (rule keeps_saved_bind [OF keeps_saved_fault(1)]) (auto intro!: keeps_savedI split: if_splits)
  show "keeps_saved (be_Delete c i)"
    unfolding be_Delete_def by (rule keeps_saved_bind [OF keeps_saved_fault(1)]) (auto intro!: keeps_savedI split: if_splits)
  show query: "keeps_saved (be_Query env c q)" for q
    unfolding be_Query_def
    by (rule keeps_saved_bind [OF keeps_saved_fault(1)]) (auto intro!: keeps_savedI split: option.splits)
  show "keeps_saved (be_Count env c q)" "keeps_saved (be_Exists env c q)"
    unfolding be_Count_def be_Exists_def
    by (rule keeps_saved_bind [OF query]; rule keeps_savedI; simp)+
  show "keeps_saved (be_GetForUpdate c i m)" by (simp add: be_GetForUpdate_def get)
  show "keeps_saved (be_AdvisoryLock k)" by (auto intro!: keeps_savedI simp: be_AdvisoryLock_def)
  show "keeps_saved (time_now env)" by (auto intro!: keeps_savedI simp: time_now_def)
  show "keeps_saved (NewID env)" by (auto intro!: keeps_savedI simp: NewID_def split: prod.splits)
  show "keeps_saved newRevision" by (auto intro!: keeps_savedI simp: newRevision_def split: if_splits)
qed (fact keeps_saved_fault)+

section \<open>Atomicity\<close>

lemma fault_store: "fault w = (r, w') \<Longrightarrow> w_store w' = w_store w \<and> w_saved w' = w_saved w"
  by (auto simp: fault_def split: list.splits option.splits)

lemma be_Rollback_result:
  assumes "be_Rollback w = (r, w')" "w_saved w = Some st"
  shows "w_store w' = st \<and> w_saved w' = None"
  using assms fault_store by (fastforce simp: be_Rollback_def close_tx_def split: prod.splits)

lemma be_Commit_result:
  assumes "be_Commit w = (r, w')" "w_saved w = Some st"
  shows "w_saved w' = None \<and> w_store w' = (if is_ok r then w_store w else st)"
  using assms fault_store
  by (fastforce simp: be_Commit_def close_tx_def split: prod.splits outcome.splits)

lemma be_Begin_result:
  assumes "be_Begin w = (r, w')"
  shows "w_store w' = w_store w
    \<and> (is_ok r \<longrightarrow> w_saved w = None \<and> w_saved w' = Some (w_store w))
    \<and> (\<not> is_ok r \<longrightarrow> w_saved w' = w_saved w)"
  using assms fault_store
  by (fastforce simp: be_Begin_def bindP_def split: prod.splits outcome.splits if_splits)

lemma finish_tx_result:
  assumes "finish_tx fn (d, w) = (r, (d', w'))" "w_saved w = Some st" "tx_neutral fn"
  shows "w_saved w' = None \<and> (\<not> is_ok r \<longrightarrow> w_store w' = st)"
proof -
  obtain q d1 w1 where fn: "fn (d, w) = (q, (d1, w1))" by (metis prod_cases3)
  have saved: "w_saved w1 = Some st" using tx_neutralD [OF assms(3) fn] assms(2) by simp
  show ?thesis
  proof (cases q)
    case (Ok x)
    obtain c w2 where commit: "be_Commit w1 = (c, w2)" by fastforce
    from assms(1) fn Ok commit be_Commit_result [OF commit saved] show ?thesis
      by (cases c) (auto simp: finish_tx_def)
  next
    case (Err e)
    obtain c w2 where rb: "be_Rollback w1 = (c, w2)" by fastforce
    from assms(1) fn Err rb be_Rollback_result [OF rb saved] show ?thesis
      by (cases c) (auto simp: finish_tx_def)
  next
    case (Panic p)
    with assms(1) fn be_Rollback_result [OF _ saved] show ?thesis
      by (auto simp: finish_tx_def) (metis prod.collapse)+
  qed
qed

lemma RunInTransaction_result:
  assumes "RunInTransaction fn (d, w) = (r, (d', w'))" "tx_neutral fn"
  shows "w_saved w' = w_saved w \<and> (\<not> is_ok r \<longrightarrow> w_store w' = w_store w)"
proof -
  obtain b w1 where bg: "be_Begin w = (b, w1)" by fastforce
  show ?thesis
  proof (cases b)
    case (Ok u)
    with assms(1) bg have "finish_tx fn (d, w1) = (r, (d', w'))"
      by (simp add: RunInTransaction_def bindP_def map_err_def on_snd_def)
    with be_Begin_result [OF bg] Ok finish_tx_result [OF _ _ assms(2)] show ?thesis by fastforce
  qed (use assms(1) bg be_Begin_result [OF bg] in
      \<open>auto simp: RunInTransaction_def bindP_def map_err_def on_snd_def\<close>)
qed

lemma runInWriteTx_eq: "runInWriteTx fn = RunInTransaction fn"
  by (simp add: runInWriteTx_def RunInTransaction_def)

lemma tx_neutral_RunInTransaction [neutral]: "tx_neutral fn \<Longrightarrow> tx_neutral (RunInTransaction fn)"
  by (rule tx_neutralI) (metis RunInTransaction_result)

lemma tx_neutral_scope [neutral]:
  "tx_neutral fn \<Longrightarrow> tx_neutral (runInWriteTx fn)"
  "tx_neutral fn \<Longrightarrow> tx_neutral (runOnScope s fn)"
  "tx_neutral body \<Longrightarrow> tx_neutral (runOnScopeVoid s body)"
  by (simp_all add: runInWriteTx_eq runOnScope_def runOnScopeVoid_def tx_neutral_RunInTransaction)

text \<open>A successful transaction leaves what its body left.\<close>

lemma RunInTransaction_Ok:
  assumes "RunInTransaction fn (d, w) = (Ok x, (d', w'))" "tx_neutral fn"
  shows "\<exists>w0 w1. w_store w0 = w_store w \<and> w_saved w0 = Some (w_store w) \<and> w_saved w = None
    \<and> fn (d, w0) = (Ok x, (d', w1)) \<and> w_store w' = w_store w1"
proof -
  obtain b w0 where bg: "be_Begin w = (b, w0)" by fastforce
  with assms(1) obtain u where b: "b = Ok u" and fin: "finish_tx fn (d, w0) = (Ok x, (d', w'))"
    by (cases b) (auto simp: RunInTransaction_def bindP_def map_err_def on_snd_def)
  obtain q d1 w1 where fn: "fn (d, w0) = (q, (d1, w1))" by (metis prod_cases3)
  have w0: "w_store w0 = w_store w" "w_saved w0 = Some (w_store w)" "w_saved w = None"
    using be_Begin_result [OF bg] b by simp_all
  have saved: "w_saved w1 = Some (w_store w)" using tx_neutralD [OF assms(2) fn] w0 by simp
  obtain c w2 where cm: "be_Commit w1 = (c, w2)" by fastforce
  obtain rb w3 where rb: "be_Rollback w1 = (rb, w3)" by fastforce
  from fin fn cm rb have "q = Ok x" "d1 = d'" "w' = w2" "is_ok c"
    by (auto simp: finish_tx_def split: outcome.splits)
  with be_Commit_result [OF cm saved] fn w0 show ?thesis by auto
qed

end
