(* ===== verification/Crud.thy ===== *)
theory Crud
  imports Tx
begin

text \<open>
  The write path of the engine: options (\<^verbatim>\<open>engine/link_options.go\<close>, \<^verbatim>\<open>revision.go\<close>,
  \<^verbatim>\<open>soft_delete.go\<close>), hooks (\<^verbatim>\<open>hooks.go\<close>), the shared write body (\<^verbatim>\<open>crud.go\<close>), insert, update and
  save (\<^verbatim>\<open>crud_save.go\<close>), soft and hard delete (\<^verbatim>\<open>soft_delete.go\<close>, \<^verbatim>\<open>crud_delete.go\<close>), attachments
  (\<^verbatim>\<open>attachments.go\<close>) and link cascades (\<^verbatim>\<open>link_cascade.go\<close>). Operations on one document are
  computations on the document and the world; user hooks are computations of the same shape.
\<close>

section \<open>Options\<close>

datatype link_rule = LinkIgnore | LinkWrite | LinkDelete

record crud_opts =
  linkRule :: link_rule
  ignoreRevision :: bool
  hardDelete :: bool
  includeDeleted :: bool
  suppressFetchLinks :: bool
  softDeleteBy :: string
  softDeleteReason :: string

type_synonym crud_option = "crud_opts \<Rightarrow> crud_opts"

definition no_opts :: crud_opts where
  "no_opts = \<lparr>linkRule = LinkIgnore, ignoreRevision = False, hardDelete = False, includeDeleted = False,
     suppressFetchLinks = False, softDeleteBy = [], softDeleteReason = []\<rparr>"

definition WithLinkRule :: "link_rule \<Rightarrow> crud_option" where
  "WithLinkRule rule o' = o'\<lparr>linkRule := rule\<rparr>"
definition WithoutFetchLinks :: crud_option where
  "WithoutFetchLinks o' = o'\<lparr>suppressFetchLinks := True\<rparr>"
definition IgnoreRevision :: crud_option where
  "IgnoreRevision o' = o'\<lparr>ignoreRevision := True\<rparr>"
definition HardDelete :: crud_option where
  "HardDelete o' = o'\<lparr>hardDelete := True\<rparr>"
definition IncludeDeleted :: crud_option where
  "IncludeDeleted o' = o'\<lparr>includeDeleted := True\<rparr>"
definition SoftDeleteBy :: "string \<Rightarrow> crud_option" where
  "SoftDeleteBy actor o' = o'\<lparr>softDeleteBy := actor\<rparr>"
definition SoftDeleteReason :: "string \<Rightarrow> crud_option" where
  "SoftDeleteReason reason o' = o'\<lparr>softDeleteReason := reason\<rparr>"

definition applyCRUDOpts :: "crud_option list \<Rightarrow> crud_opts" where
  "applyCRUDOpts opts = fold (\<lambda>opt o'. opt o') opts no_opts"

lemmas option_defs = WithLinkRule_def WithoutFetchLinks_def IgnoreRevision_def HardDelete_def
  IncludeDeleted_def SoftDeleteBy_def SoftDeleteReason_def applyCRUDOpts_def no_opts_def

section \<open>The registry\<close>

definition collectionForType :: "env \<Rightarrow> string \<Rightarrow> gerr + collection_info" where
  "collectionForType env ty =
     (let name = CollectionName ty;
          name = (case map_of (rg_types (e_reg env)) name of Some mapped \<Rightarrow> mapped | None \<Rightarrow> name)
      in case map_of (rg_collections (e_reg env)) name of
           Some info \<Rightarrow> Inr info
         | None \<Rightarrow> Inl (Wrap (ty @ '' - call den.Register before this operation'') [Sent ErrNotRegistered]))"

text \<open>\<open>collectionFor[T]\<close> for the document in hand, then the rest of the operation.\<close>

definition with_collection :: "env \<Rightarrow> (collection_info \<Rightarrow> (doc, 'a) op) \<Rightarrow> (doc, 'a) op" where
  "with_collection env body = (\<lambda>(d, w). case collectionForType env (doc_type d) of
       Inl e \<Rightarrow> (Err e, (d, w))
     | Inr col \<Rightarrow> body col (d, w))"

definition col_name :: "collection_info \<Rightarrow> string" where
  "col_name col = cm_Name (ci_meta col)"

section \<open>Hooks\<close>

definition runHook :: "env \<Rightarrow> hook_kind \<Rightarrow> (doc, unit) op" where
  "runHook env k = (\<lambda>(d, w). case e_hooks env (doc_type d) k of
       None \<Rightarrow> (Ok (), (d, w))
     | Some h \<Rightarrow> h (d, w))"

definition runBeforeInsertHooks :: "env \<Rightarrow> (doc, unit) op" where
  "runBeforeInsertHooks env = bindP (runHook env BeforeInsert) (\<lambda>_. runHook env BeforeSave)"
definition runBeforeUpdateHooks :: "env \<Rightarrow> (doc, unit) op" where
  "runBeforeUpdateHooks env = bindP (runHook env BeforeUpdate) (\<lambda>_. runHook env BeforeSave)"
definition runAfterInsertHooks :: "env \<Rightarrow> (doc, unit) op" where
  "runAfterInsertHooks env = bindP (runHook env AfterInsert) (\<lambda>_. runHook env AfterSave)"
definition runAfterUpdateHooks :: "env \<Rightarrow> (doc, unit) op" where
  "runAfterUpdateHooks env = bindP (runHook env AfterUpdate) (\<lambda>_. runHook env AfterSave)"

definition runValidationHooks :: "env \<Rightarrow> (doc, unit) op" where
  "runValidationHooks env = map_err (\<lambda>e. Wrap [] [Sent ErrValidation, e]) (runHook env Validate)"

definition validate_tags :: "env \<Rightarrow> (doc, unit) op" where
  "validate_tags env = (\<lambda>(d, w). case validate_Document (e_validate env) d of
       None \<Rightarrow> (Ok (), (d, w))
     | Some e \<Rightarrow> (Err (Wrap [] [Sent ErrValidation, e]), (d, w)))"

definition runPrePersistHooks :: "env \<Rightarrow> collection_info \<Rightarrow> bool \<Rightarrow> (doc, unit) op" where
  "runPrePersistHooks env col isInsert =
     bindP (if isInsert then runBeforeInsertHooks env else runBeforeUpdateHooks env) (\<lambda>_.
     bindP (if ci_HasValidateTags col then validate_tags env else returnP ()) (\<lambda>_.
     runValidationHooks env))"

section \<open>The write body\<close>

definition set_new_revision :: "(doc, unit) op" where
  "set_new_revision = bindP (on_snd newRevision) (\<lambda>r. modifyP (\<lambda>(d, w). (setRevision r d, w)))"

definition check_stored_revision :: "collection_info \<Rightarrow> (doc, unit) op" where
  "check_stored_revision col = (\<lambda>(d, w).
     bindP (on_snd (be_Get (col_name col) (getID d))) (\<lambda>data.
       case decode_rev data of
         Inl e \<Rightarrow> throwP (Wrap ''decode for revision check'' [e])
       | Inr r \<Rightarrow> if r \<noteq> getRevision d then throwP (Sent ErrRevisionConflict) else returnP ()) (d, w))"

definition checkAndUpdateRevision :: "collection_info \<Rightarrow> bool \<Rightarrow> (doc, unit) op" where
  "checkAndUpdateRevision col ignoreRev =
     (if \<not> ci_UseRevision col then returnP ()
      else bindP (\<lambda>(d, w). if \<not> ignoreRev \<and> getID d \<noteq> [] then check_stored_revision col (d, w)
                           else (Ok (), (d, w)))
             (\<lambda>_. set_new_revision))"

definition setBaseFields :: "env \<Rightarrow> string \<Rightarrow> bool \<Rightarrow> (doc, unit) op" where
  "setBaseFields env now isInsert =
     bindP (\<lambda>(d, w). if field_of d FieldID \<noteq> None \<and> getID d = []
              then bindP (on_snd (NewID env)) (\<lambda>i. modifyP (\<lambda>(d, w). (set_field FieldID (FStr i) d, w))) (d, w)
              else (Ok (), (d, w))) (\<lambda>_.
     modifyP (\<lambda>(d, w).
       let d = (if isInsert \<and> field_of d FieldCreatedAt = Some (FTime zero_time)
                then set_field FieldCreatedAt (FTime now) d else d);
           d = (if field_of d FieldUpdatedAt \<noteq> None then set_field FieldUpdatedAt (FTime now) d else d)
       in (d, w)))"

definition put_document :: "env \<Rightarrow> collection_info \<Rightarrow> (doc, unit) op" where
  "put_document env col = (\<lambda>(d, w).
     bindP (on_snd (be_Put env (col_name col) (getID d) (encode d)))
       (\<lambda>_. modifyP (\<lambda>(d', w'). (captureSnapshot (encode d) d', w'))) (d, w))"

definition writeDocCore :: "env \<Rightarrow> collection_info \<Rightarrow> bool \<Rightarrow> bool \<Rightarrow> (doc, unit) op" where
  "writeDocCore env col isInsert ignoreRev =
     bindP (runPrePersistHooks env col isInsert) (\<lambda>_.
     bindP (if ci_UseRevision col
            then (if isInsert then set_new_revision else checkAndUpdateRevision col ignoreRev)
            else returnP ()) (\<lambda>_.
     bindP (on_snd (time_now env)) (\<lambda>now.
     bindP (setBaseFields env now isInsert) (\<lambda>_.
     bindP (put_document env col) (\<lambda>_.
     if isInsert then runAfterInsertHooks env else runAfterUpdateHooks env)))))"

section \<open>Walking the link fields\<close>

fun each_link :: "(link, unit) op \<Rightarrow> link list \<Rightarrow> world \<Rightarrow> unit outcome \<times> link list \<times> world" where
  "each_link f [] w = (Ok (), [], w)"
| "each_link f (l # ls) w =
     (case ctx_err w of
        (Ok _, w1) \<Rightarrow> (case f (l, w1) of
            (Ok _, (l', w2)) \<Rightarrow> (case each_link f ls w2 of (r, ls', w3) \<Rightarrow> (r, l' # ls', w3))
          | (r, (l', w2)) \<Rightarrow> (r, l' # ls, w2))
      | (r, w1) \<Rightarrow> (r, l # ls, w1))"

fun each_link_field ::
    "(string \<Rightarrow> (link, unit) op) \<Rightarrow> (string \<times> bool \<times> fval) list \<Rightarrow> world
     \<Rightarrow> unit outcome \<times> (string \<times> bool \<times> fval) list \<times> world" where
  "each_link_field f [] w = (Ok (), [], w)"
| "each_link_field f ((n, oe, v) # fs) w =
     (case v of
        FLink ty e l \<Rightarrow>
          (case ctx_err w of
             (Ok _, w1) \<Rightarrow> (case f ty (l, w1) of
                 (Ok _, (l', w2)) \<Rightarrow> (case each_link_field f fs w2 of
                     (r, fs', w3) \<Rightarrow> (r, (n, oe, FLink ty e l') # fs', w3))
               | (r, (l', w2)) \<Rightarrow> (r, (n, oe, FLink ty e l') # fs, w2))
           | (r, w1) \<Rightarrow> (r, (n, oe, v) # fs, w1))
      | FLinks ty e ls \<Rightarrow>
          (case ctx_err w of
             (Ok _, w1) \<Rightarrow> (case each_link (f ty) ls w1 of
                 (Ok _, ls', w2) \<Rightarrow> (case each_link_field f fs w2 of
                     (r, fs', w3) \<Rightarrow> (r, (n, oe, FLinks ty e ls') # fs', w3))
               | (r, ls', w2) \<Rightarrow> (r, (n, oe, FLinks ty e ls') # fs, w2))
           | (r, w1) \<Rightarrow> (r, (n, oe, v) # fs, w1))
      | _ \<Rightarrow> (case each_link_field f fs w of (r, fs', w') \<Rightarrow> (r, (n, oe, v) # fs', w')))"

definition forEachLinkField :: "(string \<Rightarrow> (link, unit) op) \<Rightarrow> (doc, unit) op" where
  "forEachLinkField f = (\<lambda>(d, w). case each_link_field f (doc_fields d) w of
      (r, fs, w') \<Rightarrow> (r, (Doc (doc_type d) fs (doc_tracked d), w')))"

section \<open>Cascading writes\<close>

definition saveSingleLinkedValue :: "env \<Rightarrow> string \<Rightarrow> (link, unit) op" where
  "saveSingleLinkedValue env ty = (\<lambda>(l, w). case link_Value l of
       None \<Rightarrow> (Ok (), (l, w))
     | Some target \<Rightarrow> (case collectionForType env ty of
           Inl e \<Rightarrow> (Err e, (l, w))
         | Inr col \<Rightarrow>
             (let isInsert = (getID target = []) in
              case writeDocCore env col isInsert False (target, w) of
                (Ok _, (target', w')) \<Rightarrow>
                  (Ok (), (Link (if isInsert then getID target' else link_ID l) (Some target') (link_Loaded l), w'))
              | (r, (target', w')) \<Rightarrow> (r, (Link (link_ID l) (Some target') (link_Loaded l), w')))))"

definition cascadeWriteLinks :: "env \<Rightarrow> (doc, unit) op" where
  "cascadeWriteLinks env = forEachLinkField (saveSingleLinkedValue env)"

section \<open>Insert, update, save\<close>

definition insertCore :: "env \<Rightarrow> crud_option list \<Rightarrow> (doc, unit) op" where
  "insertCore env opts =
     (let o' = applyCRUDOpts opts in
      bindP (if linkRule o' = LinkWrite then cascadeWriteLinks env else returnP ()) (\<lambda>_.
      with_collection env (\<lambda>col. writeDocCore env col True False)))"

definition updateBody :: "env \<Rightarrow> crud_opts \<Rightarrow> collection_info \<Rightarrow> (doc, unit) op" where
  "updateBody env o' col =
     bindP (if linkRule o' = LinkWrite then cascadeWriteLinks env else returnP ()) (\<lambda>_ (d, w).
       if getID d = []
       then (Err (Wrap ''cannot update document without ID'' [Sent ErrValidation]), (d, w))
       else writeDocCore env col False (ignoreRevision o') (d, w))"

definition updateCore :: "env \<Rightarrow> bool \<Rightarrow> crud_option list \<Rightarrow> (doc, unit) op" where
  "updateCore env in_tx opts =
     (let o' = applyCRUDOpts opts in
      with_collection env (\<lambda>col.
        if ci_UseRevision col \<and> \<not> ignoreRevision o' \<and> \<not> in_tx
        then runInWriteTx (updateBody env o' col)
        else updateBody env o' col))"

definition Save :: "env \<Rightarrow> scope \<Rightarrow> crud_option list \<Rightarrow> (doc, unit) op" where
  "Save env s opts =
     with_collection env (\<lambda>col (d, w).
       if getID d = [] then insertCore env opts (d, w)
       else updateCore env (scope_in_tx s) opts (d, w))"

text \<open>A loop over a slice of documents, with the index in the error.\<close>

fun each_doc :: "string \<Rightarrow> (doc, unit) op \<Rightarrow> nat \<Rightarrow> doc list \<Rightarrow> world \<Rightarrow> unit outcome \<times> doc list \<times> world" where
  "each_doc what f i [] w = (Ok (), [], w)"
| "each_doc what f i (d # ds) w =
     (case ctx_err w of
        (Ok _, w1) \<Rightarrow> (case f (d, w1) of
            (Ok _, (d', w2)) \<Rightarrow> (case each_doc what f (Suc i) ds w2 of (r, ds', w3) \<Rightarrow> (r, d' # ds', w3))
          | (Err e, (d', w2)) \<Rightarrow>
              (Err (Wrap (''den: '' @ what @ '' failed at index '' @ dec i) [e]), d' # ds, w2)
          | (Panic p, (d', w2)) \<Rightarrow> (Panic p, d' # ds, w2))
      | (r, w1) \<Rightarrow> (r, d # ds, w1))"

definition each_doc_op :: "string \<Rightarrow> (doc, unit) op \<Rightarrow> (doc list, unit) op" where
  "each_doc_op what f = (\<lambda>(ds, w). case each_doc what f 0 ds w of (r, ds', w') \<Rightarrow> (r, (ds', w')))"

definition SaveAll :: "env \<Rightarrow> scope \<Rightarrow> crud_option list \<Rightarrow> (doc list, unit) op" where
  "SaveAll env s opts = (\<lambda>(docs, w).
     if docs = [] then (Ok (), (docs, w))
     else runOnScopeVoid s (each_doc_op ''save'' (Save env ScopeTx opts)) (docs, w))"

section \<open>Attachments\<close>

definition attachment_IsZero :: "attachment \<Rightarrow> bool" where
  "attachment_IsZero a \<longleftrightarrow> StoragePath a = [] \<and> Size a = 0"

text \<open>The walk enters every struct and pointer-to-struct field; a link field is a struct with a
  pointer to its loaded target, so it is entered too; slices are not.\<close>

fun walkAttachments :: "doc \<Rightarrow> attachment list" and walk_fields :: "(string \<times> bool \<times> fval) list \<Rightarrow> attachment list"
and walk_field :: "fval \<Rightarrow> attachment list" where
  "walkAttachments (Doc ty fs tr) = walk_fields fs"
| "walk_fields [] = []"
| "walk_fields ((n, oe, v) # fs) = walk_field v @ walk_fields fs"
| "walk_field (FAtt a) = (if attachment_IsZero a then [] else [a])"
| "walk_field (FAttPtr (Some a)) = (if attachment_IsZero a then [] else [a])"
| "walk_field (FLink ty e (Link i (Some d) b)) = walkAttachments d"
| "walk_field (FStruct fs) = walk_fields fs"
| "walk_field (FStructPtr z (Some fs)) = walk_fields fs"
| "walk_field _ = []"

definition collectAttachments :: "doc \<Rightarrow> attachment list" where
  "collectAttachments d = walkAttachments d"

definition preflightAttachments :: "env \<Rightarrow> (doc, unit) op" where
  "preflightAttachments env = (\<lambda>(d, w).
     if e_storage env \<noteq> None then (Ok (), (d, w))
     else if collectAttachments d = [] then (Ok (), (d, w))
     else (Err (Wrap (''cannot hard-delete document with '' @ dec (length (collectAttachments d))
                        @ '' attachment(s) and no Storage configured'') [Sent ErrValidation]), (d, w)))"

text \<open>The errors of \<open>Storage.Delete\<close> are logged only.\<close>

definition cleanupAttachments :: "env \<Rightarrow> (doc, unit) op" where
  "cleanupAttachments env =
     modifyP (\<lambda>(d, w). (d, w\<lparr>w_deleted := w_deleted w @ collectAttachments d\<rparr>))"

section \<open>Delete\<close>

definition softDeleteBody :: "env \<Rightarrow> collection_info \<Rightarrow> crud_opts \<Rightarrow> (doc, unit) op" where
  "softDeleteBody env col o' =
     bindP (checkAndUpdateRevision col (ignoreRevision o')) (\<lambda>_.
     bindP (on_snd (time_now env)) (\<lambda>now.
     bindP (modifyP (\<lambda>(d, w). (setSoftDeleteAuditFields (softDeleteBy o') (softDeleteReason o')
                                 (setSoftDeletedAt (Some now) d), w))) (\<lambda>_.
     put_document env col)))"

definition softDelete :: "env \<Rightarrow> bool \<Rightarrow> collection_info \<Rightarrow> crud_opts \<Rightarrow> (doc, unit) op" where
  "softDelete env in_tx col o' =
     (if ci_UseRevision col \<and> \<not> ignoreRevision o' \<and> \<not> in_tx
      then runInWriteTx (softDeleteBody env col o')
      else softDeleteBody env col o')"

definition deleteDocCore :: "env \<Rightarrow> bool \<Rightarrow> collection_info \<Rightarrow> crud_opts \<Rightarrow> (doc, unit) op" where
  "deleteDocCore env in_tx col o' =
     (if cm_HasSoftDelete (ci_meta col) \<and> \<not> hardDelete o'
      then bindP (runHook env BeforeSoftDelete) (\<lambda>_.
           bindP (softDelete env in_tx col o') (\<lambda>_.
           bindP (runHook env AfterSoftDelete) (\<lambda>_. runHook env AfterDelete)))
      else bindP (preflightAttachments env) (\<lambda>_.
           bindP (\<lambda>(d, w). on_snd (be_Delete (col_name col) (getID d)) (d, w)) (\<lambda>_.
           bindP (cleanupAttachments env) (\<lambda>_. runHook env AfterDelete))))"

definition deleteSingleLinkedValue :: "env \<Rightarrow> bool \<Rightarrow> crud_opts \<Rightarrow> string \<Rightarrow> (link, unit) op" where
  "deleteSingleLinkedValue env in_tx o' ty = (\<lambda>(l, w).
     if link_ID l = [] then (Ok (), (l, w))
     else (case collectionForType env ty of
         Inl e \<Rightarrow> (Err e, (l, w))
       | Inr col \<Rightarrow> (case be_Get (col_name col) (link_ID l) w of
             (Err e, w') \<Rightarrow> (if errors_is e ErrNotFound then (Ok (), (l, w')) else (Err e, (l, w')))
           | (Panic p, w') \<Rightarrow> (Panic p, (l, w'))
           | (Ok data, w') \<Rightarrow> (case decode_into data (ci_zero col) of
                 (Some e, _) \<Rightarrow> (Err (Wrap (''decode linked '' @ col_name col) [e]), (l, w'))
               | (None, d) \<Rightarrow>
                   (case bindP (runHook env BeforeDelete) (\<lambda>_. deleteDocCore env in_tx col o') (d, w') of
                      (r, (d', w'')) \<Rightarrow> (r, (l, w''))))))) "

definition cascadeDeleteLinks :: "env \<Rightarrow> bool \<Rightarrow> crud_opts \<Rightarrow> (doc, unit) op" where
  "cascadeDeleteLinks env in_tx o' = forEachLinkField (deleteSingleLinkedValue env in_tx o')"

definition deleteCore :: "env \<Rightarrow> bool \<Rightarrow> crud_option list \<Rightarrow> (doc, unit) op" where
  "deleteCore env in_tx opts =
     (let o' = applyCRUDOpts opts in
      with_collection env (\<lambda>col (d, w).
        if getID d = []
        then (Err (Wrap ''cannot delete document without ID'' [Sent ErrValidation]), (d, w))
        else bindP (runHook env BeforeDelete) (\<lambda>_.
             bindP (if linkRule o' = LinkDelete then cascadeDeleteLinks env in_tx o' else returnP ()) (\<lambda>_.
             deleteDocCore env in_tx col o')) (d, w)))"

definition Delete :: "env \<Rightarrow> scope \<Rightarrow> crud_option list \<Rightarrow> (doc, unit) op" where
  "Delete env s opts = deleteCore env (scope_in_tx s) opts"

definition DeleteAll :: "env \<Rightarrow> scope \<Rightarrow> crud_option list \<Rightarrow> (doc list, unit) op" where
  "DeleteAll env s opts = (\<lambda>(docs, w).
     if docs = [] then (Ok (), (docs, w))
     else runOnScopeVoid s (each_doc_op ''delete'' (Delete env ScopeTx opts)) (docs, w))"

end
