(* ===== verification/Crud_Lemmas.thy ===== *)
theory Crud_Lemmas
  imports Crud
begin

text \<open>
  What the write path does to the store. \<open>hooks_ok\<close> is what Go's types and Den's contract fix of
  user hooks: they may change the client's fields of the document, return an error or panic and
  write the trace, but they neither touch the store of this model nor the server-owned fields nor
  the shape of the document. Under it every write changes at most the row of the document, and a
  successful one stores exactly the encoding of the document it leaves in memory.
\<close>

section \<open>Documents of one shape\<close>

definition same_shape :: "doc \<Rightarrow> doc \<Rightarrow> bool" where
  "same_shape d d' \<longleftrightarrow> doc_type d' = doc_type d \<and> map fst (doc_fields d') = map fst (doc_fields d)
     \<and> (doc_tracked d' = None \<longleftrightarrow> doc_tracked d = None)"

definition same_server_fields :: "doc \<Rightarrow> doc \<Rightarrow> bool" where
  "same_server_fields d d' \<longleftrightarrow> list_all (\<lambda>n. field_of d' n = field_of d n) serverOwnedFieldNames"

definition hook_ok :: "(doc, unit) op \<Rightarrow> bool" where
  "hook_ok h \<longleftrightarrow> (\<forall>d w r d' w'. h (d, w) = (r, (d', w')) \<longrightarrow>
     w_store w' = w_store w \<and> w_saved w' = w_saved w \<and> same_shape d d' \<and> same_server_fields d d')"

definition hooks_ok :: "env \<Rightarrow> bool" where
  "hooks_ok env \<longleftrightarrow> (\<forall>ty k h. e_hooks env ty k = Some h \<longrightarrow> hook_ok h)"

definition no_hooks :: "env \<Rightarrow> bool" where
  "no_hooks env \<longleftrightarrow> e_hooks env = (\<lambda>_ _. None)"

lemma no_hooks_ok: "no_hooks env \<Longrightarrow> hooks_ok env"
  by (simp add: no_hooks_def hooks_ok_def)

lemma same_shape_refl [simp]: "same_shape d d"
  by (simp add: same_shape_def)

lemma same_shape_trans: "same_shape d e \<Longrightarrow> same_shape e f \<Longrightarrow> same_shape d f"
  by (simp add: same_shape_def)

lemma same_server_refl [simp]: "same_server_fields d d"
  by (simp add: same_server_fields_def list_all_iff)

lemma same_server_trans: "same_server_fields d e \<Longrightarrow> same_server_fields e f \<Longrightarrow> same_server_fields d f"
  by (simp add: same_server_fields_def list_all_iff)

lemma same_serverD:
  assumes "same_server_fields d d'"
  shows "getID d' = getID d" "getRevision d' = getRevision d" "field_of d' FieldID = field_of d FieldID"
    "field_of d' FieldRev = field_of d FieldRev" "field_of d' FieldDeletedAt = field_of d FieldDeletedAt"
  using assms
  by (simp_all add: same_server_fields_def serverOwnedFieldNames_def getID_def getRevision_def
      string_field_def)

lemma same_shape_set [simp]: "same_shape d (set_field n v e) = same_shape d e"
  by (simp add: same_shape_def)

lemma same_shape_setRevision [simp]: "same_shape d (setRevision r e) = same_shape d e"
  by (simp add: setRevision_def)

lemma same_shape_capture [simp]: "same_shape d (captureSnapshot j e) = same_shape d e"
  by (auto simp: same_shape_def captureSnapshot_def split: option.split)

lemma names_distinct_neq [simp]:
  "FieldID \<noteq> FieldRev" "FieldRev \<noteq> FieldID" "FieldID \<noteq> FieldCreatedAt" "FieldCreatedAt \<noteq> FieldID"
  "FieldID \<noteq> FieldUpdatedAt" "FieldUpdatedAt \<noteq> FieldID" "FieldRev \<noteq> FieldCreatedAt"
  "FieldCreatedAt \<noteq> FieldRev" "FieldRev \<noteq> FieldUpdatedAt" "FieldUpdatedAt \<noteq> FieldRev"
  "FieldID \<noteq> FieldDeletedAt" "FieldDeletedAt \<noteq> FieldID" "FieldID \<noteq> FieldDeletedBy"
  "FieldDeletedBy \<noteq> FieldID" "FieldID \<noteq> FieldDeleteReason" "FieldDeleteReason \<noteq> FieldID"
  "FieldRev \<noteq> FieldDeletedAt" "FieldDeletedAt \<noteq> FieldRev" "FieldRev \<noteq> FieldDeletedBy"
  "FieldDeletedBy \<noteq> FieldRev" "FieldRev \<noteq> FieldDeleteReason" "FieldDeleteReason \<noteq> FieldRev"
  "FieldDeletedAt \<noteq> FieldDeletedBy" "FieldDeletedBy \<noteq> FieldDeletedAt" "FieldDeletedAt \<noteq> FieldDeleteReason"
  "FieldDeleteReason \<noteq> FieldDeletedAt" "FieldDeletedAt \<noteq> FieldUpdatedAt" "FieldUpdatedAt \<noteq> FieldDeletedAt"
  "FieldDeletedAt \<noteq> FieldCreatedAt" "FieldCreatedAt \<noteq> FieldDeletedAt" "FieldDeletedBy \<noteq> FieldDeleteReason"
  "FieldUpdatedAt \<noteq> FieldCreatedAt" "FieldCreatedAt \<noteq> FieldUpdatedAt"
  by (simp_all add: field_name_defs)

lemma getID_setRevision [simp]: "getID (setRevision r d) = getID d"
  by (simp add: setRevision_def getID_set_other)

lemma field_setRevision_other: "n \<noteq> FieldRev \<Longrightarrow> field_of (setRevision r d) n = field_of d n"
  by (simp add: setRevision_def field_of_set_field)

lemma getID_capture [simp]: "getID (captureSnapshot j d) = getID d"
  "getRevision (captureSnapshot j d) = getRevision d"
  by (simp_all add: getID_def getRevision_def string_field_def)

section \<open>Steps that leave the store alone\<close>

text \<open>\<open>quiet R m\<close>: \<open>m\<close> keeps the store and the transaction, and \<open>R\<close> relates the document before
  and after.\<close>

definition quiet :: "(doc \<Rightarrow> doc \<Rightarrow> bool) \<Rightarrow> (doc, 'a) op \<Rightarrow> bool" where
  "quiet R m \<longleftrightarrow> (\<forall>d w r d' w'. m (d, w) = (r, (d', w')) \<longrightarrow>
     w_store w' = w_store w \<and> w_saved w' = w_saved w \<and> R d d')"

lemma quietD: "quiet R m \<Longrightarrow> m (d, w) = (r, (d', w')) \<Longrightarrow> w_store w' = w_store w \<and> w_saved w' = w_saved w \<and> R d d'"
  unfolding quiet_def by blast

lemma quietI:
  "(\<And>d w r d' w'. m (d, w) = (r, (d', w')) \<Longrightarrow> w_store w' = w_store w \<and> w_saved w' = w_saved w \<and> R d d')
   \<Longrightarrow> quiet R m"
  unfolding quiet_def by blast

definition good :: "(doc \<Rightarrow> doc \<Rightarrow> bool) \<Rightarrow> bool" where
  "good R \<longleftrightarrow> reflp R \<and> transp R"

lemma quiet_bind:
  assumes "good R" "quiet R m" "\<And>x. quiet R (f x)"
  shows "quiet R (bindP m f)"
proof (rule quietI)
  fix d w r d' w' assume run: "bindP m f (d, w) = (r, (d', w'))"
  obtain q d1 w1 where m: "m (d, w) = (q, (d1, w1))" by (metis prod_cases3)
  note q1 = quietD [OF assms(2) m]
  show "w_store w' = w_store w \<and> w_saved w' = w_saved w \<and> R d d'"
  proof (cases q)
    case (Ok x)
    with run m have "f x (d1, w1) = (r, (d', w'))" by (simp add: bindP_def)
    from quietD [OF assms(3) this] q1 assms(1) show ?thesis
      by (auto simp: good_def dest: transpD)
  qed (use run m q1 in \<open>auto simp: bindP_def\<close>)
qed

lemma quiet_map_err: "quiet R m \<Longrightarrow> quiet R (map_err h m)"
  by (auto simp: quiet_def map_err_def split: prod.splits outcome.splits)

lemma quiet_return: "good R \<Longrightarrow> quiet R (returnP x)" "good R \<Longrightarrow> quiet R (throwP e)"
  by (auto simp: quiet_def good_def reflpD)

lemma quiet_if: "(b \<Longrightarrow> quiet R m) \<Longrightarrow> (\<not> b \<Longrightarrow> quiet R n) \<Longrightarrow> quiet R (if b then m else n)"
  by simp

lemma quiet_on_snd:
  assumes "good R" "\<And>w r w'. m w = (r, w') \<Longrightarrow> w_store w' = w_store w \<and> w_saved w' = w_saved w"
  shows "quiet R (on_snd m)"
  by (rule quietI) (metis assms good_def on_snd_eq reflpD)

lemma quiet_modify:
  "(\<And>d w. \<exists>d' w'. f (d, w) = (d', w') \<and> w_store w' = w_store w \<and> w_saved w' = w_saved w \<and> R d d')
   \<Longrightarrow> quiet R (modifyP f)"
  by (rule quietI) (metis Pair_inject state_simps(3))

lemma quiet_mono: "quiet R m \<Longrightarrow> (\<And>d d'. R d d' \<Longrightarrow> S d d') \<Longrightarrow> quiet S m"
  unfolding quiet_def by blast

definition hook_rel :: "doc \<Rightarrow> doc \<Rightarrow> bool" where
  "hook_rel d d' \<longleftrightarrow> same_shape d d' \<and> same_server_fields d d'"

lemma good_hook_rel [simp]: "good hook_rel" "good same_shape"
  by (auto simp: good_def hook_rel_def intro!: reflpI transpI dest: same_shape_trans same_server_trans)

lemma quiet_runHook: "hooks_ok env \<Longrightarrow> quiet hook_rel (runHook env k)"
  by (rule quietI) (auto simp: runHook_def hooks_ok_def hook_ok_def hook_rel_def split: option.splits)

lemma quiet_hook_chains:
  assumes "hooks_ok env"
  shows "quiet hook_rel (runBeforeInsertHooks env)" "quiet hook_rel (runBeforeUpdateHooks env)"
    "quiet hook_rel (runAfterInsertHooks env)" "quiet hook_rel (runAfterUpdateHooks env)"
    "quiet hook_rel (runValidationHooks env)" "quiet hook_rel (validate_tags env)"
    "quiet hook_rel (runPrePersistHooks env col ins)"
proof -
  show chains: "quiet hook_rel (runBeforeInsertHooks env)" "quiet hook_rel (runBeforeUpdateHooks env)"
    "quiet hook_rel (runAfterInsertHooks env)" "quiet hook_rel (runAfterUpdateHooks env)"
    "quiet hook_rel (runValidationHooks env)"
    by (simp_all add: runBeforeInsertHooks_def runBeforeUpdateHooks_def runAfterInsertHooks_def
        runAfterUpdateHooks_def runValidationHooks_def quiet_bind quiet_map_err
        quiet_runHook [OF assms])
  show tags: "quiet hook_rel (validate_tags env)"
    by (rule quietI) (auto simp: validate_tags_def hook_rel_def split: option.splits)
  show "quiet hook_rel (runPrePersistHooks env col ins)"
    unfolding runPrePersistHooks_def
    by (intro quiet_bind quiet_if chains tags quiet_return good_hook_rel)
qed

lemma fault_quiet: "fault w = (r, w') \<Longrightarrow> w_store w' = w_store w \<and> w_saved w' = w_saved w"
  by (rule fault_store)

lemma ctx_quiet: "ctx_err w = (r, w') \<Longrightarrow> w_store w' = w_store w \<and> w_saved w' = w_saved w"
  by (auto simp: ctx_err_def split: list.splits option.splits)

lemma be_Get_quiet: "be_Get c i w = (r, w') \<Longrightarrow> w_store w' = w_store w \<and> w_saved w' = w_saved w"
  by (auto simp: be_Get_def bindP_def dest: fault_quiet split: prod.splits outcome.splits option.splits)

lemma be_Get_Ok: "be_Get c i w = (Ok j, w') \<Longrightarrow> st_get (w_store w) c i = Some j"
  using fault_quiet
  by (fastforce simp: be_Get_def bindP_def st_get_def split: prod.splits outcome.splits option.splits)

lemma clock_quiet:
  "time_now env w = (r, w') \<Longrightarrow> w_store w' = w_store w \<and> w_saved w' = w_saved w"
  "NewID env w = (s, w') \<Longrightarrow> w_store w' = w_store w \<and> w_saved w' = w_saved w"
  "newRevision w = (s, w') \<Longrightarrow> w_store w' = w_store w \<and> w_saved w' = w_saved w"
  by (auto simp: time_now_def NewID_def newRevision_def split: prod.splits if_splits)

section \<open>The steps of the write body\<close>

definition id_rel :: "doc \<Rightarrow> doc \<Rightarrow> bool" where
  "id_rel d d' \<longleftrightarrow> same_shape d d' \<and> (getID d \<noteq> [] \<longrightarrow> getID d' = getID d)
     \<and> (\<forall>s. field_of d FieldID = Some (FStr s) \<longrightarrow> (\<exists>t. field_of d' FieldID = Some (FStr t)))
     \<and> (\<forall>s. field_of d FieldRev = Some (FStr s) \<longrightarrow> (\<exists>t. field_of d' FieldRev = Some (FStr t)))"

lemma good_id_rel [simp]: "good id_rel"
  unfolding good_def
proof
  show "reflp id_rel" by (auto intro: reflpI simp: id_rel_def)
  show "transp id_rel"
    unfolding id_rel_def by (rule transpI) (metis same_shape_trans)
qed

lemma hook_id_rel: "hook_rel d d' \<Longrightarrow> id_rel d d'"
  by (auto simp: hook_rel_def id_rel_def same_serverD)

lemma set_new_revision_result:
  "set_new_revision (d, w) = (r, (d', w')) \<Longrightarrow>
    (\<exists>x. d' = setRevision x d) \<and> r = Ok () \<and> w_store w' = w_store w \<and> w_saved w' = w_saved w"
  by (auto simp: set_new_revision_def bindP_def newRevision_def on_snd_def split: if_splits)

lemma id_rel_setRevision [simp]: "id_rel d (setRevision x d)"
  by (auto simp: id_rel_def field_setRevision_other) (simp add: setRevision_def field_of_set_field)

lemma quiet_set_new_revision: "quiet id_rel set_new_revision"
  by (rule quietI) (auto dest: set_new_revision_result)

lemma check_stored_revision_result:
  assumes "check_stored_revision col (d, w) = (r, (d', w'))"
  shows "d' = d \<and> w_store w' = w_store w \<and> w_saved w' = w_saved w
    \<and> (is_ok r \<longrightarrow> (\<exists>j. st_get (w_store w) (col_name col) (getID d) = Some j
                    \<and> decode_rev j = Inr (getRevision d)))"
proof -
  obtain q w1 where get: "be_Get (col_name col) (getID d) w = (q, w1)" by fastforce
  with assms be_Get_quiet [OF get] be_Get_Ok show ?thesis
    by (cases q) (auto simp: check_stored_revision_def bindP_def on_snd_def split: sum.splits if_splits)
qed

lemma checkAndUpdateRevision_result:
  assumes "checkAndUpdateRevision col ign (d, w) = (r, (d', w'))"
  shows "w_store w' = w_store w \<and> w_saved w' = w_saved w \<and> id_rel d d'
    \<and> (is_ok r \<and> ci_UseRevision col \<and> \<not> ign \<and> getID d \<noteq> [] \<longrightarrow>
        (\<exists>j. st_get (w_store w) (col_name col) (getID d) = Some j \<and> decode_rev j = Inr (getRevision d)))"
proof (cases "ci_UseRevision col")
  case False
  with assms show ?thesis by (simp add: checkAndUpdateRevision_def id_rel_def)
next
  case True
  show ?thesis
  proof (cases "\<not> ign \<and> getID d \<noteq> []")
    case False
    with True assms have "set_new_revision (d, w) = (r, (d', w'))"
      by (auto simp: checkAndUpdateRevision_def bindP_def)
    from set_new_revision_result [OF this] False show ?thesis by auto
  next
    case 2: True
    obtain q d1 w1 where chk: "check_stored_revision col (d, w) = (q, (d1, w1))" by (metis prod_cases3)
    note c = check_stored_revision_result [OF chk]
    show ?thesis
    proof (cases "is_ok q")
      case True
      then have "set_new_revision (d, w1) = (r, (d', w'))"
        using assms chk 2 c \<open>ci_UseRevision col\<close>
        by (cases q) (auto simp: checkAndUpdateRevision_def bindP_def)
      from set_new_revision_result [OF this] c True show ?thesis by auto
    next
      case False
      then have "r = q" "d' = d1" "w' = w1" "\<not> is_ok r"
        using assms chk 2 \<open>ci_UseRevision col\<close>
        by (cases q; auto simp: checkAndUpdateRevision_def bindP_def)+
      with c show ?thesis by (auto simp: id_rel_def)
    qed
  qed
qed

lemma ulid_nonempty [simp]: "Ulid.encode m r \<noteq> []"
  by (simp add: Ulid.encode_def encode_ms_def)

lemma gen_new_nonempty: "gen_new now s = (Ok i, s') \<Longrightarrow> i \<noteq> []"
  by (auto simp: gen_new_def Let_def split: prod.splits outcome.splits if_splits)

lemma NewID_nonempty: "NewID env w = (Ok i, w') \<Longrightarrow> i \<noteq> []"
  by (auto simp: NewID_def dest: gen_new_nonempty split: prod.splits)

definition stamp :: "string \<Rightarrow> bool \<Rightarrow> doc \<Rightarrow> doc" where
  "stamp now isInsert d =
     (let d = (if isInsert \<and> field_of d FieldCreatedAt = Some (FTime zero_time)
               then set_field FieldCreatedAt (FTime now) d else d)
      in if field_of d FieldUpdatedAt \<noteq> None then set_field FieldUpdatedAt (FTime now) d else d)"

lemma stamp_server:
  "n \<noteq> FieldCreatedAt \<Longrightarrow> n \<noteq> FieldUpdatedAt \<Longrightarrow> field_of (stamp now ins d) n = field_of d n"
  by (simp add: stamp_def field_of_set_field Let_def)

lemma stamp_id [simp]: "getID (stamp now ins d) = getID d" "getRevision (stamp now ins d) = getRevision d"
  by (simp_all add: getID_def getRevision_def string_field_def stamp_server)

lemma stamp_shape [simp]: "same_shape e (stamp now ins d) = same_shape e d"
  by (simp add: stamp_def Let_def)

lemma setBaseFields_result:
  assumes "setBaseFields env now ins (d, w) = (r, (d', w'))"
  shows "w_store w' = w_store w \<and> w_saved w' = w_saved w \<and> id_rel d d'
    \<and> (\<forall>s. is_ok r \<and> field_of d FieldID = Some (FStr s) \<longrightarrow> getID d' \<noteq> [])
    \<and> field_of d' FieldRev = field_of d FieldRev"
proof (cases "field_of d FieldID \<noteq> None \<and> getID d = []")
  case False
  with assms have "d' = stamp now ins d" "w' = w" "r = Ok ()"
    by (auto simp: setBaseFields_def bindP_def stamp_def Let_def)
  with False show ?thesis
    by (auto simp: id_rel_def stamp_server)
next
  case True
  obtain q w1 where gen: "NewID env w = (q, w1)" by fastforce
  show ?thesis
  proof (cases q)
    case (Ok i)
    with assms True gen have "d' = stamp now ins (set_field FieldID (FStr i) d)" "w' = w1" "r = Ok ()"
      by (auto simp: setBaseFields_def bindP_def on_snd_def stamp_def Let_def)
    with True NewID_nonempty [of env w i w1] clock_quiet(2) [OF gen] gen Ok show ?thesis
      by (auto simp: id_rel_def stamp_server field_of_set_field getID_def string_field_def)
  qed (use assms True gen clock_quiet(2) [OF gen] in
      \<open>auto simp: setBaseFields_def bindP_def on_snd_def id_rel_def\<close>)
qed

lemma be_Put_result:
  assumes "be_Put env c i j w = (r, w')"
  shows "w_saved w' = w_saved w \<and> (is_ok r \<longrightarrow> has_table (w_store w) c
      \<and> \<not> unique_violation (w_store w) c i (e_norm env j) \<and> w_store w' = st_put c i (e_norm env j) (w_store w))
    \<and> (\<not> is_ok r \<longrightarrow> w_store w' = w_store w)"
  using assms fault_store
  by (fastforce simp: be_Put_def bindP_def split: prod.splits outcome.splits if_splits)

lemma put_document_result:
  assumes "put_document env col (d, w) = (r, (d', w'))"
  shows "w_saved w' = w_saved w
    \<and> (is_ok r \<longrightarrow> has_table (w_store w) (col_name col)
        \<and> w_store w' = st_put (col_name col) (getID d) (e_norm env (Document.encode d)) (w_store w)
        \<and> d' = captureSnapshot (Document.encode d) d)
    \<and> (\<not> is_ok r \<longrightarrow> w_store w' = w_store w \<and> d' = d)"
proof -
  obtain q w1 where put: "be_Put env (col_name col) (getID d) (Document.encode d) w = (q, w1)" by fastforce
  with assms be_Put_result [OF put] show ?thesis
    by (cases q) (auto simp: put_document_def bindP_def on_snd_def)
qed

section \<open>The write body\<close>

definition prepare_write :: "env \<Rightarrow> collection_info \<Rightarrow> bool \<Rightarrow> bool \<Rightarrow> (doc, unit) op" where
  "prepare_write env col isInsert ignoreRev =
     bindP (runPrePersistHooks env col isInsert) (\<lambda>_.
     bindP (if ci_UseRevision col
            then (if isInsert then set_new_revision else checkAndUpdateRevision col ignoreRev)
            else returnP ()) (\<lambda>_.
     bindP (on_snd (time_now env)) (\<lambda>now. setBaseFields env now isInsert)))"

lemma writeDocCore_split:
  "writeDocCore env col ins ign = bindP (prepare_write env col ins ign) (\<lambda>_.
     bindP (put_document env col) (\<lambda>_. if ins then runAfterInsertHooks env else runAfterUpdateHooks env))"
  by (simp add: writeDocCore_def prepare_write_def bindP_assoc)

end
