(* ===== verification/Crud_Effects.thy ===== *)
theory Crud_Effects
  imports Crud_Lemmas
begin

text \<open>
  The effect of a whole write on the store, and the discipline of transactions for every operation
  of the write path: what a single document write stores, that the operations neither end nor open
  a transaction of their caller, and the resulting rule for \<open>Save\<close> in either scope.
\<close>

section \<open>One document write\<close>

lemma prepare_write_result:
  assumes run: "prepare_write env col ins ign (d, w) = (r, (d', w'))" and hooks: "hooks_ok env"
  shows "w_store w' = w_store w \<and> w_saved w' = w_saved w \<and> id_rel d d'
    \<and> (\<forall>s. is_ok r \<and> field_of d FieldID = Some (FStr s) \<longrightarrow> getID d' \<noteq> [])
    \<and> (is_ok r \<and> ci_UseRevision col \<and> \<not> ins \<and> \<not> ign \<and> getID d \<noteq> [] \<longrightarrow>
        (\<exists>j. st_get (w_store w) (col_name col) (getID d) = Some j \<and> decode_rev j = Inr (getRevision d)))"
proof -
  obtain q1 d1 w1 where h: "runPrePersistHooks env col ins (d, w) = (q1, (d1, w1))" by (metis prod_cases3)
  note H = quietD [OF quiet_hook_chains(7) [OF hooks] h]
  then have R1: "hook_rel d d1" and S1: "w_store w1 = w_store w" "w_saved w1 = w_saved w" by auto
  note sv = same_serverD [OF conjunct2 [OF R1 [unfolded hook_rel_def]]]
  show ?thesis
  proof (cases "is_ok q1")
    case False
    with run h have "r = q1" "d' = d1" "w' = w1"
      by (cases q1; auto simp: prepare_write_def bindP_def)+
    with False S1 R1 show ?thesis by (auto simp: hook_id_rel)
  next
    case True
    let ?rev = "if ci_UseRevision col
        then (if ins then set_new_revision else checkAndUpdateRevision col ign) else returnP ()"
    obtain q2 d2 w2 where c: "?rev (d1, w1) = (q2, (d2, w2))" by (metis prod_cases3)
    have C: "w_store w2 = w_store w \<and> w_saved w2 = w_saved w \<and> id_rel d1 d2 \<and>
       (is_ok q2 \<and> ci_UseRevision col \<and> \<not> ins \<and> \<not> ign \<and> getID d1 \<noteq> [] \<longrightarrow>
        (\<exists>j. st_get (w_store w) (col_name col) (getID d1) = Some j \<and> decode_rev j = Inr (getRevision d1)))"
    proof (cases "ci_UseRevision col \<and> ins")
      case True
      with c set_new_revision_result [of d1 w1 q2 d2 w2] S1 show ?thesis by auto
    next
      case False
      with c have "checkAndUpdateRevision col ign (d1, w1) = (q2, (d2, w2))
           \<or> (\<not> ci_UseRevision col \<and> d2 = d1 \<and> w2 = w1)"
        by (auto split: if_splits)
      with checkAndUpdateRevision_result [of col ign d1 w1 q2 d2 w2] S1 show ?thesis
        by (auto simp: id_rel_def)
    qed
    have id12: "id_rel d d2" using C hook_id_rel [OF R1] good_id_rel by (auto simp: good_def dest: transpD)
    show ?thesis
    proof (cases "is_ok q2")
      case False
      with True run h c have "r = q2" "d' = d2" "w' = w2"
        by (cases q1; cases q2; auto simp: prepare_write_def bindP_def)+
      with False C id12 show ?thesis by auto
    next
      case ok2: True
      obtain now w3 where t: "time_now env w2 = (Ok now, w3)" by (simp add: time_now_def)
      note T = clock_quiet(1) [OF t]
      have "setBaseFields env now ins (d2, w3) = (r, (d', w'))"
        using True ok2 run h c t
        by (cases q1; cases q2; auto simp: prepare_write_def bindP_def on_snd_def)
      note B = setBaseFields_result [OF this]
      have "id_rel d d'" using id12 B good_id_rel by (auto simp: good_def dest: transpD)
      moreover have "\<And>s. field_of d FieldID = Some (FStr s) \<Longrightarrow> \<exists>t. field_of d2 FieldID = Some (FStr t)"
        using id12 by (auto simp: id_rel_def)
      ultimately show ?thesis using B C T S1 sv ok2 by auto
    qed
  qed
qed

lemma hook_rel_capture [simp]: "hook_rel d (captureSnapshot j d)"
  by (simp add: hook_rel_def same_server_fields_def list_all_iff)

lemma after_hooks_quiet:
  assumes "hooks_ok env"
    and "(if ins then runAfterInsertHooks env else runAfterUpdateHooks env) (d, w) = (r, (d', w'))"
  shows "w_store w' = w_store w \<and> w_saved w' = w_saved w \<and> hook_rel d d'"
  using assms(2) quietD [OF quiet_hook_chains(3) [OF assms(1)]] quietD [OF quiet_hook_chains(4) [OF assms(1)]]
  by (cases ins) auto

lemma after_hooks_none:
  assumes "no_hooks env"
  shows "(if ins then runAfterInsertHooks env else runAfterUpdateHooks env) = returnP ()"
  using assms
  by (auto simp: no_hooks_def runAfterInsertHooks_def runAfterUpdateHooks_def runHook_def bindP_def fun_eq_iff)

text \<open>\<open>stored env col d w w'\<close>: the step stored \<open>d\<close> and nothing else.\<close>

definition stored :: "env \<Rightarrow> collection_info \<Rightarrow> doc \<Rightarrow> world \<Rightarrow> world \<Rightarrow> bool" where
  "stored env col d w w' \<longleftrightarrow> has_table (w_store w) (col_name col)
     \<and> w_store w' = st_put (col_name col) (getID d) (e_norm env (Document.encode d)) (w_store w)"

lemma stored_get:
  "stored env col d w w' \<Longrightarrow> st_get (w_store w') c i =
     (if c = col_name col \<and> i = getID d then Some (e_norm env (Document.encode d)) else st_get (w_store w) c i)"
  by (auto simp: stored_def kv.get_put)

lemma writeDocCore_result:
  assumes run: "writeDocCore env col ins ign (d, w) = (r, (d', w'))" and hooks: "hooks_ok env"
  shows "w_saved w' = w_saved w \<and> id_rel d d'
    \<and> (is_ok r \<longrightarrow> (\<exists>d1. stored env col d1 w w' \<and> id_rel d d1 \<and> hook_rel d1 d'
         \<and> (\<forall>s. field_of d FieldID = Some (FStr s) \<longrightarrow> getID d1 \<noteq> [])
         \<and> (no_hooks env \<longrightarrow> d' = captureSnapshot (Document.encode d1) d1)))
    \<and> (is_ok r \<and> ci_UseRevision col \<and> \<not> ins \<and> \<not> ign \<and> getID d \<noteq> [] \<longrightarrow>
        (\<exists>j. st_get (w_store w) (col_name col) (getID d) = Some j \<and> decode_rev j = Inr (getRevision d)))
    \<and> (\<not> is_ok r \<and> no_hooks env \<longrightarrow> w_store w' = w_store w)"
proof -
  obtain q1 d1 w1 where p: "prepare_write env col ins ign (d, w) = (q1, (d1, w1))" by (metis prod_cases3)
  note P = prepare_write_result [OF p hooks]
  show ?thesis
  proof (cases "is_ok q1")
    case False
    with run p have "r = q1" "d' = d1" "w' = w1"
      by (cases q1; auto simp: writeDocCore_split bindP_def)+
    with False P show ?thesis by auto
  next
    case ok1: True
    obtain q2 d2 w2 where u: "put_document env col (d1, w1) = (q2, (d2, w2))" by (metis prod_cases3)
    note U = put_document_result [OF u]
    show ?thesis
    proof (cases "is_ok q2")
      case False
      with ok1 run p u have "r = q2" "d' = d2" "w' = w2"
        by (cases q1; cases q2; auto simp: writeDocCore_split bindP_def)+
      with False U P show ?thesis by auto
    next
      case ok2: True
      have a: "(if ins then runAfterInsertHooks env else runAfterUpdateHooks env) (d2, w2) = (r, (d', w'))"
        using ok1 ok2 run p u
        by (cases q1; cases q2; auto simp: writeDocCore_split bindP_def)
      note A = after_hooks_quiet [OF hooks a]
      have d2: "d2 = captureSnapshot (Document.encode d1) d1" using U ok2 by auto
      have h: "hook_rel d1 d'" using A d2 good_hook_rel(1) hook_rel_capture
        by (metis good_def transpD)
      have st: "stored env col d1 w w'" using U P A ok2 by (auto simp: stored_def)
      have id: "id_rel d d'" using P hook_id_rel [OF h] good_id_rel by (auto simp: good_def dest: transpD)
      have no: "no_hooks env \<Longrightarrow> d' = captureSnapshot (Document.encode d1) d1 \<and> is_ok r"
        using a d2 after_hooks_none [of env ins] by (auto simp: returnP_def)
      show ?thesis using st id no h P U A ok1 by auto
    qed
  qed
qed

section \<open>Every operation is neutral to the transaction\<close>

lemma quiet_neutral: "quiet R m \<Longrightarrow> tx_neutral m"
  by (rule tx_neutralI) (auto dest: quietD)

lemma writeDocCore_neutral: "hooks_ok env \<Longrightarrow> tx_neutral (writeDocCore env col ins ign)"
  by (rule tx_neutralI) (simp add: writeDocCore_result)

lemma tx_neutral_runHook: "hooks_ok env \<Longrightarrow> tx_neutral (runHook env k)"
  by (rule quiet_neutral [OF quiet_runHook])

lemma tx_neutral_with_collection [neutral]:
  "(\<And>col. tx_neutral (body col)) \<Longrightarrow> tx_neutral (with_collection env body)"
  by (rule tx_neutralI) (auto simp: with_collection_def dest: tx_neutralD split: sum.splits)

lemma tx_neutral_state:
  "(\<And>d. tx_neutral (f d)) \<Longrightarrow> tx_neutral (\<lambda>(d, w). f d (d, w))"
  by (rule tx_neutralI) (auto dest: tx_neutralD)

text \<open>A walk over the link fields keeps what every step on one link keeps.\<close>

lemma each_link_inv:
  assumes step: "\<And>l w r l' w'. f (l, w) = (r, (l', w')) \<Longrightarrow> I w \<Longrightarrow> I w'"
    and ctx: "\<And>w r w'. ctx_err w = (r, w') \<Longrightarrow> I w \<Longrightarrow> I w'"
  shows "each_link f ls w = (r, ls', w') \<Longrightarrow> I w \<Longrightarrow> I w'"
proof (induction ls arbitrary: w r ls' w')
  case (Cons l ls)
  obtain q w1 where c: "ctx_err w = (q, w1)" by fastforce
  have I1: "I w1" using ctx [OF c] Cons.prems by simp
  obtain p l2 w2 where f: "f (l, w1) = (p, (l2, w2))" by (metis prod_cases3)
  have I2: "I w2" using step [OF f I1] .
  obtain t ls3 w3 where e: "each_link f ls w2 = (t, ls3, w3)" by (metis prod_cases3)
  show ?case
    using Cons.prems c f e I1 I2 Cons.IH [OF e I2] by (cases q; cases p) auto
qed auto

lemma each_link_field_inv:
  assumes step: "\<And>ty l w r l' w'. f ty (l, w) = (r, (l', w')) \<Longrightarrow> I w \<Longrightarrow> I w'"
    and ctx: "\<And>w r w'. ctx_err w = (r, w') \<Longrightarrow> I w \<Longrightarrow> I w'"
  shows "each_link_field f fs w = (r, fs', w') \<Longrightarrow> I w \<Longrightarrow> I w'"
proof (induction fs arbitrary: w r fs' w')
  case (Cons x fs)
  obtain n oe v where x: "x = (n, oe, v)" by (metis prod_cases3)
  obtain q w1 where c: "ctx_err w = (q, w1)" by fastforce
  have I1: "I w1" using ctx [OF c] Cons.prems by simp
  note IH = Cons.IH
  show ?case
  proof (cases v)
    case (FLink ty e l)
    obtain p l2 w2 where f: "f ty (l, w1) = (p, (l2, w2))" by (metis prod_cases3)
    have I2: "I w2" using step [OF f I1] .
    obtain t fs3 w3 where e: "each_link_field f fs w2 = (t, fs3, w3)" by (metis prod_cases3)
    show ?thesis using Cons.prems c f e I1 I2 IH [OF e I2] by (cases q; cases p) (auto simp: x FLink)
  next
    case (FLinks ty e ls)
    obtain p ls2 w2 where f: "each_link (f ty) ls w1 = (p, ls2, w2)" by (metis prod_cases3)
    have I2: "I w2" using each_link_inv [of "f ty" I ls w1 p ls2 w2] step ctx f I1 by blast
    obtain t fs3 w3 where e: "each_link_field f fs w2 = (t, fs3, w3)" by (metis prod_cases3)
    show ?thesis using Cons.prems c f e I1 I2 IH [OF e I2] by (cases q; cases p) (auto simp: x FLinks)
  qed (use Cons.prems IH x in \<open>auto split: prod.splits\<close>)
qed auto

lemma forEachLinkField_inv:
  assumes "\<And>ty l w r l' w'. f ty (l, w) = (r, (l', w')) \<Longrightarrow> I w \<Longrightarrow> I w'"
    and "\<And>w r w'. ctx_err w = (r, w') \<Longrightarrow> I w \<Longrightarrow> I w'"
    and "forEachLinkField f (d, w) = (r, (d', w'))" "I w"
  shows "I w'"
  using assms(3,4) each_link_field_inv [of f I, OF assms(1,2)]
  by (auto simp: forEachLinkField_def split: prod.splits)

lemma tx_neutral_forEachLinkField [neutral]:
  assumes "\<And>ty. tx_neutral (f ty)"
  shows "tx_neutral (forEachLinkField f)"
proof (rule tx_neutralI)
  fix d w r d' w' assume run: "forEachLinkField f (d, w) = (r, (d', w'))"
  show "w_saved w' = w_saved w"
    by (rule forEachLinkField_inv [of f "\<lambda>v. w_saved v = w_saved w", OF _ _ run])
       (auto dest: tx_neutralD [OF assms] ctx_quiet)
qed

lemma saveSingle_neutral: "hooks_ok env \<Longrightarrow> tx_neutral (saveSingleLinkedValue env ty)"
  by (rule tx_neutralI)
     (auto simp: saveSingleLinkedValue_def Let_def dest: tx_neutralD [OF writeDocCore_neutral]
       split: option.splits sum.splits prod.splits outcome.splits)

lemma cascadeWriteLinks_neutral: "hooks_ok env \<Longrightarrow> tx_neutral (cascadeWriteLinks env)"
  by (simp add: cascadeWriteLinks_def saveSingle_neutral tx_neutral_forEachLinkField)

lemma insertCore_neutral: "hooks_ok env \<Longrightarrow> tx_neutral (insertCore env opts)"
  by (auto simp: insertCore_def Let_def intro!: neutral cascadeWriteLinks_neutral writeDocCore_neutral)

lemma updateBody_neutral:
  assumes "hooks_ok env"
  shows "tx_neutral (updateBody env o' col)"
  unfolding updateBody_def
  by (rule tx_neutral_bind)
     (auto intro!: neutral cascadeWriteLinks_neutral [OF assms] tx_neutralI
       dest: tx_neutralD [OF writeDocCore_neutral [OF assms]] split: if_splits)

lemma updateCore_neutral: "hooks_ok env \<Longrightarrow> tx_neutral (updateCore env in_tx opts)"
  by (auto simp: updateCore_def Let_def intro!: neutral updateBody_neutral)

lemma Save_neutral: "hooks_ok env \<Longrightarrow> tx_neutral (Save env s opts)"
  unfolding Save_def
  by (intro tx_neutral_with_collection tx_neutralI)
     (auto dest: tx_neutralD [OF insertCore_neutral] tx_neutralD [OF updateCore_neutral] split: if_splits)

lemma checkRevision_neutral: "tx_neutral (checkAndUpdateRevision col ign)"
  by (rule tx_neutralI) (simp add: checkAndUpdateRevision_result)

lemma put_document_neutral: "tx_neutral (put_document env col)"
  by (rule tx_neutralI) (simp add: put_document_result)

lemma softDelete_neutral: "tx_neutral (softDelete env in_tx col o')"
  unfolding softDelete_def softDeleteBody_def
  by (intro neutral checkRevision_neutral put_document_neutral) simp_all

lemma deleteDocCore_neutral:
  assumes "hooks_ok env"
  shows "tx_neutral (deleteDocCore env in_tx col o')"
proof -
  have "tx_neutral (preflightAttachments env)"
    by (rule tx_neutralI) (auto simp: preflightAttachments_def split: if_splits)
  moreover have "tx_neutral (cleanupAttachments env)"
    by (auto simp: cleanupAttachments_def intro!: neutral)
  moreover have "tx_neutral (\<lambda>(d, w). on_snd (be_Delete (col_name col) (getID d)) (d, w))"
    by (rule tx_neutral_state) (intro neutral)
  ultimately show ?thesis
    unfolding deleteDocCore_def
    by (intro neutral softDelete_neutral tx_neutral_runHook [OF assms])
qed

lemma deleteSingle_neutral:
  assumes "hooks_ok env"
  shows "tx_neutral (deleteSingleLinkedValue env in_tx o' ty)"
proof (rule tx_neutralI)
  fix l w r l' w' assume run: "deleteSingleLinkedValue env in_tx o' ty (l, w) = (r, (l', w'))"
  have body: "tx_neutral (bindP (runHook env BeforeDelete) (\<lambda>_. deleteDocCore env in_tx col o'))" for col
    by (intro neutral tx_neutral_runHook deleteDocCore_neutral assms)
  show "w_saved w' = w_saved w"
    using run be_Get_quiet tx_neutralD [OF body]
    by (fastforce simp: deleteSingleLinkedValue_def split: if_splits sum.splits prod.splits outcome.splits option.splits)
qed

lemma deleteCore_neutral:
  assumes "hooks_ok env"
  shows "tx_neutral (deleteCore env in_tx opts)"
proof -
  have body: "tx_neutral (bindP (runHook env BeforeDelete) (\<lambda>_.
             bindP (if c then cascadeDeleteLinks env in_tx o' else returnP ()) (\<lambda>_.
             deleteDocCore env in_tx col o')))" for c o' col
    unfolding cascadeDeleteLinks_def
    by (intro neutral tx_neutral_runHook deleteDocCore_neutral deleteSingle_neutral assms)
  show ?thesis
    unfolding deleteCore_def Let_def
    by (intro tx_neutral_with_collection tx_neutralI)
       (use tx_neutralD [OF body [of True]] tx_neutralD [OF body [of False]] in
         \<open>auto split: if_splits\<close>)
qed

lemma Delete_neutral: "hooks_ok env \<Longrightarrow> tx_neutral (Delete env s opts)"
  by (simp add: Delete_def deleteCore_neutral)

lemma each_doc_saved:
  assumes "tx_neutral f"
  shows "each_doc what f i ds w = (r, ds', w') \<Longrightarrow> w_saved w' = w_saved w"
proof (induction ds arbitrary: i w r ds' w')
  case (Cons d ds)
  obtain q w1 where c: "ctx_err w = (q, w1)" by fastforce
  obtain p d2 w2 where f: "f (d, w1) = (p, (d2, w2))" by (metis prod_cases3)
  obtain t ds3 w3 where e: "each_doc what f (Suc i) ds w2 = (t, ds3, w3)" by (metis prod_cases3)
  show ?case
    using Cons.prems c f e ctx_quiet [OF c] tx_neutralD [OF assms f] Cons.IH [OF e]
    by (cases q; cases p) auto
qed auto

lemma each_doc_neutral: "tx_neutral f \<Longrightarrow> tx_neutral (each_doc_op what f)"
  by (rule tx_neutralI) (auto simp: each_doc_op_def dest: each_doc_saved split: prod.splits)

lemma SaveAll_neutral: "hooks_ok env \<Longrightarrow> tx_neutral (SaveAll env s opts)"
  unfolding SaveAll_def
  by (rule tx_neutralI)
     (auto split: if_splits dest: tx_neutralD [OF tx_neutral_scope(3) [OF each_doc_neutral [OF Save_neutral]]])

lemma DeleteAll_neutral: "hooks_ok env \<Longrightarrow> tx_neutral (DeleteAll env s opts)"
  unfolding DeleteAll_def
  by (rule tx_neutralI)
     (auto split: if_splits dest: tx_neutralD [OF tx_neutral_scope(3) [OF each_doc_neutral [OF Delete_neutral]]])

end
