(* ===== verification/Sample.thy ===== *)
theory Sample
  imports Crud
begin

text \<open>
  A concrete instance on which the properties of the engine are evaluated: the registered type
  \<open>Note\<close> with the fields of \<open>document.Base\<close> and \<open>document.SoftDelete\<close>, a title, a link to another
  note, a file and change tracking, an environment without hooks and a database holding its table.
\<close>

definition note_doc :: "string \<Rightarrow> string \<Rightarrow> string \<Rightarrow> string \<Rightarrow> doc" where
  "note_doc i r title target = Doc ''Note''
     [(FieldID, False, FStr i), (FieldCreatedAt, False, FTime zero_time),
      (FieldUpdatedAt, False, FTime zero_time), (FieldRev, True, FStr r),
      (FieldDeletedAt, True, FTimePtr None), (FieldDeletedBy, True, FStr []),
      (FieldDeleteReason, True, FStr []), (''title'', False, FJson (JStr []) (JStr title)),
      (''next'', True, FLink ''Note'' False (Link target None False)), (''file'', True, FAttPtr None)] (Some None)"

definition note_collection :: "bool \<Rightarrow> bool \<Rightarrow> collection_info" where
  "note_collection withRev soft = \<lparr>ci_meta = \<lparr>cm_Name = ''note'', cm_Fields = [], cm_Indexes = [],
       cm_HasSoftDelete = soft, cm_HasRevision = withRev, cm_HasChangeTracking = True\<rparr>,
     ci_zero = note_doc [] [] [] [], ci_HasValidateTags = True, ci_UseRevision = withRev\<rparr>"

definition note_env :: "bool \<Rightarrow> bool \<Rightarrow> env" where
  "note_env withRev soft = \<lparr>e_reg = \<lparr>rg_collections = [(''note'', note_collection withRev soft)], rg_types = []\<rparr>,
     e_hooks = (\<lambda>_ _. None),
     e_validate = (\<lambda>d. if field_of d ''title'' = Some (FJson (JStr []) (JStr []))
                       then VFields [\<lparr>fe_Field = ''title'', fe_Tag = ''required'', fe_Param = []\<rparr>] else VOk),
     e_norm = (\<lambda>j. j), e_select = (\<lambda>q rs. rs),
     e_now = (\<lambda>n. (''2026-01-02T03:04:05Z'', 1000 + of_nat n)), e_storage = None,
     e_convert = (\<lambda>_ _. None)\<rparr>"

definition note_store :: "doc list \<Rightarrow> store" where
  "note_store ds = \<lparr>st_tables = [''note'' \<mapsto> map (\<lambda>d. (getID d, Document.encode d)) ds],
     st_indexes = [], st_recorded = []\<rparr>"

definition note_world :: "doc list \<Rightarrow> world" where
  "note_world ds = initial_world (note_store ds) (map of_nat [0..<40])"

lemma note_no_hooks [simp]: "e_hooks (note_env r s) = (\<lambda>_ _. None)"
  by (simp add: note_env_def)

end
