(* ===== verification/Crud_Properties.thy ===== *)
theory Crud_Properties
  imports Crud_Effects Sample
begin

text \<open>
  The contract of the write path: what a successful \<open>Save\<close> leaves in the store, optimistic
  locking, validation, all-or-nothing bulk operations, soft and hard delete, hooks and attachments.
\<close>

section \<open>Save is one document write\<close>

lemma Save_Ok_write:
  assumes run: "Save env s opts (d, w) = (Ok u, (d', w'))" and hooks: "hooks_ok env"
    and rule: "linkRule (applyCRUDOpts opts) \<noteq> LinkWrite"
  shows "\<exists>col w0 w1. collectionForType env (doc_type d) = Inr col \<and> w_store w0 = w_store w
    \<and> writeDocCore env col (getID d = []) (getID d \<noteq> [] \<and> ignoreRevision (applyCRUDOpts opts)) (d, w0)
        = (Ok (), (d', w1)) \<and> w_store w' = w_store w1"
proof -
  from run obtain col where col: "collectionForType env (doc_type d) = Inr col"
    by (auto simp: Save_def with_collection_def split: sum.splits)
  show ?thesis
  proof (cases "getID d = []")
    case True
    with run col rule show ?thesis
      by (auto simp: Save_def with_collection_def insertCore_def Let_def)
  next
    case False
    let ?o = "applyCRUDOpts opts"
    have body: "updateBody env ?o col (d, v) = writeDocCore env col False (ignoreRevision ?o) (d, v)" for v
      using False rule by (simp add: updateBody_def)
    show ?thesis
    proof (cases "ci_UseRevision col \<and> \<not> ignoreRevision ?o \<and> \<not> scope_in_tx s")
      case True
      with run col False have "RunInTransaction (updateBody env ?o col) (d, w) = (Ok u, (d', w'))"
        by (simp add: Save_def with_collection_def updateCore_def Let_def runInWriteTx_eq)
      from RunInTransaction_Ok [OF this updateBody_neutral [OF hooks]] col False body
      show ?thesis by fastforce
    next
      case no_tx: False
      with run col False body have "writeDocCore env col False (ignoreRevision ?o) (d, w) = (Ok u, (d', w'))"
        by (auto simp: Save_def with_collection_def updateCore_def Let_def split: if_splits)
      with col False show ?thesis by auto
    qed
  qed
qed

lemma Save_Ok_stored:
  assumes run: "Save env s opts (d, w) = (Ok u, (d', w'))" and hooks: "hooks_ok env"
    and rule: "linkRule (applyCRUDOpts opts) \<noteq> LinkWrite"
  obtains col d1 where "collectionForType env (doc_type d) = Inr col"
    "stored env col d1 w w'" "id_rel d d1" "hook_rel d1 d'"
    "\<And>x. field_of d FieldID = Some (FStr x) \<Longrightarrow> getID d1 \<noteq> []"
    "no_hooks env \<Longrightarrow> d' = captureSnapshot (Document.encode d1) d1"
    "ci_UseRevision col \<Longrightarrow> getID d \<noteq> [] \<Longrightarrow> \<not> ignoreRevision (applyCRUDOpts opts) \<Longrightarrow>
       \<exists>j. st_get (w_store w) (col_name col) (getID d) = Some j \<and> decode_rev j = Inr (getRevision d)"
proof -
  from Save_Ok_write [OF run hooks rule] obtain col w0 w1 where
    c: "collectionForType env (doc_type d) = Inr col" "w_store w0 = w_store w" "w_store w' = w_store w1"
    and wr: "writeDocCore env col (getID d = []) (getID d \<noteq> [] \<and> ignoreRevision (applyCRUDOpts opts)) (d, w0)
        = (Ok (), (d', w1))" by blast
  note W = writeDocCore_result [OF wr hooks]
  then obtain d1 where d1: "stored env col d1 w0 w1" "id_rel d d1" "hook_rel d1 d'"
    "\<forall>s. field_of d FieldID = Some (FStr s) \<longrightarrow> getID d1 \<noteq> []"
    "no_hooks env \<longrightarrow> d' = captureSnapshot (Document.encode d1) d1"
    by auto
  have "stored env col d1 w w'" using d1(1) c(2,3) by (simp add: stored_def)
  with that [of col d1] c d1 W show ?thesis by auto
qed

lemma hook_rel_id [simp]: "hook_rel d d' \<Longrightarrow> getID d' = getID d"
  by (auto simp: hook_rel_def same_serverD)

section \<open>What a save stores\<close>

lemma save_stores_row:
  assumes "Save env s opts (d, w) = (Ok u, (d', w'))" "no_hooks env"
    and "linkRule (applyCRUDOpts opts) \<noteq> LinkWrite" "field_of d FieldID = Some (FStr x)"
    and "collectionForType env (doc_type d) = Inr col"
  shows "st_get (w_store w') c i = (if c = col_name col \<and> i = getID d'
           then Some (e_norm env (Document.encode d')) else st_get (w_store w) c i)
    \<and> getID d' \<noteq> [] \<and> (getID d \<noteq> [] \<longrightarrow> getID d' = getID d)"
proof -
  from Save_Ok_stored [OF assms(1) no_hooks_ok [OF assms(2)] assms(3)] assms(2,4,5)
  obtain d1 where d1: "stored env col d1 w w'" "id_rel d d1" "getID d1 \<noteq> []"
    "d' = captureSnapshot (Document.encode d1) d1" by (metis sum.inject(2))
  with stored_get [OF d1(1), of c i] show ?thesis
    by (auto simp: id_rel_def)
qed

text \<open>C2. A successful \<open>Save\<close> stores the document it leaves in memory, under its identifier, in the
  table of its collection, in the JSON form the database keeps, and changes no other row of any
  table; an identifier the document had is kept, a new one is not empty. (User hooks may change the
  document after it was stored, so this is stated without hooks; link fields are saved too only
  under the write rule.)\<close>

theorem save_stores_the_document:
  assumes "Save env s opts (d, w) = (Ok u, (d', w'))" "no_hooks env"
    and "linkRule (applyCRUDOpts opts) \<noteq> LinkWrite" "field_of d FieldID = Some (FStr x)"
    and "collectionForType env (doc_type d) = Inr col"
  shows "st_get (w_store w') c i = (if c = col_name col \<and> i = getID d'
           then Some (e_norm env (Document.encode d')) else st_get (w_store w) c i)
    \<and> getID d' \<noteq> [] \<and> (getID d \<noteq> [] \<longrightarrow> getID d' = getID d)"
  by (rule save_stores_row [OF assms])

lemma note_samples:
  "fst (Save (note_env True True) ScopeDB [] (note_doc [] [] ''a'' [], note_world [])) = Ok ()"
  "fst (Save (note_env True True) ScopeDB [] (note_doc ''k'' ''r1'' ''b'' [], note_world [note_doc ''k'' ''r1'' ''a'' []])) = Ok ()"
  by code_simp+

lemma note_col [simp]: "collectionForType (note_env withRev soft) ''Note'' = Inr (note_collection withRev soft)"
  by (cases withRev; cases soft) (simp, code_simp)+

lemma note_fields [simp]:
  "field_of (note_doc i v t l) FieldID = Some (FStr i)" "field_of (note_doc i v t l) FieldRev = Some (FStr v)"
  "field_of (note_doc i v t l) FieldDeletedAt = Some (FTimePtr None)" "getID (note_doc i v t l) = i"
  "getRevision (note_doc i v t l) = v" "distinct (map fst (doc_fields (note_doc i v t l)))"
  "doc_type (note_doc i v t l) = ''Note''"
  by (simp_all add: note_doc_def field_of_def getID_def getRevision_def string_field_def field_name_defs)

lemma note_env_simps [simp]:
  "no_hooks (note_env withRev soft)" "e_norm (note_env withRev soft) = (\<lambda>j. j)"
  "col_name (note_collection withRev soft) = ''note''" "ci_UseRevision (note_collection withRev soft) = withRev"
  "cm_HasSoftDelete (ci_meta (note_collection withRev soft)) = soft"
  "ci_HasValidateTags (note_collection withRev soft)"
  by (simp_all add: no_hooks_def note_env_def note_collection_def col_name_def)

lemma no_options [simp]:
  "linkRule (applyCRUDOpts []) = LinkIgnore" "\<not> ignoreRevision (applyCRUDOpts [])"
  "\<not> hardDelete (applyCRUDOpts [])"
  by (simp_all add: option_defs)

theorem save_stores_witness:
  "case Save (note_env True True) ScopeDB [] (note_doc [] [] ''a'' [], note_world []) of (r, (d', w')) \<Rightarrow>
     r = Ok () \<and> st_get (w_store w') ''note'' (getID d') = Some (Document.encode d') \<and> getID d' \<noteq> []"
proof -
  obtain r d' w' where run: "Save (note_env True True) ScopeDB [] (note_doc [] [] ''a'' [], note_world []) = (r, (d', w'))"
    by (metis prod_cases3)
  with note_samples(1) have "r = Ok ()" by simp
  with save_stores_the_document [OF run [unfolded this], where col = "note_collection True True"
      and c = "''note''" and i = "getID d'" and x = "[]"] run
  show ?thesis by simp
qed

section \<open>Optimistic locking\<close>

lemma runInWriteTx_not_ok:
  "runInWriteTx fn (d, w) = (r, (d', w')) \<Longrightarrow> tx_neutral fn \<Longrightarrow> \<not> is_ok r \<Longrightarrow> w_store w' = w_store w"
  by (simp add: runInWriteTx_eq RunInTransaction_result)


lemma is_ok_iff: "is_ok r \<longleftrightarrow> (\<exists>x. r = Ok x)"
  by (cases r) auto


section \<open>A stale writer\<close>

lemma map_of_filter_value:
  "distinct (map fst fs) \<Longrightarrow> map_of (filter (\<lambda>(k, v). P v) fs) k
     = (case map_of fs k of Some v \<Rightarrow> if P v then Some v else None | None \<Rightarrow> None)"
  by (induction fs) (auto split: option.splits simp: map_of_eq_None_iff image_iff)

lemma distinct_enc_fields: "distinct (map fst fs) \<Longrightarrow> distinct (map fst (enc_fields fs))"
proof -
  have "map fst (enc_fields fs) = map fst (filter (\<lambda>(n, oe, v). \<not> (oe \<and> is_empty v)) fs)"
    by (simp add: enc_fields_def split_def comp_def)
  then show "distinct (map fst fs) \<Longrightarrow> ?thesis" by (simp add: distinct_map_filter)
qed

lemma map_of_enc_None: "n \<notin> fst ` set fs \<Longrightarrow> map_of (enc_fields fs) n = None"
  by (force simp: enc_fields_def map_of_eq_None_iff)

lemma map_of_enc_fields:
  "distinct (map fst fs) \<Longrightarrow> map_of (enc_fields fs) n = (case map_of fs n of
      Some (oe, v) \<Rightarrow> if oe \<and> is_empty v then None else Some (enc_field v) | None \<Rightarrow> None)"
proof (induction fs)
  case (Cons f fs)
  obtain k oe v where f: "f = (k, oe, v)" by (metis prod_cases3)
  have "enc_fields (f # fs) = (if oe \<and> is_empty v then enc_fields fs else (k, enc_field v) # enc_fields fs)"
    by (simp add: f enc_fields_def)
  with Cons map_of_enc_None [of k fs] show ?case by (auto simp: f)
qed (simp add: enc_fields_def)

lemma map_of_rev: "distinct (map fst xs) \<Longrightarrow> map_of (rev xs) = map_of xs"
  by (metis map_of_inject_set distinct_rev rev_map set_rev)

lemma decode_rev_encode:
  assumes dist: "distinct (map fst (doc_fields d))" and f: "field_of d FieldRev = Some (FStr s)"
  shows "decode_rev (Document.encode d) = Inr s"
proof -
  obtain oe where m: "map_of (doc_fields d) FieldRev = Some (oe, FStr s)"
    using f by (auto simp: field_of_def)
  let ?ms = "enc_fields (doc_fields d)"
  have dm: "distinct (map fst ?ms)" by (rule distinct_enc_fields [OF dist])
  have e: "map_of ?ms FieldRev = (if oe \<and> s = [] then None else Some (JStr s))"
    using map_of_enc_fields [OF dist] m by simp
  have dm2: "distinct (map fst (filter (\<lambda>(k, v). v \<noteq> JNull) ?ms))"
    using dm by (simp add: distinct_map_filter)
  have "\<not> list_ex (\<lambda>(k, v). k = FieldRev \<and> (case v of JStr _ \<Rightarrow> False | JNull \<Rightarrow> False | _ \<Rightarrow> True)) ?ms"
    using e map_of_is_SomeI [OF dm] by (auto simp: list_ex_iff split: if_splits)
  moreover have "map_of (rev (filter (\<lambda>(k, v). v \<noteq> JNull) ?ms)) FieldRev
      = (if oe \<and> s = [] then None else Some (JStr s))"
    using e by (simp add: map_of_rev [OF dm2] map_of_filter_value [OF dm])
  ultimately show ?thesis by (auto simp: Document.encode_def)
qed

lemma no_hooks_prepersist:
  assumes "no_hooks env" "ci_HasValidateTags col \<longrightarrow> validate_Document (e_validate env) d = None"
  shows "runPrePersistHooks env col ins (d, w) = (Ok (), (d, w))"
  using assms
  by (auto simp: runPrePersistHooks_def no_hooks_def runBeforeInsertHooks_def runBeforeUpdateHooks_def
      runHook_def runValidationHooks_def validate_tags_def bindP_def map_err_def)

lemma no_fault [simp]: "w_faults w = [] \<Longrightarrow> fault w = (Ok (), w)"
  by (simp add: fault_def)

lemma stale_write:
  assumes "no_hooks env" "ci_HasValidateTags col \<longrightarrow> validate_Document (e_validate env) d = None"
    and "ci_UseRevision col" "getID d \<noteq> []" "w_faults w = []"
    and "st_get (w_store w) (col_name col) (getID d) = Some j" "decode_rev j = Inr s" "s \<noteq> getRevision d"
  shows "writeDocCore env col False False (d, w) = (Err (Sent ErrRevisionConflict), (d, w))"
  using assms
  by (auto simp: writeDocCore_def bindP_def no_hooks_prepersist checkAndUpdateRevision_def
      check_stored_revision_def on_snd_def be_Get_def st_get_def split: option.splits)

lemma RunInTransaction_Err:
  assumes "w_faults w = []" "w_saved w = None"
    and "fn (d, w\<lparr>w_saved := Some (w_store w)\<rparr>) = (Err e, (d', w\<lparr>w_saved := Some (w_store w)\<rparr>))"
  shows "RunInTransaction fn (d, w) = (Err e, (d', w))"
  using assms
  by (simp add: RunInTransaction_def bindP_def map_err_def on_snd_def be_Begin_def finish_tx_def
      be_Rollback_def close_tx_def)

text \<open>No lost update. Two copies of a document are loaded at the same revision; once one of them
  has been saved, saving the other one reports \<open>ErrRevisionConflict\<close> and leaves the store as the
  first writer left it, and the second copy as it was.\<close>

theorem stale_save_is_refused:
  assumes first: "Save env s opts (d1, w) = (Ok u, (d1', w1))" and hooks: "no_hooks env"
    and second: "Save env ScopeDB [] (d2, w1) = (r, (d2', w2))"
    and same: "getID d2 = getID d1" "getRevision d2 = getRevision d1" "doc_type d2 = doc_type d1" "getID d1 \<noteq> []"
    and col: "collectionForType env (doc_type d1) = Inr col" "ci_UseRevision col"
    and rule: "linkRule (applyCRUDOpts opts) \<noteq> LinkWrite"
    and shape: "distinct (map fst (doc_fields d1))" "field_of d1 FieldRev = Some (FStr v)"
    and fresh: "getRevision d1' \<noteq> getRevision d1"
    and db: "decode_rev (e_norm env (Document.encode d1')) = decode_rev (Document.encode d1')"
    and calm: "w_faults w1 = []" "w_saved w1 = None"
    and valid: "validate_Document (e_validate env) d2 = None"
  shows "r = Err (Sent ErrRevisionConflict) \<and> w_store w2 = w_store w1 \<and> d2' = d2"
proof -
  from Save_Ok_stored [OF first no_hooks_ok [OF hooks] rule] hooks col
  obtain dd where dd: "stored env col dd w w1" "id_rel d1 dd" "d1' = captureSnapshot (Document.encode dd) dd"
    by (metis sum.inject(2))
  from dd same have id: "getID d1' = getID d1" by (simp add: id_rel_def)
  from dd shape have dist: "distinct (map fst (doc_fields d1'))" by (simp add: id_rel_def same_shape_def)
  from dd(2) shape(2) obtain t where "field_of d1' FieldRev = Some (FStr t)"
    by (auto simp: id_rel_def dd(3))
  with decode_rev_encode [OF dist this] db have rv: "decode_rev (e_norm env (Document.encode d1')) = Inr (getRevision d1')"
    by (simp add: getRevision_def string_field_def)
  let ?w = "w1\<lparr>w_saved := Some (w_store w1)\<rparr>"
  have st: "st_get (w_store ?w) (col_name col) (getID d2) = Some (e_norm env (Document.encode d1'))"
    using stored_get [OF dd(1)] dd(3) id same by simp
  have "writeDocCore env col False False (d2, ?w) = (Err (Sent ErrRevisionConflict), (d2, ?w))"
    by (rule stale_write [OF hooks _ col(2) _ _ st rv]) (use col same fresh calm valid rv in auto)
  then have "updateBody env (applyCRUDOpts []) col (d2, ?w) = (Err (Sent ErrRevisionConflict), (d2, ?w))"
    using same by (simp add: updateBody_def)
  from RunInTransaction_Err [of w1 "updateBody env (applyCRUDOpts []) col" d2, OF calm this] second same col show ?thesis
    by (simp add: Save_def with_collection_def updateCore_def Let_def runInWriteTx_eq scope_in_tx_def)
qed

lemma stale_samples:
  "case Save (note_env True True) ScopeDB [] (note_doc ''k'' ''r1'' ''b'' [], note_world [note_doc ''k'' ''r1'' ''a'' []])
     of (r, (d', w')) \<Rightarrow> r = Ok () \<and> getRevision d' = ''0001020304050607'' \<and> w_faults w' = [] \<and> w_saved w' = None"
  "validate_Document (e_validate (note_env True True)) (note_doc ''k'' ''r1'' ''c'' []) = None"
  by code_simp+

theorem stale_save_witness:
  "case Save (note_env True True) ScopeDB [] (note_doc ''k'' ''r1'' ''b'' [], note_world [note_doc ''k'' ''r1'' ''a'' []])
     of (r, (d1', w1)) \<Rightarrow> fst (Save (note_env True True) ScopeDB [] (note_doc ''k'' ''r1'' ''c'' [], w1))
       = Err (Sent ErrRevisionConflict)"
proof -
  let ?w = "note_world [note_doc ''k'' ''r1'' ''a'' []]"
  obtain r d1' w1 where run: "Save (note_env True True) ScopeDB [] (note_doc ''k'' ''r1'' ''b'' [], ?w) = (r, (d1', w1))"
    by (metis prod_cases3)
  obtain q d2' w2 where run2: "Save (note_env True True) ScopeDB [] (note_doc ''k'' ''r1'' ''c'' [], w1) = (q, (d2', w2))"
    by (metis prod_cases3)
  have s: "r = Ok ()" "getRevision d1' = ''0001020304050607''" "w_faults w1 = []" "w_saved w1 = None"
    using stale_samples(1) run by simp_all
  have "q = Err (Sent ErrRevisionConflict) \<and> w_store w2 = w_store w1 \<and> d2' = note_doc ''k'' ''r1'' ''c'' []"
    by (rule stale_save_is_refused [OF run [unfolded s(1)] _ run2, where col = "note_collection True True" and v = "''r1''"])
       (use s stale_samples(2) in simp_all)
  with run run2 show ?thesis by simp
qed

section \<open>Validation\<close>

text \<open>A document of a type with validation tags that the validator rejects is never stored: the
  save reports an error and the store stays as it was; where the save needs no transaction of its
  own, the error is \<open>ErrValidation\<close> wrapping the one the validator reported.\<close>

theorem invalid_document_is_not_stored:
  assumes run: "Save env s opts (d, w) = (r, (d', w'))" and hooks: "no_hooks env"
    and col: "collectionForType env (doc_type d) = Inr col" "ci_HasValidateTags col"
    and bad: "validate_Document (e_validate env) d = Some e"
    and rule: "linkRule (applyCRUDOpts opts) \<noteq> LinkWrite"
  shows "\<not> is_ok r \<and> w_store w' = w_store w
    \<and> (s = ScopeTx \<or> getID d = [] \<longrightarrow> r = Err (Wrap [] [Sent ErrValidation, e]) \<and> w' = w \<and> d' = d)"
proof -
  let ?o = "applyCRUDOpts opts"
  have pre: "runPrePersistHooks env col ins (d, v) = (Err (Wrap [] [Sent ErrValidation, e]), (d, v))" for ins v
    using hooks col(2) bad
    by (cases ins)
       (simp_all add: runPrePersistHooks_def no_hooks_def runBeforeInsertHooks_def runBeforeUpdateHooks_def
      runHook_def validate_tags_def bindP_def)
  then have wr: "writeDocCore env col ins ign (d, v) = (Err (Wrap [] [Sent ErrValidation, e]), (d, v))" for ins ign v
    by (simp add: writeDocCore_def bindP_def)
  show ?thesis
  proof (cases "getID d \<noteq> [] \<and> ci_UseRevision col \<and> \<not> ignoreRevision ?o \<and> s = ScopeDB")
    case True
    then have tx: "RunInTransaction (updateBody env ?o col) (d, w) = (r, (d', w'))"
      using run col(1)
      by (simp add: Save_def with_collection_def updateCore_def Let_def runInWriteTx_eq scope_in_tx_def)
    have body: "updateBody env ?o col (d, v) = (Err (Wrap [] [Sent ErrValidation, e]), (d, v))" for v
      using True rule wr by (simp add: updateBody_def)
    have "\<not> is_ok r"
      using tx body RunInTransaction_Ok [OF _ updateBody_neutral [OF no_hooks_ok [OF hooks]]]
      by (cases r) fastforce+
    with RunInTransaction_result [OF tx updateBody_neutral [OF no_hooks_ok [OF hooks]]] True
    show ?thesis by simp
  next
    case False
    then have "r = Err (Wrap [] [Sent ErrValidation, e]) \<and> w' = w \<and> d' = d"
      using run col(1) rule wr
      by (cases s)
         (auto simp: Save_def with_collection_def updateCore_def insertCore_def Let_def updateBody_def
          scope_in_tx_def split: if_splits)
    then show ?thesis by simp
  qed
qed

lemma invalid_sample:
  "validate_Document (e_validate (note_env True True)) (note_doc [] [] [] []) \<noteq> None"
  by code_simp

theorem invalid_document_witness:
  "case Save (note_env True True) ScopeDB [] (note_doc [] [] [] [], note_world []) of
     (r, (d', w')) \<Rightarrow> \<not> is_ok r \<and> w' = note_world []"
proof -
  obtain r d' w' where run: "Save (note_env True True) ScopeDB [] (note_doc [] [] [] [], note_world []) = (r, (d', w'))"
    by (metis prod_cases3)
  obtain e where e: "validate_Document (e_validate (note_env True True)) (note_doc [] [] [] []) = Some e"
    using invalid_sample by blast
  from invalid_document_is_not_stored [OF run _ _ _ e, of "note_collection True True"] run
  show ?thesis by simp
qed

end
