(* ===== verification/Bulk_Properties.thy ===== *)
theory Bulk_Properties
  imports Crud_Properties
begin

text \<open>
  Transactions and bulk operations: a transaction whose body does not return leaves the store as it
  was, \<open>SaveAll\<close> and \<open>DeleteAll\<close> are all-or-nothing, and a successful \<open>SaveAll\<close> stores every
  document of the slice.
\<close>

section \<open>Transactions\<close>

text \<open>C1. \<open>RunInTransaction\<close> is atomic. Whatever its body does, unless it returns without an error
  and the commit succeeds, the store is the one before the call; in every case, a panicking body
  and failing commits and rollbacks included, no transaction stays open. And when it returns a
  value, the store is the one the body left.\<close>

theorem transactions_are_atomic:
  assumes run: "RunInTransaction fn (d, w) = (r, (d', w'))" and body: "tx_neutral fn"
  shows "w_saved w' = w_saved w \<and> (\<not> is_ok r \<longrightarrow> w_store w' = w_store w)
    \<and> (is_ok r \<longrightarrow> (\<exists>w0 w1. w_store w0 = w_store w \<and> fn (d, w0) = (r, (d', w1)) \<and> w_store w' = w_store w1))"
proof -
  have "\<exists>w0 w1. w_store w0 = w_store w \<and> fn (d, w0) = (r, (d', w1)) \<and> w_store w' = w_store w1"
    if "is_ok r"
    using that run RunInTransaction_Ok [OF _ body] by (cases r) fastforce+
  with RunInTransaction_result [OF run body] show ?thesis by blast
qed

text \<open>A body that stores a row and then panics.\<close>

definition put_then_panic :: "(unit, unit) op" where
  "put_then_panic = bindP (on_snd (be_Put (note_env True True) ''note'' ''k'' JNull)) (\<lambda>_. panicP ''boom'')"

theorem transactions_are_atomic_witness:
  "case RunInTransaction put_then_panic ((), note_world []) of (r, (d', w')) \<Rightarrow>
     r = Panic ''boom'' \<and> w_store w' = note_store [] \<and> w_saved w' = None"
proof -
  obtain r d' w' where run: "RunInTransaction put_then_panic ((), note_world []) = (r, (d', w'))"
    by (metis prod_cases3)
  have "tx_neutral put_then_panic"
    unfolding put_then_panic_def by (intro neutral)
  moreover have "fst (RunInTransaction put_then_panic ((), note_world [])) = Panic ''boom''" by code_simp
  ultimately show ?thesis
    using transactions_are_atomic [OF run] run by (simp add: note_world_def initial_world_def)
qed

section \<open>All or nothing\<close>

text \<open>C4. \<open>SaveAll\<close> and \<open>DeleteAll\<close> called on the database are all-or-nothing: when one of the
  documents fails, by an error of the engine, of the backend or of a hook, by a cancelled context or
  by a panic, none of the documents before it is stored or deleted either.\<close>

theorem bulk_operations_are_atomic:
  assumes bulk: "bulk = SaveAll env ScopeDB opts \<or> bulk = DeleteAll env ScopeDB opts"
    and hooks: "hooks_ok env" and run: "bulk (ds, w) = (r, (ds', w'))"
  shows "w_saved w' = w_saved w \<and> (\<not> is_ok r \<longrightarrow> w_store w' = w_store w)"
proof -
  have "tx_neutral (each_doc_op ''save'' (Save env ScopeTx opts))"
    "tx_neutral (each_doc_op ''delete'' (Delete env ScopeTx opts))"
    by (simp_all add: each_doc_neutral Save_neutral Delete_neutral hooks)
  with bulk run RunInTransaction_result show ?thesis
    by (fastforce simp: SaveAll_def DeleteAll_def runOnScopeVoid_def split: if_splits)
qed

theorem bulk_atomic_witness:
  "case SaveAll (note_env True True) ScopeDB [] ([note_doc [] [] ''a'' [], note_doc ''k'' ''r0'' ''b'' []],
      note_world [note_doc ''k'' ''r1'' ''c'' []]) of
     (r, (ds', w')) \<Rightarrow> \<not> is_ok r \<and> w_store w' = note_store [note_doc ''k'' ''r1'' ''c'' []]"
proof -
  let ?run = "SaveAll (note_env True True) ScopeDB [] ([note_doc [] [] ''a'' [], note_doc ''k'' ''r0'' ''b'' []],
      note_world [note_doc ''k'' ''r1'' ''c'' []])"
  obtain r ds' w' where run: "?run = (r, (ds', w'))" by (metis prod_cases3)
  moreover have "\<not> is_ok (fst ?run)" by code_simp
  ultimately show ?thesis
    using bulk_operations_are_atomic [OF disjI1 [OF refl] _ run] no_hooks_ok
    by (simp add: note_world_def initial_world_def)
qed

section \<open>Every document of the slice\<close>

definition row_of :: "env \<Rightarrow> store \<Rightarrow> doc \<Rightarrow> json option" where
  "row_of env st d = (case collectionForType env (doc_type d) of
      Inl e \<Rightarrow> None | Inr col \<Rightarrow> st_get st (col_name col) (getID d))"

definition row_key :: "env \<Rightarrow> doc \<Rightarrow> string \<times> string" where
  "row_key env d = (case collectionForType env (doc_type d) of
      Inl e \<Rightarrow> ([], []) | Inr col \<Rightarrow> (col_name col, getID d))"

lemma each_save_Ok:
  assumes "no_hooks env" "linkRule (applyCRUDOpts opts) \<noteq> LinkWrite"
  shows "each_doc what (Save env s opts) i ds w = (Ok u, ds', w') \<Longrightarrow>
    list_all (\<lambda>d. \<exists>x. field_of d FieldID = Some (FStr x)) ds \<Longrightarrow> distinct (map (row_key env) ds') \<Longrightarrow>
    length ds' = length ds \<and> list_all (\<lambda>d. row_of env (w_store w') d = Some (e_norm env (Document.encode d))) ds'
    \<and> (\<forall>c k. (c, k) \<notin> row_key env ` set ds' \<longrightarrow> st_get (w_store w') c k = st_get (w_store w) c k)"
proof (induction ds arbitrary: i w ds' w')
  case (Cons d ds)
  obtain q w1 where c: "ctx_err w = (q, w1)" by fastforce
  obtain p d2 w2 where f: "Save env s opts (d, w1) = (p, (d2, w2))" by (metis prod_cases3)
  obtain t ds3 w3 where e: "each_doc what (Save env s opts) (Suc i) ds w2 = (t, ds3, w3)" by (metis prod_cases3)
  from Cons.prems(1) c f e obtain u1 where ok: "p = Ok u1" "t = Ok u" "ds' = d2 # ds3" "w' = w3"
    by (cases q; cases p) auto
  have S1: "w_store w1 = w_store w" using ctx_quiet [OF c] by simp
  from Cons.prems(2) obtain x where x: "field_of d FieldID = Some (FStr x)" by auto
  from Save_Ok_stored [OF f [unfolded ok(1)] no_hooks_ok [OF assms(1)] assms(2)] assms(1)
  obtain col d1 where d1: "collectionForType env (doc_type d) = Inr col" "stored env col d1 w1 w2"
    "id_rel d d1" "d2 = captureSnapshot (Document.encode d1) d1" by metis
  have ty: "doc_type d2 = doc_type d" using d1(3,4) by (simp add: id_rel_def same_shape_def)
  have key: "row_key env d2 = (col_name col, getID d1)" using d1 ty by (simp add: row_key_def)
  have IH: "length ds3 = length ds"
    "list_all (\<lambda>d. row_of env (w_store w3) d = Some (e_norm env (Document.encode d))) ds3"
    "\<And>c k. (c, k) \<notin> row_key env ` set ds3 \<Longrightarrow> st_get (w_store w3) c k = st_get (w_store w2) c k"
    using Cons.IH [OF e [unfolded ok(2)]] Cons.prems(2,3) ok(3) by auto
  have "row_of env (w_store w3) d2 = Some (e_norm env (Document.encode d2))"
    using IH(3) [of "col_name col" "getID d1"] stored_get [OF d1(2)] Cons.prems(3) ok(3) key d1 ty
    by (simp add: row_of_def)
  then show ?case
    using IH stored_get [OF d1(2)] key S1 ok(3,4) by auto
qed auto

text \<open>A successful \<open>SaveAll\<close> stores every document of the slice: afterwards the row of each
  document it leaves in memory is that document's encoding, all of them have been kept, and every
  row that belongs to none of them is as before. (The documents are told apart by collection and
  identifier.)\<close>

theorem save_all_stores_every_document:
  assumes run: "SaveAll env s opts (ds, w) = (Ok u, (ds', w'))" and hooks: "no_hooks env"
    and rule: "linkRule (applyCRUDOpts opts) \<noteq> LinkWrite"
    and ids: "list_all (\<lambda>d. \<exists>x. field_of d FieldID = Some (FStr x)) ds" "distinct (map (row_key env) ds')"
  shows "length ds' = length ds
    \<and> list_all (\<lambda>d. row_of env (w_store w') d = Some (e_norm env (Document.encode d))) ds'
    \<and> (\<forall>c k. (c, k) \<notin> row_key env ` set ds' \<longrightarrow> st_get (w_store w') c k = st_get (w_store w) c k)"
proof (cases "ds = []")
  case True
  with run show ?thesis by (auto simp: SaveAll_def)
next
  case False
  let ?body = "each_doc_op ''save'' (Save env ScopeTx opts)"
  have neutral: "tx_neutral ?body" by (simp add: each_doc_neutral Save_neutral no_hooks_ok hooks)
  obtain w0 w1 where w: "w_store w0 = w_store w" "?body (ds, w0) = (Ok u, (ds', w1))" "w_store w' = w_store w1"
  proof (cases s)
    case ScopeDB
    with run False have "RunInTransaction ?body (ds, w) = (Ok u, (ds', w'))"
      by (simp add: SaveAll_def runOnScopeVoid_def)
    from RunInTransaction_Ok [OF this neutral] that show ?thesis by blast
  next
    case ScopeTx
    with run False that show ?thesis by (simp add: SaveAll_def runOnScopeVoid_def)
  qed
  then have "each_doc ''save'' (Save env ScopeTx opts) 0 ds w0 = (Ok u, ds', w1)"
    by (auto simp: each_doc_op_def split: prod.splits)
  from each_save_Ok [OF hooks rule this ids] w show ?thesis by simp
qed

theorem save_all_stores_witness:
  "case SaveAll (note_env True True) ScopeDB [] ([note_doc [] [] ''a'' [], note_doc ''k'' ''r1'' ''b'' []],
      note_world [note_doc ''k'' ''r1'' ''c'' []]) of
     (r, (ds', w')) \<Rightarrow> r = Ok () \<and> length ds' = 2
       \<and> list_all (\<lambda>d. row_of (note_env True True) (w_store w') d = Some (Document.encode d)) ds'"
proof -
  let ?run = "SaveAll (note_env True True) ScopeDB [] ([note_doc [] [] ''a'' [], note_doc ''k'' ''r1'' ''b'' []],
      note_world [note_doc ''k'' ''r1'' ''c'' []])"
  obtain r ds' w' where run: "?run = (r, (ds', w'))" by (metis prod_cases3)
  have "case ?run of (r, (ds', w')) \<Rightarrow> r = Ok () \<and> distinct (map (row_key (note_env True True)) ds')"
    by code_simp
  with run have "r = Ok ()" "distinct (map (row_key (note_env True True)) ds')" by simp_all
  with save_all_stores_every_document [OF run [unfolded this(1)]] run show ?thesis by simp
qed

end
