(* ===== verification/Delete_Properties.thy ===== *)
theory Delete_Properties
  imports Crud_Properties
begin

text \<open>
  Deletion: a soft delete keeps the row and marks it, a hard delete removes exactly the row of the
  document; hard deletes and the attachments they hand over; the order of the user hooks, and what an after-hook that
  fails leaves behind.
\<close>

section \<open>Soft delete\<close>

definition soft_rel :: "doc \<Rightarrow> doc \<Rightarrow> bool" where
  "soft_rel d d' \<longleftrightarrow> same_shape d d' \<and> list_all (\<lambda>n. n \<in> {FieldRev, FieldDeletedAt, FieldDeletedBy, FieldDeleteReason}
       \<or> field_of d' n = field_of d n) (map fst (doc_fields d)) \<and> getID d' = getID d"

lemma audit_names [simp]: "FieldDeleteReason \<noteq> FieldDeletedBy"
  by (simp add: field_name_defs)

lemma soft_audit_fields:
  "field_of (setSoftDeleteAuditFields a b d) n
     = (if n = FieldDeletedBy \<and> a \<noteq> [] \<and> field_of d n \<noteq> None then Some (FStr a)
        else if n = FieldDeleteReason \<and> b \<noteq> [] \<and> field_of d n \<noteq> None then Some (FStr b) else field_of d n)"
  by (auto simp: setSoftDeleteAuditFields_def field_of_set_field Let_def)

lemma soft_deleted_at:
  "field_of (setSoftDeletedAt t d) n = (if n = FieldDeletedAt \<and> field_of d n \<noteq> None then Some (FTimePtr t) else field_of d n)"
  by (auto simp: setSoftDeletedAt_def field_of_set_field)

lemma soft_shapes [simp]:
  "same_shape e (setSoftDeletedAt t d) = same_shape e d" "same_shape e (setSoftDeleteAuditFields a b d) = same_shape e d"
  by (simp_all add: setSoftDeletedAt_def setSoftDeleteAuditFields_def Let_def)

lemma field_of_setRevision:
  "field_of (setRevision x d) n = (if n = FieldRev \<and> field_of d n \<noteq> None then Some (FStr x) else field_of d n)"
  by (auto simp: setRevision_def field_of_set_field)

lemma checkAndUpdateRevision_doc:
  assumes "checkAndUpdateRevision col ign (d, w) = (r, (d', w'))"
  shows "d' = d \<or> (\<exists>x. d' = setRevision x d)"
proof (cases "ci_UseRevision col \<and> \<not> ign \<and> getID d \<noteq> []")
  case True
  obtain q d1 w1 where chk: "check_stored_revision col (d, w) = (q, (d1, w1))" by (metis prod_cases3)
  show ?thesis
    using assms chk True check_stored_revision_result [OF chk]
    by (cases q) (auto simp: checkAndUpdateRevision_def bindP_def dest: set_new_revision_result)
next
  case False
  with assms show ?thesis
    by (auto simp: checkAndUpdateRevision_def bindP_def dest: set_new_revision_result split: if_splits)
qed

lemma softDeleteBody_result:
  assumes run: "softDeleteBody env col o' (d, w) = (r, (d', w'))"
  shows "is_ok r \<longrightarrow> stored env col d' w w' \<and> soft_rel d d'
      \<and> (field_of d FieldDeletedAt \<noteq> None \<longrightarrow> IsDeleted d')
      \<and> (ci_UseRevision col \<and> \<not> ignoreRevision o' \<and> getID d \<noteq> [] \<longrightarrow>
          (\<exists>j. st_get (w_store w) (col_name col) (getID d) = Some j \<and> decode_rev j = Inr (getRevision d)))"
    "\<not> is_ok r \<longrightarrow> w_store w' = w_store w"
proof -
  obtain q1 d1 w1 where c: "checkAndUpdateRevision col (ignoreRevision o') (d, w) = (q1, (d1, w1))" by (metis prod_cases3)
  obtain now w2 where t: "time_now env w1 = (Ok now, w2)" by (simp add: time_now_def)
  let ?d = "setSoftDeleteAuditFields (softDeleteBy o') (softDeleteReason o') (setSoftDeletedAt (Some now) d1)"
  obtain q2 d2 w3 where p: "put_document env col (?d, w2) = (q2, (d2, w3))" by (metis prod_cases3)
  note C = checkAndUpdateRevision_result [OF c]
  note T = clock_quiet(1) [OF t]
  note P = put_document_result [OF p]
  have shape: "same_shape d ?d" using C by (simp add: id_rel_def)
  have d1: "field_of d1 n = field_of d n" if "n \<noteq> FieldRev" for n
    using checkAndUpdateRevision_doc [OF c] that by (auto simp: field_of_setRevision)
  have fs: "field_of ?d n = field_of d n" if "n \<notin> {FieldRev, FieldDeletedAt, FieldDeletedBy, FieldDeleteReason}" for n
    using that d1 by (simp add: soft_audit_fields soft_deleted_at)
  have id: "getID ?d = getID d" using fs [of FieldID] by (simp add: getID_def string_field_def)
  have del: "field_of d FieldDeletedAt \<noteq> None \<longrightarrow> IsDeleted ?d"
    using d1 [of FieldDeletedAt] by (simp add: IsDeleted_def soft_audit_fields soft_deleted_at)
  show "is_ok r \<longrightarrow> stored env col d' w w' \<and> soft_rel d d'
      \<and> (field_of d FieldDeletedAt \<noteq> None \<longrightarrow> IsDeleted d')
      \<and> (ci_UseRevision col \<and> \<not> ignoreRevision o' \<and> getID d \<noteq> [] \<longrightarrow>
          (\<exists>j. st_get (w_store w) (col_name col) (getID d) = Some j \<and> decode_rev j = Inr (getRevision d)))"
  proof
    assume "is_ok r"
    with run c t p have ok: "is_ok q1" "is_ok q2" "d' = d2" "w' = w3"
      by (cases q1; cases q2; auto simp: softDeleteBody_def bindP_def on_snd_def)+
    then have d': "d' = captureSnapshot (Document.encode ?d) ?d" using P by simp
    have "soft_rel d d'" using shape fs id by (auto simp: soft_rel_def d' list_all_iff)
    moreover have "stored env col d' w w'" using P ok C T by (simp add: stored_def d')
    moreover have "field_of d FieldDeletedAt \<noteq> None \<longrightarrow> IsDeleted d'" using del by (simp add: IsDeleted_def d')
    ultimately show "stored env col d' w w' \<and> soft_rel d d'
      \<and> (field_of d FieldDeletedAt \<noteq> None \<longrightarrow> IsDeleted d')
      \<and> (ci_UseRevision col \<and> \<not> ignoreRevision o' \<and> getID d \<noteq> [] \<longrightarrow>
          (\<exists>j. st_get (w_store w) (col_name col) (getID d) = Some j \<and> decode_rev j = Inr (getRevision d)))"
      using C ok(1) by auto
  qed
  show "\<not> is_ok r \<longrightarrow> w_store w' = w_store w"
    using run c t p C T P
    by (cases q1; cases q2) (auto simp: softDeleteBody_def bindP_def on_snd_def)
qed

lemma softDelete_Ok:
  assumes run: "softDelete env in_tx col o' (d, w) = (Ok u, (d', w'))"
  shows "stored env col d' w w' \<and> soft_rel d d' \<and> (field_of d FieldDeletedAt \<noteq> None \<longrightarrow> IsDeleted d')
      \<and> (ci_UseRevision col \<and> \<not> ignoreRevision o' \<and> getID d \<noteq> [] \<longrightarrow>
          (\<exists>j. st_get (w_store w) (col_name col) (getID d) = Some j \<and> decode_rev j = Inr (getRevision d)))"
proof (cases "ci_UseRevision col \<and> \<not> ignoreRevision o' \<and> \<not> in_tx")
  case True
  with run have tx: "RunInTransaction (softDeleteBody env col o') (d, w) = (Ok u, (d', w'))"
    by (simp add: softDelete_def runInWriteTx_eq)
  have "tx_neutral (softDeleteBody env col o')"
    unfolding softDeleteBody_def by (intro neutral checkRevision_neutral put_document_neutral) simp_all
  from RunInTransaction_Ok [OF tx this] obtain w0 w1 where
    w: "w_store w0 = w_store w" "softDeleteBody env col o' (d, w0) = (Ok u, (d', w1))" "w_store w' = w_store w1"
    by blast
  from softDeleteBody_result(1) [OF w(2)] w(1,3) show ?thesis by (simp add: stored_def)
next
  case False
  with run have "softDeleteBody env col o' (d, w) = (Ok u, (d', w'))" by (auto simp: softDelete_def)
  from softDeleteBody_result(1) [OF this] show ?thesis by simp
qed

lemma runHook_none [simp]: "no_hooks env \<Longrightarrow> runHook env k = returnP ()"
  by (auto simp: no_hooks_def runHook_def fun_eq_iff)

lemma Delete_Ok_core:
  assumes run: "Delete env s opts (d, w) = (Ok u, (d', w'))" and hooks: "no_hooks env"
    and rule: "linkRule (applyCRUDOpts opts) \<noteq> LinkDelete"
    and col: "collectionForType env (doc_type d) = Inr col"
  shows "deleteDocCore env (scope_in_tx s) col (applyCRUDOpts opts) (d, w) = (Ok u, (d', w')) \<and> getID d \<noteq> []"
  using assms by (auto simp: Delete_def deleteCore_def Let_def with_collection_def split: if_splits)

text \<open>C5. Deleting a document of a soft-delete type (without \<open>HardDelete\<close>) keeps its row: afterwards
  the row holds the document as it is left in memory, marked deleted, with every field other than the
  revision and the three soft-delete fields as it was; no other row changes; and on a revisioned
  collection it succeeds only on the revision the document was loaded with.\<close>

theorem soft_delete_keeps_the_row:
  assumes run: "Delete env s opts (d, w) = (Ok u, (d', w'))" and hooks: "no_hooks env"
    and rule: "linkRule (applyCRUDOpts opts) \<noteq> LinkDelete"
    and col: "collectionForType env (doc_type d) = Inr col"
    and soft: "cm_HasSoftDelete (ci_meta col)" "\<not> hardDelete (applyCRUDOpts opts)" "field_of d FieldDeletedAt \<noteq> None"
  shows "st_get (w_store w') c i = (if c = col_name col \<and> i = getID d
             then Some (e_norm env (Document.encode d')) else st_get (w_store w) c i)
    \<and> IsDeleted d' \<and> soft_rel d d'
    \<and> (ci_UseRevision col \<and> \<not> ignoreRevision (applyCRUDOpts opts) \<longrightarrow>
          (\<exists>j. st_get (w_store w) (col_name col) (getID d) = Some j \<and> decode_rev j = Inr (getRevision d)))"
proof -
  from Delete_Ok_core [OF run hooks rule col] soft hooks
  have "softDelete env (scope_in_tx s) col (applyCRUDOpts opts) (d, w) = (Ok u, (d', w'))" "getID d \<noteq> []"
    by (auto simp: deleteDocCore_def bindP_def split: prod.splits outcome.splits)
  with softDelete_Ok [OF this(1)] soft(3) stored_get [of env col d' w w' c i] show ?thesis
    by (auto simp: soft_rel_def)
qed

theorem soft_delete_witness:
  "case Delete (note_env True True) ScopeDB [] (note_doc ''k'' ''r1'' ''a'' [], note_world [note_doc ''k'' ''r1'' ''a'' []])
     of (r, (d', w')) \<Rightarrow> r = Ok () \<and> IsDeleted d' \<and> st_get (w_store w') ''note'' ''k'' = Some (Document.encode d')"
proof -
  let ?run = "Delete (note_env True True) ScopeDB [] (note_doc ''k'' ''r1'' ''a'' [], note_world [note_doc ''k'' ''r1'' ''a'' []])"
  obtain r d' w' where run: "?run = (r, (d', w'))" by (metis prod_cases3)
  moreover have "fst ?run = Ok ()" by code_simp
  ultimately have ok: "r = Ok ()" by simp
  from soft_delete_keeps_the_row [OF run [unfolded ok], of "note_collection True True" "''note''" "''k''"] ok run
  show ?thesis by simp
qed

section \<open>Hard delete and attachments\<close>

lemma be_Delete_result:
  assumes "be_Delete c i w = (r, w')"
  shows "(is_ok r \<longrightarrow> has_table (w_store w) c \<and> w_store w' = st_delete c i (w_store w))
    \<and> (\<not> is_ok r \<longrightarrow> w_store w' = w_store w) \<and> w_deleted w' = w_deleted w"
proof -
  have "w_deleted w1 = w_deleted w" if "fault w = (q, w1)" for q w1
    using that by (auto simp: fault_def split: list.splits option.splits)
  with assms fault_store show ?thesis
    by (fastforce simp: be_Delete_def bindP_def split: prod.splits outcome.splits if_splits)
qed

lemma hard_delete_row:
  assumes run: "Delete env s opts (d, w) = (r, (d', w'))" and hooks: "no_hooks env"
    and rule: "linkRule (applyCRUDOpts opts) \<noteq> LinkDelete"
    and col: "collectionForType env (doc_type d) = Inr col"
    and hard: "\<not> cm_HasSoftDelete (ci_meta col) \<or> hardDelete (applyCRUDOpts opts)"
  shows "(is_ok r \<longrightarrow> st_get (w_store w') c i = (if c = col_name col \<and> i = getID d then None else st_get (w_store w) c i)
             \<and> w_deleted w' = w_deleted w @ collectAttachments d \<and> d' = d
             \<and> (e_storage env = None \<longrightarrow> collectAttachments d = []))
    \<and> (\<not> is_ok r \<longrightarrow> w_store w' = w_store w \<and> w_deleted w' = w_deleted w)"
proof (cases "getID d = [] \<or> (e_storage env = None \<and> collectAttachments d \<noteq> [])")
  case True
  with run hooks rule col hard have "\<not> is_ok r \<and> w' = w"
    by (auto simp: Delete_def deleteCore_def Let_def with_collection_def deleteDocCore_def
        preflightAttachments_def bindP_def split: if_splits)
  then show ?thesis by simp
next
  case False
  obtain q w1 where del: "be_Delete (col_name col) (getID d) w = (q, w1)" by fastforce
  have pre: "preflightAttachments env (d, w) = (Ok (), (d, w))"
    using False by (auto simp: preflightAttachments_def)
  have "deleteDocCore env (scope_in_tx s) col (applyCRUDOpts opts) (d, w) = (r, (d', w'))"
    using run hooks rule col False by (simp add: Delete_def deleteCore_def Let_def with_collection_def)
  with pre del hard hooks have
    res: "r = q \<and> d' = d \<and> w' = (if is_ok q then w1\<lparr>w_deleted := w_deleted w1 @ collectAttachments d\<rparr> else w1)"
    by (cases q) (auto simp: deleteDocCore_def bindP_def on_snd_def cleanupAttachments_def)
  from be_Delete_result [OF del] False res show ?thesis
    by (auto simp: kv.get_del)
qed

text \<open>With nothing in the way a hard delete succeeds.\<close>

lemma hard_delete_one:
  assumes "no_hooks env" "collectionForType env (doc_type d) = Inr col" "getID d \<noteq> []"
    and "\<not> cm_HasSoftDelete (ci_meta col) \<or> hardDelete (applyCRUDOpts opts)"
    and "linkRule (applyCRUDOpts opts) \<noteq> LinkDelete" "e_storage env \<noteq> None" "w_faults w = []"
    and "has_table (w_store w) (col_name col)"
  shows "Delete env s opts (d, w) = (Ok (), (d, w\<lparr>w_store := st_delete (col_name col) (getID d) (w_store w),
     w_deleted := w_deleted w @ collectAttachments d\<rparr>))"
  using assms
  by (auto simp: Delete_def deleteCore_def Let_def with_collection_def deleteDocCore_def preflightAttachments_def
      be_Delete_def on_snd_def bindP_def cleanupAttachments_def fault_def)

end
