(* ===== verification/Hook_Properties.thy ===== *)
theory Hook_Properties
  imports Delete_Properties
begin

text \<open>
  User hooks: the order in which an operation runs them, observed through hooks that write their
  names into the trace, and the row an insert leaves when its after-hook fails.
\<close>

section \<open>Steps that run no hook\<close>

definition silent :: "('d, 'a) op \<Rightarrow> bool" where
  "silent m \<longleftrightarrow> (\<forall>X. preserves (\<lambda>s. w_trace (snd s) = X) m)"

definition silentW :: "(world, 'a) prog \<Rightarrow> bool" where
  "silentW m \<longleftrightarrow> (\<forall>X. preserves (\<lambda>w. w_trace w = X) m)"

named_theorems silence

lemma silentD: "silent m \<Longrightarrow> m (d, w) = (r, (d', w')) \<Longrightarrow> w_trace w' = w_trace w"
  unfolding silent_def preserves_def by (metis snd_conv)

lemma silentI: "(\<And>d w r d' w'. m (d, w) = (r, (d', w')) \<Longrightarrow> w_trace w' = w_trace w) \<Longrightarrow> silent m"
  unfolding silent_def preserves_def by (metis prod.collapse)

lemma silentWI: "(\<And>w r w'. m w = (r, w') \<Longrightarrow> w_trace w' = w_trace w) \<Longrightarrow> silentW m"
  unfolding silentW_def preserves_def by (metis prod.collapse)

lemma silentWD: "silentW m \<Longrightarrow> m w = (r, w') \<Longrightarrow> w_trace w' = w_trace w"
  unfolding silentW_def preserves_def by (metis snd_conv)

lemma silent_bind [silence]: "silent m \<Longrightarrow> (\<And>x. silent (f x)) \<Longrightarrow> silent (bindP m f)"
  by (simp add: silent_def preserves_bind)

lemma silent_basic [silence]: "silent (returnP x)" "silent (throwP e)"
  by (simp_all add: silent_def preserves_intros)

lemma silent_if [silence]: "(b \<Longrightarrow> silent m) \<Longrightarrow> (\<not> b \<Longrightarrow> silent n) \<Longrightarrow> silent (if b then m else n)"
  by simp

lemma silent_map_err [silence]: "silent m \<Longrightarrow> silent (map_err h m)"
  by (simp add: silent_def preserves_map_err)

lemma silent_modify [silence]: "(\<And>d w. w_trace (snd (f (d, w))) = w_trace w) \<Longrightarrow> silent (modifyP f)"
  by (rule silentI) (metis Pair_inject snd_conv state_simps(3))

lemma silent_on_snd [silence]: "silentW m \<Longrightarrow> silent (on_snd m)"
  by (rule silentI) (metis silentWD on_snd_eq)

lemma silentW_fault [silence]: "silentW fault"
  by (auto intro!: silentWI simp: fault_def split: list.splits option.splits)

lemma silentW_bind: "silentW m \<Longrightarrow> (\<And>x. silentW (f x)) \<Longrightarrow> silentW (bindP m f)"
  by (simp add: silentW_def preserves_bind)

lemma silentW_backend [silence]:
  "silentW (be_Get c i)" "silentW (be_Put env c i j)" "silentW (be_Delete c i)" "silentW be_Begin"
  "silentW (time_now env)" "silentW (NewID env)" "silentW newRevision"
proof -
  show "silentW (be_Get c i)" unfolding be_Get_def
    by (rule silentW_bind [OF silentW_fault]) (auto intro!: silentWI split: option.splits)
  show "silentW (be_Put env c i j)" unfolding be_Put_def
    by (rule silentW_bind [OF silentW_fault]) (auto intro!: silentWI split: if_splits)
  show "silentW (be_Delete c i)" unfolding be_Delete_def
    by (rule silentW_bind [OF silentW_fault]) (auto intro!: silentWI split: if_splits)
  show "silentW be_Begin" unfolding be_Begin_def
    by (rule silentW_bind [OF silentW_fault]) (auto intro!: silentWI split: if_splits)
qed (auto intro!: silentWI simp: time_now_def NewID_def newRevision_def split: prod.splits if_splits)

lemma close_tx_trace [simp]: "w_trace (close_tx b w) = w_trace w"
  by (simp add: close_tx_def split: option.split)

lemma finish_tx_trace:
  assumes "finish_tx fn (d, w) = (Ok x, (d', w'))"
  obtains w1 where "fn (d, w) = (Ok x, (d', w1))" "w_trace w' = w_trace w1"
proof -
  obtain q d1 w1 where fn: "fn (d, w) = (q, (d1, w1))" by (metis prod_cases3)
  obtain p w2 where f: "fault w1 = (p, w2)" by fastforce
  note t = silentWD [OF silentW_fault f]
  show ?thesis
    using assms fn f t that [of w1]
    by (cases q; cases p)
       (auto simp: finish_tx_def be_Commit_def be_Rollback_def split: prod.splits outcome.splits)
qed

lemma RunInTransaction_trace:
  assumes "RunInTransaction fn (d, w) = (Ok x, (d', w'))"
  obtains w0 w1 where "w_trace w0 = w_trace w" "fn (d, w0) = (Ok x, (d', w1))" "w_trace w' = w_trace w1"
proof -
  obtain b w0 where bg: "be_Begin w = (b, w0)" by fastforce
  note t = silentWD [OF silentW_backend(4) bg]
  from assms bg obtain u where "b = Ok u" and fin: "finish_tx fn (d, w0) = (Ok x, (d', w'))"
    by (cases b) (auto simp: RunInTransaction_def bindP_def map_err_def on_snd_def)
  from finish_tx_trace [OF fin] t that show ?thesis by metis
qed

section \<open>The order of the hooks\<close>

fun hook_name :: "hook_kind \<Rightarrow> string" where
  "hook_name BeforeInsert = ''BeforeInsert''" | "hook_name AfterInsert = ''AfterInsert''"
| "hook_name BeforeUpdate = ''BeforeUpdate''" | "hook_name AfterUpdate = ''AfterUpdate''"
| "hook_name BeforeDelete = ''BeforeDelete''" | "hook_name AfterDelete = ''AfterDelete''"
| "hook_name BeforeSoftDelete = ''BeforeSoftDelete''" | "hook_name AfterSoftDelete = ''AfterSoftDelete''"
| "hook_name BeforeSave = ''BeforeSave''" | "hook_name AfterSave = ''AfterSave''" | "hook_name Validate = ''Validate''"

definition traced :: "env \<Rightarrow> env" where
  "traced env = env\<lparr>e_hooks := (\<lambda>ty k. Some (\<lambda>(d, w). (Ok (), (d, w\<lparr>w_trace := w_trace w @ [hook_name k]\<rparr>))))\<rparr>"

lemma runHook_traced [simp]:
  "runHook (traced env) k (d, w) = (Ok (), (d, w\<lparr>w_trace := w_trace w @ [hook_name k]\<rparr>))"
  by (simp add: runHook_def traced_def)

lemma traced_hooks_ok: "hooks_ok (traced env)"
  by (auto simp: hooks_ok_def hook_ok_def traced_def)

lemma traced_registry [simp]: "collectionForType (traced env) ty = collectionForType env ty"
  by (simp add: collectionForType_def traced_def)

lemma checkRevision_silent: "silent (checkAndUpdateRevision col ign)" "silent set_new_revision"
proof -
  show new: "silent set_new_revision"
    unfolding set_new_revision_def by (intro silence) auto
  have "silent (check_stored_revision col)"
    by (rule silentI)
       (auto simp: check_stored_revision_def bindP_def on_snd_def dest: silentWD [OF silentW_backend(1)]
         split: prod.splits outcome.splits sum.splits if_splits)
  then have "silent (\<lambda>(d, w). if \<not> ign \<and> getID d \<noteq> [] then check_stored_revision col (d, w) else (Ok (), (d, w)))"
    by (intro silentI) (auto dest: silentD split: if_splits)
  with new show "silent (checkAndUpdateRevision col ign)"
    unfolding checkAndUpdateRevision_def by (intro silence)
qed

lemma setBaseFields_silent: "silent (setBaseFields env now ins)"
proof -
  have "silent (\<lambda>(d, w). if field_of d FieldID \<noteq> None \<and> getID d = []
              then bindP (on_snd (NewID env)) (\<lambda>i. modifyP (\<lambda>(d, w). (set_field FieldID (FStr i) d, w))) (d, w)
              else (Ok (), (d, w)))"
    by (rule silentI)
       (auto simp: bindP_def on_snd_def dest: silentWD [OF silentW_backend(6)]
         split: if_splits prod.splits outcome.splits)
  then show ?thesis
    unfolding setBaseFields_def by (intro silence) (auto simp: Let_def)
qed

lemma put_document_silent: "silent (put_document env col)"
  by (rule silentI)
     (auto simp: put_document_def bindP_def on_snd_def dest: silentWD [OF silentW_backend(2)]
       split: prod.splits outcome.splits)

text \<open>What surrounds the hooks of a document write.\<close>

definition write_middle :: "env \<Rightarrow> collection_info \<Rightarrow> bool \<Rightarrow> bool \<Rightarrow> (doc, unit) op" where
  "write_middle env col ins ign =
     bindP (if ci_UseRevision col then (if ins then set_new_revision else checkAndUpdateRevision col ign)
            else returnP ()) (\<lambda>_.
     bindP (on_snd (time_now env)) (\<lambda>now. bindP (setBaseFields env now ins) (\<lambda>_. put_document env col)))"

lemma write_middle_silent: "silent (write_middle env col ins ign)"
  unfolding write_middle_def
  by (intro silence checkRevision_silent setBaseFields_silent put_document_silent)

lemma writeDocCore_middle:
  "writeDocCore env col ins ign = bindP (runPrePersistHooks env col ins) (\<lambda>_.
     bindP (write_middle env col ins ign) (\<lambda>_. if ins then runAfterInsertHooks env else runAfterUpdateHooks env))"
  by (simp add: writeDocCore_def write_middle_def bindP_assoc)

definition write_trace :: "bool \<Rightarrow> string list" where
  "write_trace ins = (if ins
     then [''BeforeInsert'', ''BeforeSave'', ''Validate'', ''AfterInsert'', ''AfterSave'']
     else [''BeforeUpdate'', ''BeforeSave'', ''Validate'', ''AfterUpdate'', ''AfterSave''])"

lemma prepersist_trace:
  assumes "runPrePersistHooks (traced env) col ins (d, w) = (Ok u, (d', w'))"
  shows "w_trace w' = w_trace w @ (if ins then [''BeforeInsert'', ''BeforeSave'', ''Validate'']
                                   else [''BeforeUpdate'', ''BeforeSave'', ''Validate''])"
  using assms
  by (cases ins)
     (auto simp: runPrePersistHooks_def runBeforeInsertHooks_def runBeforeUpdateHooks_def runValidationHooks_def
       validate_tags_def bindP_def map_err_def split: prod.splits outcome.splits option.splits if_splits)

lemma writeDocCore_trace:
  assumes "writeDocCore (traced env) col ins ign (d, w) = (Ok u, (d', w'))"
  shows "w_trace w' = w_trace w @ write_trace ins"
proof -
  from assms obtain u1 d1 w1 where p: "runPrePersistHooks (traced env) col ins (d, w) = (Ok u1, (d1, w1))"
    and rest: "bindP (write_middle (traced env) col ins ign)
      (\<lambda>_. if ins then runAfterInsertHooks (traced env) else runAfterUpdateHooks (traced env)) (d1, w1) = (Ok u, (d', w'))"
    unfolding writeDocCore_middle bindP_eq_Ok by auto
  from rest obtain u2 d2 w2 where m: "write_middle (traced env) col ins ign (d1, w1) = (Ok u2, (d2, w2))"
    and a: "(if ins then runAfterInsertHooks (traced env) else runAfterUpdateHooks (traced env)) (d2, w2) = (Ok u, (d', w'))"
    unfolding bindP_eq_Ok by auto
  from a have "w_trace w' = w_trace w2 @ (if ins then [''AfterInsert'', ''AfterSave''] else [''AfterUpdate'', ''AfterSave''])"
    by (auto simp: runAfterInsertHooks_def runAfterUpdateHooks_def bindP_def split: if_splits)
  with silentD [OF write_middle_silent m] prepersist_trace [OF p] show ?thesis
    by (simp add: write_trace_def)
qed

text \<open>C8. The hooks of a successful \<open>Save\<close> run once each and in the documented order: for an insert
  BeforeInsert, BeforeSave, Validate, then after the write AfterInsert, AfterSave; for an update
  BeforeUpdate, BeforeSave, Validate, AfterUpdate, AfterSave.\<close>

theorem save_runs_the_hooks_in_order:
  assumes run: "Save (traced env) s opts (d, w) = (Ok u, (d', w'))"
    and rule: "linkRule (applyCRUDOpts opts) \<noteq> LinkWrite"
  shows "w_trace w' = w_trace w @ write_trace (getID d = [])"
proof -
  let ?o = "applyCRUDOpts opts"
  from run obtain col where col: "collectionForType env (doc_type d) = Inr col"
    by (auto simp: Save_def with_collection_def split: sum.splits)
  have body: "updateBody (traced env) ?o col (d, v) = writeDocCore (traced env) col False (ignoreRevision ?o) (d, v)"
    if "getID d \<noteq> []" for v
    using that rule by (simp add: updateBody_def)
  show ?thesis
  proof (cases "getID d \<noteq> [] \<and> ci_UseRevision col \<and> \<not> ignoreRevision ?o \<and> \<not> scope_in_tx s")
    case True
    with run col have "RunInTransaction (updateBody (traced env) ?o col) (d, w) = (Ok u, (d', w'))"
      by (simp add: Save_def with_collection_def updateCore_def Let_def runInWriteTx_eq)
    from RunInTransaction_trace [OF this] obtain w0 w1 where
      w: "w_trace w0 = w_trace w" "updateBody (traced env) ?o col (d, w0) = (Ok u, (d', w1))" "w_trace w' = w_trace w1"
      by metis
    with writeDocCore_trace [of env col False "ignoreRevision ?o" d w0 u d' w1] body True show ?thesis by simp
  next
    case False
    with run col rule body have "writeDocCore (traced env) col (getID d = [])
        (getID d \<noteq> [] \<and> ignoreRevision ?o) (d, w) = (Ok u, (d', w'))"
      by (auto simp: Save_def with_collection_def updateCore_def insertCore_def Let_def split: if_splits)
    from writeDocCore_trace [OF this] show ?thesis .
  qed
qed

theorem save_hooks_witness:
  "case Save (traced (note_env True True)) ScopeDB [] (note_doc [] [] ''a'' [], note_world []) of
     (r, (d', w')) \<Rightarrow> r = Ok () \<and> w_trace w' = [''BeforeInsert'', ''BeforeSave'', ''Validate'', ''AfterInsert'', ''AfterSave'']"
proof -
  let ?run = "Save (traced (note_env True True)) ScopeDB [] (note_doc [] [] ''a'' [], note_world [])"
  obtain r d' w' where run: "?run = (r, (d', w'))" by (metis prod_cases3)
  moreover have "fst ?run = Ok ()" by code_simp
  ultimately have ok: "r = Ok ()" by simp
  from save_runs_the_hooks_in_order [OF run [unfolded ok]] ok run
  show ?thesis by (simp add: write_trace_def note_world_def initial_world_def)
qed

section \<open>An after-hook that fails\<close>

text \<open>C9. An \<open>AfterInsert\<close> hook that reports an error on a \<open>Save\<close> outside a transaction fails the
  call but does not undo the insert: the row stays in the store, with the identifier the document
  was given. (Inside \<open>RunInTransaction\<close> it is rolled back with the transaction.)\<close>

theorem after_insert_error_keeps_the_row:
  assumes hook: "e_hooks env = (\<lambda>ty k. if k = AfterInsert then Some (throwP e) else None)"
    and run: "Save env s opts (d, w) = (r, (d', w'))"
    and new: "getID d = []" "field_of d FieldID = Some (FStr [])"
    and rule: "linkRule (applyCRUDOpts opts) \<noteq> LinkWrite"
    and col: "collectionForType env (doc_type d) = Inr col"
    and accepted: "is_ok (fst (Save (env\<lparr>e_hooks := \<lambda>_ _. None\<rparr>) s opts (d, w)))"
  shows "r = Err e \<and> getID d' \<noteq> [] \<and> st_get (w_store w') (col_name col) (getID d') = Some (e_norm env (Document.encode d'))"
proof -
  let ?e = "env\<lparr>e_hooks := \<lambda>_ _. None\<rparr>"
  have hk: "runHook env k = (if k = AfterInsert then throwP e else returnP ())" "runHook ?e k = returnP ()" for k
    by (auto simp: runHook_def hook fun_eq_iff)
  have col': "collectionForType ?e ty = collectionForType env ty" for ty by (simp add: collectionForType_def)
  have pre: "runPrePersistHooks env col True = runPrePersistHooks ?e col True"
    by (auto simp: runPrePersistHooks_def runBeforeInsertHooks_def runValidationHooks_def hk validate_tags_def)
  have mid: "write_middle env col True False = write_middle ?e col True False"
  proof -
    have "e_norm ?e = e_norm env" by simp
    then have "be_Put ?e c i j = be_Put env c i j" for c i j by (simp only: be_Put_def)
    moreover have "NewID ?e = NewID env" "time_now ?e = time_now env"
      by (simp_all add: NewID_def time_now_def fun_eq_iff)
    ultimately show ?thesis by (simp only: write_middle_def setBaseFields_def put_document_def)
  qed
  let ?head = "bindP (runPrePersistHooks env col True) (\<lambda>_. write_middle env col True False)"
  have full: "writeDocCore env col True False = bindP ?head (\<lambda>_. throwP e)"
    by (simp add: writeDocCore_middle runAfterInsertHooks_def hk bindP_assoc)
  have plain: "writeDocCore ?e col True False = bindP ?head (\<lambda>_. returnP ())"
    by (simp only: writeDocCore_middle if_True runAfterInsertHooks_def hk bindP_simps bindP_assoc pre mid)
  have run': "bindP ?head (\<lambda>_. throwP e) (d, w) = (r, (d', w'))"
    using run new rule col by (simp add: Save_def with_collection_def insertCore_def Let_def full)
  obtain q d1 w1 where h: "?head (d, w) = (q, (d1, w1))" by (metis prod_cases3)
  have sv: "Save ?e s opts (d, w) = (q, (d1, w1))"
    using new rule col h
    by (cases q) (simp_all add: Save_def with_collection_def insertCore_def Let_def plain col' bindP_def)
  with accepted obtain u where q: "q = Ok u" by (cases q) auto
  from run' h q have res: "r = Err e" "d' = d1" "w' = w1" by (simp_all add: bindP_def)
  have noh: "no_hooks ?e" by (simp add: no_hooks_def)
  from save_stores_row [OF sv [unfolded q] noh rule new(2), of col "col_name col" "getID d1"] col col' res
  show ?thesis by simp
qed

text \<open>A note environment whose \<open>AfterInsert\<close> hook reports an error.\<close>

definition failing_env :: env where
  "failing_env = (note_env False True)\<lparr>e_hooks :=
     (\<lambda>ty k. if k = AfterInsert then Some (throwP (Msg ''audit'')) else None)\<rparr>"

theorem after_insert_error_witness:
  "case Save failing_env ScopeDB [] (note_doc [] [] ''a'' [], note_world []) of (r, (d', w')) \<Rightarrow>
     r = Err (Msg ''audit'') \<and> st_get (w_store w') ''note'' (getID d') = Some (Document.encode d')"
proof -
  obtain r d' w' where run: "Save failing_env ScopeDB [] (note_doc [] [] ''a'' [], note_world []) = (r, (d', w'))"
    by (metis prod_cases3)
  have h1: "e_hooks failing_env = (\<lambda>ty k. if k = AfterInsert then Some (throwP (Msg ''audit'')) else None)"
    by (simp add: failing_env_def)
  have h2: "collectionForType failing_env (doc_type (note_doc [] [] ''a'' [])) = Inr (note_collection False True)"
    using note_col [of False True] by (simp add: failing_env_def collectionForType_def)
  have h3: "is_ok (fst (Save (failing_env\<lparr>e_hooks := \<lambda>_ _. None\<rparr>) ScopeDB [] (note_doc [] [] ''a'' [], note_world [])))"
    by code_simp
  have "r = Err (Msg ''audit'') \<and> getID d' \<noteq> [] \<and> st_get (w_store w') (col_name (note_collection False True)) (getID d')
      = Some (e_norm failing_env (Document.encode d'))"
    by (rule after_insert_error_keeps_the_row [OF h1 run _ _ _ h2 h3]) simp_all
  then show ?thesis using run by (simp add: failing_env_def)
qed

end
