(* ===== verification/Query.thy ===== *)
theory Query
  imports Crud
begin

text \<open>
  The read side of the engine and the bulk terminals: lock options (\<^verbatim>\<open>lock/lock.go\<close>), the query
  builder and its terminals (\<^verbatim>\<open>engine/queryset.go\<close>, \<^verbatim>\<open>iter.go\<close>, \<^verbatim>\<open>search.go\<close>), link hydration
  (\<^verbatim>\<open>link_batch.go\<close>, \<^verbatim>\<open>link_fetch.go\<close>), lookups by identifier (\<^verbatim>\<open>crud_find.go\<close>) and partial
  updates (\<^verbatim>\<open>crud_setfields.go\<close>). A link value holds the loaded document itself: where the Go code
  shares one pointer between several link fields, the model stores the document as it is at the end of
  its hydration in each of them. Maps are iterated in one fixed order. The element type of a query is
  the name of the Go type; \<open>new(T)\<close> is the zero document of its collection.
\<close>

section \<open>Lock options\<close>

record lock_config =
  skipLocked :: bool
  noWait :: bool

type_synonym lock_option = "lock_config \<Rightarrow> lock_config"

definition SkipLocked :: lock_option where "SkipLocked c = c\<lparr>skipLocked := True\<rparr>"
definition NoWait :: lock_option where "NoWait c = c\<lparr>noWait := True\<rparr>"

definition lock_Resolve :: "lock_option list \<Rightarrow> gerr + lock_mode" where
  "lock_Resolve opts =
     (let cfg = fold (\<lambda>opt c. opt c) opts \<lparr>skipLocked = False, noWait = False\<rparr>
      in if skipLocked cfg \<and> noWait cfg
         then Inl (Msg ''den: SkipLocked and NoWait are mutually exclusive'')
         else if skipLocked cfg then Inr LockSkipLocked
         else if noWait cfg then Inr LockNoWait
         else Inr LockDefault)"

section \<open>The query builder\<close>

datatype fetch_mode = FetchDefault | FetchAll | FetchNone | FetchNamed "string list"

record query_set =
  qs_type :: string
  qs_scope :: scope
  qs_conditions :: "condition list"
  qs_sortFields :: "sort_entry list"
  qs_limitN :: int
  qs_skipN :: int
  qs_afterID :: string
  qs_beforeID :: string
  qs_fetchMode :: fetch_mode
  qs_nestDepth :: int
  qs_includeDeleted :: bool
  qs_lock :: "lock_mode option"
  qs_err :: "gerr option"

definition defaultNestingDepth :: int where "defaultNestingDepth = 3"

definition NewQuery :: "string \<Rightarrow> scope \<Rightarrow> condition list \<Rightarrow> query_set" where
  "NewQuery ty s conditions = \<lparr>qs_type = ty, qs_scope = s, qs_conditions = conditions, qs_sortFields = [],
     qs_limitN = 0, qs_skipN = 0, qs_afterID = [], qs_beforeID = [], qs_fetchMode = FetchDefault,
     qs_nestDepth = defaultNestingDepth, qs_includeDeleted = False, qs_lock = None, qs_err = None\<rparr>"

definition Where :: "condition list \<Rightarrow> query_set \<Rightarrow> query_set" where
  "Where conditions qs = qs\<lparr>qs_conditions := qs_conditions qs @ conditions\<rparr>"
definition Sort :: "string \<Rightarrow> sort_direction \<Rightarrow> query_set \<Rightarrow> query_set" where
  "Sort field dir qs = qs\<lparr>qs_sortFields := qs_sortFields qs @ [\<lparr>so_Field = field, so_Dir = dir\<rparr>]\<rparr>"
definition Limit :: "int \<Rightarrow> query_set \<Rightarrow> query_set" where
  "Limit n qs = qs\<lparr>qs_limitN := n\<rparr>"
definition Skip :: "int \<Rightarrow> query_set \<Rightarrow> query_set" where
  "Skip n qs = qs\<lparr>qs_skipN := n\<rparr>"
definition After :: "string \<Rightarrow> query_set \<Rightarrow> query_set" where
  "After i qs = qs\<lparr>qs_afterID := i\<rparr>"
definition Before :: "string \<Rightarrow> query_set \<Rightarrow> query_set" where
  "Before i qs = qs\<lparr>qs_beforeID := i\<rparr>"
definition WithFetchLinks :: "string list \<Rightarrow> query_set \<Rightarrow> query_set" where
  "WithFetchLinks names qs = qs\<lparr>qs_fetchMode := (if names = [] then FetchAll else FetchNamed names)\<rparr>"
definition WithoutFetchLinks_qs :: "query_set \<Rightarrow> query_set" where
  "WithoutFetchLinks_qs qs = qs\<lparr>qs_fetchMode := FetchNone\<rparr>"
definition WithNestingDepth :: "int \<Rightarrow> query_set \<Rightarrow> query_set" where
  "WithNestingDepth depth qs = qs\<lparr>qs_nestDepth := depth\<rparr>"
definition IncludeDeleted_qs :: "query_set \<Rightarrow> query_set" where
  "IncludeDeleted_qs qs = qs\<lparr>qs_includeDeleted := True\<rparr>"
definition ForUpdate :: "lock_option list \<Rightarrow> query_set \<Rightarrow> query_set" where
  "ForUpdate opts qs = (case lock_Resolve opts of
      Inl e \<Rightarrow> qs\<lparr>qs_err := Some e\<rparr> | Inr mode \<Rightarrow> qs\<lparr>qs_lock := Some mode\<rparr>)"
definition BackLinks :: "string \<Rightarrow> string \<Rightarrow> query_set \<Rightarrow> query_set" where
  "BackLinks fieldName targetID = Where [Eq (Field fieldName) (GStr targetID)]"

definition preflight :: "query_set \<Rightarrow> gerr option" where
  "preflight qs =
     (case qs_err qs of
        Some e \<Rightarrow> Some e
      | None \<Rightarrow>
          if qs_lock qs \<noteq> None \<and> qs_scope qs \<noteq> ScopeTx then Some (Sent ErrLockRequiresTransaction)
          else if (qs_afterID qs \<noteq> [] \<or> qs_beforeID qs \<noteq> []) \<and> qs_skipN qs > 0
          then Some (Sent ErrIncompatiblePagination)
          else None)"

definition allConditions :: "query_set \<Rightarrow> collection_info \<Rightarrow> condition list" where
  "allConditions qs col =
     (if cm_HasSoftDelete (ci_meta col) \<and> \<not> qs_includeDeleted qs
      then qs_conditions qs @ [IsNil (Field ''_deleted_at'')]
      else qs_conditions qs)"

definition buildBackendQuery :: "query_set \<Rightarrow> collection_info \<Rightarrow> query" where
  "buildBackendQuery qs col =
     \<lparr>Collection = col_name col, Conditions = allConditions qs col, SortFields = qs_sortFields qs,
      LimitN = qs_limitN qs, SkipN = qs_skipN qs, AfterID = qs_afterID qs, BeforeID = qs_beforeID qs,
      Lock = qs_lock qs, GroupBySort = []\<rparr>"

section \<open>Link fields\<close>

text \<open>\<open>getLinkFields\<close>: the names of the link fields of a type with their target type and tag.\<close>

fun link_field :: "string \<times> bool \<times> fval \<Rightarrow> (string \<times> string \<times> bool) list" where
  "link_field (n, oe, FLink ty eager l) = [(n, ty, eager)]"
| "link_field (n, oe, FLinks ty eager ls) = [(n, ty, eager)]"
| "link_field (n, oe, _) = []"

definition getLinkFields :: "doc \<Rightarrow> (string \<times> string \<times> bool) list" where
  "getLinkFields d = concat (map link_field (doc_fields d))"

definition hasEagerLinkFields :: "doc \<Rightarrow> bool" where
  "hasEagerLinkFields d = list_ex (\<lambda>(n, ty, eager). eager) (getLinkFields d)"

definition skipForMode :: "fetch_mode \<Rightarrow> bool \<Rightarrow> bool" where
  "skipForMode mode eager \<longleftrightarrow> mode = FetchDefault \<and> \<not> eager"

definition field_selected :: "fetch_mode \<Rightarrow> string \<times> string \<times> bool \<Rightarrow> bool" where
  "field_selected mode = (\<lambda>(n, ty, eager). \<not> skipForMode mode eager
     \<and> (case mode of FetchNamed names \<Rightarrow> n \<in> set names | _ \<Rightarrow> True))"

definition shouldHydrate :: "query_set \<Rightarrow> doc \<Rightarrow> bool" where
  "shouldHydrate qs zero = (case qs_fetchMode qs of
      FetchAll \<Rightarrow> True | FetchNone \<Rightarrow> False | FetchNamed names \<Rightarrow> names \<noteq> []
    | FetchDefault \<Rightarrow> hasEagerLinkFields zero)"

section \<open>Batched hydration\<close>

text \<open>\<open>collectLinkSlot\<close> and the slots of one field: the identifiers still to be resolved.\<close>

fun slot_id :: "link \<Rightarrow> string list" where
  "slot_id (Link i v loaded) = (if i = [] \<or> loaded then [] else [i])"

fun field_slots :: "fval option \<Rightarrow> string list" where
  "field_slots (Some (FLink ty e l)) = slot_id l"
| "field_slots (Some (FLinks ty e ls)) = concat (map slot_id ls)"
| "field_slots _ = []"

definition slot_ids :: "string \<Rightarrow> doc list \<Rightarrow> string list" where
  "slot_ids n docs = remdups (concat (map (\<lambda>d. field_slots (field_of d n)) docs))"

fun fill_slot :: "(string \<times> doc) list \<Rightarrow> link \<Rightarrow> link" where
  "fill_slot targets (Link i v loaded) =
     (if i = [] \<or> loaded then Link i v loaded
      else (case map_of targets i of None \<Rightarrow> Link i v loaded | Some t \<Rightarrow> Link i (Some t) True))"

fun fill_field :: "(string \<times> doc) list \<Rightarrow> fval \<Rightarrow> fval" where
  "fill_field targets (FLink ty e l) = FLink ty e (fill_slot targets l)"
| "fill_field targets (FLinks ty e ls) = FLinks ty e (map (fill_slot targets) ls)"
| "fill_field targets v = v"

definition fill_doc :: "string \<Rightarrow> (string \<times> doc) list \<Rightarrow> doc \<Rightarrow> doc" where
  "fill_doc n targets d =
     (case field_of d n of None \<Rightarrow> d | Some v \<Rightarrow> set_field n (fill_field targets v) d)"

text \<open>The rows of the IN-query, decoded; a row nobody asked for is skipped. The targets decoded so far
  are returned with an error too: their slots have been written.\<close>

fun decode_targets :: "collection_info \<Rightarrow> string list \<Rightarrow> rows \<Rightarrow> world \<Rightarrow> unit outcome \<times> (string \<times> doc) list \<times> world" where
  "decode_targets col ids [] w = (Ok (), [], w)"
| "decode_targets col ids ((i, data) # rs) w =
     (case ctx_err w of
        (Ok _, w1) \<Rightarrow>
          (if i \<notin> set ids then decode_targets col ids rs w1
           else (case decodeWithSnapshot data (ci_zero col) of
               (Some e, _) \<Rightarrow> (Err (Wrap (''decode linked '' @ col_name col) [e]), [], w1)
             | (None, t) \<Rightarrow> (case decode_targets col ids rs w1 of (r, ts, w2) \<Rightarrow> (r, (i, t) # ts, w2))))
      | (r, w1) \<Rightarrow> (r, [], w1))"

definition missing_target :: "string list \<Rightarrow> (string \<times> doc) list \<Rightarrow> string option" where
  "missing_target ids targets = find (\<lambda>i. i \<notin> fst ` set targets) ids"

definition in_query :: "collection_info \<Rightarrow> string list \<Rightarrow> query" where
  "in_query col ids = (empty_query (col_name col))\<lparr>Conditions := [In (Field ''_id'') (map GStr ids)]\<rparr>"

definition batchResolveField ::
    "env \<Rightarrow> (doc list, unit) op \<Rightarrow> string \<Rightarrow> string \<Rightarrow> (doc list, unit) op" where
  "batchResolveField env nested n ty = (\<lambda>(docs, w).
     let ids = slot_ids n docs in
     if ids = [] then (Ok (), (docs, w))
     else (case collectionForType env ty of
         Inl e \<Rightarrow> (Err e, (docs, w))
       | Inr col \<Rightarrow> (case be_Query env (col_name col) (in_query col ids) w of
             (Ok rs, w1) \<Rightarrow> (case decode_targets col ids rs w1 of
                 (Ok _, ts, w2) \<Rightarrow>
                   (case missing_target ids ts of
                      Some i \<Rightarrow> (Err (DanglingLink (col_name col) i), (map (fill_doc n ts) docs, w2))
                    | None \<Rightarrow> (case nested (map snd ts, w2) of
                         (r, (ts', w3)) \<Rightarrow> (r, (map (fill_doc n (zip (map fst ts) ts')) docs, w3))))
               | (r, ts, w2) \<Rightarrow> (r, (map (fill_doc n ts) docs, w2)))
           | (Err e, w1) \<Rightarrow> (Err e, (docs, w1))
           | (Panic p, w1) \<Rightarrow> (Panic p, (docs, w1)))))"

primrec resolve_levels :: "env \<Rightarrow> fetch_mode \<Rightarrow> nat \<Rightarrow> (doc list, unit) op" where
  "resolve_levels env mode 0 = returnP ()"
| "resolve_levels env mode (Suc depth) = (\<lambda>(docs, w).
     if docs = [] \<or> mode = FetchNone then (Ok (), (docs, w))
     else forP (\<lambda>(n, ty, eager). batchResolveField env (resolve_levels env mode depth) n ty)
            (filter (field_selected mode) (getLinkFields (hd docs))) (docs, w))"

definition batchResolveLinks :: "env \<Rightarrow> int \<Rightarrow> fetch_mode \<Rightarrow> (doc list, unit) op" where
  "batchResolveLinks env depth mode =
     (if depth \<le> 0 then returnP () else resolve_levels env mode (nat depth))"

section \<open>Running computations on documents from computations on the world\<close>

definition run_on :: "'d \<Rightarrow> ('d, 'a) op \<Rightarrow> (world, 'd) prog" where
  "run_on d m w = (case m (d, w) of
      (Ok _, (d', w')) \<Rightarrow> (Ok d', w') | (Err e, (d', w')) \<Rightarrow> (Err e, w') | (Panic p, (d', w')) \<Rightarrow> (Panic p, w'))"

definition in_scope :: "scope \<Rightarrow> (world, 'a) prog \<Rightarrow> (world, 'a) prog" where
  "in_scope s m w = (case runOnScope s (on_snd m) ((), w) of (r, (_, w')) \<Rightarrow> (r, w'))"

definition collection_of :: "env \<Rightarrow> string \<Rightarrow> (world, collection_info) prog" where
  "collection_of env ty w = (case collectionForType env ty of Inl e \<Rightarrow> (Err e, w) | Inr col \<Rightarrow> (Ok col, w))"

section \<open>Terminals\<close>

fun drainIter :: "collection_info \<Rightarrow> rows \<Rightarrow> (world, doc list) prog" where
  "drainIter col [] w = (Ok [], w)"
| "drainIter col ((i, data) # rs) w =
     bindP ctx_err (\<lambda>_.
       case decodeWithSnapshot data (ci_zero col) of
         (Some e, _) \<Rightarrow> throwP (Wrap ''decode'' [e])
       | (None, d) \<Rightarrow> bindP (drainIter col rs) (\<lambda>ds. returnP (d # ds))) w"

text \<open>\<open>Iter\<close> with its consumer: \<open>yield\<close> gets a document or the error, may act on its own state and
  the world, and says whether to go on.\<close>

fun iter_rows :: "env \<Rightarrow> query_set \<Rightarrow> collection_info \<Rightarrow> (gerr + doc \<Rightarrow> 'a \<times> world \<Rightarrow> bool \<times> ('a \<times> world))
     \<Rightarrow> rows \<Rightarrow> 'a \<times> world \<Rightarrow> 'a \<times> world" where
  "iter_rows env qs col yield [] aw = aw"
| "iter_rows env qs col yield ((i, data) # rs) (a, w) =
     (case ctx_err w of
        (Err e, w1) \<Rightarrow> snd (yield (Inl e) (a, w1))
      | (Panic p, w1) \<Rightarrow> (a, w1)
      | (Ok _, w1) \<Rightarrow>
          (case decodeWithSnapshot data (ci_zero col) of
             (Some e, _) \<Rightarrow> snd (yield (Inl (Wrap ''decode'' [e])) (a, w1))
           | (None, d) \<Rightarrow>
               (case (if shouldHydrate qs (ci_zero col)
                      then run_on [d] (batchResolveLinks env (qs_nestDepth qs) (qs_fetchMode qs)) w1
                      else (Ok [d], w1)) of
                  (Err e, w2) \<Rightarrow> snd (yield (Inl (Wrap ''fetch links'' [e])) (a, w2))
                | (Panic p, w2) \<Rightarrow> (a, w2)
                | (Ok ds, w2) \<Rightarrow> (case yield (Inr (hd ds)) (a, w2) of
                      (True, aw) \<Rightarrow> iter_rows env qs col yield rs aw
                    | (False, aw) \<Rightarrow> aw))))"

definition Iter :: "env \<Rightarrow> query_set \<Rightarrow> (gerr + doc \<Rightarrow> 'a \<times> world \<Rightarrow> bool \<times> ('a \<times> world)) \<Rightarrow> 'a \<times> world \<Rightarrow> 'a \<times> world" where
  "Iter env qs yield = (\<lambda>(a, w).
     case preflight qs of
       Some e \<Rightarrow> snd (yield (Inl e) (a, w))
     | None \<Rightarrow> (case collectionForType env (qs_type qs) of
           Inl e \<Rightarrow> snd (yield (Inl e) (a, w))
         | Inr col \<Rightarrow> (case be_Query env (col_name col) (buildBackendQuery qs col) w of
               (Err e, w1) \<Rightarrow> snd (yield (Inl e) (a, w1))
             | (Panic p, w1) \<Rightarrow> (a, w1)
             | (Ok rs, w1) \<Rightarrow> iter_rows env qs col yield rs (a, w1))))"

text \<open>The loop of \<open>All\<close> over \<open>Iter\<close>: collect, or stop at the first error.\<close>

definition collect_yield :: "gerr + doc \<Rightarrow> (gerr option \<times> doc list) \<times> world \<Rightarrow> bool \<times> ((gerr option \<times> doc list) \<times> world)" where
  "collect_yield x = (\<lambda>((e, ds), w). case x of
      Inl er \<Rightarrow> (False, ((Some er, ds), w)) | Inr d \<Rightarrow> (True, ((e, ds @ [d]), w)))"

definition allBatched :: "env \<Rightarrow> query_set \<Rightarrow> (world, doc list) prog" where
  "allBatched env qs =
     bindP (collection_of env (qs_type qs)) (\<lambda>col.
     bindP (be_Query env (col_name col) (buildBackendQuery qs col)) (\<lambda>rs.
     bindP (drainIter col rs) (\<lambda>results.
     run_on results (batchResolveLinks env (qs_nestDepth qs) (qs_fetchMode qs)))))"

definition type_hydrates :: "env \<Rightarrow> query_set \<Rightarrow> bool" where
  "type_hydrates env qs = (case collectionForType env (qs_type qs) of
      Inl e \<Rightarrow> False | Inr col \<Rightarrow> shouldHydrate qs (ci_zero col))"

definition All :: "env \<Rightarrow> query_set \<Rightarrow> (world, doc list) prog" where
  "All env qs =
     bindP (checkP (preflight qs)) (\<lambda>_.
       if type_hydrates env qs then allBatched env qs
       else (\<lambda>w. case Iter env qs collect_yield ((None, []), w) of
               ((Some e, _), w') \<Rightarrow> (Err e, w') | ((None, ds), w') \<Rightarrow> (Ok ds, w')))"

definition First :: "env \<Rightarrow> query_set \<Rightarrow> (world, doc) prog" where
  "First env qs = bindP (All env (Limit 1 qs)) (\<lambda>results.
     if results = [] then throwP (Sent ErrNotFound) else returnP (hd results))"

definition Count :: "env \<Rightarrow> query_set \<Rightarrow> (world, nat) prog" where
  "Count env qs = bindP (checkP (preflight qs)) (\<lambda>_.
     bindP (collection_of env (qs_type qs)) (\<lambda>col. be_Count env (col_name col) (buildBackendQuery qs col)))"

definition Exists :: "env \<Rightarrow> query_set \<Rightarrow> (world, bool) prog" where
  "Exists env qs = bindP (checkP (preflight qs)) (\<lambda>_.
     bindP (collection_of env (qs_type qs)) (\<lambda>col. be_Exists env (col_name col) (buildBackendQuery qs col)))"

definition countQS :: "query_set \<Rightarrow> query_set" where
  "countQS qs = qs\<lparr>qs_limitN := 0, qs_skipN := 0, qs_sortFields := [], qs_afterID := [], qs_beforeID := []\<rparr>"

definition all_with_count :: "env \<Rightarrow> query_set \<Rightarrow> collection_info \<Rightarrow> (world, doc list \<times> nat) prog" where
  "all_with_count env qs col =
     bindP (be_Count env (col_name col) (buildBackendQuery (countQS qs) col)) (\<lambda>total.
     bindP (be_Query env (col_name col) (buildBackendQuery qs col)) (\<lambda>rs.
     bindP (drainIter col rs) (\<lambda>results.
     bindP (if shouldHydrate qs (ci_zero col)
            then run_on results (batchResolveLinks env (qs_nestDepth qs) (qs_fetchMode qs))
            else returnP results) (\<lambda>results. returnP (results, total)))))"

definition AllWithCount :: "env \<Rightarrow> query_set \<Rightarrow> (world, doc list \<times> nat) prog" where
  "AllWithCount env qs =
     bindP (checkP (preflight qs)) (\<lambda>_.
     bindP (collection_of env (qs_type qs)) (\<lambda>col.
       if qs_scope qs = ScopeTx then all_with_count env qs col
       else bindP (map_err (\<lambda>e. Wrap ''begin read tx'' [e]) be_Begin) (\<lambda>_ w.
              case all_with_count env qs col w of
                (Ok x, w1) \<Rightarrow> map_err (\<lambda>e. Wrap [] [Sent ErrTransactionFailed, e])
                                (bindP be_Commit (\<lambda>_. returnP x)) w1
              | (r, w1) \<Rightarrow> (r, snd (be_Rollback w1)))))"

end
