(* ===== verification/Query_Write.thy ===== *)
theory Query_Write
  imports Query
begin

text \<open>
  The terminals that write (\<^verbatim>\<open>engine/queryset.go\<close>: \<open>Update\<close>, \<open>Delete\<close>, \<open>UpdateOne\<close>, \<open>UpsertOne\<close>,
  \<open>GetOrCreate\<close>), partial updates (\<^verbatim>\<open>crud_setfields.go\<close>), lookups (\<^verbatim>\<open>crud_find.go\<close>), refresh
  (\<^verbatim>\<open>crud_refresh.go\<close>), replace (\<^verbatim>\<open>replace.go\<close>), row locks (\<^verbatim>\<open>tx.go\<close>), single-link hydration
  (\<^verbatim>\<open>link_fetch.go\<close>), full-text search (\<^verbatim>\<open>search.go\<close>) and the constructor of links (\<^verbatim>\<open>link.go\<close>).

  \<open>QuerySet.Delete\<close> loops until its match set is empty. The model of the loop has fuel and returns
  \<open>None\<close> when the fuel runs out; within the transaction that counts as the panic \<open>out_of_fuel\<close>, which
  the code never raises.
\<close>

section \<open>Partial updates\<close>

type_synonym set_fields = "(string \<times> fval option) list"

text \<open>\<open>newRV.Type() == fv.Type()\<close>, as far as the model tells types apart.\<close>

fun same_type :: "fval \<Rightarrow> fval \<Rightarrow> bool" where
  "same_type (FStr _) v = (case v of FStr _ \<Rightarrow> True | _ \<Rightarrow> False)"
| "same_type (FTime _) v = (case v of FTime _ \<Rightarrow> True | _ \<Rightarrow> False)"
| "same_type (FTimePtr _) v = (case v of FTimePtr _ \<Rightarrow> True | _ \<Rightarrow> False)"
| "same_type (FJson z _) v = (case v of FJson z' _ \<Rightarrow> z = z' | _ \<Rightarrow> False)"
| "same_type (FLink ty _ _) v = (case v of FLink ty' _ _ \<Rightarrow> ty = ty' | _ \<Rightarrow> False)"
| "same_type (FLinks ty _ _) v = (case v of FLinks ty' _ _ \<Rightarrow> ty = ty' | _ \<Rightarrow> False)"
| "same_type (FAtt _) v = (case v of FAtt _ \<Rightarrow> True | _ \<Rightarrow> False)"
| "same_type (FAttPtr _) v = (case v of FAttPtr _ \<Rightarrow> True | _ \<Rightarrow> False)"
| "same_type (FStruct fs) v = (zero_fval v = zero_fval (FStruct fs))"
| "same_type (FStructPtr z p) v = (zero_fval v = FStructPtr z None)"

text \<open>The new value in the field: the tag of a link field stays.\<close>

definition keep_tag :: "fval \<Rightarrow> fval \<Rightarrow> fval" where
  "keep_tag old v = (case old of
      FLink ty e l \<Rightarrow> (case v of FLink ty' e' l' \<Rightarrow> FLink ty e l' | _ \<Rightarrow> v)
    | FLinks ty e l \<Rightarrow> (case v of FLinks ty' e' l' \<Rightarrow> FLinks ty e l' | _ \<Rightarrow> v)
    | _ \<Rightarrow> v)"

definition setFieldValue :: "env \<Rightarrow> fval \<Rightarrow> fval option \<Rightarrow> string \<Rightarrow> gerr + fval" where
  "setFieldValue env fv newVal fieldName =
     (case newVal of
        None \<Rightarrow> Inr (zero_fval fv)
      | Some v \<Rightarrow>
          if same_type fv v then Inr (keep_tag fv v)
          else (case e_convert env fv v of
              None \<Rightarrow> Inl (Msg (''den: field '' @ fieldName @ '': cannot assign''))
            | Some u \<Rightarrow> Inr u))"

definition no_field :: "collection_info \<Rightarrow> string \<Rightarrow> gerr" where
  "no_field col fieldName = Msg (''den: field '' @ fieldName @ '' not found in '' @ col_name col)"

text \<open>The dotted names of the fields of nested structs and attachments (\<open>FieldInfo.Index\<close>). \<open>Unknown\<close> is a
  name the struct analysis does not have, \<open>Nil_parent\<close> the error of \<open>FieldByIndexErr\<close>.\<close>

datatype 'a slot = Unknown | Nil_parent | Slot 'a

fun attachment_field :: "string \<Rightarrow> attachment \<Rightarrow> fval slot" where
  "attachment_field k (Attachment p m s h) =
     (if k = ''storage_path'' then Slot (FStr p) else if k = ''mime'' then Slot (FStr m)
      else if k = ''size'' then Slot (FJson (JNum ''0'') (JNum (dec_int s)))
      else if k = ''sha256'' then Slot (FStr h) else Unknown)"

definition below_pointer :: "'a slot \<Rightarrow> 'a slot" where
  "below_pointer s = (if s = Unknown then Unknown else Nil_parent)"

fun value_at :: "string list \<Rightarrow> fval \<Rightarrow> fval slot"
  and value_in :: "string list \<Rightarrow> (string \<times> bool \<times> fval) list \<Rightarrow> fval slot" where
  "value_at [] v = Slot v"
| "value_at (k # ks) (FStruct fs) = value_in (k # ks) fs"
| "value_at (k # ks) (FStructPtr z p) = (case p of
      Some fs \<Rightarrow> value_in (k # ks) fs | None \<Rightarrow> below_pointer (value_in (k # ks) z))"
| "value_at [k] (FAtt a) = attachment_field k a"
| "value_at [k] (FAttPtr p) = (case p of
      Some a \<Rightarrow> attachment_field k a | None \<Rightarrow> below_pointer (attachment_field k (Attachment [] [] 0 [])))"
| "value_at ks v = Unknown"
| "value_in [] fs = Unknown"
| "value_in (k # ks) fs = (case map_of fs k of None \<Rightarrow> Unknown | Some (oe, v) \<Rightarrow> value_at ks v)"

fun set_attachment_field :: "string \<Rightarrow> fval \<Rightarrow> attachment \<Rightarrow> attachment" where
  "set_attachment_field k (FStr t) (Attachment p m s h) =
     (if k = ''storage_path'' then Attachment t m s h else if k = ''mime'' then Attachment p t s h
      else if k = ''sha256'' then Attachment p m s t else Attachment p m s h)"
| "set_attachment_field k (FJson z (JNum t)) (Attachment p m s h) =
     (if k = ''size'' then Attachment p m (case read_int t of Some i \<Rightarrow> i | None \<Rightarrow> s) h else Attachment p m s h)"
| "set_attachment_field k v a = a"

fun put_at :: "string list \<Rightarrow> fval \<Rightarrow> fval \<Rightarrow> fval"
  and put_in :: "string list \<Rightarrow> fval \<Rightarrow> (string \<times> bool \<times> fval) list \<Rightarrow> (string \<times> bool \<times> fval) list" where
  "put_at [] u v = u"
| "put_at (k # ks) u (FStruct fs) = FStruct (put_in (k # ks) u fs)"
| "put_at (k # ks) u (FStructPtr z p) = FStructPtr z (map_option (put_in (k # ks) u) p)"
| "put_at [k] u (FAtt a) = FAtt (set_attachment_field k u a)"
| "put_at [k] u (FAttPtr p) = FAttPtr (map_option (set_attachment_field k u) p)"
| "put_at ks u v = v"
| "put_in [] u fs = fs"
| "put_in (k # ks) u fs = (case map_of fs k of None \<Rightarrow> fs | Some (oe, v) \<Rightarrow> set_in k (put_at ks u v) fs)"

definition field_at :: "doc \<Rightarrow> string \<Rightarrow> fval slot" where
  "field_at d name = value_in (split_on CHR ''.'' name) (doc_fields d)"

definition put_field_at :: "string \<Rightarrow> fval \<Rightarrow> doc \<Rightarrow> doc" where
  "put_field_at name u d = Doc (doc_type d) (put_in (split_on CHR ''.'' name) u (doc_fields d)) (doc_tracked d)"

definition nil_parent :: "string \<Rightarrow> gerr" where
  "nil_parent fieldName = Wrap (''den: field '' @ fieldName)
     [Msg ''reflect: indirection through nil pointer to embedded struct field'']"

fun applySetFields :: "env \<Rightarrow> collection_info \<Rightarrow> set_fields \<Rightarrow> doc \<Rightarrow> gerr option \<times> doc" where
  "applySetFields env col [] d = (None, d)"
| "applySetFields env col ((name, v) # fs) d =
     (case field_at d name of
        Unknown \<Rightarrow> (Some (no_field col name), d)
      | Nil_parent \<Rightarrow> (Some (nil_parent name), d)
      | Slot fv \<Rightarrow> (case setFieldValue env fv v name of
            Inl e \<Rightarrow> (Some e, d)
          | Inr u \<Rightarrow> applySetFields env col fs (put_field_at name u d)))"

definition validateSetFields :: "collection_info \<Rightarrow> set_fields \<Rightarrow> gerr option" where
  "validateSetFields col fs =
     map_option (\<lambda>(name, v). no_field col name) (find (\<lambda>(name, v). field_at (ci_zero col) name = Unknown) fs)"

definition set_fields_op :: "env \<Rightarrow> collection_info \<Rightarrow> set_fields \<Rightarrow> (doc, unit) op" where
  "set_fields_op env col fs = (\<lambda>(d, w). case applySetFields env col fs d of
      (None, d') \<Rightarrow> (Ok (), (d', w)) | (Some e, d') \<Rightarrow> (Err e, (d', w)))"

section \<open>Update\<close>

fun update_docs :: "env \<Rightarrow> collection_info \<Rightarrow> set_fields \<Rightarrow> doc list \<Rightarrow> nat \<Rightarrow> (world, nat) prog" where
  "update_docs env col fs [] count w = (Ok count, w)"
| "update_docs env col fs (d # ds) count w =
     bindP ctx_err (\<lambda>_.
     bindP (run_on d (bindP (set_fields_op env col fs) (\<lambda>_. updateCore env True []))) (\<lambda>_.
     update_docs env col fs ds (Suc count))) w"

definition QuerySet_Update :: "env \<Rightarrow> query_set \<Rightarrow> set_fields \<Rightarrow> (world, nat) prog" where
  "QuerySet_Update env qs fs =
     bindP (checkP (preflight qs)) (\<lambda>_.
     bindP (collection_of env (qs_type qs)) (\<lambda>col.
     bindP (checkP (validateSetFields col fs)) (\<lambda>_.
     in_scope (qs_scope qs)
       (bindP (be_Query env (col_name col) (buildBackendQuery qs col)) (\<lambda>rs.
        bindP (drainIter col rs) (\<lambda>docs. update_docs env col fs docs 0))))))"

section \<open>Delete in chunks\<close>

definition deleteChunkSize :: int where "deleteChunkSize = 1000"

definition out_of_fuel :: string where "out_of_fuel = ''out of fuel''"

fun delete_docs :: "env \<Rightarrow> crud_option list \<Rightarrow> doc list \<Rightarrow> int \<Rightarrow> (world, int) prog" where
  "delete_docs env opts [] count w = (Ok count, w)"
| "delete_docs env opts (d # ds) count w =
     bindP ctx_err (\<lambda>_.
     bindP (run_on d (Delete env ScopeTx opts)) (\<lambda>_.
     delete_docs env opts ds (count + 1))) w"

definition chunk_limit :: "int \<Rightarrow> query_set \<Rightarrow> int \<Rightarrow> int" where
  "chunk_limit chunkSize qs count =
     (if qs_limitN qs > 0 \<and> chunkSize > qs_limitN qs - count then qs_limitN qs - count else chunkSize)"

primrec delete_loop ::
    "nat \<Rightarrow> env \<Rightarrow> int \<Rightarrow> query_set \<Rightarrow> crud_option list \<Rightarrow> collection_info \<Rightarrow> query_set \<Rightarrow> int \<Rightarrow> world
     \<Rightarrow> (int outcome \<times> world) option" where
  "delete_loop 0 env chunkSize qs opts col chunk count w = None"
| "delete_loop (Suc fuel) env chunkSize qs opts col chunk count w =
     (case ctx_err w of
        (Err e, w1) \<Rightarrow> Some (Err e, w1)
      | (Panic p, w1) \<Rightarrow> Some (Panic p, w1)
      | (Ok _, w1) \<Rightarrow>
          if qs_limitN qs > 0 \<and> qs_limitN qs - count \<le> 0 then Some (Ok count, w1)
          else (let chunk = chunk\<lparr>qs_limitN := chunk_limit chunkSize qs count\<rparr> in
            case bindP (be_Query env (col_name col) (buildBackendQuery chunk col)) (drainIter col) w1 of
              (Err e, w2) \<Rightarrow> Some (Err e, w2)
            | (Panic p, w2) \<Rightarrow> Some (Panic p, w2)
            | (Ok docs, w2) \<Rightarrow>
                if docs = [] then Some (Ok count, w2)
                else (case delete_docs env opts docs count w2 of
                    (Err e, w3) \<Rightarrow> Some (Err e, w3)
                  | (Panic p, w3) \<Rightarrow> Some (Panic p, w3)
                  | (Ok count', w3) \<Rightarrow>
                      if int (length docs) < qs_limitN chunk then Some (Ok count', w3)
                      else delete_loop fuel env chunkSize qs opts col (chunk\<lparr>qs_skipN := 0\<rparr>) count' w3)))"

definition QuerySet_Delete :: "nat \<Rightarrow> env \<Rightarrow> int \<Rightarrow> query_set \<Rightarrow> crud_option list \<Rightarrow> (world, int) prog" where
  "QuerySet_Delete fuel env chunkSize qs opts =
     bindP (checkP (preflight qs)) (\<lambda>_.
     bindP (collection_of env (qs_type qs)) (\<lambda>col.
     in_scope (qs_scope qs) (\<lambda>w.
       case delete_loop fuel env chunkSize qs opts col qs 0 w of
         Some r \<Rightarrow> r | None \<Rightarrow> (Panic out_of_fuel, w))))"

section \<open>Lookups\<close>

definition crudFetchMode :: "crud_opts \<Rightarrow> fetch_mode" where
  "crudFetchMode o' = (if suppressFetchLinks o' then FetchNone else FetchDefault)"

definition querySetFromOpts :: "string \<Rightarrow> scope \<Rightarrow> condition list \<Rightarrow> crud_option list \<Rightarrow> query_set" where
  "querySetFromOpts ty s conditions opts =
     (let o' = applyCRUDOpts opts;
          qs = NewQuery ty s conditions;
          qs = (if includeDeleted o' then IncludeDeleted_qs qs else qs)
      in case crudFetchMode o' of
           FetchAll \<Rightarrow> WithFetchLinks [] qs | FetchNone \<Rightarrow> WithoutFetchLinks_qs qs | _ \<Rightarrow> qs)"

definition FindByID :: "env \<Rightarrow> string \<Rightarrow> scope \<Rightarrow> string \<Rightarrow> crud_option list \<Rightarrow> (world, doc) prog" where
  "FindByID env ty s i opts =
     First env (IncludeDeleted_qs (querySetFromOpts ty s [Eq (Field ''_id'') (GStr i)] opts))"

definition FindByIDs :: "env \<Rightarrow> string \<Rightarrow> scope \<Rightarrow> string list \<Rightarrow> crud_option list \<Rightarrow> (world, doc list) prog" where
  "FindByIDs env ty s ids opts =
     (if ids = [] then returnP []
      else All env (IncludeDeleted_qs (querySetFromOpts ty s [In (Field ''_id'') (map GStr ids)] opts)))"

definition findOneStrict :: "env \<Rightarrow> string \<Rightarrow> scope \<Rightarrow> condition list \<Rightarrow> bool \<Rightarrow> (world, doc) prog" where
  "findOneStrict env ty s conditions withDeleted =
     (let qs = Limit 2 (NewQuery ty s conditions);
          qs = (if withDeleted then IncludeDeleted_qs qs else qs)
      in bindP (All env qs) (\<lambda>results. case results of
           [] \<Rightarrow> throwP (Sent ErrNotFound)
         | [d] \<Rightarrow> returnP d
         | _ \<Rightarrow> throwP (Sent ErrMultipleMatches)))"

section \<open>UpdateOne, UpsertOne\<close>

definition hydrate_one :: "env \<Rightarrow> query_set \<Rightarrow> (doc, unit) op" where
  "hydrate_one env qs = (\<lambda>(d, w).
     case batchResolveLinks env (qs_nestDepth qs) (qs_fetchMode qs) ([d], w) of
       (r, (ds, w')) \<Rightarrow> (r, (hd ds, w')))"

definition UpdateOne :: "env \<Rightarrow> query_set \<Rightarrow> set_fields \<Rightarrow> (world, doc) prog" where
  "UpdateOne env qs fs =
     bindP (collection_of env (qs_type qs)) (\<lambda>col.
     bindP (checkP (validateSetFields col fs)) (\<lambda>_.
     in_scope (qs_scope qs)
       (bindP (findOneStrict env (qs_type qs) ScopeTx (qs_conditions qs) (qs_includeDeleted qs)) (\<lambda>d.
          run_on d (bindP (set_fields_op env col fs) (\<lambda>_.
                    bindP (updateCore env True []) (\<lambda>_. hydrate_one env qs)))))))"

text \<open>\<open>upsertOne\<close> acts on \<open>defaults\<close>, which the miss path changes in memory; it returns the document
  and whether it was inserted.\<close>

definition upsert_body :: "env \<Rightarrow> query_set \<Rightarrow> collection_info \<Rightarrow> set_fields \<Rightarrow> (doc, doc \<times> bool) op" where
  "upsert_body env qs col fs = (\<lambda>(defaults, w).
     case findOneStrict env (qs_type qs) ScopeTx (qs_conditions qs) (qs_includeDeleted qs) w of
       (Ok existing, w1) \<Rightarrow>
         (case run_on existing (bindP (set_fields_op env col fs) (\<lambda>_.
                 bindP (updateCore env True []) (\<lambda>_. hydrate_one env qs))) w1 of
            (Ok d, w2) \<Rightarrow> (Ok (d, False), (defaults, w2))
          | (Err e, w2) \<Rightarrow> (Err e, (defaults, w2))
          | (Panic p, w2) \<Rightarrow> (Panic p, (defaults, w2)))
     | (Err e, w1) \<Rightarrow>
         (if errors_is e ErrNotFound
          then bindP (set_fields_op env col fs) (\<lambda>_.
               bindP (insertCore env []) (\<lambda>_.
               bindP (hydrate_one env qs) (\<lambda>_ (d, w). (Ok (d, True), (d, w))))) (defaults, w1)
          else (Err e, (defaults, w1)))
     | (Panic p, w1) \<Rightarrow> (Panic p, (defaults, w1)))"

definition upsertOne :: "env \<Rightarrow> query_set \<Rightarrow> set_fields \<Rightarrow> (doc, doc \<times> bool) op" where
  "upsertOne env qs fs =
     bindP (on_snd (collection_of env (qs_type qs))) (\<lambda>col.
     bindP (checkP (validateSetFields col fs)) (\<lambda>_.
     runOnScope (qs_scope qs) (upsert_body env qs col fs)))"

definition UpsertOne :: "env \<Rightarrow> query_set \<Rightarrow> set_fields \<Rightarrow> (doc, doc \<times> bool) op" where
  "UpsertOne env qs fs = upsertOne env qs fs"

definition GetOrCreate :: "env \<Rightarrow> query_set \<Rightarrow> (doc, doc \<times> bool) op" where
  "GetOrCreate env qs = upsertOne env qs []"

section \<open>Refresh, replace, row locks\<close>

text \<open>\<open>rw.Get\<close> reads through the scope; both scopes read the current store.\<close>

definition Refresh :: "env \<Rightarrow> crud_option list \<Rightarrow> (doc, unit) op" where
  "Refresh env opts =
     with_collection env (\<lambda>col (d, w).
       if getID d = [] then (Err (Msg ''den: cannot refresh document without ID''), (d, w))
       else (case be_Get (col_name col) (getID d) w of
           (Err e, w1) \<Rightarrow> (Err e, (d, w1))
         | (Panic p, w1) \<Rightarrow> (Panic p, (d, w1))
         | (Ok data, w1) \<Rightarrow> (case decodeWithSnapshot data d of
               (Some e, d') \<Rightarrow> (Err e, (d', w1))
             | (None, d') \<Rightarrow>
                 (case batchResolveLinks env defaultNestingDepth (crudFetchMode (applyCRUDOpts opts)) ([d'], w1) of
                    (r, (ds, w2)) \<Rightarrow> (r, (hd ds, w2))))))"

definition RefreshAll :: "env \<Rightarrow> scope \<Rightarrow> crud_option list \<Rightarrow> (doc list, unit) op" where
  "RefreshAll env s opts = (\<lambda>(docs, w).
     if docs = [] then (Ok (), (docs, w))
     else runOnScopeVoid s (each_doc_op ''refresh'' (Refresh env opts)) (docs, w))"

definition PreserveServerFields :: "env \<Rightarrow> doc \<Rightarrow> doc \<Rightarrow> gerr + doc" where
  "PreserveServerFields env dst src = (case collectionForType env (doc_type dst) of
      Inl e \<Rightarrow> Inl e | Inr col \<Rightarrow> Inr (preserveServerFields dst src))"

definition Replace :: "env \<Rightarrow> scope \<Rightarrow> crud_option list \<Rightarrow> (doc, unit) op" where
  "Replace env s opts =
     with_collection env (\<lambda>col (fresh, w).
       if getID fresh = [] then (Err (Wrap ''replace requires id'' [Sent ErrValidation]), (fresh, w))
       else runOnScopeVoid s
         (bindP (on_snd (FindByID env (doc_type fresh) ScopeTx (getID fresh) (opts @ [WithoutFetchLinks])))
            (\<lambda>existing. bindP (modifyP (\<lambda>(d, w). (preserveServerFields d existing, w)))
            (\<lambda>_. Save env ScopeTx (opts @ [IgnoreRevision])))) (fresh, w))"

definition LockByID :: "env \<Rightarrow> string \<Rightarrow> string \<Rightarrow> lock_option list \<Rightarrow> (world, doc) prog" where
  "LockByID env ty i opts =
     bindP (collection_of env ty) (\<lambda>col.
     case lock_Resolve opts of
       Inl e \<Rightarrow> throwP e
     | Inr mode \<Rightarrow> bindP (be_GetForUpdate (col_name col) i mode) (\<lambda>data.
         case decodeWithSnapshot data (ci_zero col) of
           (Some e, _) \<Rightarrow> throwP (Wrap ''decode'' [e])
         | (None, d) \<Rightarrow> returnP d))"

section \<open>Links one at a time\<close>

definition resolveSingleLink :: "env \<Rightarrow> string \<Rightarrow> (link, unit) op" where
  "resolveSingleLink env ty = (\<lambda>(l, w).
     if link_ID l = [] \<or> link_Loaded l then (Ok (), (l, w))
     else (case collectionForType env ty of
         Inl e \<Rightarrow> (Err e, (l, w))
       | Inr col \<Rightarrow> (case be_Get (col_name col) (link_ID l) w of
             (Err e, w1) \<Rightarrow> (Err e, (l, w1))
           | (Panic p, w1) \<Rightarrow> (Panic p, (l, w1))
           | (Ok data, w1) \<Rightarrow> (case decodeWithSnapshot data (ci_zero col) of
                 (Some e, _) \<Rightarrow> (Err (Wrap (''decode linked '' @ col_name col) [e]), (l, w1))
               | (None, t) \<Rightarrow> (Ok (), (Link (link_ID l) (Some t) True, w1))))))"

text \<open>\<open>FetchLinkField\<close> has the same body on a typed link.\<close>

definition FetchLinkField :: "env \<Rightarrow> string \<Rightarrow> (link, unit) op" where
  "FetchLinkField env ty = resolveSingleLink env ty"

fun each_slot :: "(link, unit) op \<Rightarrow> link list \<Rightarrow> world \<Rightarrow> unit outcome \<times> link list \<times> world" where
  "each_slot f [] w = (Ok (), [], w)"
| "each_slot f (l # ls) w =
     (case f (l, w) of
        (Ok _, (l', w1)) \<Rightarrow> (case each_slot f ls w1 of (r, ls', w2) \<Rightarrow> (r, l' # ls', w2))
      | (r, (l', w1)) \<Rightarrow> (r, l' # ls, w1))"

definition fetchLinkByName :: "env \<Rightarrow> string \<Rightarrow> int \<Rightarrow> (doc, unit) op" where
  "fetchLinkByName env fieldName depth = (\<lambda>(d, w).
     if depth \<le> 0 then (Ok (), (d, w))
     else (case field_of d fieldName of
         Some (FLink ty e l) \<Rightarrow> (case resolveSingleLink env ty (l, w) of
             (r, (l', w')) \<Rightarrow> (r, (set_field fieldName (FLink ty e l') d, w')))
       | Some (FLinks ty e ls) \<Rightarrow> (case each_slot (resolveSingleLink env ty) ls w of
             (r, ls', w') \<Rightarrow> (r, (set_field fieldName (FLinks ty e ls') d, w')))
       | _ \<Rightarrow> (Err (Msg (''den: link field '' @ fieldName @ '' not found'')), (d, w))))"

definition FetchLink :: "env \<Rightarrow> string \<Rightarrow> (doc, unit) op" where
  "FetchLink env fieldName = fetchLinkByName env fieldName 1"

definition FetchAllLinks :: "env \<Rightarrow> (doc, unit) op" where
  "FetchAllLinks env = (\<lambda>(d, w). case batchResolveLinks env 1 FetchAll ([d], w) of
      (r, (ds, w')) \<Rightarrow> (r, (hd ds, w')))"

definition NewLink :: "doc \<Rightarrow> link outcome" where
  "NewLink d = (case field_of d FieldID of
      None \<Rightarrow> Panic ''den: NewLink: type does not embed document.Base''
    | Some _ \<Rightarrow> Ok (Link (getID d) (Some d) True))"

record link_field_meta =
  lm_JSONName :: string
  lm_Slice :: bool
  lm_Eager :: bool
  lm_TargetType :: string
  lm_TargetCollection :: string

fun link_meta :: "env \<Rightarrow> string \<times> bool \<times> fval \<Rightarrow> link_field_meta list" where
  "link_meta env (n, oe, FLink ty eager l) = [\<lparr>lm_JSONName = n, lm_Slice = False, lm_Eager = eager,
     lm_TargetType = ty, lm_TargetCollection = (case collectionForType env ty of Inl _ \<Rightarrow> [] | Inr c \<Rightarrow> col_name c)\<rparr>]"
| "link_meta env (n, oe, FLinks ty eager ls) = [\<lparr>lm_JSONName = n, lm_Slice = True, lm_Eager = eager,
     lm_TargetType = ty, lm_TargetCollection = (case collectionForType env ty of Inl _ \<Rightarrow> [] | Inr c \<Rightarrow> col_name c)\<rparr>]"
| "link_meta env (n, oe, _) = []"

definition LinkFields :: "env \<Rightarrow> string \<Rightarrow> gerr + link_field_meta list" where
  "LinkFields env ty = (case collectionForType env ty of
      Inl e \<Rightarrow> Inl e | Inr col \<Rightarrow> Inr (concat (map (link_meta env) (doc_fields (ci_zero col)))))"

section \<open>Full-text search\<close>

text \<open>\<open>fts\<close> is the searcher of the scope's backend, if it has one: the rows of a table that match a
  search expression and a query.\<close>

definition searchRaw :: "env \<Rightarrow> (string \<Rightarrow> query \<Rightarrow> rows \<Rightarrow> rows) option \<Rightarrow> query_set \<Rightarrow> string \<Rightarrow> (world, doc list) prog" where
  "searchRaw env fts qs queryText =
     bindP (checkP (preflight qs)) (\<lambda>_.
     bindP (collection_of env (qs_type qs)) (\<lambda>col.
     case fts of
       None \<Rightarrow> throwP (Sent ErrFTSNotSupported)
     | Some matching \<Rightarrow>
         bindP (be_Query (env\<lparr>e_select := matching queryText\<rparr>) (col_name col) (buildBackendQuery qs col)) (\<lambda>rs.
         bindP (drainIter col rs) (\<lambda>results.
           if shouldHydrate qs (ci_zero col)
           then run_on results (batchResolveLinks env (qs_nestDepth qs) (qs_fetchMode qs))
           else returnP results))))"

definition Search :: "env \<Rightarrow> (string \<Rightarrow> query \<Rightarrow> rows \<Rightarrow> rows) option \<Rightarrow> query_set \<Rightarrow> string \<Rightarrow> (world, doc list) prog" where
  "Search env fts qs term =
     (if LiteralFTS5 term = [] then returnP [] else searchRaw env fts qs (LiteralFTS5 term))"

definition SearchRaw :: "env \<Rightarrow> (string \<Rightarrow> query \<Rightarrow> rows \<Rightarrow> rows) option \<Rightarrow> query_set \<Rightarrow> string \<Rightarrow> (world, doc list) prog" where
  "SearchRaw env fts qs term = searchRaw env fts qs term"

end
