(* ===== verification/Query_Lemmas.thy ===== *)
theory Query_Lemmas
  imports Query_Write Bulk_Properties
begin

text \<open>
  The read side neither changes the store nor the transaction, the terminals that write are neutral
  to the transaction of their caller, and rows are decoded one by one.
\<close>

section \<open>Reads\<close>

text \<open>\<open>reads m\<close>: \<open>m\<close> leaves the store and the transaction alone.\<close>

definition reads :: "(world, 'a) prog \<Rightarrow> bool" where
  "reads m \<longleftrightarrow> (\<forall>w r w'. m w = (r, w') \<longrightarrow> w_store w' = w_store w \<and> w_saved w' = w_saved w)"

definition reads_op :: "('d, 'a) op \<Rightarrow> bool" where
  "reads_op m \<longleftrightarrow> (\<forall>d w r d' w'. m (d, w) = (r, (d', w')) \<longrightarrow> w_store w' = w_store w \<and> w_saved w' = w_saved w)"

named_theorems reading

lemma readsD: "reads m \<Longrightarrow> m w = (r, w') \<Longrightarrow> w_store w' = w_store w \<and> w_saved w' = w_saved w"
  unfolding reads_def by blast

lemma readsI: "(\<And>w r w'. m w = (r, w') \<Longrightarrow> w_store w' = w_store w \<and> w_saved w' = w_saved w) \<Longrightarrow> reads m"
  unfolding reads_def by blast

lemma reads_opD: "reads_op m \<Longrightarrow> m (d, w) = (r, (d', w')) \<Longrightarrow> w_store w' = w_store w \<and> w_saved w' = w_saved w"
  unfolding reads_op_def by blast

lemma reads_opI: "(\<And>d w r d' w'. m (d, w) = (r, (d', w')) \<Longrightarrow> w_store w' = w_store w \<and> w_saved w' = w_saved w) \<Longrightarrow> reads_op m"
  unfolding reads_op_def by blast

lemma reads_basic [reading]: "reads (returnP x)" "reads (throwP e)" "reads (checkP c)" "reads fault" "reads ctx_err"
  "reads (collection_of env ty)"
  using fault_quiet ctx_quiet
  by (auto intro!: readsI simp: collection_of_def split: sum.splits) (cases c; auto)+

lemma reads_bind [reading]: "reads m \<Longrightarrow> (\<And>x. reads (f x)) \<Longrightarrow> reads (bindP m f)"
  by (rule readsI) (fastforce simp: bindP_def dest: readsD split: prod.splits outcome.splits)

lemma reads_map_err [reading]: "reads m \<Longrightarrow> reads (map_err h m)"
  by (rule readsI) (fastforce simp: map_err_def dest: readsD split: prod.splits outcome.splits)

lemma reads_if [reading]: "(b \<Longrightarrow> reads m) \<Longrightarrow> (\<not> b \<Longrightarrow> reads n) \<Longrightarrow> reads (if b then m else n)"
  by simp

lemma reads_Query [reading]: "reads (be_Query env c q)"
  unfolding be_Query_def
  by (rule reads_bind [OF reads_basic(4)]) (auto intro!: readsI split: option.splits)

lemma reads_Get [reading]: "reads (be_Get c i)"
  by (rule readsI) (rule be_Get_quiet)

lemma reads_Count [reading]: "reads (be_Count env c q)" "reads (be_Exists env c q)"
  unfolding be_Count_def be_Exists_def by (intro reading)+

lemma reads_drain [reading]: "reads (drainIter col rs)"
proof (induction rs)
  case (Cons r rs)
  obtain i j where r: "r = (i, j)" by fastforce
  have "drainIter col ((i, j) # rs) = bindP ctx_err (\<lambda>_. case decodeWithSnapshot j (ci_zero col) of
         (Some e, _) \<Rightarrow> throwP (Wrap ''decode'' [e])
       | (None, d) \<Rightarrow> bindP (drainIter col rs) (\<lambda>ds. returnP (d # ds)))"
    by (simp add: fun_eq_iff)
  moreover have "reads (case decodeWithSnapshot j (ci_zero col) of
         (Some e, _) \<Rightarrow> throwP (Wrap ''decode'' [e])
       | (None, d) \<Rightarrow> bindP (drainIter col rs) (\<lambda>ds. returnP (d # ds)))"
    using Cons by (auto intro!: reading split: prod.splits option.splits)
  ultimately show ?case by (auto simp: r intro!: reading)
qed (auto intro: readsI)

lemma reads_run_on [reading]: "reads_op m \<Longrightarrow> reads (run_on d m)"
  by (rule readsI) (auto simp: run_on_def dest: reads_opD split: prod.splits outcome.splits)

lemma decode_targets_reads:
  "decode_targets col ids rs w = (r, ts, w') \<Longrightarrow> w_store w' = w_store w \<and> w_saved w' = w_saved w"
proof (induction rs arbitrary: w r ts w')
  case (Cons x rs)
  obtain i j where x: "x = (i, j)" by fastforce
  obtain q w1 where c: "ctx_err w = (q, w1)" by fastforce
  show ?case
    using Cons.prems Cons.IH c ctx_quiet [OF c]
    by (cases q) (fastforce simp: x split: if_splits prod.splits option.splits)+
qed auto

lemma reads_batchResolveField:
  assumes "reads_op nested"
  shows "reads_op (batchResolveField env nested n ty)"
proof (rule reads_opI)
  fix docs w r docs' w' assume run: "batchResolveField env nested n ty (docs, w) = (r, (docs', w'))"
  show "w_store w' = w_store w \<and> w_saved w' = w_saved w"
  proof (cases "slot_ids n docs = [] \<or> (\<exists>e. collectionForType env ty = Inl e)")
    case True
    with run show ?thesis by (auto simp: batchResolveField_def Let_def split: if_splits)
  next
    case False
    then obtain col where col: "collectionForType env ty = Inr col" by (cases "collectionForType env ty") auto
    obtain q w1 where qu: "be_Query env (col_name col) (in_query col (slot_ids n docs)) w = (q, w1)" by fastforce
    note Q = readsD [OF reads_Query qu]
    show ?thesis
    proof (cases q)
      case (Ok rs)
      obtain t ts w2 where de: "decode_targets col (slot_ids n docs) rs w1 = (t, ts, w2)" by (metis prod_cases3)
      note D = decode_targets_reads [OF de]
      obtain u ts' w3 where ne: "nested (map snd ts, w2) = (u, (ts', w3))" by (metis prod_cases3)
      note N = reads_opD [OF assms ne]
      from run False col qu de ne Ok have "w' = w2 \<or> w' = w3"
        by (cases t) (simp_all add: batchResolveField_def Let_def split: option.splits)
      with Q D N show ?thesis by auto
    qed (use run False col qu Q in \<open>simp_all add: batchResolveField_def Let_def\<close>)
  qed
qed

lemma reads_forP: "(\<And>x. reads_op (f x)) \<Longrightarrow> reads_op (forP f xs)"
proof (induction xs)
  case (Cons x xs)
  show ?case
  proof (rule reads_opI)
    fix d w r d' w' assume run: "forP f (x # xs) (d, w) = (r, (d', w'))"
    obtain q d1 w1 where a: "f x (d, w) = (q, (d1, w1))" by (metis prod_cases3)
    obtain p d2 w2 where b: "forP f xs (d1, w1) = (p, (d2, w2))" by (metis prod_cases3)
    show "w_store w' = w_store w \<and> w_saved w' = w_saved w"
      using run a b reads_opD [OF Cons.prems a] reads_opD [OF Cons.IH [OF Cons.prems] b]
      by (cases q) (auto simp: bindP_def)
  qed
qed (auto intro: reads_opI)

lemma reads_resolve_levels: "reads_op (resolve_levels env mode depth)"
proof (induction depth)
  case (Suc depth)
  have "reads_op (forP (\<lambda>(n, ty, eager). batchResolveField env (resolve_levels env mode depth) n ty) xs)" for xs
    by (rule reads_forP) (auto intro: reads_batchResolveField Suc)
  then show ?case
    by (intro reads_opI) (auto dest: reads_opD split: if_splits)
qed (auto intro: reads_opI)

lemma reads_batchResolveLinks [reading]: "reads_op (batchResolveLinks env depth mode)"
  by (auto simp: batchResolveLinks_def reads_resolve_levels intro: reads_opI)

lemma iter_collect_reads:
  "iter_rows env qs col collect_yield rs ((e, ds), w) = (a, w') \<Longrightarrow> w_store w' = w_store w \<and> w_saved w' = w_saved w"
proof (induction rs arbitrary: e ds w a w')
  case (Cons x rs)
  obtain i j where x: "x = (i, j)" by fastforce
  obtain q w1 where c: "ctx_err w = (q, w1)" by fastforce
  note C = ctx_quiet [OF c]
  obtain er d where dec: "decodeWithSnapshot j (ci_zero col) = (er, d)" by fastforce
  let ?h = "if shouldHydrate qs (ci_zero col)
     then run_on [d] (batchResolveLinks env (qs_nestDepth qs) (qs_fetchMode qs)) w1 else (Ok [d], w1)"
  obtain p w2 where h: "?h = (p, w2)" by fastforce
  have H: "w_store w2 = w_store w1 \<and> w_saved w2 = w_saved w1"
    using h readsD [OF reads_run_on [OF reads_batchResolveLinks]] by (auto split: if_splits)
  show ?case
    using Cons.prems c C dec h H Cons.IH
    by (cases q; cases er; cases p) (auto simp: x collect_yield_def)
qed auto

lemma reads_All [reading]: "reads (All env qs)"
proof -
  have "reads (allBatched env qs)"
    unfolding allBatched_def by (intro reading)
  moreover have "reads (\<lambda>w. case Iter env qs collect_yield ((None, []), w) of
               ((Some e, _), w') \<Rightarrow> (Err e, w') | ((None, ds), w') \<Rightarrow> (Ok ds, w'))"
  proof (rule readsI)
    fix w r w' assume run: "(case Iter env qs collect_yield ((None, []), w) of
               ((Some e, _), w') \<Rightarrow> (Err e, w') | ((None, ds), w') \<Rightarrow> (Ok ds, w')) = (r, w')"
    obtain a w1 where it: "Iter env qs collect_yield ((None, []), w) = (a, w1)" by fastforce
    have "w_store w1 = w_store w \<and> w_saved w1 = w_saved w"
    proof (cases "preflight qs = None \<and> (\<exists>col. collectionForType env (qs_type qs) = Inr col)")
      case False
      with it show ?thesis
        by (auto simp: Iter_def collect_yield_def split: option.splits sum.splits)
    next
      case True
      then obtain col where col: "preflight qs = None" "collectionForType env (qs_type qs) = Inr col" by blast
      obtain q w2 where qu: "be_Query env (col_name col) (buildBackendQuery qs col) w = (q, w2)" by fastforce
      note Q = readsD [OF reads_Query qu]
      show ?thesis
      proof (cases q)
        case (Ok rs)
        with it col qu have "iter_rows env qs col collect_yield rs ((None, []), w2) = (a, w1)"
          by (simp add: Iter_def)
        with iter_collect_reads Q show ?thesis by metis
      qed (use it col qu Q in \<open>simp_all add: Iter_def collect_yield_def\<close>)
    qed
    with run it show "w_store w' = w_store w \<and> w_saved w' = w_saved w"
      by (auto split: prod.splits option.splits)
  qed
  ultimately show ?thesis
    unfolding All_def by (intro reading)
qed

lemma reads_First [reading]: "reads (First env qs)"
  unfolding First_def by (intro reading)

lemma reads_find [reading]:
  "reads (FindByID env ty s i opts)" "reads (FindByIDs env ty s is opts)" "reads (findOneStrict env ty s cs b)"
proof -
  show "reads (FindByID env ty s i opts)" unfolding FindByID_def by (intro reading)
  show "reads (FindByIDs env ty s is opts)" unfolding FindByIDs_def by (intro reading)
  have "reads (case rs of [] \<Rightarrow> throwP (Sent ErrNotFound) | [d] \<Rightarrow> returnP d
        | _ \<Rightarrow> throwP (Sent ErrMultipleMatches))" for rs :: "doc list"
    by (auto intro: reading split: list.splits)
  then show "reads (findOneStrict env ty s cs b)" unfolding findOneStrict_def Let_def by (intro reading)
qed

section \<open>Names of fields\<close>

text \<open>A name without a dot is a field of the struct itself; setting a nested field keeps the other fields of
  the document and its shape.\<close>

lemma field_at_plain:
  assumes "CHR ''.'' \<notin> set n"
  shows "field_at d n = (case field_of d n of None \<Rightarrow> Unknown | Some v \<Rightarrow> Slot v)"
    "field_of d n \<noteq> None \<Longrightarrow> put_field_at n u d = set_field n u d"
  using assms by (auto simp: field_at_def put_field_at_def field_of_def set_field_def split_on_free_word split: option.split)

lemma put_in_names: "map fst (put_in ks u fs) = map fst fs"
  by (cases ks) (auto split: option.split)

lemma put_field_at_other:
  assumes "split_on CHR ''.'' n = k # ks" "m \<noteq> k"
  shows "field_of (put_field_at n u d) m = field_of d m"
  using assms by (auto simp: put_field_at_def field_of_def map_of_set_in split: option.split)

text \<open>Nested fields: a struct by value, a nil pointer to a struct, and a part of an attachment.\<close>

lemma nested_names:
  "field_at (Doc ty [(''addr'', False, FStruct [(''city'', False, FStr c)])] tr) ''addr.city'' = Slot (FStr c)"
  "field_at (Doc ty [(''addr'', False, FStructPtr [(''city'', False, FStr [])] None)] tr) ''addr.city'' = Nil_parent"
  "field_at (Doc ty [(''file'', False, FAtt a)] tr) ''file.mime'' = Slot (FStr (Mime a))"
  "put_field_at ''addr.city'' (FStr x) (Doc ty [(''addr'', False, FStruct [(''city'', False, FStr c)])] tr)
    = Doc ty [(''addr'', False, FStruct [(''city'', False, FStr x)])] tr"
  by (simp_all add: field_at_def put_field_at_def below_pointer_def) (cases a; simp)

end
