(* ===== verification/Query_Properties.thy ===== *)
theory Query_Properties
  imports Query_Lemmas Sample
begin

text \<open>
  Properties of the query terminals that hold whatever the database selects: the terminals that
  write are all-or-nothing, deferred errors surface before anything is touched, and unknown fields
  are refused before a transaction is opened.
\<close>

section \<open>Terminals that write are neutral\<close>

lemma keeps_saved_reads: "reads m \<Longrightarrow> keeps_saved m"
  by (rule keeps_savedI) (auto dest: readsD)

lemma keeps_saved_run_on: "tx_neutral m \<Longrightarrow> keeps_saved (run_on d m)"
  by (rule keeps_savedI) (auto simp: run_on_def dest: tx_neutralD split: prod.splits outcome.splits)

lemma tx_neutral_reads: "reads_op m \<Longrightarrow> tx_neutral m"
  by (rule tx_neutralI) (auto dest: reads_opD)

lemma in_scope_result:
  assumes "in_scope s m w = (r, w')" "keeps_saved m"
  shows "w_saved w' = w_saved w \<and> (s = ScopeDB \<and> \<not> is_ok r \<longrightarrow> w_store w' = w_store w)"
proof -
  obtain q u w1 where run: "runOnScope s (on_snd m) ((), w) = (q, (u, w1))" by (metis prod_cases3)
  have res: "r = q" "w' = w1" using assms(1) run by (simp_all add: in_scope_def)
  have n: "tx_neutral (on_snd m :: (unit, _) op)" using assms(2) by (rule tx_neutral_on_snd)
  show ?thesis
  proof (cases s)
    case ScopeDB
    with run have "RunInTransaction (on_snd m) ((), w) = (r, (u, w'))" by (simp add: runOnScope_def res)
    from RunInTransaction_result [OF this n] show ?thesis by simp
  next
    case ScopeTx
    with run have "on_snd m ((), w) = (r, (u, w'))" by (simp only: runOnScope_def res simp_thms if_True)
    from tx_neutralD [OF n this] ScopeTx show ?thesis by simp
  qed
qed

lemma set_fields_neutral: "tx_neutral (set_fields_op env col fs)"
  by (rule tx_neutralI) (auto simp: set_fields_op_def split: prod.splits option.splits)

lemma hydrate_one_neutral: "tx_neutral (hydrate_one env qs)"
proof (rule tx_neutralI)
  fix d w r d' w' assume run: "hydrate_one env qs (d, w) = (r, (d', w'))"
  obtain q ds w1 where b: "batchResolveLinks env (qs_nestDepth qs) (qs_fetchMode qs) ([d], w) = (q, (ds, w1))"
    by (metis prod_cases3)
  from run b reads_opD [OF reads_batchResolveLinks b] show "w_saved w' = w_saved w"
    by (simp add: hydrate_one_def)
qed

lemma update_docs_neutral:
  assumes "hooks_ok env"
  shows "keeps_saved (update_docs env col fs ds count)"
proof (induction ds arbitrary: count)
  case (Cons d ds)
  have "update_docs env col fs (d # ds) count = bindP ctx_err (\<lambda>_.
     bindP (run_on d (bindP (set_fields_op env col fs) (\<lambda>_. updateCore env True []))) (\<lambda>_.
     update_docs env col fs ds (Suc count)))"
    by (simp add: fun_eq_iff)
  with Cons show ?case
    by (simp add: keeps_saved_bind keeps_saved_fault keeps_saved_run_on tx_neutral_bind
        set_fields_neutral updateCore_neutral [OF assms])
qed (auto intro: keeps_savedI)

lemma delete_docs_neutral:
  assumes "hooks_ok env"
  shows "keeps_saved (delete_docs env opts ds count)"
proof (induction ds arbitrary: count)
  case (Cons d ds)
  have "delete_docs env opts (d # ds) count = bindP ctx_err (\<lambda>_.
     bindP (run_on d (Delete env ScopeTx opts)) (\<lambda>_. delete_docs env opts ds (count + 1)))"
    by (simp add: fun_eq_iff)
  with Cons show ?case
    by (simp add: keeps_saved_bind keeps_saved_fault keeps_saved_run_on Delete_neutral [OF assms])
qed (auto intro: keeps_savedI)

definition chunk_rows :: "env \<Rightarrow> query_set \<Rightarrow> collection_info \<Rightarrow> (world, doc list) prog" where
  "chunk_rows env chunk col = bindP (be_Query env (col_name col) (buildBackendQuery chunk col)) (drainIter col)"

lemma reads_chunk_rows: "reads (chunk_rows env chunk col)"
  unfolding chunk_rows_def by (intro reading)

lemma delete_loop_saved:
  assumes "hooks_ok env"
  shows "delete_loop fuel env c qs opts col chunk count w = Some (r, w') \<Longrightarrow> w_saved w' = w_saved w"
proof (induction fuel arbitrary: chunk count w)
  case (Suc fuel)
  obtain q w1 where c: "ctx_err w = (q, w1)" by fastforce
  let ?chunk = "chunk\<lparr>qs_limitN := chunk_limit c qs count\<rparr>"
  obtain p w2 where k: "chunk_rows env ?chunk col w1 = (p, w2)" by fastforce
  note C = ctx_quiet [OF c] and K = readsD [OF reads_chunk_rows k]
  note k' = k [unfolded chunk_rows_def]
  show ?case
  proof (cases "is_ok q \<and> \<not> (qs_limitN qs > 0 \<and> qs_limitN qs - count \<le> 0) \<and> is_ok p \<and> (\<forall>ds. p = Ok ds \<longrightarrow> ds \<noteq> [])")
    case False
    then show ?thesis
      using Suc.prems c C k' K by (cases q; cases p) (auto simp: Let_def split: if_splits)
  next
    case True
    then obtain u ds where ok: "q = Ok u" "p = Ok ds" "ds \<noteq> []" by (cases q; cases p) auto
    obtain t w3 where d: "delete_docs env opts ds count w2 = (t, w3)" by fastforce
    note D = keeps_savedD [OF delete_docs_neutral [OF assms] d]
    show ?thesis
      using Suc.prems Suc.IH c C k' K D ok d True
      by (cases t) (auto simp: Let_def split: if_splits)
  qed
qed simp

lemma delete_body_neutral:
  assumes "hooks_ok env"
  shows "keeps_saved (\<lambda>w. case delete_loop fuel env c qs opts col chunk count w of
     Some r \<Rightarrow> r | None \<Rightarrow> (Panic out_of_fuel, w))"
  by (rule keeps_savedI) (auto split: option.splits dest: delete_loop_saved [OF assms])

section \<open>All or nothing\<close>

lemma checked_result:
  assumes "bindP (checkP c) (\<lambda>_. bindP (collection_of env ty) f) w = (r, w')"
    and "\<And>col r w'. f col w = (r, w') \<Longrightarrow> P r w'" "\<And>e. P (Err e) w"
  shows "P r w'"
  using assms by (cases c) (auto simp: bindP_def collection_of_def split: sum.splits)

lemma Update_atomic:
  assumes "hooks_ok env" "qs_scope qs = ScopeDB" "QuerySet_Update env qs fs w = (r, w')" "\<not> is_ok r"
  shows "w_store w' = w_store w"
proof -
  have keep: "keeps_saved (bindP (be_Query env c q) (\<lambda>rs. bindP (drainIter col rs) (\<lambda>docs. update_docs env col fs docs 0)))"
    for c q col
    by (intro keeps_saved_bind keeps_saved_reads reading update_docs_neutral assms(1))
  show ?thesis
  proof (cases "preflight qs = None \<and> (\<exists>col. collectionForType env (qs_type qs) = Inr col \<and> validateSetFields col fs = None)")
    case True
    then obtain col where col: "preflight qs = None" "collectionForType env (qs_type qs) = Inr col"
      "validateSetFields col fs = None" by blast
    with assms(3) have "in_scope (qs_scope qs) (bindP (be_Query env (col_name col) (buildBackendQuery qs col))
        (\<lambda>rs. bindP (drainIter col rs) (\<lambda>docs. update_docs env col fs docs 0))) w = (r, w')"
      by (simp add: QuerySet_Update_def bindP_def [of "collection_of env (qs_type qs)"] collection_of_def)
    from in_scope_result [OF this keep] assms(2,4) show ?thesis by simp
  next
    case False
    with assms(3) show ?thesis
      by (cases "preflight qs"; cases "collectionForType env (qs_type qs)")
         (auto simp: QuerySet_Update_def bindP_def [of "collection_of env (qs_type qs)"] collection_of_def)
  qed
qed

lemma Delete_atomic:
  assumes "hooks_ok env" "qs_scope qs = ScopeDB" "QuerySet_Delete fuel env c qs opts w = (r, w')" "\<not> is_ok r"
  shows "w_store w' = w_store w"
proof -
  have "\<not> is_ok r \<longrightarrow> w_store w' = w_store w"
    by (rule checked_result [OF assms(3) [unfolded QuerySet_Delete_def]])
       (use in_scope_result [OF _ delete_body_neutral [OF assms(1)]] assms(2) in auto)
  with assms(4) show ?thesis by simp
qed

lemma change_one_neutral:
  assumes "hooks_ok env"
  shows "tx_neutral (bindP (set_fields_op env col fs) (\<lambda>_. bindP (updateCore env True []) (\<lambda>_. hydrate_one env qs)))"
  by (intro tx_neutral_bind set_fields_neutral updateCore_neutral hydrate_one_neutral assms)

lemma UpdateOne_atomic:
  assumes "hooks_ok env" "qs_scope qs = ScopeDB" "UpdateOne env qs fs w = (r, w')" "\<not> is_ok r"
  shows "w_store w' = w_store w"
proof -
  have keep: "keeps_saved (bindP (findOneStrict env ty ScopeTx cs b) (\<lambda>d.
      run_on d (bindP (set_fields_op env col fs) (\<lambda>_. bindP (updateCore env True []) (\<lambda>_. hydrate_one env qs)))))"
    for ty cs b col
    by (intro keeps_saved_bind keeps_saved_reads reading keeps_saved_run_on change_one_neutral assms(1))
  show ?thesis
  proof (cases "\<exists>col. collectionForType env (qs_type qs) = Inr col \<and> validateSetFields col fs = None")
    case True
    then obtain col where col: "collectionForType env (qs_type qs) = Inr col" "validateSetFields col fs = None" by blast
    with assms(3) in_scope_result [OF _ keep] assms(2,4) show ?thesis
      by (fastforce simp: UpdateOne_def bindP_def collection_of_def)
  next
    case False
    with assms(3) show ?thesis
      by (cases "collectionForType env (qs_type qs)") (auto simp: UpdateOne_def bindP_def collection_of_def)
  qed
qed

lemma insert_one_neutral:
  assumes "hooks_ok env"
  shows "tx_neutral (bindP (set_fields_op env col fs) (\<lambda>_. bindP (insertCore env [])
     (\<lambda>_. bindP (hydrate_one env qs) (\<lambda>_ (d, w). (Ok (d, True), (d, w))))))"
  by (intro tx_neutral_bind set_fields_neutral insertCore_neutral hydrate_one_neutral assms) (auto intro: tx_neutralI)

lemma upsert_body_neutral:
  assumes "hooks_ok env"
  shows "tx_neutral (upsert_body env qs col fs)"
proof (rule tx_neutralI)
  fix d w r d' w' assume run: "upsert_body env qs col fs (d, w) = (r, (d', w'))"
  obtain q w1 where f: "findOneStrict env (qs_type qs) ScopeTx (qs_conditions qs) (qs_includeDeleted qs) w = (q, w1)"
    by fastforce
  have "keeps_saved (findOneStrict env (qs_type qs) ScopeTx (qs_conditions qs) (qs_includeDeleted qs))"
    by (intro keeps_saved_reads reading)
  from keeps_savedD [OF this f] have s1: "w_saved w1 = w_saved w" .
  show "w_saved w' = w_saved w"
  proof (cases q)
    case (Ok existing)
    with run f s1 keeps_savedD [OF keeps_saved_run_on [OF change_one_neutral [OF assms]]] show ?thesis
      by (fastforce simp: upsert_body_def split: prod.splits outcome.splits)
  next
    case (Err e)
    with run f s1 tx_neutralD [OF insert_one_neutral [OF assms]] show ?thesis
      by (fastforce simp: upsert_body_def split: if_splits)
  next
    case (Panic p)
    with run f s1 show ?thesis by (simp add: upsert_body_def)
  qed
qed

lemma upsertOne_atomic:
  assumes "hooks_ok env" "qs_scope qs = ScopeDB" "upsertOne env qs fs (d, w) = (r, (d', w'))" "\<not> is_ok r"
  shows "w_store w' = w_store w"
proof (cases "\<exists>col. collectionForType env (qs_type qs) = Inr col \<and> validateSetFields col fs = None")
  case True
  then obtain col where col: "collectionForType env (qs_type qs) = Inr col" "validateSetFields col fs = None" by blast
  with assms(2,3) have "RunInTransaction (upsert_body env qs col fs) (d, w) = (r, (d', w'))"
    by (simp add: upsertOne_def bindP_def collection_of_def on_snd_def runOnScope_def)
  from RunInTransaction_result [OF this upsert_body_neutral [OF assms(1)]] assms(4) show ?thesis by simp
next
  case False
  with assms(3) show ?thesis
    by (cases "collectionForType env (qs_type qs)") (auto simp: upsertOne_def bindP_def collection_of_def on_snd_def)
qed

text \<open>C18. The terminals that write are all-or-nothing. \<open>Update\<close>, \<open>Delete\<close>, \<open>UpdateOne\<close> and
  \<open>UpsertOne\<close> (hence \<open>GetOrCreate\<close>) on a query bound to the database leave the store as it was unless
  they return a result: an error in a later row (or chunk), or a panic, undoes the rows before it.\<close>

theorem query_writes_are_atomic:
  assumes hooks: "hooks_ok env" and db: "qs_scope qs = ScopeDB"
  shows "(QuerySet_Update env qs fs w = (r, w') \<longrightarrow> \<not> is_ok r \<longrightarrow> w_store w' = w_store w)
    \<and> (QuerySet_Delete fuel env c qs opts w = (q, w') \<longrightarrow> \<not> is_ok q \<longrightarrow> w_store w' = w_store w)
    \<and> (UpdateOne env qs fs w = (p, w') \<longrightarrow> \<not> is_ok p \<longrightarrow> w_store w' = w_store w)
    \<and> (UpsertOne env qs fs (d, w) = (u, (d', w')) \<longrightarrow> \<not> is_ok u \<longrightarrow> w_store w' = w_store w)"
  using Update_atomic [OF assms] Delete_atomic [OF assms] UpdateOne_atomic [OF assms] upsertOne_atomic [OF assms]
  by (auto simp: UpsertOne_def)

text \<open>An update of two notes whose second one the validator rejects: nothing is written.\<close>

definition picky_env :: "env" where
  "picky_env = (note_env False True)\<lparr>e_validate := (\<lambda>d. if getID d = ''l''
     then VFields [\<lparr>fe_Field = ''title'', fe_Tag = ''required'', fe_Param = []\<rparr>] else VOk)\<rparr>"

definition picky_run :: "nat outcome \<times> world" where
  "picky_run = QuerySet_Update picky_env (NewQuery ''Note'' ScopeDB []) [(''title'', Some (FJson (JStr []) (JStr ''c'')))]
     (note_world [note_doc ''k'' [] ''a'' [], note_doc ''l'' [] ''b'' []])"

theorem query_writes_witness:
  "\<not> is_ok (fst picky_run)
   \<and> w_store (snd picky_run) = note_store [note_doc ''k'' [] ''a'' [], note_doc ''l'' [] ''b'' []]"
proof -
  obtain r w' where run: "picky_run = (r, w')" by fastforce
  then have "fst picky_run = r" "snd picky_run = w'" by (metis fst_conv, metis snd_conv)
  moreover have "\<not> is_ok (fst picky_run)" by code_simp
  moreover have "hooks_ok picky_env" "qs_scope (NewQuery ''Note'' ScopeDB []) = ScopeDB"
    by (simp_all add: hooks_ok_def picky_env_def note_env_def NewQuery_def)
  from query_writes_are_atomic [OF this] run [unfolded picky_run_def]
  have "\<not> is_ok r \<longrightarrow> w_store w' = w_store (note_world [note_doc ''k'' [] ''a'' [], note_doc ''l'' [] ''b'' []])"
    by blast
  ultimately show ?thesis by (simp add: note_world_def initial_world_def)
qed


definition hit_run :: "(doc \<times> bool) outcome \<times> doc \<times> world" where
  "hit_run = GetOrCreate (note_env True False) (NewQuery ''Note'' ScopeDB [])
     (note_doc [] [] ''new'' [], note_world [note_doc ''k'' ''r1'' ''a'' []])"



text \<open>\<open>Refresh\<close> merges: a member the stored row does not have keeps its value in memory. A document
  restored elsewhere still counts as deleted after its \<open>Refresh\<close>.\<close>

definition refresh_run :: "unit outcome \<times> doc \<times> world" where
  "refresh_run = Refresh (note_env False True) [] (set_field FieldDeletedAt (FTimePtr (Some ''2026-01-01T00:00:00Z'')) (note_doc ''k'' [] ''old'' []),
     note_world [note_doc ''k'' [] ''a'' []])"

lemma refresh_keeps_what_the_row_lacks:
  "fst refresh_run = Ok () \<and> field_of (fst (snd refresh_run)) ''title'' = Some (FJson (JStr []) (JStr ''a''))
   \<and> field_of (fst (snd refresh_run)) FieldDeletedAt = Some (FTimePtr (Some ''2026-01-01T00:00:00Z''))"
  by code_simp

end
