(* ===== verification/Select_Properties.thy ===== *)
theory Select_Properties
  imports Query_Properties
begin

text \<open>
  What the queries return. The evaluation of a SELECT belongs to the database, so these properties
  assume \<open>select_ok\<close>: rows come from the table, each at most once and no more than the limit allows;
  no row that falsifies a condition is returned; and without cursors, offset and skipped locks, every
  row that satisfies all conditions is returned, unless the limit is reached. \<open>cond_sem\<close> gives the
  meaning of the conditions the engine builds itself: equality with a string, membership in a list of
  strings, and absence. \<open>norm_ok\<close> says that the stored normal form of an encoded document reads like
  the encoding. Both are what SQLite and PostgreSQL document; \<open>note_select\<close> is a concrete selection
  that satisfies \<open>select_ok\<close>.
\<close>

section \<open>The database's side of the contract\<close>

definition text_sem :: "json \<Rightarrow> string \<Rightarrow> (string \<Rightarrow> bool) \<Rightarrow> bool option" where
  "text_sem j f P = (case json_extract j f of None \<Rightarrow> Some False | Some (JStr s) \<Rightarrow> Some (P s) | _ \<Rightarrow> None)"

fun cond_sem :: "condition \<Rightarrow> json \<Rightarrow> bool option" where
  "cond_sem (FieldCond f oper v vs) j =
     (if oper = OpEq then (case v of GStr t \<Rightarrow> text_sem j f (\<lambda>s. s = t) | _ \<Rightarrow> None)
      else if oper = OpIn then text_sem j f (\<lambda>s. GStr s \<in> set vs)
      else if oper = OpIsNil then Some (json_extract j f = None)
      else None)"
| "cond_sem (LogicalCond l cs) j = None"
| "cond_sem (NotCond c) j = None"
| "cond_sem NilCond j = None"

definition satisfies :: "query \<Rightarrow> json \<Rightarrow> bool" where
  "satisfies q j \<longleftrightarrow> list_all (\<lambda>c. cond_sem c j = Some True) (Conditions q)"

definition falsifies :: "query \<Rightarrow> json \<Rightarrow> bool" where
  "falsifies q j \<longleftrightarrow> list_ex (\<lambda>c. cond_sem c j = Some False) (Conditions q)"

definition select_ok :: "env \<Rightarrow> bool" where
  "select_ok env \<longleftrightarrow> (\<forall>q rs. distinct (map fst rs) \<longrightarrow>
     set (e_select env q rs) \<subseteq> set rs \<and> distinct (map fst (e_select env q rs))
     \<and> (LimitN q > 0 \<longrightarrow> length (e_select env q rs) \<le> nat (LimitN q))
     \<and> (\<forall>(i, j) \<in> set (e_select env q rs). \<not> falsifies q j)
     \<and> (AfterID q = [] \<and> BeforeID q = [] \<and> SkipN q \<le> 0 \<and> Lock q \<noteq> Some LockSkipLocked \<longrightarrow>
          (\<forall>(i, j) \<in> set rs. satisfies q j \<longrightarrow> (i, j) \<in> set (e_select env q rs)
             \<or> (LimitN q > 0 \<and> length (e_select env q rs) = nat (LimitN q)))))"

lemma select_okD:
  assumes "select_ok env" "distinct (map fst rs)"
  shows "set (e_select env q rs) \<subseteq> set rs" "distinct (map fst (e_select env q rs))"
    "LimitN q > 0 \<Longrightarrow> length (e_select env q rs) \<le> nat (LimitN q)"
    "(i, j) \<in> set (e_select env q rs) \<Longrightarrow> \<not> falsifies q j"
    "AfterID q = [] \<Longrightarrow> BeforeID q = [] \<Longrightarrow> SkipN q \<le> 0 \<Longrightarrow> Lock q \<noteq> Some LockSkipLocked \<Longrightarrow>
       (i, j) \<in> set rs \<Longrightarrow> satisfies q j \<Longrightarrow>
       (i, j) \<in> set (e_select env q rs) \<or> (LimitN q > 0 \<and> length (e_select env q rs) = nat (LimitN q))"
proof -
  note S = assms(1) [unfolded select_ok_def, rule_format, OF assms(2), of q]
  show "set (e_select env q rs) \<subseteq> set rs" "distinct (map fst (e_select env q rs))"
    "LimitN q > 0 \<Longrightarrow> length (e_select env q rs) \<le> nat (LimitN q)"
    using S by auto
  show "(i, j) \<in> set (e_select env q rs) \<Longrightarrow> \<not> falsifies q j"
    using S by blast
  show "AfterID q = [] \<Longrightarrow> BeforeID q = [] \<Longrightarrow> SkipN q \<le> 0 \<Longrightarrow> Lock q \<noteq> Some LockSkipLocked \<Longrightarrow>
       (i, j) \<in> set rs \<Longrightarrow> satisfies q j \<Longrightarrow>
       (i, j) \<in> set (e_select env q rs) \<or> (LimitN q > 0 \<and> length (e_select env q rs) = nat (LimitN q))"
    using S by blast
qed

definition norm_ok :: "env \<Rightarrow> bool" where
  "norm_ok env \<longleftrightarrow> (\<forall>d. wf_doc d \<longrightarrow>
     (\<forall>f. json_extract (e_norm env (Document.encode d)) f = json_extract (Document.encode d) f)
     \<and> decode_into (e_norm env (Document.encode d)) (zero_doc d) = decode_into (Document.encode d) (zero_doc d))"

text \<open>A table as the engine leaves it: every row under the identifier in its document.\<close>

definition rows_ok :: "rows \<Rightarrow> bool" where
  "rows_ok rs \<longleftrightarrow> distinct (map fst rs) \<and> list_all (\<lambda>(i, j). json_extract j ''_id'' = Some (JStr i)) rs"

definition table_ok :: "store \<Rightarrow> string \<Rightarrow> bool" where
  "table_ok st c \<longleftrightarrow> (case st_tables st c of None \<Rightarrow> False | Some rs \<Rightarrow> rows_ok rs)"

definition calm :: "world \<Rightarrow> bool" where
  "calm w \<longleftrightarrow> w_faults w = [] \<and> w_polls w = []"

lemma calm_ctx [simp]: "calm w \<Longrightarrow> ctx_err w = (Ok (), w)" "calm w \<Longrightarrow> fault w = (Ok (), w)"
  by (simp_all add: calm_def ctx_err_def fault_def)

lemma be_Query_calm:
  "calm w \<Longrightarrow> st_tables (w_store w) c = Some rs \<Longrightarrow> be_Query env c q w = (Ok (e_select env q rs), w)"
  by (simp add: be_Query_def bindP_def)

section \<open>A concrete selection\<close>

definition note_select :: "query \<Rightarrow> rows \<Rightarrow> rows" where
  "note_select q rs = (let ms = filter (\<lambda>(i, j). satisfies q j) rs;
      ms = (if SkipN q > 0 then drop (nat (SkipN q)) ms else ms)
     in if LimitN q > 0 then take (nat (LimitN q)) ms else ms)"

lemma satisfies_falsifies: "satisfies q j \<Longrightarrow> \<not> falsifies q j"
  by (auto simp: satisfies_def falsifies_def list_all_iff list_ex_iff)

lemma note_select_ok:
  assumes "e_select env = note_select"
  shows "select_ok env"
proof -
  define ms where "ms q rs = (let ms = filter (\<lambda>(i, j). satisfies q j) rs
      in if SkipN q > 0 then drop (nat (SkipN q)) ms else ms)" for q and rs :: rows
  have sel: "note_select q rs = (if LimitN q > 0 then take (nat (LimitN q)) (ms q rs) else ms q rs)" for q rs
    by (simp add: note_select_def ms_def Let_def)
  have sub: "set (ms q rs) \<subseteq> {(i, j) \<in> set rs. satisfies q j}" for q rs
    by (auto simp: ms_def Let_def dest: in_set_dropD)
  have sub2: "set (note_select q rs) \<subseteq> set (ms q rs)" for q rs
    by (auto simp: sel dest: in_set_takeD)
  have dist: "distinct (map fst (ms q rs))" if "distinct (map fst rs)" for q rs
    using that by (simp add: ms_def Let_def distinct_map_filter drop_map [symmetric])
  have dist2: "distinct (map fst (note_select q rs))" if "distinct (map fst rs)" for q rs
    using dist [OF that] by (simp add: sel take_map [symmetric])
  have full: "(i, j) \<in> set (note_select q rs) \<or> (LimitN q > 0 \<and> length (note_select q rs) = nat (LimitN q))"
    if "SkipN q \<le> 0" "(i, j) \<in> set rs" "satisfies q j" for q rs i j
  proof -
    have "(i, j) \<in> set (ms q rs)" using that by (simp add: ms_def)
    moreover have "take (nat (LimitN q)) (ms q rs) = ms q rs" if "length (ms q rs) \<le> nat (LimitN q)"
      using that by simp
    ultimately show ?thesis by (cases "length (ms q rs) \<le> nat (LimitN q)") (auto simp: sel)
  qed
  have len: "LimitN q > 0 \<longrightarrow> length (note_select q rs) \<le> nat (LimitN q)" for q rs
    by (simp add: sel)
  have "set (note_select q rs) \<subseteq> set rs" for q rs using sub [of q rs] sub2 [of q rs] by auto
  moreover have "\<forall>(i, j) \<in> set (note_select q rs). \<not> falsifies q j" for q rs
    using sub [of q rs] sub2 [of q rs] satisfies_falsifies by blast
  moreover have "\<forall>(i, j) \<in> set rs. satisfies q j \<longrightarrow> (i, j) \<in> set (note_select q rs)
             \<or> (LimitN q > 0 \<and> length (note_select q rs) = nat (LimitN q))" if "SkipN q \<le> 0" for q rs
    using full [OF that] by blast
  ultimately show ?thesis
    unfolding select_ok_def assms using dist2 len by simp
qed

section \<open>Lookup by identifier\<close>

lemma rows_okD:
  "rows_ok rs \<Longrightarrow> (i, j) \<in> set rs \<Longrightarrow> json_extract j ''_id'' = Some (JStr i)"
  by (auto simp: rows_ok_def list_all_iff)

lemma cond_sem_id [simp]:
  "json_extract j ''_id'' = Some (JStr k) \<Longrightarrow> cond_sem (Eq (Field ''_id'') (GStr i)) j = Some (k = i)"
  "json_extract j ''_id'' = Some (JStr k) \<Longrightarrow>
     cond_sem (In (Field ''_id'') (map GStr ids)) j = Some (k \<in> set ids)"
  by (auto simp: Eq_def In_def Field_def text_sem_def)

lemma select_by_id:
  assumes sel: "select_ok env" and rs: "rows_ok rs"
    and q: "Conditions q = [Eq (Field ''_id'') (GStr i)]" "LimitN q = 1" "AfterID q = []" "BeforeID q = []"
      "SkipN q \<le> 0" "Lock q \<noteq> Some LockSkipLocked"
  shows "e_select env q rs = (case map_of rs i of None \<Rightarrow> [] | Some j \<Rightarrow> [(i, j)])"
proof -
  have dist: "distinct (map fst rs)" using rs by (simp add: rows_ok_def)
  let ?s = "e_select env q rs"
  note D = select_okD [OF sel dist, where q = q]
  have S: "set ?s \<subseteq> set rs" "length ?s \<le> 1" "\<And>k j. (k, j) \<in> set ?s \<Longrightarrow> \<not> falsifies q j"
    "\<And>k j. (k, j) \<in> set rs \<Longrightarrow> satisfies q j \<Longrightarrow> (k, j) \<in> set ?s \<or> length ?s = 1"
    using D(1) D(3) q(2) D(4) D(5) [OF q(3-6)] by auto
  have only: "k = i \<and> map_of rs i = Some j" if "(k, j) \<in> set ?s" for k j
  proof -
    from that S(1) have in_rs: "(k, j) \<in> set rs" by auto
    from S(3) [OF that] rows_okD [OF rs in_rs] q(1) have "k = i" by (simp add: falsifies_def)
    with in_rs dist show ?thesis by (simp add: map_of_is_SomeI)
  qed
  show ?thesis
  proof (cases "map_of rs i")
    case None
    with only have "\<And>x. x \<notin> set ?s" by (metis option.distinct(1) prod.collapse)
    then have "?s = []" by (metis list.set_intros(1) neq_Nil_conv)
    then show ?thesis by (simp add: None)
  next
    case (Some j)
    then have in_rs: "(i, j) \<in> set rs" by (rule map_of_SomeD)
    with rows_okD [OF rs in_rs] q(1) have "satisfies q j" by (simp add: satisfies_def)
    with S(4) [OF in_rs] have "?s \<noteq> []" by auto
    with S(2) obtain x where "?s = [x]" by (cases ?s) auto
    with only [of "fst x" "snd x"] Some show ?thesis by (cases x) auto
  qed
qed

lemma All_stream:
  assumes "preflight qs = None" "\<not> type_hydrates env qs" "collectionForType env (qs_type qs) = Inr col"
    and "be_Query env (col_name col) (buildBackendQuery qs col) w = (Ok rs, w1)"
  shows "All env qs w = (case iter_rows env qs col collect_yield rs ((None, []), w1) of
     ((Some e, ds), w') \<Rightarrow> (Err e, w') | ((None, ds), w') \<Rightarrow> (Ok ds, w'))"
  using assms by (simp add: All_def Iter_def)

lemma collect_stream:
  assumes "\<not> shouldHydrate qs (ci_zero col)" "calm w"
    and "list_all2 (\<lambda>(i, j) d. decodeWithSnapshot j (ci_zero col) = (None, d)) rs ds"
  shows "iter_rows env qs col collect_yield rs ((None, acc), w) = ((None, acc @ ds), w)"
  using assms(3)
proof (induction rs arbitrary: acc ds)
  case (Cons x rs)
  then obtain i j d ds' where "x = (i, j)" "ds = d # ds'" "decodeWithSnapshot j (ci_zero col) = (None, d)"
    "list_all2 (\<lambda>(i, j) d. decodeWithSnapshot j (ci_zero col) = (None, d)) rs ds'"
    by (cases x; cases ds) auto
  with Cons.IH [of ds' "acc @ [d]"] assms(1,2) show ?case by (simp add: collect_yield_def)
qed simp

lemma type_hydrates_none: "qs_fetchMode qs = FetchNone \<Longrightarrow> \<not> type_hydrates env qs \<and> \<not> shouldHydrate qs z"
  by (auto simp: type_hydrates_def shouldHydrate_def split: sum.splits)

lemma FindByID_query:
  fixes ty i :: string and s :: scope
  assumes "suppressFetchLinks (applyCRUDOpts opts)"
  defines "qs \<equiv> Limit 1 (IncludeDeleted_qs (querySetFromOpts ty s [Eq (Field ''_id'') (GStr i)] opts))"
  shows "qs_type qs = ty" "qs_fetchMode qs = FetchNone" "preflight qs = None"
    "Conditions (buildBackendQuery qs col) = [Eq (Field ''_id'') (GStr i)]"
    "LimitN (buildBackendQuery qs col) = 1" "AfterID (buildBackendQuery qs col) = []"
    "BeforeID (buildBackendQuery qs col) = []" "SkipN (buildBackendQuery qs col) \<le> 0"
    "Lock (buildBackendQuery qs col) \<noteq> Some LockSkipLocked"
  using assms
  by (auto simp: qs_def Limit_def IncludeDeleted_qs_def querySetFromOpts_def crudFetchMode_def
      WithoutFetchLinks_qs_def NewQuery_def Let_def preflight_def buildBackendQuery_def allConditions_def)

lemma find_by_id_row:
  assumes sel: "select_ok env" and col: "collectionForType env ty = Inr col"
    and tab: "table_ok (w_store w) (col_name col)" and calm: "calm w"
    and opts: "suppressFetchLinks (applyCRUDOpts opts)"
  shows "FindByID env ty s i opts w =
    ((case st_get (w_store w) (col_name col) i of
        None \<Rightarrow> Err (Sent ErrNotFound)
      | Some j \<Rightarrow> (case decodeWithSnapshot j (ci_zero col) of
            (Some e, d) \<Rightarrow> Err (Wrap ''decode'' [e]) | (None, d) \<Rightarrow> Ok d)), w)"
proof -
  let ?qs = "Limit 1 (IncludeDeleted_qs (querySetFromOpts ty s [Eq (Field ''_id'') (GStr i)] opts))"
  note Q = FindByID_query [OF opts, of ty s i]
  obtain rs where rs: "st_tables (w_store w) (col_name col) = Some rs" "rows_ok rs"
    using tab by (auto simp: table_ok_def split: option.splits)
  have sel': "e_select env (buildBackendQuery ?qs col) rs = (case map_of rs i of None \<Rightarrow> [] | Some j \<Rightarrow> [(i, j)])"
    by (rule select_by_id [OF sel rs(2)]) (rule Q)+
  have get: "st_get (w_store w) (col_name col) i = map_of rs i" by (simp add: st_get_def rs)
  note A = All_stream [OF Q(3) conjunct1 [OF type_hydrates_none [OF Q(2)]], unfolded Q(1), OF col
      be_Query_calm [OF calm rs(1)]]
  note nh = conjunct2 [OF type_hydrates_none [OF Q(2)], rule_format]
  show ?thesis
    using A sel' get calm nh
    by (auto simp: FindByID_def First_def bindP_def collect_yield_def split: option.splits prod.splits)
qed

text \<open>\<open>FindByID\<close> (without link hydration) returns the document stored under the identifier,
  soft-deleted or not: it decodes exactly that row; if there is no such row it reports
  \<open>ErrNotFound\<close>, and nothing else changes.\<close>

theorem find_by_id_reads_the_row:
  assumes sel: "select_ok env" and col: "collectionForType env ty = Inr col"
    and tab: "table_ok (w_store w) (col_name col)" and calm: "calm w"
    and opts: "suppressFetchLinks (applyCRUDOpts opts)"
  shows "FindByID env ty s i opts w =
    ((case st_get (w_store w) (col_name col) i of
        None \<Rightarrow> Err (Sent ErrNotFound)
      | Some j \<Rightarrow> (case decodeWithSnapshot j (ci_zero col) of
            (Some e, d) \<Rightarrow> Err (Wrap ''decode'' [e]) | (None, d) \<Rightarrow> Ok d)), w)"
  by (rule find_by_id_row [OF assms])

section \<open>Save, then find\<close>

lemma path_id: "split_on CHR ''.'' (SanitizeFieldName ''_id'') = [''_id'']"
  by code_simp

lemma path_deleted: "split_on CHR ''.'' (SanitizeFieldName ''_deleted_at'') = [''_deleted_at'']"
  by code_simp

lemma extract_id:
  assumes "distinct (map fst (doc_fields d))" "field_of d FieldID = Some (FStr i)" "i \<noteq> []"
  shows "json_extract (Document.encode d) ''_id'' = Some (JStr i)"
proof -
  obtain oe where "map_of (doc_fields d) ''_id'' = Some (oe, FStr i)"
    using assms(2) by (auto simp: field_of_def FieldID_def)
  then have "map_of (enc_fields (doc_fields d)) ''_id'' = Some (JStr i)"
    using map_of_enc_fields [OF assms(1), of "''_id''"] assms(3) by simp
  then show ?thesis by (simp add: json_extract_def path_id Document.encode_def)
qed

lemma rows_ok_update:
  assumes "rows_ok rs" "json_extract j ''_id'' = Some (JStr i)"
  shows "rows_ok (AList.update i j rs)"
proof -
  have "distinct (map fst (AList.update i j rs))" using assms(1) by (simp add: rows_ok_def distinct_update)
  moreover have "json_extract b ''_id'' = Some (JStr a)" if "(a, b) \<in> set (AList.update i j rs)" for a b
    using that assms
    by (induction rs) (auto simp: rows_ok_def list_all_iff split: if_splits)
  ultimately show ?thesis by (auto simp: rows_ok_def list_all_iff)
qed

lemma table_ok_put:
  assumes "table_ok st c" "json_extract j ''_id'' = Some (JStr i)"
  shows "table_ok (st_put c i j st) c"
  using assms by (auto simp: table_ok_def st_put_def rows_ok_update split: option.splits)

lemma saved_document_found:
  assumes run: "Save env s opts (d, w) = (Ok u, (d', w'))" and hooks: "no_hooks env"
    and rule: "linkRule (applyCRUDOpts opts) \<noteq> LinkWrite" and id: "field_of d FieldID = Some (FStr x)"
    and col: "collectionForType env (doc_type d) = Inr col" "ci_zero col = zero_doc d'"
    and db: "select_ok env" "norm_ok env" "table_ok (w_store w) (col_name col)" "calm w'"
    and wf: "wf_doc d'" and opts: "suppressFetchLinks (applyCRUDOpts opts2)"
  shows "FindByID env (doc_type d) s2 (getID d') opts2 w'
    = (Ok (captureSnapshot (e_norm env (Document.encode d')) (unload_doc d')), w')"
proof -
  let ?j = "e_norm env (Document.encode d')"
  from Save_Ok_stored [OF run no_hooks_ok [OF hooks] rule] hooks col(1) id
  obtain d1 where d1: "stored env col d1 w w'" "id_rel d d1" "d' = captureSnapshot (Document.encode d1) d1"
    "getID d1 \<noteq> []" by (metis sum.inject(2))
  have dist: "distinct (map fst (doc_fields d'))" using wf by (simp add: wf_doc_def)
  have fid: "field_of d' FieldID = Some (FStr (getID d'))" "getID d' \<noteq> []"
    using d1 id by (auto simp: id_rel_def getID_def string_field_def split: option.splits)
  have ex: "json_extract ?j ''_id'' = Some (JStr (getID d'))"
    using db(2) wf extract_id [OF dist fid] by (simp add: norm_ok_def)
  have tab: "table_ok (w_store w') (col_name col)"
    using d1(1,3) table_ok_put [OF db(3) ex] by (simp add: stored_def)
  have get: "st_get (w_store w') (col_name col) (getID d') = Some ?j"
    using stored_get [OF d1(1)] d1(3) by simp
  have "decode_into ?j (ci_zero col) = (None, unload_doc d')"
    using db(2) wf decode_encode [OF wf] col(2) by (simp add: norm_ok_def)
  then have "decodeWithSnapshot ?j (ci_zero col) = (None, captureSnapshot ?j (unload_doc d'))"
    by (simp add: decodeWithSnapshot_def)
  with find_by_id_row [OF db(1) col(1) tab db(4) opts, of s2 "getID d'"] get show ?thesis
    by simp
qed

text \<open>C16. Save, then find. After a successful \<open>Save\<close>, \<open>FindByID\<close> with the document's identifier
  returns the very document that was saved: all its fields, with its links unloaded (storage keeps
  their identifiers) and the stored bytes as its change-tracking snapshot.\<close>

theorem saved_document_is_found:
  assumes run: "Save env s opts (d, w) = (Ok u, (d', w'))" and hooks: "no_hooks env"
    and rule: "linkRule (applyCRUDOpts opts) \<noteq> LinkWrite" and id: "field_of d FieldID = Some (FStr x)"
    and col: "collectionForType env (doc_type d) = Inr col" "ci_zero col = zero_doc d'"
    and db: "select_ok env" "norm_ok env" "table_ok (w_store w) (col_name col)" "calm w'"
    and wf: "wf_doc d'" and opts: "suppressFetchLinks (applyCRUDOpts opts2)"
  shows "FindByID env (doc_type d) s2 (getID d') opts2 w'
    = (Ok (captureSnapshot (e_norm env (Document.encode d')) (unload_doc d')), w')"
  by (rule saved_document_found [OF assms])

section \<open>Soft-deleted documents are hidden\<close>

lemma dec_members_absent:
  assumes "\<And>v. (n, v) \<in> set ms \<Longrightarrow> v = JNull" "field_of d n = Some (FTimePtr None)"
    and "dec_members ms saved d = (e, d')"
  shows "field_of d' n = Some (FTimePtr None)"
  using assms
proof (induction ms arbitrary: saved d)
  case (Cons m ms)
  obtain k j where m: "m = (k, j)" by fastforce
  show ?case
  proof (cases "field_of d k")
    case None
    with Cons m show ?thesis by auto
  next
    case (Some v)
    show ?thesis
    proof (cases "k = n")
      case True
      with Cons.prems(1,2) Some m have "v = FTimePtr None" "j = JNull" by auto
      with Cons.prems(3) Some m True have run: "dec_members ms saved (set_field n (FTimePtr None) d) = (e, d')" by simp
      show ?thesis
        by (rule Cons.IH [OF _ _ run]) (use Cons.prems(1,2) m in \<open>auto simp: field_of_set_field\<close>)
    next
      case False
      then have "field_of (set_field k u d) n = Some (FTimePtr None)" for u
        using Cons.prems(2) by (simp add: field_of_set_field)
      with Cons Some m show ?thesis by (auto split: decoded.splits if_splits)
    qed
  qed
qed simp

text \<open>Members of a stored object have distinct names.\<close>

fun object_ok :: "json \<Rightarrow> bool" where
  "object_ok (JObj ms) = distinct (map fst ms)"
| "object_ok j = True"

lemma absent_is_not_deleted:
  assumes "json_extract j ''_deleted_at'' = None" "object_ok j"
    and "field_of z FieldDeletedAt = Some (FTimePtr None)" "decodeWithSnapshot j z = (None, d)"
  shows "\<not> IsDeleted d"
proof (cases j)
  case (JObj ms)
  from assms(1) have ex: "map_of ms ''_deleted_at'' = None \<or> map_of ms ''_deleted_at'' = Some JNull"
    by (auto simp: json_extract_def path_deleted JObj split: option.splits if_splits)
  obtain e d0 where dec: "dec_members ms None z = (e, d0)" by fastforce
  from assms(2) have dist: "distinct (map fst ms)" by (simp add: JObj)
  have "field_of d0 FieldDeletedAt = Some (FTimePtr None)"
    by (rule dec_members_absent [OF _ assms(3) dec])
       (use ex dist in \<open>auto simp: FieldDeletedAt_def map_of_is_SomeI dest: weak_map_of_SomeI\<close>)
  with assms(4) dec show ?thesis
    by (auto simp: decodeWithSnapshot_def JObj IsDeleted_def split: prod.splits option.splits)
qed (use assms in \<open>auto simp: decodeWithSnapshot_def IsDeleted_def\<close>)

text \<open>Hydration leaves every field that is not a link alone.\<close>

definition same_times :: "doc \<Rightarrow> doc \<Rightarrow> bool" where
  "same_times d d' \<longleftrightarrow> (\<forall>n t. field_of d' n = Some (FTimePtr t) \<longleftrightarrow> field_of d n = Some (FTimePtr t))"

lemma same_times_refl [simp]: "same_times d d"
  by (simp add: same_times_def)

lemma same_times_trans: "same_times d e \<Longrightarrow> same_times e f \<Longrightarrow> same_times d f"
  by (simp add: same_times_def)

lemma same_times_all_refl [simp]: "list_all2 same_times ds ds"
  by (simp add: list.rel_refl)

lemma same_times_all_trans:
  "list_all2 same_times a b \<Longrightarrow> list_all2 same_times b c \<Longrightarrow> list_all2 same_times a c"
  by (rule list_all2_trans [of same_times same_times same_times]) (auto intro: same_times_trans)

lemma fill_field_time [simp]: "(fill_field ts v = FTimePtr t) \<longleftrightarrow> v = FTimePtr t"
  by (cases v) auto

lemma same_times_fill [simp]: "same_times d (fill_doc n ts d)"
  by (auto simp: same_times_def fill_doc_def field_of_set_field split: option.split)

lemma same_times_fill_all [simp]: "list_all2 same_times ds (map (fill_doc n ts) ds)"
  by (simp add: list_all2_conv_all_nth)

lemma batchResolveField_times:
  assumes "batchResolveField env nested n ty (docs, w) = (r, (docs', w'))"
  shows "list_all2 same_times docs docs'"
proof (cases "slot_ids n docs = [] \<or> (\<exists>e. collectionForType env ty = Inl e)")
  case True
  with assms show ?thesis by (auto simp: batchResolveField_def Let_def split: if_splits)
next
  case False
  then obtain col where col: "collectionForType env ty = Inr col" by (cases "collectionForType env ty") auto
  obtain q w1 where qu: "be_Query env (col_name col) (in_query col (slot_ids n docs)) w = (q, w1)" by fastforce
  show ?thesis
  proof (cases q)
    case (Ok rs)
    obtain t ts w2 where de: "decode_targets col (slot_ids n docs) rs w1 = (t, ts, w2)" by (metis prod_cases3)
    obtain u ts' w3 where ne: "nested (map snd ts, w2) = (u, (ts', w3))" by (metis prod_cases3)
    from assms False col qu de ne Ok have "\<exists>x. docs' = map (fill_doc n x) docs"
      by (cases t) (auto simp add: batchResolveField_def Let_def split: option.splits)
    then show ?thesis by auto
  qed (use assms False col qu in \<open>simp_all add: batchResolveField_def Let_def\<close>)
qed

lemma forP_times:
  assumes "\<And>x docs w r docs' w'. f x (docs, w) = (r, (docs', w')) \<Longrightarrow> list_all2 same_times docs docs'"
  shows "forP f xs (docs, w) = (r, (docs', w')) \<Longrightarrow> list_all2 same_times docs docs'"
proof (induction xs arbitrary: docs w)
  case (Cons x xs)
  obtain q d1 w1 where a: "f x (docs, w) = (q, (d1, w1))" by (metis prod_cases3)
  note A = assms [OF a]
  show ?case
  proof (cases q)
    case (Ok u)
    with Cons.prems a have "forP f xs (d1, w1) = (r, (docs', w'))" by (simp add: bindP_def)
    from same_times_all_trans [OF A Cons.IH [OF this]] show ?thesis .
  qed (use Cons.prems a A in \<open>auto simp: bindP_def\<close>)
qed auto

lemma resolve_times:
  assumes "resolve_levels env mode depth (docs, w) = (r, (docs', w'))"
  shows "list_all2 same_times docs docs'"
proof (cases depth)
  case (Suc k)
  show ?thesis
  proof (cases "docs = [] \<or> mode = FetchNone")
    case False
    with assms Suc have "forP (\<lambda>(n, ty, eager). batchResolveField env (resolve_levels env mode k) n ty)
      (filter (field_selected mode) (getLinkFields (hd docs))) (docs, w) = (r, (docs', w'))" by simp
    from forP_times [OF _ this] show ?thesis
      by (auto dest: batchResolveField_times split: prod.splits)
  qed (use assms Suc in auto)
qed (use assms in auto)

lemma run_on_times:
  "run_on ds (batchResolveLinks env depth mode) w = (Ok ds', w') \<Longrightarrow> list_all2 same_times ds ds'"
  by (auto simp: run_on_def batchResolveLinks_def dest: resolve_times split: prod.splits outcome.splits if_splits)

lemma drain_rows:
  "drainIter col rs w = (Ok ds, w') \<Longrightarrow>
    list_all2 (\<lambda>(i, j) d. decodeWithSnapshot j (ci_zero col) = (None, d)) rs ds"
proof (induction rs arbitrary: w ds)
  case (Cons x rs)
  obtain i j where x: "x = (i, j)" by fastforce
  obtain e d where dec: "decodeWithSnapshot j (ci_zero col) = (e, d)" by fastforce
  from Cons.prems dec show ?case
    by (cases e) (auto simp: x bindP_eq_Ok intro: Cons.IH)
qed simp

text \<open>Hydration reports errors and never panics.\<close>

lemma ctx_no_panic: "ctx_err w \<noteq> (Panic p, w')"
  by (auto simp: ctx_err_def split: list.splits option.splits)

lemma query_no_panic: "be_Query env c q w \<noteq> (Panic p, w')"
  by (auto simp: be_Query_def bindP_def fault_def split: list.splits option.splits)

lemma decode_targets_no_panic: "decode_targets col ids rs w \<noteq> (Panic p, ts, w')"
proof (induction rs arbitrary: w p ts w')
  case (Cons x rs)
  obtain i j where x: "x = (i, j)" by fastforce
  obtain q w1 where c: "ctx_err w = (q, w1)" by fastforce
  then show ?case
    using Cons ctx_no_panic by (cases q) (auto simp: x split: option.splits prod.splits)
qed simp

lemma batchResolveField_no_panic:
  assumes "\<And>docs w p s. nested (docs, w) \<noteq> (Panic p, s)"
  shows "batchResolveField env nested n ty (docs, w) \<noteq> (Panic p, s)"
proof (cases "slot_ids n docs = [] \<or> (\<exists>e. collectionForType env ty = Inl e)")
  case True
  then show ?thesis by (auto simp: batchResolveField_def Let_def)
next
  case False
  then obtain col where col: "collectionForType env ty = Inr col" by (cases "collectionForType env ty") auto
  obtain q w1 where qu: "be_Query env (col_name col) (in_query col (slot_ids n docs)) w = (q, w1)" by fastforce
  show ?thesis
  proof (cases q)
    case (Ok rs)
    obtain t ts w2 where de: "decode_targets col (slot_ids n docs) rs w1 = (t, ts, w2)" by (metis prod_cases3)
    show ?thesis
      using False col qu de Ok assms decode_targets_no_panic
      by (cases t) (auto simp add: batchResolveField_def Let_def split: option.splits prod.splits)
  qed (use False col qu query_no_panic in \<open>auto simp add: batchResolveField_def Let_def\<close>)
qed

lemma forP_no_panic:
  assumes "\<And>x s p t. f x s \<noteq> (Panic p, t)"
  shows "forP f xs s \<noteq> (Panic p, t)"
  using assms by (induction xs arbitrary: s) (auto simp: bindP_def split: prod.splits outcome.splits)

lemma resolve_no_panic: "resolve_levels env mode depth s \<noteq> (Panic p, t)"
proof (induction depth arbitrary: s p t)
  case (Suc depth)
  have "batchResolveField env (resolve_levels env mode depth) n ty (docs, w) \<noteq> (Panic p, t)" for n ty docs w p t
    by (rule batchResolveField_no_panic) (rule Suc.IH)
  then have "forP (\<lambda>(n, ty, eager). batchResolveField env (resolve_levels env mode depth) n ty) xs v
     \<noteq> (Panic p, t)" for xs v p t
    by (intro forP_no_panic) (auto split: prod.splits)
  then have "(if docs = [] \<or> mode = FetchNone then (Ok (), (docs, w))
     else forP (\<lambda>(n, ty, eager). batchResolveField env (resolve_levels env mode depth) n ty)
            (filter (field_selected mode) (getLinkFields (hd docs))) (docs, w)) \<noteq> (Panic p, t)" for docs w
    by (cases "docs = [] \<or> mode = FetchNone") simp_all
  then show ?case by (cases s) simp
qed simp

lemma run_on_no_panic: "run_on ds (batchResolveLinks env depth mode) w \<noteq> (Panic p, w')"
  using resolve_no_panic
  by (auto simp: run_on_def batchResolveLinks_def split: prod.splits outcome.splits if_splits)

lemma collect_yield_simps [simp]:
  "collect_yield (Inl er) ((e, ds), w) = (False, ((Some er, ds), w))"
  "collect_yield (Inr d) ((e, ds), w) = (True, ((e, ds @ [d]), w))"
  by (simp_all add: collect_yield_def)

lemma iter_rows_Ok:
  "iter_rows env qs col collect_yield rs ((None, acc), w) = ((None, ds), w') \<Longrightarrow>
    \<exists>new. ds = acc @ new \<and> list_all2 (\<lambda>(i, j) d. \<exists>d0. decodeWithSnapshot j (ci_zero col) = (None, d0)
        \<and> same_times d0 d) rs new"
proof (induction rs arbitrary: acc w)
  case (Cons x rs)
  obtain i j where x: "x = (i, j)" by fastforce
  obtain q w1 where c: "ctx_err w = (q, w1)" by fastforce
  have np: "q \<noteq> Panic m" for m using c ctx_no_panic by auto
  obtain er d where dec: "decodeWithSnapshot j (ci_zero col) = (er, d)" by fastforce
  let ?h = "if shouldHydrate qs (ci_zero col)
     then run_on [d] (batchResolveLinks env (qs_nestDepth qs) (qs_fetchMode qs)) w1 else (Ok [d], w1)"
  obtain p w2 where h: "?h = (p, w2)" by fastforce
  have np2: "p \<noteq> Panic m" for m using h run_on_no_panic by (auto split: if_splits)
  show ?case
  proof (cases "is_ok q \<and> er = None \<and> is_ok p")
    case True
    then obtain u ds1 where ok: "q = Ok u" "er = None" "p = Ok ds1" by (cases q; cases p) auto
    have "list_all2 same_times [d] ds1"
      using h ok run_on_times by (auto split: if_splits)
    then obtain d1 where d1: "ds1 = [d1]" "same_times d d1" by (auto simp: list_all2_Cons1)
    from Cons.prems c dec h ok d1 have "iter_rows env qs col collect_yield rs ((None, acc @ [d1]), w2) = ((None, ds), w')"
      by (simp add: x)
    from Cons.IH [OF this] dec ok d1 show ?thesis by (auto simp: x)
  next
    case False
    then show ?thesis
      using Cons.prems c dec h np np2
      by (cases q; cases er; cases p) (auto simp: x)
  qed
qed simp

lemma be_Query_Ok:
  assumes "be_Query env c q w = (Ok rs, w')"
  obtains rows where "st_tables (w_store w) c = Some rows" "rs = e_select env q rows"
proof -
  obtain f w1 where f: "fault w = (f, w1)" by fastforce
  with fault_store [OF f] assms that show ?thesis
    by (cases f) (auto simp: be_Query_def bindP_def split: option.splits)
qed

text \<open>Every document \<open>All\<close> returns is a row of the selection, decoded, up to its links.\<close>

lemma All_rows:
  assumes run: "All env qs w = (Ok ds, w')" and col: "collectionForType env (qs_type qs) = Inr col"
  obtains rows where "st_tables (w_store w) (col_name col) = Some rows"
    "list_all2 (\<lambda>(i, j) d. \<exists>d0. decodeWithSnapshot j (ci_zero col) = (None, d0) \<and> same_times d0 d)
       (e_select env (buildBackendQuery qs col) rows) ds"
proof -
  have pf: "preflight qs = None" using run by (cases "preflight qs") (auto simp: All_def)
  show ?thesis
  proof (cases "type_hydrates env qs")
    case True
    with run pf have "allBatched env qs w = (Ok ds, w')" by (simp add: All_def)
    then obtain rs w1 ds0 w2 where q: "be_Query env (col_name col) (buildBackendQuery qs col) w = (Ok rs, w1)"
      and d: "drainIter col rs w1 = (Ok ds0, w2)"
      and h: "run_on ds0 (batchResolveLinks env (qs_nestDepth qs) (qs_fetchMode qs)) w2 = (Ok ds, w')"
      by (auto simp: allBatched_def collection_of_def col bindP_eq_Ok)
    from be_Query_Ok [OF q] obtain rows where rows: "st_tables (w_store w) (col_name col) = Some rows"
      "rs = e_select env (buildBackendQuery qs col) rows" .
    have "list_all2 (\<lambda>(i, j) d. \<exists>d0. decodeWithSnapshot j (ci_zero col) = (None, d0) \<and> same_times d0 d) rs ds"
      by (rule list_all2_trans [OF _ drain_rows [OF d] run_on_times [OF h]]) auto
    with that rows show ?thesis by simp
  next
    case False
    with run pf have run': "(case Iter env qs collect_yield ((None, []), w) of
        ((Some e, _), w') \<Rightarrow> (Err e, w') | ((None, ds), w') \<Rightarrow> (Ok ds, w')) = (Ok ds, w')"
      by (simp add: All_def)
    obtain q w1 where q: "be_Query env (col_name col) (buildBackendQuery qs col) w = (q, w1)" by fastforce
    show ?thesis
    proof (cases q)
      case (Ok rs)
      with run' q pf col have "iter_rows env qs col collect_yield rs ((None, []), w1) = ((None, ds), w')"
        by (auto simp: Iter_def split: prod.splits option.splits)
      from iter_rows_Ok [OF this] be_Query_Ok [OF q [unfolded Ok]] that show ?thesis by auto
    next
      case (Err e)
      with run' q pf col show ?thesis by (simp add: Iter_def)
    next
      case (Panic p)
      with q query_no_panic show ?thesis by metis
    qed
  qed
qed

text \<open>C17. Queries over a soft-delete type hide deleted documents: unless \<open>IncludeDeleted\<close> is set, no
  document that \<open>All\<close> returns is deleted, whatever the other conditions, the paging and the hydration
  of links.\<close>

theorem queries_hide_deleted_documents:
  assumes run: "All env qs w = (Ok ds, w')" and col: "collectionForType env (qs_type qs) = Inr col"
    and soft: "cm_HasSoftDelete (ci_meta col)" "\<not> qs_includeDeleted qs"
      "field_of (ci_zero col) FieldDeletedAt = Some (FTimePtr None)"
    and db: "select_ok env" "table_ok (w_store w) (col_name col)"
      "\<And>rs. st_tables (w_store w) (col_name col) = Some rs \<Longrightarrow> list_all (\<lambda>(i, j). object_ok j) rs"
  shows "list_all (\<lambda>d. \<not> IsDeleted d) ds"
proof -
  let ?q = "buildBackendQuery qs col"
  obtain rows where rows: "st_tables (w_store w) (col_name col) = Some rows"
    and all: "list_all2 (\<lambda>(i, j) d. \<exists>d0. decodeWithSnapshot j (ci_zero col) = (None, d0) \<and> same_times d0 d)
       (e_select env ?q rows) ds"
    by (rule All_rows [OF run col])
  have dist: "distinct (map fst rows)" using db(2) rows by (simp add: table_ok_def rows_ok_def)
  have "\<not> IsDeleted d" if "d \<in> set ds" for d
  proof -
    from that all obtain i j d0 where sel: "(i, j) \<in> set (e_select env ?q rows)"
      and dec: "decodeWithSnapshot j (ci_zero col) = (None, d0)" "same_times d0 d"
      by (fastforce simp: list_all2_conv_all_nth in_set_conv_nth)
    have "\<not> falsifies ?q j" by (rule select_okD(4) [OF db(1) dist sel])
    moreover have "IsNil (Field ''_deleted_at'') \<in> set (Conditions ?q)"
      using soft by (simp add: buildBackendQuery_def allConditions_def)
    ultimately have "json_extract j ''_deleted_at'' = None"
      by (force simp: falsifies_def list_ex_iff IsNil_def Field_def)
    moreover have "object_ok j"
      using select_okD(1) [OF db(1) dist] sel db(3) [OF rows] by (fastforce simp: list_all_iff)
    ultimately have "\<not> IsDeleted d0" by (rule absent_is_not_deleted [OF _ _ soft(3) dec(1)])
    with dec(2) show ?thesis by (auto simp: IsDeleted_def same_times_def)
  qed
  then show ?thesis by (simp add: list_all_iff)
qed

section \<open>Instances\<close>

definition note_db :: "bool \<Rightarrow> bool \<Rightarrow> env" where
  "note_db withRev soft = (note_env withRev soft)\<lparr>e_select := note_select\<rparr>"

lemma note_db_simps [simp]:
  "no_hooks (note_db r s)" "e_norm (note_db r s) = (\<lambda>j. j)" "select_ok (note_db r s)" "norm_ok (note_db r s)"
  "collectionForType (note_db r s) ''Note'' = Inr (note_collection r s)"
proof -
  show "no_hooks (note_db r s)" by (simp add: note_db_def no_hooks_def)
  show norm: "e_norm (note_db r s) = (\<lambda>j. j)" by (simp add: note_db_def)
  show "select_ok (note_db r s)" by (rule note_select_ok) (simp add: note_db_def)
  show "norm_ok (note_db r s)" by (simp add: norm_ok_def norm)
  show "collectionForType (note_db r s) ''Note'' = Inr (note_collection r s)"
    using note_col [of r s] by (simp add: note_db_def collectionForType_def)
qed

lemma note_zero [simp]: "ci_zero (note_collection r s) = note_doc [] [] [] []"
  by (simp add: note_collection_def)

lemma note_opts [simp]: "suppressFetchLinks (applyCRUDOpts [WithoutFetchLinks])"
  by (simp add: option_defs)

lemma find_samples:
  "table_ok (w_store (note_world [note_doc ''k'' ''r1'' ''a'' [], note_doc ''l'' ''r2'' ''b'' []])) ''note''"
  "calm (note_world [note_doc ''k'' ''r1'' ''a'' [], note_doc ''l'' ''r2'' ''b'' []])"
  by code_simp+

theorem find_by_id_witness:
  "fst (FindByID (note_db True True) ''Note'' ScopeDB ''m'' [WithoutFetchLinks]
      (note_world [note_doc ''k'' ''r1'' ''a'' [], note_doc ''l'' ''r2'' ''b'' []])) = Err (Sent ErrNotFound)"
proof -
  have "st_get (w_store (note_world [note_doc ''k'' ''r1'' ''a'' [], note_doc ''l'' ''r2'' ''b'' []])) ''note'' ''m'' = None"
    by code_simp
  then show ?thesis
    using find_by_id_reads_the_row [of "note_db True True" "''Note''" "note_collection True True"] find_samples
    by simp
qed

lemma roundtrip_samples:
  "case Save (note_db True True) ScopeDB [] (note_doc ''k'' ''r1'' ''c'' [],
      note_world [note_doc ''k'' ''r1'' ''a'' [], note_doc ''l'' ''r2'' ''b'' []]) of
     (r, (d', w')) \<Rightarrow> r = Ok () \<and> calm w' \<and> wf_doc d' \<and> zero_doc d' = ci_zero (note_collection True True) \<and> getID d' = ''k''"
  by code_simp

theorem saved_document_witness:
  "case Save (note_db True True) ScopeDB [] (note_doc ''k'' ''r1'' ''c'' [],
      note_world [note_doc ''k'' ''r1'' ''a'' [], note_doc ''l'' ''r2'' ''b'' []]) of
     (r, (d', w')) \<Rightarrow> fst (FindByID (note_db True True) ''Note'' ScopeTx ''k'' [WithoutFetchLinks] w')
        = Ok (captureSnapshot (Document.encode d') (unload_doc d'))"
proof -
  let ?w = "note_world [note_doc ''k'' ''r1'' ''a'' [], note_doc ''l'' ''r2'' ''b'' []]"
  obtain r d' w' where run: "Save (note_db True True) ScopeDB [] (note_doc ''k'' ''r1'' ''c'' [], ?w) = (r, (d', w'))"
    by (metis prod_cases3)
  with roundtrip_samples have ok: "r = Ok ()" "calm w'" "wf_doc d'" "zero_doc d' = ci_zero (note_collection True True)"
    "getID d' = ''k''" by simp_all
  from saved_document_is_found [OF run [unfolded ok(1)], of "''k''" "note_collection True True" "[WithoutFetchLinks]" ScopeTx]
    ok find_samples(1) run
  show ?thesis by simp
qed

lemma hidden_samples:
  "fst (All (note_db True True) (NewQuery ''Note'' ScopeDB [])
     (note_world [note_doc ''k'' ''r1'' ''a'' [], note_doc ''l'' ''r2'' ''b'' []])) \<noteq> Ok []"
  "is_ok (fst (All (note_db True True) (NewQuery ''Note'' ScopeDB [])
     (note_world [note_doc ''k'' ''r1'' ''a'' [], note_doc ''l'' ''r2'' ''b'' []])))"
  "list_all (\<lambda>(i, j). object_ok j)
     (the (st_tables (w_store (note_world [note_doc ''k'' ''r1'' ''a'' [], note_doc ''l'' ''r2'' ''b'' []])) ''note''))"
  by code_simp+

theorem queries_hide_deleted_witness:
  "case All (note_db True True) (NewQuery ''Note'' ScopeDB [])
     (note_world [note_doc ''k'' ''r1'' ''a'' [], note_doc ''l'' ''r2'' ''b'' []]) of
     (r, w') \<Rightarrow> \<exists>ds. r = Ok ds \<and> ds \<noteq> [] \<and> list_all (\<lambda>d. \<not> IsDeleted d) ds"
proof -
  let ?w = "note_world [note_doc ''k'' ''r1'' ''a'' [], note_doc ''l'' ''r2'' ''b'' []]"
  obtain r w' where run: "All (note_db True True) (NewQuery ''Note'' ScopeDB []) ?w = (r, w')" by fastforce
  with hidden_samples(2) obtain ds where ok: "r = Ok ds" by (cases r) auto
  have "ds \<noteq> []" using hidden_samples(1) run ok by auto
  moreover have "list_all (\<lambda>d. \<not> IsDeleted d) ds"
    by (rule queries_hide_deleted_documents [OF run [unfolded ok], of "note_collection True True"])
       (use find_samples(1) hidden_samples(3) in \<open>auto simp: NewQuery_def\<close>)
  ultimately show ?thesis using run ok by simp
qed

end
