(* ===== verification/Delete_Loop.thy ===== *)
theory Delete_Loop
  imports Select_Properties Delete_Properties
begin

text \<open>
  The chunked loop of \<open>QuerySet.Delete\<close>: a hard delete ends after at most as many rounds as there are
  matching rows and removes exactly those; a soft delete that includes the rows already deleted
  matches the same rows again in every round and, with a full chunk of them, never ends; and an offset
  protects the skipped rows in the first chunk only.
\<close>

section \<open>Deleting the rows of one chunk\<close>

definition good_row :: "collection_info \<Rightarrow> string \<times> json \<Rightarrow> bool" where
  "good_row col = (\<lambda>(i, j). i \<noteq> [] \<and> (\<exists>d. decodeWithSnapshot j (ci_zero col) = (None, d) \<and> getID d = i
      \<and> doc_type d = doc_type (ci_zero col)))"

lemma drain_good:
  assumes "list_all (good_row col) rs" "calm w"
  obtains ds where "drainIter col rs w = (Ok ds, w)" "map getID ds = map fst rs"
    "list_all (\<lambda>d. getID d \<noteq> [] \<and> doc_type d = doc_type (ci_zero col)) ds"
    "list_all2 (\<lambda>(i, j) d. decodeWithSnapshot j (ci_zero col) = (None, d)) rs ds"
proof -
  have "\<exists>ds. drainIter col rs w = (Ok ds, w) \<and> map getID ds = map fst rs
      \<and> list_all (\<lambda>d. getID d \<noteq> [] \<and> doc_type d = doc_type (ci_zero col)) ds
      \<and> list_all2 (\<lambda>(i, j) d. decodeWithSnapshot j (ci_zero col) = (None, d)) rs ds"
    using assms(1)
  proof (induction rs)
    case (Cons x rs)
    obtain i j where x: "x = (i, j)" by fastforce
    with Cons.prems obtain d where d: "decodeWithSnapshot j (ci_zero col) = (None, d)" "getID d = i" "i \<noteq> []"
      "doc_type d = doc_type (ci_zero col)"
      by (auto simp: good_row_def)
    from Cons obtain ds where "drainIter col rs w = (Ok ds, w)" "map getID ds = map fst rs"
      "list_all (\<lambda>d. getID d \<noteq> [] \<and> doc_type d = doc_type (ci_zero col)) ds"
      "list_all2 (\<lambda>(i, j) d. decodeWithSnapshot j (ci_zero col) = (None, d)) rs ds" by auto
    with d assms(2) show ?case by (intro exI [of _ "d # ds"]) (simp add: x bindP_def)
  qed simp
  with that show ?thesis by blast
qed

lemma st_delete_rows:
  "st_tables st c = Some rs \<Longrightarrow> st_tables (st_delete c i st) c = Some (filter (\<lambda>(k, j). k \<noteq> i) rs)"
  by (auto simp add: st_delete_def AList.delete_eq split_def intro!: filter_cong)

lemma hard_delete_docs:
  assumes env: "no_hooks env" "e_storage env \<noteq> None"
    and opts: "\<not> cm_HasSoftDelete (ci_meta col) \<or> hardDelete (applyCRUDOpts opts)"
      "linkRule (applyCRUDOpts opts) \<noteq> LinkDelete"
  shows "list_all (\<lambda>d. getID d \<noteq> [] \<and> collectionForType env (doc_type d) = Inr col) ds \<Longrightarrow> calm w \<Longrightarrow>
    st_tables (w_store w) (col_name col) = Some rs \<Longrightarrow>
    \<exists>w'. delete_docs env opts ds count w = (Ok (count + int (length ds)), w') \<and> calm w'
      \<and> w_saved w' = w_saved w
      \<and> st_tables (w_store w') (col_name col) = Some (filter (\<lambda>(k, j). k \<notin> getID ` set ds) rs)"
proof (induction ds arbitrary: count w rs)
  case Nil
  then show ?case by (simp add: split_def)
next
  case (Cons d ds)
  let ?w = "w\<lparr>w_store := st_delete (col_name col) (getID d) (w_store w),
     w_deleted := w_deleted w @ collectAttachments d\<rparr>"
  have del: "Delete env ScopeTx opts (d, w) = (Ok (), (d, ?w))"
    by (rule hard_delete_one) (use Cons.prems env opts in \<open>auto simp: has_table_def calm_def\<close>)
  have "calm ?w" using Cons.prems(2) by (simp add: calm_def)
  from Cons.IH [OF _ this, of "filter (\<lambda>(k, j). k \<noteq> getID d) rs" "count + 1"] Cons.prems obtain w' where
    w': "delete_docs env opts ds (count + 1) ?w = (Ok (count + 1 + int (length ds)), w')" "calm w'"
    "w_saved w' = w_saved ?w"
    "st_tables (w_store w') (col_name col)
       = Some (filter (\<lambda>(k, j). k \<notin> getID ` set ds) (filter (\<lambda>(k, j). k \<noteq> getID d) rs))"
    by (auto simp: st_delete_rows)
  have "filter (\<lambda>(k, j). k \<notin> getID ` set ds) (filter (\<lambda>(k, j). k \<noteq> getID d) rs)
      = filter (\<lambda>(k, j). k \<notin> getID ` set (d # ds)) rs"
    by (auto simp: intro!: filter_cong)
  with w' del Cons.prems(2) show ?case
    by (auto simp: bindP_def run_on_def)
qed

section \<open>The loop of a hard delete\<close>

lemma select_all_or_full:
  assumes sel: "select_ok env" and dist: "distinct (map fst rs)"
    and dec: "list_all (\<lambda>(i, j). satisfies q j \<or> falsifies q j) rs"
    and q: "AfterID q = []" "BeforeID q = []" "SkipN q \<le> 0" "Lock q \<noteq> Some LockSkipLocked" "LimitN q > 0"
  shows "set (e_select env q rs) \<subseteq> {(i, j) \<in> set rs. satisfies q j}" "distinct (map fst (e_select env q rs))"
    "int (length (e_select env q rs)) \<le> LimitN q"
    "int (length (e_select env q rs)) < LimitN q \<Longrightarrow> set (e_select env q rs) = {(i, j) \<in> set rs. satisfies q j}"
proof -
  let ?s = "e_select env q rs"
  note D = select_okD [OF sel dist, where q = q]
  show sub: "set ?s \<subseteq> {(i, j) \<in> set rs. satisfies q j}"
    using D(1) D(4) dec by (fastforce simp: list_all_iff)
  show "distinct (map fst ?s)" by (rule D(2))
  show "int (length ?s) \<le> LimitN q" using D(3) [OF q(5)] q(5) by linarith
  show "set ?s = {(i, j) \<in> set rs. satisfies q j}" if "int (length ?s) < LimitN q"
  proof -
    from that have "length ?s \<noteq> nat (LimitN q)" by linarith
    with D(5) [OF q(1-4)] sub show ?thesis by fastforce
  qed
qed

definition loop_query :: "query_set \<Rightarrow> int \<Rightarrow> collection_info \<Rightarrow> query" where
  "loop_query qs c col = buildBackendQuery (qs\<lparr>qs_limitN := c\<rparr>) col"

lemma loop_query_sat:
  "satisfies (loop_query qs c col) = satisfies (loop_query qs 0 col)"
  "falsifies (loop_query qs c col) = falsifies (loop_query qs 0 col)"
  by (simp_all add: fun_eq_iff loop_query_def satisfies_def falsifies_def buildBackendQuery_def allConditions_def)

lemma length_filter_removed:
  assumes "distinct (map fst rs)" "set ss \<subseteq> {(i, j) \<in> set rs. P j}" "distinct (map fst ss)"
  shows "length (filter (\<lambda>(i, j). P j) (filter (\<lambda>(k, j). k \<notin> fst ` set ss) rs)) + length ss
    = length (filter (\<lambda>(i, j). P j) rs)"
proof -
  let ?A = "set (filter (\<lambda>(i, j). P j) rs)"
  have d: "distinct rs" "distinct ss" using assms(1,3) by (simp_all add: distinct_map)
  have keys: "(k, j) \<in> set ss" if "(k, j) \<in> set rs" "k \<in> fst ` set ss" for k j
    using that assms(1,2) by (auto dest: eq_key_imp_eq_value)
  have "set (filter (\<lambda>(i, j). P j) (filter (\<lambda>(k, j). k \<notin> fst ` set ss) rs)) = ?A - set ss"
    using keys by (auto simp: image_iff)
  moreover have "set ss \<subseteq> ?A" using assms(2) by auto
  moreover have "distinct (filter (\<lambda>(i, j). P j) (filter (\<lambda>(k, j). k \<notin> fst ` set ss) rs))"
    "distinct (filter (\<lambda>(i, j). P j) rs)" using d by auto
  ultimately show ?thesis
    using d(2) card_Diff_subset [of "set ss" ?A] card_mono [of ?A "set ss"]
    by (metis List.finite_set distinct_card le_add_diff_inverse2)
qed

text \<open>One round of the loop, for queries without a limit of their own.\<close>

lemma delete_loop_step:
  assumes "calm w" "qs_limitN qs \<le> 0" "chunk\<lparr>qs_limitN := c\<rparr> = ch"
    and "bindP (be_Query env (col_name col) (buildBackendQuery ch col)) (drainIter col) w = (Ok ds, w)"
    and "ds \<noteq> [] \<Longrightarrow> delete_docs env opts ds count w = (Ok n, w3)" "qs_limitN ch = c"
  shows "delete_loop (Suc fuel) env c qs opts col chunk count w
    = (if ds = [] then Some (Ok count, w)
       else if int (length ds) < c then Some (Ok n, w3)
       else delete_loop fuel env c qs opts col (ch\<lparr>qs_skipN := 0\<rparr>) n w3)"
proof -
  have "chunk_limit c qs count = c" using assms(2) by (simp add: chunk_limit_def)
  then show ?thesis using assms by (simp add: Let_def)
qed

abbreviation matching :: "query_set \<Rightarrow> collection_info \<Rightarrow> rows \<Rightarrow> rows" where
  "matching qs col rs \<equiv> filter (\<lambda>(i, j). satisfies (loop_query qs 0 col) j) rs"

definition decided :: "query_set \<Rightarrow> collection_info \<Rightarrow> rows \<Rightarrow> bool" where
  "decided qs col rs \<longleftrightarrow> list_all (\<lambda>(i, j). satisfies (loop_query qs 0 col) j \<or> falsifies (loop_query qs 0 col) j) rs"

definition plain_set :: "query_set \<Rightarrow> bool" where
  "plain_set qs \<longleftrightarrow> qs_limitN qs = 0 \<and> qs_skipN qs = 0 \<and> qs_afterID qs = [] \<and> qs_beforeID qs = []
     \<and> qs_lock qs \<noteq> Some LockSkipLocked"

lemma filter_rest:
  assumes "set ss \<subseteq> {(i, j) \<in> set rs. P j}" "distinct (map fst rs)"
  shows "filter (\<lambda>(i, j). \<not> P j) (filter (\<lambda>(k, j). k \<notin> fst ` set ss) rs) = filter (\<lambda>(i, j). \<not> P j) rs"
proof -
  have "k \<notin> fst ` set ss" if "(k, j) \<in> set rs" "\<not> P j" for k j
    using that assms by (auto dest: eq_key_imp_eq_value)
  then show ?thesis by (auto simp: filter_filter intro!: filter_cong)
qed

lemma hard_delete_loop:
  assumes env: "no_hooks env" "e_storage env \<noteq> None" "select_ok env"
    and col: "collectionForType env (doc_type (ci_zero col)) = Inr col"
    and opts: "\<not> cm_HasSoftDelete (ci_meta col) \<or> hardDelete (applyCRUDOpts opts)"
      "linkRule (applyCRUDOpts opts) \<noteq> LinkDelete"
    and qs: "plain_set qs" "c > 0"
  shows "calm w \<Longrightarrow> st_tables (w_store w) (col_name col) = Some rs \<Longrightarrow> distinct (map fst rs) \<Longrightarrow>
    list_all (good_row col) rs \<Longrightarrow> decided qs col rs \<Longrightarrow> length (matching qs col rs) < fuel \<Longrightarrow>
    chunk\<lparr>qs_limitN := c\<rparr> = qs\<lparr>qs_limitN := c\<rparr> \<Longrightarrow>
    \<exists>w'. delete_loop fuel env c qs opts col chunk count w = Some (Ok (count + int (length (matching qs col rs))), w')
      \<and> calm w' \<and> w_saved w' = w_saved w
      \<and> st_tables (w_store w') (col_name col) = Some (filter (\<lambda>(i, j). \<not> satisfies (loop_query qs 0 col) j) rs)"
proof (induction fuel arbitrary: w rs count chunk)
  case (Suc fuel)
  let ?sat = "satisfies (loop_query qs 0 col)"
  let ?q = "loop_query qs c col" and ?ch = "qs\<lparr>qs_limitN := c\<rparr>"
  define ss where "ss = e_select env ?q rs"
  define rs' where "rs' = filter (\<lambda>(k, j). k \<notin> fst ` set ss) rs"
  have q: "AfterID ?q = []" "BeforeID ?q = []" "SkipN ?q \<le> 0" "Lock ?q \<noteq> Some LockSkipLocked" "LimitN ?q = c"
    using qs by (simp_all add: loop_query_def buildBackendQuery_def plain_set_def)
  have dec: "list_all (\<lambda>(i, j). satisfies ?q j \<or> falsifies ?q j) rs"
    using Suc.prems(5) loop_query_sat [of qs c col] by (simp add: decided_def)
  have c: "LimitN ?q > 0" using q(5) qs(2) by simp
  note S = select_all_or_full [OF env(3) Suc.prems(3) dec q(1-4) c, folded ss_def, unfolded loop_query_sat(1) [of qs c col] q(5)]
  have good: "list_all (good_row col) ss" using S(1) Suc.prems(4) by (auto simp: list_all_iff)
  obtain ds where ds: "drainIter col ss w = (Ok ds, w)" "map getID ds = map fst ss"
    "list_all (\<lambda>d. getID d \<noteq> [] \<and> doc_type d = doc_type (ci_zero col)) ds"
    by (rule drain_good [OF good Suc.prems(1)])
  have len: "length ds = length ss" using ds(2) by (metis length_map)
  have ids: "getID ` set ds = fst ` set ss" using ds(2) by (metis set_map)
  have rows: "bindP (be_Query env (col_name col) (buildBackendQuery ?ch col)) (drainIter col) w = (Ok ds, w)"
    using be_Query_calm [OF Suc.prems(1,2), of env ?q] ds(1) by (simp add: bindP_def loop_query_def ss_def)
  have ds_ok: "list_all (\<lambda>d. getID d \<noteq> [] \<and> collectionForType env (doc_type d) = Inr col) ds"
    using ds(3) col by (auto simp: list_all_iff)
  obtain w3 where w3: "delete_docs env opts ds count w = (Ok (count + int (length ds)), w3)" "calm w3"
    "w_saved w3 = w_saved w" "st_tables (w_store w3) (col_name col) = Some rs'"
    using hard_delete_docs [OF env(1,2) opts ds_ok Suc.prems(1,2), of count]
    unfolding rs'_def ids by blast
  have step: "delete_loop (Suc fuel) env c qs opts col chunk count w
    = (if ds = [] then Some (Ok count, w)
       else if int (length ds) < c then Some (Ok (count + int (length ds)), w3)
       else delete_loop fuel env c qs opts col (?ch\<lparr>qs_skipN := 0\<rparr>) (count + int (length ds)) w3)"
    by (rule delete_loop_step [OF Suc.prems(1) _ Suc.prems(7) rows w3(1)]) (use qs in \<open>simp_all add: plain_set_def\<close>)
  have removed: "length (matching qs col rs') + length ds = length (matching qs col rs)"
    using length_filter_removed [OF Suc.prems(3) S(1,2)] len by (simp add: rs'_def)
  have rest: "filter (\<lambda>(i, j). \<not> ?sat j) rs' = filter (\<lambda>(i, j). \<not> ?sat j) rs"
    unfolding rs'_def by (rule filter_rest [OF S(1) Suc.prems(3)])
  show ?case
  proof (cases "int (length ds) < c")
    case True
    then have all: "set ss = {(i, j) \<in> set rs. ?sat j}" using S(4) len by simp
    then have none: "matching qs col rs' = []"
      by (force simp: rs'_def filter_empty_conv)
    then have left: "rs' = filter (\<lambda>(i, j). \<not> ?sat j) rs'"
      by (metis (no_types, lifting) case_prod_unfold filter_True filter_empty_conv)
    show ?thesis
    proof (cases "ds = []")
      case True
      with len have "rs' = rs" by (simp add: rs'_def split_def)
      with True step none left Suc.prems(1,2) show ?thesis by simp
    next
      case False
      with step True removed none left rest w3 show ?thesis by simp
    qed
  next
    case False
    then have ne: "ds \<noteq> []" using qs(2) by auto
    have "length (matching qs col rs') < fuel"
      using Suc.prems(6) removed ne by (cases ds) auto
    moreover have "list_all (good_row col) rs'" "decided qs col rs'" "distinct (map fst rs')"
      using Suc.prems(3-5) by (auto simp: rs'_def decided_def list_all_iff distinct_map_filter)
    moreover have "(?ch\<lparr>qs_skipN := 0\<rparr>)\<lparr>qs_limitN := c\<rparr> = ?ch"
      using qs(1) by (simp add: plain_set_def)
    ultimately obtain w' where w': "delete_loop fuel env c qs opts col (?ch\<lparr>qs_skipN := 0\<rparr>) (count + int (length ds)) w3
        = Some (Ok (count + int (length ds) + int (length (matching qs col rs'))), w')"
      "calm w'" "w_saved w' = w_saved w3"
      "st_tables (w_store w') (col_name col) = Some (filter (\<lambda>(i, j). \<not> ?sat j) rs')"
      using Suc.IH [OF w3(2,4)] by blast
    with step ne False removed rest w3(3) show ?thesis by simp
  qed
qed simp

lemma in_scope_calm:
  assumes "calm w" "s = ScopeDB \<longrightarrow> w_saved w = None"
    and "m (if s = ScopeDB then w\<lparr>w_saved := Some (w_store w)\<rparr> else w) = (Ok x, w1)" "calm w1"
    and "w_saved w1 = (if s = ScopeDB then Some (w_store w) else w_saved w)"
  shows "\<exists>w'. in_scope s m w = (Ok x, w') \<and> w_store w' = w_store w1"
proof (cases s)
  case ScopeDB
  with assms show ?thesis
    by (simp add: in_scope_def runOnScope_def RunInTransaction_def bindP_def map_err_def be_Begin_def
        finish_tx_def be_Commit_def close_tx_def)
next
  case ScopeTx
  with assms show ?thesis by (simp add: in_scope_def runOnScope_def)
qed

lemma calm_saved [simp]: "calm (w\<lparr>w_saved := x\<rparr>) = calm w"
  by (simp add: calm_def)

text \<open>C15. A hard \<open>Delete\<close> of a query ends, after at most one round more than there are matching rows,
  and removes exactly the matching rows: it returns their number, every other row of the table stays,
  whatever the size of the chunks. (For queries without limit, offset and cursors, whose conditions
  are decided on every row.)\<close>

theorem query_delete_removes_the_matches:
  assumes env: "no_hooks env" "e_storage env \<noteq> None" "select_ok env"
    and col: "collectionForType env (qs_type qs) = Inr col" "doc_type (ci_zero col) = qs_type qs"
    and opts: "\<not> cm_HasSoftDelete (ci_meta col) \<or> hardDelete (applyCRUDOpts opts)"
      "linkRule (applyCRUDOpts opts) \<noteq> LinkDelete"
    and qs: "plain_set qs" "preflight qs = None" "c > 0" "length (matching qs col rs) < fuel"
    and w: "calm w" "qs_scope qs = ScopeDB \<longrightarrow> w_saved w = None"
    and rs: "st_tables (w_store w) (col_name col) = Some rs" "distinct (map fst rs)" "list_all (good_row col) rs"
      "decided qs col rs"
  shows "\<exists>w'. QuerySet_Delete fuel env c qs opts w = (Ok (int (length (matching qs col rs))), w')
    \<and> st_tables (w_store w') (col_name col) = Some (filter (\<lambda>(i, j). \<not> satisfies (loop_query qs 0 col) j) rs)"
proof -
  let ?w = "if qs_scope qs = ScopeDB then w\<lparr>w_saved := Some (w_store w)\<rparr> else w"
  have zc: "collectionForType env (doc_type (ci_zero col)) = Inr col" using col by simp
  have w': "calm ?w" "st_tables (w_store ?w) (col_name col) = Some rs" using w rs(1) by simp_all
  obtain w1 where w1: "delete_loop fuel env c qs opts col qs 0 ?w = Some (Ok (0 + int (length (matching qs col rs))), w1)"
    "calm w1" "w_saved w1 = w_saved ?w"
    "st_tables (w_store w1) (col_name col) = Some (filter (\<lambda>(i, j). \<not> satisfies (loop_query qs 0 col) j) rs)"
    using hard_delete_loop [OF env zc opts qs(1,3) w' rs(2-4) qs(4) refl, of 0] by blast
  let ?m = "\<lambda>w. case delete_loop fuel env c qs opts col qs 0 w of Some r \<Rightarrow> r | None \<Rightarrow> (Panic out_of_fuel, w)"
  have "\<exists>w'. in_scope (qs_scope qs) ?m w = (Ok (int (length (matching qs col rs))), w') \<and> w_store w' = w_store w1"
    by (rule in_scope_calm [OF w]) (use w1 in \<open>auto split: if_splits\<close>)
  with w1(4) qs(2) col(1) show ?thesis
    by (auto simp: QuerySet_Delete_def bindP_def collection_of_def)
qed

section \<open>The loop of a soft delete that includes deleted rows\<close>

lemma field_of_unload: "field_of (unload_doc d) n = map_option unload_fval (field_of d n)"
proof -
  have "map_of (unload_fields fs) n = map_option (\<lambda>(oe, v). (oe, unload_fval v)) (map_of fs n)" for fs
    by (induction fs) (auto simp: unload_fields_def)
  then show ?thesis
    by (simp add: field_of_def unload_doc_def option.map_comp comp_def case_prod_unfold)
qed

lemma doc_unload [simp]:
  "zero_doc (unload_doc d) = zero_doc d" "wf_doc (unload_doc d) = wf_doc d" "doc_type (unload_doc d) = doc_type d"
  "zero_doc (captureSnapshot j d) = zero_doc d" "wf_doc (captureSnapshot j d) = wf_doc d"
proof -
  show "zero_doc (unload_doc d) = zero_doc d"
    by (simp add: zero_doc_def unload_doc_def unload_fields_def split_def comp_def option.map_comp)
  have "map fst (unload_fields fs) = map fst fs" for fs
    by (simp add: unload_fields_def split_def comp_def)
  then show "wf_doc (unload_doc d) = wf_doc d"
    by (simp add: wf_doc_def unload_doc_def list_all_iff) (auto simp: unload_fields_def split_def)
  show "doc_type (unload_doc d) = doc_type d" by (simp add: unload_doc_def)
  show "zero_doc (captureSnapshot j d) = zero_doc d"
    by (simp add: zero_doc_def captureSnapshot_def split: option.split)
  show "wf_doc (captureSnapshot j d) = wf_doc d" by (simp add: wf_doc_def)
qed

lemma zero_set_field:
  assumes "field_of d n = Some u" "zero_fval v = zero_fval u"
  shows "zero_doc (set_field n v d) = zero_doc d"
proof -
  have "map (\<lambda>(n, oe, v). (n, oe, zero_fval v)) (set_in n v fs) = map (\<lambda>(n, oe, v). (n, oe, zero_fval v)) fs"
    if "map_option snd (map_of fs n) = Some u" for fs
    using that assms(2) by (induction fs) auto
  with assms(1) show ?thesis by (simp add: zero_doc_def field_of_def)
qed

lemma wf_set_field: "wf_doc d \<Longrightarrow> (\<And>oe. wf_fval oe v) \<Longrightarrow> wf_doc (set_field n v d)"
proof -
  have "list_all (\<lambda>(n, oe, v). wf_fval oe v) fs \<Longrightarrow> (\<And>oe. wf_fval oe v) \<Longrightarrow>
     list_all (\<lambda>(n, oe, v). wf_fval oe v) (set_in n v fs)" for fs
    by (induction fs) auto
  then show "wf_doc d \<Longrightarrow> (\<And>oe. wf_fval oe v) \<Longrightarrow> wf_doc (set_field n v d)" by (simp add: wf_doc_def)
qed

definition soft_doc :: "collection_info \<Rightarrow> string \<Rightarrow> doc \<Rightarrow> bool" where
  "soft_doc col i d \<longleftrightarrow> getID d = i \<and> i \<noteq> [] \<and> doc_type d = doc_type (ci_zero col) \<and> wf_doc d \<and> zero_doc d = ci_zero col
     \<and> (\<exists>t. field_of d FieldDeletedAt = Some (FTimePtr t))"

definition soft_row :: "collection_info \<Rightarrow> string \<times> json \<Rightarrow> bool" where
  "soft_row col = (\<lambda>(i, j). \<exists>d. decodeWithSnapshot j (ci_zero col) = (None, d) \<and> soft_doc col i d)"

definition no_unique :: "store \<Rightarrow> bool" where
  "no_unique st \<longleftrightarrow> list_all (\<lambda>(n, c, fs, u). \<not> u) (st_indexes st)"

lemma soft_delete_one:
  assumes env: "no_hooks env" "norm_ok env" "\<And>n. time_text (fst (e_now env n))"
    and col: "collectionForType env (doc_type (ci_zero col)) = Inr col" "cm_HasSoftDelete (ci_meta col)"
      "\<not> ci_UseRevision col"
    and d: "soft_doc col i d" and w: "calm w" "no_unique (w_store w)" "has_table (w_store w) (col_name col)"
  shows "\<exists>d' w' j. Delete env ScopeTx [] (d, w) = (Ok (), (d', w')) \<and> calm w' \<and> w_store w' = st_put (col_name col) i j (w_store w)
    \<and> soft_row col (i, j) \<and> w_saved w' = w_saved w"
proof -
  define dd where "dd = set_field FieldDeletedAt (FTimePtr (Some (fst (e_now env (w_ticks w))))) d"
  define j where "j = e_norm env (Document.encode dd)"
  let ?w = "w\<lparr>w_ticks := Suc (w_ticks w), w_store := st_put (col_name col) i j (w_store w)\<rparr>"
  obtain t where t: "field_of d FieldDeletedAt = Some (FTimePtr t)" using d by (auto simp: soft_doc_def)
  have dd: "setSoftDeleteAuditFields [] [] (setSoftDeletedAt (Some (fst (e_now env (w_ticks w)))) d) = dd"
    using t by (simp add: setSoftDeleteAuditFields_def setSoftDeletedAt_def dd_def)
  have id: "getID dd = i" using d by (simp add: dd_def soft_doc_def getID_set_other)
  have wf: "wf_doc dd" using d env(3) by (simp add: dd_def soft_doc_def wf_set_field)
  have z: "zero_doc dd = ci_zero col" using d t by (simp add: dd_def soft_doc_def zero_set_field)
  have nu: "\<not> unique_violation (w_store w) (col_name col) i j"
    using w(2) by (auto simp: unique_violation_def no_unique_def list_ex_iff list_all_iff)
  have run: "Delete env ScopeTx [] (d, w) = (Ok (), (captureSnapshot (Document.encode dd) dd, ?w))"
    using env(1) col d w nu id
    by (simp add: Delete_def deleteCore_def Let_def with_collection_def soft_doc_def deleteDocCore_def bindP_def
        softDelete_def softDeleteBody_def checkAndUpdateRevision_def time_now_def dd [unfolded applyCRUDOpts_def]
        put_document_def be_Put_def option_defs j_def calm_def fault_def dd)
  have "decode_into j (zero_doc dd) = decode_into (Document.encode dd) (zero_doc dd)"
    using env(2) wf by (simp add: j_def norm_ok_def)
  then have "decode_into j (ci_zero col) = (None, unload_doc dd)"
    by (simp add: z [symmetric] decode_encode [OF wf])
  then have dec: "decodeWithSnapshot j (ci_zero col) = (None, captureSnapshot j (unload_doc dd))"
    by (simp add: decodeWithSnapshot_def)
  have "(case unload_fval v of FStr s \<Rightarrow> s | _ \<Rightarrow> []) = (case v of FStr s \<Rightarrow> s | _ \<Rightarrow> [])" for v
    by (cases v rule: unload_fval.cases) auto
  then have "getID (unload_doc dd) = getID dd"
    by (simp add: getID_def string_field_def field_of_unload split: option.split)
  then have "soft_doc col i (captureSnapshot j (unload_doc dd))"
    using d id wf z t by (simp add: soft_doc_def field_of_unload dd_def field_of_set_field)
  with dec have "soft_row col (i, j)" by (auto simp: soft_row_def)
  moreover have "calm ?w" using w(1) by (simp add: calm_def)
  ultimately show ?thesis using run by fastforce
qed

text \<open>Updating a row under an identifier the table has.\<close>

lemma keys_update: "i \<in> fst ` set rs \<Longrightarrow> map fst (AList.update i j rs) = map fst rs"
  by (induction rs) auto

lemma set_update_row: "x \<in> set (AList.update i j rs) \<Longrightarrow> x = (i, j) \<or> x \<in> set rs"
  by (induction rs) (auto split: if_splits)

definition soft_state :: "collection_info \<Rightarrow> string list \<Rightarrow> store option \<Rightarrow> world \<Rightarrow> bool" where
  "soft_state col ks X w \<longleftrightarrow> calm w \<and> no_unique (w_store w) \<and> w_saved w = X \<and>
     (\<exists>rs. st_tables (w_store w) (col_name col) = Some rs \<and> map fst rs = ks \<and> list_all (soft_row col) rs)"

lemma soft_delete_docs:
  assumes env: "no_hooks env" "norm_ok env" "\<And>n. time_text (fst (e_now env n))"
    and col: "collectionForType env (doc_type (ci_zero col)) = Inr col" "cm_HasSoftDelete (ci_meta col)"
      "\<not> ci_UseRevision col"
  shows "list_all (\<lambda>d. soft_doc col (getID d) d \<and> getID d \<in> set ks) ds \<Longrightarrow> soft_state col ks X w \<Longrightarrow>
    \<exists>w'. delete_docs env [] ds count w = (Ok (count + int (length ds)), w') \<and> soft_state col ks X w'"
proof (induction ds arbitrary: count w)
  case (Cons d ds)
  then have d: "soft_doc col (getID d) d" "getID d \<in> set ks" by simp_all
  from Cons.prems(2) obtain rs where rs: "st_tables (w_store w) (col_name col) = Some rs" "map fst rs = ks"
    "list_all (soft_row col) rs" and w: "calm w" "no_unique (w_store w)" "w_saved w = X"
    by (auto simp: soft_state_def)
  have tab: "has_table (w_store w) (col_name col)" using rs(1) by (simp add: has_table_def)
  from soft_delete_one [OF env col d(1) w(1,2) tab] obtain d' w' j where
    one: "Delete env ScopeTx [] (d, w) = (Ok (), (d', w'))" "calm w'"
      "w_store w' = st_put (col_name col) (getID d) j (w_store w)" "soft_row col (getID d, j)" "w_saved w' = w_saved w"
    by blast
  have tabs: "st_tables (w_store w') (col_name col) = Some (AList.update (getID d) j rs)"
    using one(3) rs(1) by (simp add: st_put_def)
  have "map fst (AList.update (getID d) j rs) = ks" using keys_update d(2) rs(2) by (metis set_map)
  moreover have "list_all (soft_row col) (AList.update (getID d) j rs)"
    using rs(3) one(4) set_update_row by (fastforce simp: list_all_iff)
  moreover have "no_unique (w_store w')" using w(2) one(3) rs(1) by (simp add: no_unique_def st_put_def)
  ultimately have "soft_state col ks X w'" using tabs one(2,5) w(3) by (auto simp: soft_state_def)
  from Cons.IH [OF _ this, of "count + 1"] Cons.prems(1) obtain w2 where
    "delete_docs env [] ds (count + 1) w' = (Ok (count + 1 + int (length ds)), w2)" "soft_state col ks X w2" by auto
  with one(1) w(1) show ?case by (auto simp: bindP_def run_on_def algebra_simps)
qed auto

lemma soft_delete_loop:
  assumes env: "no_hooks env" "norm_ok env" "\<And>n. time_text (fst (e_now env n))" "select_ok env"
    and col: "collectionForType env (doc_type (ci_zero col)) = Inr col" "cm_HasSoftDelete (ci_meta col)"
      "\<not> ci_UseRevision col"
    and qs: "plain_set qs" "qs_includeDeleted qs" "qs_conditions qs = []" "c > 0"
    and ks: "distinct ks" "c \<le> int (length ks)"
  shows "soft_state col ks X w \<Longrightarrow> chunk\<lparr>qs_limitN := c\<rparr> = qs\<lparr>qs_limitN := c\<rparr> \<Longrightarrow>
    delete_loop fuel env c qs [] col chunk count w = None"
proof (induction fuel arbitrary: w chunk count)
  case (Suc fuel)
  let ?q = "loop_query qs c col" and ?ch = "qs\<lparr>qs_limitN := c\<rparr>"
  from Suc.prems(1) obtain rs where rs: "st_tables (w_store w) (col_name col) = Some rs" "map fst rs = ks"
    "list_all (soft_row col) rs" and w: "calm w" by (auto simp: soft_state_def)
  define ss where "ss = e_select env ?q rs"
  have q: "AfterID ?q = []" "BeforeID ?q = []" "SkipN ?q \<le> 0" "Lock ?q \<noteq> Some LockSkipLocked" "LimitN ?q = c"
    "Conditions ?q = []"
    using qs by (simp_all add: loop_query_def buildBackendQuery_def plain_set_def allConditions_def)
  have dist: "distinct (map fst rs)" using rs(2) ks(1) by simp
  have sat: "list_all (\<lambda>(i, j). satisfies ?q j \<or> falsifies ?q j) rs" "\<And>j. satisfies ?q j"
    using q(6) by (auto simp: satisfies_def list_all_iff)
  have cq: "LimitN ?q > 0" using q(5) qs(4) by simp
  note S = select_all_or_full [OF env(4) dist sat(1) q(1-4) cq, folded ss_def]
  have len: "int (length ss) = c"
  proof (rule ccontr)
    assume "int (length ss) \<noteq> c"
    with S(3) q(5) have less: "int (length ss) < c" by simp
    with S(4) q(5) sat(2) have "set ss = set rs" by auto
    moreover have "distinct ss" "distinct rs" using S(2) dist by (simp_all add: distinct_map)
    ultimately have "length ss = length rs" by (metis distinct_card)
    with less ks(2) rs(2) show False by (metis length_map not_less)
  qed
  have sub: "list_all (soft_row col) ss" using S(1) rs(3) by (auto simp: list_all_iff)
  then have "list_all (good_row col) ss"
    by (auto simp: list_all_iff soft_row_def good_row_def soft_doc_def)
  then obtain ds where ds: "drainIter col ss w = (Ok ds, w)" "map getID ds = map fst ss"
    "list_all2 (\<lambda>(i, j) d. decodeWithSnapshot j (ci_zero col) = (None, d)) ss ds"
    by (rule drain_good [OF _ w])
  have "soft_doc col (getID d) d \<and> getID d \<in> set ks" if "d \<in> set ds" for d
  proof -
    from that ds(3) obtain i j where x: "(i, j) \<in> set ss" "decodeWithSnapshot j (ci_zero col) = (None, d)"
      by (fastforce simp: list_all2_conv_all_nth in_set_conv_nth)
    with sub have "soft_doc col i d" by (auto simp: list_all_iff soft_row_def)
    moreover have "i \<in> set ks" using x(1) S(1) rs(2) by (force simp: image_iff)
    ultimately show ?thesis by (auto simp: soft_doc_def)
  qed
  then have ok: "list_all (\<lambda>d. soft_doc col (getID d) d \<and> getID d \<in> set ks) ds" by (simp add: list_all_iff)
  from soft_delete_docs [OF env(1-3) col ok Suc.prems(1)] obtain w3 where
    w3: "delete_docs env [] ds count w = (Ok (count + int (length ds)), w3)" "soft_state col ks X w3" by blast
  have rows: "bindP (be_Query env (col_name col) (buildBackendQuery ?ch col)) (drainIter col) w = (Ok ds, w)"
    using be_Query_calm [OF w rs(1), of env ?q] ds(1) by (simp add: bindP_def loop_query_def ss_def)
  have full: "int (length ds) = c" using ds(2) len by (metis length_map)
  have "delete_loop (Suc fuel) env c qs [] col chunk count w
    = (if ds = [] then Some (Ok count, w)
       else if int (length ds) < c then Some (Ok (count + int (length ds)), w3)
       else delete_loop fuel env c qs [] col (?ch\<lparr>qs_skipN := 0\<rparr>) (count + int (length ds)) w3)"
    by (rule delete_loop_step [OF w _ Suc.prems(2) rows w3(1)]) (use qs in \<open>simp_all add: plain_set_def\<close>)
  moreover have "ds \<noteq> []" using full qs(4) by auto
  moreover have "delete_loop fuel env c qs [] col (?ch\<lparr>qs_skipN := 0\<rparr>) (count + int (length ds)) w3 = None"
    by (rule Suc.IH [OF w3(2)]) (use qs(1) in \<open>simp add: plain_set_def\<close>)
  ultimately show ?case using full by simp
qed simp

text \<open>C20. \<open>QuerySet.Delete\<close> on a soft-delete type with \<open>IncludeDeleted\<close> does not end once the table has
  a full chunk of rows: every round soft-deletes the same rows again, and they match again. No amount
  of rounds is enough, for any chunk size.\<close>

theorem delete_including_deleted_never_ends:
  assumes env: "no_hooks env" "norm_ok env" "\<And>n. time_text (fst (e_now env n))" "select_ok env"
    and col: "collectionForType env (qs_type qs) = Inr col" "doc_type (ci_zero col) = qs_type qs"
      "cm_HasSoftDelete (ci_meta col)" "\<not> ci_UseRevision col"
    and qs: "plain_set qs" "qs_includeDeleted qs" "qs_conditions qs = []" "c > 0"
    and w: "calm w" "no_unique (w_store w)"
    and rs: "st_tables (w_store w) (col_name col) = Some rs" "distinct (map fst rs)" "list_all (soft_row col) rs"
      "c \<le> int (length rs)"
  shows "delete_loop fuel env c qs [] col qs count w = None"
proof -
  have "soft_state col (map fst rs) (w_saved w) w" using w rs by (auto simp: soft_state_def)
  from soft_delete_loop [OF env _ col(3,4) qs rs(2) _ this] col rs(4) show ?thesis by simp
qed

section \<open>Instances\<close>

definition storage_db :: "env" where
  "storage_db = (note_db False True)\<lparr>e_storage := Some (\<lambda>a. None)\<rparr>"

definition two_notes :: "world" where
  "two_notes = note_world [note_doc ''k'' [] ''a'' [], note_doc ''l'' [] ''b'' []]"

definition two_rows :: rows where
  "two_rows = [(''k'', Document.encode (note_doc ''k'' [] ''a'' [])), (''l'', Document.encode (note_doc ''l'' [] ''b'' []))]"

lemma two_rows_stored: "st_tables (w_store two_notes) ''note'' = Some two_rows"
  by (simp add: two_notes_def two_rows_def note_world_def initial_world_def note_store_def)

lemma two_notes_calm [simp]: "calm two_notes" "no_unique (w_store two_notes)" "w_saved two_notes = None"
  by (simp_all add: two_notes_def note_world_def initial_world_def calm_def no_unique_def note_store_def)

lemma two_rows_good:
  "distinct (map fst two_rows)" "list_all (good_row (note_collection False True)) two_rows" "length two_rows = 2"
  "decided (NewQuery ''Note'' ScopeDB []) (note_collection False True) two_rows"
  "list_all (soft_row (note_collection False True)) two_rows"
proof -
  have dec: "decodeWithSnapshot (Document.encode (note_doc i [] t [])) (note_doc [] [] [] [])
      = (None, captureSnapshot (Document.encode (note_doc i [] t [])) (unload_doc (note_doc i [] t [])))"
    "wf_doc (note_doc i [] t [])" "zero_doc (note_doc i [] t []) = note_doc [] [] [] []" for i t
  proof -
    show wf: "wf_doc (note_doc i [] t [])"
      by (simp add: wf_doc_def) (simp add: note_doc_def zero_time_def time_text_def is_digit_def)
    show z: "zero_doc (note_doc i [] t []) = note_doc [] [] [] []"
      by (simp add: note_doc_def zero_doc_def)
    show "decodeWithSnapshot (Document.encode (note_doc i [] t [])) (note_doc [] [] [] [])
      = (None, captureSnapshot (Document.encode (note_doc i [] t [])) (unload_doc (note_doc i [] t [])))"
      using decode_encode [OF wf] by (simp add: decodeWithSnapshot_def z)
  qed
  have id: "getID (unload_doc (note_doc i [] t [])) = i" for i t
    by (simp add: getID_def string_field_def field_of_unload)
  show "distinct (map fst two_rows)" "length two_rows = 2" by (simp_all add: two_rows_def)
  show "list_all (good_row (note_collection False True)) two_rows"
    by (simp add: two_rows_def good_row_def dec id)
  show "decided (NewQuery ''Note'' ScopeDB []) (note_collection False True) two_rows" by code_simp
  show "list_all (soft_row (note_collection False True)) two_rows"
    by (simp add: two_rows_def soft_row_def soft_doc_def dec id field_of_unload)
qed

theorem query_delete_witness:
  "\<exists>w'. QuerySet_Delete 3 storage_db 1 (NewQuery ''Note'' ScopeDB []) [HardDelete] two_notes = (Ok 2, w')
     \<and> st_tables (w_store w') ''note'' = Some []"
proof -
  have "e_hooks storage_db = (\<lambda>_ _. None)" "select_ok storage_db" "e_storage storage_db \<noteq> None"
    by (auto simp: storage_db_def note_db_def intro: note_select_ok)
  moreover have "collectionForType storage_db ''Note'' = Inr (note_collection False True)"
    using note_db_simps(5) [of False True] by (simp add: storage_db_def collectionForType_def)
  moreover have "matching (NewQuery ''Note'' ScopeDB []) (note_collection False True) two_rows = two_rows" by code_simp
  moreover have "filter (\<lambda>(i, j). \<not> satisfies (loop_query (NewQuery ''Note'' ScopeDB []) 0 (note_collection False True)) j) two_rows = []"
    by code_simp
  ultimately show ?thesis
    using query_delete_removes_the_matches [of storage_db "NewQuery ''Note'' ScopeDB []" "note_collection False True"
      "[HardDelete]" 1 two_rows 3 two_notes] two_rows_good two_rows_stored
    by (simp add: no_hooks_def NewQuery_def plain_set_def preflight_def option_defs)
qed

theorem delete_never_ends_witness:
  "delete_loop 1000 (note_db False True) 2 (IncludeDeleted_qs (NewQuery ''Note'' ScopeDB [])) []
     (note_collection False True) (IncludeDeleted_qs (NewQuery ''Note'' ScopeDB [])) 0 two_notes = None"
proof -
  have "time_text (fst (e_now (note_db False True) n))" for n
    by (simp add: note_db_def note_env_def time_text_def is_digit_def)
  then show ?thesis
    using two_rows_good two_rows_stored
    by (intro delete_including_deleted_never_ends [where rs = two_rows])
       (simp_all add: IncludeDeleted_qs_def NewQuery_def plain_set_def)
qed

end
