(* ===== verification/Migrate.thy ===== *)
theory Migrate
  imports Tx
begin

text \<open>
  The migration runner: \<^verbatim>\<open>migrate/migrate.go\<close>. A \<open>migrator\<close> is a \<open>Registry\<close>: the registered
  migrations in version order, the outcome of the one-time set-up of the log collection
  (\<open>ensureTableOnce\<close>, \<open>ensureTableErr\<close>) and the events it sent to its logger. A migration function is
  a computation on the world, run inside the transaction of its step; a nil function panics when it is
  called. Entries of the log are stored as the JSON of the \<open>migrationEntry\<close> struct. \<open>sort.Slice\<close> is a
  stable sort here: for versions registered twice the code leaves the order open. Durations are read
  off the millisecond clock.
\<close>

section \<open>State\<close>

record migration =
  mg_Forward :: "(world, unit) prog option"
  mg_Backward :: "(world, unit) prog option"

record registered_migration =
  rm_version :: string
  rm_migration :: migration

record log_event =
  ev_name :: string
  ev_version :: string
  ev_direction :: string
  ev_duration_ms :: "int option"
  ev_error :: "gerr option"

record migrator =
  mr_migrations :: "registered_migration list"
  mr_ensured :: "gerr option option"
  mr_log :: "log_event list"

definition NewRegistry :: migrator where
  "NewRegistry = \<lparr>mr_migrations = [], mr_ensured = None, mr_log = []\<rparr>"

definition Register_migration :: "string \<Rightarrow> migration \<Rightarrow> migrator \<Rightarrow> migrator" where
  "Register_migration version m r =
     r\<lparr>mr_migrations := sort_key rm_version
         (mr_migrations r @ [\<lparr>rm_version = version, rm_migration = m\<rparr>])\<rparr>"

section \<open>The log\<close>

record migration_entry =
  en_Version :: string
  en_AppliedAt :: string

definition migrationsCollection :: string where "migrationsCollection = ''_den_migrations''"

definition log_id :: string where "log_id = ''log''"

definition migrationLockKey :: int where "migrationLockKey = 0x44656e4d4947524e"

definition entry_doc :: "migration_entry \<Rightarrow> doc" where
  "entry_doc e = Doc ''migrationEntry''
     [(''version'', False, FStr (en_Version e)), (''applied_at'', False, FTime (en_AppliedAt e))] None"

definition zero_entry :: migration_entry where
  "zero_entry = \<lparr>en_Version = [], en_AppliedAt = zero_time\<rparr>"

definition doc_entry :: "doc \<Rightarrow> migration_entry" where
  "doc_entry d = \<lparr>en_Version = (case field_of d ''version'' of Some (FStr v) \<Rightarrow> v | _ \<Rightarrow> []),
     en_AppliedAt = (case field_of d ''applied_at'' of Some (FTime t) \<Rightarrow> t | _ \<Rightarrow> zero_time)\<rparr>"

definition enc_log :: "migration_entry list \<Rightarrow> json" where
  "enc_log es = JArr (map (\<lambda>e. Document.encode (entry_doc e)) es)"

fun dec_entries :: "json list \<Rightarrow> gerr + migration_entry list" where
  "dec_entries [] = Inr []"
| "dec_entries (j # js) =
     (case decode_into j (entry_doc zero_entry) of
        (Some e, _) \<Rightarrow> Inl e
      | (None, d) \<Rightarrow> (case dec_entries js of Inl e \<Rightarrow> Inl e | Inr es \<Rightarrow> Inr (doc_entry d # es)))"

fun dec_log :: "json \<Rightarrow> gerr + migration_entry list" where
  "dec_log (JArr js) = dec_entries js"
| "dec_log JNull = Inr []"
| "dec_log _ = Inl mismatch"

definition log_meta :: collection_meta where
  "log_meta = \<lparr>cm_Name = migrationsCollection, cm_Fields = [], cm_Indexes = [],
     cm_HasSoftDelete = False, cm_HasRevision = False, cm_HasChangeTracking = False\<rparr>"

definition emit :: "log_event \<Rightarrow> (migrator, unit) op" where
  "emit e = modifyP (\<lambda>(r, w). (r\<lparr>mr_log := mr_log r @ [e]\<rparr>, w))"

definition ensureMigrationTable :: "(migrator, unit) op" where
  "ensureMigrationTable = (\<lambda>(r, w).
     case mr_ensured r of
       Some e \<Rightarrow> checkP e (r, w)
     | None \<Rightarrow> (case be_EnsureCollection migrationsCollection log_meta w of
           (Ok _, w') \<Rightarrow> (Ok (), (r\<lparr>mr_ensured := Some None\<rparr>, w'))
         | (Err e, w') \<Rightarrow>
             bindP (emit \<lparr>ev_name = ''ensure_table_failure'', ev_version = [], ev_direction = [],
                         ev_duration_ms = None, ev_error = Some e\<rparr>)
               (\<lambda>_. throwP e) (r\<lparr>mr_ensured := Some (Some e)\<rparr>, w')
         | (Panic p, w') \<Rightarrow> (Panic p, (r\<lparr>mr_ensured := Some None\<rparr>, w'))))"

definition loadEntriesFromTx :: "(world, migration_entry list) prog" where
  "loadEntriesFromTx w = (case be_Get migrationsCollection log_id w of
      (Ok data, w') \<Rightarrow> (case dec_log data of Inl e \<Rightarrow> (Err e, w') | Inr es \<Rightarrow> (Ok es, w'))
    | (Err e, w') \<Rightarrow> if errors_is e ErrNotFound then (Ok [], w') else (Err e, w')
    | (Panic p, w') \<Rightarrow> (Panic p, w'))"

text \<open>\<open>loadApplied\<close> reads the same document outside a transaction.\<close>

definition loadApplied :: "(migrator, string list) op" where
  "loadApplied = bindP ensureMigrationTable (\<lambda>_.
     bindP (on_snd loadEntriesFromTx) (\<lambda>es. returnP (map en_Version es)))"

definition saveEntriesToTx :: "env \<Rightarrow> migration_entry list \<Rightarrow> (world, unit) prog" where
  "saveEntriesToTx env es = be_Put env migrationsCollection log_id (enc_log es)"

section \<open>One step\<close>

definition clock_ms :: "env \<Rightarrow> (world, int) prog" where
  "clock_ms env w = (Ok (uint (snd (e_now env (w_ticks w)))), w\<lparr>w_ticks := Suc (w_ticks w)\<rparr>)"

definition emitResult :: "env \<Rightarrow> string \<Rightarrow> string \<Rightarrow> int \<Rightarrow> gerr option \<Rightarrow> (migrator, unit) op" where
  "emitResult env version direction start err =
     bindP (on_snd (clock_ms env)) (\<lambda>t.
       emit \<lparr>ev_name = (if err \<noteq> None then ''migration_failure'' else ''migration_success''),
             ev_version = version, ev_direction = direction,
             ev_duration_ms = Some (t - start), ev_error = err\<rparr>)"

definition call_migration :: "(world, unit) prog option \<Rightarrow> string \<Rightarrow> (migrator, unit) op" where
  "call_migration f version = (case f of
      None \<Rightarrow> panicP ''invalid memory address or nil pointer dereference''
    | Some m \<Rightarrow> map_err (\<lambda>e. Wrap version [Sent ErrMigrationFailed, e]) (on_snd m))"

definition forward_body :: "env \<Rightarrow> registered_migration \<Rightarrow> (migrator, unit) op" where
  "forward_body env m =
     bindP (AdvisoryLock migrationLockKey) (\<lambda>_.
     bindP (on_snd loadEntriesFromTx) (\<lambda>entries.
       if list_ex (\<lambda>e. en_Version e = rm_version m) entries then returnP ()
       else bindP (call_migration (mg_Forward (rm_migration m)) (rm_version m)) (\<lambda>_.
            bindP (on_snd (time_now env)) (\<lambda>t.
            on_snd (saveEntriesToTx env (entries @ [\<lparr>en_Version = rm_version m, en_AppliedAt = t\<rparr>]))))))"

definition backward_body :: "env \<Rightarrow> registered_migration \<Rightarrow> (migrator, unit) op" where
  "backward_body env m =
     bindP (AdvisoryLock migrationLockKey) (\<lambda>_.
     bindP (on_snd loadEntriesFromTx) (\<lambda>entries.
       if \<not> list_ex (\<lambda>e. en_Version e = rm_version m) entries then returnP ()
       else bindP (call_migration (mg_Backward (rm_migration m)) (rm_version m)) (\<lambda>_.
            on_snd (saveEntriesToTx env (filter (\<lambda>e. en_Version e \<noteq> rm_version m) entries)))))"

text \<open>The frame of \<open>runForward\<close> and \<open>runBackward\<close>: a panic passes through without an event.\<close>

definition run_logged :: "env \<Rightarrow> string \<Rightarrow> string \<Rightarrow> (migrator, unit) op \<Rightarrow> (migrator, unit) op" where
  "run_logged env version direction body =
     bindP (on_snd (clock_ms env)) (\<lambda>start.
     bindP (emit \<lparr>ev_name = ''migration_start'', ev_version = version, ev_direction = direction,
                  ev_duration_ms = None, ev_error = None\<rparr>) (\<lambda>_ s.
       case RunInTransaction body s of
         (Panic p, s') \<Rightarrow> (Panic p, s')
       | (Err e, s') \<Rightarrow> bindP (emitResult env version direction start (Some e)) (\<lambda>_. throwP e) s'
       | (Ok _, s') \<Rightarrow> emitResult env version direction start None s'))"

definition runForward :: "env \<Rightarrow> registered_migration \<Rightarrow> (migrator, unit) op" where
  "runForward env m = run_logged env (rm_version m) ''up'' (forward_body env m)"

definition runBackward :: "env \<Rightarrow> registered_migration \<Rightarrow> (migrator, unit) op" where
  "runBackward env m = run_logged env (rm_version m) ''down'' (backward_body env m)"

section \<open>The runner\<close>

definition findMigration :: "migrator \<Rightarrow> string \<Rightarrow> registered_migration option" where
  "findMigration r version = find (\<lambda>m. rm_version m = version) (mr_migrations r)"

definition Up :: "env \<Rightarrow> (migrator, unit) op" where
  "Up env = bindP ensureMigrationTable (\<lambda>_ (r, w). forP (runForward env) (mr_migrations r) (r, w))"

definition UpOne :: "env \<Rightarrow> (migrator, unit) op" where
  "UpOne env =
     bindP ensureMigrationTable (\<lambda>_.
     bindP loadApplied (\<lambda>applied (r, w).
       case find (\<lambda>m. rm_version m \<notin> set applied) (mr_migrations r) of
         None \<Rightarrow> (Ok (), (r, w)) | Some m \<Rightarrow> runForward env m (r, w)))"

definition down_version :: "env \<Rightarrow> string \<Rightarrow> (migrator, unit) op" where
  "down_version env version = (\<lambda>(r, w).
     case findMigration r version of
       None \<Rightarrow> (Err (Msg (''den: migration '' @ version @ '' not found in registry'')), (r, w))
     | Some m \<Rightarrow>
         if mg_Backward (rm_migration m) = None
         then (Err (Msg (''den: migration '' @ version @ '' has no backward function'')), (r, w))
         else runBackward env m (r, w))"

definition DownOne :: "env \<Rightarrow> (migrator, unit) op" where
  "DownOne env = bindP loadApplied (\<lambda>applied.
     if applied = [] then returnP () else down_version env (last applied))"

definition Down :: "env \<Rightarrow> (migrator, unit) op" where
  "Down env = bindP loadApplied (\<lambda>applied. forP (down_version env) (rev applied))"

end
