(* ===== verification/Migrate_Lemmas.thy ===== *)
theory Migrate_Lemmas
  imports Migrate
begin

text \<open>
  The abstract schema behind the migration runner, and what each operation does to it. \<open>log_is step s0 vs st\<close> relates a store to the abstract state of the
  schema, the list \<open>vs\<close> of applied versions: the stored log lists \<open>vs\<close> in order, and the rest of the
  store is what the migrations \<open>vs\<close> make of \<open>s0\<close>. \<open>migrations_ok\<close> is the contract of the migration
  functions: one that returns has the effect \<open>step\<close> of its version (a backward function undoes it), they
  leave the log and the open transaction alone. A backend does not report ErrNotFound for a row that
  exists (\<open>honest\<close>); otherwise every fault is possible.
\<close>

section \<open>The abstract schema\<close>

definition user_part :: "store \<Rightarrow> store" where
  "user_part st = st\<lparr>st_tables := (st_tables st)(migrationsCollection := None)\<rparr>"

definition stored_log :: "store \<Rightarrow> migration_entry list option" where
  "stored_log st = (case st_get st migrationsCollection log_id of
      None \<Rightarrow> Some []
    | Some j \<Rightarrow> (case dec_log j of Inl e \<Rightarrow> None | Inr es \<Rightarrow> Some es))"

definition times_ok :: "migration_entry list \<Rightarrow> bool" where
  "times_ok es \<longleftrightarrow> list_all (\<lambda>e. time_text (en_AppliedAt e)) es"

definition log_is :: "(string \<Rightarrow> store \<Rightarrow> store) \<Rightarrow> store \<Rightarrow> string list \<Rightarrow> store \<Rightarrow> bool" where
  "log_is step s0 vs st \<longleftrightarrow> (\<exists>es. stored_log st = Some es \<and> map en_Version es = vs \<and> times_ok es)
     \<and> user_part st = fold step vs s0 \<and> distinct vs"

definition log_norm_ok :: "env \<Rightarrow> bool" where
  "log_norm_ok env \<longleftrightarrow> (\<forall>es. dec_log (e_norm env (enc_log es)) = dec_log (enc_log es))
     \<and> (\<forall>n. time_text (fst (e_now env n)))"

definition honest :: "world \<Rightarrow> bool" where
  "honest w \<longleftrightarrow> (\<forall>e. Some e \<in> set (w_faults w) \<longrightarrow> \<not> errors_is e ErrNotFound)"

definition fn_ok :: "(world, unit) prog \<Rightarrow> (store \<Rightarrow> store \<Rightarrow> bool) \<Rightarrow> bool" where
  "fn_ok f R \<longleftrightarrow> (\<forall>w r w'. f w = (r, w') \<longrightarrow> w_saved w' = w_saved w \<and> set (w_faults w') \<subseteq> set (w_faults w)
     \<and> (is_ok r \<longrightarrow> st_tables (w_store w') migrationsCollection = st_tables (w_store w) migrationsCollection
          \<and> R (user_part (w_store w)) (user_part (w_store w'))))"

definition forward_ok :: "(string \<Rightarrow> store \<Rightarrow> store) \<Rightarrow> registered_migration \<Rightarrow> bool" where
  "forward_ok step m \<longleftrightarrow> (\<forall>f. mg_Forward (rm_migration m) = Some f \<longrightarrow> fn_ok f (\<lambda>a b. b = step (rm_version m) a))"

definition backward_ok :: "(string \<Rightarrow> store \<Rightarrow> store) \<Rightarrow> store \<Rightarrow> registered_migration \<Rightarrow> bool" where
  "backward_ok step s0 m \<longleftrightarrow> (\<forall>f. mg_Backward (rm_migration m) = Some f \<longrightarrow>
     fn_ok f (\<lambda>a b. \<forall>vs. rm_version m \<notin> set vs \<and> a = step (rm_version m) (fold step vs s0) \<longrightarrow> b = fold step vs s0))"

definition migrations_ok :: "(string \<Rightarrow> store \<Rightarrow> store) \<Rightarrow> store \<Rightarrow> registered_migration list \<Rightarrow> bool" where
  "migrations_ok step s0 ms \<longleftrightarrow> list_all (\<lambda>m. forward_ok step m \<and> backward_ok step s0 m) ms"

section \<open>Reading and writing the log\<close>

lemma entry_of_doc [simp]: "doc_entry (entry_doc e) = e"
  by (simp add: doc_entry_def entry_doc_def field_of_def)

lemma decode_entry: "time_text (en_AppliedAt e) \<Longrightarrow>
  decode_into (Document.encode (entry_doc e)) (entry_doc zero_entry) = (None, entry_doc e)"
  by (simp add: entry_doc_def zero_entry_def Document.encode_def enc_fields_def field_of_def set_field_def)

lemma dec_enc_log: "times_ok es \<Longrightarrow> dec_log (enc_log es) = Inr es"
proof (induction es)
  case (Cons e es)
  then show ?case by (simp add: enc_log_def times_ok_def decode_entry)
qed (simp add: enc_log_def)

lemma fault_result: "fault w = (r, w') \<Longrightarrow> w_store w' = w_store w \<and> w_saved w' = w_saved w
   \<and> set (w_faults w') \<subseteq> set (w_faults w) \<and> (\<forall>e. r = Err e \<longrightarrow> Some e \<in> set (w_faults w)) \<and> (\<forall>p. r \<noteq> Panic p)"
  by (auto simp: fault_def split: list.splits option.splits)

lemma load_result:
  assumes "loadEntriesFromTx w = (r, w')" "honest w"
  shows "w_store w' = w_store w \<and> w_saved w' = w_saved w \<and> set (w_faults w') \<subseteq> set (w_faults w)
    \<and> (\<forall>es. r = Ok es \<longrightarrow> stored_log (w_store w) = Some es)"
proof -
  obtain q w1 where f: "fault w = (q, w1)" by fastforce
  note F = fault_result [OF f]
  show ?thesis
  proof (cases q)
    case (Ok u)
    with assms(1) f F show ?thesis
      by (auto simp: loadEntriesFromTx_def be_Get_def bindP_def stored_log_def st_get_def no_such_table_def
          split: option.splits sum.splits)
  next
    case (Err e)
    with F assms(2) have "\<not> errors_is e ErrNotFound" by (simp add: honest_def)
    with assms(1) f F Err show ?thesis by (auto simp: loadEntriesFromTx_def be_Get_def bindP_def)
  next
    case (Panic p) with F show ?thesis by simp
  qed
qed

lemma user_part_put [simp]: "user_part (st_put migrationsCollection i j st) = user_part st"
  by (simp add: user_part_def st_put_def split: option.split)

lemma save_result:
  assumes "saveEntriesToTx env es w = (r, w')" "log_norm_ok env" "times_ok es"
  shows "w_saved w' = w_saved w \<and> set (w_faults w') \<subseteq> set (w_faults w)
    \<and> (is_ok r \<longrightarrow> stored_log (w_store w') = Some es \<and> user_part (w_store w') = user_part (w_store w))"
proof -
  obtain q w1 where f: "fault w = (q, w1)" by fastforce
  note F = fault_result [OF f]
  have "dec_log (e_norm env (enc_log es)) = Inr es" using assms(2,3) by (simp add: log_norm_ok_def dec_enc_log)
  with assms(1) f F show ?thesis
    by (cases q) (auto simp: saveEntriesToTx_def be_Put_def bindP_def stored_log_def kv.get_put_same split: if_splits)
qed

section \<open>A step of the runner\<close>

lemma fault_shrinks: "x \<in> set (w_faults w') \<Longrightarrow> fault w = (r, w') \<Longrightarrow> x \<in> set (w_faults w)"
  using fault_result by blast

lemma begin_faults: "be_Begin w = (r, w') \<Longrightarrow> set (w_faults w') \<subseteq> set (w_faults w)"
  by (auto simp: be_Begin_def bindP_def dest: fault_shrinks split: prod.splits outcome.splits if_splits)

lemma close_faults [simp]: "w_faults (close_tx b w) = w_faults w"
  by (simp add: close_tx_def split: option.split)

lemma end_faults:
  "be_Commit w = (r, w') \<Longrightarrow> set (w_faults w') \<subseteq> set (w_faults w)"
  "be_Rollback w = (r, w') \<Longrightarrow> set (w_faults w') \<subseteq> set (w_faults w)"
  by (auto simp: be_Commit_def be_Rollback_def dest: fault_shrinks split: prod.splits outcome.splits)

text \<open>The rule for a transaction: its body establishes \<open>P\<close> when it returns.\<close>

lemma RunInTransaction_rule:
  assumes run: "RunInTransaction fn (d, w) = (r, (d', w'))" and n: "tx_neutral fn"
    and body: "\<And>w0 q d1 w1. set (w_faults w0) \<subseteq> set (w_faults w) \<Longrightarrow> w_store w0 = w_store w \<Longrightarrow>
      fn (d, w0) = (q, (d1, w1)) \<Longrightarrow> d1 = d \<and> set (w_faults w1) \<subseteq> set (w_faults w0) \<and> (is_ok q \<longrightarrow> P (w_store w1))"
  shows "d' = d \<and> set (w_faults w') \<subseteq> set (w_faults w) \<and> w_saved w' = w_saved w
    \<and> (if is_ok r then P (w_store w') else w_store w' = w_store w)"
proof -
  note R = RunInTransaction_result [OF run n]
  obtain b w0 where bg: "be_Begin w = (b, w0)" by fastforce
  show ?thesis
  proof (cases b)
    case (Ok u)
    obtain q d1 w1 where fn: "fn (d, w0) = (q, (d1, w1))" by (metis prod_cases3)
    have fin: "finish_tx fn (d, w0) = (r, (d', w'))"
      using run bg Ok by (simp add: RunInTransaction_def bindP_def map_err_def on_snd_def)
    have w0: "w_store w0 = w_store w" "w_saved w0 = Some (w_store w)" using be_Begin_result [OF bg] Ok by simp_all
    note B = body [OF begin_faults [OF bg] w0(1) fn]
    have saved: "w_saved w1 = Some (w_store w)" using tx_neutralD [OF n fn] w0 by simp
    obtain c w2 where cm: "be_Commit w1 = (c, w2)" by fastforce
    obtain rb w3 where rb: "be_Rollback w1 = (rb, w3)" by fastforce
    have "d' = d1 \<and> set (w_faults w') \<subseteq> set (w_faults w1) \<and> (is_ok r \<longrightarrow> is_ok q \<and> is_ok c \<and> w' = w2)"
      using fin fn cm rb end_faults(1) [OF cm] end_faults(2) [OF rb]
      by (auto simp: finish_tx_def split: outcome.splits)
    with B R begin_faults [OF bg] be_Commit_result [OF cm saved] show ?thesis by auto
  next
    case (Err e)
    with run bg begin_faults [OF bg] R show ?thesis
      by (auto simp: RunInTransaction_def bindP_def map_err_def on_snd_def)
  next
    case (Panic p)
    with run bg begin_faults [OF bg] R show ?thesis
      by (auto simp: RunInTransaction_def bindP_def map_err_def on_snd_def)
  qed
qed

lemma call_result:
  assumes "call_migration f v (r0, w) = (q, (r1, w'))" "\<And>m. f = Some m \<Longrightarrow> fn_ok m R"
  shows "r1 = r0 \<and> w_saved w' = w_saved w \<and> set (w_faults w') \<subseteq> set (w_faults w)
    \<and> (is_ok q \<longrightarrow> st_tables (w_store w') migrationsCollection = st_tables (w_store w) migrationsCollection
        \<and> R (user_part (w_store w)) (user_part (w_store w')))"
proof (cases f)
  case (Some m)
  obtain p w1 where m: "m w = (p, w1)" by fastforce
  with assms(2) [OF Some] have "w_saved w1 = w_saved w \<and> set (w_faults w1) \<subseteq> set (w_faults w)
    \<and> (is_ok p \<longrightarrow> st_tables (w_store w1) migrationsCollection = st_tables (w_store w) migrationsCollection
        \<and> R (user_part (w_store w)) (user_part (w_store w1)))" by (simp add: fn_ok_def)
  with assms(1) m Some show ?thesis
    by (cases p) (auto simp: call_migration_def map_err_def on_snd_def)
qed (use assms(1) in \<open>auto simp: call_migration_def\<close>)

text \<open>The two bodies have one shape: lock, read the log, leave or run the function and write the log.\<close>

lemma stored_log_same_table:
  "st_tables st' migrationsCollection = st_tables st migrationsCollection \<Longrightarrow> stored_log st' = stored_log st"
  by (simp add: stored_log_def st_get_def)

lemma body_result:
  assumes run: "bindP (AdvisoryLock migrationLockKey) (\<lambda>_. bindP (on_snd loadEntriesFromTx) (\<lambda>es.
        if skip es then returnP () else bindP (call_migration f v) (\<lambda>_. write es))) (r, w) = (q, (r', w'))"
    and f: "\<And>m. f = Some m \<Longrightarrow> fn_ok m R" and hon: "honest w"
    and wr: "\<And>es w t r1 w'. write es (r, w) = (t, (r1, w')) \<Longrightarrow>
      r1 = r \<and> w_saved w' = w_saved w \<and> set (w_faults w') \<subseteq> set (w_faults w)
      \<and> (times_ok es \<longrightarrow> is_ok t \<longrightarrow> user_part (w_store w') = user_part (w_store w)
          \<and> (\<exists>es'. stored_log (w_store w') = Some es' \<and> times_ok es' \<and> map en_Version es' = new_log (map en_Version es)))"
  shows "r' = r \<and> w_saved w' = w_saved w \<and> set (w_faults w') \<subseteq> set (w_faults w)
    \<and> (is_ok q \<longrightarrow> (\<exists>es. stored_log (w_store w) = Some es \<and>
         (if skip es then w_store w' = w_store w
          else times_ok es \<longrightarrow> R (user_part (w_store w)) (user_part (w_store w'))
            \<and> (\<exists>es'. stored_log (w_store w') = Some es' \<and> times_ok es'
                 \<and> map en_Version es' = new_log (map en_Version es)))))"
proof -
  obtain p w1 where l: "loadEntriesFromTx w = (p, w1)" by fastforce
  note L = load_result [OF l hon]
  show ?thesis
  proof (cases p)
    case (Ok es)
    show ?thesis
    proof (cases "skip es")
      case True
      with run l Ok L show ?thesis by (auto simp: AdvisoryLock_def be_AdvisoryLock_def bindP_def)
    next
      case new: False
      obtain c r2 w2 where c: "call_migration f v (r, w1) = (c, (r2, w2))" by (metis prod_cases3)
      note C = call_result [OF c f]
      show ?thesis
      proof (cases c)
        case cok: (Ok u)
        obtain t r3 w3 where s: "write es (r, w2) = (t, (r3, w3))" by (metis prod_cases3)
        have res: "q = t" "w' = w3" "r' = r3"
          using run l Ok new c cok s C by (simp_all add: AdvisoryLock_def be_AdvisoryLock_def bindP_def)
        from wr [OF s] C cok L Ok new show ?thesis
          by (auto simp: res times_ok_def)
      qed (use run l Ok new c C L in \<open>auto simp: AdvisoryLock_def be_AdvisoryLock_def bindP_def\<close>)
    qed
  qed (use run l L in \<open>auto simp: AdvisoryLock_def be_AdvisoryLock_def bindP_def\<close>)
qed

definition after_forward :: "string \<Rightarrow> string list \<Rightarrow> string list" where
  "after_forward v vs = (if v \<in> set vs then vs else vs @ [v])"

lemma write_result:
  assumes "saveEntriesToTx env es w = (t, w')" "log_norm_ok env"
  shows "w_saved w' = w_saved w \<and> set (w_faults w') \<subseteq> set (w_faults w)
    \<and> (times_ok es \<longrightarrow> is_ok t \<longrightarrow> stored_log (w_store w') = Some es \<and> user_part (w_store w') = user_part (w_store w))"
proof -
  have "w_saved w' = w_saved w \<and> set (w_faults w') \<subseteq> set (w_faults w)"
    using assms(1) fault_store by (fastforce simp: saveEntriesToTx_def be_Put_def bindP_def dest: fault_shrinks
        split: prod.splits outcome.splits if_splits)
  with save_result [OF assms] show ?thesis by blast
qed

lemma version_ex: "list_ex (\<lambda>e. en_Version e = v) es \<longleftrightarrow> v \<in> set (map en_Version es)"
  by (force simp: list_ex_iff)

lemma forward_body_result:
  assumes run: "forward_body env m (r, w) = (q, (r', w'))" and ok: "forward_ok step m" "log_norm_ok env" "honest w"
  shows "r' = r \<and> w_saved w' = w_saved w \<and> set (w_faults w') \<subseteq> set (w_faults w)
    \<and> (log_is step s0 vs (w_store w) \<longrightarrow> is_ok q \<longrightarrow> log_is step s0 (after_forward (rm_version m) vs) (w_store w'))"
proof -
  have wr: "r1 = r \<and> w_saved w' = w_saved w \<and> set (w_faults w') \<subseteq> set (w_faults w)
      \<and> (times_ok es \<longrightarrow> is_ok t \<longrightarrow> user_part (w_store w') = user_part (w_store w)
          \<and> (\<exists>es'. stored_log (w_store w') = Some es' \<and> times_ok es' \<and> map en_Version es' = map en_Version es @ [rm_version m]))"
    if w: "bindP (on_snd (time_now env)) (\<lambda>t. on_snd (saveEntriesToTx env
      (es @ [\<lparr>en_Version = rm_version m, en_AppliedAt = t\<rparr>]))) (r, w) = (t, (r1, w'))" for es w t r1 w'
  proof -
    let ?e = "\<lparr>en_Version = rm_version m, en_AppliedAt = fst (e_now env (w_ticks w))\<rparr>"
    have s: "saveEntriesToTx env (es @ [?e]) (w\<lparr>w_ticks := Suc (w_ticks w)\<rparr>) = (t, w')" "r1 = r"
      using w by (auto simp: bindP_def time_now_def on_snd_def split: prod.splits)
    have "times_ok es \<Longrightarrow> times_ok (es @ [?e])" using ok(2) by (simp add: times_ok_def log_norm_ok_def)
    with write_result [OF s(1) ok(2)] s(2) show ?thesis by (auto intro!: exI [of _ "es @ [?e]"])
  qed
  note B = body_result [OF run [unfolded forward_body_def] _ ok(3), where new_log = "\<lambda>vs. vs @ [rm_version m]"
      and R = "\<lambda>a b. b = step (rm_version m) a", OF _ wr]
  have B': "r' = r \<and> w_saved w' = w_saved w \<and> set (w_faults w') \<subseteq> set (w_faults w)
    \<and> (is_ok q \<longrightarrow> (\<exists>es. stored_log (w_store w) = Some es \<and>
         (if list_ex (\<lambda>e. en_Version e = rm_version m) es then w_store w' = w_store w
          else times_ok es \<longrightarrow> user_part (w_store w') = step (rm_version m) (user_part (w_store w))
            \<and> (\<exists>es'. stored_log (w_store w') = Some es' \<and> times_ok es'
                 \<and> map en_Version es' = map en_Version es @ [rm_version m]))))"
    by (rule B) (use ok(1) in \<open>simp_all add: forward_ok_def\<close>)
  then show ?thesis
    by (auto simp: log_is_def after_forward_def version_ex split: if_splits)
qed

lemma backward_body_result:
  assumes run: "backward_body env m (r, w) = (q, (r', w'))" and ok: "backward_ok step s0 m" "log_norm_ok env" "honest w"
  shows "r' = r \<and> w_saved w' = w_saved w \<and> set (w_faults w') \<subseteq> set (w_faults w)
    \<and> (log_is step s0 (vs @ [rm_version m]) (w_store w) \<longrightarrow> is_ok q \<longrightarrow> log_is step s0 vs (w_store w'))"
proof -
  let ?R = "\<lambda>a b. \<forall>vs. rm_version m \<notin> set vs \<and> a = step (rm_version m) (fold step vs s0) \<longrightarrow> b = fold step vs s0"
  have wr: "r1 = r \<and> w_saved w' = w_saved w \<and> set (w_faults w') \<subseteq> set (w_faults w)
      \<and> (times_ok es \<longrightarrow> is_ok t \<longrightarrow> user_part (w_store w') = user_part (w_store w)
          \<and> (\<exists>es'. stored_log (w_store w') = Some es' \<and> times_ok es'
               \<and> map en_Version es' = filter (\<lambda>v. v \<noteq> rm_version m) (map en_Version es)))"
    if w: "on_snd (saveEntriesToTx env (filter (\<lambda>e. en_Version e \<noteq> rm_version m) es)) (r, w) = (t, (r1, w'))" for es w t r1 w'
  proof -
    have s: "saveEntriesToTx env (filter (\<lambda>e. en_Version e \<noteq> rm_version m) es) w = (t, w')" "r1 = r"
      using w by (auto simp: on_snd_def split: prod.splits)
    have "times_ok es \<Longrightarrow> times_ok (filter (\<lambda>e. en_Version e \<noteq> rm_version m) es)" by (auto simp: times_ok_def list_all_iff)
    with write_result [OF s(1) ok(2)] s(2) show ?thesis
      by (auto simp: filter_map comp_def intro!: exI [of _ "filter (\<lambda>e. en_Version e \<noteq> rm_version m) es"])
  qed
  note B = body_result [OF run [unfolded backward_body_def] _ ok(3),
      where new_log = "filter (\<lambda>v. v \<noteq> rm_version m)" and R = ?R, OF _ wr]
  have B': "r' = r \<and> w_saved w' = w_saved w \<and> set (w_faults w') \<subseteq> set (w_faults w)
    \<and> (is_ok q \<longrightarrow> (\<exists>es. stored_log (w_store w) = Some es \<and>
         (if \<not> list_ex (\<lambda>e. en_Version e = rm_version m) es then w_store w' = w_store w
          else times_ok es \<longrightarrow> ?R (user_part (w_store w)) (user_part (w_store w'))
            \<and> (\<exists>es'. stored_log (w_store w') = Some es' \<and> times_ok es'
                 \<and> map en_Version es' = filter (\<lambda>v. v \<noteq> rm_version m) (map en_Version es)))))"
    by (rule B) (use ok(1) in \<open>simp_all add: backward_ok_def\<close>)
  have same: "filter (\<lambda>v. v \<noteq> rm_version m) (vs @ [rm_version m]) = vs" if "rm_version m \<notin> set vs"
    using that by (auto intro!: filter_True)
  show ?thesis
    using B' same by (auto simp: log_is_def version_ex simp del: set_map list.set_map split: if_splits)
qed

lemma honest_mono: "honest w \<Longrightarrow> set (w_faults w') \<subseteq> set (w_faults w) \<Longrightarrow> honest w'"
  by (auto simp: honest_def)

lemma keeps_saved_load: "keeps_saved loadEntriesFromTx"
  by (rule keeps_savedI) (auto simp: loadEntriesFromTx_def dest: keeps_savedD [OF keeps_saved_backend(3)]
      split: prod.splits outcome.splits sum.splits if_splits)

lemma call_neutral: "(\<And>m. f = Some m \<Longrightarrow> fn_ok m R) \<Longrightarrow> tx_neutral (call_migration f v)"
  by (rule tx_neutralI) (auto dest: call_result)

lemma forward_neutral: "forward_ok step m \<Longrightarrow> tx_neutral (forward_body env m)"
  unfolding forward_body_def AdvisoryLock_def saveEntriesToTx_def
  by (intro tx_neutral_bind tx_neutral_if tx_neutral_on_snd tx_neutral_basic keeps_saved_backend keeps_saved_load
      call_neutral [where R = "\<lambda>a b. b = step (rm_version m) a"]) (simp add: forward_ok_def)

lemma backward_neutral: "backward_ok step s0 m \<Longrightarrow> tx_neutral (backward_body env m)"
  unfolding backward_body_def AdvisoryLock_def saveEntriesToTx_def
  by (intro tx_neutral_bind tx_neutral_if tx_neutral_on_snd tx_neutral_basic keeps_saved_backend keeps_saved_load
      call_neutral [where R = "\<lambda>a b. \<forall>vs. rm_version m \<notin> set vs \<and> a = step (rm_version m) (fold step vs s0) \<longrightarrow> b = fold step vs s0"])
     (simp add: backward_ok_def)

text \<open>What every operation of the runner does to the rest of its state.\<close>

definition frame :: "migrator \<Rightarrow> world \<Rightarrow> migrator \<Rightarrow> world \<Rightarrow> bool" where
  "frame r w r' w' \<longleftrightarrow> mr_migrations r' = mr_migrations r \<and> w_saved w' = w_saved w
     \<and> set (w_faults w') \<subseteq> set (w_faults w)"

lemma frame_refl [simp]: "frame r w r w"
  by (simp add: frame_def)

lemma frame_trans: "frame r w r1 w1 \<Longrightarrow> frame r1 w1 r2 w2 \<Longrightarrow> frame r w r2 w2"
  by (auto simp: frame_def)

lemma frame_honest: "frame r w r' w' \<Longrightarrow> honest w \<Longrightarrow> honest w'"
  by (simp add: frame_def honest_mono)

lemma run_logged_result:
  assumes run: "run_logged env v dir body (r, w) = (q, (r', w'))" and n: "tx_neutral body"
    and body: "\<And>r0 w0 p r1 w1. set (w_faults w0) \<subseteq> set (w_faults w) \<Longrightarrow> w_store w0 = w_store w \<Longrightarrow>
      body (r0, w0) = (p, (r1, w1)) \<Longrightarrow> r1 = r0 \<and> set (w_faults w1) \<subseteq> set (w_faults w0) \<and> (is_ok p \<longrightarrow> P (w_store w1))"
  shows "frame r w r' w' \<and> (if is_ok q then P (w_store w') else w_store w' = w_store w)"
proof -
  let ?w = "w\<lparr>w_ticks := Suc (w_ticks w)\<rparr>"
  let ?r = "r\<lparr>mr_log := mr_log r @ [\<lparr>ev_name = ''migration_start'', ev_version = v, ev_direction = dir,
                  ev_duration_ms = None, ev_error = None\<rparr>]\<rparr>"
  obtain p r1 w1 where tx: "RunInTransaction body (?r, ?w) = (p, (r1, w1))" by (metis prod_cases3)
  have "r1 = ?r \<and> set (w_faults w1) \<subseteq> set (w_faults ?w) \<and> w_saved w1 = w_saved ?w
    \<and> (if is_ok p then P (w_store w1) else w_store w1 = w_store ?w)"
    by (rule RunInTransaction_rule [OF tx n]) (use body in simp)
  with run tx show ?thesis
    by (cases p) (auto simp: run_logged_def bindP_def clock_ms_def on_snd_def emit_def emitResult_def frame_def)
qed

lemma runForward_result:
  assumes run: "runForward env m (r, w) = (q, (r', w'))"
    and ok: "forward_ok step m" "log_norm_ok env" "honest w" "log_is step s0 vs (w_store w)"
  shows "frame r w r' w' \<and> log_is step s0 (if is_ok q then after_forward (rm_version m) vs else vs) (w_store w')"
proof -
  have "frame r w r' w' \<and> (if is_ok q then log_is step s0 (after_forward (rm_version m) vs) (w_store w')
      else w_store w' = w_store w)"
  proof (rule run_logged_result [OF run [unfolded runForward_def] forward_neutral [OF ok(1)]])
    fix r0 w0 p r1 w1
    assume "set (w_faults w0) \<subseteq> set (w_faults w)" and st: "w_store w0 = w_store w"
      and b: "forward_body env m (r0, w0) = (p, (r1, w1))"
    then have "honest w0" using ok(3) honest_mono by blast
    from forward_body_result [OF b ok(1,2) this, of s0 vs] ok(4) st
    show "r1 = r0 \<and> set (w_faults w1) \<subseteq> set (w_faults w0)
      \<and> (is_ok p \<longrightarrow> log_is step s0 (after_forward (rm_version m) vs) (w_store w1))" by simp
  qed
  with ok(4) show ?thesis by (auto split: if_splits)
qed

lemma runBackward_result:
  assumes run: "runBackward env m (r, w) = (q, (r', w'))"
    and ok: "backward_ok step s0 m" "log_norm_ok env" "honest w" "log_is step s0 (vs @ [rm_version m]) (w_store w)"
  shows "frame r w r' w' \<and> log_is step s0 (if is_ok q then vs else vs @ [rm_version m]) (w_store w')"
proof -
  have "frame r w r' w' \<and> (if is_ok q then log_is step s0 vs (w_store w') else w_store w' = w_store w)"
  proof (rule run_logged_result [OF run [unfolded runBackward_def] backward_neutral [OF ok(1)]])
    fix r0 w0 p r1 w1
    assume "set (w_faults w0) \<subseteq> set (w_faults w)" and st: "w_store w0 = w_store w"
      and b: "backward_body env m (r0, w0) = (p, (r1, w1))"
    then have "honest w0" using ok(3) honest_mono by blast
    from backward_body_result [OF b ok(1,2) this, of vs] ok(4) st
    show "r1 = r0 \<and> set (w_faults w1) \<subseteq> set (w_faults w0) \<and> (is_ok p \<longrightarrow> log_is step s0 vs (w_store w1))" by simp
  qed
  with ok(4) show ?thesis by (auto split: if_splits)
qed

section \<open>The loops\<close>

definition after_all :: "registered_migration list \<Rightarrow> string list \<Rightarrow> string list" where
  "after_all ms vs = fold (\<lambda>m. after_forward (rm_version m)) ms vs"

lemma up_loop:
  assumes "log_norm_ok env" "list_all (forward_ok step) ms"
  shows "forP (runForward env) ms (r, w) = (q, (r', w')) \<Longrightarrow> honest w \<Longrightarrow> log_is step s0 vs (w_store w) \<Longrightarrow>
    frame r w r' w' \<and> (\<exists>k \<le> length ms. log_is step s0 (after_all (take k ms) vs) (w_store w') \<and> (is_ok q \<longrightarrow> k = length ms))"
  using assms(2)
proof (induction ms arbitrary: r w vs)
  case Nil
  then show ?case by (simp add: after_all_def)
next
  case (Cons m ms)
  obtain p r1 w1 where m: "runForward env m (r, w) = (p, (r1, w1))" by (metis prod_cases3)
  note M = runForward_result [OF m _ assms(1) Cons.prems(2,3)]
  have M': "frame r w r1 w1" "log_is step s0 (if is_ok p then after_forward (rm_version m) vs else vs) (w_store w1)"
    using M Cons.prems(4) by simp_all
  show ?case
  proof (cases "is_ok p")
    case True
    then obtain u where p: "p = Ok u" by (cases p) auto
    with Cons.prems(1) m have rest: "forP (runForward env) ms (r1, w1) = (q, (r', w'))" by (simp add: bindP_def)
    from Cons.IH [OF rest frame_honest [OF M'(1) Cons.prems(2)], of "after_forward (rm_version m) vs"] M' True Cons.prems(4)
    obtain k where "frame r1 w1 r' w'" "k \<le> length ms" "is_ok q \<longrightarrow> k = length ms"
      "log_is step s0 (after_all (take k ms) (after_forward (rm_version m) vs)) (w_store w')" by auto
    with M'(1) show ?thesis
      by (auto simp: after_all_def intro: frame_trans intro!: exI [of _ "Suc k"])
  next
    case False
    with Cons.prems(1) m have "\<not> is_ok q" "r' = r1" "w' = w1" by (cases p; auto simp: bindP_def)+
    with M' False show ?thesis by (auto simp: after_all_def intro!: exI [of _ 0])
  qed
qed

lemma down_loop:
  assumes "log_norm_ok env" "list_all (backward_ok step s0) (mr_migrations r)"
  shows "forP (down_version env) (rev vs) (r, w) = (q, (r', w')) \<Longrightarrow> honest w \<Longrightarrow> log_is step s0 vs (w_store w) \<Longrightarrow>
    frame r w r' w' \<and> (\<exists>k \<le> length vs. log_is step s0 (take k vs) (w_store w') \<and> (is_ok q \<longrightarrow> k = 0))"
  using assms(2)
proof (induction vs arbitrary: r w rule: rev_induct)
  case (snoc v vs)
  obtain p r1 w1 where m: "down_version env v (r, w) = (p, (r1, w1))" by (metis prod_cases3)
  have M: "frame r w r1 w1 \<and> log_is step s0 (if is_ok p then vs else vs @ [v]) (w_store w1)"
  proof (cases "findMigration r v")
    case None
    with m snoc.prems(3) show ?thesis by (auto simp: down_version_def)
  next
    case (Some x)
    then have x: "x \<in> set (mr_migrations r)" "rm_version x = v"
      by (auto simp: findMigration_def find_Some_iff)
    show ?thesis
    proof (cases "mg_Backward (rm_migration x) = None")
      case True
      with m Some snoc.prems(3) show ?thesis by (auto simp: down_version_def)
    next
      case False
      with m Some have "runBackward env x (r, w) = (p, (r1, w1))" by (simp add: down_version_def)
      from runBackward_result [OF this _ assms(1) snoc.prems(2), of step s0 vs] snoc.prems(3,4) x show ?thesis
        by (auto simp: list_all_iff split: if_splits)
    qed
  qed
  show ?case
  proof (cases "is_ok p")
    case True
    then obtain u where p: "p = Ok u" by (cases p) auto
    with snoc.prems(1) m have rest: "forP (down_version env) (rev vs) (r1, w1) = (q, (r', w'))" by (simp add: bindP_def)
    have "list_all (backward_ok step s0) (mr_migrations r1)" using M snoc.prems(4) by (simp add: frame_def)
    from snoc.IH [OF rest frame_honest [OF _ snoc.prems(2)] _ this] M True
    obtain k where "frame r1 w1 r' w'" "k \<le> length vs" "log_is step s0 (take k vs) (w_store w')" "is_ok q \<longrightarrow> k = 0"
      by auto
    with M show ?thesis by (auto intro: frame_trans intro!: exI [of _ k])
  next
    case False
    with snoc.prems(1) m have "\<not> is_ok q" "r' = r1" "w' = w1" by (cases p; auto simp: bindP_def)+
    with M False show ?thesis by (auto intro!: exI [of _ "Suc (length vs)"])
  qed
qed simp

section \<open>The operations\<close>

lemma user_part_new_table [simp]:
  "user_part (st\<lparr>st_tables := (st_tables st)(migrationsCollection \<mapsto> [])\<rparr>) = user_part st"
  by (simp add: user_part_def)

lemma ensure_result:
  assumes "ensureMigrationTable (r, w) = (q, (r', w'))" "log_is step s0 vs (w_store w)"
  shows "frame r w r' w' \<and> log_is step s0 vs (w_store w')"
proof (cases "mr_ensured r")
  case None
  obtain p w1 where e: "be_EnsureCollection migrationsCollection log_meta w = (p, w1)" by fastforce
  have "w_saved w1 = w_saved w \<and> set (w_faults w1) \<subseteq> set (w_faults w) \<and> log_is step s0 vs (w_store w1)"
    using e assms(2) fault_store
    by (fastforce simp: be_EnsureCollection_def bindP_def has_table_def log_is_def stored_log_def st_get_def
        dest: fault_shrinks split: prod.splits outcome.splits if_splits)
  with assms(1) None e show ?thesis
    by (cases p) (auto simp: ensureMigrationTable_def frame_def emit_def bindP_def)
next
  case (Some e)
  with assms show ?thesis by (cases e) (auto simp: ensureMigrationTable_def)
qed

lemma applied_result:
  assumes "loadApplied (r, w) = (q, (r', w'))" "log_is step s0 vs (w_store w)" "honest w"
  shows "frame r w r' w' \<and> log_is step s0 vs (w_store w') \<and> (\<forall>vs'. q = Ok vs' \<longrightarrow> vs' = vs)"
proof -
  obtain p r1 w1 where e: "ensureMigrationTable (r, w) = (p, (r1, w1))" by (metis prod_cases3)
  note E = ensure_result [OF e assms(2)]
  obtain l w2 where l: "loadEntriesFromTx w1 = (l, w2)" by fastforce
  note L = load_result [OF l frame_honest [OF conjunct1 [OF E] assms(3)]]
  from E L have "frame r w r1 w2 \<and> log_is step s0 vs (w_store w2)" by (auto simp: frame_def)
  with assms(1) e E l L show ?thesis
    by (cases p; cases l) (auto simp: loadApplied_def bindP_def on_snd_def log_is_def)
qed

lemma Up_result:
  assumes run: "Up env (r, w) = (q, (r', w'))" and ok: "migrations_ok step s0 (mr_migrations r)" "log_norm_ok env"
    "honest w" "log_is step s0 vs (w_store w)"
  shows "frame r w r' w' \<and> (\<exists>k \<le> length (mr_migrations r).
    log_is step s0 (after_all (take k (mr_migrations r)) vs) (w_store w') \<and> (is_ok q \<longrightarrow> k = length (mr_migrations r)))"
proof -
  obtain p r1 w1 where e: "ensureMigrationTable (r, w) = (p, (r1, w1))" by (metis prod_cases3)
  note E = ensure_result [OF e ok(4)]
  have fw: "list_all (forward_ok step) (mr_migrations r)" using ok(1) by (auto simp: migrations_ok_def list_all_iff)
  show ?thesis
  proof (cases "is_ok p")
    case True
    with run e E have "forP (runForward env) (mr_migrations r) (r1, w1) = (q, (r', w'))"
      by (cases p) (auto simp: Up_def bindP_def frame_def)
    from up_loop [OF ok(2) fw this frame_honest [OF conjunct1 [OF E] ok(3)] conjunct2 [OF E]] E
    show ?thesis by (auto intro: frame_trans)
  next
    case False
    with run e have "r' = r1 \<and> w' = w1 \<and> \<not> is_ok q" by (cases p) (auto simp: Up_def bindP_def)
    with E show ?thesis by (auto simp: after_all_def intro!: exI [of _ 0])
  qed
qed

lemma UpOne_result:
  assumes run: "UpOne env (r, w) = (q, (r', w'))" and ok: "migrations_ok step s0 (mr_migrations r)" "log_norm_ok env"
    "honest w" "log_is step s0 vs (w_store w)"
  shows "frame r w r' w' \<and> (\<exists>vs'. log_is step s0 vs' (w_store w'))"
proof -
  obtain p r1 w1 where e: "ensureMigrationTable (r, w) = (p, (r1, w1))" by (metis prod_cases3)
  note E = ensure_result [OF e ok(4)]
  obtain l r2 w2 where l: "loadApplied (r1, w1) = (l, (r2, w2))" by (metis prod_cases3)
  note L = applied_result [OF l conjunct2 [OF E] frame_honest [OF conjunct1 [OF E] ok(3)]]
  have F: "frame r w r2 w2" "honest w2" using E L ok(3) frame_trans frame_honest by blast+
  show ?thesis
  proof (cases "is_ok p \<and> is_ok l")
    case True
    then obtain u vs' where "p = Ok u" "l = Ok vs'" by (cases p; cases l) auto
    with run e l have rest: "(case find (\<lambda>m. rm_version m \<notin> set vs') (mr_migrations r2) of
        None \<Rightarrow> (Ok (), (r2, w2)) | Some m \<Rightarrow> runForward env m (r2, w2)) = (q, (r', w'))"
      by (simp add: UpOne_def bindP_def)
    show ?thesis
    proof (cases "find (\<lambda>m. rm_version m \<notin> set vs') (mr_migrations r2)")
      case None
      with rest F L show ?thesis by auto
    next
      case (Some m)
      then have "m \<in> set (mr_migrations r)" using F(1) by (auto simp: find_Some_iff frame_def)
      then have "forward_ok step m" using ok(1) by (simp add: migrations_ok_def list_all_iff)
      from runForward_result [OF _ this ok(2) F(2), of r2 q r' w' s0 vs] rest Some L F(1) show ?thesis
        by (auto intro: frame_trans)
    qed
  next
    case False
    with run e l E L F show ?thesis
      by (cases p; cases l) (auto simp: UpOne_def bindP_def)
  qed
qed

lemma Down_result:
  assumes run: "Down env (r, w) = (q, (r', w'))" and ok: "migrations_ok step s0 (mr_migrations r)" "log_norm_ok env"
    "honest w" "log_is step s0 vs (w_store w)"
  shows "frame r w r' w' \<and> (\<exists>k \<le> length vs. log_is step s0 (take k vs) (w_store w') \<and> (is_ok q \<longrightarrow> k = 0))"
proof -
  obtain l r2 w2 where l: "loadApplied (r, w) = (l, (r2, w2))" by (metis prod_cases3)
  note L = applied_result [OF l ok(4,3)]
  have bw: "list_all (backward_ok step s0) (mr_migrations r2)"
    using ok(1) L by (auto simp: migrations_ok_def list_all_iff frame_def)
  show ?thesis
  proof (cases l)
    case (Ok vs')
    with run l L have "forP (down_version env) (rev vs) (r2, w2) = (q, (r', w'))" by (simp add: Down_def bindP_def)
    from down_loop [OF ok(2) bw this frame_honest [OF _ ok(3)]] L show ?thesis by (auto intro: frame_trans)
  qed (use run l L in \<open>auto simp: Down_def bindP_def intro!: exI [of _ "length vs"]\<close>)
qed

lemma DownOne_result:
  assumes run: "DownOne env (r, w) = (q, (r', w'))" and ok: "migrations_ok step s0 (mr_migrations r)" "log_norm_ok env"
    "honest w" "log_is step s0 vs (w_store w)"
  shows "frame r w r' w' \<and> (\<exists>vs'. log_is step s0 vs' (w_store w'))"
proof -
  obtain l r2 w2 where l: "loadApplied (r, w) = (l, (r2, w2))" by (metis prod_cases3)
  note L = applied_result [OF l ok(4,3)]
  have bw: "list_all (backward_ok step s0) (mr_migrations r2)"
    using ok(1) L by (auto simp: migrations_ok_def list_all_iff frame_def)
  show ?thesis
  proof (cases "l = Ok vs \<and> vs \<noteq> []")
    case True
    then have d: "down_version env (last vs) (r2, w2) = (q, (r', w'))" using run l by (simp add: DownOne_def bindP_def)
    have "frame r2 w2 r' w' \<and> (\<exists>vs'. log_is step s0 vs' (w_store w'))"
    proof (cases "findMigration r2 (last vs)")
      case (Some x)
      then have x: "x \<in> set (mr_migrations r2)" "rm_version x = last vs"
        by (auto simp: findMigration_def find_Some_iff)
      show ?thesis
      proof (cases "mg_Backward (rm_migration x) = None")
        case False
        with d Some have "runBackward env x (r2, w2) = (q, (r', w'))" by (simp add: down_version_def)
        note B = runBackward_result [OF this _ ok(2) frame_honest [OF conjunct1 [OF L] ok(3)], of step s0 "butlast vs"]
        have "frame r2 w2 r' w' \<and> log_is step s0 (if is_ok q then butlast vs else butlast vs @ [rm_version x]) (w_store w')"
        proof (rule B)
          show "backward_ok step s0 x" using bw x(1) by (simp add: list_all_iff)
          show "log_is step s0 (butlast vs @ [rm_version x]) (w_store w2)"
            using conjunct1 [OF conjunct2 [OF L]] conjunct2 [OF True] by (simp add: x(2))
        qed
        then show ?thesis by blast
      qed (use d Some L in \<open>auto simp: down_version_def\<close>)
    qed (use d L in \<open>auto simp: down_version_def\<close>)
    with L show ?thesis by (auto intro: frame_trans)
  next
    case False
    with run l L show ?thesis by (cases l) (auto simp: DownOne_def bindP_def)
  qed
qed

section \<open>Runs that return\<close>

definition quiet_world :: "world \<Rightarrow> bool" where
  "quiet_world w \<longleftrightarrow> w_faults w = [] \<and> w_saved w = None"

definition log_table :: "store \<Rightarrow> bool" where
  "log_table st \<longleftrightarrow> (\<exists>rs. st_tables st migrationsCollection = Some rs \<and> set (map fst rs) \<subseteq> {log_id})"

text \<open>A forward function that returns nil whenever the database does not report a fault.\<close>

definition forward_returns :: "registered_migration \<Rightarrow> bool" where
  "forward_returns m \<longleftrightarrow> (\<exists>f. mg_Forward (rm_migration m) = Some f \<and> (\<forall>w. w_faults w = [] \<longrightarrow> fst (f w) = Ok ()))"

lemma RunInTransaction_quiet:
  assumes "quiet_world w" "fn (d, w\<lparr>w_saved := Some (w_store w)\<rparr>) = (Ok x, (d', w1))"
    and "w_faults w1 = []" "w_saved w1 \<noteq> None"
  shows "RunInTransaction fn (d, w) = (Ok x, (d', w1\<lparr>w_saved := None\<rparr>))"
  using assms
  by (auto simp: RunInTransaction_def finish_tx_def be_Begin_def be_Commit_def close_tx_def bindP_def map_err_def
      on_snd_def fault_def quiet_world_def)

lemma save_returns:
  assumes "w_faults w = []" "log_table (w_store w)"
  shows "\<exists>w'. saveEntriesToTx env es w = (Ok (), w') \<and> log_table (w_store w') \<and> w_faults w' = [] \<and> w_saved w' = w_saved w"
proof -
  obtain rs where rs: "st_tables (w_store w) migrationsCollection = Some rs" "set (map fst rs) \<subseteq> {log_id}"
    using assms(2) by (auto simp: log_table_def)
  then have only: "i' = log_id" if "(i', j') \<in> set rs" for i' j' using that by force
  have "\<not> unique_violation (w_store w) migrationsCollection log_id j" for j
    using only by (auto simp: unique_violation_def rs(1) list_ex_iff)
  then have "saveEntriesToTx env es w = (Ok (), w\<lparr>w_store := st_put migrationsCollection log_id (e_norm env (enc_log es)) (w_store w)\<rparr>)"
    using assms(1) rs(1) by (simp add: saveEntriesToTx_def be_Put_def bindP_def fault_def has_table_def)
  moreover have "log_table (st_put migrationsCollection log_id j (w_store w))" for j
    using rs by (auto simp: log_table_def st_put_def dom_update)
  ultimately show ?thesis using assms(1) by simp
qed

lemma load_returns:
  assumes "w_faults w = []" "log_table (w_store w)" "stored_log (w_store w) = Some es"
  shows "loadEntriesFromTx w = (Ok es, w)"
proof -
  obtain rs where rs: "st_tables (w_store w) migrationsCollection = Some rs"
    using assms(2) by (auto simp: log_table_def)
  show ?thesis
    using assms(1,3) rs
    by (auto simp: loadEntriesFromTx_def be_Get_def bindP_def fault_def stored_log_def st_get_def
        split: option.splits sum.splits)
qed

lemma forward_body_returns:
  assumes ok: "forward_ok step m" "forward_returns m" "log_is step s0 vs (w_store w)"
    and w: "w_faults w = []" "log_table (w_store w)"
  shows "\<exists>r' w'. forward_body env m (r, w) = (Ok (), (r', w')) \<and> log_table (w_store w') \<and> w_faults w' = [] \<and> w_saved w' = w_saved w"
proof -
  obtain es where es: "stored_log (w_store w) = Some es" using ok(3) by (auto simp: log_is_def)
  note load = load_returns [OF w es]
  show ?thesis
  proof (cases "list_ex (\<lambda>e. en_Version e = rm_version m) es")
    case True
    with load w show ?thesis
      by (simp add: forward_body_def AdvisoryLock_def be_AdvisoryLock_def bindP_def)
  next
    case False
    obtain f where f: "mg_Forward (rm_migration m) = Some f" "fst (f w) = Ok ()"
      using ok(2) w(1) by (auto simp: forward_returns_def)
    obtain w1 where run: "f w = (Ok (), w1)" using f(2) by (cases "f w") auto
    have "fn_ok f (\<lambda>a b. b = step (rm_version m) a)" using ok(1) f(1) by (simp add: forward_ok_def)
    then have w1: "w_saved w1 = w_saved w" "w_faults w1 = []"
      "st_tables (w_store w1) migrationsCollection = st_tables (w_store w) migrationsCollection"
      using run w(1) by (force simp: fn_ok_def)+
    let ?w = "w1\<lparr>w_ticks := Suc (w_ticks w1)\<rparr>"
    have "w_faults ?w = []" "log_table (w_store ?w)" using w1 w(2) by (simp_all add: log_table_def)
    from save_returns [OF this, of env "es @ [\<lparr>en_Version = rm_version m, en_AppliedAt = fst (e_now env (w_ticks w1))\<rparr>]"]
    obtain w2 where "saveEntriesToTx env (es @ [\<lparr>en_Version = rm_version m, en_AppliedAt = fst (e_now env (w_ticks w1))\<rparr>]) ?w
        = (Ok (), w2)" "log_table (w_store w2)" "w_faults w2 = []" "w_saved w2 = w_saved w"
      using w1 by auto
    with load False f(1) run show ?thesis
      by (simp add: forward_body_def AdvisoryLock_def be_AdvisoryLock_def bindP_def call_migration_def map_err_def
          time_now_def on_snd_def)
  qed
qed

lemma runForward_returns:
  assumes ok: "forward_ok step m" "forward_returns m" "log_is step s0 vs (w_store w)"
    and w: "quiet_world w" "log_table (w_store w)"
  shows "\<exists>r' w'. runForward env m (r, w) = (Ok (), (r', w')) \<and> log_table (w_store w') \<and> quiet_world w'"
proof -
  let ?w = "w\<lparr>w_ticks := Suc (w_ticks w)\<rparr>"
  let ?r = "r\<lparr>mr_log := mr_log r @ [\<lparr>ev_name = ''migration_start'', ev_version = rm_version m, ev_direction = ''up'',
                  ev_duration_ms = None, ev_error = None\<rparr>]\<rparr>"
  have q: "quiet_world ?w" using w(1) by (simp add: quiet_world_def)
  have f: "log_is step s0 vs (w_store (?w\<lparr>w_saved := Some (w_store ?w)\<rparr>))"
    "w_faults (?w\<lparr>w_saved := Some (w_store ?w)\<rparr>) = []" "log_table (w_store (?w\<lparr>w_saved := Some (w_store ?w)\<rparr>))"
    using ok(3) w by (simp_all add: quiet_world_def)
  from forward_body_returns [OF ok(1,2) f, of env ?r] obtain r1 w1 where
    b: "forward_body env m (?r, ?w\<lparr>w_saved := Some (w_store ?w)\<rparr>) = (Ok (), (r1, w1))"
      "log_table (w_store w1)" "w_faults w1 = []" "w_saved w1 = Some (w_store w)" by auto
  have "RunInTransaction (forward_body env m) (?r, ?w) = (Ok (), (r1, w1\<lparr>w_saved := None\<rparr>))"
    by (rule RunInTransaction_quiet [OF q]) (use b in simp_all)
  then show ?thesis
    using b(2,3)
    by (auto simp: runForward_def run_logged_def bindP_def clock_ms_def on_snd_def emit_def emitResult_def quiet_world_def)
qed

lemma up_loop_returns:
  assumes "log_norm_ok env" "list_all (\<lambda>m. forward_ok step m \<and> forward_returns m) ms"
  shows "quiet_world w \<Longrightarrow> log_table (w_store w) \<Longrightarrow> log_is step s0 vs (w_store w) \<Longrightarrow>
    is_ok (fst (forP (runForward env) ms (r, w)))"
  using assms(2)
proof (induction ms arbitrary: r w vs)
  case (Cons m ms)
  then have m: "forward_ok step m" "forward_returns m" by simp_all
  from runForward_returns [OF m Cons.prems(3,1,2), of env r] obtain r1 w1 where
    run: "runForward env m (r, w) = (Ok (), (r1, w1))" "log_table (w_store w1)" "quiet_world w1" by blast
  have "honest w" using Cons.prems(1) by (simp add: honest_def quiet_world_def)
  from runForward_result [OF run(1) m(1) assms(1) this Cons.prems(3)]
  have "log_is step s0 (after_forward (rm_version m) vs) (w_store w1)" by simp
  from Cons.IH [OF run(3,2) this] Cons.prems(4) run(1) show ?case by (simp add: bindP_def)
qed simp

lemma Up_returns:
  assumes ok: "log_norm_ok env" "list_all (\<lambda>m. forward_ok step m \<and> forward_returns m) (mr_migrations r)"
    and w: "quiet_world w" "log_is step s0 vs (w_store w)"
    and first: "mr_ensured r = None" "has_table (w_store w) migrationsCollection \<Longrightarrow> log_table (w_store w)"
  shows "is_ok (fst (Up env (r, w)))"
proof -
  obtain r1 w1 where e: "ensureMigrationTable (r, w) = (Ok (), (r1, w1))" "mr_migrations r1 = mr_migrations r"
    "quiet_world w1" "log_table (w_store w1)"
    using w(1) first
    by (cases "has_table (w_store w) migrationsCollection")
       (auto simp: ensureMigrationTable_def be_EnsureCollection_def bindP_def fault_def quiet_world_def log_table_def)
  have "log_is step s0 vs (w_store w1)" using ensure_result [OF e(1) w(2)] by simp
  from up_loop_returns [OF ok(1) _ e(3,4) this, of "mr_migrations r1" r1] e ok(2) show ?thesis
    by (simp add: Up_def bindP_def)
qed

end
