(* ===== verification/Migrate_Properties.thy ===== *)
theory Migrate_Properties
  imports Migrate_Lemmas Sample
begin

text \<open>
  What the migration runner promises: the log lists exactly the migrations that make up the schema in
  every state any number of runners can reach, \<open>Up\<close> applies the pending migrations in order and returns
  when nothing fails, and \<open>Down\<close> undoes what \<open>Up\<close> did.
\<close>

section \<open>The schema over time\<close>

text \<open>What any number of processes may do to one database: a step of a running \<open>Up\<close> or \<open>UpOne\<close> (their
  transactions interleave freely), and whole runs of the four operations. Every process has a registry
  of its own with the same migrations.\<close>

inductive mig_step :: "env \<Rightarrow> registered_migration list \<Rightarrow> world \<Rightarrow> world \<Rightarrow> bool" for env ms where
  forward: "m \<in> set ms \<Longrightarrow> runForward env m (r, w) = (q, (r', w')) \<Longrightarrow> mig_step env ms w w'"
| up: "mr_migrations r = ms \<Longrightarrow> Up env (r, w) = (q, (r', w')) \<Longrightarrow> mig_step env ms w w'"
| up_one: "mr_migrations r = ms \<Longrightarrow> UpOne env (r, w) = (q, (r', w')) \<Longrightarrow> mig_step env ms w w'"
| down: "mr_migrations r = ms \<Longrightarrow> Down env (r, w) = (q, (r', w')) \<Longrightarrow> mig_step env ms w w'"
| down_one: "mr_migrations r = ms \<Longrightarrow> DownOne env (r, w) = (q, (r', w')) \<Longrightarrow> mig_step env ms w w'"

definition schema_inv :: "(string \<Rightarrow> store \<Rightarrow> store) \<Rightarrow> store \<Rightarrow> world \<Rightarrow> bool" where
  "schema_inv step s0 w \<longleftrightarrow> honest w \<and> (\<exists>vs. log_is step s0 vs (w_store w))"

lemma mig_step_inv:
  assumes "mig_step env ms w w'" "schema_inv step s0 w" and ok: "migrations_ok step s0 ms" "log_norm_ok env"
  shows "schema_inv step s0 w'"
proof -
  obtain vs where w: "honest w" "log_is step s0 vs (w_store w)" using assms(2) by (auto simp: schema_inv_def)
  have inv: "schema_inv step s0 w'" if "frame r w r' w'" "\<exists>vs. log_is step s0 vs (w_store w')" for r r' :: migrator
    using that frame_honest w(1) by (auto simp: schema_inv_def)
  from assms(1) show ?thesis
  proof cases
    case (forward m r q r')
    with ok(1) have "forward_ok step m" by (simp add: migrations_ok_def list_all_iff)
    from runForward_result [OF forward(2) this ok(2) w] show ?thesis by (blast intro: inv)
  next
    case (up r q r')
    from Up_result [OF up(2) _ ok(2) w] up(1) ok(1) show ?thesis by (blast intro: inv)
  next
    case (up_one r q r')
    from UpOne_result [OF up_one(2) _ ok(2) w] up_one(1) ok(1) show ?thesis by (blast intro: inv)
  next
    case (down r q r')
    from Down_result [OF down(2) _ ok(2) w] down(1) ok(1) show ?thesis by (blast intro: inv)
  next
    case (down_one r q r')
    from DownOne_result [OF down_one(2) _ ok(2) w] down_one(1) ok(1) show ?thesis by (blast intro: inv)
  qed
qed


text \<open>C22. \<open>Up\<close> applies the pending migrations in the order of the registry, each in its own transaction:
  whatever happens, a prefix of the registered migrations has been applied on top of the log (none
  twice), the whole list when \<open>Up\<close> returns nil; it does return nil when the database reports no fault
  and no forward function fails; and \<open>Register\<close> keeps the registry in version order.\<close>

theorem up_applies_pending_migrations:
  assumes "migrations_ok step s0 (mr_migrations r)" "log_norm_ok env" "honest w" "log_is step s0 vs (w_store w)"
    and run: "Up env (r, w) = (q, (r', w'))"
  shows "(\<exists>k \<le> length (mr_migrations r). log_is step s0 (after_all (take k (mr_migrations r)) vs) (w_store w')
        \<and> (is_ok q \<longrightarrow> k = length (mr_migrations r)))
    \<and> (quiet_world w \<and> mr_ensured r = None \<and> list_all forward_returns (mr_migrations r)
        \<and> (has_table (w_store w) migrationsCollection \<longrightarrow> log_table (w_store w)) \<longrightarrow> is_ok q)
    \<and> sorted (map rm_version (mr_migrations (Register_migration v m r)))"
proof -
  have "is_ok (fst (Up env (r, w)))" if "quiet_world w" "mr_ensured r = None"
    "list_all forward_returns (mr_migrations r)" "has_table (w_store w) migrationsCollection \<longrightarrow> log_table (w_store w)"
    by (rule Up_returns [OF assms(2) _ that(1) assms(4)])
       (use that assms(1) in \<open>auto simp: migrations_ok_def list_all_iff\<close>)
  with Up_result [OF run assms(1-4)] run show ?thesis by (auto simp: Register_migration_def)
qed

text \<open>C23. Migrations round trip: when \<open>Up\<close> on a database without migrations returns nil, and later
  \<open>Down\<close> of any process returns nil, the log is empty again and the rest of the database is what it
  was before.\<close>

theorem up_then_down_restores:
  assumes "migrations_ok step (user_part (w_store w)) (mr_migrations r)" "log_norm_ok env" "honest w"
    and "stored_log (w_store w) = Some []"
    and "Up env (r, w) = (Ok (), (r1, w1))"
    and "mr_migrations r2 = mr_migrations r" "Down env (r2, w1) = (Ok (), (r3, w3))"
  shows "stored_log (w_store w3) = Some [] \<and> user_part (w_store w3) = user_part (w_store w)"
proof -
  have l: "log_is step (user_part (w_store w)) [] (w_store w)" using assms(4) by (simp add: log_is_def times_ok_def)
  from Up_result [OF assms(5,1-3) l] obtain vs where
    "frame r w r1 w1" "log_is step (user_part (w_store w)) vs (w_store w1)" by auto
  with Down_result [OF assms(7) _ assms(2), of step "user_part (w_store w)" vs] assms(1,3,6) frame_honest
  have "log_is step (user_part (w_store w)) [] (w_store w3)" by fastforce
  then show ?thesis by (auto simp: log_is_def)
qed

section \<open>Instances\<close>

text \<open>Migrations that create and drop one table each; the last one can be made to fail.\<close>

definition table_step :: "string \<Rightarrow> store \<Rightarrow> store" where
  "table_step v st = st\<lparr>st_tables := (st_tables st)(v \<mapsto> [])\<rparr>"

definition create_table :: "string \<Rightarrow> (world, unit) prog" where
  "create_table v = bindP fault (\<lambda>_. modifyP (\<lambda>w. w\<lparr>w_store := table_step v (w_store w)\<rparr>))"

definition drop_table :: "string \<Rightarrow> (world, unit) prog" where
  "drop_table v = bindP fault (\<lambda>_. modifyP (\<lambda>w. w\<lparr>w_store := (w_store w)\<lparr>st_tables := (st_tables (w_store w))(v := None)\<rparr>\<rparr>))"

definition table_migration :: "string \<Rightarrow> migration" where
  "table_migration v = \<lparr>mg_Forward = Some (create_table v), mg_Backward = Some (drop_table v)\<rparr>"

definition broken_migration :: migration where
  "broken_migration = \<lparr>mg_Forward = Some (bindP (create_table ''broken'') (\<lambda>_. throwP (Msg ''no such column''))), mg_Backward = None\<rparr>"

definition two_tables :: migrator where
  "two_tables = Register_migration ''001'' (table_migration ''001'')
     (Register_migration ''002'' (table_migration ''002'') NewRegistry)"

definition half_broken :: migrator where
  "half_broken = Register_migration ''003'' broken_migration two_tables"

lemma registries:
  "mr_migrations two_tables = [\<lparr>rm_version = ''001'', rm_migration = table_migration ''001''\<rparr>,
     \<lparr>rm_version = ''002'', rm_migration = table_migration ''002''\<rparr>]"
  "mr_migrations half_broken = mr_migrations two_tables @ [\<lparr>rm_version = ''003'', rm_migration = broken_migration\<rparr>]"
  "mr_ensured two_tables = None"
  by (simp_all add: two_tables_def half_broken_def Register_migration_def NewRegistry_def)

lemma fold_tables: "v \<notin> set vs \<Longrightarrow> st_tables (fold table_step vs s) v = st_tables s v"
  by (induction vs arbitrary: s) (auto simp: table_step_def)

lemma table_migration_ok:
  assumes "v \<noteq> migrationsCollection"
  shows "forward_ok table_step \<lparr>rm_version = v, rm_migration = table_migration v\<rparr>"
    "backward_ok table_step empty_store \<lparr>rm_version = v, rm_migration = table_migration v\<rparr>"
proof -
  have "fn_ok (create_table v) (\<lambda>a b. b = table_step v a)"
    using assms fault_store
    by (fastforce simp: fn_ok_def create_table_def bindP_def table_step_def user_part_def fun_upd_twist
        dest: fault_shrinks split: prod.splits outcome.splits)
  then show "forward_ok table_step \<lparr>rm_version = v, rm_migration = table_migration v\<rparr>"
    by (simp add: forward_ok_def table_migration_def)
  have drop: "w_saved w' = w_saved w \<and> set (w_faults w') \<subseteq> set (w_faults w)
      \<and> (is_ok r \<longrightarrow> w_store w' = (w_store w)\<lparr>st_tables := (st_tables (w_store w))(v := None)\<rparr>)"
    if "drop_table v w = (r, w')" for w r w'
    using that fault_store
    by (fastforce simp: drop_table_def bindP_def dest: fault_shrinks split: prod.splits outcome.splits)
  have undo: "st\<lparr>st_tables := (st_tables st)(v := None)\<rparr> = fold table_step vs empty_store"
    if "v \<notin> set vs" "st = table_step v (fold table_step vs empty_store)" for vs st
    using fold_tables [OF that(1), of empty_store] that(2) by (simp add: table_step_def empty_store_def fun_upd_idem)
  have "fn_ok (drop_table v) (\<lambda>a b. \<forall>vs. v \<notin> set vs \<and> a = table_step v (fold table_step vs empty_store) \<longrightarrow> b = fold table_step vs empty_store)"
    unfolding fn_ok_def
  proof (intro allI impI conjI)
    fix w r w' vs
    assume d: "drop_table v w = (r, w')"
    show "w_saved w' = w_saved w" "set (w_faults w') \<subseteq> set (w_faults w)" using drop [OF d] by simp_all
    assume r: "is_ok r"
    show "st_tables (w_store w') migrationsCollection = st_tables (w_store w) migrationsCollection"
      using drop [OF d] r assms by simp
    assume a: "v \<notin> set vs \<and> user_part (w_store w) = table_step v (fold table_step vs empty_store)"
    have "user_part (w_store w') = (user_part (w_store w))\<lparr>st_tables := (st_tables (user_part (w_store w)))(v := None)\<rparr>"
      using drop [OF d] r assms by (simp add: user_part_def fun_upd_twist)
    then show "user_part (w_store w') = fold table_step vs empty_store" using undo [OF conjunct1 [OF a] conjunct2 [OF a]] by simp
  qed
  then show "backward_ok table_step empty_store \<lparr>rm_version = v, rm_migration = table_migration v\<rparr>"
    by (simp add: backward_ok_def table_migration_def)
qed

lemma broken_migration_ok:
  "forward_ok table_step \<lparr>rm_version = v, rm_migration = broken_migration\<rparr>"
  "backward_ok table_step s0 \<lparr>rm_version = v, rm_migration = broken_migration\<rparr>"
proof -
  have "fn_ok (bindP (create_table ''broken'') (\<lambda>_. throwP (Msg ''no such column''))) (\<lambda>a b. b = table_step v a)"
    using fault_store
    by (fastforce simp: fn_ok_def create_table_def bindP_def dest: fault_shrinks split: prod.splits outcome.splits)
  then show "forward_ok table_step \<lparr>rm_version = v, rm_migration = broken_migration\<rparr>"
    "backward_ok table_step s0 \<lparr>rm_version = v, rm_migration = broken_migration\<rparr>"
    by (simp_all add: forward_ok_def backward_ok_def broken_migration_def)
qed

lemma registries_ok:
  "migrations_ok table_step empty_store (mr_migrations two_tables)"
  "migrations_ok table_step empty_store (mr_migrations half_broken)"
  by (simp_all add: registries migrations_ok_def table_migration_ok broken_migration_ok migrationsCollection_def)

lemma mig_env_ok: "log_norm_ok (note_env False False)"
  by (simp add: log_norm_ok_def note_env_def time_text_def is_digit_def)

definition fresh_world :: world where
  "fresh_world = initial_world empty_store []"

lemma fresh: "honest fresh_world" "quiet_world fresh_world" "stored_log (w_store fresh_world) = Some []"
  "user_part (w_store fresh_world) = empty_store" "log_is table_step empty_store [] (w_store fresh_world)"
  "\<not> has_table (w_store fresh_world) migrationsCollection"
  by (simp_all add: fresh_world_def initial_world_def honest_def quiet_world_def stored_log_def st_get_def
      user_part_def log_is_def times_ok_def empty_store_def has_table_def)


theorem up_applies_witness:
  "is_ok (fst (Up (note_env False False) (two_tables, fresh_world)))
   \<and> log_is table_step empty_store [''001'', ''002''] (w_store (snd (snd (Up (note_env False False) (two_tables, fresh_world)))))"
proof -
  obtain q r' w' where run: "Up (note_env False False) (two_tables, fresh_world) = (q, (r', w'))" by (metis prod_cases3)
  have ret: "list_all forward_returns (mr_migrations two_tables)"
    by (simp add: registries forward_returns_def table_migration_def create_table_def bindP_def fault_def)
  have all: "after_all (mr_migrations two_tables) [] = [''001'', ''002'']"
    by (simp add: registries after_all_def after_forward_def)
  note U = up_applies_pending_migrations [OF registries_ok(1) mig_env_ok fresh(1,5) run, of "[]" broken_migration]
  have ok: "is_ok q" using U ret fresh(2,6) registries(3) by blast
  from U obtain k where "log_is table_step empty_store (after_all (take k (mr_migrations two_tables)) []) (w_store w')"
    "is_ok q \<longrightarrow> k = length (mr_migrations two_tables)" by blast
  with ok all run show ?thesis by simp
qed

theorem up_then_down_witness:
  "stored_log (w_store (snd (snd (Down (note_env False False)
       (two_tables, snd (snd (Up (note_env False False) (two_tables, fresh_world)))))))) = Some []"
proof -
  let ?u = "Up (note_env False False) (two_tables, fresh_world)"
  have "fst ?u = Ok ()" "fst (Down (note_env False False) (two_tables, snd (snd ?u))) = Ok ()" by code_simp+
  moreover obtain q r1 w1 where u: "?u = (q, (r1, w1))" by (metis prod_cases3)
  moreover obtain p r3 w3 where d: "Down (note_env False False) (two_tables, w1) = (p, (r3, w3))" by (metis prod_cases3)
  ultimately have "?u = (Ok (), (r1, w1))" "Down (note_env False False) (two_tables, w1) = (Ok (), (r3, w3))" by simp_all
  from up_then_down_restores [OF _ mig_env_ok fresh(1,3) this(1) refl this(2), of table_step] registries_ok(1) fresh(4) u d
  show ?thesis by simp
qed

end
