(* ===== verification/Schema.thy ===== *)
theory Schema
  imports Crud
begin

text \<open>
  From Go types to collections: the struct walker of \<^verbatim>\<open>internal/util/reflect.go\<close>, the collection
  metadata and registration of \<^verbatim>\<open>engine/collection.go\<close>, \<^verbatim>\<open>settings.go\<close>, \<^verbatim>\<open>search.go\<close> and
  \<^verbatim>\<open>link_reflect.go\<close>. A \<open>gtype\<close> is a \<open>reflect.Type\<close>; struct types are referred to by a key of the
  \<open>type_table\<close>, which lists their fields with their tags, so that types may be recursive (\<open>time.Time\<close>
  is the struct under the key \<open>time_key\<close>). The walkers terminate because a struct type is entered at
  most once on a path.
\<close>

section \<open>Types\<close>

datatype gtype = TStruct string | TPtr gtype | TSlice gtype | TArray nat gtype | TMap gtype gtype
  | TBasic string string

record struct_field =
  sf_Name :: string
  sf_Anonymous :: bool
  sf_Type :: gtype
  sf_json :: string
  sf_den :: string
  sf_validate :: string

record struct_type =
  st_Name :: string
  st_Text :: string
  st_fields :: "struct_field list"

type_synonym type_table = "(string \<times> struct_type) list"

definition time_key :: string where "time_key = ''time.Time''"

definition fields_of :: "type_table \<Rightarrow> string \<Rightarrow> struct_field list" where
  "fields_of tt n = (case map_of tt n of None \<Rightarrow> [] | Some s \<Rightarrow> st_fields s)"

definition name_of :: "type_table \<Rightarrow> string \<Rightarrow> string" where
  "name_of tt n = (case map_of tt n of None \<Rightarrow> [] | Some s \<Rightarrow> st_Name s)"

text \<open>\<open>Type.String()\<close>.\<close>

fun type_text :: "type_table \<Rightarrow> gtype \<Rightarrow> string" where
  "type_text tt (TStruct n) = (case map_of tt n of None \<Rightarrow> n | Some s \<Rightarrow> st_Text s)"
| "type_text tt (TPtr t) = CHR ''*'' # type_text tt t"
| "type_text tt (TSlice t) = ''[]'' @ type_text tt t"
| "type_text tt (TArray k t) = ''['' @ dec k @ '']'' @ type_text tt t"
| "type_text tt (TMap k t) = ''map['' @ type_text tt k @ '']'' @ type_text tt t"
| "type_text tt (TBasic kind n) = n"

fun is_struct :: "gtype \<Rightarrow> bool" where
  "is_struct (TStruct n) = True" | "is_struct _ = False"

fun is_pointer :: "gtype \<Rightarrow> bool" where
  "is_pointer (TPtr t) = True" | "is_pointer _ = False"

fun struct_key :: "gtype \<Rightarrow> string" where
  "struct_key (TStruct n) = n" | "struct_key _ = []"

fun elem_of_ptr :: "gtype \<Rightarrow> gtype" where
  "elem_of_ptr (TPtr t) = t" | "elem_of_ptr t = t"

text \<open>\<open>Type.FieldByName\<close>: breadth first through the embedded structs; a name found twice on one level is
  not found at all. Every level visits a new struct type, so the number of struct types bounds the
  depth.\<close>

definition embedded :: "struct_field \<Rightarrow> string list" where
  "embedded f = (if sf_Anonymous f \<and> is_struct (elem_of_ptr (sf_Type f)) then [struct_key (elem_of_ptr (sf_Type f))] else [])"

primrec find_field :: "nat \<Rightarrow> type_table \<Rightarrow> string list \<Rightarrow> string list \<Rightarrow> string \<Rightarrow> struct_field option" where
  "find_field 0 tt visited level name = None"
| "find_field (Suc depth) tt visited level name =
     (let fs = concat (map (fields_of tt) level);
          hits = filter (\<lambda>f. sf_Name f = name) fs
      in if length hits = 1 then Some (hd hits)
         else if hits \<noteq> [] then None
         else find_field depth tt (level @ visited)
                (filter (\<lambda>n. n \<notin> set (level @ visited)) (concat (map embedded fs))) name)"

definition FieldByName_type :: "type_table \<Rightarrow> string \<Rightarrow> string \<Rightarrow> struct_field option" where
  "FieldByName_type tt n name = find_field (Suc (length tt)) tt [] [n] name"

fun is_string_kind :: "gtype \<Rightarrow> bool" where
  "is_string_kind (TBasic kind n) = (kind = ''string'')" | "is_string_kind _ = False"

definition IsLinkShape :: "type_table \<Rightarrow> gtype \<Rightarrow> bool" where
  "IsLinkShape tt t =
     (if \<not> is_struct t \<or> length (fields_of tt (struct_key t)) < 3 then False
      else (case FieldByName_type tt (struct_key t) ''ID'' of
          None \<Rightarrow> False
        | Some idField \<Rightarrow> FieldByName_type tt (struct_key t) ''Value'' \<noteq> None
            \<and> FieldByName_type tt (struct_key t) ''Loaded'' \<noteq> None \<and> is_string_kind (sf_Type idField)))"

definition isScalarValueType :: "gtype \<Rightarrow> bool" where
  "isScalarValueType t = (t = TStruct time_key)"

section \<open>The struct walker\<close>

record field_info =
  fi_JSONName :: string
  fi_GoName :: string
  fi_Type :: gtype
  fi_Index :: "nat list"
  fi_Options :: tag_options
  fi_IsPointer :: bool

record struct_info =
  si_CollectionName :: string
  si_Fields :: "field_info list"
  si_GoType :: gtype
  si_HasDeletedAt :: bool
  si_HasValidateTags :: bool

definition raw_name :: "struct_field \<Rightarrow> string" where
  "raw_name f = (if ParseJSONTagName (sf_json f) = [] then to_lower (sf_Name f) else ParseJSONTagName (sf_json f))"

definition unseen :: "type_table \<Rightarrow> string list \<Rightarrow> nat" where
  "unseen tt seen = card (fst ` set tt - set seen)"

lemma unseen_Cons:
  assumes "n \<notin> set seen" "fields_of tt n \<noteq> []"
  shows "unseen tt (n # seen) < unseen tt seen"
proof -
  have "n \<in> fst ` set tt" using assms(2) by (force simp: fields_of_def dest: map_of_SomeD split: option.splits)
  then show ?thesis unfolding unseen_def by (intro psubset_card_mono) (use assms(1) in auto)
qed

lemma unseen_le: "set seen \<subseteq> set seen' \<Longrightarrow> unseen tt seen' \<le> unseen tt seen"
  unfolding unseen_def by (rule card_mono) auto

text \<open>What \<open>collectFields\<close> appends to: the fields and \<open>HasDeletedAt\<close>.\<close>

type_synonym walk = "field_info list \<times> bool"

function collectFields :: "type_table \<Rightarrow> string \<Rightarrow> nat list \<Rightarrow> string \<Rightarrow> string list \<Rightarrow> walk \<Rightarrow> gerr + walk"
  and collect_loop :: "type_table \<Rightarrow> struct_field list \<Rightarrow> nat \<Rightarrow> nat list \<Rightarrow> string \<Rightarrow> string list \<Rightarrow> walk \<Rightarrow> gerr + walk" where
  "collectFields tt n indexPrefix prefix seen info =
     (if n \<in> set seen then Inr info
      else collect_loop tt (fields_of tt n) 0 indexPrefix prefix (n # seen) info)"
| "collect_loop tt [] i indexPrefix prefix seen info = Inr info"
| "collect_loop tt (f # fs) i indexPrefix prefix seen info =
     (let index = indexPrefix @ [i] in
      if sf_Anonymous f \<and> is_struct (sf_Type f)
      then (case collectFields tt (struct_key (sf_Type f)) index prefix seen info of
          Inl e \<Rightarrow> Inl e
        | Inr info' \<Rightarrow> collect_loop tt fs (Suc i) indexPrefix prefix seen info')
      else (case ValidateFieldName (raw_name f) of
          Some e \<Rightarrow> Inl (Wrap (''field '' @ sf_Name f) [e])
        | None \<Rightarrow> (case ParseDenTag (sf_den f) of
            Inl e \<Rightarrow> Inl (Wrap (''field '' @ sf_Name f) [e])
          | Inr opts \<Rightarrow>
              (let name = (if prefix \<noteq> [] then prefix @ ''.'' @ raw_name f else raw_name f);
                   fi = \<lparr>fi_JSONName = name, fi_GoName = sf_Name f, fi_Type = sf_Type f, fi_Index = index,
                         fi_Options = opts, fi_IsPointer = is_pointer (sf_Type f)\<rparr>;
                   info' = (fst info @ [fi], snd info \<or> (name = ''_deleted_at'' \<and> sf_Type f = TPtr (TStruct time_key)));
                   rt = elem_of_ptr (sf_Type f)
               in if is_struct rt \<and> \<not> isScalarValueType rt \<and> \<not> IsLinkShape tt rt
                  then (case collectFields tt (struct_key rt) index name seen info' of
                      Inl e \<Rightarrow> Inl e
                    | Inr info'' \<Rightarrow> collect_loop tt fs (Suc i) indexPrefix prefix seen info'')
                  else collect_loop tt fs (Suc i) indexPrefix prefix seen info'))))"
  by pat_completeness auto

termination
proof (relation "inv_image (less_than <*lex*> less_than) (\<lambda>x. case x of
    Inl (tt, n, ip, p, seen, info) \<Rightarrow> (unseen tt seen, 2)
  | Inr (tt, fs, i, ip, p, seen, info) \<Rightarrow> (unseen tt seen, 2 * length fs + 1))", goal_cases)
  case (2 tt n ip p seen info)
  then show ?case
    using unseen_Cons [of n seen tt] unseen_le [of seen "n # seen" tt]
    by (cases "fields_of tt n = []") (auto simp: le_less)
qed auto

section \<open>Validate tags\<close>

text \<open>\<open>scanValidateTags\<close> with the set of types already seen; the result holds the types it adds.\<close>

fun strip_ptr :: "gtype \<Rightarrow> gtype" where
  "strip_ptr (TPtr t) = strip_ptr t" | "strip_ptr t = t"

lemma size_strip:
  "strip_ptr t = TSlice e \<Longrightarrow> size e < size t" "strip_ptr t = TArray k e \<Longrightarrow> size e < size t"
  "strip_ptr t = TMap u e \<Longrightarrow> size e < size t"
  by (induction t rule: strip_ptr.induct) auto

lemma strip_not_ptr: "strip_ptr t \<noteq> TPtr u"
  by (induction t rule: strip_ptr.induct) auto

definition struct_keys :: "gtype list \<Rightarrow> string list" where
  "struct_keys seen = map struct_key (filter is_struct seen)"

lemma in_struct_keys: "n \<in> set (struct_keys seen) \<longleftrightarrow> TStruct n \<in> set seen"
proof
  assume "n \<in> set (struct_keys seen)"
  then obtain t where "t \<in> set seen" "is_struct t" "struct_key t = n" by (auto simp: struct_keys_def)
  moreover have "is_struct t \<Longrightarrow> t = TStruct (struct_key t)" by (cases t) auto
  ultimately show "TStruct n \<in> set seen" by simp
qed (force simp: struct_keys_def)

definition fields_size :: "struct_field list \<Rightarrow> nat" where
  "fields_size fs = sum_list (map (\<lambda>f. 2 * size (sf_Type f) + 2) fs)"

lemma unseen_struct:
  "TStruct n \<notin> set seen \<Longrightarrow> fields_of tt n \<noteq> [] \<Longrightarrow>
   unseen tt (struct_keys (TStruct n # seen)) < unseen tt (struct_keys seen)"
  using unseen_Cons [of n "struct_keys seen" tt] in_struct_keys [of n seen] by (simp add: struct_keys_def)

lemma unseen_new: "unseen tt (struct_keys (new @ seen)) \<le> unseen tt (struct_keys seen)"
  by (rule unseen_le) (auto simp: struct_keys_def)

lemma unseen_cons: "unseen tt (struct_keys (u # seen)) \<le> unseen tt (struct_keys seen)"
  by (rule unseen_le) (auto simp: struct_keys_def)

function scanValidateTags :: "type_table \<Rightarrow> gtype \<Rightarrow> gtype list \<Rightarrow> bool \<times> gtype list"
  and scan_fields :: "type_table \<Rightarrow> struct_field list \<Rightarrow> gtype list \<Rightarrow> bool \<times> gtype list" where
  "scanValidateTags tt t seen =
     (let u = strip_ptr t in
      if u \<in> set seen then (False, [])
      else (case u of
          TStruct n \<Rightarrow>
            if u = TStruct time_key then (False, [u])
            else (case scan_fields tt (fields_of tt n) (u # seen) of (b, new) \<Rightarrow> (b, new @ [u]))
        | TSlice e \<Rightarrow> (case scanValidateTags tt e (u # seen) of (b, new) \<Rightarrow> (b, new @ [u]))
        | TArray k e \<Rightarrow> (case scanValidateTags tt e (u # seen) of (b, new) \<Rightarrow> (b, new @ [u]))
        | TMap k e \<Rightarrow> (case scanValidateTags tt e (u # seen) of (b, new) \<Rightarrow> (b, new @ [u]))
        | _ \<Rightarrow> (False, [u])))"
| "scan_fields tt [] seen = (False, [])"
| "scan_fields tt (f # fs) seen =
     (if sf_validate f = ''-'' then scan_fields tt fs seen
      else if sf_validate f \<noteq> [] then (True, [])
      else (case scanValidateTags tt (sf_Type f) seen of
          (True, new) \<Rightarrow> (True, new)
        | (False, new) \<Rightarrow> (case scan_fields tt fs (new @ seen) of (b, new') \<Rightarrow> (b, new' @ new))))"
  by pat_completeness auto

termination
proof (relation "inv_image (less_than <*lex*> less_than) (\<lambda>x. case x of
    Inl (tt, t, seen) \<Rightarrow> (unseen tt (struct_keys seen), 2 * size t + 1)
  | Inr (tt, fs, seen) \<Rightarrow> (unseen tt (struct_keys seen), fields_size fs))", goal_cases)
  case (2 tt t seen u n)
  then show ?case
    using unseen_struct [of n seen tt] unseen_cons [of tt u seen]
    by (cases "fields_of tt n = []") (auto simp: le_less fields_size_def)
next
  case (3 tt t seen u e)
  then show ?case using unseen_cons [of tt u seen] size_strip [of t] by (fastforce simp: le_less)
next
  case (4 tt t seen u k e)
  then show ?case using unseen_cons [of tt u seen] size_strip [of t] by (fastforce simp: le_less)
next
  case (5 tt t seen u k e)
  then show ?case using unseen_cons [of tt u seen] size_strip [of t] by (fastforce simp: le_less)
next
  case (8 tt f fs seen x y)
  then show ?case using unseen_new [of tt y seen] by (auto simp: le_less fields_size_def)
qed (auto simp: fields_size_def)

section \<open>Struct metadata\<close>

text \<open>\<open>AnalyzeStruct\<close>: one pointer is followed; \<open>reflect\<close> panics on the fields of another kind.\<close>

definition AnalyzeStruct :: "type_table \<Rightarrow> gtype \<Rightarrow> struct_info outcome" where
  "AnalyzeStruct tt t =
     (let t = elem_of_ptr t in
      if \<not> is_struct t then Panic ''reflect: NumField of non-struct type''
      else (case collectFields tt (struct_key t) [] [] [] ([], False) of
          Inl e \<Rightarrow> Err e
        | Inr (fs, hasDeletedAt) \<Rightarrow>
            Ok \<lparr>si_CollectionName = CollectionName (name_of tt (struct_key t)), si_Fields = fs, si_GoType = t,
                si_HasDeletedAt = hasDeletedAt, si_HasValidateTags = fst (scanValidateTags tt t [])\<rparr>))"

text \<open>The lookup map holds the last field of a name.\<close>

definition FieldByName :: "struct_info \<Rightarrow> string \<Rightarrow> field_info option" where
  "FieldByName s jsonName = find (\<lambda>f. fi_JSONName f = jsonName) (rev (si_Fields s))"

definition IndexedFields :: "struct_info \<Rightarrow> field_info list" where
  "IndexedFields s = filter (\<lambda>f. Index (fi_Options f)) (si_Fields s)"

definition UniqueFields :: "struct_info \<Rightarrow> field_info list" where
  "UniqueFields s = filter (\<lambda>f. Unique (fi_Options f)) (si_Fields s)"

fun is_link_or_slice :: "type_table \<Rightarrow> gtype \<Rightarrow> bool" where
  "is_link_or_slice tt (TSlice t) = IsLinkShape tt t"
| "is_link_or_slice tt t = IsLinkShape tt t"

definition validateEagerTags :: "type_table \<Rightarrow> struct_info \<Rightarrow> gerr option" where
  "validateEagerTags tt info =
     map_option (\<lambda>f. Msg (''den: tag den:eager on field '' @ go_quote (fi_GoName f) @ '' ('' @ type_text tt (fi_Type f)
          @ ''): only valid on Link[T] or []Link[T]''))
       (find (\<lambda>f. Eager (fi_Options f) \<and> \<not> is_link_or_slice tt (fi_Type f)) (si_Fields info))"

section \<open>Collection metadata\<close>

definition field_meta_of :: "type_table \<Rightarrow> field_info \<Rightarrow> field_meta" where
  "field_meta_of tt f = \<lparr>fm_Name = fi_JSONName f, fm_GoName = fi_GoName f, fm_Type = type_text tt (fi_Type f),
     fm_Indexed = Index (fi_Options f), fm_Unique = Unique (fi_Options f), fm_FTS = FTS (fi_Options f),
     fm_IsPointer = fi_IsPointer f\<rparr>"

definition field_index :: "string \<Rightarrow> field_info \<Rightarrow> index_definition list" where
  "field_index coll f = (if Index (fi_Options f) \<or> Unique (fi_Options f)
     then [\<lparr>ix_Name = ''idx_'' @ coll @ ''_'' @ IdentifierSegment (fi_JSONName f), ix_Fields = [fi_JSONName f],
            ix_Unique = Unique (fi_Options f)\<rparr>]
     else [])"

text \<open>The groups of \<open>unique_together\<close> and \<open>index_together\<close>, their names in sorted order.\<close>

definition group_names :: "(field_info \<Rightarrow> string) \<Rightarrow> field_info list \<Rightarrow> string list" where
  "group_names sel fs = sort (remdups (filter (\<lambda>g. g \<noteq> []) (map sel fs)))"

definition group_indexes :: "string \<Rightarrow> bool \<Rightarrow> (field_info \<Rightarrow> string) \<Rightarrow> field_info list \<Rightarrow> index_definition list" where
  "group_indexes coll uniq sel fs =
     map (\<lambda>g. \<lparr>ix_Name = ''idx_'' @ coll @ ''_'' @ g,
               ix_Fields = map fi_JSONName (filter (\<lambda>f. sel f = g) fs), ix_Unique = uniq\<rparr>)
       (group_names sel fs)"

definition buildCollectionMeta :: "type_table \<Rightarrow> bool \<Rightarrow> struct_info \<Rightarrow> collection_meta" where
  "buildCollectionMeta tt trackable info =
     \<lparr>cm_Name = si_CollectionName info, cm_Fields = map (field_meta_of tt) (si_Fields info),
      cm_Indexes = concat (map (field_index (si_CollectionName info)) (si_Fields info))
        @ group_indexes (si_CollectionName info) True (\<lambda>f. UniqueTogether (fi_Options f)) (si_Fields info)
        @ group_indexes (si_CollectionName info) False (\<lambda>f. IndexTogether (fi_Options f)) (si_Fields info),
      cm_HasSoftDelete = si_HasDeletedAt info, cm_HasRevision = False, cm_HasChangeTracking = trackable\<rparr>"

section \<open>Registration\<close>

record settings =
  se_CollectionName :: string
  se_UseRevision :: bool
  se_Indexes :: "index_definition list"

text \<open>A document passed to \<open>Register\<close>: its dynamic type, what that type implements (\<open>DenSettings\<close> on the
  value or on its pointer, \<open>document.Trackable\<close>) and its zero value as the engine handles it.\<close>

record doc_arg =
  da_Type :: gtype
  da_Settings :: "settings option"
  da_Trackable :: bool
  da_Zero :: doc

definition getSettings :: "doc_arg \<Rightarrow> settings" where
  "getSettings a = (case da_Settings a of
      None \<Rightarrow> \<lparr>se_CollectionName = [], se_UseRevision = False, se_Indexes = []\<rparr> | Some s \<Rightarrow> s)"

type_synonym fts_provider = "(string \<Rightarrow> string list \<Rightarrow> (world, unit) prog) option"

definition ensureFTSForCollection :: "fts_provider \<Rightarrow> collection_meta \<Rightarrow> (world, unit) prog" where
  "ensureFTSForCollection fts meta = (case fts of
      None \<Rightarrow> returnP ()
    | Some ensure \<Rightarrow>
        (let ftsFields = map fm_Name (filter fm_FTS (cm_Fields meta))
         in if ftsFields = [] then returnP () else ensure (cm_Name meta) ftsFields))"

definition register_meta :: "type_table \<Rightarrow> doc_arg \<Rightarrow> struct_info \<Rightarrow> collection_meta" where
  "register_meta tt a info =
     (let meta = buildCollectionMeta tt (da_Trackable a) info; s = getSettings a
      in meta\<lparr>cm_Name := (if se_CollectionName s \<noteq> [] then se_CollectionName s else cm_Name meta),
              cm_Indexes := cm_Indexes meta @ se_Indexes s, cm_HasRevision := se_UseRevision s\<rparr>)"

definition provision :: "fts_provider \<Rightarrow> collection_meta \<Rightarrow> (world, unit) prog" where
  "provision fts meta =
     bindP (map_err (\<lambda>e. Wrap (''ensure collection '' @ cm_Name meta) [e]) (be_EnsureCollection (cm_Name meta) meta)) (\<lambda>_.
     bindP (forP (\<lambda>idx. map_err (\<lambda>e. Wrap (''ensure index '' @ ix_Name idx @ '' on '' @ cm_Name meta) [e])
                          (be_EnsureIndex (cm_Name meta) idx)) (cm_Indexes meta)) (\<lambda>_.
     map_err (\<lambda>e. Wrap (''ensure FTS for '' @ cm_Name meta) [e]) (ensureFTSForCollection fts meta)))"

definition record_collection :: "type_table \<Rightarrow> doc_arg \<Rightarrow> struct_info \<Rightarrow> registry \<Rightarrow> registry" where
  "record_collection tt a info reg =
     (let meta = register_meta tt a info;
          col = \<lparr>ci_meta = meta, ci_zero = da_Zero a, ci_HasValidateTags = si_HasValidateTags info,
                 ci_UseRevision = se_UseRevision (getSettings a)\<rparr>;
          derived = CollectionName (name_of tt (struct_key (elem_of_ptr (da_Type a))))
      in reg\<lparr>rg_collections := AList.update (cm_Name meta) col (rg_collections reg),
             rg_types := (if derived \<noteq> cm_Name meta then AList.update derived (cm_Name meta) (rg_types reg)
                          else rg_types reg)\<rparr>)"

definition register_one :: "type_table \<Rightarrow> fts_provider \<Rightarrow> doc_arg \<Rightarrow> (registry, unit) op" where
  "register_one tt fts a = (\<lambda>(reg, w).
     let name = name_of tt (struct_key (elem_of_ptr (da_Type a))) in
     case AnalyzeStruct tt (elem_of_ptr (da_Type a)) of
       Panic p \<Rightarrow> (Panic p, (reg, w))
     | Err e \<Rightarrow> (Err (if errors_is e ErrInvalidFieldName then Wrap (''analyze '' @ name) [Sent ErrValidation, e]
                    else Wrap (''analyze '' @ name) [e]), (reg, w))
     | Ok info \<Rightarrow>
         (case validateEagerTags tt info of
            Some e \<Rightarrow> (Err (Wrap name [Sent ErrValidation, e]), (reg, w))
          | None \<Rightarrow>
              (case provision fts (register_meta tt a info) w of
                 (Ok _, w') \<Rightarrow> (Ok (), (record_collection tt a info reg, w'))
               | (r, w') \<Rightarrow> (r, (reg, w')))))"

definition Register :: "type_table \<Rightarrow> fts_provider \<Rightarrow> doc_arg list \<Rightarrow> (registry, unit) op" where
  "Register tt fts types = forP (register_one tt fts) types"

definition empty_registry :: registry where
  "empty_registry = \<lparr>rg_collections = [], rg_types = []\<rparr>"

text \<open>\<open>Open\<close> with the types queued by \<open>WithTypes\<close>.\<close>

definition Open :: "type_table \<Rightarrow> fts_provider \<Rightarrow> doc_arg list \<Rightarrow> (world, registry) prog" where
  "Open tt fts pendingTypes w =
     (if pendingTypes = [] then (Ok empty_registry, w)
      else (case Register tt fts pendingTypes (empty_registry, w) of
          (Ok _, (reg, w')) \<Rightarrow> (Ok reg, w') | (Err e, (reg, w')) \<Rightarrow> (Err e, w') | (Panic p, (reg, w')) \<Rightarrow> (Panic p, w')))"

definition Meta :: "env \<Rightarrow> string \<Rightarrow> gerr + collection_meta" where
  "Meta env ty = (case collectionForType env ty of Inl e \<Rightarrow> Inl e | Inr col \<Rightarrow> Inr (ci_meta col))"

definition Collections :: "registry \<Rightarrow> string list" where
  "Collections reg = sort (map fst (rg_collections reg))"

section \<open>Stale indexes\<close>

record stale_index =
  si_Collection :: string
  si_index :: index_definition

record drop_stale_result =
  dr_Dropped :: "stale_index list"
  dr_Kept :: "stale_index list"

type_synonym drop_config = bool

definition DryRun :: "drop_config \<Rightarrow> drop_config" where "DryRun c = True"

definition Resolve_drop :: "(drop_config \<Rightarrow> drop_config) list \<Rightarrow> drop_config" where
  "Resolve_drop opts = fold (\<lambda>opt c. opt c) opts False"

fun drop_recorded :: "bool \<Rightarrow> collection_meta \<Rightarrow> index_definition list \<Rightarrow> (drop_stale_result \<times> world, unit) prog" where
  "drop_recorded dry meta [] s = (Ok (), s)"
| "drop_recorded dry meta (rec # recs) (res, w) =
     (let entry = \<lparr>si_Collection = cm_Name meta, si_index = rec\<rparr> in
      if ix_Name rec \<in> set (map ix_Name (cm_Indexes meta))
      then drop_recorded dry meta recs (res\<lparr>dr_Kept := dr_Kept res @ [entry]\<rparr>, w)
      else if dry then drop_recorded dry meta recs (res\<lparr>dr_Dropped := dr_Dropped res @ [entry]\<rparr>, w)
      else (case be_DropIndex (cm_Name meta) (ix_Name rec) w of
          (Ok _, w') \<Rightarrow> drop_recorded dry meta recs (res\<lparr>dr_Dropped := dr_Dropped res @ [entry]\<rparr>, w')
        | (Err e, w') \<Rightarrow> (Err (Wrap (''drop stale index '' @ ix_Name rec @ '' on '' @ cm_Name meta) [e]), (res, w'))
        | (Panic p, w') \<Rightarrow> (Panic p, (res, w'))))"

definition drop_stale_collection :: "bool \<Rightarrow> collection_info \<Rightarrow> (drop_stale_result \<times> world, unit) prog" where
  "drop_stale_collection dry info = (\<lambda>(res, w).
     case be_ListRecordedIndexes (cm_Name (ci_meta info)) w of
       (Ok recorded, w') \<Rightarrow> drop_recorded dry (ci_meta info) recorded (res, w')
     | (Err e, w') \<Rightarrow> (Err (Wrap (''list recorded indexes for '' @ cm_Name (ci_meta info)) [e]), (res, w'))
     | (Panic p, w') \<Rightarrow> (Panic p, (res, w')))"

definition DropStaleIndexes :: "registry \<Rightarrow> (drop_config \<Rightarrow> drop_config) list \<Rightarrow> world
     \<Rightarrow> unit outcome \<times> drop_stale_result \<times> world" where
  "DropStaleIndexes reg opts w =
     forP (drop_stale_collection (Resolve_drop opts)) (map snd (rg_collections reg)) (\<lparr>dr_Dropped = [], dr_Kept = []\<rparr>, w)"

end
