(* ===== verification/Schema_Properties.thy ===== *)
theory Schema_Properties
  imports Schema
begin

text \<open>
  Registration: the validate-tag scan decides reachability, analysed structs have safe field names and
  well-formed metadata, a registered type is found with its table and indexes, an index that exists
  under the same name is not rebuilt, and stale indexes are dropped without touching documents.
\<close>

section \<open>The scan for validate tags\<close>

text \<open>The specification: a tag other than \<open>"-"\<close> on a field that is reached without passing a field
  tagged \<open>"-"\<close> or entering \<open>time.Time\<close>.\<close>

inductive tag_reachable :: "type_table \<Rightarrow> gtype \<Rightarrow> bool" for tt where
  ptr: "tag_reachable tt t \<Longrightarrow> tag_reachable tt (TPtr t)"
| slice: "tag_reachable tt t \<Longrightarrow> tag_reachable tt (TSlice t)"
| array: "tag_reachable tt t \<Longrightarrow> tag_reachable tt (TArray k t)"
| map_elem: "tag_reachable tt t \<Longrightarrow> tag_reachable tt (TMap u t)"
| tagged: "n \<noteq> time_key \<Longrightarrow> f \<in> set (fields_of tt n) \<Longrightarrow> sf_validate f \<noteq> [] \<Longrightarrow> sf_validate f \<noteq> ''-'' \<Longrightarrow>
    tag_reachable tt (TStruct n)"
| field: "n \<noteq> time_key \<Longrightarrow> f \<in> set (fields_of tt n) \<Longrightarrow> sf_validate f = [] \<Longrightarrow> tag_reachable tt (sf_Type f) \<Longrightarrow>
    tag_reachable tt (TStruct n)"

inductive_simps tag_reachable_simps:
  "tag_reachable tt (TPtr t)" "tag_reachable tt (TSlice t)" "tag_reachable tt (TArray k t)"
  "tag_reachable tt (TMap u t)" "tag_reachable tt (TBasic b n)"

inductive_cases struct_reachable: "tag_reachable tt (TStruct n)"

lemma reachable_strip: "tag_reachable tt (strip_ptr t) = tag_reachable tt t"
  by (induction t rule: strip_ptr.induct) (simp_all add: tag_reachable_simps)

text \<open>One step of a closed set of types without tags.\<close>

definition field_clean :: "gtype set \<Rightarrow> struct_field \<Rightarrow> bool" where
  "field_clean S f \<longleftrightarrow> sf_validate f = ''-'' \<or> (sf_validate f = [] \<and> strip_ptr (sf_Type f) \<in> S)"

fun clean_step :: "type_table \<Rightarrow> gtype set \<Rightarrow> gtype \<Rightarrow> bool" where
  "clean_step tt S (TStruct n) = (n = time_key \<or> (\<forall>f \<in> set (fields_of tt n). field_clean S f))"
| "clean_step tt S (TSlice t) = (strip_ptr t \<in> S)"
| "clean_step tt S (TArray k t) = (strip_ptr t \<in> S)"
| "clean_step tt S (TMap u t) = (strip_ptr t \<in> S)"
| "clean_step tt S (TPtr t) = True"
| "clean_step tt S (TBasic b n) = True"

lemma clean_step_mono: "clean_step tt S t \<Longrightarrow> S \<subseteq> T \<Longrightarrow> clean_step tt T t"
  by (cases t) (auto simp: field_clean_def)

lemma closed_unreachable:
  assumes "\<forall>u \<in> S. clean_step tt S u"
  shows "tag_reachable tt t \<Longrightarrow> strip_ptr t \<notin> S"
proof (induction rule: tag_reachable.induct)
  case (tagged n f)
  then show ?case using assms by (fastforce simp: field_clean_def)
next
  case (field n f)
  then show ?case using assms by (fastforce simp: field_clean_def)
qed (use assms in fastforce)+

lemma scan_True:
  "fst (scanValidateTags tt t seen) \<Longrightarrow> tag_reachable tt t"
  "fst (scan_fields tt fs seen) \<Longrightarrow>
     \<exists>f \<in> set fs. sf_validate f \<noteq> ''-'' \<and> (sf_validate f \<noteq> [] \<or> tag_reachable tt (sf_Type f))"
proof (induction tt t seen and tt fs seen rule: scanValidateTags_scan_fields.induct)
  case (1 tt t seen)
  have "tag_reachable tt (strip_ptr t)"
  proof (cases "strip_ptr t")
    case (TStruct n)
    with 1 have n: "strip_ptr t \<notin> set seen" "n \<noteq> time_key" "fst (scan_fields tt (fields_of tt n) (strip_ptr t # seen))"
      by (auto simp: Let_def split: if_splits prod.splits)
    with 1(1) TStruct have "\<exists>f \<in> set (fields_of tt n). sf_validate f \<noteq> ''-'' \<and> (sf_validate f \<noteq> [] \<or> tag_reachable tt (sf_Type f))"
      by auto
    with n(2) TStruct show ?thesis using tag_reachable.field tag_reachable.tagged by metis
  next
    case (TPtr u)
    then show ?thesis using strip_not_ptr by blast
  qed (use 1 in \<open>auto simp: Let_def tag_reachable_simps split: if_splits prod.splits\<close>)
  then show ?case by (simp add: reachable_strip)
next
  case (3 tt f fs seen)
  show ?case
  proof (cases "sf_validate f = ''-''")
    case False
    show ?thesis
    proof (cases "sf_validate f = []")
      case True
      obtain b new where s: "scanValidateTags tt (sf_Type f) seen = (b, new)" by fastforce
      show ?thesis
      proof (cases b)
        case True
        with 3(2) s False \<open>sf_validate f = []\<close> show ?thesis by auto
      next
        case b: False
        from 3(4) False True s b have "fst (scan_fields tt fs (new @ seen))" by (auto split: prod.splits)
        with 3(3) [OF False _ s [symmetric]] True b show ?thesis by auto
      qed
    qed (use False in auto)
  qed (use 3 in auto)
qed simp

lemma scan_False:
  "scanValidateTags tt t seen = (False, new) \<Longrightarrow>
     strip_ptr t \<in> set (new @ seen) \<and> (\<forall>u \<in> set new. clean_step tt (set (new @ seen)) u)"
  "scan_fields tt fs seen = (False, new) \<Longrightarrow>
     (\<forall>f \<in> set fs. field_clean (set (new @ seen)) f) \<and> (\<forall>u \<in> set new. clean_step tt (set (new @ seen)) u)"
proof (induction tt t seen and tt fs seen arbitrary: new and new rule: scanValidateTags_scan_fields.induct)
  case (1 tt t seen)
  show ?case
  proof (cases "strip_ptr t \<in> set seen")
    case True
    with 1(5) show ?thesis by (auto simp: Let_def)
  next
    case new_type: False
    show ?thesis
    proof (cases "strip_ptr t")
      case (TStruct n)
      show ?thesis
      proof (cases "n = time_key")
        case True
        with 1(5) TStruct new_type show ?thesis by (auto simp: Let_def)
      next
        case False
        obtain b new' where s: "scan_fields tt (fields_of tt n) (strip_ptr t # seen) = (b, new')" by fastforce
        with 1(5) new_type TStruct False have b: "b = False" "new = new' @ [strip_ptr t]" by (auto simp: Let_def)
        from 1(1) [OF refl new_type TStruct _ s [unfolded b]] TStruct False
        have "(\<forall>f\<in>set (fields_of tt n). field_clean (set (new' @ strip_ptr t # seen)) f)
          \<and> (\<forall>u\<in>set new'. clean_step tt (set (new' @ strip_ptr t # seen)) u)" by auto
        then show ?thesis using TStruct by (auto simp: b)
      qed
    next
      case (TSlice e)
      obtain b new' where s: "scanValidateTags tt e (strip_ptr t # seen) = (b, new')" by fastforce
      with 1(5) new_type TSlice have b: "b = False" "new = new' @ [strip_ptr t]" by (auto simp: Let_def)
      from 1(2) [OF refl new_type TSlice s [unfolded b]] show ?thesis using TSlice by (auto simp: b)
    next
      case (TArray k e)
      obtain b new' where s: "scanValidateTags tt e (strip_ptr t # seen) = (b, new')" by fastforce
      with 1(5) new_type TArray have b: "b = False" "new = new' @ [strip_ptr t]" by (auto simp: Let_def)
      from 1(3) [OF refl new_type TArray s [unfolded b]] show ?thesis using TArray by (auto simp: b)
    next
      case (TMap k e)
      obtain b new' where s: "scanValidateTags tt e (strip_ptr t # seen) = (b, new')" by fastforce
      with 1(5) new_type TMap have b: "b = False" "new = new' @ [strip_ptr t]" by (auto simp: Let_def)
      from 1(4) [OF refl new_type TMap s [unfolded b]] show ?thesis using TMap by (auto simp: b)
    next
      case (TPtr e)
      then show ?thesis using strip_not_ptr by blast
    next
      case (TBasic b n)
      with 1(5) new_type show ?thesis by (auto simp: Let_def)
    qed
  qed
next
  case (2 tt seen)
  then show ?case by simp
next
  case (3 tt f fs seen)
  show ?case
  proof (cases "sf_validate f = ''-''")
    case True
    with 3 show ?thesis by (auto simp: field_clean_def)
  next
    case False
    with 3(4) have empty: "sf_validate f = []" by (auto split: if_splits)
    obtain b new1 where s: "scanValidateTags tt (sf_Type f) seen = (b, new1)" by fastforce
    with 3(4) False empty have b: "b = False" by (cases b) auto
    obtain c new2 where r: "scan_fields tt fs (new1 @ seen) = (c, new2)" by fastforce
    with 3(4) False empty s b have c: "c = False" "new = new2 @ new1" by auto
    have A: "strip_ptr (sf_Type f) \<in> set (new1 @ seen)" "\<forall>u\<in>set new1. clean_step tt (set (new1 @ seen)) u"
      using 3(2) [OF False _ s [unfolded b]] empty by auto
    have B: "\<forall>f\<in>set fs. field_clean (set (new2 @ new1 @ seen)) f"
      "\<forall>u\<in>set new2. clean_step tt (set (new2 @ new1 @ seen)) u"
      using 3(3) [OF False _ s [symmetric] b r [unfolded c(1)]] empty by auto
    have "\<forall>u\<in>set new1. clean_step tt (set (new2 @ new1 @ seen)) u" using A(2) by (auto intro: clean_step_mono)
    with A(1) B empty show ?thesis by (auto simp: c(2) field_clean_def)
  qed
qed

text \<open>\<open>scanValidateTags\<close> decides exactly whether the struct validator has anything to check: it is true
  if and only if a validate tag is reachable from the type, for recursive types too. Skipping the
  validator when it is false skips no check.\<close>

theorem scan_decides_validate_tags:
  "fst (scanValidateTags tt t []) \<longleftrightarrow> tag_reachable tt t"
proof
  show "fst (scanValidateTags tt t []) \<Longrightarrow> tag_reachable tt t" by (rule scan_True(1))
next
  assume r: "tag_reachable tt t"
  obtain b new where s: "scanValidateTags tt t [] = (b, new)" by fastforce
  show "fst (scanValidateTags tt t [])"
  proof (rule ccontr)
    assume "\<not> ?thesis"
    with s have "scanValidateTags tt t [] = (False, new)" by simp
    from scan_False(1) [OF this] closed_unreachable [of "set new" tt, OF _ r] show False by simp
  qed
qed

section \<open>Names and metadata\<close>

text \<open>A field name of a schema: valid segments joined by dots.\<close>

definition safe_name :: "string \<Rightarrow> bool" where
  "safe_name n \<longleftrightarrow> list_all field_name_ok (split_on CHR ''.'' n)"

lemma split_on_append: "split_on c (xs @ c # ys) = split_on c xs @ split_on c ys"
  by (induction c xs rule: split_on.induct) (auto split: list.splits)

lemma split_on_single: "c \<notin> set s \<Longrightarrow> split_on c s = [s]"
  by (induction s) auto

lemma safe_raw: "field_name_ok n \<Longrightarrow> safe_name n"
proof -
  assume n: "field_name_ok n"
  then have "CHR ''.'' \<notin> set n" using field_name_ok_chars by blast
  then show ?thesis using n by (simp add: safe_name_def split_on_single)
qed

lemma safe_nested: "safe_name p \<Longrightarrow> field_name_ok n \<Longrightarrow> safe_name (p @ ''.'' @ n)"
  using safe_raw [of n] by (simp add: safe_name_def split_on_append)

lemma safe_sanitized:
  assumes "safe_name n"
  shows "SanitizeFieldName n = n \<and> list_all (\<lambda>c. name_char c \<and> c \<noteq> CHR ''.'') (IdentifierSegment n)"
proof -
  have parts: "name_char c" if "p \<in> set (split_on CHR ''.'' n)" "c \<in> set p" for p c
    using assms that field_name_ok_chars by (auto simp: safe_name_def list_all_iff)
  have "name_char c" if "c \<in> set n" for c
  proof -
    from that have "c \<in> set (join ''.'' (split_on CHR ''.'' n))" by (simp add: join_split_on)
    with set_join [of "''.''" "split_on CHR ''.'' n"] parts show ?thesis by (auto simp: name_char_def)
  qed
  then show ?thesis
    by (auto simp: sanitize_id list_all_iff IdentifierSegment_def replace_char_def name_char_def split: if_splits)
qed

definition deleted_at_field :: "field_info \<Rightarrow> bool" where
  "deleted_at_field f \<longleftrightarrow> fi_JSONName f = ''_deleted_at'' \<and> fi_Type f = TPtr (TStruct time_key)"

definition walk_ok :: "walk \<Rightarrow> bool" where
  "walk_ok info \<longleftrightarrow> list_all (\<lambda>f. safe_name (fi_JSONName f)) (fst info) \<and> (snd info \<longleftrightarrow> list_ex deleted_at_field (fst info))"

definition prefix_ok :: "string \<Rightarrow> bool" where
  "prefix_ok p \<longleftrightarrow> p = [] \<or> safe_name p"

lemma collect_ok:
  "collectFields tt n ip p seen info = Inr info' \<Longrightarrow> walk_ok info \<Longrightarrow> prefix_ok p \<Longrightarrow> walk_ok info'"
  "collect_loop tt fs i ip p seen info = Inr info' \<Longrightarrow> walk_ok info \<Longrightarrow> prefix_ok p \<Longrightarrow> walk_ok info'"
proof (induction tt n ip p seen info and tt fs i ip p seen info arbitrary: info' and info' rule: collectFields_collect_loop.induct)
  case (1 tt n ip p seen info)
  then show ?case by (auto split: if_splits)
next
  case (2 tt i ip p seen info)
  then show ?case by simp
next
  case (3 tt f fs i ip p seen info)
  show ?case
  proof (cases "sf_Anonymous f \<and> is_struct (sf_Type f)")
    case True
    with 3(6) obtain mid where mid: "collectFields tt (struct_key (sf_Type f)) (ip @ [i]) p seen info = Inr mid"
      "collect_loop tt fs (Suc i) ip p seen mid = Inr info'" by (auto simp: Let_def split: sum.splits)
    from 3(1) [OF refl True mid(1) 3(7,8)] 3(2) [OF refl True mid(1) mid(2)] 3(8) show ?thesis by blast
  next
    case False
    with 3(6) have v: "ValidateFieldName (raw_name f) = None" by (auto simp: Let_def split: option.splits)
    then have raw: "field_name_ok (raw_name f)" by (auto simp: ValidateFieldName_def split: if_splits)
    from 3(6) False v obtain opts where o: "ParseDenTag (sf_den f) = Inr opts" by (auto simp: Let_def split: sum.splits)
    let ?name = "if p \<noteq> [] then p @ ''.'' @ raw_name f else raw_name f"
    let ?fi = "\<lparr>fi_JSONName = ?name, fi_GoName = sf_Name f, fi_Type = sf_Type f, fi_Index = ip @ [i],
                fi_Options = opts, fi_IsPointer = is_pointer (sf_Type f)\<rparr>"
    let ?info = "(fst info @ [?fi], snd info \<or> (?name = ''_deleted_at'' \<and> sf_Type f = TPtr (TStruct time_key)))"
    let ?rt = "elem_of_ptr (sf_Type f)"
    have name: "safe_name ?name" using raw safe_raw safe_nested 3(8) by (auto simp: prefix_ok_def)
    with 3(7) have info: "walk_ok ?info" by (auto simp: walk_ok_def deleted_at_field_def)
    show ?thesis
    proof (cases "is_struct ?rt \<and> \<not> isScalarValueType ?rt \<and> \<not> IsLinkShape tt ?rt")
      case True
      with 3(6) False v o obtain mid where mid: "collectFields tt (struct_key ?rt) (ip @ [i]) ?name seen ?info = Inr mid"
        "collect_loop tt fs (Suc i) ip p seen mid = Inr info'" by (auto simp: Let_def split: sum.splits)
      have "walk_ok mid"
        by (rule 3(3) [OF refl False v o refl refl refl refl True mid(1) info]) (simp add: prefix_ok_def name)
      from 3(4) [OF refl False v o refl refl refl refl True mid(1) mid(2) this 3(8)] show ?thesis .
    next
      case leaf: False
      with 3(6) False v o have "collect_loop tt fs (Suc i) ip p seen ?info = Inr info'" by (auto simp: Let_def)
      from 3(5) [OF refl False v o refl refl refl refl leaf this info 3(8)] show ?thesis .
    qed
  qed
qed

text \<open>C25. The schema of a registered type is well formed: every field name is a dotted path of valid
  identifiers (so sanitizing changes nothing and the identifier form has only letters, digits and
  underscores), the collection soft-deletes exactly when it has a \<open>_deleted_at\<close> field of type
  \<open>*time.Time\<close>, and every index covers at least one field, all of them fields of the schema.\<close>

theorem registered_schema_is_well_formed:
  assumes "AnalyzeStruct tt t = Ok info" and meta: "buildCollectionMeta tt trackable info = meta"
  shows "list_all (\<lambda>f. safe_name (fi_JSONName f) \<and> SanitizeFieldName (fi_JSONName f) = fi_JSONName f
        \<and> list_all (\<lambda>c. name_char c \<and> c \<noteq> CHR ''.'') (IdentifierSegment (fi_JSONName f))) (si_Fields info)
    \<and> (cm_HasSoftDelete meta \<longleftrightarrow> list_ex deleted_at_field (si_Fields info))
    \<and> list_all (\<lambda>idx. ix_Fields idx \<noteq> [] \<and> set (ix_Fields idx) \<subseteq> set (map fm_Name (cm_Fields meta))) (cm_Indexes meta)"
proof -
  from assms(1) obtain fs del where c: "collectFields tt (struct_key (elem_of_ptr t)) [] [] [] ([], False) = Inr (fs, del)"
    and i: "si_Fields info = fs" "si_HasDeletedAt info = del"
    by (auto simp: AnalyzeStruct_def Let_def split: if_splits sum.splits)
  have ok: "walk_ok (fs, del)" by (rule collect_ok(1) [OF c]) (simp_all add: walk_ok_def prefix_ok_def)
  have names: "safe_name n \<and> SanitizeFieldName n = n \<and> list_all (\<lambda>c. name_char c \<and> c \<noteq> CHR ''.'') (IdentifierSegment n)"
    if "n \<in> fi_JSONName ` set fs" for n
    using that ok safe_sanitized [of n] by (auto simp: walk_ok_def list_all_iff)
  have groups: "ix_Fields idx \<noteq> [] \<and> set (ix_Fields idx) \<subseteq> fi_JSONName ` set fs"
    if "idx \<in> set (group_indexes coll b sel fs)" for idx coll b sel
    using that by (auto simp: group_indexes_def group_names_def filter_empty_conv)
  have single: "ix_Fields idx \<noteq> [] \<and> set (ix_Fields idx) \<subseteq> fi_JSONName ` set fs"
    if "idx \<in> set (field_index coll f)" "f \<in> set fs" for idx coll f
    using that by (auto simp: field_index_def split: if_splits)
  have m: "set (map fm_Name (cm_Fields meta)) = fi_JSONName ` set fs" "cm_HasSoftDelete meta = del"
    by (auto simp: meta [symmetric] buildCollectionMeta_def i field_meta_of_def)
  have "ix_Fields idx \<noteq> [] \<and> set (ix_Fields idx) \<subseteq> set (map fm_Name (cm_Fields meta))" if "idx \<in> set (cm_Indexes meta)" for idx
    unfolding m(1) using that groups single by (fastforce simp: meta [symmetric] buildCollectionMeta_def i)
  moreover have "list_ex deleted_at_field fs = del" using ok by (simp add: walk_ok_def)
  ultimately show ?thesis
    unfolding i m(2) list_all_iff using names by (auto simp: list_all_iff)
qed

end
