(* ===== verification/Register_Properties.thy ===== *)
theory Register_Properties
  imports Schema_Properties Sample
begin

text \<open>
  Registration against the database: a registered type is found with its table and its indexes, documents
  stay as they are, an index that exists under the same name is not rebuilt although the new definition
  is recorded, and \<open>DropStaleIndexes\<close> removes exactly the recorded indexes nobody declares any more.
\<close>

section \<open>Provisioning a collection\<close>

definition index_names :: "store \<Rightarrow> string set" where
  "index_names st = fst ` set (st_indexes st)"

text \<open>Documents: the tables but for empty ones that appear.\<close>

definition same_rows :: "store \<Rightarrow> store \<Rightarrow> bool" where
  "same_rows st st' \<longleftrightarrow> (\<forall>c. st_tables st' c = st_tables st c \<or> (st_tables st c = None \<and> st_tables st' c = Some []))"

definition keeps_indexes :: "store \<Rightarrow> store \<Rightarrow> bool" where
  "keeps_indexes st st' \<longleftrightarrow> (\<forall>n \<in> index_names st. map_of (st_indexes st') n = map_of (st_indexes st) n) \<and> index_names st \<subseteq> index_names st'"

text \<open>What set-up steps do to the store.\<close>

definition set_up :: "store \<Rightarrow> store \<Rightarrow> bool" where
  "set_up st st' \<longleftrightarrow> same_rows st st' \<and> keeps_indexes st st'"

lemma set_up_refl [simp]: "set_up st st"
  by (simp add: set_up_def same_rows_def keeps_indexes_def)

lemma set_up_trans: "set_up a b \<Longrightarrow> set_up b c \<Longrightarrow> set_up a c"
  unfolding set_up_def same_rows_def keeps_indexes_def by (metis option.distinct(1) subset_trans subsetD)

lemma set_up_recorded [simp]: "set_up st (st'\<lparr>st_recorded := x\<rparr>) = set_up st st'"
  by (simp add: set_up_def same_rows_def keeps_indexes_def index_names_def)

lemma ensure_collection_set_up:
  assumes "be_EnsureCollection c m w = (r, w')"
  shows "set_up (w_store w) (w_store w') \<and> (is_ok r \<longrightarrow> has_table (w_store w') c) \<and> st_recorded (w_store w') = st_recorded (w_store w)"
  using assms fault_store
  by (fastforce simp: be_EnsureCollection_def bindP_def set_up_def same_rows_def keeps_indexes_def index_names_def has_table_def
      split: prod.splits outcome.splits if_splits)

lemma set_up_new_index:
  assumes "n \<notin> index_names st"
  shows "set_up st (st\<lparr>st_indexes := st_indexes st @ [(n, x)]\<rparr>)"
proof -
  have "map_of (st_indexes st @ [(n, x)]) m = map_of (st_indexes st) m" if "m \<in> index_names st" for m
  proof -
    have "map_of (st_indexes st) m \<noteq> None" using that by (simp add: index_names_def map_of_eq_None_iff)
    with that assms show ?thesis by (cases "map_of (st_indexes st) m") (auto simp: map_add_def)
  qed
  then show ?thesis by (auto simp: set_up_def same_rows_def keeps_indexes_def index_names_def)
qed

lemma create_index_set_up:
  assumes "create_index c idx w = (r, w')"
  shows "set_up (w_store w) (w_store w') \<and> (is_ok r \<longrightarrow> ix_Name idx \<in> index_names (w_store w'))
    \<and> st_recorded (w_store w') = st_recorded (w_store w)"
proof -
  obtain q w1 where f: "fault w = (q, w1)" by fastforce
  show ?thesis
  proof (cases "is_ok q \<and> ix_Name idx \<notin> index_names (w_store w1)")
    case True
    with assms f fault_store [OF f] show ?thesis
      by (cases q) (auto simp: create_index_def bindP_def set_up_new_index index_names_def split: option.splits if_splits)
  next
    case False
    with assms f fault_store [OF f] show ?thesis
      by (cases q) (auto simp: create_index_def bindP_def index_names_def)
  qed
qed

lemma ensure_index_set_up:
  assumes "be_EnsureIndex c idx w = (r, w')"
  shows "set_up (w_store w) (w_store w') \<and> (is_ok r \<and> ix_Fields idx \<noteq> [] \<longrightarrow> ix_Name idx \<in> index_names (w_store w')
      \<and> map_of (st_recorded (w_store w')) (c, ix_Name idx) = Some (ix_Fields idx, ix_Unique idx))
    \<and> (\<forall>k. k \<noteq> (c, ix_Name idx) \<longrightarrow> map_of (st_recorded (w_store w')) k = map_of (st_recorded (w_store w)) k)"
proof (cases "ix_Fields idx = []")
  case True
  with assms show ?thesis by (simp add: be_EnsureIndex_def)
next
  case False
  obtain q w1 where c: "create_index c idx w = (q, w1)" by fastforce
  obtain p w2 where f: "fault w1 = (p, w2)" by fastforce
  from False assms c create_index_set_up [OF c] f fault_store [OF f] show ?thesis
    by (cases q; cases p) (auto simp: be_EnsureIndex_def bindP_def recordIndex_def update_conv' index_names_def)
qed

lemma forP_map_err_cases:
  assumes "forP (\<lambda>x. map_err (h x) (f x)) (x # xs) s = (r, t)"
  obtains (stop) e s1 where "f x s = (e, s1)" "t = s1" "\<not> is_ok r"
  | (go) u s1 where "f x s = (Ok u, s1)" "forP (\<lambda>x. map_err (h x) (f x)) xs s1 = (r, t)"
proof -
  obtain q s1 where "f x s = (q, s1)" by fastforce
  with assms that show ?thesis by (cases q) (auto simp: bindP_def map_err_def)
qed

lemma ensure_indexes_set_up:
  "forP (\<lambda>idx. map_err (h idx) (be_EnsureIndex c idx)) idxs w = (r, w') \<Longrightarrow>
   set_up (w_store w) (w_store w')
   \<and> (is_ok r \<longrightarrow> (\<forall>idx \<in> set idxs. ix_Fields idx \<noteq> [] \<longrightarrow> ix_Name idx \<in> index_names (w_store w')
        \<and> (distinct (map ix_Name idxs) \<longrightarrow>
             map_of (st_recorded (w_store w')) (c, ix_Name idx) = Some (ix_Fields idx, ix_Unique idx))))
   \<and> (\<forall>n. n \<notin> ix_Name ` set idxs \<longrightarrow> map_of (st_recorded (w_store w')) (c, n) = map_of (st_recorded (w_store w)) (c, n))"
proof (induction idxs arbitrary: w)
  case (Cons idx idxs)
  from Cons.prems show ?case
  proof (cases rule: forP_map_err_cases)
    case (stop e s1)
    with ensure_index_set_up [OF stop(1)] show ?thesis by auto
  next
    case (go u s1)
    note E = ensure_index_set_up [OF go(1)] and R = Cons.IH [OF go(2)]
    have st: "set_up (w_store w) (w_store w')" using E R set_up_trans by blast
    have "index_names (w_store s1) \<subseteq> index_names (w_store w')" using R by (simp add: set_up_def keeps_indexes_def)
    with E R st show ?thesis by auto
  qed
qed simp

definition fts_frame :: "fts_provider \<Rightarrow> bool" where
  "fts_frame fts \<longleftrightarrow> (\<forall>ensure. fts = Some ensure \<longrightarrow> (\<forall>c fs w r w'. ensure c fs w = (r, w') \<longrightarrow>
     set_up (w_store w) (w_store w') \<and> st_recorded (w_store w') = st_recorded (w_store w)))"

lemma fts_set_up:
  "ensureFTSForCollection fts meta w = (r, w') \<Longrightarrow> fts_frame fts \<Longrightarrow>
   set_up (w_store w) (w_store w') \<and> st_recorded (w_store w') = st_recorded (w_store w)"
  by (cases fts) (auto simp: ensureFTSForCollection_def fts_frame_def Let_def split: if_splits)

lemma provision_set_up:
  assumes "provision fts meta w = (r, w')" "fts_frame fts"
  shows "set_up (w_store w) (w_store w')
    \<and> (is_ok r \<longrightarrow> has_table (w_store w') (cm_Name meta)
        \<and> (\<forall>idx \<in> set (cm_Indexes meta). ix_Fields idx \<noteq> [] \<longrightarrow> ix_Name idx \<in> index_names (w_store w')
           \<and> (distinct (map ix_Name (cm_Indexes meta)) \<longrightarrow>
                map_of (st_recorded (w_store w')) (cm_Name meta, ix_Name idx) = Some (ix_Fields idx, ix_Unique idx))))"
proof -
  obtain q w1 where c: "be_EnsureCollection (cm_Name meta) meta w = (q, w1)" by fastforce
  obtain p w2 where i: "forP (\<lambda>idx. map_err (\<lambda>e. Wrap (''ensure index '' @ ix_Name idx @ '' on '' @ cm_Name meta) [e])
     (be_EnsureIndex (cm_Name meta) idx)) (cm_Indexes meta) w1 = (p, w2)" by fastforce
  obtain l w3 where f: "ensureFTSForCollection fts meta w2 = (l, w3)" by fastforce
  note C = ensure_collection_set_up [OF c] and I = ensure_indexes_set_up [OF i] and F = fts_set_up [OF f assms(2)]
  have t: "has_table st' n" if "has_table st n" "set_up st st'" for st st' n
    using that by (auto simp: has_table_def set_up_def same_rows_def) (metis option.distinct(1))
  have n: "index_names st \<subseteq> index_names st'" if "set_up st st'" for st st'
    using that by (simp add: set_up_def keeps_indexes_def)
  show ?thesis
  proof (cases "is_ok q \<and> is_ok p")
    case True
    with assms(1) c i f have r: "w' = w3" "is_ok r \<longrightarrow> is_ok l"
      by (cases q; cases p; cases l; auto simp: provision_def bindP_def map_err_def)+
    have "set_up (w_store w1) (w_store w3)" "set_up (w_store w) (w_store w3)" using C I F set_up_trans by blast+
    with C I F True t n [OF conjunct1 [OF F]] show ?thesis by (auto simp: r(1))
  next
    case False
    with assms(1) c i have "w' = (if is_ok q then w2 else w1) \<and> \<not> is_ok r"
      by (cases q; cases p) (auto simp: provision_def bindP_def map_err_def)
    with C I set_up_trans show ?thesis by auto
  qed
qed

section \<open>Registration\<close>

definition type_name :: "type_table \<Rightarrow> doc_arg \<Rightarrow> string" where
  "type_name tt a = name_of tt (struct_key (elem_of_ptr (da_Type a)))"

lemma register_one_cases:
  assumes "register_one tt fts a (reg, w) = (r, (reg', w'))" "fts_frame fts"
  shows "set_up (w_store w) (w_store w')
    \<and> (if is_ok r then \<exists>info. AnalyzeStruct tt (elem_of_ptr (da_Type a)) = Ok info \<and> reg' = record_collection tt a info reg
          \<and> provision fts (register_meta tt a info) w = (r, w')
        else reg' = reg)"
proof (cases "AnalyzeStruct tt (elem_of_ptr (da_Type a))")
  case (Ok info)
  obtain q w1 where p: "provision fts (register_meta tt a info) w = (q, w1)" by fastforce
  with assms Ok provision_set_up [OF p assms(2)] show ?thesis
    by (cases "validateEagerTags tt info"; cases q) (auto simp: register_one_def Let_def)
qed (use assms in \<open>auto simp: register_one_def Let_def\<close>)

lemma Register_single: "Register tt fts [a] (reg, w) = (r, (reg', w')) \<Longrightarrow>
    \<exists>q. register_one tt fts a (reg, w) = (q, (reg', w')) \<and> (is_ok q \<longleftrightarrow> is_ok r)"
  by (cases "register_one tt fts a (reg, w)"; cases "fst (register_one tt fts a (reg, w))")
     (auto simp: Register_def bindP_def)

text \<open>C24. \<open>Register\<close> sets a type up and nothing else: whatever it returns, no document and no existing
  index changes; when it returns nil, operations on the type find exactly the collection built from its
  struct and settings, whose table exists and whose indexes all exist by name; when it fails, the type
  is not in the registry because of it.\<close>

theorem register_sets_the_type_up:
  assumes run: "Register tt fts [a] (reg, w) = (r, (reg', w'))" and fts: "fts_frame fts"
    and fresh: "map_of (rg_types reg) (CollectionName (type_name tt a)) = None"
  shows "same_rows (w_store w) (w_store w') \<and> keeps_indexes (w_store w) (w_store w')
    \<and> (if is_ok r then \<exists>info col. AnalyzeStruct tt (elem_of_ptr (da_Type a)) = Ok info
          \<and> collectionForType (env\<lparr>e_reg := reg'\<rparr>) (type_name tt a) = Inr col
          \<and> ci_meta col = register_meta tt a info \<and> ci_zero col = da_Zero a
          \<and> ci_HasValidateTags col = si_HasValidateTags info \<and> ci_UseRevision col = se_UseRevision (getSettings a)
          \<and> has_table (w_store w') (cm_Name (ci_meta col))
          \<and> list_all (\<lambda>idx. ix_Fields idx = [] \<or> ix_Name idx \<in> index_names (w_store w')) (cm_Indexes (ci_meta col))
       else reg' = reg)"
proof -
  obtain q where q: "register_one tt fts a (reg, w) = (q, (reg', w'))" "is_ok q = is_ok r"
    using Register_single [OF run] by blast
  note R = register_one_cases [OF q(1) fts]
  have frame: "same_rows (w_store w) (w_store w')" "keeps_indexes (w_store w) (w_store w')"
    using R by (simp_all add: set_up_def)
  show ?thesis
  proof (cases "is_ok r")
    case True
    with R q(2) obtain info where info: "AnalyzeStruct tt (elem_of_ptr (da_Type a)) = Ok info"
      "reg' = record_collection tt a info reg" "provision fts (register_meta tt a info) w = (q, w')" by auto
    let ?col = "\<lparr>ci_meta = register_meta tt a info, ci_zero = da_Zero a, ci_HasValidateTags = si_HasValidateTags info,
      ci_UseRevision = se_UseRevision (getSettings a)\<rparr>"
    have found: "collectionForType (env\<lparr>e_reg := reg'\<rparr>) (type_name tt a) = Inr ?col"
      using fresh by (auto simp: info(2) collectionForType_def record_collection_def Let_def update_conv' type_name_def
          split: option.split)
    from provision_set_up [OF info(3) fts] True q(2)
    have "has_table (w_store w') (cm_Name (ci_meta ?col))"
      "list_all (\<lambda>idx. ix_Fields idx = [] \<or> ix_Name idx \<in> index_names (w_store w')) (cm_Indexes (ci_meta ?col))"
      by (auto simp: list_all_iff)
    with frame found info(1) True show ?thesis by (fastforce intro: exI [of _ info] exI [of _ ?col])
  next
    case False
    with R q(2) frame show ?thesis by simp
  qed
qed

text \<open>An index that exists under the name of a declared index is never rebuilt. When the fields or the
  uniqueness of a declared index change but its name stays (\<open>den:"index"\<close> becoming \<open>den:"unique"\<close> keeps
  it), \<open>Register\<close> returns nil and records the new definition, while the database keeps the old index.\<close>

theorem changed_index_is_not_rebuilt:
  assumes run: "Register tt fts [a] (reg, w) = (Ok (), (reg', w'))" and fts: "fts_frame fts"
    and info: "AnalyzeStruct tt (elem_of_ptr (da_Type a)) = Ok info"
    and idx: "idx \<in> set (cm_Indexes (register_meta tt a info))" "ix_Fields idx \<noteq> []"
      "distinct (map ix_Name (cm_Indexes (register_meta tt a info)))"
    and old: "map_of (st_indexes (w_store w)) (ix_Name idx) = Some old_index"
  shows "map_of (st_indexes (w_store w')) (ix_Name idx) = Some old_index
    \<and> map_of (st_recorded (w_store w')) (cm_Name (register_meta tt a info), ix_Name idx)
        = Some (ix_Fields idx, ix_Unique idx)"
proof -
  obtain q where q: "register_one tt fts a (reg, w) = (q, (reg', w'))" "is_ok q" using Register_single [OF run] by auto
  from register_one_cases [OF q(1) fts] q(2) info have p: "provision fts (register_meta tt a info) w = (q, w')"
    and k: "keeps_indexes (w_store w) (w_store w')" by (auto simp: set_up_def)
  have "ix_Name idx \<in> index_names (w_store w)" using old by (force simp: index_names_def dest: map_of_SomeD)
  with k old have "map_of (st_indexes (w_store w')) (ix_Name idx) = Some old_index" by (simp add: keeps_indexes_def)
  with provision_set_up [OF p fts] q(2) idx show ?thesis by auto
qed

section \<open>Stale indexes\<close>

definition drops_names :: "string set \<Rightarrow> store \<Rightarrow> store \<Rightarrow> bool" where
  "drops_names N st st' \<longleftrightarrow> st_tables st' = st_tables st
     \<and> st_indexes st' = filter (\<lambda>(n, r). n \<notin> N) (st_indexes st)
     \<and> st_recorded st' = filter (\<lambda>((c, n), r). n \<notin> N) (st_recorded st)"

lemma drops_none [simp]: "drops_names {} st st"
  by (simp add: drops_names_def case_prod_beta)

lemma drops_trans: "drops_names M a b \<Longrightarrow> drops_names N b c \<Longrightarrow> drops_names (M \<union> N) a c"
  by (auto simp: drops_names_def intro!: filter_cong)

lemma DropIndex_ok:
  assumes "be_DropIndex c n w = (Ok (), w')"
  shows "drops_names {n} (w_store w) (w_store w')"
proof -
  obtain q w1 where f: "fault w = (q, w1)" by fastforce
  obtain p w2 where g: "fault (w1\<lparr>w_store := (w_store w1)\<lparr>st_indexes := filter (\<lambda>(m, r). m \<noteq> n) (st_indexes (w_store w1))\<rparr>\<rparr>)
    = (p, w2)" by fastforce
  from assms f g fault_store [OF f] fault_store [OF g] show ?thesis
    by (cases q; cases p) (auto simp: be_DropIndex_def forgetIndex_def bindP_def drops_names_def)
qed

definition dropped_names :: "drop_stale_result \<Rightarrow> string set" where
  "dropped_names res = (ix_Name \<circ> si_index) ` set (dr_Dropped res)"

text \<open>One collection: what is reported as dropped on top of \<open>res\<close> is what is dropped.\<close>

lemma drop_recorded_ok:
  "drop_recorded False meta recs (res, w) = (Ok (), (res', w')) \<Longrightarrow>
   \<exists>N. dropped_names res' = dropped_names res \<union> N \<and> drops_names N (w_store w) (w_store w')
     \<and> N = ix_Name ` set recs - ix_Name ` set (cm_Indexes meta)"
proof (induction recs arbitrary: res w)
  case Nil
  then show ?case by auto
next
  case (Cons rec recs)
  let ?entry = "\<lparr>si_Collection = cm_Name meta, si_index = rec\<rparr>"
  show ?case
  proof (cases "ix_Name rec \<in> ix_Name ` set (cm_Indexes meta)")
    case True
    with Cons.prems have "drop_recorded False meta recs (res\<lparr>dr_Kept := dr_Kept res @ [?entry]\<rparr>, w) = (Ok (), (res', w'))"
      by (simp add: Let_def)
    from Cons.IH [OF this] True show ?thesis by (auto simp: dropped_names_def)
  next
    case False
    obtain q w1 where d: "be_DropIndex (cm_Name meta) (ix_Name rec) w = (q, w1)" by fastforce
    with Cons.prems False have q: "q = Ok ()"
      and r: "drop_recorded False meta recs (res\<lparr>dr_Dropped := dr_Dropped res @ [?entry]\<rparr>, w1) = (Ok (), (res', w'))"
      by (auto simp: Let_def split: outcome.splits)
    from Cons.IH [OF r] obtain N where N: "dropped_names res' = dropped_names (res\<lparr>dr_Dropped := dr_Dropped res @ [?entry]\<rparr>) \<union> N"
      "drops_names N (w_store w1) (w_store w')" "N = ix_Name ` set recs - ix_Name ` set (cm_Indexes meta)" by blast
    have "drops_names ({ix_Name rec} \<union> N) (w_store w) (w_store w')"
      using drops_trans [OF DropIndex_ok [OF d [unfolded q]] N(2)] .
    moreover have "dropped_names res' = dropped_names res \<union> ({ix_Name rec} \<union> N)"
      unfolding N(1) by (auto simp: dropped_names_def)
    moreover have "{ix_Name rec} \<union> N = ix_Name ` set (rec # recs) - ix_Name ` set (cm_Indexes meta)"
      using False N(3) by auto
    ultimately show ?thesis by blast
  qed
qed

lemma drop_recorded_dry:
  "drop_recorded True meta recs (res, w) = (r, (res', w')) \<Longrightarrow> w_store w' = w_store w"
  by (induction recs arbitrary: res) (auto simp: Let_def split: if_splits)

lemma list_recorded:
  assumes "be_ListRecordedIndexes c w = (Ok recs, w')"
  shows "w_store w' = w_store w \<and> ix_Name ` set recs = {n. \<exists>x. ((c, n), x) \<in> set (st_recorded (w_store w))}"
proof -
  let ?f = "\<lambda>((c, n), fs, u). \<lparr>ix_Name = n, ix_Fields = fs, ix_Unique = u\<rparr>"
  let ?rows = "filter (\<lambda>((c', n), r). c' = c) (st_recorded (w_store w))"
  obtain q w1 where f: "fault w = (q, w1)" by fastforce
  from assms f fault_store [OF f] have r: "recs = map ?f (sort_key (\<lambda>((c, n), r). n) ?rows)" "w_store w' = w_store w"
    by (cases q; auto simp: be_ListRecordedIndexes_def bindP_def)+
  have "map ix_Name recs = map (\<lambda>((c, n), r). n) (sort_key (\<lambda>((c, n), r). n) ?rows)" by (auto simp: r(1))
  then have "set (map ix_Name recs) = set (map (\<lambda>((c, n), r). n) (sort_key (\<lambda>((c, n), r). n) ?rows))" by (rule arg_cong)
  then have "ix_Name ` set recs = (\<lambda>((c, n), r). n) ` set ?rows" by (simp only: set_map set_sort)
  also have "\<dots> = {n. \<exists>x. ((c, n), x) \<in> set (st_recorded (w_store w))}" by force
  finally show ?thesis using r(2) by blast
qed

lemma drop_stale_loop:
  "forP (drop_stale_collection False) infos (res, w) = (Ok (), (res', w')) \<Longrightarrow>
   \<exists>N. dropped_names res' = dropped_names res \<union> N \<and> drops_names N (w_store w) (w_store w')
     \<and> (\<forall>info \<in> set infos. \<forall>n x. ((cm_Name (ci_meta info), n), x) \<in> set (st_recorded (w_store w')) \<longrightarrow>
          n \<in> ix_Name ` set (cm_Indexes (ci_meta info)))
     \<and> (\<forall>n \<in> N. \<exists>info \<in> set infos. n \<notin> ix_Name ` set (cm_Indexes (ci_meta info)))"
proof (induction infos arbitrary: res w)
  case Nil
  then show ?case by auto
next
  case (Cons info infos)
  let ?c = "cm_Name (ci_meta info)" and ?E = "ix_Name ` set (cm_Indexes (ci_meta info))"
  obtain q w1 where l: "be_ListRecordedIndexes ?c w = (q, w1)" by fastforce
  with Cons.prems obtain recs where q: "q = Ok recs"
    by (cases q) (auto simp: drop_stale_collection_def bindP_def)
  obtain p res1 w2 where d: "drop_recorded False (ci_meta info) recs (res, w1) = (p, (res1, w2))" by (metis prod_cases3)
  have "drop_stale_collection False info (res, w) = (p, (res1, w2))" using l q d by (simp add: drop_stale_collection_def)
  with Cons.prems have p: "p = Ok ()" and r: "forP (drop_stale_collection False) infos (res1, w2) = (Ok (), (res', w'))"
    by (cases p; simp add: bindP_def)+
  note L = list_recorded [OF l [unfolded q]]
  from drop_recorded_ok [OF d [unfolded p]] obtain M where M': "dropped_names res1 = dropped_names res \<union> M"
    "drops_names M (w_store w1) (w_store w2)" "M = ix_Name ` set recs - ?E" by blast
  have M: "dropped_names res1 = dropped_names res \<union> M" "drops_names M (w_store w) (w_store w2)"
    "M = {n. \<exists>x. ((?c, n), x) \<in> set (st_recorded (w_store w))} - ?E"
    by (fact M'(1), fact M'(2) [unfolded conjunct1 [OF L]], fact M'(3) [unfolded conjunct2 [OF L]])
  from Cons.IH [OF r] obtain N where N: "dropped_names res' = dropped_names res1 \<union> N"
    "drops_names N (w_store w2) (w_store w')"
    "\<forall>info \<in> set infos. \<forall>n x. ((cm_Name (ci_meta info), n), x) \<in> set (st_recorded (w_store w')) \<longrightarrow>
       n \<in> ix_Name ` set (cm_Indexes (ci_meta info))"
    "\<forall>n \<in> N. \<exists>info \<in> set infos. n \<notin> ix_Name ` set (cm_Indexes (ci_meta info))" by blast
  have D: "drops_names (M \<union> N) (w_store w) (w_store w')" using drops_trans [OF M(2) N(2)] .
  have "n \<in> ?E" if "((?c, n), x) \<in> set (st_recorded (w_store w'))" for n x
  proof -
    have "((?c, n), x) \<in> set (st_recorded (w_store w))" "n \<notin> M \<union> N" using that D by (simp_all add: drops_names_def)
    then show ?thesis using M(3) by blast
  qed
  moreover have "\<exists>i \<in> set (info # infos). n \<notin> ix_Name ` set (cm_Indexes (ci_meta i))" if "n \<in> M \<union> N" for n
    using that M(3) N(4) by auto
  moreover have "dropped_names res' = dropped_names res \<union> (M \<union> N)" using M(1) N(1) by blast
  ultimately show ?case using D N(3) by (intro exI [of _ "M \<union> N"]) auto
qed

lemma drop_stale_dry:
  "forP (drop_stale_collection True) infos (res, w) = (r, (res', w')) \<Longrightarrow> w_store w' = w_store w"
proof (induction infos arbitrary: res w)
  case (Cons info infos)
  obtain q w1 where l: "be_ListRecordedIndexes (cm_Name (ci_meta info)) w = (q, w1)" by fastforce
  have w1: "w_store w1 = w_store w"
    using l fault_store by (fastforce simp: be_ListRecordedIndexes_def bindP_def split: prod.splits outcome.splits)
  show ?case
  proof (cases q)
    case (Ok recs)
    obtain p res1 w2 where d: "drop_recorded True (ci_meta info) recs (res, w1) = (p, (res1, w2))" by (metis prod_cases3)
    from Cons.prems Cons.IH l Ok d drop_recorded_dry [OF d] w1 show ?thesis
      by (cases p) (auto simp: drop_stale_collection_def bindP_def)
  qed (use Cons.prems l w1 in \<open>auto simp: drop_stale_collection_def bindP_def\<close>)
qed simp


section \<open>Instances\<close>

text \<open>\<open>Note\<close> embeds \<open>document.Base\<close> and \<open>document.SoftDelete\<close>, refers to itself and nests a struct; the tag
  of its title is an argument.\<close>

definition plain_field :: "string \<Rightarrow> gtype \<Rightarrow> string \<Rightarrow> string \<Rightarrow> string \<Rightarrow> struct_field" where
  "plain_field n t json den val = \<lparr>sf_Name = n, sf_Anonymous = False, sf_Type = t, sf_json = json, sf_den = den, sf_validate = val\<rparr>"

definition embed :: "string \<Rightarrow> string \<Rightarrow> struct_field" where
  "embed n key = \<lparr>sf_Name = n, sf_Anonymous = True, sf_Type = TStruct key, sf_json = [], sf_den = [], sf_validate = []\<rparr>"

definition text_type :: gtype where "text_type = TBasic ''string'' ''string''"

definition note_types :: "string \<Rightarrow> string \<Rightarrow> type_table" where
  "note_types den val =
     [(''app.Note'', \<lparr>st_Name = ''Note'', st_Text = ''app.Note'', st_fields =
         [embed ''Base'' ''document.Base'', embed ''SoftDelete'' ''document.SoftDelete'',
          plain_field ''Title'' text_type ''title'' den val,
          plain_field ''Parent'' (TPtr (TStruct ''app.Note'')) ''parent,omitempty'' [] [],
          plain_field ''Meta'' (TStruct ''app.Meta'') ''meta'' [] []]\<rparr>),
      (''app.Meta'', \<lparr>st_Name = ''Meta'', st_Text = ''app.Meta'', st_fields =
         [plain_field ''Lang'' text_type [] ''index,unique_together:lang'' [], plain_field ''Tags'' (TSlice text_type) ''tags'' [] []]\<rparr>),
      (''document.Base'', \<lparr>st_Name = ''Base'', st_Text = ''document.Base'', st_fields =
         [plain_field ''ID'' text_type ''_id'' [] [], plain_field ''CreatedAt'' (TStruct time_key) ''_created_at'' [] [],
          plain_field ''UpdatedAt'' (TStruct time_key) ''_updated_at'' [] [], plain_field ''Rev'' text_type ''_rev,omitempty'' [] []]\<rparr>),
      (''document.SoftDelete'', \<lparr>st_Name = ''SoftDelete'', st_Text = ''document.SoftDelete'', st_fields =
         [plain_field ''DeletedAt'' (TPtr (TStruct time_key)) ''_deleted_at,omitempty'' ''index'' []]\<rparr>)]"

definition note_arg :: doc_arg where
  "note_arg = \<lparr>da_Type = TPtr (TStruct ''app.Note''), da_Settings = None, da_Trackable = False, da_Zero = note_doc [] [] [] []\<rparr>"

definition ok_info :: "struct_info outcome \<Rightarrow> struct_info" where
  "ok_info r = (case r of Ok i \<Rightarrow> i | _ \<Rightarrow> \<lparr>si_CollectionName = [], si_Fields = [], si_GoType = TStruct [],
     si_HasDeletedAt = False, si_HasValidateTags = False\<rparr>)"

definition note_info :: "string \<Rightarrow> string \<Rightarrow> struct_info" where
  "note_info den val = ok_info (AnalyzeStruct (note_types den val) (TStruct ''app.Note''))"

lemma is_ok_info: "is_ok r \<Longrightarrow> r = Ok (ok_info r)"
  by (cases r) (simp_all add: ok_info_def)

lemma note_analysis:
  "AnalyzeStruct (note_types ''index'' []) (TStruct ''app.Note'') = Ok (note_info ''index'' [])"
  "AnalyzeStruct (note_types ''unique'' []) (TStruct ''app.Note'') = Ok (note_info ''unique'' [])"
  unfolding note_info_def by (rule is_ok_info, code_simp)+

lemma no_fts [simp]: "fts_frame None"
  by (simp add: fts_frame_def)

definition registered :: "world" where
  "registered = snd (snd (Register (note_types ''index'' []) None [note_arg] (empty_registry, initial_world empty_store [])))"

definition title_index :: "bool \<Rightarrow> index_definition" where
  "title_index uniq = \<lparr>ix_Name = ''idx_note_title'', ix_Fields = [''title''], ix_Unique = uniq\<rparr>"

theorem registered_schema_witness:
  "map fi_JSONName (si_Fields (note_info ''index'' []))
     = [''_id'', ''_created_at'', ''_updated_at'', ''_rev'', ''_deleted_at'', ''title'', ''parent'', ''meta'', ''meta.lang'', ''meta.tags'']
   \<and> cm_HasSoftDelete (buildCollectionMeta (note_types ''index'' []) False (note_info ''index'' []))
   \<and> list_all (\<lambda>f. SanitizeFieldName (fi_JSONName f) = fi_JSONName f) (si_Fields (note_info ''index'' []))"
proof -
  have "map fi_JSONName (si_Fields (note_info ''index'' []))
     = [''_id'', ''_created_at'', ''_updated_at'', ''_rev'', ''_deleted_at'', ''title'', ''parent'', ''meta'', ''meta.lang'', ''meta.tags'']"
    by code_simp
  moreover have "list_ex deleted_at_field (si_Fields (note_info ''index'' []))" by code_simp
  ultimately show ?thesis
    using registered_schema_is_well_formed [OF note_analysis(1) refl, of False] by (simp add: list_all_iff)
qed

theorem register_witness:
  "\<exists>col. collectionForType (note_env False True\<lparr>e_reg := fst (snd (Register (note_types ''index'' []) None [note_arg]
        (empty_registry, initial_world empty_store [])))\<rparr>) ''Note'' = Inr col
     \<and> has_table (w_store registered) (cm_Name (ci_meta col)) \<and> \<not> ci_HasValidateTags col"
proof -
  obtain r reg' w' where run: "Register (note_types ''index'' []) None [note_arg] (empty_registry, initial_world empty_store [])
      = (r, (reg', w'))" by (metis prod_cases3)
  have "is_ok (fst (Register (note_types ''index'' []) None [note_arg] (empty_registry, initial_world empty_store [])))"
    by code_simp
  moreover have "map_of (rg_types empty_registry) (CollectionName (type_name (note_types ''index'' []) note_arg)) = None"
    by (simp add: empty_registry_def)
  moreover have "type_name (note_types ''index'' []) note_arg = ''Note''" "elem_of_ptr (da_Type note_arg) = TStruct ''app.Note''"
    by code_simp+
  moreover have "\<not> si_HasValidateTags (note_info ''index'' [])" by code_simp
  ultimately show ?thesis
    using register_sets_the_type_up [OF run no_fts, of "note_env False True"] run note_analysis(1)
    by (auto simp: registered_def)
qed

theorem changed_index_witness:
  "case Register (note_types ''unique'' []) None [note_arg] (empty_registry, registered) of (r, (reg', w')) \<Rightarrow>
     r = Ok () \<and> map_of (st_indexes (w_store w')) ''idx_note_title'' = Some (''note'', [''title''], False)
     \<and> map_of (st_recorded (w_store w')) (''note'', ''idx_note_title'') = Some ([''title''], True)"
proof -
  let ?run = "Register (note_types ''unique'' []) None [note_arg] (empty_registry, registered)"
  let ?meta = "register_meta (note_types ''unique'' []) note_arg (note_info ''unique'' [])"
  obtain r reg' w' where run: "?run = (r, (reg', w'))" by (metis prod_cases3)
  have "is_ok (fst ?run)" by code_simp
  with run have ok: "?run = (Ok (), (reg', w'))" by (cases r) simp_all
  have info: "AnalyzeStruct (note_types ''unique'' []) (elem_of_ptr (da_Type note_arg)) = Ok (note_info ''unique'' [])"
    by (simp add: note_analysis note_arg_def)
  have idx: "title_index True \<in> set (cm_Indexes ?meta)" "distinct (map ix_Name (cm_Indexes ?meta))" "cm_Name ?meta = ''note''"
    by code_simp+
  have old: "map_of (st_indexes (w_store registered)) ''idx_note_title'' = Some (''note'', [''title''], False)" by code_simp
  from changed_index_is_not_rebuilt [OF ok no_fts info idx(1) _ idx(2)] old idx(3) ok show ?thesis
    by (simp add: title_index_def)
qed

definition untagged_run :: "unit outcome \<times> drop_stale_result \<times> world" where
  "untagged_run = DropStaleIndexes (fst (snd (Register (note_types [] []) None [note_arg] (empty_registry, registered)))) [] registered"


end
