(* ===== verification/Track.thy ===== *)
theory Track
  imports Crud
begin

text \<open>
  Change tracking: \<^verbatim>\<open>engine/track.go\<close>. \<open>to_any\<close> is \<open>json.Unmarshal\<close> into \<open>any\<close>: numbers become
  float64 values, here their canonical texts given by \<open>num\<close> (the parse is not in the repository), and
  objects become maps, here lists in key order whose duplicates the last member wins. Encoding is total
  in the model, so its error branches do not arise.
\<close>

definition IsChanged :: "doc \<Rightarrow> bool" where
  "IsChanged d = (case Snapshot d of None \<Rightarrow> False | Some snap \<Rightarrow> snap \<noteq> Document.encode d)"

record field_change =
  fc_Before :: json
  fc_After :: json

definition last_wins :: "(string \<times> json) list \<Rightarrow> (string \<times> json) list" where
  "last_wins ms = sort_key fst (fold (\<lambda>(k, v). AList.update k v) ms [])"

fun to_any :: "(string \<Rightarrow> string) \<Rightarrow> json \<Rightarrow> json" where
  "to_any num (JNum n) = JNum (num n)"
| "to_any num (JArr js) = JArr (map (to_any num) js)"
| "to_any num (JObj ms) = JObj (last_wins (map (\<lambda>(k, v). (k, to_any num v)) ms))"
| "to_any num j = j"

definition decode_map :: "(string \<Rightarrow> string) \<Rightarrow> json \<Rightarrow> gerr + (string \<times> json) list" where
  "decode_map num j = (case to_any num j of JObj ms \<Rightarrow> Inr ms | JNull \<Rightarrow> Inr [] | _ \<Rightarrow> Inl mismatch)"

definition encodeToMap :: "(string \<Rightarrow> string) \<Rightarrow> doc \<Rightarrow> gerr + (string \<times> json) list" where
  "encodeToMap num d = (case decode_map num (Document.encode d) of
      Inl e \<Rightarrow> Inl (Wrap ''decode for map conversion'' [e]) | Inr m \<Rightarrow> Inr m)"

text \<open>A missing key reads as nil.\<close>

definition any_at :: "(string \<times> json) list \<Rightarrow> string \<Rightarrow> json" where
  "any_at m k = (case map_of m k of None \<Rightarrow> JNull | Some v \<Rightarrow> v)"

definition changed_fields :: "(string \<times> json) list \<Rightarrow> (string \<times> json) list \<Rightarrow> (string \<times> field_change) list" where
  "changed_fields oldMap currentMap =
     map (\<lambda>(k, cv). (k, \<lparr>fc_Before = any_at oldMap k, fc_After = cv\<rparr>))
       (filter (\<lambda>(k, cv). map_of oldMap k \<noteq> Some cv) currentMap)
     @ map (\<lambda>(k, ov). (k, \<lparr>fc_Before = ov, fc_After = JNull\<rparr>))
         (filter (\<lambda>(k, ov). map_of currentMap k = None) oldMap)"

definition GetChanges :: "(string \<Rightarrow> string) \<Rightarrow> doc \<Rightarrow> gerr + (string \<times> field_change) list option" where
  "GetChanges num d = (case Snapshot d of
      None \<Rightarrow> Inr None
    | Some snap \<Rightarrow> (case decode_map num snap of
          Inl e \<Rightarrow> Inl (Wrap ''decode snapshot'' [e])
        | Inr oldMap \<Rightarrow> (case encodeToMap num d of
            Inl e \<Rightarrow> Inl e
          | Inr currentMap \<Rightarrow>
              (let changes = changed_fields oldMap currentMap
               in Inr (if changes = [] then None else Some changes)))))"

definition Revert :: "doc \<Rightarrow> gerr option \<times> doc" where
  "Revert d = (case Snapshot d of
      None \<Rightarrow> (Some (Sent ErrNoSnapshot), d)
    | Some snap \<Rightarrow> decodeWithSnapshot snap (zero_doc d))"

end
