(* ===== verification/Track_Properties.thy ===== *)
theory Track_Properties
  imports Track Select_Properties
begin

text \<open>
  Change tracking. What \<open>GetChanges\<close> reports is the pointwise difference of the two documents as
  maps of JSON values; and \<open>Save\<close>, \<open>FindByID\<close>, \<open>IsChanged\<close> and \<open>Revert\<close> are composed. The second
  section also has \<open>jsonb_text\<close>, the member order PostgreSQL gives to a stored document.
\<close>

section \<open>The reported changes\<close>

lemma map_of_fold_update:
  "map_of (fold (\<lambda>(k, v). AList.update k v) ms acc) k
     = (case map_of (rev ms) k of None \<Rightarrow> map_of acc k | Some v \<Rightarrow> Some v)"
proof (induction ms arbitrary: acc)
  case (Cons m ms)
  then show ?case
    by (cases m) (auto simp: update_conv' map_add_def split: option.splits)
qed simp

lemma distinct_fold_update:
  "distinct (map fst acc) \<Longrightarrow> distinct (map fst (fold (\<lambda>(k, v). AList.update k v) ms acc))"
  by (induction ms arbitrary: acc) (auto simp: distinct_update)

lemma map_of_permuted:
  "distinct (map fst xs) \<Longrightarrow> set ys = set xs \<Longrightarrow> distinct (map fst ys) \<Longrightarrow> map_of ys = map_of xs"
  by (simp add: map_of_inject_set)

lemma map_of_sort_key:
  "distinct (map fst xs) \<Longrightarrow> map_of (sort_key f xs) = map_of xs"
  by (rule map_of_permuted) (auto simp: distinct_map distinct_sort inj_on_def)

lemma distinct_last_wins: "distinct (map fst (last_wins ms))"
  using distinct_fold_update [of "[]" ms] by (auto simp: last_wins_def distinct_map distinct_sort)

lemma map_of_last_wins: "map_of (last_wins ms) k = map_of (rev ms) k"
  using map_of_sort_key [OF distinct_fold_update [of "[]" ms], of fst] map_of_fold_update [of ms "[]" k]
  by (simp add: last_wins_def split: option.splits)

lemma map_of_distinct_rev: "distinct (map fst ms) \<Longrightarrow> map_of (rev ms) = map_of ms"
  by (rule map_of_permuted) (auto simp: rev_map [symmetric])

text \<open>What a document's JSON holds under a name, read as \<open>any\<close>.\<close>

definition any_of :: "(string \<Rightarrow> string) \<Rightarrow> (string \<times> json) list \<Rightarrow> string \<Rightarrow> json option" where
  "any_of num ms k = map_option (to_any num) (map_of ms k)"

lemma decode_map_obj:
  assumes "distinct (map fst ms)"
  obtains m where "decode_map num (JObj ms) = Inr m" "distinct (map fst m)" "\<And>k. map_of m k = any_of num ms k"
proof
  let ?m = "last_wins (map (\<lambda>(k, v). (k, to_any num v)) ms)"
  show "decode_map num (JObj ms) = Inr ?m" by (simp add: decode_map_def)
  show "distinct (map fst ?m)" by (rule distinct_last_wins)
  have "distinct (map fst (map (\<lambda>(k, v). (k, to_any num v)) ms))"
    using assms by (simp add: comp_def split_def)
  then show "map_of ?m k = any_of num ms k" for k
    by (simp add: map_of_last_wins map_of_distinct_rev any_of_def map_of_map)
qed

lemma map_of_changed_fields:
  assumes "distinct (map fst old)" "distinct (map fst cur)"
  shows "map_of (changed_fields old cur) k =
      (if map_of old k = map_of cur k then None
       else Some \<lparr>fc_Before = any_at old k, fc_After = any_at cur k\<rparr>)"
    and "distinct (map fst (changed_fields old cur))"
proof -
  have filt: "map_of (filter (\<lambda>(k, v). P k v) xs) k
      = (case map_of xs k of None \<Rightarrow> None | Some v \<Rightarrow> if P k v then Some v else None)"
    if "distinct (map fst xs)" for P :: "string \<Rightarrow> json \<Rightarrow> bool" and xs k
    using that by (induction xs) (auto split: option.splits dest: map_of_SomeD image_eqI [of _ fst "(_, _)"] simp: map_of_eq_None_iff)
  have m: "map_of (map (\<lambda>(k, v). (k, h k v)) xs) k = map_option (h k) (map_of xs k)"
    for h :: "string \<Rightarrow> json \<Rightarrow> field_change" and xs k
    by (induction xs) auto
  show "map_of (changed_fields old cur) k =
      (if map_of old k = map_of cur k then None
       else Some \<lparr>fc_Before = any_at old k, fc_After = any_at cur k\<rparr>)"
    unfolding changed_fields_def map_of_append map_add_def m filt [OF assms(1)] filt [OF assms(2)]
    by (auto simp: any_at_def split: option.splits)
  have "distinct (map fst (filter (\<lambda>(k, v). P k v) xs))" if "distinct (map fst xs)"
    for P :: "string \<Rightarrow> json \<Rightarrow> bool" and xs
    using that by (simp add: distinct_map_filter)
  with assms show "distinct (map fst (changed_fields old cur))"
    by (auto simp: changed_fields_def comp_def split_def map_of_eq_None_iff distinct_map_filter intro: rev_image_eqI)
qed

lemma names_enc_fields: "distinct (map fst fs) \<Longrightarrow> distinct (map fst (enc_fields fs))"
  by (simp add: enc_fields_def comp_def split_def distinct_map_filter)

lemma GetChanges_difference:
  fixes num :: "string \<Rightarrow> string"
  assumes snap: "Snapshot d = Some (JObj ms)" "distinct (map fst ms)" and names: "distinct (map fst (doc_fields d))"
  defines "old \<equiv> any_of num ms" and "cur \<equiv> any_of num (enc_fields (doc_fields d))"
  shows "\<exists>cs. GetChanges num d = Inr (if cs = [] then None else Some cs) \<and> distinct (map fst cs)
    \<and> map_of cs = (\<lambda>k. if old k = cur k then None
         else Some \<lparr>fc_Before = (case old k of None \<Rightarrow> JNull | Some v \<Rightarrow> v),
                    fc_After = (case cur k of None \<Rightarrow> JNull | Some v \<Rightarrow> v)\<rparr>)
    \<and> (\<not> IsChanged d \<longrightarrow> cs = [])"
proof -
  obtain om where o: "decode_map num (JObj ms) = Inr om" "distinct (map fst om)" "\<And>k. map_of om k = old k"
    using decode_map_obj [OF snap(2)] unfolding old_def by metis
  obtain cm where c: "decode_map num (Document.encode d) = Inr cm" "distinct (map fst cm)" "\<And>k. map_of cm k = cur k"
    using decode_map_obj [OF names_enc_fields [OF names]] unfolding cur_def Document.encode_def by metis
  let ?cs = "changed_fields om cm"
  note C = map_of_changed_fields [OF o(2) c(2)]
  have run: "GetChanges num d = Inr (if ?cs = [] then None else Some ?cs)"
    using o(1) c(1) by (simp add: GetChanges_def snap encodeToMap_def Let_def)
  have same: "?cs = []" if "\<not> IsChanged d"
  proof -
    from that have "JObj ms = Document.encode d" by (simp add: IsChanged_def snap)
    with o(1) c(1) have "om = cm" by simp
    with C(1) have "map_of ?cs = Map.empty" by (simp add: fun_eq_iff)
    then show ?thesis by simp
  qed
  have "map_of ?cs = (\<lambda>k. if old k = cur k then None
         else Some \<lparr>fc_Before = (case old k of None \<Rightarrow> JNull | Some v \<Rightarrow> v),
                    fc_After = (case cur k of None \<Rightarrow> JNull | Some v \<Rightarrow> v)\<rparr>)"
    by (simp add: C(1) any_at_def o(3) c(3) fun_eq_iff)
  with run C(2) same show ?thesis by blast
qed

text \<open>What \<open>GetChanges\<close> reports on a document with a snapshot: it never fails; it lists a top-level
  JSON field exactly if the value in the snapshot and the value the document encodes to differ as
  decoded values (a field that is in one only counts as different), each once, with the old and the
  new value, nil for the missing one; it reports nothing when no field differs, in particular when
  \<open>IsChanged\<close> is false.\<close>

theorem changes_are_the_difference:
  assumes snap: "Snapshot d = Some (JObj ms)" "distinct (map fst ms)" and names: "distinct (map fst (doc_fields d))"
  shows "\<exists>cs. GetChanges num d = Inr (if cs = [] then None else Some cs) \<and> distinct (map fst cs)
    \<and> map_of cs = (\<lambda>k. if any_of num ms k = any_of num (enc_fields (doc_fields d)) k then None
         else Some \<lparr>fc_Before = (case any_of num ms k of None \<Rightarrow> JNull | Some v \<Rightarrow> v),
                    fc_After = (case any_of num (enc_fields (doc_fields d)) k of None \<Rightarrow> JNull | Some v \<Rightarrow> v)\<rparr>)
    \<and> (\<not> IsChanged d \<longrightarrow> cs = [])"
  by (rule GetChanges_difference [OF assms])


section \<open>The member order of jsonb\<close>

lemma set_in_map:
  "distinct (map fst fs) \<Longrightarrow> set_in k w fs = map (\<lambda>(n, oe, v). (n, oe, if n = k then w else v)) fs"
proof (induction fs)
  case (Cons f fs)
  have "map (\<lambda>(n, oe, v). (n, oe, if n = k then w else v)) fs = fs" if "k \<notin> fst ` set fs"
    by (rule map_idI) (use that in force)
  with Cons show ?case by (cases f) auto
qed simp

definition taken :: "(string \<times> json) list \<Rightarrow> doc \<Rightarrow> doc" where
  "taken ms d = Doc (doc_type d) (map (\<lambda>(n, oe, v). (n, oe, case map_of ms n of None \<Rightarrow> v
       | Some j \<Rightarrow> (case dec_field v j of Decoded w \<Rightarrow> w | _ \<Rightarrow> v))) (doc_fields d)) (doc_tracked d)"

lemma dec_members_taken:
  assumes "distinct (map fst ms)" "distinct (map fst (doc_fields d))"
    and "\<And>k j v. (k, j) \<in> set ms \<Longrightarrow> field_of d k = Some v \<Longrightarrow> \<exists>w. dec_field v j = Decoded w"
  shows "dec_members ms None d = (None, taken ms d)"
  using assms
proof (induction ms arbitrary: d)
  case Nil
  then show ?case by (cases d) (simp add: taken_def split_def)
next
  case (Cons m ms)
  obtain k j where m: "m = (k, j)" by fastforce
  have new: "map_of ms k = None" using Cons.prems(1) by (simp add: m map_of_eq_None_iff)
  show ?case
  proof (cases "field_of d k")
    case None
    then have "k \<notin> fst ` set (doc_fields d)" by (simp add: field_of_def map_of_eq_None_iff)
    then have "taken (m # ms) d = taken ms d" by (force simp: taken_def m)
    moreover have "dec_members ms None d = (None, taken ms d)"
      by (rule Cons.IH) (use Cons.prems in \<open>auto simp: m\<close>)
    ultimately show ?thesis by (simp add: m None)
  next
    case (Some v)
    with Cons.prems(3) [of k j v] obtain w where w: "dec_field v j = Decoded w" by (auto simp: m)
    have "dec_members ms None (set_field k w d) = (None, taken ms (set_field k w d))"
    proof (rule Cons.IH)
      fix k' j' v'
      assume new': "(k', j') \<in> set ms" "field_of (set_field k w d) k' = Some v'"
      then have "k' \<noteq> k" using Cons.prems(1) by (force simp: m)
      with new' Cons.prems(3) [of k' j' v'] show "\<exists>w. dec_field v' j' = Decoded w"
        by (simp add: field_of_set_field)
    qed (use Cons.prems in auto)
    moreover have "taken ms (set_field k w d) = taken (m # ms) d"
    proof -
      have "v' = v" if "(k, oe, v') \<in> set (doc_fields d)" for oe v'
        using Cons.prems(2) that Some by (auto simp: field_of_def)
      then show ?thesis
        using Cons.prems(2) w new by (auto simp: taken_def set_in_map m)
    qed
    ultimately show ?thesis by (simp add: m Some w)
  qed
qed

lemma decode_permuted:
  assumes wf: "wf_doc d" and ms: "set ms = set (enc_fields (doc_fields d))" "distinct (map fst ms)"
  shows "decode_into (JObj ms) (zero_doc d) = decode_into (Document.encode d) (zero_doc d)"
proof -
  let ?es = "enc_fields (doc_fields d)"
  have names: "distinct (map fst (doc_fields d))" using wf by (simp add: wf_doc_def)
  have zn: "distinct (map fst (doc_fields (zero_doc d)))"
    using names by (simp add: zero_doc_def comp_def split_def)
  have dec: "\<exists>w. dec_field v j = Decoded w" if "(k, j) \<in> set ?es" "field_of (zero_doc d) k = Some v" for k j v
  proof -
    from that(1) obtain oe u where u: "(k, oe, u) \<in> set (doc_fields d)" "j = enc_field u"
      by (auto simp: enc_fields_def)
    have "(k, oe, zero_fval u) \<in> set (doc_fields (zero_doc d))" using u(1) by (force simp: zero_doc_def)
    with that(2) zn have "v = zero_fval u" by (auto simp: field_of_def)
    moreover have "wf_fval oe u" using wf u(1) by (auto simp: wf_doc_def list_all_iff)
    ultimately show ?thesis using dec_field_enc u(2) by blast
  qed
  have "dec_members ms None (zero_doc d) = (None, taken ms (zero_doc d))"
    by (rule dec_members_taken [OF ms(2) zn]) (use dec ms(1) in auto)
  moreover have "dec_members ?es None (zero_doc d) = (None, taken ?es (zero_doc d))"
    by (rule dec_members_taken [OF names_enc_fields [OF names] zn dec])
  moreover have "map_of ms = map_of ?es" by (rule map_of_permuted [OF names_enc_fields [OF names] ms])
  ultimately show ?thesis by (simp add: Document.encode_def taken_def)
qed

text \<open>Members by the length of their name, then by the name.\<close>

fun jsonb_text :: "json \<Rightarrow> json" where
  "jsonb_text (JObj ms) = JObj (sort_key (\<lambda>m. length (fst m)) (sort_key fst ms))"
| "jsonb_text j = j"

lemma jsonb_norm_ok:
  assumes "e_norm env = jsonb_text"
  shows "norm_ok env"
proof -
  have "json_extract (jsonb_text (Document.encode d)) f = json_extract (Document.encode d) f
    \<and> decode_into (jsonb_text (Document.encode d)) (zero_doc d) = decode_into (Document.encode d) (zero_doc d)"
    if wf: "wf_doc d" for d f
  proof -
    let ?es = "enc_fields (doc_fields d)"
    let ?s = "sort_key (\<lambda>m. length (fst m)) (sort_key fst ?es)"
    have dist: "distinct (map fst ?es)" using wf by (simp add: wf_doc_def names_enc_fields)
    then have s: "set ?s = set ?es" "distinct (map fst ?s)"
      by (auto simp: distinct_map distinct_sort inj_on_def)
    have "map_of ?s = map_of ?es" by (rule map_of_permuted [OF dist s])
    then have "json_extract (JObj ?s) f = json_extract (JObj ?es) f"
      by (cases "split_on CHR ''.'' (SanitizeFieldName f)") (simp_all add: json_extract_def)
    with decode_permuted [OF wf s] show ?thesis by (simp add: Document.encode_def)
  qed
  then show ?thesis by (simp add: norm_ok_def assms)
qed


section \<open>Save, load, change, revert\<close>

lemma zero_doc_unload [simp]: "zero_doc (unload_doc d) = zero_doc d"
  by (simp add: zero_doc_def unload_doc_def unload_fields_def comp_def split_def option.map_comp)

lemma zero_capture [simp]: "zero_doc (captureSnapshot j d) = zero_doc d"
  by (cases "doc_tracked d") (simp_all add: zero_doc_def captureSnapshot_def)

lemma saved_is_unchanged:
  assumes "d' = captureSnapshot (Document.encode d1) d1"
  shows "\<not> IsChanged d'"
  using assms by (cases "doc_tracked d1") (auto simp: IsChanged_def Snapshot_def captureSnapshot_def Document.encode_def)

text \<open>C27. Change tracking across storage, for a tracked type. Right after \<open>Save\<close> the document counts
  as unchanged and has no changes. \<open>FindByID\<close> then gives a document that encodes to the same JSON,
  and whatever is done to its fields in memory, \<open>Revert\<close> succeeds and gives back exactly the loaded
  document. The loaded document counts as unchanged exactly if the database returns the stored bytes
  as they were written: a database that normalises them makes \<open>IsChanged\<close> true at once.\<close>

theorem tracking_across_storage:
  assumes run: "Save env s opts (d, w) = (Ok u, (d', w'))" and hooks: "no_hooks env"
    and rule: "linkRule (applyCRUDOpts opts) \<noteq> LinkWrite" and id: "field_of d FieldID = Some (FStr x)"
    and col: "collectionForType env (doc_type d) = Inr col" "ci_zero col = zero_doc d'"
    and db: "select_ok env" "norm_ok env" "table_ok (w_store w) (col_name col)" "calm w'"
    and wf: "wf_doc d'" and opts: "suppressFetchLinks (applyCRUDOpts opts2)" and tracked: "doc_tracked d' \<noteq> None"
  shows "\<not> IsChanged d' \<and> GetChanges num d' = Inr None
    \<and> (\<exists>f. FindByID env (doc_type d) s2 (getID d') opts2 w' = (Ok f, w') \<and> Document.encode f = Document.encode d'
        \<and> (\<forall>m. Snapshot m = Snapshot f \<and> zero_doc m = zero_doc f \<longrightarrow> Revert m = (None, f))
        \<and> (IsChanged f \<longleftrightarrow> e_norm env (Document.encode d') \<noteq> Document.encode d'))"
proof -
  let ?j = "e_norm env (Document.encode d')"
  let ?f = "captureSnapshot ?j (unload_doc d')"
  from Save_Ok_stored [OF run no_hooks_ok [OF hooks] rule] hooks col(1) id
  obtain d1 where d1: "d' = captureSnapshot (Document.encode d1) d1" by (metis sum.inject(2))
  have un: "\<not> IsChanged d'" by (rule saved_is_unchanged [OF d1])
  have "Snapshot d' = Some (JObj (enc_fields (doc_fields d')))"
    using d1 tracked by (auto simp: Snapshot_def captureSnapshot_def Document.encode_def split: option.splits)
  moreover have names: "distinct (map fst (doc_fields d'))" using wf by (simp add: wf_doc_def)
  ultimately have none: "GetChanges num d' = Inr None"
    using GetChanges_difference [of d', OF _ names_enc_fields [OF names] names] un by auto
  have found: "FindByID env (doc_type d) s2 (getID d') opts2 w' = (Ok ?f, w')"
    by (rule saved_document_found [OF run hooks rule id col db wf opts])
  have snap: "Snapshot ?f = Some ?j" using tracked by (simp add: Snapshot_capture unload_doc_def)
  have enc: "Document.encode ?f = Document.encode d'" by (simp add: encode_unload)
  have "decode_into ?j (zero_doc d') = (None, unload_doc d')"
    using db(2) wf decode_encode [OF wf] by (simp add: norm_ok_def)
  then have "Revert m = (None, ?f)" if "Snapshot m = Snapshot ?f" "zero_doc m = zero_doc ?f" for m
    using that by (simp add: Revert_def snap decodeWithSnapshot_def)
  moreover have "IsChanged ?f \<longleftrightarrow> ?j \<noteq> Document.encode d'" using enc snap by (simp add: IsChanged_def)
  ultimately show ?thesis using un none found enc by blast
qed

section \<open>Instances\<close>

definition note_pg :: env where
  "note_pg = (note_db True True)\<lparr>e_norm := jsonb_text\<rparr>"

lemma note_pg_simps [simp]:
  "no_hooks note_pg" "select_ok note_pg" "norm_ok note_pg" "e_norm note_pg = jsonb_text"
  "collectionForType note_pg ''Note'' = Inr (note_collection True True)"
  using note_db_simps(1,3,5) [of True True]
  by (simp_all add: note_pg_def no_hooks_def select_ok_def collectionForType_def jsonb_norm_ok)

definition pg_world :: world where
  "pg_world = note_world [note_doc ''k'' ''r1'' ''a'' [], note_doc ''l'' ''r2'' ''b'' []]"

lemma pg_samples:
  "case Save note_pg ScopeDB [] (note_doc ''k'' ''r1'' ''c'' [], pg_world) of
     (r, (d', w')) \<Rightarrow> r = Ok () \<and> calm w' \<and> wf_doc d' \<and> zero_doc d' = ci_zero (note_collection True True)
       \<and> getID d' = ''k'' \<and> doc_tracked d' \<noteq> None \<and> jsonb_text (Document.encode d') \<noteq> Document.encode d'"
  "table_ok (w_store pg_world) ''note''"
  by code_simp+

theorem tracking_across_storage_witness:
  "case Save note_pg ScopeDB [] (note_doc ''k'' ''r1'' ''c'' [], pg_world) of
     (r, (d', w')) \<Rightarrow> \<not> IsChanged d' \<and> (\<exists>f. FindByID note_pg ''Note'' ScopeTx ''k'' [WithoutFetchLinks] w' = (Ok f, w')
        \<and> Document.encode f = Document.encode d' \<and> IsChanged f)"
proof -
  obtain r d' w' where run: "Save note_pg ScopeDB [] (note_doc ''k'' ''r1'' ''c'' [], pg_world) = (r, (d', w'))"
    by (metis prod_cases3)
  with pg_samples(1) have ok: "r = Ok ()" "calm w'" "wf_doc d'" "zero_doc d' = ci_zero (note_collection True True)"
    "getID d' = ''k''" "doc_tracked d' \<noteq> None" "jsonb_text (Document.encode d') \<noteq> Document.encode d'" by simp_all
  have idty: "field_of (note_doc ''k'' ''r1'' ''c'' []) FieldID = Some (FStr ''k'')"
    "doc_type (note_doc ''k'' ''r1'' ''c'' []) = ''Note''" "linkRule (applyCRUDOpts []) \<noteq> LinkWrite"
    "col_name (note_collection True True) = ''note''"
    by code_simp+
  from tracking_across_storage [OF run [unfolded ok(1)], of "''k''" "note_collection True True" "[WithoutFetchLinks]" "\<lambda>n. n" ScopeTx]
    ok pg_samples(2) idty run
  show ?thesis by (auto simp del: note_zero)
qed

definition edited_note :: doc where
  "edited_note = (case note_doc ''k'' ''r1'' ''after'' ''z'' of
     Doc ty fs t \<Rightarrow> Doc ty fs (Some (Some (Document.encode (note_doc ''k'' ''r1'' ''before'' [])))))"

theorem changes_witness:
  "\<exists>cs. GetChanges (\<lambda>n. n) edited_note = Inr (Some cs)
     \<and> map_of cs ''title'' = Some \<lparr>fc_Before = JStr ''before'', fc_After = JStr ''after''\<rparr> \<and> map_of cs ''_id'' = None"
proof -
  let ?ms = "enc_fields (doc_fields (note_doc ''k'' ''r1'' ''before'' []))"
  have s: "Snapshot edited_note = Some (JObj ?ms)" by code_simp
  have "distinct (map fst ?ms)" "distinct (map fst (doc_fields edited_note))" by code_simp+
  from changes_are_the_difference [OF s this, of "\<lambda>n. n"]
  obtain cs where cs: "GetChanges (\<lambda>n. n) edited_note = Inr (if cs = [] then None else Some cs)"
    "map_of cs = (\<lambda>k. if any_of (\<lambda>n. n) ?ms k = any_of (\<lambda>n. n) (enc_fields (doc_fields edited_note)) k then None
         else Some \<lparr>fc_Before = (case any_of (\<lambda>n. n) ?ms k of None \<Rightarrow> JNull | Some v \<Rightarrow> v),
                    fc_After = (case any_of (\<lambda>n. n) (enc_fields (doc_fields edited_note)) k of None \<Rightarrow> JNull | Some v \<Rightarrow> v)\<rparr>)"
    by blast
  have "map_of cs ''title'' = Some \<lparr>fc_Before = JStr ''before'', fc_After = JStr ''after''\<rparr> \<and> map_of cs ''_id'' = None"
    if "any_of (\<lambda>n. n) ?ms ''title'' = Some (JStr ''before'')" "any_of (\<lambda>n. n) ?ms ''_id'' = Some (JStr ''k'')"
    "any_of (\<lambda>n. n) (enc_fields (doc_fields edited_note)) ''title'' = Some (JStr ''after'')"
    "any_of (\<lambda>n. n) (enc_fields (doc_fields edited_note)) ''_id'' = Some (JStr ''k'')"
    unfolding cs(2) using that by simp
  moreover have "any_of (\<lambda>n. n) ?ms ''title'' = Some (JStr ''before'')" "any_of (\<lambda>n. n) ?ms ''_id'' = Some (JStr ''k'')"
    "any_of (\<lambda>n. n) (enc_fields (doc_fields edited_note)) ''title'' = Some (JStr ''after'')"
    "any_of (\<lambda>n. n) (enc_fields (doc_fields edited_note)) ''_id'' = Some (JStr ''k'')"
    by code_simp+
  ultimately have m: "map_of cs ''title'' = Some \<lparr>fc_Before = JStr ''before'', fc_After = JStr ''after''\<rparr>
      \<and> map_of cs ''_id'' = None"
    by blast
  then have "cs \<noteq> []" by (cases cs) auto
  with cs(1) m show ?thesis by auto
qed

end
