(* ===== verification/Hydration_Properties.thy ===== *)
theory Hydration_Properties
  imports Track_Properties
begin

text \<open>
  Link hydration. \<open>hydrate_doc\<close> is the reference: each link of the selected fields is resolved on its
  own by \<open>resolveSingleLink\<close>, with one Get. The batched resolver asks
  one IN-query per field for all documents at once and fills the slots from its rows; when it returns
  nil it has computed exactly the reference, and when it reports a dangling link there is one.
\<close>

section \<open>One link at a time\<close>

definition hydrate_link :: "env \<Rightarrow> world \<Rightarrow> string \<Rightarrow> link \<Rightarrow> link" where
  "hydrate_link env w ty l = fst (snd (resolveSingleLink env ty (l, w)))"

fun hydrate_val :: "env \<Rightarrow> world \<Rightarrow> fval \<Rightarrow> fval" where
  "hydrate_val env w (FLink ty e l) = FLink ty e (hydrate_link env w ty l)"
| "hydrate_val env w (FLinks ty e ls) = FLinks ty e (map (hydrate_link env w ty) ls)"
| "hydrate_val env w v = v"

definition hydrate_names :: "env \<Rightarrow> world \<Rightarrow> string set \<Rightarrow> doc \<Rightarrow> doc" where
  "hydrate_names env w N d = Doc (doc_type d)
     (map (\<lambda>(n, oe, v). (n, oe, if n \<in> N then hydrate_val env w v else v)) (doc_fields d)) (doc_tracked d)"

definition selected_names :: "fetch_mode \<Rightarrow> doc \<Rightarrow> string list" where
  "selected_names mode d = map fst (filter (field_selected mode) (getLinkFields d))"

definition hydrate_doc :: "env \<Rightarrow> world \<Rightarrow> fetch_mode \<Rightarrow> doc \<Rightarrow> doc" where
  "hydrate_doc env w mode d = hydrate_names env w (set (selected_names mode d)) d"

text \<open>No unresolved link is left in a field.\<close>

definition resolved_field :: "doc \<Rightarrow> string \<Rightarrow> bool" where
  "resolved_field d n \<longleftrightarrow> field_slots (field_of d n) = []"

text \<open>Documents of one struct type.\<close>

definition same_struct :: "doc list \<Rightarrow> bool" where
  "same_struct docs \<longleftrightarrow> list_all (\<lambda>d. distinct (map fst (doc_fields d)) \<and> getLinkFields d = getLinkFields (hd docs)) docs"

lemma field_of_hydrate_names:
  "field_of (hydrate_names env w N d) n = map_option (\<lambda>v. if n \<in> N then hydrate_val env w v else v) (field_of d n)"
proof -
  have "map_of (map (\<lambda>(n, oe, v). (n, oe, if n \<in> N then hydrate_val env w v else v)) fs) n
      = map_option (\<lambda>(oe, v). (oe, if n \<in> N then hydrate_val env w v else v)) (map_of fs n)"
    for fs :: "(string \<times> bool \<times> fval) list"
    by (induction fs) auto
  then show ?thesis
    by (simp add: field_of_def hydrate_names_def option.map_comp comp_def split_def)
qed

lemma names_hydrate [simp]: "map fst (doc_fields (hydrate_names env w N d)) = map fst (doc_fields d)"
  by (simp add: hydrate_names_def comp_def split_def)

lemma link_field_hydrate: "link_field (n, oe, hydrate_val env w v) = link_field (n, oe, v)"
  by (cases v) simp_all

lemma links_hydrate [simp]: "getLinkFields (hydrate_names env w N d) = getLinkFields d"
  by (auto simp: getLinkFields_def hydrate_names_def comp_def link_field_hydrate
      intro!: arg_cong [where f = concat] map_cong)

lemma hydrate_names_union:
  "n \<notin> N \<Longrightarrow> hydrate_names env w N (hydrate_names env w {n} d) = hydrate_names env w (insert n N) d"
  by (auto simp: hydrate_names_def)

lemma hydrate_names_empty [simp]: "hydrate_names env w {} d = d"
  by (cases d) (simp add: hydrate_names_def case_prod_unfold)

section \<open>The rows of the IN-query\<close>

lemma decode_targets_calm:
  assumes "calm w" "decode_targets col ids rs w = (r, ts, w')"
  shows "w' = w \<and> (\<forall>(i, t) \<in> set ts. \<exists>j. (i, j) \<in> set rs \<and> decodeWithSnapshot j (ci_zero col) = (None, t))
    \<and> (r = Ok () \<longrightarrow> fst ` set ts = fst ` set rs \<inter> set ids) \<and> (\<forall>c i. r \<noteq> Err (DanglingLink c i))"
  using assms
proof (induction rs arbitrary: r ts w')
  case (Cons x rs)
  obtain i j where x: "x = (i, j)" by fastforce
  obtain r1 ts1 w1 where run: "decode_targets col ids rs w = (r1, ts1, w1)" by (metis prod_cases3)
  note IH = Cons.IH [OF Cons.prems(1) run]
  show ?case
  proof (cases "i \<in> set ids")
    case False
    with Cons.prems run x have "r = r1" "ts = ts1" "w' = w1" by simp_all
    with IH False x show ?thesis by simp fastforce
  next
    case True
    obtain e t where dec: "decodeWithSnapshot j (ci_zero col) = (e, t)" by fastforce
    show ?thesis
    proof (cases e)
      case None
      with Cons.prems run x True dec have "r = r1" "ts = (i, t) # ts1" "w' = w1" by simp_all
      with IH True x dec None show ?thesis by auto
    next
      case (Some er)
      with Cons.prems x True dec have "r = Err (Wrap (''decode linked '' @ col_name col) [er])" "ts = []" "w' = w"
        by simp_all
      then show ?thesis by simp
    qed
  qed
qed auto

lemma in_query_rows:
  assumes sel: "select_ok env" and rs: "rows_ok rs"
  shows "set (e_select env (in_query col ids) rs) \<subseteq> set rs"
    and "fst ` set (e_select env (in_query col ids) rs) \<inter> set ids = fst ` set rs \<inter> set ids"
proof -
  let ?q = "in_query col ids"
  have dist: "distinct (map fst rs)" using rs by (simp add: rows_ok_def)
  note D = select_okD [OF sel dist, where q = ?q]
  show sub: "set (e_select env ?q rs) \<subseteq> set rs" by (rule D(1))
  have "(i, j) \<in> set (e_select env ?q rs)" if "(i, j) \<in> set rs" "i \<in> set ids" for i j
  proof -
    have "satisfies ?q j" using rows_okD [OF rs that(1)] that(2)
      by (simp add: satisfies_def in_query_def empty_query_def)
    then show ?thesis using D(5) [of i j] that(1) by (simp add: in_query_def empty_query_def)
  qed
  with sub show "fst ` set (e_select env ?q rs) \<inter> set ids = fst ` set rs \<inter> set ids" by force
qed


section \<open>One field of a batch\<close>

definition tables_ok :: "env \<Rightarrow> world \<Rightarrow> bool" where
  "tables_ok env w \<longleftrightarrow> (\<forall>ty col. collectionForType env ty = Inr col \<longrightarrow> table_ok (w_store w) (col_name col))"

lemma slot_id_eq: "slot_id l = (if link_ID l = [] \<or> link_Loaded l then [] else [link_ID l])"
  by (cases l) simp

lemma fill_slot_eq: "fill_slot ts l = (if link_ID l = [] \<or> link_Loaded l then l
    else (case map_of ts (link_ID l) of None \<Rightarrow> l | Some t \<Rightarrow> Link (link_ID l) (Some t) True))"
  by (cases l) (auto split: option.split)

lemma hydrate_link_row:
  assumes "calm w" "collectionForType env ty = Inr col" "st_get (w_store w) (col_name col) (link_ID l) = Some j"
    "decodeWithSnapshot j (ci_zero col) = (None, t)" "\<not> (link_ID l = [] \<or> link_Loaded l)"
  shows "hydrate_link env w ty l = Link (link_ID l) (Some t) True"
  using assms by (auto simp: hydrate_link_def resolveSingleLink_def be_Get_def bindP_def st_get_def split: option.splits)

lemma hydrate_link_done: "link_ID l = [] \<or> link_Loaded l \<Longrightarrow> hydrate_link env w ty l = l"
  by (simp add: hydrate_link_def resolveSingleLink_def)

lemma fill_slot_hydrate:
  assumes w: "calm w" and col: "collectionForType env ty = Inr col"
    and all: "set (slot_id l) \<subseteq> fst ` set ts"
    and dec: "\<And>i t. (i, t) \<in> set ts \<Longrightarrow> \<exists>j. st_get (w_store w) (col_name col) i = Some j \<and> decodeWithSnapshot j (ci_zero col) = (None, t)"
  shows "fill_slot ts l = hydrate_link env w ty l" "slot_id (hydrate_link env w ty l) = []"
proof -
  have "fill_slot ts l = hydrate_link env w ty l \<and> slot_id (hydrate_link env w ty l) = []"
  proof (cases "link_ID l = [] \<or> link_Loaded l")
    case True
    then show ?thesis by (simp add: fill_slot_eq hydrate_link_done slot_id_eq)
  next
    case False
    with all have "link_ID l \<in> fst ` set ts" by (simp add: slot_id_eq)
    then obtain t where t: "map_of ts (link_ID l) = Some t" by (metis map_of_eq_None_iff not_None_eq)
    from dec [OF map_of_SomeD [OF t]] obtain j where
      "st_get (w_store w) (col_name col) (link_ID l) = Some j" "decodeWithSnapshot j (ci_zero col) = (None, t)" by blast
    from hydrate_link_row [OF w col this False] False t show ?thesis by (simp add: fill_slot_eq)
  qed
  then show "fill_slot ts l = hydrate_link env w ty l" "slot_id (hydrate_link env w ty l) = []" by simp_all
qed

definition typed :: "string \<Rightarrow> string \<Rightarrow> doc \<Rightarrow> bool" where
  "typed n ty d \<longleftrightarrow> distinct (map fst (doc_fields d)) \<and>
     (\<exists>e l ls. field_of d n = Some (FLink ty e l) \<or> field_of d n = Some (FLinks ty e ls))"

lemma fill_doc_hydrate:
  assumes d: "typed n ty d" and w: "calm w" and col: "collectionForType env ty = Inr col"
    and all: "set (field_slots (field_of d n)) \<subseteq> fst ` set ts"
    and dec: "\<And>i t. (i, t) \<in> set ts \<Longrightarrow> \<exists>j. st_get (w_store w) (col_name col) i = Some j \<and> decodeWithSnapshot j (ci_zero col) = (None, t)"
  shows "fill_doc n ts d = hydrate_names env w {n} d" "resolved_field (hydrate_names env w {n} d) n"
proof -
  from d obtain v where v: "field_of d n = Some v" "(\<exists>e l. v = FLink ty e l) \<or> (\<exists>e ls. v = FLinks ty e ls)"
    by (auto simp: typed_def)
  have h: "fill_field ts v = hydrate_val env w v \<and> field_slots (Some (hydrate_val env w v)) = []"
    using v(2) all v(1) fill_slot_hydrate [OF w col _ dec] by (fastforce simp: SUP_le_iff)
  then have "fill_doc n ts d = set_field n (hydrate_val env w v) d" by (simp add: fill_doc_def v(1))
  also have "\<dots> = hydrate_names env w {n} d"
  proof -
    have "u = v" if "(n, oe, u) \<in> set (doc_fields d)" for oe u
      using that d v(1) by (auto simp: typed_def field_of_def)
    then show ?thesis using d by (auto simp: set_field_def hydrate_names_def typed_def set_in_map)
  qed
  finally show "fill_doc n ts d = hydrate_names env w {n} d" .
  show "resolved_field (hydrate_names env w {n} d) n"
    using h by (simp add: resolved_field_def field_of_hydrate_names v(1))
qed

definition nested_none :: "(doc list, unit) op" where
  "nested_none = returnP ()"

lemma resolve_field:
  assumes run: "batchResolveField env nested_none n ty (docs, w) = (r, (docs', w'))"
    and db: "select_ok env" "tables_ok env w" "calm w" and docs: "\<And>d. d \<in> set docs \<Longrightarrow> typed n ty d"
  shows "w' = w \<and> (r = Ok () \<longrightarrow> docs' = map (hydrate_names env w {n}) docs
        \<and> (\<forall>d \<in> set docs'. resolved_field d n))
    \<and> (\<forall>c i. r = Err (DanglingLink c i) \<longrightarrow> (\<exists>d \<in> set docs. i \<in> set (field_slots (field_of d n))
          \<and> (\<exists>col. collectionForType env ty = Inr col \<and> c = col_name col \<and> st_get (w_store w) c i = None)))"
proof (cases "slot_ids n docs = []")
  case True
  then have run': "r = Ok ()" "docs' = docs" "w' = w" using run by (simp_all add: batchResolveField_def)
  have "hydrate_names env w {n} d = d \<and> resolved_field d n" if "d \<in> set docs" for d
  proof -
    from True that have s: "field_slots (field_of d n) = []" by (auto simp: slot_ids_def)
    from docs [OF that] have dist: "distinct (map fst (doc_fields d))" by (simp add: typed_def)
    have "hydrate_val env w v = v" if "field_slots (Some v) = []" for v
    proof -
      have one: "hydrate_link env w u l = l" if "slot_id l = []" for u l
        using that by (simp add: slot_id_eq hydrate_link_done split: if_splits)
      show ?thesis using that by (cases v) (auto intro!: map_idI one)
    qed
    moreover have "field_of d n = Some v" if "(n, oe, v) \<in> set (doc_fields d)" for oe v
      using that dist by (simp add: field_of_def)
    ultimately have "map (\<lambda>(m, oe, v). (m, oe, if m \<in> {n} then hydrate_val env w v else v)) (doc_fields d) = doc_fields d"
      using s by (intro map_idI) fastforce
    with s show ?thesis by (cases d) (simp add: hydrate_names_def resolved_field_def)
  qed
  with run' show ?thesis by (simp add: map_idI)
next
  case False
  let ?ids = "slot_ids n docs"
  show ?thesis
  proof (cases "collectionForType env ty")
    case (Inl e)
    have "\<not> (\<exists>c i. e = DanglingLink c i)" using Inl
      by (auto simp: collectionForType_def Let_def split: option.splits)
    with run False Inl show ?thesis by (auto simp: batchResolveField_def)
  next
    case (Inr col)
    from db(2) Inr obtain rs where rs: "st_tables (w_store w) (col_name col) = Some rs" "rows_ok rs"
      by (fastforce simp: tables_ok_def table_ok_def split: option.splits)
    let ?sel = "e_select env (in_query col ?ids) rs"
    note Q = in_query_rows [OF db(1) rs(2), of col ?ids]
    obtain r1 ts w1 where dt: "decode_targets col ?ids ?sel w = (r1, ts, w1)" by (metis prod_cases3)
    note D = decode_targets_calm [OF db(3) dt]
    have dist: "distinct (map fst rs)" using rs(2) by (simp add: rows_ok_def)
    have dec: "\<exists>j. st_get (w_store w) (col_name col) i = Some j \<and> decodeWithSnapshot j (ci_zero col) = (None, t)"
      if it: "(i, t) \<in> set ts" for i t
      using D it Q(1) dist by (fastforce simp: st_get_def rs(1))
    have run2: "(r, docs', w') = (case r1 of
        Ok _ \<Rightarrow> (case missing_target ?ids ts of
            Some i \<Rightarrow> (Err (DanglingLink (col_name col) i), map (fill_doc n ts) docs, w)
          | None \<Rightarrow> (Ok (), map (fill_doc n ts) docs, w))
      | _ \<Rightarrow> (r1, map (fill_doc n ts) docs, w))"
      using run False Inr D be_Query_calm [OF db(3) rs(1)]
      by (auto simp: batchResolveField_def dt nested_none_def zip_map_fst_snd split: outcome.splits option.splits)
    show ?thesis
    proof (cases r1)
      case (Ok u)
      with D Q(2) have ts: "fst ` set ts = fst ` set rs \<inter> set ?ids" by simp
      show ?thesis
      proof (cases "missing_target ?ids ts")
        case None
        then have all: "set ?ids \<subseteq> fst ` set ts" by (auto simp: missing_target_def find_None_iff)
        have one: "fill_doc n ts d = hydrate_names env w {n} d \<and> resolved_field (hydrate_names env w {n} d) n"
          if "d \<in> set docs" for d
        proof -
          have "set (field_slots (field_of d n)) \<subseteq> fst ` set ts" using all that by (auto simp: slot_ids_def)
          from fill_doc_hydrate [OF docs [OF that] db(3) Inr this dec] show ?thesis by blast
        qed
        with run2 Ok None show ?thesis by simp
      next
        case (Some i)
        then have "i \<in> set ?ids" "i \<notin> fst ` set ts" by (auto simp: missing_target_def find_Some_iff)
        with ts have i: "i \<notin> fst ` set rs" "\<exists>d \<in> set docs. i \<in> set (field_slots (field_of d n))"
          by (auto simp: slot_ids_def)
        then have "st_get (w_store w) (col_name col) i = None" by (simp add: st_get_def rs(1) map_of_eq_None_iff)
        with run2 Ok Some i Inr show ?thesis by simp
      qed
    next
      case (Err e)
      with run2 D Err show ?thesis by simp
    next
      case (Panic p)
      with run2 show ?thesis by simp
    qed
  qed
qed


section \<open>All fields of a batch\<close>

lemma resolve_fields:
  assumes "forP (\<lambda>(n, ty, eager). batchResolveField env nested_none n ty) L (docs, w) = (r, (docs', w'))"
    and db: "select_ok env" "tables_ok env w" "calm w"
    and "distinct (map fst L)" "\<forall>(n, ty, e) \<in> set L. \<forall>d \<in> set docs. typed n ty d"
  shows "w' = w \<and> (r = Ok () \<longrightarrow> docs' = map (hydrate_names env w (fst ` set L)) docs
        \<and> (\<forall>d \<in> set docs'. \<forall>n \<in> fst ` set L. resolved_field d n))
    \<and> (\<forall>c i. r = Err (DanglingLink c i) \<longrightarrow> (\<exists>d \<in> set docs. \<exists>(n, ty, e) \<in> set L. i \<in> set (field_slots (field_of d n))
          \<and> (\<exists>col. collectionForType env ty = Inr col \<and> c = col_name col \<and> st_get (w_store w) c i = None)))"
  using assms(1) assms(5-)
proof (induction L arbitrary: docs)
  case (Cons x L)
  obtain n ty e where x: "x = (n, ty, e)" by (metis prod_cases3)
  obtain r1 docs1 w1 where run1: "batchResolveField env nested_none n ty (docs, w) = (r1, (docs1, w1))"
    by (metis prod_cases3)
  have ty1: "\<And>d. d \<in> set docs \<Longrightarrow> typed n ty d" using Cons.prems(3) by (simp add: x)
  note S = resolve_field [OF run1 db ty1]
  show ?case
  proof (cases r1)
    case (Ok u)
    with S have w1: "w1 = w" and d1: "docs1 = map (hydrate_names env w {n}) docs"
      and n1: "\<And>d. d \<in> set docs1 \<Longrightarrow> resolved_field d n" by simp_all
    have fresh: "n \<notin> fst ` set L" using Cons.prems(2) by (simp add: x)
    have run2: "forP (\<lambda>(n, ty, eager). batchResolveField env nested_none n ty) L (docs1, w) = (r, (docs', w'))"
      using Cons.prems(1) run1 Ok w1 by (simp add: x bindP_def)
    have keep: "field_of (hydrate_names env w {n} d) m = field_of d m" if "m \<in> fst ` set L" for d m
    proof -
      have "m \<noteq> n" using that fresh by blast
      then show ?thesis by (simp add: field_of_hydrate_names option.map_ident)
    qed
    have "typed m ty' d1" if "(m, ty', e') \<in> set L" "d1 \<in> set docs1" for m ty' e' d1
    proof -
      from that(2) obtain d where d: "d \<in> set docs" "d1 = hydrate_names env w {n} d" by (auto simp: d1)
      have "m \<in> fst ` set L" using that(1) by force
      moreover have "typed m ty' d" using Cons.prems(3) that(1) d(1) by auto
      ultimately show ?thesis using keep [of m d] d(2) by (simp add: typed_def)
    qed
    then have ty2: "\<forall>(m, ty', e') \<in> set L. \<forall>d \<in> set docs1. typed m ty' d" by blast
    have "distinct (map fst L)" using Cons.prems(2) by simp
    note IH = Cons.IH [OF run2 this ty2]
    have un: "hydrate_names env w (fst ` set L) (hydrate_names env w {n} d) = hydrate_names env w (fst ` set (x # L)) d" for d
      using hydrate_names_union [OF fresh, of env w d] by (simp add: x)
    have left: "resolved_field d n" if "r = Ok ()" "d \<in> set docs'" for d
    proof -
      from IH that obtain d1 where "d1 \<in> set docs1" "d = hydrate_names env w (fst ` set L) d1" by auto
      with n1 fresh show ?thesis by (auto simp: resolved_field_def field_of_hydrate_names option.map_ident)
    qed
    have dang: "\<exists>d \<in> set docs. \<exists>(m, ty', e') \<in> set L. i \<in> set (field_slots (field_of d m))
          \<and> (\<exists>col. collectionForType env ty' = Inr col \<and> c = col_name col \<and> st_get (w_store w) c i = None)"
      if err: "r = Err (DanglingLink c i)" for c i
    proof -
      from IH err obtain d1 m ty' e' where m: "d1 \<in> set docs1" "(m, ty', e') \<in> set L" "i \<in> set (field_slots (field_of d1 m))"
        "\<exists>col. collectionForType env ty' = Inr col \<and> c = col_name col \<and> st_get (w_store w) c i = None" by blast
      from m(1) obtain d where "d \<in> set docs" "d1 = hydrate_names env w {n} d" by (auto simp: d1)
      moreover have "m \<in> fst ` set L" using m(2) by force
      ultimately show ?thesis using m keep by fastforce
    qed
    show ?thesis
    proof (intro conjI impI allI)
      show "w' = w" using IH by simp
      show "docs' = map (hydrate_names env w (fst ` set (x # L))) docs" if "r = Ok ()"
        using IH that by (simp add: d1 un)
      show "\<forall>d \<in> set docs'. \<forall>m \<in> fst ` set (x # L). resolved_field d m" if "r = Ok ()"
        using IH that left by (simp add: x)
      show "\<exists>d \<in> set docs. \<exists>(m, ty', e') \<in> set (x # L). i \<in> set (field_slots (field_of d m))
          \<and> (\<exists>col. collectionForType env ty' = Inr col \<and> c = col_name col \<and> st_get (w_store w) c i = None)"
        if "r = Err (DanglingLink c i)" for c i
        using dang [OF that] by fastforce
    qed
  next
    case (Err er)
    with Cons.prems(1) run1 have "r = Err er" "w' = w1" by (simp_all add: x bindP_def)
    with S Err x show ?thesis by fastforce
  next
    case (Panic p)
    with Cons.prems(1) run1 have "r = Panic p" "w' = w1" by (simp_all add: x bindP_def)
    with S Panic show ?thesis by simp
  qed
next
  case Nil
  have "map (hydrate_names env w {}) docs = docs" by (simp add: map_idI)
  with Nil show ?case by auto
qed

lemma link_field_typed:
  assumes "(n, ty, e) \<in> set (getLinkFields d)" "distinct (map fst (doc_fields d))"
  shows "typed n ty d"
proof -
  from assms(1) obtain m oe v where f: "(m, oe, v) \<in> set (doc_fields d)" "(n, ty, e) \<in> set (link_field (m, oe, v))"
    by (auto simp: getLinkFields_def)
  then have "m = n" "(\<exists>l. v = FLink ty e l) \<or> (\<exists>ls. v = FLinks ty e ls)" by (cases v; auto)+
  with f(1) assms(2) show ?thesis by (auto simp: typed_def field_of_def)
qed

lemma distinct_link_fields:
  assumes "distinct (map fst (doc_fields d))"
  shows "distinct (map fst (getLinkFields d))"
proof -
  have own: "fst y = fst f" if "y \<in> set (link_field f)" for y and f :: "string \<times> bool \<times> fval"
    using that by (cases f rule: link_field.cases) auto
  have one: "distinct (map fst (link_field f))" for f :: "string \<times> bool \<times> fval"
    by (cases f rule: link_field.cases) auto
  have "distinct (map fst (concat (map link_field fs)))" if "distinct (map fst fs)" for fs
    using that
  proof (induction fs)
    case (Cons f fs)
    have rest: "fst y \<in> fst ` set fs" if "y \<in> set (concat (map link_field fs))" for y
    proof -
      from that obtain g where "g \<in> set fs" "y \<in> set (link_field g)" by auto
      with own [of y g] show ?thesis by simp
    qed
    have fresh: "fst f \<notin> fst ` set fs" using Cons.prems by simp
    have "fst ` set (link_field f) \<inter> fst ` set (concat (map link_field fs)) = {}"
    proof (rule equals0I)
      fix z assume z: "z \<in> fst ` set (link_field f) \<inter> fst ` set (concat (map link_field fs))"
      then obtain y where "y \<in> set (link_field f)" "z = fst y" by blast
      with own [of y f] have "z = fst f" by simp
      moreover from z obtain y' where "y' \<in> set (concat (map link_field fs))" "z = fst y'" by blast
      ultimately show False using rest [of y'] fresh by simp
    qed
    moreover have "distinct (map fst (concat (map link_field fs)))" using Cons by simp
    ultimately show ?case using one [of f] by (simp del: set_concat)
  qed simp
  with assms show ?thesis by (simp add: getLinkFields_def)
qed

text \<open>C29. Batched hydration agrees with resolving links one by one. On documents of one struct type,
  when the resolver (one level deep) returns nil, every document is the one it was with each link of
  the selected fields resolved as a single Get would, and none of those links is left unresolved;
  other fields and the database are as before. When it returns a dangling-link error, a selected link
  of one of the documents has that identifier, and its target collection has no such row.\<close>

theorem batched_hydration_is_pointwise:
  assumes run: "batchResolveLinks env 1 mode (docs, w) = (r, (docs', w'))" and docs: "same_struct docs"
    and mode: "mode \<noteq> FetchNone" and db: "select_ok env" "tables_ok env w" "calm w"
  shows "w' = w \<and> (r = Ok () \<longrightarrow> docs' = map (hydrate_doc env w mode) docs
        \<and> (\<forall>d \<in> set docs'. \<forall>n \<in> set (selected_names mode d). resolved_field d n))
    \<and> (\<forall>c i. r = Err (DanglingLink c i) \<longrightarrow> (\<exists>d \<in> set docs. \<exists>n \<in> set (selected_names mode d).
          i \<in> set (field_slots (field_of d n)) \<and> st_get (w_store w) c i = None))"
proof (cases "docs = []")
  case True
  with run show ?thesis by (auto simp: batchResolveLinks_def)
next
  case False
  let ?L = "filter (field_selected mode) (getLinkFields (hd docs))"
  have run': "forP (\<lambda>(n, ty, eager). batchResolveField env nested_none n ty) ?L (docs, w) = (r, (docs', w'))"
    using run False mode by (simp add: batchResolveLinks_def nested_none_def)
  have hd: "hd docs \<in> set docs" using False by simp
  have D: "distinct (map fst (doc_fields d))" "getLinkFields d = getLinkFields (hd docs)" if "d \<in> set docs" for d
    using docs that by (auto simp: same_struct_def list_all_iff)
  have dist: "distinct (map fst ?L)" by (rule distinct_map_filter [OF distinct_link_fields [OF D(1) [OF hd]]])
  have "typed n ty d" if "(n, ty, e) \<in> set ?L" "d \<in> set docs" for n ty e d
    using that D [OF that(2)] by (auto intro: link_field_typed)
  then have typed: "\<forall>(n, ty, e) \<in> set ?L. \<forall>d \<in> set docs. typed n ty d" by blast
  note R = resolve_fields [OF run' db dist typed]
  have sel: "set (selected_names mode d) = fst ` set ?L" if "d \<in> set docs" for d
    using D(2) [OF that] by (simp add: selected_names_def)
  have hyd: "map (hydrate_names env w (fst ` set ?L)) docs = map (hydrate_doc env w mode) docs"
    using sel by (simp add: hydrate_doc_def)
  have sel': "set (selected_names mode d) = fst ` set ?L" if "d \<in> set docs'" "r = Ok ()" for d
  proof -
    from R that obtain d0 where "d0 \<in> set docs" "d = hydrate_names env w (fst ` set ?L) d0" by auto
    with sel [of d0] show ?thesis by (simp add: selected_names_def)
  qed
  show ?thesis
  proof (intro conjI impI allI ballI)
    show "w' = w" using R by simp
    show "docs' = map (hydrate_doc env w mode) docs" if "r = Ok ()" using R that hyd by simp
    show "resolved_field d n" if "r = Ok ()" "d \<in> set docs'" "n \<in> set (selected_names mode d)" for d n
      using R that sel' by blast
    show "\<exists>d \<in> set docs. \<exists>n \<in> set (selected_names mode d). i \<in> set (field_slots (field_of d n)) \<and> st_get (w_store w) c i = None"
      if "r = Err (DanglingLink c i)" for c i
    proof -
      from R that obtain d n ty e where "d \<in> set docs" "(n, ty, e) \<in> set ?L" "i \<in> set (field_slots (field_of d n))"
        "st_get (w_store w) c i = None" by blast
      with sel [of d] show ?thesis by force
    qed
  qed
qed


section \<open>Instance\<close>

definition linked_notes :: "doc list" where
  "linked_notes = [note_doc ''k'' ''r1'' ''a'' ''l'', note_doc ''l'' ''r2'' ''b'' []]"

lemma linked_samples:
  "same_struct linked_notes" "table_ok (w_store (note_world linked_notes)) ''note''" "calm (note_world linked_notes)"
  "fst (batchResolveLinks (note_db True True) 1 FetchAll (linked_notes, note_world linked_notes)) = Ok ()"
  "link_ID (case field_of (hd linked_notes) ''next'' of Some (FLink ty e l) \<Rightarrow> l | _ \<Rightarrow> Link [] None False) = ''l''"
  by code_simp+

lemma note_tables_ok:
  assumes "table_ok (w_store w) ''note''"
  shows "tables_ok (note_db r s) w"
  using assms
  by (auto simp: tables_ok_def collectionForType_def note_db_def note_env_def note_collection_def col_name_def Let_def
      split: if_splits)

theorem hydration_witness:
  "case batchResolveLinks (note_db True True) 1 FetchAll (linked_notes, note_world linked_notes) of (r, (docs', w')) \<Rightarrow>
     docs' = map (hydrate_doc (note_db True True) (note_world linked_notes) FetchAll) linked_notes
     \<and> (\<exists>t. field_of (hd docs') ''next'' = Some (FLink ''Note'' False (Link ''l'' (Some t) True)))"
proof -
  obtain r docs' w' where run: "batchResolveLinks (note_db True True) 1 FetchAll (linked_notes, note_world linked_notes)
      = (r, (docs', w'))" by (metis prod_cases3)
  then have ok: "r = Ok ()" using linked_samples(4) by simp
  have docs': "docs' = map (hydrate_doc (note_db True True) (note_world linked_notes) FetchAll) linked_notes"
    using batched_hydration_is_pointwise [OF run linked_samples(1) _ _ note_tables_ok [OF linked_samples(2)] linked_samples(3)] ok
    by simp
  have "case field_of (hd (map (hydrate_doc (note_db True True) (note_world linked_notes) FetchAll) linked_notes)) ''next'' of
      Some (FLink ty e (Link i (Some t) True)) \<Rightarrow> ty = ''Note'' \<and> \<not> e \<and> i = ''l'' | _ \<Rightarrow> False"
    by code_simp
  with docs' have "\<exists>t. field_of (hd docs') ''next'' = Some (FLink ''Note'' False (Link ''l'' (Some t) True))"
    by (auto split: option.splits fval.splits link.splits bool.splits)
  with docs' run show ?thesis by simp
qed

end
