(* ===== verification/Aggregate.thy ===== *)
theory Aggregate
  imports Track Query_Write
begin

text \<open>
  Aggregation and projection: \<^verbatim>\<open>engine/aggregate.go\<close>, \<^verbatim>\<open>engine/aggregate_scalar.go\<close> and
  \<^verbatim>\<open>engine/aggregate_project.go\<close>. The struct type of the target slice is the list of its (exported)
  fields with their tags and kinds, an element the list of the values of its fields. The evaluation
  of an aggregate query belongs to the database: \<open>agg\<close> and \<open>grp\<close> are its two operations. A float64 is
  its canonical text; \<open>num\<close> canonicalises the text of a JSON number and \<open>trunc\<close> converts to an integer.
  The caches per type hold the value the functions compute and are not modelled.
\<close>

section \<open>Target structs\<close>

datatype target_kind = KString | KBytes | KBool | KInt | KFloat | KAny | KOther

record target_field =
  tf_den :: string
  tf_json :: string
  tf_kind :: target_kind

datatype tval = TZero | TText string | TBytes string | TBool bool | TInt string | TFloat string | TAny json

text \<open>What the target argument is: a pointer to a slice of structs, to a slice of something else, or
  anything else.\<close>

datatype go_target = SliceOf "target_field list" | SliceOfOther | NotSlice

section \<open>Scalar aggregates\<close>

type_synonym aggregate_db = "string \<Rightarrow> aggregate_op \<Rightarrow> string \<Rightarrow> query \<Rightarrow> (world, string option) prog"

definition aggregate :: "env \<Rightarrow> aggregate_db \<Rightarrow> query_set \<Rightarrow> aggregate_op \<Rightarrow> string \<Rightarrow> (world, string) prog" where
  "aggregate env agg qs op f = bindP (checkP (preflight qs)) (\<lambda>_.
     bindP (collection_of env (qs_type qs)) (\<lambda>col.
     bindP (agg (col_name col) op f (buildBackendQuery qs col)) (\<lambda>result.
       returnP (case result of None \<Rightarrow> ''0'' | Some x \<Rightarrow> x))))"

definition Avg :: "env \<Rightarrow> aggregate_db \<Rightarrow> query_set \<Rightarrow> string \<Rightarrow> (world, string) prog" where
  "Avg env agg qs f = aggregate env agg qs OpAvg f"

definition Sum_qs :: "env \<Rightarrow> aggregate_db \<Rightarrow> query_set \<Rightarrow> string \<Rightarrow> (world, string) prog" where
  "Sum_qs env agg qs f = aggregate env agg qs OpSum f"

definition Min_qs :: "env \<Rightarrow> aggregate_db \<Rightarrow> query_set \<Rightarrow> string \<Rightarrow> (world, string) prog" where
  "Min_qs env agg qs f = aggregate env agg qs OpMin f"

definition Max_qs :: "env \<Rightarrow> aggregate_db \<Rightarrow> query_set \<Rightarrow> string \<Rightarrow> (world, string) prog" where
  "Max_qs env agg qs f = aggregate env agg qs OpMax f"

section \<open>Group-by targets\<close>

record group_field =
  gf_tag :: string
  gf_index :: nat

fun group_mappings_from :: "nat \<Rightarrow> target_field list \<Rightarrow> group_field list" where
  "group_mappings_from i [] = []"
| "group_mappings_from i (f # fs) =
     (if tf_den f = [] then group_mappings_from (Suc i) fs
      else \<lparr>gf_tag = tf_den f, gf_index = i\<rparr> # group_mappings_from (Suc i) fs)"

definition getGroupMappings :: "target_field list \<Rightarrow> group_field list" where
  "getGroupMappings fs = group_mappings_from 0 fs"

definition isGroupKeyTag :: "string \<Rightarrow> bool" where
  "isGroupKeyTag tag \<longleftrightarrow> tag = ''group_key'' \<or> has_prefix tag ''group_key:''"

text \<open>\<open>strconv.Atoi\<close>: an optional sign, decimal digits, the range of a 64-bit integer.\<close>

definition Atoi :: "string \<Rightarrow> int option" where
  "Atoi s = (let (neg, ds) = (case s of [] \<Rightarrow> (False, [])
                 | c # cs \<Rightarrow> if c = CHR ''-'' then (True, cs) else if c = CHR ''+'' then (False, cs) else (False, s))
     in if ds = [] then None
        else (case dec_digits_acc 0 ds of
                None \<Rightarrow> None
              | Some n \<Rightarrow> (let i = (if neg then - n else n) in if - (2 ^ 63) \<le> i \<and> i < 2 ^ 63 then Some i else None)))"

record slot_state =
  ss_slots :: "int list"
  ss_unindexed :: bool
  ss_positional :: bool

definition resolve_step :: "nat \<Rightarrow> group_field \<Rightarrow> slot_state \<Rightarrow> gerr + slot_state" where
  "resolve_step numFields m st =
     (if gf_tag m = ''group_key''
      then (if numFields \<noteq> 1 then Inl (Msg ''den: tag group_key without slot requires exactly one GroupBy field'')
            else if ss_slots st ! 0 \<noteq> -1 then Inl (Msg ''den: multiple struct fields claim group_key slot 0'')
            else Inr (st\<lparr>ss_unindexed := True, ss_slots := (ss_slots st)[0 := int (gf_index m)]\<rparr>))
      else if has_prefix (gf_tag m) ''group_key:''
      then (case Atoi (trim_prefix (gf_tag m) ''group_key:'') of
              None \<Rightarrow> Inl (Wrap ''den: invalid group_key slot'' [Msg ''invalid syntax''])
            | Some slot \<Rightarrow>
                if slot < 0 \<or> slot \<ge> int numFields then Inl (Msg ''den: group_key slot out of range'')
                else if ss_slots st ! nat slot \<noteq> -1 then Inl (Msg ''den: multiple struct fields claim group_key slot'')
                else Inr (st\<lparr>ss_positional := True, ss_slots := (ss_slots st)[nat slot := int (gf_index m)]\<rparr>))
      else Inr st)"

fun resolve_loop :: "nat \<Rightarrow> group_field list \<Rightarrow> slot_state \<Rightarrow> gerr + slot_state" where
  "resolve_loop n [] st = Inr st"
| "resolve_loop n (m # ms) st = (case resolve_step n m st of Inl e \<Rightarrow> Inl e | Inr st' \<Rightarrow> resolve_loop n ms st')"

definition resolveGroupKeySlots :: "group_field list \<Rightarrow> nat \<Rightarrow> gerr + int list" where
  "resolveGroupKeySlots mappings numFields =
     (case resolve_loop numFields mappings
             \<lparr>ss_slots = replicate numFields (-1), ss_unindexed = False, ss_positional = False\<rparr> of
        Inl e \<Rightarrow> Inl e
      | Inr st \<Rightarrow>
          if ss_unindexed st \<and> ss_positional st
          then Inl (Msg ''den: cannot mix group_key with group_key:N tags on the same target'')
          else if list_ex (\<lambda>idx. idx = -1) (ss_slots st)
          then Inl (Msg ''den: missing struct field for group_key slot'')
          else Inr (ss_slots st))"

text \<open>The aggregate a tag stands for; other tags stand for none.\<close>

definition agg_of_tag :: "string \<Rightarrow> group_by_agg option" where
  "agg_of_tag tag =
     (if tag = ''count'' then Some \<lparr>ga_Op = OpCount, ga_Field = []\<rparr>
      else if has_prefix tag ''avg:'' then Some \<lparr>ga_Op = OpAvg, ga_Field = trim_prefix tag ''avg:''\<rparr>
      else if has_prefix tag ''sum:'' then Some \<lparr>ga_Op = OpSum, ga_Field = trim_prefix tag ''sum:''\<rparr>
      else if has_prefix tag ''min:'' then Some \<lparr>ga_Op = OpMin, ga_Field = trim_prefix tag ''min:''\<rparr>
      else if has_prefix tag ''max:'' then Some \<lparr>ga_Op = OpMax, ga_Field = trim_prefix tag ''max:''\<rparr>
      else None)"

fun aggs_loop :: "group_field list \<Rightarrow> group_by_agg list \<Rightarrow> (string \<rightharpoonup> nat)
    \<Rightarrow> gerr + group_by_agg list \<times> (string \<rightharpoonup> nat)" where
  "aggs_loop [] aggs indices = Inr (aggs, indices)"
| "aggs_loop (m # ms) aggs indices =
     (if isGroupKeyTag (gf_tag m) then aggs_loop ms aggs indices
      else (case agg_of_tag (gf_tag m) of
              None \<Rightarrow> aggs_loop ms aggs indices
            | Some a \<Rightarrow>
                if indices (gf_tag m) \<noteq> None
                then Inl (Msg (''den: GroupBy: duplicate aggregate tag '' @ gf_tag m))
                else aggs_loop ms (aggs @ [a]) (indices(gf_tag m \<mapsto> length aggs))))"

definition buildAggsFromMappings :: "group_field list \<Rightarrow> gerr + group_by_agg list \<times> (string \<rightharpoonup> nat)" where
  "buildAggsFromMappings mappings = aggs_loop mappings [] Map.empty"

section \<open>Group-by queries\<close>

record group_by_builder =
  gb_qs :: query_set
  gb_fields :: "string list"
  gb_sort :: "group_by_sort_entry list"

definition GroupBy :: "string list \<Rightarrow> query_set \<Rightarrow> group_by_builder" where
  "GroupBy keys qs = \<lparr>gb_qs = qs, gb_fields = keys, gb_sort = []\<rparr>"

definition OrderByAgg :: "aggregate_op \<Rightarrow> string \<Rightarrow> sort_direction \<Rightarrow> group_by_builder \<Rightarrow> group_by_builder" where
  "OrderByAgg op f dir gb = gb\<lparr>gb_sort := gb_sort gb @ [\<lparr>gs_Op = op, gs_Field = f, gs_Dir = dir\<rparr>]\<rparr>"

record group_by_row =
  gr_Keys :: "string list"
  gr_Values :: "string list"

type_synonym group_db = "string \<Rightarrow> string list \<Rightarrow> group_by_agg list \<Rightarrow> query \<Rightarrow> (world, group_by_row list) prog"

text \<open>\<open>reflect\<close>'s \<open>Convert\<close> from \<open>string\<close>, where the types are convertible.\<close>

fun convert_string :: "string \<Rightarrow> target_kind \<Rightarrow> tval option" where
  "convert_string s KString = Some (TText s)"
| "convert_string s KBytes = Some (TBytes s)"
| "convert_string s KAny = Some (TAny (JStr s))"
| "convert_string s _ = None"

fun fill_keys :: "target_field list \<Rightarrow> string list \<Rightarrow> nat \<Rightarrow> int list \<Rightarrow> tval list \<Rightarrow> tval list" where
  "fill_keys fs keys slot [] elem = elem"
| "fill_keys fs keys slot (structIdx # rest) elem =
     (if structIdx < 0 then fill_keys fs keys (Suc slot) rest elem
      else (let keyVal = (if slot < length keys then keys ! slot else [])
            in fill_keys fs keys (Suc slot) rest
                 (case convert_string keyVal (tf_kind (fs ! nat structIdx)) of
                    None \<Rightarrow> elem | Some v \<Rightarrow> elem[nat structIdx := v])))"

text \<open>\<open>SetInt\<close> and \<open>SetFloat\<close> panic on a field of another kind, indexing panics out of range.\<close>

fun fill_aggs :: "(string \<Rightarrow> string) \<Rightarrow> target_field list \<Rightarrow> (string \<rightharpoonup> nat) \<Rightarrow> string list \<Rightarrow> group_field list
    \<Rightarrow> tval list \<Rightarrow> tval list outcome" where
  "fill_aggs trunc fs indices vals [] elem = Ok elem"
| "fill_aggs trunc fs indices vals (m # ms) elem =
     (if isGroupKeyTag (gf_tag m) then fill_aggs trunc fs indices vals ms elem
      else (case indices (gf_tag m) of
              None \<Rightarrow> fill_aggs trunc fs indices vals ms elem
            | Some idx \<Rightarrow>
                if idx \<ge> length vals then Panic ''index out of range''
                else if gf_tag m = ''count''
                then (if tf_kind (fs ! gf_index m) = KInt
                      then fill_aggs trunc fs indices vals ms (elem[gf_index m := TInt (trunc (vals ! idx))])
                      else Panic ''reflect: call of reflect.Value.SetInt'')
                else (if tf_kind (fs ! gf_index m) = KFloat
                      then fill_aggs trunc fs indices vals ms (elem[gf_index m := TFloat (vals ! idx)])
                      else Panic ''reflect: call of reflect.Value.SetFloat'')))"

fun fill_rows :: "(string \<Rightarrow> string) \<Rightarrow> target_field list \<Rightarrow> int list \<Rightarrow> (string \<rightharpoonup> nat) \<Rightarrow> group_field list
    \<Rightarrow> group_by_row list \<Rightarrow> tval list list \<Rightarrow> tval list list outcome" where
  "fill_rows trunc fs slots indices ms [] acc = Ok acc"
| "fill_rows trunc fs slots indices ms (row # rows) acc =
     (case fill_aggs trunc fs indices (gr_Values row) ms
             (fill_keys fs (gr_Keys row) 0 slots (replicate (length fs) TZero)) of
        Ok elem \<Rightarrow> fill_rows trunc fs slots indices ms rows (acc @ [elem])
      | Err e \<Rightarrow> Err e
      | Panic p \<Rightarrow> Panic p)"

text \<open>\<open>Into\<close> appends to the slice the target holds: the result is the slice it leaves there.\<close>

definition Into :: "env \<Rightarrow> group_db \<Rightarrow> (string \<Rightarrow> string) \<Rightarrow> group_by_builder \<Rightarrow> go_target \<Rightarrow> tval list list
    \<Rightarrow> (world, tval list list) prog" where
  "Into env grp trunc gb target old = bindP (checkP (preflight (gb_qs gb))) (\<lambda>_.
     if gb_fields gb = [] then throwP (Msg ''den: GroupBy requires at least one field'')
     else bindP (collection_of env (qs_type (gb_qs gb))) (\<lambda>col.
       (case target of
          NotSlice \<Rightarrow> throwP (Msg ''den: GroupBy.Into target must be a pointer to a slice'')
        | SliceOfOther \<Rightarrow> panicP ''reflect: NumField of non-struct type''
        | SliceOf fs \<Rightarrow>
            (let mappings = getGroupMappings fs in
             case resolveGroupKeySlots mappings (length (gb_fields gb)) of
               Inl e \<Rightarrow> throwP e
             | Inr keySlots \<Rightarrow> (case buildAggsFromMappings mappings of
                 Inl e \<Rightarrow> throwP e
               | Inr (aggs, aggIndices) \<Rightarrow>
                   (let q = buildBackendQuery (gb_qs gb) col in
                    if list_ex (\<lambda>sf. so_Field sf \<notin> set (gb_fields gb)) (SortFields q)
                    then throwP (Msg ''den: GroupBy: Sort field is not a group key; use OrderByAgg for aggregate sort'')
                    else bindP (grp (col_name col) (gb_fields gb) aggs (q\<lparr>GroupBySort := gb_sort gb\<rparr>)) (\<lambda>rows w.
                      (fill_rows trunc fs keySlots aggIndices mappings rows old, w))))))))"

section \<open>Projection\<close>

record proj_field =
  pf_parts :: "string list"
  pf_index :: nat

definition cut_comma :: "string \<Rightarrow> string" where
  "cut_comma s = takeWhile (\<lambda>c. c \<noteq> CHR '','') s"

fun proj_mappings_from :: "nat \<Rightarrow> target_field list \<Rightarrow> proj_field list" where
  "proj_mappings_from i [] = []"
| "proj_mappings_from i (f # fs) =
     (case cut_prefix (tf_den f) ''from:'' of
        Some name \<Rightarrow> \<lparr>pf_parts = split_on CHR ''.'' name, pf_index = i\<rparr> # proj_mappings_from (Suc i) fs
      | None \<Rightarrow>
          if tf_json f = [] \<or> tf_json f = ''-'' then proj_mappings_from (Suc i) fs
          else \<lparr>pf_parts = split_on CHR ''.'' (cut_comma (tf_json f)), pf_index = i\<rparr> # proj_mappings_from (Suc i) fs)"

definition getProjMappings :: "target_field list \<Rightarrow> proj_field list" where
  "getProjMappings fs = proj_mappings_from 0 fs"

text \<open>\<open>current\<close> is nil, a map or another value; a lookup in a nil \<open>any\<close> is not a map.\<close>

fun resolveMapFieldParts :: "json \<Rightarrow> string list \<Rightarrow> json" where
  "resolveMapFieldParts j [] = j"
| "resolveMapFieldParts (JObj ms) (p # ps) = resolveMapFieldParts (any_at ms p) ps"
| "resolveMapFieldParts _ (p # ps) = JNull"

text \<open>\<open>Convert\<close> from the types \<open>json.Unmarshal\<close> gives to values of type \<open>any\<close>.\<close>

fun convert_any :: "(string \<Rightarrow> string) \<Rightarrow> json \<Rightarrow> target_kind \<Rightarrow> tval option" where
  "convert_any trunc (JStr s) k = convert_string s k"
| "convert_any trunc (JNum n) KInt = Some (TInt (trunc n))"
| "convert_any trunc (JNum n) KFloat = Some (TFloat n)"
| "convert_any trunc (JBool b) KBool = Some (TBool b)"
| "convert_any trunc j KAny = Some (TAny j)"
| "convert_any trunc j _ = None"

definition mapProjection :: "(string \<Rightarrow> string) \<Rightarrow> target_field list \<Rightarrow> json \<Rightarrow> tval list \<Rightarrow> tval list" where
  "mapProjection trunc fs doc elem =
     foldl (\<lambda>elem m. let val = resolveMapFieldParts doc (pf_parts m) in
              if val = JNull then elem
              else (case convert_any trunc val (tf_kind (fs ! pf_index m)) of
                      None \<Rightarrow> elem | Some v \<Rightarrow> elem[pf_index m := v]))
       elem (getProjMappings fs)"

fun project_rows :: "(string \<Rightarrow> string) \<Rightarrow> (string \<Rightarrow> string) \<Rightarrow> target_field list \<Rightarrow> rows \<Rightarrow> tval list list
    \<Rightarrow> (world, tval list list) prog" where
  "project_rows num trunc fs [] acc = returnP acc"
| "project_rows num trunc fs ((i, data) # rs) acc = bindP ctx_err (\<lambda>_.
     (case decode_map num data of
        Inl e \<Rightarrow> throwP (Wrap ''decode for projection'' [e])
      | Inr m \<Rightarrow> project_rows num trunc fs rs
                  (acc @ [mapProjection trunc fs (JObj m) (replicate (length fs) TZero)])))"

text \<open>A slice of something else panics when the first row is mapped.\<close>

definition Project :: "env \<Rightarrow> (string \<Rightarrow> string) \<Rightarrow> (string \<Rightarrow> string) \<Rightarrow> query_set \<Rightarrow> go_target \<Rightarrow> tval list list
    \<Rightarrow> (world, tval list list) prog" where
  "Project env num trunc qs target old = bindP (checkP (preflight qs)) (\<lambda>_.
     bindP (collection_of env (qs_type qs)) (\<lambda>col.
     bindP (be_Query env (col_name col) (buildBackendQuery qs col)) (\<lambda>rs.
       (case target of
          NotSlice \<Rightarrow> throwP (Msg ''den: Project target must be a pointer to a slice'')
        | SliceOfOther \<Rightarrow>
            (case rs of
               [] \<Rightarrow> returnP old
             | (i, data) # _ \<Rightarrow> bindP ctx_err (\<lambda>_. (case decode_map num data of
                   Inl e \<Rightarrow> throwP (Wrap ''decode for projection'' [e])
                 | Inr m \<Rightarrow> panicP ''reflect: NumField of non-struct type'')))
        | SliceOf fs \<Rightarrow> project_rows num trunc fs rs old))))"

end
