(* ===== verification/Aggregate_Properties.thy ===== *)
theory Aggregate_Properties
  imports Aggregate Select_Properties "HOL-Library.Multiset"
begin

text \<open>
  Group-by targets. The slots of the group keys are characterised exactly, as an equation of
  multisets between what the tags of the target struct claim and what the result assigns; the filling
  loops are then read off field by field, which gives every cell \<open>Into\<close> produces.
\<close>

section \<open>Slots\<close>

text \<open>The slot a group-key tag claims among \<open>n\<close> group fields.\<close>

definition claim :: "nat \<Rightarrow> string \<Rightarrow> nat option" where
  "claim n tag = (if tag = ''group_key'' then (if n = 1 then Some 0 else None)
     else (case Atoi (trim_prefix tag ''group_key:'') of
             None \<Rightarrow> None | Some s \<Rightarrow> if 0 \<le> s \<and> s < int n then Some (nat s) else None))"

definition claims :: "nat \<Rightarrow> group_field list \<Rightarrow> (nat option \<times> int) multiset" where
  "claims n ms = mset (map (\<lambda>m. (claim n (gf_tag m), int (gf_index m))) (filter (\<lambda>m. isGroupKeyTag (gf_tag m)) ms))"

definition unindexed :: "group_field \<Rightarrow> bool" where
  "unindexed m \<longleftrightarrow> gf_tag m = ''group_key''"

definition positional :: "group_field \<Rightarrow> bool" where
  "positional m \<longleftrightarrow> has_prefix (gf_tag m) ''group_key:''"

definition assigned :: "int list \<Rightarrow> (nat option \<times> int) multiset" where
  "assigned slots = image_mset (\<lambda>i. (Some i, slots ! i)) (mset_set {i. i < length slots \<and> slots ! i \<noteq> -1})"

lemma assigned_update:
  assumes "s < length slots" "slots ! s = -1" "x \<noteq> -1"
  shows "assigned (slots[s := x]) = add_mset (Some s, x) (assigned slots)"
proof -
  let ?A = "{i. i < length slots \<and> slots ! i \<noteq> -1}"
  have "{i. i < length (slots[s := x]) \<and> slots[s := x] ! i \<noteq> -1} = insert s ?A"
    using assms by (auto simp: nth_list_update)
  moreover have "s \<notin> ?A" using assms(2) by simp
  moreover have "image_mset (\<lambda>i. (Some i, slots[s := x] ! i)) (mset_set ?A) = image_mset (\<lambda>i. (Some i, slots ! i)) (mset_set ?A)"
    by (rule image_mset_cong) (use assms in \<open>auto simp: nth_list_update\<close>)
  ultimately show ?thesis using assms(1) by (simp add: assigned_def)
qed

lemma assigned_full:
  assumes "\<forall>i < length slots. slots ! i \<noteq> -1"
  shows "assigned slots = mset (map (\<lambda>i. (Some i, slots ! i)) [0..<length slots])"
proof -
  have "{i. i < length slots \<and> slots ! i \<noteq> -1} = set [0..<length slots]" using assms by auto
  then show ?thesis by (simp only: assigned_def mset_set_set [OF distinct_upt] mset_map)
qed

lemma assigned_size: "size (assigned slots) = card {i. i < length slots \<and> slots ! i \<noteq> -1}"
  by (simp add: assigned_def)

lemma not_both: "\<not> (unindexed m \<and> positional m)"
  by (auto simp: unindexed_def positional_def)

lemma claims_Cons:
  "claims n (m # ms) = (if unindexed m \<or> positional m then {#(claim n (gf_tag m), int (gf_index m))#} else {#}) + claims n ms"
  by (simp add: claims_def isGroupKeyTag_def unindexed_def positional_def)

lemma resolve_step_Inr:
  assumes "length (ss_slots st) = n" "resolve_step n m st = Inr st'"
  shows "length (ss_slots st') = n"
    and "assigned (ss_slots st') = (if unindexed m \<or> positional m then {#(claim n (gf_tag m), int (gf_index m))#} else {#})
      + assigned (ss_slots st)"
    and "ss_unindexed st' = (unindexed m \<or> ss_unindexed st)" "ss_positional st' = (positional m \<or> ss_positional st)"
  using assms not_both [of m]
  by (auto simp: resolve_step_def unindexed_def positional_def claim_def assigned_update
      split: if_splits option.splits)

lemma resolve_step_Inl:
  assumes "resolve_step n m st = Inl e"
  shows "unindexed m \<or> positional m"
    and "claim n (gf_tag m) = None \<or> (\<exists>s. claim n (gf_tag m) = Some s \<and> s < n \<and> ss_slots st ! s \<noteq> -1)"
  using assms by (auto simp: resolve_step_def unindexed_def positional_def claim_def split: if_splits option.splits)

lemma resolve_loop_Inr:
  assumes "length (ss_slots st) = n" "resolve_loop n ms st = Inr st'"
  shows "length (ss_slots st') = n \<and> assigned (ss_slots st') = claims n ms + assigned (ss_slots st)
    \<and> ss_unindexed st' = (list_ex unindexed ms \<or> ss_unindexed st)
    \<and> ss_positional st' = (list_ex positional ms \<or> ss_positional st)"
  using assms
proof (induction ms arbitrary: st)
  case Nil
  then show ?case by (simp add: claims_def)
next
  case (Cons m ms)
  then obtain st1 where st1: "resolve_step n m st = Inr st1" "resolve_loop n ms st1 = Inr st'"
    by (auto split: sum.splits)
  note S = resolve_step_Inr [OF Cons.prems(1) st1(1)]
  from Cons.IH [OF S(1) st1(2)] show ?case
    using S by (auto simp: claims_Cons)
qed

text \<open>When the loop fails, a claim is void or two claims are for the same slot.\<close>

lemma resolve_loop_Inl:
  assumes "length (ss_slots st) = n" "resolve_loop n ms st = Inl e"
  shows "None \<in># image_mset fst (claims n ms) \<or> (\<exists>s. count (image_mset fst (claims n ms + assigned (ss_slots st))) (Some s) > 1)"
  using assms
proof (induction ms arbitrary: st)
  case (Cons m ms)
  show ?case
  proof (cases "resolve_step n m st")
    case (Inl e')
    note S = resolve_step_Inl [OF Inl]
    show ?thesis
    proof (cases "claim n (gf_tag m)")
      case None
      with S show ?thesis by (auto simp: claims_Cons)
    next
      case (Some s)
      with S(2) Cons.prems(1) have "(Some s, ss_slots st ! s) \<in># assigned (ss_slots st)"
        by (auto simp: assigned_def)
      then have "Some s \<in># image_mset fst (assigned (ss_slots st))" by force
      then have "count (image_mset fst (assigned (ss_slots st))) (Some s) > 0" by simp
      with S(1) Some show ?thesis by (auto simp: claims_Cons)
    qed
  next
    case (Inr st1)
    note S = resolve_step_Inr [OF Cons.prems(1) Inr]
    from Cons.prems(2) Inr have "resolve_loop n ms st1 = Inl e" by simp
    note IH = Cons.IH [OF S(1) this]
    have E: "claims n (m # ms) + assigned (ss_slots st) = claims n ms + assigned (ss_slots st1)"
      by (simp add: claims_Cons S(2))
    have "None \<in># image_mset fst (claims n ms) \<Longrightarrow> None \<in># image_mset fst (claims n (m # ms))"
      by (auto simp: claims_Cons)
    with IH show ?thesis unfolding E by blast
  qed
qed simp

lemma slots_unique:
  assumes "length xs = length (ys :: int list)"
    and "mset (map (\<lambda>i. (Some i, xs ! i)) [0..<length xs]) = mset (map (\<lambda>i. (Some i, ys ! i)) [0..<length xs])"
  shows "xs = ys"
proof (rule nth_equalityI [OF assms(1)])
  fix i assume "i < length xs"
  then have "(Some i, xs ! i) \<in> set (map (\<lambda>i. (Some i, xs ! i)) [0..<length xs])" by auto
  then have "(Some i, xs ! i) \<in> set (map (\<lambda>i. (Some i, ys ! i)) [0..<length xs])"
    by (metis assms(2) set_mset_mset)
  then show "xs ! i = ys ! i" by auto
qed

lemma slots_exact:
  "resolveGroupKeySlots ms n = Inr slots \<longleftrightarrow>
     length slots = n \<and> \<not> (list_ex unindexed ms \<and> list_ex positional ms)
     \<and> claims n ms = mset (map (\<lambda>i. (Some i, slots ! i)) [0..<n])"
  (is "?L \<longleftrightarrow> ?R")
proof -
  let ?st = "\<lparr>ss_slots = replicate n (-1), ss_unindexed = False, ss_positional = False\<rparr>"
  have "{i. i < n \<and> replicate n (-1) ! i \<noteq> (-1 :: int)} = {}" by auto
  then have A0: "assigned (replicate n (-1)) = {#}" by (simp only: assigned_def length_replicate) simp
  show ?thesis
  proof (cases "resolve_loop n ms ?st")
    case (Inl e)
    from resolve_loop_Inl [OF _ Inl] A0
    have bad: "None \<in># image_mset fst (claims n ms) \<or> (\<exists>s. count (image_mset fst (claims n ms)) (Some s) > 1)" by simp
    have "\<not> ?R"
    proof
      assume ?R
      then have F: "image_mset fst (claims n ms) = mset (map Some [0..<n])"
        by (simp add: multiset.map_comp comp_def)
      have "distinct (map Some [0..<n])" by (simp add: distinct_map)
      then have "count (mset (map Some [0..<n])) x \<le> 1" for x :: "nat option"
        by (metis distinct_count_atmost_1 le_numeral_extra(4) zero_le)
      with bad F show False by (auto simp: not_less [symmetric])
    qed
    moreover have "\<not> ?L" using Inl by (simp add: resolveGroupKeySlots_def)
    ultimately show ?thesis by blast
  next
    case (Inr st')
    from resolve_loop_Inr [OF _ Inr] A0
    have I: "length (ss_slots st') = n" "assigned (ss_slots st') = claims n ms"
      "ss_unindexed st' = list_ex unindexed ms" "ss_positional st' = list_ex positional ms" by simp_all
    have L: "?L \<longleftrightarrow> \<not> (list_ex unindexed ms \<and> list_ex positional ms)
        \<and> (\<forall>i < n. ss_slots st' ! i \<noteq> -1) \<and> slots = ss_slots st'"
      using I by (auto simp: resolveGroupKeySlots_def Inr list_ex_iff in_set_conv_nth)
    have full: "claims n ms = mset (map (\<lambda>i. (Some i, ss_slots st' ! i)) [0..<n])" if "\<forall>i < n. ss_slots st' ! i \<noteq> -1"
      using assigned_full [of "ss_slots st'"] that I by simp
    show ?thesis
    proof
      assume ?L
      with L full I(1) show ?R by auto
    next
      assume R: ?R
      then have "size (claims n ms) = n" by (metis diff_zero length_map length_upt size_mset)
      then have "card {i. i < n \<and> ss_slots st' ! i \<noteq> -1} = card {..<n}"
        using I assigned_size [of "ss_slots st'"] by simp
      then have "{i. i < n \<and> ss_slots st' ! i \<noteq> -1} = {..<n}"
        by (intro card_subset_eq) auto
      then have all: "\<forall>i < n. ss_slots st' ! i \<noteq> -1" by blast
      have "ss_slots st' = slots"
        by (rule slots_unique) (use R full [OF all] I in auto)
      with L all R show ?L by auto
    qed
  qed
qed

text \<open>\<open>resolveGroupKeySlots\<close> succeeds exactly if the tags of the target's group-key fields claim
  each of the slots 0 to \<open>n - 1\<close> exactly once, none is invalid or out of range, and the indexed and the
  unindexed form are not mixed; the result has \<open>n\<close> entries and maps each slot to the field that claims
  it.\<close>

theorem group_key_slots_are_exact:
  "resolveGroupKeySlots ms n = Inr slots \<longleftrightarrow>
     length slots = n \<and> \<not> (list_ex unindexed ms \<and> list_ex positional ms)
     \<and> claims n ms = mset (map (\<lambda>i. (Some i, slots ! i)) [0..<n])"
  by (rule slots_exact)


section \<open>Aggregates\<close>

lemma prefixed_split: "has_prefix t p \<Longrightarrow> t = p @ trim_prefix t p"
proof -
  have "has_prefix t p \<Longrightarrow> t = p @ drop (length p) t"
    by (induction t p rule: has_prefix.induct) auto
  then show "has_prefix t p \<Longrightarrow> t = p @ trim_prefix t p" by (simp add: trim_prefix_def)
qed

lemma agg_of_tag_inj:
  assumes "agg_of_tag t = Some a" "agg_of_tag u = Some a"
  shows "t = u"
  using assms prefixed_split [of t] prefixed_split [of u]
  by (auto simp: agg_of_tag_def split: if_splits) (metis append_same_eq)+

lemma agg_of_key_tag: "isGroupKeyTag t \<Longrightarrow> agg_of_tag t = None"
  by (cases t) (auto simp: isGroupKeyTag_def agg_of_tag_def)

definition indexed :: "group_by_agg list \<Rightarrow> (string \<rightharpoonup> nat) \<Rightarrow> bool" where
  "indexed aggs ix \<longleftrightarrow> (\<forall>t i. ix t = Some i \<longleftrightarrow> i < length aggs \<and> agg_of_tag t = Some (aggs ! i))"

lemma aggs_loop_Inr:
  assumes "aggs_loop ms aggs ix = Inr (aggs', ix')" "indexed aggs ix"
  shows "aggs' = aggs @ List.map_filter (\<lambda>m. agg_of_tag (gf_tag m)) ms \<and> indexed aggs' ix'"
  using assms
proof (induction ms arbitrary: aggs ix)
  case Nil
  then show ?case by (simp add: map_filter_simps)
next
  case (Cons m ms)
  show ?case
  proof (cases "agg_of_tag (gf_tag m)")
    case None
    with Cons show ?thesis by (auto simp: map_filter_simps split: if_splits)
  next
    case (Some a)
    let ?ix = "ix(gf_tag m \<mapsto> length aggs)"
    have nk: "\<not> isGroupKeyTag (gf_tag m)" using Some agg_of_key_tag by fastforce
    with Some Cons.prems(1) have new: "ix (gf_tag m) = None"
      and run: "aggs_loop ms (aggs @ [a]) ?ix = Inr (aggs', ix')" by (auto split: if_splits)
    have "indexed (aggs @ [a]) ?ix"
      unfolding indexed_def
    proof (intro allI)
      fix t i
      have ix: "ix t = Some i \<longleftrightarrow> i < length aggs \<and> agg_of_tag t = Some (aggs ! i)"
        using Cons.prems(2) by (simp add: indexed_def)
      show "?ix t = Some i \<longleftrightarrow> i < length (aggs @ [a]) \<and> agg_of_tag t = Some ((aggs @ [a]) ! i)"
      proof (cases "t = gf_tag m")
        case True
        with ix new Some show ?thesis by (auto simp: nth_append less_Suc_eq)
      next
        case False
        with ix agg_of_tag_inj [OF Some, of t] show ?thesis by (auto simp: nth_append less_Suc_eq)
      qed
    qed
    from Cons.IH [OF run this] Some show ?thesis by (auto simp: map_filter_simps)
  qed
qed

lemma buildAggs_Inr:
  assumes "buildAggsFromMappings ms = Inr (aggs, ix)"
  shows "aggs = List.map_filter (\<lambda>m. agg_of_tag (gf_tag m)) ms" "indexed aggs ix"
  using aggs_loop_Inr [OF assms [unfolded buildAggsFromMappings_def]] by (simp_all add: indexed_def)

section \<open>Mappings of a struct\<close>

lemma group_mappings_index:
  "m \<in> set (group_mappings_from k fs) \<longleftrightarrow>
     (\<exists>p < length fs. m = \<lparr>gf_tag = tf_den (fs ! p), gf_index = k + p\<rparr> \<and> tf_den (fs ! p) \<noteq> [])"
proof (induction fs arbitrary: k)
  case (Cons f fs)
  show ?case
    by (auto simp: Cons.IH Ex_less_Suc2)
qed simp

lemma gf_index_ge: "m \<in> set (group_mappings_from k fs) \<Longrightarrow> k \<le> gf_index m"
  by (auto simp: group_mappings_index)

lemma distinct_group_mappings: "distinct (map gf_index (group_mappings_from k fs))"
  by (induction fs arbitrary: k) (force dest: gf_index_ge)+

lemma map_of_mappings:
  assumes "p < length fs"
  shows "map_of (map (\<lambda>m. (gf_index m, gf_tag m)) (getGroupMappings fs)) p
    = (if tf_den (fs ! p) = [] then None else Some (tf_den (fs ! p)))"
proof -
  let ?ps = "map (\<lambda>m. (gf_index m, gf_tag m)) (getGroupMappings fs)"
  have dist: "distinct (map fst ?ps)"
    by (simp add: getGroupMappings_def comp_def distinct_group_mappings)
  show ?thesis
  proof (cases "tf_den (fs ! p) = []")
    case True
    then show ?thesis by (auto simp: map_of_eq_None_iff getGroupMappings_def group_mappings_index)
  next
    case False
    then have "\<lparr>gf_tag = tf_den (fs ! p), gf_index = p\<rparr> \<in> set (getGroupMappings fs)"
      using assms by (auto simp: getGroupMappings_def group_mappings_index)
    then have "(p, tf_den (fs ! p)) \<in> set ?ps" by force
    with dist False show ?thesis by simp
  qed
qed

lemma map_filter_mappings:
  "List.map_filter (\<lambda>m. agg_of_tag (gf_tag m)) (getGroupMappings fs) = List.map_filter (\<lambda>f. agg_of_tag (tf_den f)) fs"
proof -
  have "agg_of_tag [] = None" by (simp add: agg_of_tag_def)
  then have "List.map_filter (\<lambda>m. agg_of_tag (gf_tag m)) (group_mappings_from k fs)
      = List.map_filter (\<lambda>f. agg_of_tag (tf_den f)) fs" for k
    by (induction fs arbitrary: k) (simp_all add: map_filter_simps split: option.split)
  then show ?thesis by (simp add: getGroupMappings_def)
qed

section \<open>Filling an element\<close>

lemma fill_keys_nth:
  assumes "distinct slots" "list_all (\<lambda>x. 0 \<le> x) slots" "p < length elem"
  shows "fill_keys fs keys k slots elem ! p =
    (case map_of (zip slots [k..<k + length slots]) (int p) of
       None \<Rightarrow> elem ! p
     | Some s \<Rightarrow> (case convert_string (if s < length keys then keys ! s else []) (tf_kind (fs ! p)) of
           None \<Rightarrow> elem ! p | Some v \<Rightarrow> v))"
  using assms
proof (induction slots arbitrary: k elem)
  case (Cons x xs)
  let ?v = "convert_string (if k < length keys then keys ! k else []) (tf_kind (fs ! nat x))"
  let ?elem = "case ?v of None \<Rightarrow> elem | Some v \<Rightarrow> elem[nat x := v]"
  have len: "p < length ?elem" using Cons.prems(3) by (simp split: option.split)
  have step: "fill_keys fs keys k (x # xs) elem = fill_keys fs keys (Suc k) xs ?elem"
    using Cons.prems(2) by (simp add: Let_def)
  have zip: "zip (x # xs) [k..<k + length (x # xs)] = (x, k) # zip xs [Suc k..<Suc k + length xs]"
    by (simp add: upt_conv_Cons del: upt_Suc)
  note IH = Cons.IH [of ?elem "Suc k", OF _ _ len]
  show ?case
  proof (cases "int p = x")
    case True
    then have "map_of (zip xs [Suc k..<Suc k + length xs]) (int p) = None"
      using Cons.prems(1) by (auto simp: map_of_eq_None_iff dest: set_zip_leftD)
    with IH Cons.prems True show ?thesis
      unfolding step zip by (auto split: option.split)
  next
    case False
    then have same: "?elem ! p = elem ! p" using Cons.prems(2) by (auto split: option.split simp: nth_list_update)
    from Cons.prems have "distinct xs" "list_all (\<lambda>x. 0 \<le> x) xs" by simp_all
    from IH [OF this] False show ?thesis
      unfolding step zip same by (simp del: upt_Suc)
  qed
qed simp

lemma length_fill_keys [simp]: "length (fill_keys fs keys k slots elem) = length elem"
  by (induction slots arbitrary: k elem) (auto simp: Let_def split: option.split)

definition agg_cell :: "(string \<Rightarrow> string) \<Rightarrow> (string \<rightharpoonup> nat) \<Rightarrow> string list \<Rightarrow> string \<Rightarrow> tval \<Rightarrow> tval" where
  "agg_cell trunc ix vals t x = (if isGroupKeyTag t then x else (case ix t of None \<Rightarrow> x
     | Some i \<Rightarrow> if t = ''count'' then TInt (trunc (vals ! i)) else TFloat (vals ! i)))"

lemma fill_aggs_nth:
  assumes "fill_aggs trunc fs ix vals ms elem = Ok elem'" "distinct (map gf_index ms)" "p < length elem"
  shows "length elem' = length elem \<and> elem' ! p =
      (case map_of (map (\<lambda>m. (gf_index m, gf_tag m)) ms) p of None \<Rightarrow> elem ! p
       | Some t \<Rightarrow> agg_cell trunc ix vals t (elem ! p))
    \<and> list_all (\<lambda>m. isGroupKeyTag (gf_tag m) \<or> (case ix (gf_tag m) of None \<Rightarrow> True | Some i \<Rightarrow> i < length vals)) ms"
  using assms
proof (induction ms arbitrary: elem)
  case (Cons m ms)
  obtain elem1 where run: "fill_aggs trunc fs ix vals ms elem1 = Ok elem'"
    and e1: "length elem1 = length elem" "elem1 ! p = (if p = gf_index m then agg_cell trunc ix vals (gf_tag m) (elem ! p) else elem ! p)"
    and ok: "isGroupKeyTag (gf_tag m) \<or> (case ix (gf_tag m) of None \<Rightarrow> True | Some i \<Rightarrow> i < length vals)"
    using Cons.prems(1,3)
    by (auto simp: agg_cell_def nth_list_update split: if_splits option.splits)
  have "map_of (map (\<lambda>m. (gf_index m, gf_tag m)) ms) p = None" if "p = gf_index m"
    using that Cons.prems(2) by (auto simp: map_of_eq_None_iff image_iff)
  with Cons.IH [OF run] Cons.prems(2,3) e1 ok show ?case by (auto split: option.splits)
qed simp

text \<open>The cell of a field: the key of the slot it claims, converted; or the value of the aggregate its
  tag names; otherwise the zero value.\<close>

definition cell :: "(string \<Rightarrow> string) \<Rightarrow> nat \<Rightarrow> group_by_agg list \<Rightarrow> group_by_row \<Rightarrow> target_field \<Rightarrow> tval" where
  "cell trunc n aggs row f =
     (if isGroupKeyTag (tf_den f)
      then (case claim n (tf_den f) of None \<Rightarrow> TZero
            | Some s \<Rightarrow> (case convert_string (if s < length (gr_Keys row) then gr_Keys row ! s else []) (tf_kind f) of
                None \<Rightarrow> TZero | Some v \<Rightarrow> v))
      else (case Option.bind (agg_of_tag (tf_den f)) (map_of (zip aggs (gr_Values row))) of
              None \<Rightarrow> TZero
            | Some x \<Rightarrow> if tf_den f = ''count'' then TInt (trunc x) else TFloat x))"

lemma indexedD:
  assumes "indexed aggs ix"
  shows "i < length aggs \<Longrightarrow> agg_of_tag t = Some (aggs ! i) \<Longrightarrow> ix t = Some i"
    and "ix t = Some i \<Longrightarrow> i < length aggs \<and> agg_of_tag t = Some (aggs ! i)"
  using assms by (simp_all add: indexed_def)

lemma indexed_distinct: "indexed aggs ix \<Longrightarrow> i < length aggs \<Longrightarrow> j < length aggs \<Longrightarrow> aggs ! i = aggs ! j
    \<Longrightarrow> agg_of_tag t = Some (aggs ! i) \<Longrightarrow> i = j"
  unfolding indexed_def by (metis option.inject)

lemma zip_lookup:
  assumes "indexed aggs ix" "ix t = Some i" "i < length vals"
  shows "Option.bind (agg_of_tag t) (map_of (zip aggs vals)) = Some (vals ! i)"
proof -
  from assms have i: "i < length aggs" "agg_of_tag t = Some (aggs ! i)" by (auto simp: indexed_def)
  have "map_of (zip aggs vals) (aggs ! i) \<noteq> None"
  proof -
    have "(aggs ! i, vals ! i) \<in> set (zip aggs vals)" using i(1) assms(3) by (auto simp: set_zip)
    then show ?thesis by (metis fst_conv image_eqI map_of_eq_None_iff)
  qed
  then obtain x where x: "map_of (zip aggs vals) (aggs ! i) = Some x" by blast
  obtain j where j: "j < length aggs" "j < length vals" "aggs ! j = aggs ! i" "vals ! j = x"
    using map_of_SomeD [OF x] unfolding set_zip by auto
  have "i = j" by (rule indexed_distinct [OF assms(1) i(1) j(1) j(3) [symmetric] i(2)])
  with x j(4) i(2) show ?thesis by simp
qed

lemma zip_lookup_None:
  assumes "indexed aggs ix" "ix t = None"
  shows "Option.bind (agg_of_tag t) (map_of (zip aggs vals)) = None"
proof (cases "agg_of_tag t")
  case (Some a)
  have "a \<notin> set aggs"
  proof
    assume "a \<in> set aggs"
    then obtain i where "i < length aggs" "aggs ! i = a" by (auto simp: in_set_conv_nth)
    with Some have "i < length aggs" "agg_of_tag t = Some (aggs ! i)" by simp_all
    from indexedD(1) [OF assms(1) this] assms(2) show False by simp
  qed
  then have "map_of (zip aggs vals) a = None" by (auto simp: map_of_eq_None_iff dest: set_zip_leftD)
  with Some show ?thesis by simp
qed simp


section \<open>The result of a group-by\<close>

lemma slots_of_mappings:
  assumes res: "resolveGroupKeySlots (getGroupMappings fs) n = Inr slots" and p: "p < length fs"
  shows "distinct slots" "list_all (\<lambda>x. 0 \<le> x) slots" "length slots = n"
    and "isGroupKeyTag (tf_den (fs ! p)) \<Longrightarrow> \<exists>s < n. claim n (tf_den (fs ! p)) = Some s \<and> map_of (zip slots [0..<n]) (int p) = Some s"
    and "\<not> isGroupKeyTag (tf_den (fs ! p)) \<Longrightarrow> map_of (zip slots [0..<n]) (int p) = None"
proof -
  let ?ms = "getGroupMappings fs"
  from res have len: "length slots = n" and C: "claims n ?ms = mset (map (\<lambda>i. (Some i, slots ! i)) [0..<n])"
    by (simp_all add: slots_exact)
  have S: "set_mset (claims n ?ms) = (\<lambda>i. (Some i, slots ! i)) ` {..<n}" by (simp add: C atLeast_upt)
  have M: "set_mset (claims n ?ms) = {(claim n (tf_den (fs ! q)), int q) |q. q < length fs \<and> isGroupKeyTag (tf_den (fs ! q))}"
  proof -
    have "tf_den (fs ! q) \<noteq> []" if "isGroupKeyTag (tf_den (fs ! q))" for q
      using that by (auto simp: isGroupKeyTag_def)
    then show ?thesis by (force simp: claims_def getGroupMappings_def group_mappings_index)
  qed
  have own: "\<exists>q. slots ! i = int q \<and> q < length fs \<and> isGroupKeyTag (tf_den (fs ! q)) \<and> claim n (tf_den (fs ! q)) = Some i"
    if "i < n" for i
  proof -
    from that S have "(Some i, slots ! i) \<in> set_mset (claims n ?ms)" by auto
    then show ?thesis unfolding M by auto
  qed
  show "length slots = n" by (rule len)
  show "list_all (\<lambda>x. 0 \<le> x) slots" using own len by (fastforce simp: list_all_length)
  show dist: "distinct slots"
  proof (unfold distinct_conv_nth len, intro allI impI)
    fix i j assume "i < n" "j < n" "i \<noteq> j"
    with own [of i] own [of j] show "slots ! i \<noteq> slots ! j" by auto
  qed
  show "\<exists>s < n. claim n (tf_den (fs ! p)) = Some s \<and> map_of (zip slots [0..<n]) (int p) = Some s"
    if "isGroupKeyTag (tf_den (fs ! p))"
  proof -
    have "(claim n (tf_den (fs ! p)), int p) \<in> set_mset (claims n ?ms)" unfolding M using that p by blast
    then obtain s where s: "s < n" "claim n (tf_den (fs ! p)) = Some s" "int p = slots ! s" unfolding S by auto
    then have "map_of (zip slots [0..<n]) (int p) = Some s"
      using dist len by (simp add: map_of_zip_nth)
    with s show ?thesis by blast
  qed
  show "map_of (zip slots [0..<n]) (int p) = None" if not: "\<not> isGroupKeyTag (tf_den (fs ! p))"
  proof -
    have "int p \<notin> set slots"
    proof
      assume "int p \<in> set slots"
      then obtain i where "i < n" "slots ! i = int p" by (auto simp: in_set_conv_nth len)
      with own [of i] not show False by auto
    qed
    then show ?thesis by (auto simp: map_of_eq_None_iff dest: set_zip_leftD)
  qed
qed

lemma filled_element:
  assumes res: "resolveGroupKeySlots (getGroupMappings fs) n = Inr slots"
    and aggs: "buildAggsFromMappings (getGroupMappings fs) = Inr (aggs, ix)"
    and run: "fill_aggs trunc fs ix (gr_Values row) (getGroupMappings fs)
      (fill_keys fs (gr_Keys row) 0 slots (replicate (length fs) TZero)) = Ok e"
  shows "e = map (cell trunc n aggs row) fs"
proof (rule nth_equalityI)
  let ?ms = "getGroupMappings fs"
  let ?k = "fill_keys fs (gr_Keys row) 0 slots (replicate (length fs) TZero)"
  note ixd = buildAggs_Inr(2) [OF aggs]
  have dist: "distinct (map gf_index ?ms)" by (simp add: getGroupMappings_def distinct_group_mappings)
  have len: "length e = length fs"
  proof (cases fs)
    case Nil
    with run have "e = fill_keys [] (gr_Keys row) 0 slots []" by (simp add: getGroupMappings_def)
    then show ?thesis by (simp add: Nil)
  next
    case (Cons f fs')
    then show ?thesis using fill_aggs_nth [OF run dist, of 0] by simp
  qed
  then show "length e = length (map (cell trunc n aggs row) fs)" by simp
  fix p assume "p < length e"
  then have p: "p < length fs" by (simp add: len)
  note A = fill_aggs_nth [OF run dist, of p, simplified, OF p]
  note S = slots_of_mappings [OF res p]
  note K = fill_keys_nth [OF S(1,2), of p "replicate (length fs) TZero" fs "gr_Keys row" 0, simplified, OF p]
  let ?t = "tf_den (fs ! p)"
  have e: "e ! p = (if ?t = [] then ?k ! p else agg_cell trunc ix (gr_Values row) ?t (?k ! p))"
    using A map_of_mappings [OF p] by simp
  show "e ! p = map (cell trunc n aggs row) fs ! p"
  proof (cases "isGroupKeyTag ?t")
    case True
    then have "?t \<noteq> []" by (auto simp: isGroupKeyTag_def)
    moreover obtain s where s: "claim n ?t = Some s" "map_of (zip slots [0..<n]) (int p) = Some s" using S(4) True by blast
    ultimately show ?thesis
      using e K S(3) True p by (simp add: agg_cell_def cell_def split: option.split)
  next
    case False
    with K S(3,5) p have k: "?k ! p = TZero" by simp
    show ?thesis
    proof (cases "?t = []")
      case True
      then show ?thesis using e k p by (simp add: cell_def isGroupKeyTag_def agg_of_tag_def)
    next
      case nonempty: False
      then have m: "\<lparr>gf_tag = ?t, gf_index = p\<rparr> \<in> set ?ms"
        using p by (auto simp: getGroupMappings_def group_mappings_index)
      show ?thesis
      proof (cases "ix ?t")
        case None
        note z = zip_lookup_None [OF ixd None, of "gr_Values row"]
        show ?thesis
          using e k p False nonempty None unfolding nth_map [OF p] cell_def agg_cell_def z by simp
      next
        case (Some i)
        with A m False have "i < length (gr_Values row)" by (force simp: list_all_iff)
        from zip_lookup [OF ixd Some this] show ?thesis
          using e k p False nonempty Some by (simp add: cell_def agg_cell_def)
      qed
    qed
  qed
qed

lemma fill_rows_Ok:
  assumes "fill_rows trunc fs slots ix ms rows acc = Ok res"
    and "\<And>row e. fill_aggs trunc fs ix (gr_Values row) ms (fill_keys fs (gr_Keys row) 0 slots (replicate (length fs) TZero)) = Ok e
      \<Longrightarrow> e = g row"
  shows "res = acc @ map g rows"
  using assms(1)
proof (induction rows arbitrary: acc)
  case (Cons row rows)
  then obtain e where e: "fill_aggs trunc fs ix (gr_Values row) ms (fill_keys fs (gr_Keys row) 0 slots (replicate (length fs) TZero)) = Ok e"
    "fill_rows trunc fs slots ix ms rows (acc @ [e]) = Ok res" by (auto split: outcome.splits)
  from Cons.IH [OF e(2)] assms(2) [OF e(1)] show ?case by simp
qed simp

text \<open>C28. \<open>GroupBy(...).Into\<close>: when it succeeds, it has run exactly one grouped query, for the aggregates
  the target's tags name in field order, with the conditions of the query set and the requested sort,
  and has appended one element per row to the target, in order. In each element every field holds
  what its tag says: the key of the slot it claims, the value of its own aggregate, or nothing.\<close>

theorem group_by_fills_the_target:
  assumes run: "Into env grp trunc gb (SliceOf fs) old w = (Ok res, w')"
  shows "\<exists>col rows. collectionForType env (qs_type (gb_qs gb)) = Inr col
    \<and> grp (col_name col) (gb_fields gb) (List.map_filter (\<lambda>f. agg_of_tag (tf_den f)) fs)
         ((buildBackendQuery (gb_qs gb) col)\<lparr>GroupBySort := gb_sort gb\<rparr>) w = (Ok rows, w')
    \<and> res = old @ map (\<lambda>row. map (cell trunc (length (gb_fields gb)) (List.map_filter (\<lambda>f. agg_of_tag (tf_den f)) fs) row) fs) rows"
proof -
  let ?ms = "getGroupMappings fs" and ?n = "length (gb_fields gb)"
  let ?aggs = "List.map_filter (\<lambda>f. agg_of_tag (tf_den f)) fs"
  from run obtain col where col: "collectionForType env (qs_type (gb_qs gb)) = Inr col"
    by (cases "preflight (gb_qs gb)"; cases "collectionForType env (qs_type (gb_qs gb))")
       (auto simp: Into_def collection_of_def bindP_eq_Ok split: if_splits)
  from run col obtain slots aggs ix rows where
    res: "resolveGroupKeySlots ?ms ?n = Inr slots" and aggs: "buildAggsFromMappings ?ms = Inr (aggs, ix)"
    and rows: "grp (col_name col) (gb_fields gb) aggs ((buildBackendQuery (gb_qs gb) col)\<lparr>GroupBySort := gb_sort gb\<rparr>) w = (Ok rows, w')"
    and fill: "fill_rows trunc fs slots ix ?ms rows old = Ok res"
    by (cases "preflight (gb_qs gb)")
       (auto simp: Into_def collection_of_def Let_def bindP_eq_Ok split: if_splits sum.splits)
  have a: "aggs = ?aggs" using buildAggs_Inr(1) [OF aggs] by (simp add: map_filter_mappings)
  have "res = old @ map (\<lambda>row. map (cell trunc ?n aggs row) fs) rows"
    by (rule fill_rows_Ok [OF fill filled_element [OF res aggs]])
  with col rows a show ?thesis by blast
qed

section \<open>Instances\<close>

text \<open>Two groups over \<open>title\<close>, counted.\<close>

definition note_groups :: group_db where
  "note_groups c keys aggs q w = (Ok [\<lparr>gr_Keys = [''a''], gr_Values = map (\<lambda>_. ''2'') aggs\<rparr>,
     \<lparr>gr_Keys = [''b''], gr_Values = map (\<lambda>_. ''1'') aggs\<rparr>], w)"

definition note_target :: "target_field list" where
  "note_target = [\<lparr>tf_den = ''count'', tf_json = [], tf_kind = KInt\<rparr>, \<lparr>tf_den = [], tf_json = ''x'', tf_kind = KBool\<rparr>,
     \<lparr>tf_den = ''group_key:0'', tf_json = [], tf_kind = KString\<rparr>]"

definition note_group_by :: group_by_builder where
  "note_group_by = GroupBy [''title''] (NewQuery ''Note'' ScopeDB [])"

lemma group_samples:
  "fst (Into (note_env True True) note_groups (\<lambda>x. x) note_group_by (SliceOf note_target) [] (note_world []))
     = Ok [[TInt ''2'', TZero, TText ''a''], [TInt ''1'', TZero, TText ''b'']]"
  by code_simp

theorem group_by_witness:
  "\<exists>rows. map (\<lambda>row. map (cell (\<lambda>x. x) 1 (List.map_filter (\<lambda>f. agg_of_tag (tf_den f)) note_target) row) note_target) rows
     = [[TInt ''2'', TZero, TText ''a''], [TInt ''1'', TZero, TText ''b'']]"
proof -
  obtain w' where run: "Into (note_env True True) note_groups (\<lambda>x. x) note_group_by (SliceOf note_target) [] (note_world [])
     = (Ok [[TInt ''2'', TZero, TText ''a''], [TInt ''1'', TZero, TText ''b'']], w')"
    by (metis group_samples prod.collapse)
  have "length (gb_fields note_group_by) = 1" by code_simp
  with group_by_fills_the_target [OF run] show ?thesis unfolding append_Nil by metis
qed

end
