(* ===== verification/Refinement.thy ===== *)
theory Refinement
  imports Delete_Loop Track_Properties
begin

text \<open>
  A collection as an abstract data type. The specification is a map from identifiers to documents with
  three operations: put a document under its identifier, drop an identifier, look one up; an operation
  that fails leaves the map alone. The refinement says that a client of \<open>Save\<close>, \<open>Delete\<close> and
  \<open>FindByID\<close> on a collection without soft delete sees exactly such a map, for every sequence of calls.
\<close>

section \<open>The specification\<close>

datatype call = CSave doc | CDelete doc | CFind string

datatype reply = RSaved "unit outcome" doc | RDeleted "unit outcome" | RFound "doc outcome"

type_synonym docs = "string \<rightharpoonup> doc"

text \<open>What a document looks like when it is read back: its snapshot is the stored text and its links
  are unloaded.\<close>

definition as_loaded :: "env \<Rightarrow> doc \<Rightarrow> doc" where
  "as_loaded env d = captureSnapshot (e_norm env (Document.encode d)) (unload_doc d)"

inductive spec_step :: "env \<Rightarrow> docs \<Rightarrow> call \<Rightarrow> reply \<Rightarrow> docs \<Rightarrow> bool" for env where
  put: "getID d' \<noteq> [] \<Longrightarrow> getID d = [] \<or> getID d' = getID d
    \<Longrightarrow> spec_step env m (CSave d) (RSaved (Ok ()) d') (m(getID d' \<mapsto> as_loaded env d'))"
| put_fails: "\<not> is_ok r \<Longrightarrow> spec_step env m (CSave d) (RSaved r d') m"
| drop: "spec_step env m (CDelete d) (RDeleted (Ok ())) (m(getID d := None))"
| drop_fails: "\<not> is_ok r \<Longrightarrow> spec_step env m (CDelete d) (RDeleted r) m"
| find_hit: "m i = Some d \<Longrightarrow> spec_step env m (CFind i) (RFound (Ok d)) m"
| find_miss: "m i = None \<Longrightarrow> spec_step env m (CFind i) (RFound (Err (Sent ErrNotFound))) m"

inductive_simps spec_step_simps:
  "spec_step env m (CSave d) (RSaved r d') m'"
  "spec_step env m (CDelete d) (RDeleted r) m'"
  "spec_step env m (CFind i) (RFound r) m'"

inductive spec_run :: "env \<Rightarrow> docs \<Rightarrow> (call \<times> reply) list \<Rightarrow> docs \<Rightarrow> bool" for env where
  no_call: "spec_run env m [] m"
| one_call: "spec_step env m c r m1 \<Longrightarrow> spec_run env m1 crs m' \<Longrightarrow> spec_run env m ((c, r) # crs) m'"

section \<open>The implementation\<close>

fun exec_call :: "env \<Rightarrow> string \<Rightarrow> call \<Rightarrow> world \<Rightarrow> reply \<times> world" where
  "exec_call env ty (CSave d) w = (case Save env ScopeDB [] (d, w) of (r, (d', w')) \<Rightarrow> (RSaved r d', w'))"
| "exec_call env ty (CDelete d) w = (case Delete env ScopeDB [] (d, w) of (r, (d', w')) \<Rightarrow> (RDeleted r, w'))"
| "exec_call env ty (CFind i) w = (case FindByID env ty ScopeDB i [WithoutFetchLinks] w of (r, w') \<Rightarrow> (RFound r, w'))"

fun exec_calls :: "env \<Rightarrow> string \<Rightarrow> call list \<Rightarrow> world \<Rightarrow> (call \<times> reply) list \<times> world" where
  "exec_calls env ty [] w = ([], w)"
| "exec_calls env ty (c # cs) w =
     (case exec_call env ty c w of (r, w1) \<Rightarrow> (case exec_calls env ty cs w1 of (crs, w2) \<Rightarrow> ((c, r) # crs, w2)))"

text \<open>The abstraction: the rows of the table, read back.\<close>

definition docs_of :: "collection_info \<Rightarrow> world \<Rightarrow> docs" where
  "docs_of col w = (\<lambda>i. map_option (\<lambda>j. snd (decodeWithSnapshot j (ci_zero col))) (st_get (w_store w) (col_name col) i))"

text \<open>Documents of the collection's type whose values JSON can carry.\<close>

definition doc_ok :: "collection_info \<Rightarrow> doc \<Rightarrow> bool" where
  "doc_ok col d \<longleftrightarrow> zero_doc d = ci_zero col \<and> wf_doc d"

fun call_ok :: "collection_info \<Rightarrow> call \<Rightarrow> bool" where
  "call_ok col (CSave d) = doc_ok col d"
| "call_ok col (CDelete d) = doc_ok col d"
| "call_ok col (CFind i) = True"

definition state_ok :: "collection_info \<Rightarrow> world \<Rightarrow> bool" where
  "state_ok col w \<longleftrightarrow> calm w \<and> table_ok (w_store w) (col_name col)
     \<and> (\<forall>i j. st_get (w_store w) (col_name col) i = Some j \<longrightarrow> fst (decodeWithSnapshot j (ci_zero col)) = None)"

text \<open>The fields of \<open>document.Base\<close> have their Go types.\<close>

definition base_fields :: "doc \<Rightarrow> bool" where
  "base_fields z \<longleftrightarrow> field_of z FieldID = Some (FStr []) \<and> field_of z FieldRev \<in> {None, Some (FStr [])}
     \<and> field_of z FieldUpdatedAt \<in> {None, Some (FTime zero_time)}"

section \<open>What every step of a save keeps\<close>

definition sane :: "collection_info \<Rightarrow> doc \<times> world \<Rightarrow> bool" where
  "sane col = (\<lambda>(d, w). doc_ok col d \<and> calm w)"

lemma sane_on_snd:
  assumes "\<And>w r w'. m w = (r, w') \<Longrightarrow> calm w \<Longrightarrow> calm w'"
  shows "preserves (sane col) (on_snd m)"
  using assms by (fastforce simp: preserves_def sane_def on_snd_def split: prod.splits)

lemma field_of_zero: "field_of (zero_doc d) n = map_option zero_fval (field_of d n)"
proof -
  have "map_of (map (\<lambda>(n, oe, v). (n, oe, zero_fval v)) fs) n = map_option (\<lambda>(oe, v). (oe, zero_fval v)) (map_of fs n)"
    for fs :: "(string \<times> bool \<times> fval) list"
    by (induction fs) auto
  then show ?thesis by (simp add: field_of_def zero_doc_def option.map_comp comp_def split_def)
qed

lemma field_of_ci_zero: "doc_ok col d \<Longrightarrow> field_of (ci_zero col) n = map_option zero_fval (field_of d n)"
  unfolding doc_ok_def by (metis field_of_zero)

lemma doc_ok_set:
  assumes "doc_ok col d" "field_of (ci_zero col) n = Some (zero_fval v)" "\<And>oe. wf_fval oe v"
  shows "doc_ok col (set_field n v d)"
proof -
  from assms obtain u where "field_of d n = Some u" "zero_fval v = zero_fval u"
    using field_of_ci_zero [OF assms(1), of n] by auto
  with assms show ?thesis by (simp add: doc_ok_def zero_set_field wf_set_field)
qed

lemma doc_ok_capture: "doc_ok col d \<Longrightarrow> doc_ok col (captureSnapshot j d)"
  by (simp add: doc_ok_def wf_doc_def)

lemma calm_backend:
  "be_Get c i w = (r, w') \<Longrightarrow> calm w \<Longrightarrow> calm w'"
  "be_Put env c i j w = (r2, w') \<Longrightarrow> calm w \<Longrightarrow> calm w'"
  "be_Delete c i w = (r3, w') \<Longrightarrow> calm w \<Longrightarrow> calm w'"
  "be_Begin w = (r4, w') \<Longrightarrow> calm w \<Longrightarrow> calm w'"
  "be_Commit w = (r5, w') \<Longrightarrow> calm w \<Longrightarrow> calm w'"
  "be_Rollback w = (r6, w') \<Longrightarrow> calm w \<Longrightarrow> calm w'"
  by (auto simp: be_Get_def be_Put_def be_Delete_def be_Begin_def be_Commit_def be_Rollback_def bindP_def
      close_tx_def calm_def split: option.splits if_splits)

lemma calm_clock:
  "time_now env w = (r, w') \<Longrightarrow> calm w \<Longrightarrow> calm w'" "NewID env w = (r2, w') \<Longrightarrow> calm w \<Longrightarrow> calm w'"
  "newRevision w = (r3, w') \<Longrightarrow> calm w \<Longrightarrow> calm w'"
  by (auto simp: time_now_def NewID_def newRevision_def calm_def split: prod.splits if_splits)

lemma sane_tx:
  assumes "preserves (sane col) fn"
  shows "preserves (sane col) (runInWriteTx fn)"
  unfolding runInWriteTx_def
proof (intro preserves_bind preserves_map_err sane_on_snd)
  fix w r w' assume "be_Begin w = (r, w')" "calm w"
  then show "calm w'" by (rule calm_backend)
next
  fix x :: unit
  show "preserves (sane col) (finish_tx fn)"
    unfolding preserves_def
  proof (intro allI impI)
    fix s assume s: "sane col s"
    obtain q d w where fn: "fn s = (q, (d, w))" by (metis prod_cases3)
    with assms s have "sane col (d, w)" by (metis preserves_def snd_conv)
    then have ok: "doc_ok col d" "calm w" by (simp_all add: sane_def)
    obtain r1 w1 where c: "be_Commit w = (r1, w1)" by fastforce
    obtain r2 w2 where b: "be_Rollback w = (r2, w2)" by fastforce
    from calm_backend(5) [OF c ok(2)] calm_backend(6) [OF b ok(2)] ok(1) show "sane col (snd (finish_tx fn s))"
      by (auto simp: finish_tx_def fn c b sane_def split: outcome.splits)
  qed
qed

lemma preserves_split: "(\<And>d. preserves I (f d)) \<Longrightarrow> preserves I (\<lambda>(d, w). f d (d, w))"
  by (simp add: preserves_def)

lemma preserves_keep: "preserves I (\<lambda>(d, w). (r d w, (d, w)))"
  by (simp add: preserves_def)

lemma preserves_modify_doc:
  assumes "\<And>d. doc_ok col d \<Longrightarrow> doc_ok col (f d)"
  shows "preserves (sane col) (modifyP (\<lambda>(d, w). (f d, w)))"
  using assms by (auto simp: preserves_def sane_def)

lemma sane_set_new_revision: "base_fields (ci_zero col) \<Longrightarrow> preserves (sane col) set_new_revision"
  unfolding set_new_revision_def
proof (intro preserves_bind sane_on_snd preserves_modify_doc)
  fix r d assume "base_fields (ci_zero col)" "doc_ok col d"
  moreover from this have "field_of d FieldRev \<noteq> None \<Longrightarrow> field_of (ci_zero col) FieldRev = Some (zero_fval (FStr r))"
    using field_of_ci_zero [of col d FieldRev] by (auto simp: base_fields_def)
  ultimately show "doc_ok col (setRevision r d)" by (auto simp: setRevision_def intro!: doc_ok_set)
qed (erule calm_clock)

lemma sane_check:
  assumes "base_fields (ci_zero col)"
  shows "preserves (sane col) (checkAndUpdateRevision col ign)"
proof -
  have stored: "preserves (sane col) (check_stored_revision col)"
    unfolding check_stored_revision_def
    by (intro preserves_split preserves_bind sane_on_snd)
       (auto elim: calm_backend simp: preserves_def split: sum.split)
  have "preserves (sane col) (\<lambda>(d, w). if \<not> ign \<and> getID d \<noteq> [] then check_stored_revision col (d, w) else (Ok (), (d, w)))"
    using stored by (auto simp: preserves_def)
  then show ?thesis
    unfolding checkAndUpdateRevision_def
    by (intro preserves_if preserves_bind preserves_return sane_set_new_revision assms)
qed

lemma sane_setBaseFields:
  assumes base: "base_fields (ci_zero col)" and now: "time_text now"
  shows "preserves (sane col) (setBaseFields env now ins)"
  unfolding setBaseFields_def
proof (intro preserves_bind)
  have id: "doc_ok col (set_field FieldID (FStr i) d)" if "doc_ok col d" for i d
    by (rule doc_ok_set [OF that]) (use base in \<open>simp_all add: base_fields_def\<close>)
  have "preserves (sane col) (bindP (on_snd (NewID env)) (\<lambda>i. modifyP (\<lambda>(d, w). (set_field FieldID (FStr i) d, w))))"
    by (intro preserves_bind sane_on_snd preserves_modify_doc id) (erule calm_clock)
  then show "preserves (sane col) (\<lambda>(d, w). if field_of d FieldID \<noteq> None \<and> getID d = []
              then bindP (on_snd (NewID env)) (\<lambda>i. modifyP (\<lambda>(d, w). (set_field FieldID (FStr i) d, w))) (d, w)
              else (Ok (), (d, w)))"
    by (auto simp: preserves_def)
next
  fix x :: unit
  have upd: "doc_ok col (set_field FieldUpdatedAt (FTime now) d)" if "doc_ok col d" "field_of d FieldUpdatedAt \<noteq> None" for d
  proof (rule doc_ok_set [OF that(1)])
    from that have "field_of (ci_zero col) FieldUpdatedAt \<noteq> None"
      by (simp add: field_of_ci_zero [OF that(1)])
    with base show "field_of (ci_zero col) FieldUpdatedAt = Some (zero_fval (FTime now))"
      by (auto simp: base_fields_def)
  qed (use now in simp)
  have cre: "doc_ok col (set_field FieldCreatedAt (FTime now) d)" if "doc_ok col d" "field_of d FieldCreatedAt = Some (FTime t)" for d t
  proof (rule doc_ok_set [OF that(1)])
    from that show "field_of (ci_zero col) FieldCreatedAt = Some (zero_fval (FTime now))"
      by (simp add: field_of_ci_zero [OF that(1)])
  qed (use now in simp)
  show "preserves (sane col) (modifyP (\<lambda>(d, w).
       let d = (if ins \<and> field_of d FieldCreatedAt = Some (FTime zero_time)
                then set_field FieldCreatedAt (FTime now) d else d);
           d = (if field_of d FieldUpdatedAt \<noteq> None then set_field FieldUpdatedAt (FTime now) d else d)
       in (d, w)))"
    using upd cre by (auto simp: preserves_def sane_def Let_def)
qed

lemma sane_put: "preserves (sane col) (put_document env c)"
  unfolding put_document_def
proof (intro preserves_split preserves_bind sane_on_snd preserves_modify_doc)
  fix d d' assume "doc_ok col d'"
  then show "doc_ok col (captureSnapshot (Document.encode d) d')" by (rule doc_ok_capture)
qed (erule calm_backend)

lemma no_hook_phases:
  assumes "no_hooks env"
  shows "preserves I (runPrePersistHooks env col ins)"
    and "(if ins then runAfterInsertHooks env else runAfterUpdateHooks env) = returnP ()"
proof -
  have h: "runHook env k = returnP ()" for k using assms by simp
  have v: "preserves I (validate_tags env)"
    by (auto simp: preserves_def validate_tags_def split: option.split)
  show "preserves I (runPrePersistHooks env col ins)"
    unfolding runPrePersistHooks_def runBeforeInsertHooks_def runBeforeUpdateHooks_def runValidationHooks_def h
    by (intro preserves_intros v)
  show "(if ins then runAfterInsertHooks env else runAfterUpdateHooks env) = returnP ()"
    by (simp add: runAfterInsertHooks_def runAfterUpdateHooks_def h fun_eq_iff)
qed

lemma sane_write:
  assumes base: "base_fields (ci_zero col)" and env: "no_hooks env" "\<And>n. time_text (fst (e_now env n))"
  shows "preserves (sane col) (writeDocCore env col ins ign)"
proof -
  have bf: "preserves (sane col) (bindP (on_snd (time_now env)) (\<lambda>now. bindP (setBaseFields env now ins) (f now)))"
    if "\<And>now x. preserves (sane col) (f now x)" for f
  proof -
    have "sane col (snd (bindP (on_snd (time_now env)) (\<lambda>now. bindP (setBaseFields env now ins) (f now)) (d, w)))"
      if s: "sane col (d, w)" for d w
    proof -
      have "sane col (d, w\<lparr>w_ticks := Suc (w_ticks w)\<rparr>)" using s by (simp add: sane_def calm_def)
      moreover have "preserves (sane col) (bindP (setBaseFields env (fst (e_now env (w_ticks w))) ins) (f (fst (e_now env (w_ticks w)))))"
        by (intro preserves_bind sane_setBaseFields base env(2) \<open>\<And>now x. preserves (sane col) (f now x)\<close>)
      ultimately show ?thesis by (simp add: bindP_def time_now_def on_snd_def preserves_def)
    qed
    then show ?thesis by (auto simp: preserves_def)
  qed
  show ?thesis
    unfolding writeDocCore_def no_hook_phases(2) [OF env(1)]
    by (intro preserves_bind preserves_if no_hook_phases(1) env(1) sane_set_new_revision sane_check base bf sane_put preserves_return)
qed

lemma sane_Save:
  assumes base: "base_fields (ci_zero col)" and env: "no_hooks env" "\<And>n. time_text (fst (e_now env n))"
    and col: "collectionForType env (doc_type (ci_zero col)) = Inr col"
  shows "preserves (sane col) (Save env s [])"
proof -
  note W = sane_write [OF base env]
  have rule: "linkRule (applyCRUDOpts []) \<noteq> LinkWrite" by simp
  have ub: "preserves (sane col) (updateBody env (applyCRUDOpts []) col)"
    unfolding updateBody_def
    by (intro preserves_bind) (use W rule in \<open>auto simp: preserves_def\<close>)
  have "sane col (snd (Save env s [] (d, w)))" if s: "sane col (d, w)" for d w
  proof -
    from s have "doc_type d = doc_type (ci_zero col)" by (auto simp: sane_def doc_ok_def zero_doc_def dest: sym)
    with col have c: "collectionForType env (doc_type d) = Inr col" by simp
    show ?thesis
      using s c rule W [of True False, unfolded preserves_def] ub [unfolded preserves_def] sane_tx [OF ub, unfolded preserves_def]
      by (auto simp: Save_def with_collection_def insertCore_def updateCore_def Let_def)
  qed
  then show ?thesis by (auto simp: preserves_def)
qed

section \<open>One call\<close>

text \<open>A save outside a transaction that does not succeed changes nothing.\<close>

lemma failed_save_store:
  assumes run: "Save env ScopeDB [] (d, w) = (r, (d', w'))" and hooks: "no_hooks env" and bad: "\<not> is_ok r"
  shows "w_store w' = w_store w"
proof (cases "collectionForType env (doc_type d)")
  case (Inl e)
  with run show ?thesis by (simp add: Save_def with_collection_def)
next
  case (Inr col)
  have rule: "linkRule (applyCRUDOpts []) \<noteq> LinkWrite" by simp
  note ok = no_hooks_ok [OF hooks]
  show ?thesis
  proof (cases "ci_UseRevision col \<and> getID d \<noteq> []")
    case True
    with run Inr have "runInWriteTx (updateBody env (applyCRUDOpts []) col) (d, w) = (r, (d', w'))"
      by (simp add: Save_def with_collection_def updateCore_def Let_def scope_in_tx_def)
    from runInWriteTx_not_ok [OF this updateBody_neutral [OF ok] bad] show ?thesis .
  next
    case False
    with run Inr rule have "writeDocCore env col (getID d = []) (ignoreRevision (applyCRUDOpts []) \<and> getID d \<noteq> []) (d, w) = (r, (d', w'))"
      by (cases "getID d = []")
         (simp_all add: Save_def with_collection_def insertCore_def updateCore_def updateBody_def Let_def scope_in_tx_def)
    from writeDocCore_result [OF this ok] hooks bad show ?thesis by blast
  qed
qed

locale plain_collection =
  fixes env :: env and ty :: string and col :: collection_info
  assumes hooks: "no_hooks env" and db: "select_ok env" "norm_ok env" and clock: "\<And>n. time_text (fst (e_now env n))"
    and reg: "collectionForType env ty = Inr col" and ty: "doc_type (ci_zero col) = ty"
    and hard: "\<not> cm_HasSoftDelete (ci_meta col)" and base: "base_fields (ci_zero col)"
begin

lemma type_of: "doc_ok col d \<Longrightarrow> doc_type d = ty"
  using ty by (auto simp: doc_ok_def zero_doc_def dest: sym)

lemma reads_back:
  assumes "doc_ok col d"
  shows "decodeWithSnapshot (e_norm env (Document.encode d)) (ci_zero col) = (None, as_loaded env d)"
proof -
  from assms have wf: "wf_doc d" "zero_doc d = ci_zero col" by (simp_all add: doc_ok_def)
  have "decode_into (e_norm env (Document.encode d)) (zero_doc d) = decode_into (Document.encode d) (zero_doc d)"
    using db(2) wf(1) by (simp add: norm_ok_def)
  then have "decode_into (e_norm env (Document.encode d)) (ci_zero col) = (None, unload_doc d)"
    using decode_encode [OF wf(1)] wf(2) by simp
  then show ?thesis by (simp add: decodeWithSnapshot_def as_loaded_def)
qed

lemma save_refines:
  assumes st: "state_ok col w" and d: "doc_ok col d" and run: "Save env ScopeDB [] (d, w) = (r, (d', w'))"
  shows "spec_step env (docs_of col w) (CSave d) (RSaved r d') (docs_of col w') \<and> state_ok col w'"
proof -
  have "sane col (d', w')"
    by (rule preservesD [OF sane_Save [OF base hooks clock] run]) (use reg ty st d in \<open>simp_all add: sane_def state_ok_def\<close>)
  then have d': "doc_ok col d'" "calm w'" by (simp_all add: sane_def)
  show ?thesis
  proof (cases "is_ok r")
    case False
    from failed_save_store [OF run hooks False] have "w_store w' = w_store w" .
    with False st d' show ?thesis by (simp add: spec_step_simps docs_of_def state_ok_def)
  next
    case True
    then have r: "r = Ok ()" by (cases r) simp_all
    have id: "\<exists>x. field_of d FieldID = Some (FStr x)"
    proof -
      from field_of_ci_zero [OF d, of FieldID] base obtain v where "field_of d FieldID = Some v" "zero_fval v = FStr []"
        by (auto simp: base_fields_def)
      then show ?thesis by (cases v) auto
    qed
    then obtain x where x: "field_of d FieldID = Some (FStr x)" by blast
    have rule: "linkRule (applyCRUDOpts []) \<noteq> LinkWrite" by simp
    have col: "collectionForType env (doc_type d) = Inr col" using reg type_of [OF d] by simp
    note R = save_stores_row [OF run [unfolded r] hooks rule x col]
    have "field_of d' FieldID = Some (FStr (getID d'))"
    proof -
      from field_of_ci_zero [OF d'(1), of FieldID] base obtain v where "field_of d' FieldID = Some v" "zero_fval v = FStr []"
        by (auto simp: base_fields_def)
      then show ?thesis by (cases v) (auto simp: getID_def string_field_def)
    qed
    then have ex: "json_extract (e_norm env (Document.encode d')) ''_id'' = Some (JStr (getID d'))"
      using db(2) d'(1) extract_id [of d' "getID d'"] R by (simp add: norm_ok_def doc_ok_def wf_doc_def)
    obtain d1 where "stored env col d1 w w'" "d' = captureSnapshot (Document.encode d1) d1"
      by (rule Save_Ok_stored [OF run [unfolded r] no_hooks_ok [OF hooks] rule]) (use col hooks in auto)
    then have "table_ok (w_store w') (col_name col)"
      using st table_ok_put [OF _ ex, of "w_store w" "col_name col"] by (simp add: stored_def state_ok_def)
    moreover have "docs_of col w' = (docs_of col w)(getID d' \<mapsto> as_loaded env d')"
      using R reads_back [OF d'(1)] by (auto simp: docs_of_def fun_eq_iff)
    ultimately show ?thesis
      using R r d' st reads_back [OF d'(1)] by (auto simp: spec_step_simps state_ok_def)
  qed
qed

lemma delete_refines:
  assumes st: "state_ok col w" and d: "doc_ok col d" and run: "Delete env ScopeDB [] (d, w) = (r, (d', w'))"
  shows "spec_step env (docs_of col w) (CDelete d) (RDeleted r) (docs_of col w') \<and> state_ok col w'"
proof -
  have rule: "linkRule (applyCRUDOpts []) \<noteq> LinkDelete" by simp
  have col: "collectionForType env (doc_type d) = Inr col" using reg type_of [OF d] by simp
  have hard': "\<not> cm_HasSoftDelete (ci_meta col) \<or> hardDelete (applyCRUDOpts [])" using hard by simp
  note R = hard_delete_row [OF run hooks rule col hard']
  have keep: "calm w' \<and> table_ok (w_store w') (col_name col)"
  proof -
    let ?I = "\<lambda>(d, w). calm w \<and> table_ok (w_store w) (col_name col)"
    have "rows_ok (AList.delete i rs)" if "rows_ok rs" for i rs
    proof -
      have "set (AList.delete i rs) \<subseteq> set rs" by (auto simp: AList.delete_eq)
      with that show ?thesis by (auto simp: rows_ok_def distinct_delete list_all_iff)
    qed
    then have del: "table_ok (st_delete c i st) c" if "table_ok st c" for c i st
      using that by (auto simp: table_ok_def st_delete_def split: option.splits)
    have "?I (snd (on_snd (be_Delete (col_name col) i) (d, w)))" if "?I (d, w)" for i d w
      using that del by (auto simp: on_snd_def be_Delete_def bindP_def calm_def)
    then have b: "preserves ?I (\<lambda>(d, w). on_snd (be_Delete (col_name col) (getID d)) (d, w))"
      by (auto simp: preserves_def)
    have p: "preserves ?I (preflightAttachments env)" "preserves ?I (cleanupAttachments env)"
      by (auto simp: preserves_def preflightAttachments_def cleanupAttachments_def calm_def)
    have eq: "deleteDocCore env False col (applyCRUDOpts []) = bindP (preflightAttachments env) (\<lambda>_.
        bindP (\<lambda>(d, w). on_snd (be_Delete (col_name col) (getID d)) (d, w)) (\<lambda>_.
        bindP (cleanupAttachments env) (\<lambda>_. returnP ())))"
      unfolding deleteDocCore_def runHook_none [OF hooks] using hard by (simp only: if_False HOL.simp_thms)
    have core: "preserves ?I (deleteDocCore env False col (applyCRUDOpts []))"
      unfolding eq by (intro preserves_bind p b preserves_return)
    have "Delete env ScopeDB [] (d, w) = (if getID d = [] then (Err (Wrap ''cannot delete document without ID'' [Sent ErrValidation]), (d, w))
        else deleteDocCore env False col (applyCRUDOpts []) (d, w))"
      using col hooks rule by (simp add: Delete_def deleteCore_def Let_def with_collection_def scope_in_tx_def)
    with run st core show ?thesis by (auto simp: state_ok_def dest!: preservesD split: if_splits)
  qed
  show ?thesis
  proof (cases "is_ok r")
    case True
    then have "r = Ok ()" by (cases r) simp_all
    moreover have "docs_of col w' = (docs_of col w)(getID d := None)"
      using R True by (auto simp: docs_of_def fun_eq_iff)
    ultimately show ?thesis using R True keep st by (auto simp: spec_step_simps state_ok_def split: if_splits)
  next
    case False
    then show ?thesis using R keep st by (simp add: spec_step_simps docs_of_def state_ok_def)
  qed
qed

lemma find_refines:
  assumes st: "state_ok col w" and run: "FindByID env ty ScopeDB i [WithoutFetchLinks] w = (r, w')"
  shows "spec_step env (docs_of col w) (CFind i) (RFound r) (docs_of col w') \<and> state_ok col w'"
proof -
  have opts: "suppressFetchLinks (applyCRUDOpts [WithoutFetchLinks])" by simp
  note F = find_by_id_row [OF db(1) reg _ _ opts, of w ScopeDB i]
  show ?thesis
  proof (cases "st_get (w_store w) (col_name col) i")
    case None
    with F run st show ?thesis by (auto simp: spec_step_simps docs_of_def state_ok_def)
  next
    case (Some j)
    obtain e d where dec: "decodeWithSnapshot j (ci_zero col) = (e, d)" by fastforce
    have "fst (decodeWithSnapshot j (ci_zero col)) = None" using st Some unfolding state_ok_def by blast
    with dec have "e = None" by simp
    with F run st Some dec have "r = Ok d" "w' = w" by (simp_all add: state_ok_def)
    with Some dec st show ?thesis by (simp add: spec_step_simps docs_of_def)
  qed
qed

lemma call_refines:
  assumes "state_ok col w" "call_ok col c" "exec_call env ty c w = (r, w')"
  shows "spec_step env (docs_of col w) c r (docs_of col w') \<and> state_ok col w'"
proof (cases c)
  case (CSave d)
  obtain q d' w1 where run: "Save env ScopeDB [] (d, w) = (q, (d', w1))" by (metis prod_cases3)
  with assms(2,3) save_refines [OF assms(1) _ run] show ?thesis by (simp add: CSave)
next
  case (CDelete d)
  obtain q d' w1 where run: "Delete env ScopeDB [] (d, w) = (q, (d', w1))" by (metis prod_cases3)
  with assms(2,3) delete_refines [OF assms(1) _ run] show ?thesis by (simp add: CDelete)
next
  case (CFind i)
  obtain q w1 where run: "FindByID env ty ScopeDB i [WithoutFetchLinks] w = (q, w1)" by fastforce
  with assms(3) find_refines [OF assms(1) run] show ?thesis by (simp add: CFind)
qed

lemma calls_refine:
  assumes "state_ok col w" "list_all (call_ok col) cs" "exec_calls env ty cs w = (crs, w')"
  shows "map fst crs = cs \<and> spec_run env (docs_of col w) crs (docs_of col w') \<and> state_ok col w'"
  using assms
proof (induction cs arbitrary: w crs)
  case Nil
  then show ?case by (auto intro: spec_run.intros)
next
  case (Cons c cs)
  obtain r w1 where r: "exec_call env ty c w = (r, w1)" by fastforce
  obtain crs1 w2 where rest: "exec_calls env ty cs w1 = (crs1, w2)" by fastforce
  from call_refines [OF Cons.prems(1) _ r] Cons.prems(2) have
    c: "spec_step env (docs_of col w) c r (docs_of col w1)" "state_ok col w1" by simp_all
  from Cons.prems(3) r rest have eq: "crs = (c, r) # crs1" "w' = w2" by simp_all
  have cs: "list_all (call_ok col) cs" using Cons.prems(2) by simp
  from Cons.IH [OF c(2) cs] rest c(1) show ?case
    by (auto simp: eq intro: spec_run.intros)
qed

end

section \<open>The collection of notes\<close>

lemma note_plain: "plain_collection (note_db True False) ''Note'' (note_collection True False)"
proof
  show "doc_type (ci_zero (note_collection True False)) = ''Note''" by (simp add: note_doc_def)
  show "\<not> cm_HasSoftDelete (ci_meta (note_collection True False))" by (simp add: note_collection_def)
  have "base_fields (note_doc [] [] [] [])"
    unfolding base_fields_def by (simp add: field_of_def note_doc_def field_name_defs)
  then show "base_fields (ci_zero (note_collection True False))" by simp
  have "time_text ''2026-01-02T03:04:05Z''" by code_simp
  then show "time_text (fst (e_now (note_db True False) n))" for n by (simp add: note_db_def note_env_def)
qed simp_all

interpretation note_table: plain_collection "note_db True False" "''Note''" "note_collection True False"
  by (rule note_plain)

definition note_calls :: "call list" where
  "note_calls = [CSave (note_doc ''k'' ''r1'' ''c'' []), CFind ''k'', CDelete (note_doc ''k'' ''r1'' ''c'' []), CFind ''k'',
     CSave (note_doc ''k'' ''r1'' ''d'' [])]"

definition call_world :: world where
  "call_world = note_world [note_doc ''k'' ''r1'' ''a'' [], note_doc ''l'' ''r2'' ''b'' []]"

lemma call_samples:
  "list_all (call_ok (note_collection True False)) note_calls"
  "calm call_world" "table_ok (w_store call_world) ''note''"
  by code_simp+

lemma call_world_ok: "state_ok (note_collection True False) call_world"
proof -
  have "list_all (\<lambda>(i, j). fst (decodeWithSnapshot j (note_doc [] [] [] [])) = None) (the (st_tables (w_store call_world) ''note''))"
    by code_simp
  moreover have "st_get (w_store call_world) ''note'' i = Some j
      \<Longrightarrow> (i, j) \<in> set (the (st_tables (w_store call_world) ''note''))" for i j
    by (auto simp: st_get_def split: option.splits dest: map_of_SomeD)
  ultimately have "st_get (w_store call_world) ''note'' i = Some j
      \<Longrightarrow> fst (decodeWithSnapshot j (note_doc [] [] [] [])) = None" for i j
    unfolding list_all_iff by blast
  then show ?thesis
    using call_samples(2,3) by (simp add: state_ok_def note_collection_def col_name_def)
qed

text \<open>C30. A collection without soft delete behaves as a map from identifiers to documents. For every
  sequence of \<open>Save\<close>, \<open>Delete\<close> and \<open>FindByID\<close> calls on documents of its type, what the calls return is
  a run of the abstract map on the documents the table holds: a save that succeeds puts the document
  as it will be read back, a delete that succeeds drops it, a call that fails changes nothing, and a
  lookup returns exactly what the map has or \<open>ErrNotFound\<close>; and the state stays well formed.\<close>

theorem collection_refines_a_map:
  assumes "no_hooks env" "select_ok env" "norm_ok env" "\<And>n. time_text (fst (e_now env n))"
    and "collectionForType env ty = Inr col" "doc_type (ci_zero col) = ty"
    and "\<not> cm_HasSoftDelete (ci_meta col)" "base_fields (ci_zero col)"
    and "state_ok col w" "list_all (call_ok col) cs" "exec_calls env ty cs w = (crs, w')"
  shows "map fst crs = cs \<and> spec_run env (docs_of col w) crs (docs_of col w') \<and> state_ok col w'"
  by (rule plain_collection.calls_refine [OF plain_collection.intro]) (use assms in auto)

theorem collection_refines_witness:
  "case exec_calls (note_db True False) ''Note'' note_calls call_world of (crs, w') \<Rightarrow>
     spec_run (note_db True False) (docs_of (note_collection True False) call_world) crs (docs_of (note_collection True False) w')
     \<and> length crs = 5 \<and> docs_of (note_collection True False) call_world ''k'' \<noteq> None
     \<and> docs_of (note_collection True False) w' ''k'' = None"
proof -
  obtain crs w' where run: "exec_calls (note_db True False) ''Note'' note_calls call_world = (crs, w')" by fastforce
  have "map fst crs = note_calls \<and> spec_run (note_db True False) (docs_of (note_collection True False) call_world) crs (docs_of (note_collection True False) w')"
    using collection_refines_a_map [OF note_table.hooks note_table.db note_table.clock note_table.reg note_table.ty note_table.hard note_table.base
        call_world_ok call_samples(1) run] by blast
  moreover from this have len: "length crs = length note_calls" by (metis length_map)
  from len have "length crs = 5" by (simp add: note_calls_def)
  moreover have "docs_of (note_collection True False) call_world ''k'' \<noteq> None" by code_simp
  moreover have "docs_of (note_collection True False) w' ''k'' = None"
  proof -
    have "docs_of (note_collection True False) (snd (exec_calls (note_db True False) ''Note'' note_calls call_world)) ''k'' = None"
      by code_simp
    then show ?thesis by (simp add: run)
  qed
  ultimately show ?thesis by (simp add: run)
qed

end
