(* ===== verification/Driver.thy ===== *)
theory Driver
  imports Postgres_SQL Aggregate
begin

text \<open>
  SQL drivers and what both backends do with them. The driver (pgx, \<^verbatim>\<open>database/sql\<close> with
  \<^verbatim>\<open>modernc.org/sqlite\<close>) is a parameter: a record of what it does with a statement text and its
  arguments, on a state of its own; a transaction of the driver is part of that state. The theories
  \<open>Postgres_Driver\<close> and \<open>Sqlite_Driver\<close> hold the statements the backends send, in order, and what they
  make of the answers and of the driver's errors. A stored document is its text here.
\<close>

section \<open>Drivers\<close>

text \<open>An error of the driver: a PostgreSQL SQLSTATE, a SQLite result code, the absence of a row, or
  another one.\<close>

datatype derr = PgError string | SqliteError int | NoRows | DrvErr gerr

fun derr_gerr :: "derr \<Rightarrow> gerr" where
  "derr_gerr (PgError code) = Msg (''SQLSTATE '' @ code)"
| "derr_gerr (SqliteError code) = Msg (''sqlite error '' @ dec_int code)"
| "derr_gerr NoRows = Msg ''no rows in result set''"
| "derr_gerr (DrvErr e) = e"

datatype column = CText string | CBool bool | CInt int | CFloat string | CNull

type_synonym ('w, 'a) drv = "'w \<Rightarrow> (derr + 'a) \<times> 'w"

text \<open>A query delivers rows and possibly an error after them; \<open>dr_row\<close> is a query for one row, whose
  error is \<open>NoRows\<close> when there is none.\<close>

record 'w driver =
  dr_exec :: "string \<Rightarrow> gval list \<Rightarrow> ('w, unit) drv"
  dr_query :: "string \<Rightarrow> gval list \<Rightarrow> ('w, column list list \<times> derr option) drv"
  dr_row :: "string \<Rightarrow> gval list \<Rightarrow> ('w, column list) drv"
  dr_prepare :: "string \<Rightarrow> ('w, unit) drv"
  dr_begin :: "('w, unit) drv"
  dr_commit :: "('w, unit) drv"
  dr_rollback :: "('w, unit) drv"

definition liftD :: "(derr \<Rightarrow> gerr) \<Rightarrow> ('w, 'a) drv \<Rightarrow> ('w, 'a) prog" where
  "liftD f m w = (case m w of (Inl e, w') \<Rightarrow> (Err (f e), w') | (Inr x, w') \<Rightarrow> (Ok x, w'))"

text \<open>\<open>QueryRow(\<dots>).Scan(\<dots>)\<close>.\<close>

definition query_row :: "'w driver \<Rightarrow> string \<Rightarrow> gval list \<Rightarrow> (column list \<Rightarrow> derr + 'a) \<Rightarrow> ('w, 'a) drv" where
  "query_row drv sql args scan w = (case dr_row drv sql args w of
      (Inl e, w') \<Rightarrow> (Inl e, w')
    | (Inr r, w') \<Rightarrow> (scan r, w'))"

definition scan_error :: derr where "scan_error = DrvErr (Msg ''Scan error'')"

fun scan_bytes :: "column list \<Rightarrow> derr + string" where
  "scan_bytes [CText s] = Inr s"
| "scan_bytes [CNull] = Inr []"
| "scan_bytes _ = Inl scan_error"

fun scan_bool :: "column list \<Rightarrow> derr + bool" where
  "scan_bool [CBool b] = Inr b"
| "scan_bool [CInt i] = (if i = 0 then Inr False else if i = 1 then Inr True else Inl scan_error)"
| "scan_bool _ = Inl scan_error"

fun scan_int :: "column list \<Rightarrow> derr + int" where
  "scan_int [CInt i] = Inr i"
| "scan_int _ = Inl scan_error"

fun scan_float :: "column list \<Rightarrow> derr + string option" where
  "scan_float [CNull] = Inr None"
| "scan_float [CFloat f] = Inr (Some f)"
| "scan_float [CInt i] = Inr (Some (dec_int i))"
| "scan_float _ = Inl scan_error"

text \<open>\<open>rowsIterator\<close>: the identifiers and texts up to the first row that does not scan, and the error.\<close>

fun scan_id_data :: "column list \<Rightarrow> derr + string \<times> string" where
  "scan_id_data [CText i, CText d] = Inr (i, d)"
| "scan_id_data _ = Inl scan_error"

fun iterate :: "(derr \<Rightarrow> gerr) \<Rightarrow> column list list \<Rightarrow> derr option \<Rightarrow> (string \<times> string) list \<times> gerr option" where
  "iterate f [] e = ([], map_option f e)"
| "iterate f (r # rs) e = (case scan_id_data r of
      Inl er \<Rightarrow> ([], Some (f er))
    | Inr x \<Rightarrow> (case iterate f rs e of (xs, er) \<Rightarrow> (x # xs, er)))"

type_synonym iterator = "(string \<times> string) list \<times> gerr option"

text \<open>The rows of a grouped query (its aggregate columns are numbers): NULL keys read as the empty text, NULL values as zero.\<close>

fun key_text :: "column \<Rightarrow> string" where
  "key_text (CText s) = s"
| "key_text (CInt i) = dec_int i"
| "key_text (CFloat f) = f"
| "key_text (CBool b) = (if b then ''true'' else ''false'')"
| "key_text CNull = []"

fun value_text :: "column \<Rightarrow> derr + string" where
  "value_text (CFloat f) = Inr f"
| "value_text (CInt i) = Inr (dec_int i)"
| "value_text CNull = Inr ''0''"
| "value_text _ = Inl scan_error"

fun value_texts :: "column list \<Rightarrow> derr + string list" where
  "value_texts [] = Inr []"
| "value_texts (c # cs) = (case value_text c of Inl e \<Rightarrow> Inl e
     | Inr v \<Rightarrow> (case value_texts cs of Inl e \<Rightarrow> Inl e | Inr vs \<Rightarrow> Inr (v # vs)))"

definition scan_group_row :: "nat \<Rightarrow> nat \<Rightarrow> column list \<Rightarrow> derr + group_by_row" where
  "scan_group_row numKeys numAggs r =
     (if length r \<noteq> numKeys + numAggs then Inl scan_error
      else (case value_texts (drop numKeys r) of Inl e \<Rightarrow> Inl e
        | Inr vs \<Rightarrow> Inr \<lparr>gr_Keys = map key_text (take numKeys r), gr_Values = vs\<rparr>))"

fun scan_group_rows :: "nat \<Rightarrow> nat \<Rightarrow> column list list \<Rightarrow> derr option \<Rightarrow> derr + group_by_row list" where
  "scan_group_rows k a [] e = (case e of None \<Rightarrow> Inr [] | Some er \<Rightarrow> Inl er)"
| "scan_group_rows k a (r # rs) e = (case scan_group_row k a r of Inl er \<Rightarrow> Inl er
     | Inr g \<Rightarrow> (case scan_group_rows k a rs e of Inl er \<Rightarrow> Inl er | Inr gs \<Rightarrow> Inr (g # gs)))"

definition scanGroupByRows :: "'w driver \<Rightarrow> string \<Rightarrow> gval list \<Rightarrow> nat \<Rightarrow> nat \<Rightarrow> ('w, group_by_row list) drv" where
  "scanGroupByRows drv sql args numKeys numAggs w = (case dr_query drv sql args w of
      (Inl e, w') \<Rightarrow> (Inl e, w')
    | (Inr (rs, e), w') \<Rightarrow> (scan_group_rows numKeys numAggs rs e, w'))"

definition not_found_or :: "(derr \<Rightarrow> gerr) \<Rightarrow> derr \<Rightarrow> gerr" where
  "not_found_or f e = (if e = NoRows then Sent ErrNotFound else f e)"

section \<open>Schema texts and index rows\<close>

text \<open>A line break and the indentation of a raw string of the source.\<close>

definition line :: "nat \<Rightarrow> string" where
  "line n = CHR 0x0A # replicate n (CHR 0x09)"

definition metadataTableName :: string where "metadataTableName = ''_den_indexes''"

text \<open>\<open>json.Marshal\<close> of a list of field names and the parse of such a text are parameters: \<open>enc\<close> and \<open>unenc\<close>.\<close>

fun recorded_rows :: "(column list \<Rightarrow> derr + bool) \<Rightarrow> (string \<Rightarrow> gerr + string list) \<Rightarrow> column list list \<Rightarrow> derr option \<Rightarrow> gerr + index_definition list" where
  "recorded_rows scan unenc [] e = (case e of None \<Rightarrow> Inr [] | Some er \<Rightarrow> Inl (derr_gerr er))"
| "recorded_rows scan unenc (r # rs) e = (case r of
      [CText name, CText fs, u] \<Rightarrow> (case scan [u] of
          Inl er \<Rightarrow> Inl (derr_gerr er)
        | Inr uniq \<Rightarrow> (case unenc fs of
            Inl er \<Rightarrow> Inl er
          | Inr fl \<Rightarrow> (case recorded_rows scan unenc rs e of
              Inl er \<Rightarrow> Inl er
            | Inr xs \<Rightarrow> Inr (\<lparr>ix_Name = name, ix_Fields = fl, ix_Unique = uniq\<rparr> # xs))))
    | _ \<Rightarrow> Inl (derr_gerr scan_error))"


end
