(* ===== verification/Postgres_Driver.thy ===== *)
theory Postgres_Driver
  imports Driver
begin

text \<open>
  The PostgreSQL backend over a driver: \<^verbatim>\<open>backend/postgres/postgres.go\<close>,
  \<^verbatim>\<open>backend/postgres/transaction.go\<close>, \<^verbatim>\<open>backend/postgres/schema.go\<close>, \<^verbatim>\<open>backend/postgres/fts.go\<close> and
  \<^verbatim>\<open>backend/postgres/version.go\<close>. The operations of \<open>backend\<close> carry the prefix \<open>pg_\<close>, those of
  \<open>transaction\<close> the prefix \<open>pgtx_\<close>; they differ in their statements and error handling only.
\<close>

section \<open>PostgreSQL\<close>

definition mapPGError :: "derr \<Rightarrow> gerr" where
  "mapPGError e = (case e of
      PgError code \<Rightarrow>
        if code = ''23505'' then Wrap [] [Sent ErrDuplicate, derr_gerr e]
        else if code = ''55P03'' then Sent ErrLocked
        else if code = ''40P01'' then Wrap [] [Sent ErrDeadlock, derr_gerr e]
        else if code = ''40001'' then Wrap [] [Sent ErrSerialization, derr_gerr e]
        else derr_gerr e
    | _ \<Rightarrow> derr_gerr e)"

record sql_set =
  ss_get :: string
  ss_put :: string
  ss_delete :: string

text \<open>The cache per collection holds what is computed and is not modelled.\<close>

definition getSQLs :: "string \<Rightarrow> sql_set" where
  "getSQLs collection = (let q = quoteIdent collection in
     \<lparr>ss_get = ''SELECT data::text FROM '' @ q @ '' WHERE id = $1'',
      ss_put = ''INSERT INTO '' @ q @ '' (id, data) VALUES ($1, $2::jsonb) ON CONFLICT (id) DO UPDATE SET data = $2::jsonb'',
      ss_delete = ''DELETE FROM '' @ q @ '' WHERE id = $1''\<rparr>)"

definition pg_Get :: "'w driver \<Rightarrow> string \<Rightarrow> string \<Rightarrow> ('w, string) prog" where
  "pg_Get drv collection i =
     liftD (not_found_or derr_gerr) (query_row drv (ss_get (getSQLs collection)) [GStr i] scan_bytes)"

definition pg_Put :: "'w driver \<Rightarrow> string \<Rightarrow> string \<Rightarrow> string \<Rightarrow> ('w, unit) prog" where
  "pg_Put drv collection i data =
     liftD mapPGError (dr_exec drv (ss_put (getSQLs collection)) [GStr i, GBytes (Some data)])"

definition pg_Delete :: "'w driver \<Rightarrow> string \<Rightarrow> string \<Rightarrow> ('w, unit) prog" where
  "pg_Delete drv collection i = liftD mapPGError (dr_exec drv (ss_delete (getSQLs collection)) [GStr i])"

definition pg_iterator :: "(derr \<Rightarrow> gerr) \<Rightarrow> 'w driver \<Rightarrow> string \<times> gval list \<Rightarrow> ('w, iterator) prog" where
  "pg_iterator f drv = (\<lambda>(sql, args) w. case dr_query drv sql args w of
      (Inl e, w') \<Rightarrow> (Err (f e), w') | (Inr (rs, e), w') \<Rightarrow> (Ok (iterate mapPGError rs e), w'))"

definition pg_Query :: "'w driver \<Rightarrow> string \<Rightarrow> query \<Rightarrow> ('w, iterator) prog" where
  "pg_Query drv collection q = pg_iterator derr_gerr drv (buildSelectSQL_pg collection q)"

definition pg_Count :: "'w driver \<Rightarrow> string \<Rightarrow> query \<Rightarrow> ('w, int) prog" where
  "pg_Count drv collection q = (case buildCountSQL_pg collection q of
      (sql, args) \<Rightarrow> liftD derr_gerr (query_row drv sql args scan_int))"

definition pg_Exists :: "'w driver \<Rightarrow> string \<Rightarrow> query \<Rightarrow> ('w, bool) prog" where
  "pg_Exists drv collection q = (case buildExistsSQL_pg collection q of
      (sql, args) \<Rightarrow> liftD derr_gerr (query_row drv sql args scan_bool))"

definition pg_Aggregate :: "'w driver \<Rightarrow> string \<Rightarrow> aggregate_op \<Rightarrow> string \<Rightarrow> query \<Rightarrow> ('w, string option) prog" where
  "pg_Aggregate drv collection op f q = (case buildAggregateSQL_pg collection op f q of
      Inl e \<Rightarrow> throwP e
    | Inr (sql, args) \<Rightarrow> liftD derr_gerr (query_row drv sql args scan_float))"

definition pg_GroupBy :: "'w driver \<Rightarrow> string \<Rightarrow> string list \<Rightarrow> group_by_agg list \<Rightarrow> query \<Rightarrow> ('w, group_by_row list) prog" where
  "pg_GroupBy drv collection groupFields aggs q = (case buildGroupBySQL_pg collection groupFields aggs q of
      Inl e \<Rightarrow> throwP e
    | Inr (sql, args) \<Rightarrow> liftD derr_gerr (scanGroupByRows drv sql args (length groupFields) (length aggs)))"

definition pg_Search :: "'w driver \<Rightarrow> string \<Rightarrow> string \<Rightarrow> query \<Rightarrow> ('w, iterator) prog" where
  "pg_Search drv collection term q = pg_iterator derr_gerr drv (buildFTSSearchSQL_pg collection term q)"

definition pg_DropCollection :: "'w driver \<Rightarrow> string \<Rightarrow> ('w, unit) prog" where
  "pg_DropCollection drv name = liftD derr_gerr (dr_exec drv (''DROP TABLE IF EXISTS '' @ quoteIdent name @ '' CASCADE'') [])"

definition pg_Begin :: "'w driver \<Rightarrow> ('w, unit) prog" where
  "pg_Begin drv = liftD derr_gerr (dr_begin drv)"

subsection \<open>Its transactions\<close>

definition pgtx_Get :: "'w driver \<Rightarrow> string \<Rightarrow> string \<Rightarrow> ('w, string) prog" where
  "pgtx_Get drv collection i =
     liftD (not_found_or derr_gerr) (query_row drv (ss_get (getSQLs collection)) [GStr i] scan_bytes)"

definition pgtx_AdvisoryLock :: "'w driver \<Rightarrow> int \<Rightarrow> ('w, unit) prog" where
  "pgtx_AdvisoryLock drv key = liftD mapPGError (dr_exec drv ''SELECT pg_advisory_xact_lock($1)'' [GInt key])"

definition pgtx_GetForUpdate :: "'w driver \<Rightarrow> string \<Rightarrow> string \<Rightarrow> lock_mode \<Rightarrow> ('w, string) prog" where
  "pgtx_GetForUpdate drv collection i mode =
     (let suffix = (case mode of LockDefault \<Rightarrow> [] | LockSkipLocked \<Rightarrow> '' SKIP LOCKED'' | LockNoWait \<Rightarrow> '' NOWAIT'')
      in liftD (not_found_or mapPGError) (query_row drv
           (''SELECT data::text FROM '' @ quoteIdent collection @ '' WHERE id = $1 FOR UPDATE'' @ suffix) [GStr i] scan_bytes))"

definition pgtx_Put :: "'w driver \<Rightarrow> string \<Rightarrow> string \<Rightarrow> string \<Rightarrow> ('w, unit) prog" where
  "pgtx_Put drv collection i data =
     liftD mapPGError (dr_exec drv (ss_put (getSQLs collection)) [GStr i, GBytes (Some data)])"

definition pgtx_Delete :: "'w driver \<Rightarrow> string \<Rightarrow> string \<Rightarrow> ('w, unit) prog" where
  "pgtx_Delete drv collection i = liftD derr_gerr (dr_exec drv (ss_delete (getSQLs collection)) [GStr i])"

definition pgtx_Query :: "'w driver \<Rightarrow> string \<Rightarrow> query \<Rightarrow> ('w, iterator) prog" where
  "pgtx_Query drv collection q = pg_iterator mapPGError drv (buildSelectSQL_pg collection q)"

definition pgtx_Count :: "'w driver \<Rightarrow> string \<Rightarrow> query \<Rightarrow> ('w, int) prog" where
  "pgtx_Count drv collection q = (case buildCountSQL_pg collection q of
      (sql, args) \<Rightarrow> liftD derr_gerr (query_row drv sql args scan_int))"

definition pgtx_Exists :: "'w driver \<Rightarrow> string \<Rightarrow> query \<Rightarrow> ('w, bool) prog" where
  "pgtx_Exists drv collection q = (case buildExistsSQL_pg collection q of
      (sql, args) \<Rightarrow> liftD derr_gerr (query_row drv sql args scan_bool))"

definition pgtx_Aggregate :: "'w driver \<Rightarrow> string \<Rightarrow> aggregate_op \<Rightarrow> string \<Rightarrow> query \<Rightarrow> ('w, string option) prog" where
  "pgtx_Aggregate drv collection op f q = (case buildAggregateSQL_pg collection op f q of
      Inl e \<Rightarrow> throwP e
    | Inr (sql, args) \<Rightarrow> liftD derr_gerr (query_row drv sql args scan_float))"

definition pgtx_GroupBy :: "'w driver \<Rightarrow> string \<Rightarrow> string list \<Rightarrow> group_by_agg list \<Rightarrow> query \<Rightarrow> ('w, group_by_row list) prog" where
  "pgtx_GroupBy drv collection groupFields aggs q = (case buildGroupBySQL_pg collection groupFields aggs q of
      Inl e \<Rightarrow> throwP e
    | Inr (sql, args) \<Rightarrow> liftD derr_gerr (scanGroupByRows drv sql args (length groupFields) (length aggs)))"

definition pgtx_Search :: "'w driver \<Rightarrow> string \<Rightarrow> string \<Rightarrow> query \<Rightarrow> ('w, iterator) prog" where
  "pgtx_Search drv collection term q = pg_iterator derr_gerr drv (buildFTSSearchSQL_pg collection term q)"

definition pgtx_Commit :: "'w driver \<Rightarrow> ('w, unit) prog" where
  "pgtx_Commit drv = liftD derr_gerr (dr_commit drv)"

definition pgtx_Rollback :: "'w driver \<Rightarrow> ('w, unit) prog" where
  "pgtx_Rollback drv = liftD derr_gerr (dr_rollback drv)"

subsection \<open>Its schema\<close>

definition pg_ensureMetadataTable :: "'w driver \<Rightarrow> ('w, unit) prog" where
  "pg_ensureMetadataTable drv = liftD derr_gerr (dr_exec drv
     (''CREATE TABLE IF NOT EXISTS '' @ quoteIdent metadataTableName @ '' ('' @ line 2 @ ''collection TEXT NOT NULL,''
        @ line 2 @ ''name TEXT NOT NULL,'' @ line 2 @ ''fields JSONB NOT NULL,'' @ line 2 @ ''is_unique BOOLEAN NOT NULL,''
        @ line 2 @ ''created_at TIMESTAMPTZ NOT NULL DEFAULT NOW(),'' @ line 2 @ ''PRIMARY KEY (collection, name)''
        @ line 1 @ '')'') [])"

definition pg_recordIndex :: "'w driver \<Rightarrow> (string list \<Rightarrow> string) \<Rightarrow> string \<Rightarrow> string \<Rightarrow> index_definition \<Rightarrow> ('w, unit) prog" where
  "pg_recordIndex drv enc now collection idx = liftD derr_gerr (dr_exec drv
     (''INSERT INTO '' @ quoteIdent metadataTableName @ '' (collection, name, fields, is_unique, created_at)''
        @ line 2 @ ''VALUES ($1, $2, $3::jsonb, $4, $5)'' @ line 2 @ ''ON CONFLICT (collection, name) DO UPDATE SET''
        @ line 3 @ ''fields = EXCLUDED.fields,'' @ line 3 @ ''is_unique = EXCLUDED.is_unique'')
     [GStr collection, GStr (ix_Name idx), GStr (enc (ix_Fields idx)), GBool (ix_Unique idx), GTime now now])"

definition pg_forgetIndex :: "'w driver \<Rightarrow> string \<Rightarrow> ('w, unit) prog" where
  "pg_forgetIndex drv name = liftD derr_gerr (dr_exec drv
     (''DELETE FROM '' @ quoteIdent metadataTableName @ '' WHERE name = $1'') [GStr name])"

definition pg_listRecordedIndexes :: "'w driver \<Rightarrow> (string \<Rightarrow> gerr + string list) \<Rightarrow> string \<Rightarrow> ('w, index_definition list) prog" where
  "pg_listRecordedIndexes drv unenc collection w = (case dr_query drv
     (''SELECT name, fields, is_unique FROM '' @ quoteIdent metadataTableName @ '' WHERE collection = $1 ORDER BY name'')
     [GStr collection] w of
       (Inl e, w') \<Rightarrow> (Err (derr_gerr e), w')
     | (Inr (rs, e), w') \<Rightarrow> (case recorded_rows scan_bool unenc rs e of Inl er \<Rightarrow> (Err er, w') | Inr xs \<Rightarrow> (Ok xs, w')))"

definition pg_isIndexInvalid :: "'w driver \<Rightarrow> string \<Rightarrow> ('w, bool) prog" where
  "pg_isIndexInvalid drv indexName w = (case query_row drv
     (line 2 @ ''SELECT i.indisvalid'' @ line 2 @ ''FROM pg_index i'' @ line 2 @ ''JOIN pg_class c ON c.oid = i.indexrelid''
        @ line 2 @ ''JOIN pg_namespace n ON n.oid = c.relnamespace''
        @ line 2 @ ''WHERE c.relname = $1 AND n.nspname = current_schema()'' @ line 1) [GStr indexName] scan_bool w of
       (Inl e, w') \<Rightarrow> (if e = NoRows then (Ok False, w') else (Err (derr_gerr e), w'))
     | (Inr valid, w') \<Rightarrow> (Ok (\<not> valid), w'))"

definition pg_ensureConcurrentIndex :: "'w driver \<Rightarrow> string \<Rightarrow> string \<Rightarrow> ('w, unit) prog" where
  "pg_ensureConcurrentIndex drv indexName createSQL = bindP (pg_isIndexInvalid drv indexName) (\<lambda>invalid.
     bindP (if invalid
            then liftD derr_gerr (dr_exec drv (''DROP INDEX CONCURRENTLY IF EXISTS '' @ quoteIdent indexName) [])
            else returnP ()) (\<lambda>_.
     liftD derr_gerr (dr_exec drv createSQL [])))"

definition pg_createTable :: "'w driver \<Rightarrow> string \<Rightarrow> ('w, unit) prog" where
  "pg_createTable drv name =
     bindP (liftD derr_gerr (dr_exec drv (''CREATE TABLE IF NOT EXISTS '' @ quoteIdent name @ '' ('' @ line 2
        @ ''id TEXT PRIMARY KEY,'' @ line 2 @ ''data JSONB NOT NULL'' @ line 1 @ '')'') [])) (\<lambda>_.
     let gin = ''idx_'' @ name @ ''_gin'' in
     pg_ensureConcurrentIndex drv gin (''CREATE INDEX CONCURRENTLY IF NOT EXISTS '' @ quoteIdent gin @ '' ON ''
        @ quoteIdent name @ '' USING GIN(data jsonb_path_ops)''))"

definition pg_EnsureIndex :: "'w driver \<Rightarrow> (string list \<Rightarrow> string) \<Rightarrow> string \<Rightarrow> string \<Rightarrow> index_definition \<Rightarrow> ('w, unit) prog" where
  "pg_EnsureIndex drv enc now collection idx = (case createExpressionIndexSQL_pg collection idx of
      None \<Rightarrow> returnP ()
    | Some sql \<Rightarrow> bindP (pg_ensureConcurrentIndex drv (ix_Name idx) sql)
        (\<lambda>_. pg_recordIndex drv enc now collection idx))"

definition pg_DropIndex :: "'w driver \<Rightarrow> string \<Rightarrow> ('w, unit) prog" where
  "pg_DropIndex drv name =
     bindP (liftD derr_gerr (dr_exec drv (''DROP INDEX IF EXISTS '' @ quoteIdent name) [])) (\<lambda>_. pg_forgetIndex drv name)"

definition pg_EnsureFTS :: "'w driver \<Rightarrow> string \<Rightarrow> string list \<Rightarrow> ('w, unit) prog" where
  "pg_EnsureFTS drv collection fs =
     bindP (liftD (\<lambda>e. Wrap ''add tsvector column'' [derr_gerr e]) (dr_exec drv
        (''ALTER TABLE '' @ quoteIdent collection @ '' ADD COLUMN IF NOT EXISTS _fts_vector tsvector GENERATED ALWAYS AS (''
           @ tsvector_expr fs @ '') STORED'') [])) (\<lambda>_.
     liftD (\<lambda>e. Wrap ''create FTS GIN index'' [derr_gerr e]) (dr_exec drv
        (''CREATE INDEX IF NOT EXISTS '' @ quoteIdent (''idx_'' @ collection @ ''_fts'') @ '' ON '' @ quoteIdent collection
           @ '' USING GIN(_fts_vector)'') []))"

text \<open>\<open>Open\<close> after the pool is dialed; on an error the pool is closed again.\<close>

definition serverVersion :: "'w driver \<Rightarrow> ('w, nat) prog" where
  "serverVersion drv = bindP (liftD (\<lambda>e. Wrap ''query server version'' [derr_gerr e])
       (query_row drv ''SHOW server_version_num'' [] scan_bytes)) (\<lambda>raw.
     case Atoi raw of None \<Rightarrow> throwP (Wrap (''parse server version '' @ raw) [Msg ''invalid syntax''])
     | Some n \<Rightarrow> returnP (nat n))"

definition pg_Open :: "'w driver \<Rightarrow> ('w, unit) prog" where
  "pg_Open drv = map_err (\<lambda>e. Wrap ''postgres open'' [e])
     (bindP (serverVersion drv) (\<lambda>v. bindP (checkP (checkMinVersion v)) (\<lambda>_. pg_ensureMetadataTable drv)))"

end
