(* ===== verification/Sqlite_Driver.thy ===== *)
theory Sqlite_Driver
  imports Driver
begin

text \<open>
  The SQLite backend over a driver: \<^verbatim>\<open>backend/sqlite/sqlite.go\<close>, \<^verbatim>\<open>backend/sqlite/transaction.go\<close>,
  \<^verbatim>\<open>backend/sqlite/schema.go\<close> and \<^verbatim>\<open>backend/sqlite/fts.go\<close>. The operations of \<open>backend\<close> carry the
  prefix \<open>lite_\<close>, those of \<open>transaction\<close> the prefix \<open>litetx_\<close>. The single-row operations of the backend
  prepare their three statements once per collection: their state is the list of the collections
  prepared so far, next to the state of the driver. Closing a statement and its error, which the code
  ignores, are not modelled.
\<close>

definition mapSQLiteError :: "derr \<Rightarrow> gerr" where
  "mapSQLiteError e = (if e = SqliteError 2067 then Wrap [] [Sent ErrDuplicate, derr_gerr e] else derr_gerr e)"

section \<open>Single rows\<close>

definition get_sql :: "string \<Rightarrow> string" where
  "get_sql collection = ''SELECT json(data) FROM '' @ go_quote collection @ '' WHERE id = ?''"

definition put_sql :: "string \<Rightarrow> string" where
  "put_sql collection = ''INSERT INTO '' @ go_quote collection
     @ '' (id, data) VALUES (?, jsonb(?)) ON CONFLICT(id) DO UPDATE SET data = jsonb(?)''"

definition delete_sql :: "string \<Rightarrow> string" where
  "delete_sql collection = ''DELETE FROM '' @ go_quote collection @ '' WHERE id = ?''"

type_synonym 'w lite = "string list \<times> 'w"

definition getStmts :: "'w driver \<Rightarrow> string \<Rightarrow> ('w lite, unit) prog" where
  "getStmts drv collection = (\<lambda>(stmts, w).
     if collection \<in> set stmts then (Ok (), stmts, w)
     else (case bindP (liftD derr_gerr (dr_prepare drv (get_sql collection))) (\<lambda>_.
                bindP (liftD derr_gerr (dr_prepare drv (put_sql collection))) (\<lambda>_.
                liftD derr_gerr (dr_prepare drv (delete_sql collection)))) w of
             (Ok u, w') \<Rightarrow> (Ok (), collection # stmts, w')
           | (r, w') \<Rightarrow> (r, stmts, w')))"

definition lite_Get :: "'w driver \<Rightarrow> string \<Rightarrow> string \<Rightarrow> ('w lite, string) prog" where
  "lite_Get drv collection i = bindP (getStmts drv collection) (\<lambda>_.
     on_snd (liftD (not_found_or derr_gerr) (query_row drv (get_sql collection) [GStr i] scan_bytes)))"

definition lite_Put :: "'w driver \<Rightarrow> string \<Rightarrow> string \<Rightarrow> string \<Rightarrow> ('w lite, unit) prog" where
  "lite_Put drv collection i data = bindP (getStmts drv collection) (\<lambda>_.
     on_snd (liftD mapSQLiteError
       (dr_exec drv (put_sql collection) [GStr i, GBytes (Some data), GBytes (Some data)])))"

definition lite_Delete :: "'w driver \<Rightarrow> string \<Rightarrow> string \<Rightarrow> ('w lite, unit) prog" where
  "lite_Delete drv collection i = bindP (getStmts drv collection) (\<lambda>_.
     on_snd (liftD derr_gerr (dr_exec drv (delete_sql collection) [GStr i])))"

section \<open>Queries\<close>

definition lite_iterator :: "'w driver \<Rightarrow> string \<times> gval list \<Rightarrow> ('w, iterator) prog" where
  "lite_iterator drv = (\<lambda>(sql, args) w. case dr_query drv sql args w of
      (Inl e, w') \<Rightarrow> (Err (derr_gerr e), w') | (Inr (rs, e), w') \<Rightarrow> (Ok (iterate derr_gerr rs e), w'))"

definition lite_Query :: "'w driver \<Rightarrow> string \<Rightarrow> query \<Rightarrow> ('w, iterator) prog" where
  "lite_Query drv collection q = lite_iterator drv (buildSelectSQL_lite collection q)"

definition lite_Count :: "'w driver \<Rightarrow> string \<Rightarrow> query \<Rightarrow> ('w, int) prog" where
  "lite_Count drv collection q = (case buildCountSQL_lite collection q of
      (sql, args) \<Rightarrow> liftD derr_gerr (query_row drv sql args scan_int))"

definition lite_Exists :: "'w driver \<Rightarrow> string \<Rightarrow> query \<Rightarrow> ('w, bool) prog" where
  "lite_Exists drv collection q = (case buildExistsSQL_lite collection q of
      (sql, args) \<Rightarrow> liftD derr_gerr (query_row drv sql args scan_bool))"

definition lite_Aggregate :: "'w driver \<Rightarrow> string \<Rightarrow> aggregate_op \<Rightarrow> string \<Rightarrow> query \<Rightarrow> ('w, string option) prog" where
  "lite_Aggregate drv collection op f q = (case buildAggregateSQL_lite collection op f q of
      Inl e \<Rightarrow> throwP e
    | Inr (sql, args) \<Rightarrow> liftD derr_gerr (query_row drv sql args scan_float))"

definition lite_GroupBy :: "'w driver \<Rightarrow> string \<Rightarrow> string list \<Rightarrow> group_by_agg list \<Rightarrow> query \<Rightarrow> ('w, group_by_row list) prog" where
  "lite_GroupBy drv collection groupFields aggs q = (case buildGroupBySQL_lite collection groupFields aggs q of
      Inl e \<Rightarrow> throwP e
    | Inr (sql, args) \<Rightarrow> liftD derr_gerr (scanGroupByRows drv sql args (length groupFields) (length aggs)))"

definition lite_Search :: "'w driver \<Rightarrow> string \<Rightarrow> string \<Rightarrow> query \<Rightarrow> ('w, iterator) prog" where
  "lite_Search drv collection term q = lite_iterator drv (buildFTSSearchSQL_lite collection term q)"

definition lite_DropCollection :: "'w driver \<Rightarrow> string \<Rightarrow> ('w, unit) prog" where
  "lite_DropCollection drv name = liftD derr_gerr (dr_exec drv (''DROP TABLE IF EXISTS '' @ go_quote name) [])"

definition lite_Begin :: "'w driver \<Rightarrow> ('w, unit) prog" where
  "lite_Begin drv = liftD derr_gerr (dr_begin drv)"

section \<open>Transactions\<close>

definition litetx_Get :: "'w driver \<Rightarrow> string \<Rightarrow> string \<Rightarrow> ('w, string) prog" where
  "litetx_Get drv collection i =
     liftD (not_found_or derr_gerr) (query_row drv (get_sql collection) [GStr i] scan_bytes)"

definition litetx_GetForUpdate :: "'w driver \<Rightarrow> string \<Rightarrow> string \<Rightarrow> lock_mode \<Rightarrow> ('w, string) prog" where
  "litetx_GetForUpdate drv collection i mode = litetx_Get drv collection i"

definition litetx_AdvisoryLock :: "'w driver \<Rightarrow> int \<Rightarrow> ('w, unit) prog" where
  "litetx_AdvisoryLock drv key = returnP ()"

definition litetx_Put :: "'w driver \<Rightarrow> string \<Rightarrow> string \<Rightarrow> string \<Rightarrow> ('w, unit) prog" where
  "litetx_Put drv collection i data = liftD mapSQLiteError
     (dr_exec drv (put_sql collection) [GStr i, GBytes (Some data), GBytes (Some data)])"

definition litetx_Delete :: "'w driver \<Rightarrow> string \<Rightarrow> string \<Rightarrow> ('w, unit) prog" where
  "litetx_Delete drv collection i = liftD derr_gerr (dr_exec drv (delete_sql collection) [GStr i])"

definition litetx_Query :: "'w driver \<Rightarrow> string \<Rightarrow> query \<Rightarrow> ('w, iterator) prog" where
  "litetx_Query drv collection q = lite_iterator drv (buildSelectSQL_lite collection q)"

definition litetx_Count :: "'w driver \<Rightarrow> string \<Rightarrow> query \<Rightarrow> ('w, int) prog" where
  "litetx_Count drv collection q = (case buildCountSQL_lite collection q of
      (sql, args) \<Rightarrow> liftD derr_gerr (query_row drv sql args scan_int))"

definition litetx_Exists :: "'w driver \<Rightarrow> string \<Rightarrow> query \<Rightarrow> ('w, bool) prog" where
  "litetx_Exists drv collection q = (case buildExistsSQL_lite collection q of
      (sql, args) \<Rightarrow> liftD derr_gerr (query_row drv sql args scan_bool))"

definition litetx_Aggregate :: "'w driver \<Rightarrow> string \<Rightarrow> aggregate_op \<Rightarrow> string \<Rightarrow> query \<Rightarrow> ('w, string option) prog" where
  "litetx_Aggregate drv collection op f q = (case buildAggregateSQL_lite collection op f q of
      Inl e \<Rightarrow> throwP e
    | Inr (sql, args) \<Rightarrow> liftD derr_gerr (query_row drv sql args scan_float))"

definition litetx_GroupBy :: "'w driver \<Rightarrow> string \<Rightarrow> string list \<Rightarrow> group_by_agg list \<Rightarrow> query \<Rightarrow> ('w, group_by_row list) prog" where
  "litetx_GroupBy drv collection groupFields aggs q = (case buildGroupBySQL_lite collection groupFields aggs q of
      Inl e \<Rightarrow> throwP e
    | Inr (sql, args) \<Rightarrow> liftD derr_gerr (scanGroupByRows drv sql args (length groupFields) (length aggs)))"

definition litetx_Search :: "'w driver \<Rightarrow> string \<Rightarrow> string \<Rightarrow> query \<Rightarrow> ('w, iterator) prog" where
  "litetx_Search drv collection term q = lite_iterator drv (buildFTSSearchSQL_lite collection term q)"

definition litetx_Commit :: "'w driver \<Rightarrow> ('w, unit) prog" where
  "litetx_Commit drv = liftD derr_gerr (dr_commit drv)"

definition litetx_Rollback :: "'w driver \<Rightarrow> ('w, unit) prog" where
  "litetx_Rollback drv = liftD derr_gerr (dr_rollback drv)"

section \<open>Schema\<close>

definition lite_createTable :: "'w driver \<Rightarrow> string \<Rightarrow> ('w, unit) prog" where
  "lite_createTable drv name = liftD derr_gerr (dr_exec drv (''CREATE TABLE IF NOT EXISTS '' @ go_quote name @ '' (''
     @ line 2 @ ''id TEXT PRIMARY KEY,'' @ line 2 @ ''data BLOB NOT NULL'' @ line 1 @ '')'') [])"

definition lite_ensureMetadataTable :: "'w driver \<Rightarrow> ('w, unit) prog" where
  "lite_ensureMetadataTable drv = liftD derr_gerr (dr_exec drv
     (''CREATE TABLE IF NOT EXISTS '' @ go_quote metadataTableName @ '' ('' @ line 2 @ ''collection TEXT NOT NULL,''
        @ line 2 @ ''name TEXT NOT NULL,'' @ line 2 @ ''fields TEXT NOT NULL,'' @ line 2 @ ''is_unique INTEGER NOT NULL,''
        @ line 2 @ ''created_at TEXT NOT NULL,'' @ line 2 @ ''PRIMARY KEY (collection, name)'' @ line 1 @ '')'') [])"

definition lite_recordIndex :: "'w driver \<Rightarrow> (string list \<Rightarrow> string) \<Rightarrow> string \<Rightarrow> string \<Rightarrow> index_definition \<Rightarrow> ('w, unit) prog" where
  "lite_recordIndex drv enc now collection idx = liftD derr_gerr (dr_exec drv
     (''INSERT INTO '' @ go_quote metadataTableName @ '' (collection, name, fields, is_unique, created_at)''
        @ line 2 @ ''VALUES (?, ?, ?, ?, ?)'' @ line 2 @ ''ON CONFLICT (collection, name) DO UPDATE SET''
        @ line 3 @ ''fields = excluded.fields,'' @ line 3 @ ''is_unique = excluded.is_unique'')
     [GStr collection, GStr (ix_Name idx), GStr (enc (ix_Fields idx)), GInt (if ix_Unique idx then 1 else 0), GStr now])"

definition lite_EnsureIndex :: "'w driver \<Rightarrow> (string list \<Rightarrow> string) \<Rightarrow> string \<Rightarrow> string \<Rightarrow> index_definition \<Rightarrow> ('w, unit) prog" where
  "lite_EnsureIndex drv enc now collection idx = (case createExpressionIndexSQL_lite collection idx of
      None \<Rightarrow> returnP ()
    | Some sql \<Rightarrow> bindP (liftD derr_gerr (dr_exec drv sql []))
        (\<lambda>_. lite_recordIndex drv enc now collection idx))"

definition lite_forgetIndex :: "'w driver \<Rightarrow> string \<Rightarrow> ('w, unit) prog" where
  "lite_forgetIndex drv name = liftD derr_gerr (dr_exec drv
     (''DELETE FROM '' @ go_quote metadataTableName @ '' WHERE name = ?'') [GStr name])"

definition lite_DropIndex :: "'w driver \<Rightarrow> string \<Rightarrow> ('w, unit) prog" where
  "lite_DropIndex drv name =
     bindP (liftD derr_gerr (dr_exec drv (''DROP INDEX IF EXISTS '' @ go_quote name) [])) (\<lambda>_. lite_forgetIndex drv name)"

text \<open>\<open>is_unique\<close> is scanned into an \<open>int\<close> and compared with zero.\<close>

fun scan_nonzero :: "column list \<Rightarrow> derr + bool" where
  "scan_nonzero [CInt i] = Inr (i \<noteq> 0)"
| "scan_nonzero _ = Inl scan_error"

definition lite_listRecordedIndexes :: "'w driver \<Rightarrow> (string \<Rightarrow> gerr + string list) \<Rightarrow> string \<Rightarrow> ('w, index_definition list) prog" where
  "lite_listRecordedIndexes drv unenc collection w = (case dr_query drv
     (''SELECT name, fields, is_unique FROM '' @ go_quote metadataTableName @ '' WHERE collection = ? ORDER BY name'')
     [GStr collection] w of
       (Inl e, w') \<Rightarrow> (Err (derr_gerr e), w')
     | (Inr (rs, e), w') \<Rightarrow> (case recorded_rows scan_nonzero unenc rs e of Inl er \<Rightarrow> (Err er, w') | Inr xs \<Rightarrow> (Ok xs, w')))"

section \<open>Full-text search set-up\<close>

definition insert_trigger :: "string \<Rightarrow> string \<Rightarrow> string list \<Rightarrow> string" where
  "insert_trigger collection fieldList jsonPaths = (let ftsTable = collection @ ''_fts'' in
     ''CREATE TRIGGER IF NOT EXISTS '' @ go_quote (collection @ ''_fts_insert'') @ '' AFTER INSERT ON '' @ go_quote collection
       @ '' BEGIN'' @ line 3 @ ''INSERT INTO '' @ go_quote ftsTable @ ''(rowid, '' @ fieldList @ '') VALUES (NEW.rowid, ''
       @ ftsExtractExprs ''NEW.data'' jsonPaths @ '');'' @ line 2 @ ''END'')"

definition delete_row_text :: "string \<Rightarrow> string \<Rightarrow> string list \<Rightarrow> string" where
  "delete_row_text ftsTable fieldList jsonPaths = ''INSERT INTO '' @ go_quote ftsTable @ ''('' @ go_quote ftsTable
     @ '', rowid, '' @ fieldList @ '') VALUES ('' @ squoted ''delete'' @ '', OLD.rowid, ''
     @ ftsExtractExprs ''OLD.data'' jsonPaths @ '');''"

definition delete_trigger :: "string \<Rightarrow> string \<Rightarrow> string list \<Rightarrow> string" where
  "delete_trigger collection fieldList jsonPaths =
     ''CREATE TRIGGER IF NOT EXISTS '' @ go_quote (collection @ ''_fts_delete'') @ '' BEFORE DELETE ON '' @ go_quote collection
       @ '' BEGIN'' @ line 3 @ delete_row_text (collection @ ''_fts'') fieldList jsonPaths @ line 2 @ ''END''"

definition update_trigger :: "string \<Rightarrow> string \<Rightarrow> string list \<Rightarrow> string" where
  "update_trigger collection fieldList jsonPaths = (let ftsTable = collection @ ''_fts'' in
     ''CREATE TRIGGER IF NOT EXISTS '' @ go_quote (collection @ ''_fts_update'') @ '' AFTER UPDATE ON '' @ go_quote collection
       @ '' BEGIN'' @ line 3 @ delete_row_text ftsTable fieldList jsonPaths
       @ line 3 @ ''INSERT INTO '' @ go_quote ftsTable @ ''(rowid, '' @ fieldList @ '') VALUES (NEW.rowid, ''
       @ ftsExtractExprs ''NEW.data'' jsonPaths @ '');'' @ line 2 @ ''END'')"

definition createFTSTriggers :: "'w driver \<Rightarrow> string \<Rightarrow> string \<Rightarrow> string list \<Rightarrow> ('w, unit) prog" where
  "createFTSTriggers drv collection fieldList jsonPaths =
     bindP (liftD (\<lambda>e. Wrap ''create FTS insert trigger'' [derr_gerr e])
       (dr_exec drv (insert_trigger collection fieldList jsonPaths) [])) (\<lambda>_.
     bindP (liftD (\<lambda>e. Wrap ''create FTS delete trigger'' [derr_gerr e])
       (dr_exec drv (delete_trigger collection fieldList jsonPaths) [])) (\<lambda>_.
     liftD (\<lambda>e. Wrap ''create FTS update trigger'' [derr_gerr e])
       (dr_exec drv (update_trigger collection fieldList jsonPaths) [])))"

text \<open>The deferred \<open>Rollback\<close> reaches the driver when the transaction is still open, that is on every
  error between \<open>BeginTx\<close> and \<open>Commit\<close>; its own error is ignored.\<close>

definition or_rollback :: "'w driver \<Rightarrow> ('w, unit) prog \<Rightarrow> ('w, unit) prog" where
  "or_rollback drv body w = (case body w of
      (Ok u, w') \<Rightarrow> liftD derr_gerr (dr_commit drv) w'
    | (r, w') \<Rightarrow> (r, snd (dr_rollback drv w')))"

definition fts_first_creation :: "'w driver \<Rightarrow> string \<Rightarrow> string \<Rightarrow> string list \<Rightarrow> ('w, unit) prog" where
  "fts_first_creation drv collection fieldList jsonPaths = (let ftsTable = collection @ ''_fts'' in
     bindP (liftD (\<lambda>e. Wrap ''create FTS5 table'' [derr_gerr e]) (dr_exec drv
        (''CREATE VIRTUAL TABLE '' @ go_quote ftsTable @ '' USING fts5('' @ fieldList @ '', content='' @ go_quote collection
           @ '', content_rowid=rowid)'') [])) (\<lambda>_.
     bindP (createFTSTriggers drv collection fieldList jsonPaths) (\<lambda>_.
     liftD (\<lambda>e. Wrap ''backfill FTS index'' [derr_gerr e]) (dr_exec drv
        (''INSERT INTO '' @ go_quote ftsTable @ ''(rowid, '' @ fieldList @ '') SELECT rowid, ''
           @ ftsExtractExprs ''data'' jsonPaths @ '' FROM '' @ go_quote collection) []))))"

definition fts_exists_sql :: string where
  "fts_exists_sql = ''SELECT EXISTS(SELECT 1 FROM sqlite_master WHERE type='' @ squoted ''table'' @ '' AND name=?)''"

definition lite_EnsureFTS :: "'w driver \<Rightarrow> string \<Rightarrow> string list \<Rightarrow> ('w, unit) prog" where
  "lite_EnsureFTS drv collection fs =
     (let jsonPaths = map SanitizeFieldName fs;
          fieldList = join '', '' (map IdentifierSegment jsonPaths)
      in bindP (liftD (\<lambda>e. Wrap ''check FTS5 table existence'' [derr_gerr e])
           (query_row drv fts_exists_sql [GStr (collection @ ''_fts'')] scan_bool)) (\<lambda>ex.
         if ex then createFTSTriggers drv collection fieldList jsonPaths
         else bindP (liftD (\<lambda>e. Wrap ''begin FTS setup'' [derr_gerr e]) (dr_begin drv)) (\<lambda>_.
           or_rollback drv (fts_first_creation drv collection fieldList jsonPaths))))"

section \<open>The regular-expression function\<close>

text \<open>\<open>regexp.Compile\<close> is a parameter; the cache of compiled expressions is the state. The scalar function
  answers 0 for arguments that are not texts and for a pattern that does not compile.\<close>

definition maxRegexpCacheSize :: nat where "maxRegexpCacheSize = 256"

type_synonym 're regexp_cache = "(string \<times> 're) list"

definition getOrCompileRegexp :: "(string \<Rightarrow> 're option) \<Rightarrow> string \<Rightarrow> 're regexp_cache \<Rightarrow> 're option \<times> 're regexp_cache" where
  "getOrCompileRegexp compile pattern cache = (case map_of cache pattern of
      Some re \<Rightarrow> (Some re, cache)
    | None \<Rightarrow> (case compile pattern of
        None \<Rightarrow> (None, cache)
      | Some re \<Rightarrow> (Some re, (pattern, re) # (if length cache \<ge> maxRegexpCacheSize then [] else cache))))"

definition regexp_function ::
  "(string \<Rightarrow> 're option) \<Rightarrow> ('re \<Rightarrow> string \<Rightarrow> bool) \<Rightarrow> column \<times> column \<Rightarrow> 're regexp_cache \<Rightarrow> int \<times> 're regexp_cache" where
  "regexp_function compile match args cache = (case args of
      (CText pattern, CText v) \<Rightarrow>
        (case getOrCompileRegexp compile pattern cache of
           (None, cache') \<Rightarrow> (0, cache')
         | (Some re, cache') \<Rightarrow> (if match re v then 1 else 0, cache'))
    | _ \<Rightarrow> (0, cache))"

end
