(* ===== verification/Driver_Properties.thy ===== *)
theory Driver_Properties
  imports Postgres_Driver Sqlite_Driver
begin

text \<open>
  What the backends make of a driver: which operations report the error classes of \<^verbatim>\<open>engine/errors.go\<close>,
  that the two backends answer the single-row operations alike over drivers that do what their
  statements say, that the SQLite search set-up is all or nothing over a transactional driver, and that
  the cache of compiled expressions is invisible.
\<close>

section \<open>Error classes\<close>

lemma liftD_simps [simp]:
  "m w = (Inl e, w') \<Longrightarrow> liftD f m w = (Err (f e), w')"
  "m w = (Inr x, w') \<Longrightarrow> liftD f m w = (Ok x, w')"
  by (simp_all add: liftD_def)

definition void :: "('w, 'a) prog \<Rightarrow> ('w, unit) prog" where
  "void m = bindP m (\<lambda>_. returnP ())"

definition reports :: "('w, unit) prog \<Rightarrow> 'w \<Rightarrow> sentinel \<Rightarrow> bool" where
  "reports m w s = (case fst (m w) of Err e \<Rightarrow> errors_is e s | _ \<Rightarrow> False)"

definition sqlstate_class :: "string \<Rightarrow> sentinel option" where
  "sqlstate_class code = map_of [(''23505'', ErrDuplicate), (''55P03'', ErrLocked), (''40P01'', ErrDeadlock),
     (''40001'', ErrSerialization)] code"

text \<open>In the state \<open>w\<close> the server refuses every statement with the same SQLSTATE.\<close>

definition refuses :: "'w driver \<Rightarrow> string \<Rightarrow> 'w \<Rightarrow> bool" where
  "refuses drv code w \<longleftrightarrow>
     (\<forall>sql args. fst (dr_exec drv sql args w) = Inl (PgError code) \<and> fst (dr_query drv sql args w) = Inl (PgError code)
        \<and> fst (dr_row drv sql args w) = Inl (PgError code)) \<and> fst (dr_commit drv w) = Inl (PgError code)"

definition mapped_ops :: "'w driver \<Rightarrow> string \<Rightarrow> string \<Rightarrow> string \<Rightarrow> lock_mode \<Rightarrow> query \<Rightarrow> ('w, unit) prog list" where
  "mapped_ops drv c i d mode q = [pg_Put drv c i d, pg_Delete drv c i, pgtx_Put drv c i d, pgtx_AdvisoryLock drv 0,
     void (pgtx_GetForUpdate drv c i mode), void (pgtx_Query drv c q)]"

definition unmapped_ops :: "'w driver \<Rightarrow> string \<Rightarrow> string \<Rightarrow> query \<Rightarrow> ('w, unit) prog list" where
  "unmapped_ops drv c i q = [pgtx_Delete drv c i, pgtx_Commit drv, void (pg_Get drv c i), void (pgtx_Get drv c i),
     void (pg_Query drv c q), void (pgtx_Count drv c q), void (pgtx_Exists drv c q), void (pgtx_Search drv c i q)]"

lemma mapPGError_class:
  "sqlstate_class code = Some s \<Longrightarrow> errors_is (mapPGError (PgError code)) s"
  by (auto simp: sqlstate_class_def mapPGError_def split: if_splits)

lemma fails_liftD: "fst (m w) = Inl e \<Longrightarrow> fst (liftD f m w) = Err (f e)"
  by (cases "m w") (simp add: liftD_def)

lemma fst_void: "fst (m w) = Err e \<Longrightarrow> fst (void m w) = Err e"
  by (cases "m w") (simp add: void_def bindP_def)

lemma fails_query_row: "fst (dr_row drv sql args w) = Inl e \<Longrightarrow> fst (query_row drv sql args scan w) = Inl e"
  by (cases "dr_row drv sql args w") (simp add: query_row_def)

lemma fails_iterator: "fst (dr_query drv sql args w) = Inl e \<Longrightarrow> fst (pg_iterator f drv (sql, args) w) = Err (f e)"
  by (cases "dr_query drv sql args w") (simp add: pg_iterator_def)

lemma refused:
  assumes "refuses drv code w"
  shows "fst (liftD f (dr_exec drv sql args) w) = Err (f (PgError code))"
    "fst (liftD f (query_row drv sql args scan) w) = Err (f (PgError code))"
    "fst (liftD f (dr_commit drv) w) = Err (f (PgError code))"
    "fst (pg_iterator f drv p w) = Err (f (PgError code))"
  using assms by (auto simp: refuses_def intro!: fails_liftD fails_query_row)
    (cases p, simp add: fails_iterator)

lemma reports_Err: "fst (m w) = Err e \<Longrightarrow> reports m w s = errors_is e s"
  by (simp add: reports_def)

lemma mapped_ops_report:
  assumes "refuses drv code w" and "sqlstate_class code = Some s"
  shows "list_all (\<lambda>m. reports m w s) (mapped_ops drv c i d mode q)"
  using mapPGError_class [OF assms(2)]
  by (simp add: mapped_ops_def reports_Err fst_void refused [OF assms(1)] pg_Put_def pg_Delete_def pgtx_Put_def
      pgtx_AdvisoryLock_def pgtx_GetForUpdate_def pgtx_Query_def not_found_or_def Let_def)

lemma unmapped_ops_silent:
  assumes "refuses drv code w"
  shows "list_all (\<lambda>m. \<not> reports m w s) (unmapped_ops drv c i q)"
  by (simp add: unmapped_ops_def reports_Err fst_void refused [OF assms] pgtx_Delete_def pgtx_Commit_def pg_Get_def
      pgtx_Get_def pg_Query_def pgtx_Count_def pgtx_Exists_def pgtx_Search_def not_found_or_def split: prod.split)

text \<open>C33. When PostgreSQL refuses a statement with one of the four SQLSTATEs Den classifies, the writes of
  the pool, the writes and locks of a transaction and the opening of its query report the class
  (\<open>errors.Is\<close>); the deletion, the reads, the search and the commit of a transaction, and the reads of
  the pool, report none of them.\<close>

theorem postgres_errors_are_classified_in_part:
  assumes "refuses drv code w" and "sqlstate_class code = Some s"
  shows "list_all (\<lambda>m. reports m w s) (mapped_ops drv c i d mode q)
    \<and> list_all (\<lambda>m. \<not> reports m w s) (unmapped_ops drv c i q)"
  using mapped_ops_report [OF assms] unmapped_ops_silent [OF assms(1)] by blast

definition deadlocked :: "unit driver" where
  "deadlocked =
     \<lparr>dr_exec = \<lambda>_ _ w. (Inl (PgError ''40P01''), w), dr_query = \<lambda>_ _ w. (Inl (PgError ''40P01''), w),
      dr_row = \<lambda>_ _ w. (Inl (PgError ''40P01''), w), dr_prepare = \<lambda>_ w. (Inr (), w),
      dr_begin = \<lambda>w. (Inr (), w), dr_commit = \<lambda>w. (Inl (PgError ''40P01''), w), dr_rollback = \<lambda>w. (Inr (), w)\<rparr>"

theorem postgres_errors_witness:
  "reports (pgtx_Put deadlocked ''note'' ''1'' ''{}'') () ErrDeadlock
   \<and> \<not> reports (pgtx_Delete deadlocked ''note'' ''1'') () ErrDeadlock"
proof -
  have "refuses deadlocked ''40P01'' ()" "sqlstate_class ''40P01'' = Some ErrDeadlock"
    by (simp_all add: refuses_def deadlocked_def sqlstate_class_def)
  from postgres_errors_are_classified_in_part [OF this] show ?thesis
    by (simp add: mapped_ops_def unmapped_ops_def)
qed

section \<open>All or nothing\<close>

text \<open>What a driver with transactions promises: \<open>vis\<close> is the database as the connection sees it, \<open>saved\<close>
  what it was when the open transaction began. \<open>Rollback\<close> and a failed \<open>Commit\<close> return to it.\<close>

definition transactional :: "'w driver \<Rightarrow> ('w \<Rightarrow> 'd) \<Rightarrow> ('w \<Rightarrow> 'd option) \<Rightarrow> bool" where
  "transactional drv vis saved \<longleftrightarrow> (\<forall>w.
     (case dr_begin drv w of (r, w') \<Rightarrow> vis w' = vis w \<and> saved w' = (if isl r then saved w else Some (vis w)))
     \<and> (\<forall>sql args. saved (snd (dr_exec drv sql args w)) = saved w)
     \<and> (\<forall>sql args. saved (snd (dr_row drv sql args w)) = saved w \<and> vis (snd (dr_row drv sql args w)) = vis w)
     \<and> (\<forall>d. saved w = Some d \<longrightarrow> vis (snd (dr_rollback drv w)) = d
          \<and> (case dr_commit drv w of (r, w') \<Rightarrow> vis w' = (if isl r then d else vis w))))"

lemma transactionalD:
  assumes "transactional drv vis saved"
  shows "dr_begin drv w = (r, w') \<Longrightarrow> vis w' = vis w \<and> saved w' = (if isl r then saved w else Some (vis w))"
    "dr_exec drv sql args w = (q, w') \<Longrightarrow> saved w' = saved w"
    "dr_row drv sql args w = (x, w') \<Longrightarrow> saved w' = saved w \<and> vis w' = vis w"
    "saved w = Some d \<Longrightarrow> vis (snd (dr_rollback drv w)) = d"
    "saved w = Some d \<Longrightarrow> dr_commit drv w = (q, w') \<Longrightarrow> vis w' = (if isl q then d else vis w)"
proof -
  note t = assms [unfolded transactional_def, THEN spec, of w]
  show "dr_begin drv w = (r, w') \<Longrightarrow> vis w' = vis w \<and> saved w' = (if isl r then saved w else Some (vis w))"
    using t by simp
  show "dr_exec drv sql args w = (q, w') \<Longrightarrow> saved w' = saved w" using t by (metis snd_conv)
  show "dr_row drv sql args w = (x, w') \<Longrightarrow> saved w' = saved w \<and> vis w' = vis w" using t by (metis snd_conv)
  show "saved w = Some d \<Longrightarrow> vis (snd (dr_rollback drv w)) = d" using t by blast
  show "saved w = Some d \<Longrightarrow> dr_commit drv w = (q, w') \<Longrightarrow> vis w' = (if isl q then d else vis w)"
    using t by simp
qed

lemma saved_exec:
  "transactional drv vis saved \<Longrightarrow> preserves (\<lambda>w. saved w = x) (liftD f (dr_exec drv sql args))"
  using transactionalD(2) [of drv vis saved sql args]
  by (fastforce simp: preserves_def liftD_def split: prod.split sum.split)

lemma saved_creation:
  assumes "transactional drv vis saved"
  shows "preserves (\<lambda>w. saved w = x) (fts_first_creation drv c fl ps)"
  unfolding fts_first_creation_def createFTSTriggers_def Let_def
  by (intro preserves_bind saved_exec [OF assms])

lemma or_rollback_restores:
  assumes t: "transactional drv vis saved" and k: "preserves (\<lambda>w. saved w = Some d) body"
    and b: "saved w = Some d" and r: "or_rollback drv body w = (r, w')" "r \<noteq> Ok ()"
  shows "vis w' = d"
proof -
  obtain q u where body: "body w = (q, u)" by fastforce
  have s: "saved u = Some d" using preservesD [OF k body b] .
  have roll: "vis (snd (dr_rollback drv u)) = d" using transactionalD(4) [OF t s] .
  show ?thesis
  proof (cases q)
    case (Ok x)
    obtain c v where c: "dr_commit drv u = (c, v)" by fastforce
    then have "vis v = (if isl c then d else vis u)" using transactionalD(5) [OF t s] by blast
    then show ?thesis using r body Ok c by (cases c) (auto simp: or_rollback_def liftD_def)
  qed (use r body roll in \<open>auto simp: or_rollback_def\<close>)
qed

text \<open>C32. The search set-up of SQLite on a collection without a search table is all or nothing: when
  \<open>EnsureFTS\<close> returns an error - whichever statement, the begin or the commit failed - the database is
  what it was before.\<close>

theorem fts_setup_is_atomic:
  assumes t: "transactional drv vis saved"
    and none: "fst (query_row drv fts_exists_sql [GStr (c @ ''_fts'')] scan_bool w) \<noteq> Inr True"
    and run: "lite_EnsureFTS drv c fs w = (r, w')" and err: "r \<noteq> Ok ()"
  shows "vis w' = vis w"
proof -
  define q where "q = query_row drv fts_exists_sql [GStr (c @ ''_fts'')] scan_bool w"
  define u where "u = snd q"
  have u: "vis u = vis w"
    using transactionalD(3) [OF t, of fts_exists_sql "[GStr (c @ ''_fts'')]" w] unfolding u_def q_def query_row_def
    by (simp split: prod.split sum.split)
  show ?thesis
  proof (cases "fst q")
    case (Inl e)
    then have "q = (Inl e, u)" by (cases q) (auto simp: u_def)
    then show ?thesis using run u by (auto simp: lite_EnsureFTS_def Let_def bindP_def q_def)
  next
    case (Inr ex)
    with none have ex: "q = (Inr False, u)" by (cases q) (auto simp: q_def u_def)
    obtain b v where v: "dr_begin drv u = (b, v)" by fastforce
    have v': "vis v = vis u" "saved v = (if isl b then saved u else Some (vis u))"
      using transactionalD(1) [OF t v] by blast+
    let ?body = "fts_first_creation drv c (join '', '' (map IdentifierSegment (map SanitizeFieldName fs)))
       (map SanitizeFieldName fs)"
    have eq: "lite_EnsureFTS drv c fs w = (case b of Inl e \<Rightarrow> (Err (Wrap ''begin FTS setup'' [derr_gerr e]), v)
        | Inr x \<Rightarrow> or_rollback drv ?body v)"
      using ex v by (auto simp: lite_EnsureFTS_def Let_def bindP_def liftD_def q_def
          split: sum.split prod.split)
    show ?thesis
    proof (cases b)
      case (Inl e)
      then show ?thesis using eq run u v' by auto
    next
      case (Inr x)
      then show ?thesis
        using or_rollback_restores [OF t saved_creation [OF t], of v "vis u" c _ _ r w'] eq run err u v' by auto
    qed
  qed
qed

text \<open>A driver that records its statements and refuses the backfill.\<close>

definition recorder :: "(string list \<times> string list option) driver" where
  "recorder =
     \<lparr>dr_exec = \<lambda>sql _ (db, s). if has_prefix sql ''INSERT'' then (Inl (SqliteError 1), db, s) else (Inr (), sql # db, s),
      dr_query = \<lambda>_ _ w. (Inr ([], None), w), dr_row = \<lambda>_ _ w. (Inr [CInt 0], w), dr_prepare = \<lambda>_ w. (Inr (), w),
      dr_begin = \<lambda>(db, s). (Inr (), db, Some db), dr_commit = \<lambda>(db, s). (Inr (), db, None),
      dr_rollback = \<lambda>(db, s). (Inr (), case s of None \<Rightarrow> db | Some d \<Rightarrow> d, None)\<rparr>"

theorem fts_setup_witness:
  "fst (lite_EnsureFTS recorder ''note'' [''title''] ([''t''], None)) \<noteq> Ok ()
   \<and> fst (snd (lite_EnsureFTS recorder ''note'' [''title''] ([''t''], None))) = [''t'']"
proof -
  let ?r = "lite_EnsureFTS recorder ''note'' [''title''] ([''t''], None)"
  have t: "transactional recorder fst snd"
    by (auto simp: transactional_def recorder_def split: option.split)
  have n: "fst (query_row recorder fts_exists_sql [GStr (''note'' @ ''_fts'')] scan_bool ([''t''], None)) \<noteq> Inr True"
    by (simp add: query_row_def recorder_def)
  have e: "fst ?r \<noteq> Ok ()" by code_simp
  from fts_setup_is_atomic [OF t n, of "[''title'']" "fst ?r" "snd ?r"] e show ?thesis by simp
qed

section \<open>Rows\<close>

text \<open>The single-row operations as a program over the rows of some collections, and what a driver does for
  them when no statement fails: the rows are a map \<open>rows w\<close>, a stored text comes back in the server's
  normal form.\<close>

datatype row_op = RGet string string | RPut string string string | RDelete string string

fun op_collection :: "row_op \<Rightarrow> string" where
  "op_collection (RGet c i) = c" | "op_collection (RPut c i d) = c" | "op_collection (RDelete c i) = c"

type_synonym rows = "string \<times> string \<Rightarrow> string option"

definition serves ::
  "'w driver \<Rightarrow> ('w \<Rightarrow> rows) \<Rightarrow> (string \<Rightarrow> string) \<Rightarrow> (string \<Rightarrow> string) \<Rightarrow> (string \<Rightarrow> string) \<Rightarrow> (string \<Rightarrow> string)
   \<Rightarrow> (string \<Rightarrow> string \<Rightarrow> gval list) \<Rightarrow> string list \<Rightarrow> bool" where
  "serves drv rows norm get put del args cs \<longleftrightarrow> (\<forall>w. \<forall>c\<in>set cs. \<forall>i d.
     (\<exists>w'. dr_row drv (get c) [GStr i] w
        = (case rows w (c, i) of None \<Rightarrow> Inl NoRows | Some t \<Rightarrow> Inr [CText (norm t)], w') \<and> rows w' = rows w)
     \<and> (\<exists>w'. dr_exec drv (put c) (args i d) w = (Inr (), w') \<and> rows w' = (rows w)((c, i) \<mapsto> d))
     \<and> (\<exists>w'. dr_exec drv (del c) [GStr i] w = (Inr (), w') \<and> rows w' = (rows w)((c, i) := None))
     \<and> (\<forall>sql. \<exists>w'. dr_prepare drv sql w = (Inr (), w') \<and> rows w' = rows w))"

fun step_pg :: "'w driver \<Rightarrow> row_op \<Rightarrow> ('w, string) prog" where
  "step_pg drv (RGet c i) = pg_Get drv c i"
| "step_pg drv (RPut c i d) = bindP (pg_Put drv c i d) (\<lambda>_. returnP [])"
| "step_pg drv (RDelete c i) = bindP (pg_Delete drv c i) (\<lambda>_. returnP [])"

fun step_lite :: "'w driver \<Rightarrow> row_op \<Rightarrow> ('w lite, string) prog" where
  "step_lite drv (RGet c i) = lite_Get drv c i"
| "step_lite drv (RPut c i d) = bindP (lite_Put drv c i d) (\<lambda>_. returnP [])"
| "step_lite drv (RDelete c i) = bindP (lite_Delete drv c i) (\<lambda>_. returnP [])"

fun step_rows :: "(string \<Rightarrow> string) \<Rightarrow> row_op \<Rightarrow> (rows, string) prog" where
  "step_rows norm (RGet c i) m = (case m (c, i) of None \<Rightarrow> Err (Sent ErrNotFound) | Some t \<Rightarrow> Ok (norm t), m)"
| "step_rows norm (RPut c i d) m = (Ok [], m((c, i) \<mapsto> d))"
| "step_rows norm (RDelete c i) m = (Ok [], m((c, i) := None))"

primrec answers :: "('o \<Rightarrow> ('s, 'a) prog) \<Rightarrow> 'o list \<Rightarrow> 's \<Rightarrow> 'a outcome list" where
  "answers step [] s = []"
| "answers step (x # xs) s = (case step x s of (r, s') \<Rightarrow> r # answers step xs s')"

text \<open>Two machines that agree step by step under a relation of their states answer alike.\<close>

lemma answers_simulation:
  assumes "\<And>x s t. x \<in> set xs \<Longrightarrow> R s t \<Longrightarrow> fst (f x s) = fst (g x t) \<and> R (snd (f x s)) (snd (g x t))" and "R s t"
  shows "answers f xs s = answers g xs t"
  using assms
proof (induction xs arbitrary: s t)
  case (Cons x xs)
  then show ?case by (cases "f x s"; cases "g x t") (force simp: list.set_intros)
qed simp

lemma servesD:
  assumes "serves drv rows norm get put del args cs" and "c \<in> set cs"
  shows "\<exists>w'. dr_row drv (get c) [GStr i] w
      = (case rows w (c, i) of None \<Rightarrow> Inl NoRows | Some t \<Rightarrow> Inr [CText (norm t)], w') \<and> rows w' = rows w"
    "\<exists>w'. dr_exec drv (put c) (args i d) w = (Inr (), w') \<and> rows w' = (rows w)((c, i) \<mapsto> d)"
    "\<exists>w'. dr_exec drv (del c) [GStr i] w = (Inr (), w') \<and> rows w' = (rows w)((c, i) := None)"
    "\<exists>w'. dr_prepare drv sql w = (Inr (), w') \<and> rows w' = rows w"
  using assms unfolding serves_def by blast+

lemma get_row:
  assumes "serves drv rows norm get put del args cs" and "c \<in> set cs"
  shows "fst (liftD (not_found_or f) (query_row drv (get c) [GStr i] scan_bytes) w)
      = fst (step_rows norm (RGet c i) (rows w))
    \<and> rows (snd (liftD (not_found_or f) (query_row drv (get c) [GStr i] scan_bytes) w)) = rows w"
  using servesD(1) [OF assms, of i w]
  by (auto simp: liftD_def query_row_def not_found_or_def split: option.splits)

abbreviation "pg_serves drv rows norm cs \<equiv> serves drv rows norm (\<lambda>c. ss_get (getSQLs c)) (\<lambda>c. ss_put (getSQLs c))
  (\<lambda>c. ss_delete (getSQLs c)) (\<lambda>i d. [GStr i, GBytes (Some d)]) cs"

abbreviation "lite_serves drv rows norm cs \<equiv> serves drv rows norm get_sql put_sql delete_sql
  (\<lambda>i d. [GStr i, GBytes (Some d), GBytes (Some d)]) cs"

lemma pg_step:
  assumes s: "pg_serves drv rows norm cs" and c: "op_collection x \<in> set cs"
  shows "fst (step_pg drv x w) = fst (step_rows norm x (rows w))
    \<and> rows (snd (step_pg drv x w)) = snd (step_rows norm x (rows w))"
proof (cases x)
  case (RGet c i)
  then show ?thesis using get_row [OF s] c by (simp add: pg_Get_def)
next
  case (RPut c i d)
  then show ?thesis using servesD(2) [OF s, of c i d w] c by (auto simp: pg_Put_def bindP_def)
next
  case (RDelete c i)
  then show ?thesis using servesD(3) [OF s, of c i w] c by (auto simp: pg_Delete_def bindP_def)
qed

text \<open>Preparing the statements changes neither the rows nor an answer.\<close>

lemma prepared:
  assumes s: "serves drv rows norm get put del args cs" and c: "c \<in> set cs"
  shows "\<exists>stmts' w'. getStmts drv c (stmts, w) = (Ok (), stmts', w') \<and> rows w' = rows w"
proof -
  obtain w1 where 1: "dr_prepare drv (get_sql c) w = (Inr (), w1)" "rows w1 = rows w" using servesD(4) [OF s c] by blast
  obtain w2 where 2: "dr_prepare drv (put_sql c) w1 = (Inr (), w2)" "rows w2 = rows w1" using servesD(4) [OF s c] by blast
  obtain w3 where 3: "dr_prepare drv (delete_sql c) w2 = (Inr (), w3)" "rows w3 = rows w2" using servesD(4) [OF s c] by blast
  show ?thesis using 1 2 3 by (auto simp: getStmts_def bindP_def)
qed

lemma lite_step:
  assumes s: "lite_serves drv rows norm cs" and c: "op_collection x \<in> set cs"
  shows "fst (step_lite drv x (stmts, w)) = fst (step_rows norm x (rows w))
    \<and> rows (snd (snd (step_lite drv x (stmts, w)))) = snd (step_rows norm x (rows w))"
proof -
  obtain stmts' w' where p: "getStmts drv (op_collection x) (stmts, w) = (Ok (), stmts', w')" "rows w' = rows w"
    using prepared [OF s c] by blast
  show ?thesis
  proof (cases x)
    case (RGet c i)
    then show ?thesis using get_row [OF s, of c derr_gerr i w'] c p by (simp add: lite_Get_def bindP_Ok)
  next
    case (RPut c i d)
    then show ?thesis using servesD(2) [OF s, of c i d w'] c p by (auto simp: lite_Put_def bindP_def)
  next
    case (RDelete c i)
    then show ?thesis using servesD(3) [OF s, of c i w'] c p by (auto simp: lite_Delete_def bindP_def)
  qed
qed


text \<open>Two drivers for the collection \<open>note\<close> whose state is the map itself.\<close>

definition note_driver :: "string \<Rightarrow> string \<Rightarrow> string \<Rightarrow> rows driver" where
  "note_driver get put del =
     \<lparr>dr_exec = \<lambda>sql args m. (Inr (), if sql = put then (case args of GStr i # GBytes (Some d) # _ \<Rightarrow> m((''note'', i) \<mapsto> d) | _ \<Rightarrow> m)
        else if sql = del then (case args of [GStr i] \<Rightarrow> m((''note'', i) := None) | _ \<Rightarrow> m) else m),
      dr_query = \<lambda>_ _ m. (Inr ([], None), m),
      dr_row = \<lambda>sql args m. (case args of [GStr i] \<Rightarrow> (case m (''note'', i) of None \<Rightarrow> Inl NoRows | Some t \<Rightarrow> Inr [CText t])
        | _ \<Rightarrow> Inl NoRows, m),
      dr_prepare = \<lambda>_ m. (Inr (), m), dr_begin = \<lambda>m. (Inr (), m), dr_commit = \<lambda>m. (Inr (), m),
      dr_rollback = \<lambda>m. (Inr (), m)\<rparr>"

lemma note_driver_serves:
  assumes "put ''note'' \<noteq> del ''note''" and "\<And>i d. \<exists>rest. args i d = GStr i # GBytes (Some d) # rest"
  shows "serves (note_driver (get ''note'') (put ''note'') (del ''note'')) (\<lambda>m. m) (\<lambda>t. t) get put del args [''note'']"
  unfolding serves_def
proof (intro allI ballI conjI)
  fix w :: rows and c i d :: string and sql :: string
  assume "c \<in> set [''note'']"
  then have c: "c = ''note''" by simp
  obtain rest where "args i d = GStr i # GBytes (Some d) # rest" using assms(2) by blast
  with c show "\<exists>w'. dr_exec (note_driver (get ''note'') (put ''note'') (del ''note'')) (put c) (args i d) w = (Inr (), w')
      \<and> w' = w((c, i) \<mapsto> d)" by (simp add: note_driver_def)
qed (use assms(1) in \<open>auto simp: note_driver_def split: option.split\<close>)

definition note_calls :: "row_op list" where
  "note_calls = [RPut ''note'' ''1'' ''{}'', RGet ''note'' ''1'', RDelete ''note'' ''1'', RGet ''note'' ''1'']"


section \<open>The cache of compiled expressions\<close>

text \<open>A cache that holds compiled expressions only, at most \<open>maxRegexpCacheSize\<close> of them, stays such a
  cache, and the function answers as if every pattern were compiled anew.\<close>

definition cache_ok :: "(string \<Rightarrow> 're option) \<Rightarrow> 're regexp_cache \<Rightarrow> bool" where
  "cache_ok compile cache \<longleftrightarrow> length cache \<le> maxRegexpCacheSize \<and> (\<forall>(p, re) \<in> set cache. compile p = Some re)"

lemma getOrCompile_result:
  assumes "cache_ok compile cache"
  shows "fst (getOrCompileRegexp compile p cache) = compile p \<and> cache_ok compile (snd (getOrCompileRegexp compile p cache))"
proof (cases "map_of cache p")
  case None
  then show ?thesis
    using assms by (auto simp: getOrCompileRegexp_def cache_ok_def maxRegexpCacheSize_def split: option.split)
next
  case (Some re)
  then have "compile p = Some re" using assms map_of_SomeD [OF Some] by (auto simp: cache_ok_def)
  then show ?thesis using assms Some by (simp add: getOrCompileRegexp_def)
qed

lemma regexp_function_result:
  assumes "cache_ok compile cache"
  shows "fst (regexp_function compile match (CText p, CText v) cache)
      = (case compile p of None \<Rightarrow> 0 | Some re \<Rightarrow> if match re v then 1 else 0)
    \<and> cache_ok compile (snd (regexp_function compile match (CText p, CText v) cache))"
  using getOrCompile_result [OF assms, of p]
  by (auto simp: regexp_function_def split: prod.split option.split)

end
