(* ===== verification/Link_Json.thy ===== *)
theory Link_Json
  imports Json Document
begin

text \<open>
  The JSON form of a link, \<^verbatim>\<open>engine/link.go\<close>: \<open>MarshalJSON\<close> and \<open>UnmarshalJSON\<close> with their fast paths,
  over the string literals of \<^verbatim>\<open>encoding/json\<close>. \<open>json_unquote\<close> is the decoder of a literal (bytes
  above 127 are taken to be valid UTF-8, as in \<open>json_string\<close>; an escaped code point is written as UTF-8,
  an unpaired surrogate as U+FFFD).
\<close>

section \<open>Decoding a string literal\<close>

definition hex_digit :: "char \<Rightarrow> nat option" where
  "hex_digit c = (let n = (of_char c :: nat) in
     if 48 \<le> n \<and> n \<le> 57 then Some (n - 48) else if 97 \<le> n \<and> n \<le> 102 then Some (n - 87)
     else if 65 \<le> n \<and> n \<le> 70 then Some (n - 55) else None)"

fun hex4 :: "string \<Rightarrow> (nat \<times> string) option" where
  "hex4 (a # b # c # d # rest) = (case (hex_digit a, hex_digit b, hex_digit c, hex_digit d) of
      (Some p, Some q, Some r, Some s) \<Rightarrow> Some (((p * 16 + q) * 16 + r) * 16 + s, rest)
    | _ \<Rightarrow> None)"
| "hex4 _ = None"

definition utf8 :: "nat \<Rightarrow> string" where
  "utf8 r = (if r < 128 then [char_of r]
     else if r < 2048 then [char_of (192 + r div 64), char_of (128 + r mod 64)]
     else if r < 65536 then [char_of (224 + r div 4096), char_of (128 + r div 64 mod 64), char_of (128 + r mod 64)]
     else [char_of (240 + r div 262144), char_of (128 + r div 4096 mod 64), char_of (128 + r div 64 mod 64),
           char_of (128 + r mod 64)])"

text \<open>The code point of \<^verbatim>\<open>\\u\<close> and four digits: a high surrogate takes a following low one with it.\<close>

definition rune :: "nat \<Rightarrow> string \<Rightarrow> nat \<times> string" where
  "rune r rest =
     (if 55296 \<le> r \<and> r < 56320 then
        (case rest of
           b # u # digits \<Rightarrow>
             if b = bslash \<and> u = CHR ''u'' then
               (case hex4 digits of
                  Some (lo, rest') \<Rightarrow>
                    if 56320 \<le> lo \<and> lo < 57344 then ((r - 55296) * 1024 + (lo - 56320) + 65536, rest') else (65533, rest)
                | None \<Rightarrow> (65533, rest))
             else (65533, rest)
         | _ \<Rightarrow> (65533, rest))
      else if 56320 \<le> r \<and> r < 57344 then (65533, rest) else (r, rest))"

lemma hex4_length: "hex4 s = Some (r, rest) \<Longrightarrow> length rest < length s"
  by (induction s rule: hex4.induct) (auto split: option.splits)

lemma rune_length: "length (snd (rune r rest)) \<le> length rest"
  by (auto simp: rune_def split: list.split option.split dest: hex4_length)

definition simple_escape :: "char \<Rightarrow> string option" where
  "simple_escape c = map_option (\<lambda>d. [d]) (map_of
     [(dquote, dquote), (bslash, bslash), (CHR ''/'', CHR ''/''), (CHR ''b'', CHR 0x08), (CHR ''f'', CHR 0x0C),
      (CHR ''n'', CHR 0x0A), (CHR ''r'', CHR 0x0D), (CHR ''t'', CHR 0x09)] c)"

text \<open>The body of a literal after its opening quote: the text and what follows the closing quote.\<close>

function unquote_body :: "string \<Rightarrow> (string \<times> string) option" where
  "unquote_body s = (case s of [] \<Rightarrow> None
     | c # cs \<Rightarrow>
         if c = dquote then Some ([], cs)
         else if c = bslash then
           (case cs of [] \<Rightarrow> None
            | e # rest \<Rightarrow>
                if e = CHR ''u'' then
                  (case hex4 rest of None \<Rightarrow> None
                   | Some (r, rest') \<Rightarrow>
                       map_option (\<lambda>(t, after). (utf8 (fst (rune r rest')) @ t, after)) (unquote_body (snd (rune r rest'))))
                else (case simple_escape e of None \<Rightarrow> None
                   | Some t \<Rightarrow> map_option (\<lambda>(t', after). (t @ t', after)) (unquote_body rest)))
         else if (of_char c :: nat) < 32 then None
         else map_option (\<lambda>(t, after). (c # t, after)) (unquote_body cs))"
  by pat_completeness auto
termination
proof (relation "measure length", goal_cases)
  case (2 s c cs e rest p r rest')
  then show ?case using rune_length [of r rest'] hex4_length [of rest r rest'] by auto
qed auto

declare unquote_body.simps [simp del]

definition json_space :: "char \<Rightarrow> bool" where
  "json_space c \<longleftrightarrow> c \<in> {CHR '' '', CHR 0x09, CHR 0x0A, CHR 0x0D}"

text \<open>\<open>json.Unmarshal(data, &id)\<close> for a string \<open>id\<close>: \<open>null\<close> leaves it empty, a literal sets it, any
  other text is an error (a syntax error or a type error).\<close>

definition json_unmarshal_string :: "string \<Rightarrow> gerr + string" where
  "json_unmarshal_string data = (let s = dropWhile json_space data in
     if has_prefix s ''null'' \<and> list_all json_space (drop 4 s) then Inr []
     else (case s of
         [] \<Rightarrow> Inl (Msg ''unexpected end of JSON input'')
       | c # cs \<Rightarrow>
           if c = dquote then
             (case unquote_body cs of
                None \<Rightarrow> Inl (Msg ''invalid string literal'')
              | Some (t, after) \<Rightarrow> if list_all json_space after then Inr t else Inl (Msg ''invalid character after top-level value''))
           else Inl (Msg ''not a JSON string'')))"

section \<open>Links\<close>

definition idIsJSONClean :: "string \<Rightarrow> bool" where
  "idIsJSONClean s \<longleftrightarrow> list_all (\<lambda>b. \<not> ((of_char b :: nat) < 32 \<or> b = dquote \<or> b = bslash)) s"

definition Link_MarshalJSON :: "link \<Rightarrow> string" where
  "Link_MarshalJSON l =
     (if idIsJSONClean (link_ID l) then [dquote] @ link_ID l @ [dquote] else json_string (link_ID l))"

definition Link_UnmarshalJSON :: "string \<Rightarrow> link \<Rightarrow> gerr option \<times> link" where
  "Link_UnmarshalJSON data l =
     (if data = ''null'' then (None, Link [] None False)
      else if length data \<ge> 2 \<and> hd data = dquote \<and> last data = dquote
           \<and> list_all (\<lambda>b. b \<noteq> bslash \<and> b \<noteq> dquote) (butlast (tl data))
      then (None, Link (butlast (tl data)) None False)
      else (case json_unmarshal_string data of
          Inl e \<Rightarrow> (Some e, l)
        | Inr i \<Rightarrow> (None, Link i None False)))"

section \<open>Round trip\<close>

lemma literal_bytes:
  "dquote \<noteq> bslash" "bslash \<noteq> dquote" "\<not> json_space dquote" "dquote \<noteq> CHR ''n''"
  by (simp_all add: dquote_def bslash_def json_space_def)

lemma hex_digit_char: "d < 16 \<Longrightarrow> hex_digit (hex_char d) = Some d"
  by (auto simp: hex_digit_def hex_char_def)

lemma hex4_u_escape:
  "hex4 (drop 2 (u_escape c) @ s) = Some (of_char c, s)"
proof -
  have "(of_char c :: nat) < 256" by simp
  then have d: "(of_char c :: nat) div 16 < 16" "(of_char c :: nat) mod 16 < 16" by (simp_all add: less_mult_imp_div_less)
  have z: "hex_digit CHR ''0'' = Some 0" by (simp add: hex_digit_def)
  show ?thesis using hex_digit_char [OF d(1)] hex_digit_char [OF d(2)] by (simp add: u_escape_def z)
qed

lemma unquote_steps:
  "unquote_body (dquote # cs) = Some ([], cs)"
  "simple_escape e = Some t \<Longrightarrow> e \<noteq> CHR ''u'' \<Longrightarrow>
     unquote_body (bslash # e # rest) = map_option (\<lambda>(t', after). (t @ t', after)) (unquote_body rest)"
  "hex4 digits = Some (r, rest) \<Longrightarrow> rune r rest = (r', rest') \<Longrightarrow>
     unquote_body (bslash # CHR ''u'' # digits) = map_option (\<lambda>(t, after). (utf8 r' @ t, after)) (unquote_body rest')"
  "c \<noteq> dquote \<Longrightarrow> c \<noteq> bslash \<Longrightarrow> \<not> (of_char c :: nat) < 32 \<Longrightarrow>
     unquote_body (c # cs) = map_option (\<lambda>(t, after). (c # t, after)) (unquote_body cs)"
  by ((subst unquote_body.simps, simp add: literal_bytes)+)

lemma unquote_u_escape:
  assumes "(of_char c :: nat) < 128"
  shows "unquote_body (u_escape c @ s) = map_option (\<lambda>(t, after). (c # t, after)) (unquote_body s)"
proof -
  have e: "u_escape c @ s = bslash # CHR ''u'' # drop 2 (u_escape c) @ s" by (simp add: u_escape_def)
  have r: "rune (of_char c) s = (of_char c, s)" "utf8 (of_char c) = [c]"
    using assms by (auto simp: rune_def utf8_def)
  show ?thesis unfolding e using unquote_steps(3) [OF hex4_u_escape r(1)] r(2) by simp
qed

lemma named_escapes:
  "list_all (\<lambda>c. \<exists>e. json_char c = [bslash, e] \<and> simple_escape e = Some [c] \<and> e \<noteq> CHR ''u'')
     [dquote, bslash, CHR 0x08, CHR 0x0C, CHR 0x0A, CHR 0x0D, CHR 0x09]"
  by (simp add: json_char_def simple_escape_def dquote_def bslash_def)

lemma unquote_json_char:
  "unquote_body (json_char c @ s) = map_option (\<lambda>(t, after). (c # t, after)) (unquote_body s)"
proof -
  let ?named = "{dquote, bslash, CHR 0x08, CHR 0x0C, CHR 0x0A, CHR 0x0D, CHR 0x09}"
  let ?coded = "(of_char c :: nat) < 32 \<or> c \<in> {CHR ''<'', CHR ''>'', CHR ''&''}"
  consider "c \<in> ?named" | "c \<notin> ?named" ?coded | "c \<notin> ?named" "\<not> ?coded" by blast
  then show ?thesis
  proof cases
    case 1
    then obtain e where "json_char c = [bslash, e]" "simple_escape e = Some [c]" "e \<noteq> CHR ''u''"
      using named_escapes by (auto simp: list_all_iff)
    then show ?thesis using unquote_steps(2) [of e "[c]" s] by simp
  next
    case 2
    have "json_char c = u_escape c" using 2 by (simp add: json_char_def)
    moreover have "(of_char c :: nat) < 128" using 2(2) by (elim disjE insertE) simp_all
    ultimately show ?thesis by (simp add: unquote_u_escape)
  next
    case 3
    then have "json_char c = [c]" by (simp add: json_char_def)
    with 3 show ?thesis using unquote_steps(4) [of c s] by simp
  qed
qed

lemma unquote_separator:
  "unquote_body (bslash # ''u2028'' @ s) = map_option (\<lambda>(t, after). ([CHR 0xE2, CHR 0x80, CHR 0xA8] @ t, after)) (unquote_body s)"
  "unquote_body (bslash # ''u2029'' @ s) = map_option (\<lambda>(t, after). ([CHR 0xE2, CHR 0x80, CHR 0xA9] @ t, after)) (unquote_body s)"
proof -
  have h: "hex4 (''2028'' @ s) = Some (8232, s)" "hex4 (''2029'' @ s) = Some (8233, s)"
    by (simp_all add: hex_digit_def)
  have u: "rune 8232 s = (8232, s)" "rune 8233 s = (8233, s)" by (simp_all add: rune_def)
  have b: "utf8 8232 = [CHR 0xE2, CHR 0x80, CHR 0xA8]" "utf8 8233 = [CHR 0xE2, CHR 0x80, CHR 0xA9]"
    by (simp_all add: utf8_def char_of_eq_iff)
  show "unquote_body (bslash # ''u2028'' @ s) = map_option (\<lambda>(t, after). ([CHR 0xE2, CHR 0x80, CHR 0xA8] @ t, after)) (unquote_body s)"
    using unquote_steps(3) [OF h(1) u(1)] by (simp add: b)
  show "unquote_body (bslash # ''u2029'' @ s) = map_option (\<lambda>(t, after). ([CHR 0xE2, CHR 0x80, CHR 0xA9] @ t, after)) (unquote_body s)"
    using unquote_steps(3) [OF h(2) u(2)] by (simp add: b)
qed

lemma unquote_json_chars: "unquote_body (json_chars s @ dquote # after) = Some (s, after)"
proof (induction s rule: json_chars.induct)
  case (1 c d e cs)
  then show ?case using unquote_separator [of "json_chars cs @ dquote # after"] by (auto simp: unquote_json_char)
qed (auto simp: unquote_json_char unquote_steps(1))

lemma json_string_decoded: "json_unmarshal_string (json_string s) = Inr s"
proof -
  show ?thesis using unquote_json_chars [of s "[]"]
    by (simp add: json_unmarshal_string_def json_string_def literal_bytes)
qed

text \<open>A literal without a backslash is the text itself.\<close>

lemma json_char_cases: "json_char c = [c] \<or> (\<exists>r. json_char c = bslash # r)"
  by (simp add: json_char_def u_escape_def)

lemma json_chars_plain: "bslash \<notin> set (json_chars s) \<Longrightarrow> json_chars s = s"
proof (induction s rule: json_chars.induct [case_names three one two none])
  case (three c d e cs)
  then show ?case using json_char_cases [of c] by (auto split: if_splits)
next
  case (one c)
  then show ?case using json_char_cases [of c] by auto
next
  case (two c d)
  then show ?case using json_char_cases [of c] by auto
qed simp

lemma json_chars_named:
  assumes "c \<in> set s" and "(of_char c :: nat) < 32 \<or> c = dquote \<or> c = bslash"
  shows "bslash \<in> set (json_chars s)"
proof (rule ccontr)
  assume "bslash \<notin> set (json_chars s)"
  with json_chars_plain have p: "json_chars s = s" by blast
  then have u: "unquote_body (s @ [dquote]) = Some (s, [])" using unquote_json_chars [of s "[]"] by simp
  have "unquote_body (t @ [dquote]) \<noteq> Some (t, [])" if "bslash \<notin> set t" "c \<in> set t" for t
    using that
  proof (induction t)
    case (Cons a t)
    show ?case
    proof (cases "a = dquote \<or> (of_char a :: nat) < 32")
      case True
      then show ?thesis using Cons.prems(1) unquote_steps(1) [of "t @ [dquote]"]
        by (subst unquote_body.simps) (auto simp: literal_bytes)
    next
      case False
      moreover have "a \<noteq> bslash" "c \<in> set t" using Cons.prems False assms(2) by auto
      ultimately show ?thesis using unquote_steps(4) [of a "t @ [dquote]"] Cons.IH Cons.prems(1) by auto
    qed
  qed simp
  with u p \<open>bslash \<notin> set (json_chars s)\<close> assms(1) show False by simp
qed

lemma idIsJSONClean_iff: "idIsJSONClean s \<longleftrightarrow> (\<forall>c\<in>set s. \<not> ((of_char c :: nat) < 32 \<or> c = dquote \<or> c = bslash))"
  by (simp add: idIsJSONClean_def list_all_iff)

lemma link_decoded: "Link_UnmarshalJSON (Link_MarshalJSON l) l' = (None, Link (link_ID l) None False)"
proof (cases "idIsJSONClean (link_ID l)")
  case True
  then have "list_all (\<lambda>b. b \<noteq> bslash \<and> b \<noteq> dquote) (link_ID l)" by (auto simp: idIsJSONClean_iff list_all_iff)
  then show ?thesis using True by (simp add: Link_MarshalJSON_def Link_UnmarshalJSON_def literal_bytes)
next
  case False
  then have "bslash \<in> set (json_chars (link_ID l))" using json_chars_named by (auto simp: idIsJSONClean_iff)
  then have "\<not> list_all (\<lambda>b. b \<noteq> bslash \<and> b \<noteq> dquote) (butlast (tl (json_string (link_ID l))))"
    by (auto simp: json_string_def list_all_iff)
  moreover have "json_string (link_ID l) \<noteq> ''null''" by (simp add: json_string_def literal_bytes)
  ultimately show ?thesis
    using False by (simp add: Link_MarshalJSON_def Link_UnmarshalJSON_def json_string_decoded)
qed

text \<open>The texts that \<open>json.Marshal\<close> escapes although JSON does not ask for it.\<close>

fun has_html :: "string \<Rightarrow> bool" where
  "has_html (c # d # e # cs) = (c \<in> {CHR ''<'', CHR ''>'', CHR ''&''}
     \<or> (c = CHR 0xE2 \<and> d = CHR 0x80 \<and> (e = CHR 0xA8 \<or> e = CHR 0xA9)) \<or> has_html (d # e # cs))"
| "has_html (c # cs) = (c \<in> {CHR ''<'', CHR ''>'', CHR ''&''} \<or> has_html cs)"
| "has_html [] = False"

lemma html_char: "c \<in> {CHR ''<'', CHR ''>'', CHR ''&''} \<Longrightarrow> \<exists>r. json_char c = bslash # r \<and> c \<noteq> bslash"
  by (auto simp: json_char_def u_escape_def dquote_def bslash_def)

lemma clean_char:
  assumes "\<not> (of_char c :: nat) < 32" "c \<noteq> dquote" "c \<noteq> bslash" "c \<notin> {CHR ''<'', CHR ''>'', CHR ''&''}"
  shows "json_char c = [c]"
proof -
  have "c \<noteq> CHR 0x08" "c \<noteq> CHR 0x0C" "c \<noteq> CHR 0x0A" "c \<noteq> CHR 0x0D" "c \<noteq> CHR 0x09"
    using assms(1) by (rule contrapos_nn, simp)+
  with assms show ?thesis unfolding json_char_def by (simp only: if_False simp_thms)
qed

lemma html_free: "idIsJSONClean s \<Longrightarrow> json_chars s = s \<longleftrightarrow> \<not> has_html s"
proof (induction s rule: has_html.induct [case_names three one two none])
  case (three c d e cs)
  let ?sep = "\<lambda>x. c = CHR 0xE2 \<and> d = CHR 0x80 \<and> e = x"
  have tail: "idIsJSONClean (d # e # cs)" using three.prems by (simp add: idIsJSONClean_iff)
  have bs: "CHR 0xE2 \<noteq> bslash" by (simp add: bslash_def)
  consider "?sep (CHR 0xA8)" | "\<not> ?sep (CHR 0xA8)" "?sep (CHR 0xA9)"
    | "\<not> ?sep (CHR 0xA8)" "\<not> ?sep (CHR 0xA9)" "c \<in> {CHR ''<'', CHR ''>'', CHR ''&''}"
    | "\<not> ?sep (CHR 0xA8)" "\<not> ?sep (CHR 0xA9)" "c \<notin> {CHR ''<'', CHR ''>'', CHR ''&''}" by blast
  then show ?case
  proof cases
    case 1
    then show ?thesis using bs by simp
  next
    case 2
    then show ?thesis using bs by simp
  next
    case 3
    then obtain r where r: "json_char c = bslash # r" "c \<noteq> bslash" using html_char by blast
    have "json_chars (c # d # e # cs) = json_char c @ json_chars (d # e # cs)" using 3(1,2) by (simp only: json_chars.simps if_False)
    then show ?thesis using r 3(3) by simp
  next
    case 4
    have "json_char c = [c]" using three.prems 4(3) by (intro clean_char) (auto simp: idIsJSONClean_iff)
    moreover have "json_chars (c # d # e # cs) = json_char c @ json_chars (d # e # cs)" using 4(1,2) by (simp only: json_chars.simps if_False)
    ultimately have "(json_chars (c # d # e # cs) = c # d # e # cs) = (json_chars (d # e # cs) = d # e # cs)" by simp
    moreover have "has_html (c # d # e # cs) = has_html (d # e # cs)" using 4 by (simp only: has_html.simps) blast
    ultimately show ?thesis using three.IH [OF tail] by simp
  qed
next
  case (one c)
  then show ?case using html_char [of c] clean_char [of c] by (auto simp: idIsJSONClean_iff)
next
  case (two c d)
  show ?case
  proof (cases "c \<in> {CHR ''<'', CHR ''>'', CHR ''&''}")
    case True
    then show ?thesis using html_char [of c] by auto
  next
    case False
    then have "json_char c = [c]" using two.prems by (intro clean_char) (auto simp: idIsJSONClean_iff)
    then show ?thesis using two False by (simp add: idIsJSONClean_iff)
  qed
qed simp


end
