(* ===== verification/Marshal.thy ===== *)
theory Marshal
  imports Schema
begin

text \<open>
  \<open>den.Marshal\<close>, \<^verbatim>\<open>engine/marshal.go\<close>: JSON output in which loaded links appear as their documents. A
  value graph is a \<open>gov\<close>, read along its \<open>gtype\<close>; \<open>enc\<close> is \<open>json.Marshal\<close> on it (with \<open>expand\<close>, what
  \<open>Marshal\<close> promises: the same with every loaded link replaced by its value). JSON is its syntax tree;
  the texts the code compares are the trees with the order of their members. A leaf (a scalar, a time,
  a value of interface type, a type with a marshaller of its own) carries its JSON; the values
  \<open>json.Marshal\<close> refuses, embedded links and a clash with a field of a nil embedded pointer are not
  modelled. Structs of link shape are the links.
\<close>

section \<open>Values and their encoding\<close>

datatype gov =
    GoBasic json
  | GoStruct "gov list"
  | GoLink string "gov option" bool
  | GoPtr "gov option"
  | GoSlice "gov list option"
  | GoArray "gov list"
  | GoMap "(string \<times> gov) list option"

fun elem_type :: "gtype \<Rightarrow> gtype" where
  "elem_type (TPtr t) = t"
| "elem_type (TSlice t) = t"
| "elem_type (TArray k t) = t"
| "elem_type (TMap u t) = t"
| "elem_type t = t"

fun string_keyed :: "gtype \<Rightarrow> bool" where
  "string_keyed (TMap u t) = is_string_kind u"
| "string_keyed t = False"

definition link_target :: "type_table \<Rightarrow> gtype \<Rightarrow> gtype" where
  "link_target tt t = (case FieldByName_type tt (struct_key t) ''Value'' of
      None \<Rightarrow> t | Some f \<Rightarrow> elem_type (sf_Type f))"

definition exported :: "struct_field \<Rightarrow> bool" where
  "exported f = (case sf_Name f of [] \<Rightarrow> False | c # cs \<Rightarrow> 65 \<le> (of_char c :: nat) \<and> (of_char c :: nat) \<le> 90)"

text \<open>\<open>jsonTag\<close>: the JSON key, whether the field is skipped, whether the tag names it.\<close>

definition jsonTag :: "struct_field \<Rightarrow> string \<times> bool \<times> bool" where
  "jsonTag f = (let tag = sf_json f; first = hd (split_on CHR '','' tag) in
     if tag = ''-'' then ([], True, False)
     else if first = [] then (sf_Name f, False, False)
     else (first, False, True))"

abbreviation "json_key f \<equiv> fst (jsonTag f)"
abbreviation "json_skipped f \<equiv> fst (snd (jsonTag f))"
abbreviation "json_named f \<equiv> snd (snd (jsonTag f))"

definition json_omitempty :: "struct_field \<Rightarrow> bool" where
  "json_omitempty f \<longleftrightarrow> ''omitempty'' \<in> set (tl (split_on CHR '','' (sf_json f)))"

text \<open>An anonymous struct, or pointer to one, without a name of its own: its fields are promoted.\<close>

definition promoted :: "struct_field \<Rightarrow> bool" where
  "promoted f \<longleftrightarrow> sf_Anonymous f \<and> \<not> json_named f \<and> is_struct (elem_of_ptr (sf_Type f))"

definition json_ignored :: "struct_field \<Rightarrow> bool" where
  "json_ignored f \<longleftrightarrow> json_skipped f \<or> (\<not> exported f \<and> \<not> (sf_Anonymous f \<and> is_struct (elem_of_ptr (sf_Type f))))"

fun empty_gov :: "gov \<Rightarrow> bool" where
  "empty_gov (GoBasic j) = empty_json j"
| "empty_gov (GoPtr v) = (v = None)"
| "empty_gov (GoSlice vs) = (vs = None \<or> vs = Some [])"
| "empty_gov (GoArray vs) = (vs = [])"
| "empty_gov (GoMap kvs) = (kvs = None \<or> kvs = Some [])"
| "empty_gov _ = False"

text \<open>The candidates of a struct: key, depth, whether a tag names it, whether it is left out, JSON. A
  field is written when it dominates the candidates of its key.\<close>

record candidate =
  ca_key :: string
  ca_depth :: nat
  ca_named :: bool
  ca_omitted :: bool
  ca_json :: json

definition dominant :: "candidate list \<Rightarrow> candidate \<Rightarrow> bool" where
  "dominant cs c = (let same = filter (\<lambda>d. ca_key d = ca_key c) cs;
        top = filter (\<lambda>d. list_all (\<lambda>e. ca_depth d \<le> ca_depth e) same) same;
        tagged = filter ca_named top
     in list_all (\<lambda>e. ca_depth c \<le> ca_depth e) same \<and> (length top = 1 \<or> (length tagged = 1 \<and> ca_named c)))"

definition members :: "candidate list \<Rightarrow> (string \<times> json) list" where
  "members cs = map (\<lambda>c. (ca_key c, ca_json c)) (filter (\<lambda>c. \<not> ca_omitted c) (filter (dominant cs) cs))"

text \<open>The field values of a promoted struct; a nil pointer has none.\<close>

definition inner_struct :: "gov \<Rightarrow> gov list option" where
  "inner_struct v = (case v of GoStruct ws \<Rightarrow> Some ws | GoPtr (Some (GoStruct ws)) \<Rightarrow> Some ws | _ \<Rightarrow> None)"

lemma inner_struct_size [termination_simp]:
  "inner_struct v = Some ws \<Longrightarrow> size_list size ws < Suc (size v + k)"
  by (auto simp: inner_struct_def split: gov.splits option.splits)

fun enc :: "type_table \<Rightarrow> bool \<Rightarrow> gtype \<Rightarrow> gov \<Rightarrow> json"
  and candidates :: "type_table \<Rightarrow> bool \<Rightarrow> nat \<Rightarrow> struct_field list \<Rightarrow> gov list \<Rightarrow> candidate list" where
  "enc tt expand t (GoBasic j) = j"
| "enc tt expand t (GoStruct vs) = JObj (members (candidates tt expand 0 (fields_of tt (struct_key t)) vs))"
| "enc tt expand t (GoLink i v loaded) = (case v of
      None \<Rightarrow> JStr i
    | Some w \<Rightarrow> if expand \<and> loaded then enc tt expand (link_target tt t) w else JStr i)"
| "enc tt expand t (GoPtr v) = (case v of None \<Rightarrow> JNull | Some w \<Rightarrow> enc tt expand (elem_type t) w)"
| "enc tt expand t (GoSlice vs) = (case vs of None \<Rightarrow> JNull | Some ws \<Rightarrow> JArr (map (enc tt expand (elem_type t)) ws))"
| "enc tt expand t (GoArray ws) = JArr (map (enc tt expand (elem_type t)) ws)"
| "enc tt expand t (GoMap kvs) = (case kvs of None \<Rightarrow> JNull
    | Some ws \<Rightarrow> JObj (sort_key fst (map (\<lambda>(k, w). (k, enc tt (expand \<and> string_keyed t) (elem_type t) w)) ws)))"
| "candidates tt expand d (f # fs) (v # vs) =
     (if json_ignored f then []
      else if promoted f then
        (case inner_struct v of
           None \<Rightarrow> []
         | Some ws \<Rightarrow> candidates tt expand (Suc d) (fields_of tt (struct_key (elem_of_ptr (sf_Type f)))) ws)
      else [\<lparr>ca_key = json_key f, ca_depth = d, ca_named = json_named f,
             ca_omitted = json_omitempty f \<and> empty_gov v, ca_json = enc tt expand (sf_Type f) v\<rparr>])
     @ candidates tt expand d fs vs"
| "candidates tt expand d _ _ = []"

section \<open>Types with links\<close>

text \<open>\<open>computeContainsLink\<close> with the set of types already seen; the result holds the types it adds. The
  cache per type repeats it and is not modelled.\<close>

function computeContainsLink :: "type_table \<Rightarrow> gtype \<Rightarrow> gtype list \<Rightarrow> bool \<times> gtype list"
  and contains_fields :: "type_table \<Rightarrow> struct_field list \<Rightarrow> gtype list \<Rightarrow> bool \<times> gtype list" where
  "computeContainsLink tt t seen =
     (let u = strip_ptr t in
      if IsLinkShape tt u then (True, [])
      else if u \<in> set seen then (False, [])
      else (case u of
          TStruct n \<Rightarrow> (case contains_fields tt (fields_of tt n) (u # seen) of (b, new) \<Rightarrow> (b, new @ [u]))
        | TSlice e \<Rightarrow> (case computeContainsLink tt e (u # seen) of (b, new) \<Rightarrow> (b, new @ [u]))
        | TArray k e \<Rightarrow> (case computeContainsLink tt e (u # seen) of (b, new) \<Rightarrow> (b, new @ [u]))
        | TMap k e \<Rightarrow> (case computeContainsLink tt e (u # seen) of (b, new) \<Rightarrow> (b, new @ [u]))
        | _ \<Rightarrow> (False, [u])))"
| "contains_fields tt [] seen = (False, [])"
| "contains_fields tt (f # fs) seen =
     (if \<not> exported f then contains_fields tt fs seen
      else (case computeContainsLink tt (sf_Type f) seen of
          (True, new) \<Rightarrow> (True, new)
        | (False, new) \<Rightarrow> (case contains_fields tt fs (new @ seen) of (b, new') \<Rightarrow> (b, new' @ new))))"
  by pat_completeness auto
termination
proof (relation "inv_image (less_than <*lex*> less_than) (\<lambda>x. case x of
    Inl (tt, t, seen) \<Rightarrow> (unseen tt (struct_keys seen), 2 * size t + 1)
  | Inr (tt, fs, seen) \<Rightarrow> (unseen tt (struct_keys seen), fields_size fs))", goal_cases)
  case (2 tt t seen u n)
  then show ?case
    using unseen_struct [of n seen tt] unseen_cons [of tt u seen]
    by (cases "fields_of tt n = []") (auto simp: le_less fields_size_def)
next
  case (3 tt t seen u e)
  then show ?case using unseen_cons [of tt u seen] size_strip [of t] by (fastforce simp: le_less)
next
  case (4 tt t seen u k e)
  then show ?case using unseen_cons [of tt u seen] size_strip [of t] by (fastforce simp: le_less)
next
  case (5 tt t seen u k e)
  then show ?case using unseen_cons [of tt u seen] size_strip [of t] by (fastforce simp: le_less)
next
  case (8 tt f fs seen x y)
  then show ?case using unseen_new [of tt y seen] by (auto simp: le_less fields_size_def)
qed (auto simp: fields_size_def)

definition typeContainsLink :: "type_table \<Rightarrow> gtype \<Rightarrow> bool" where
  "typeContainsLink tt t = fst (computeContainsLink tt t [])"

section \<open>The marshaller\<close>

text \<open>The map of raw members is a list of distinct keys; writing it sorts them.\<close>

definition set_member :: "string \<Rightarrow> json \<Rightarrow> (string \<times> json) list \<Rightarrow> (string \<times> json) list" where
  "set_member k j m = map (\<lambda>(n, w). (n, if n = k then j else w)) m"

type_synonym patched = "(string \<times> json) list \<times> bool"

definition finish_struct :: "(string \<times> json) list \<Rightarrow> patched \<Rightarrow> json" where
  "finish_struct raw p = (if snd p then JObj (sort_key fst (fst p)) else JObj raw)"

definition patch_member :: "string \<Rightarrow> json \<Rightarrow> patched \<Rightarrow> patched" where
  "patch_member name b p = (case map_of (fst p) name of
      None \<Rightarrow> p
    | Some raw \<Rightarrow> if b \<noteq> raw then (set_member name b (fst p), True) else p)"

fun marshalValue :: "type_table \<Rightarrow> gtype \<Rightarrow> gov \<Rightarrow> json"
  and patchStructLinks :: "type_table \<Rightarrow> struct_field list \<Rightarrow> gov list \<Rightarrow> patched \<Rightarrow> patched" where
  "marshalValue tt t (GoPtr v) = (case v of None \<Rightarrow> JNull | Some w \<Rightarrow> marshalValue tt (elem_type t) w)"
| "marshalValue tt t (GoLink i v loaded) =
     (if loaded then (case v of None \<Rightarrow> JStr i | Some w \<Rightarrow> marshalValue tt (link_target tt t) w) else JStr i)"
| "marshalValue tt t (GoBasic j) = enc tt False t (GoBasic j)"
| "marshalValue tt t (GoStruct vs) =
     (if \<not> typeContainsLink tt t then enc tt False t (GoStruct vs)
      else (let fs = fields_of tt (struct_key t); raw = members (candidates tt False 0 fs vs)
            in finish_struct raw (patchStructLinks tt fs vs (raw, False))))"
| "marshalValue tt t (GoSlice vs) =
     (if \<not> typeContainsLink tt t then enc tt False t (GoSlice vs)
      else (case vs of None \<Rightarrow> JNull | Some ws \<Rightarrow> JArr (map (marshalValue tt (elem_type t)) ws)))"
| "marshalValue tt t (GoArray ws) =
     (if \<not> typeContainsLink tt t then enc tt False t (GoArray ws) else JArr (map (marshalValue tt (elem_type t)) ws))"
| "marshalValue tt t (GoMap kvs) =
     (if \<not> typeContainsLink tt t then enc tt False t (GoMap kvs)
      else (case kvs of None \<Rightarrow> JNull
        | Some ws \<Rightarrow> if \<not> string_keyed t then enc tt False t (GoMap kvs)
            else JObj (sort_key fst (map (\<lambda>(k, w). (k, marshalValue tt (elem_type t) w)) ws))))"
| "patchStructLinks tt (f # fs) (v # vs) p =
     patchStructLinks tt fs vs
       (if \<not> exported f \<or> json_skipped f then p
        else if sf_Anonymous f \<and> \<not> json_named f then
          (let ft = elem_of_ptr (sf_Type f) in
           if is_struct ft \<and> typeContainsLink tt ft then
             (case inner_struct v of
                None \<Rightarrow> p
              | Some ws \<Rightarrow> patchStructLinks tt (fields_of tt (struct_key ft)) ws p)
           else p)
        else if \<not> typeContainsLink tt (sf_Type f) then p
        else patch_member (json_key f) (marshalValue tt (sf_Type f) v) p)"
| "patchStructLinks tt _ _ p = p"

end
