(* ===== verification/Marshal_Properties.thy ===== *)
theory Marshal_Properties
  imports Marshal
begin

text \<open>
  \<open>den.Marshal\<close> writes what it promises: the type test finds exactly the types with links, the output is
  \<open>json.Marshal\<close> byte for byte when no link is loaded, and up to the order of members it is
  \<open>json.Marshal\<close> with every loaded link replaced by its document.
\<close>

section \<open>The type test\<close>

inductive link_reachable :: "type_table \<Rightarrow> gtype \<Rightarrow> bool" for tt where
  here: "IsLinkShape tt t \<Longrightarrow> link_reachable tt t"
| ptr: "link_reachable tt t \<Longrightarrow> link_reachable tt (TPtr t)"
| slice: "link_reachable tt t \<Longrightarrow> link_reachable tt (TSlice t)"
| array: "link_reachable tt t \<Longrightarrow> link_reachable tt (TArray k t)"
| map_elem: "link_reachable tt t \<Longrightarrow> link_reachable tt (TMap u t)"
| field: "f \<in> set (fields_of tt n) \<Longrightarrow> exported f \<Longrightarrow> link_reachable tt (sf_Type f) \<Longrightarrow> link_reachable tt (TStruct n)"

lemma link_shape_struct: "IsLinkShape tt t \<Longrightarrow> is_struct t"
  by (auto simp: IsLinkShape_def split: if_splits)

lemma no_link_shape [simp]:
  "\<not> IsLinkShape tt (TPtr t)" "\<not> IsLinkShape tt (TSlice t)" "\<not> IsLinkShape tt (TArray k t)"
  "\<not> IsLinkShape tt (TMap u t)" "\<not> IsLinkShape tt (TBasic b n)"
  using link_shape_struct by fastforce+

inductive_simps link_reachable_simps:
  "link_reachable tt (TPtr t)" "link_reachable tt (TSlice t)" "link_reachable tt (TArray k t)"
  "link_reachable tt (TMap u t)" "link_reachable tt (TBasic b n)" "link_reachable tt (TStruct n)"

lemma link_reachable_strip: "link_reachable tt (strip_ptr t) = link_reachable tt t"
  by (induction t rule: strip_ptr.induct) (simp_all add: link_reachable_simps)

lemma contains_True:
  "fst (computeContainsLink tt t seen) \<Longrightarrow> link_reachable tt t"
  "fst (contains_fields tt fs seen) \<Longrightarrow> \<exists>f \<in> set fs. exported f \<and> link_reachable tt (sf_Type f)"
proof (induction tt t seen and tt fs seen rule: computeContainsLink_contains_fields.induct)
  case (1 tt t seen)
  have "link_reachable tt (strip_ptr t)"
  proof (cases "IsLinkShape tt (strip_ptr t) \<or> strip_ptr t \<in> set seen")
    case True
    with 1(5) show ?thesis by (auto simp: Let_def intro: link_reachable.here split: if_splits)
  next
    case False
    show ?thesis
    proof (cases "strip_ptr t")
      case (TPtr u)
      then show ?thesis using strip_not_ptr by blast
    qed (use 1 False in \<open>auto simp: Let_def link_reachable_simps split: if_splits prod.splits\<close>)
  qed
  then show ?case by (simp add: link_reachable_strip)
next
  case (3 tt f fs seen)
  obtain b new where s: "computeContainsLink tt (sf_Type f) seen = (b, new)" by fastforce
  show ?case
  proof (cases "exported f \<and> b")
    case True
    then show ?thesis using 3(2) s by auto
  next
    case False
    then show ?thesis using 3 s by (cases "exported f") (auto split: prod.splits)
  qed
qed simp

definition closed_field :: "gtype set \<Rightarrow> struct_field \<Rightarrow> bool" where
  "closed_field S f \<longleftrightarrow> \<not> exported f \<or> strip_ptr (sf_Type f) \<in> S"

fun closed_step :: "type_table \<Rightarrow> gtype set \<Rightarrow> gtype \<Rightarrow> bool" where
  "closed_step tt S (TStruct n) = (\<not> IsLinkShape tt (TStruct n) \<and> (\<forall>f \<in> set (fields_of tt n). closed_field S f))"
| "closed_step tt S (TSlice t) = (strip_ptr t \<in> S)"
| "closed_step tt S (TArray k t) = (strip_ptr t \<in> S)"
| "closed_step tt S (TMap u t) = (strip_ptr t \<in> S)"
| "closed_step tt S (TPtr t) = True"
| "closed_step tt S (TBasic b n) = True"

lemma closed_step_mono: "closed_step tt S t \<Longrightarrow> S \<subseteq> T \<Longrightarrow> closed_step tt T t"
  by (cases t) (auto simp: closed_field_def)

lemma closed_no_link:
  assumes "\<forall>u \<in> S. closed_step tt S u"
  shows "link_reachable tt t \<Longrightarrow> strip_ptr t \<notin> S"
proof (induction rule: link_reachable.induct)
  case (here t)
  then obtain n where "t = TStruct n" using link_shape_struct by (cases t) fastforce+
  with here assms show ?case by fastforce
next
  case (field f n)
  then show ?case using assms by (fastforce simp: closed_field_def)
qed (use assms in fastforce)+

lemma contains_False:
  "computeContainsLink tt t seen = (False, new) \<Longrightarrow>
     strip_ptr t \<in> set (new @ seen) \<and> (\<forall>u \<in> set new. closed_step tt (set (new @ seen)) u)"
  "contains_fields tt fs seen = (False, new) \<Longrightarrow>
     (\<forall>f \<in> set fs. closed_field (set (new @ seen)) f) \<and> (\<forall>u \<in> set new. closed_step tt (set (new @ seen)) u)"
proof (induction tt t seen and tt fs seen arbitrary: new and new rule: computeContainsLink_contains_fields.induct)
  case (1 tt t seen)
  then have no: "\<not> IsLinkShape tt (strip_ptr t)" by (auto simp: Let_def split: if_splits)
  show ?case
  proof (cases "strip_ptr t \<in> set seen")
    case True
    with 1(5) no show ?thesis by (auto simp: Let_def)
  next
    case new_type: False
    note hyps = 1(1-4) [OF refl no new_type]
    show ?thesis
    proof (cases "strip_ptr t")
      case (TStruct n)
      obtain b new' where s: "contains_fields tt (fields_of tt n) (strip_ptr t # seen) = (b, new')" by fastforce
      with 1(5) new_type no TStruct have b: "b = False" "new = new' @ [strip_ptr t]" by (auto simp: Let_def)
      from hyps(1) [OF TStruct s [unfolded b]] no TStruct show ?thesis by (auto simp: b)
    next
      case (TSlice e)
      obtain b new' where s: "computeContainsLink tt e (strip_ptr t # seen) = (b, new')" by fastforce
      with 1(5) new_type no TSlice have b: "b = False" "new = new' @ [strip_ptr t]" by (auto simp: Let_def)
      from hyps(2) [OF TSlice s [unfolded b]] show ?thesis using TSlice by (auto simp: b)
    next
      case (TArray k e)
      obtain b new' where s: "computeContainsLink tt e (strip_ptr t # seen) = (b, new')" by fastforce
      with 1(5) new_type no TArray have b: "b = False" "new = new' @ [strip_ptr t]" by (auto simp: Let_def)
      from hyps(3) [OF TArray s [unfolded b]] show ?thesis using TArray by (auto simp: b)
    next
      case (TMap k e)
      obtain b new' where s: "computeContainsLink tt e (strip_ptr t # seen) = (b, new')" by fastforce
      with 1(5) new_type no TMap have b: "b = False" "new = new' @ [strip_ptr t]" by (auto simp: Let_def)
      from hyps(4) [OF TMap s [unfolded b]] show ?thesis using TMap by (auto simp: b)
    next
      case (TPtr e)
      then show ?thesis using strip_not_ptr by blast
    next
      case (TBasic b n)
      with 1(5) new_type no show ?thesis by (auto simp: Let_def)
    qed
  qed
next
  case (3 tt f fs seen)
  show ?case
  proof (cases "exported f")
    case False
    with 3 show ?thesis by (auto simp: closed_field_def)
  next
    case True
    obtain b new1 where s: "computeContainsLink tt (sf_Type f) seen = (b, new1)" by fastforce
    with 3(4) True have b: "b = False" by (cases b) auto
    obtain c new2 where r: "contains_fields tt fs (new1 @ seen) = (c, new2)" by fastforce
    with 3(4) True s b have c: "c = False" "new = new2 @ new1" by auto
    have A: "strip_ptr (sf_Type f) \<in> set (new1 @ seen)" "\<forall>u\<in>set new1. closed_step tt (set (new1 @ seen)) u"
      using 3(2) [OF _ s [unfolded b]] True by auto
    have B: "\<forall>f\<in>set fs. closed_field (set (new2 @ new1 @ seen)) f"
      "\<forall>u\<in>set new2. closed_step tt (set (new2 @ new1 @ seen)) u"
      using 3(3) [OF _ s [symmetric] b r [unfolded c(1)]] True by auto
    have "\<forall>u\<in>set new1. closed_step tt (set (new2 @ new1 @ seen)) u" using A(2) by (auto intro: closed_step_mono)
    with A(1) B show ?thesis by (auto simp: c(2) closed_field_def)
  qed
qed simp

lemma typeContainsLink_iff: "typeContainsLink tt t \<longleftrightarrow> link_reachable tt t"
proof
  show "typeContainsLink tt t \<Longrightarrow> link_reachable tt t" by (simp add: typeContainsLink_def contains_True(1))
next
  assume r: "link_reachable tt t"
  show "typeContainsLink tt t"
  proof (rule ccontr)
    assume "\<not> typeContainsLink tt t"
    then obtain new where "computeContainsLink tt t [] = (False, new)"
      by (cases "computeContainsLink tt t []") (auto simp: typeContainsLink_def)
    from contains_False(1) [OF this] have "strip_ptr t \<in> set new" "\<forall>u \<in> set new. closed_step tt (set new) u" by auto
    with closed_no_link [OF _ r] show False by blast
  qed
qed

section \<open>Well-typed values\<close>

text \<open>Embedded types are exported, and structs unless a tag names them; no two fields of a struct have one key.\<close>

definition plain_field_ok :: "struct_field \<Rightarrow> bool" where
  "plain_field_ok f \<longleftrightarrow> (sf_Anonymous f \<longrightarrow> exported f \<and> (json_named f \<or> is_struct (elem_of_ptr (sf_Type f))))"

definition plain_table :: "type_table \<Rightarrow> bool" where
  "plain_table tt \<longleftrightarrow> list_all (\<lambda>(n, s). list_all plain_field_ok (st_fields s)) tt"

fun has_type :: "type_table \<Rightarrow> gtype \<Rightarrow> gov \<Rightarrow> bool"
  and typed_fields :: "type_table \<Rightarrow> struct_field list \<Rightarrow> gov list \<Rightarrow> bool" where
  "has_type tt t (GoBasic j) = True"
| "has_type tt t (GoStruct vs) = (is_struct t \<and> \<not> IsLinkShape tt t
     \<and> distinct (map ca_key (candidates tt False 0 (fields_of tt (struct_key t)) vs))
     \<and> typed_fields tt (fields_of tt (struct_key t)) vs)"
| "has_type tt t (GoLink i v loaded) = (IsLinkShape tt t
     \<and> (case v of None \<Rightarrow> True | Some w \<Rightarrow> has_type tt (link_target tt t) w))"
| "has_type tt t (GoPtr v) = (is_pointer t \<and> (case v of None \<Rightarrow> True | Some w \<Rightarrow> has_type tt (elem_type t) w))"
| "has_type tt t (GoSlice vs) = ((case t of TSlice e \<Rightarrow> True | _ \<Rightarrow> False)
     \<and> (case vs of None \<Rightarrow> True | Some ws \<Rightarrow> \<forall>w \<in> set ws. has_type tt (elem_type t) w))"
| "has_type tt t (GoArray ws) = ((case t of TArray k e \<Rightarrow> True | _ \<Rightarrow> False) \<and> (\<forall>w \<in> set ws. has_type tt (elem_type t) w))"
| "has_type tt t (GoMap kvs) = ((case t of TMap u e \<Rightarrow> True | _ \<Rightarrow> False) \<and> (case kvs of None \<Rightarrow> True
     | Some ws \<Rightarrow> \<forall>(k, w) \<in> set ws. has_type tt (elem_type t) w))"
| "typed_fields tt [] [] = True"
| "typed_fields tt (f # fs) (v # vs) = (has_type tt (sf_Type f) v \<and> typed_fields tt fs vs)"
| "typed_fields tt _ _ = False"

text \<open>No link that is loaded, however deep.\<close>

fun no_loaded :: "gov \<Rightarrow> bool" where
  "no_loaded (GoBasic j) = True"
| "no_loaded (GoStruct vs) = list_all no_loaded vs"
| "no_loaded (GoLink i v loaded) = (\<not> loaded)"
| "no_loaded (GoPtr v) = (case v of None \<Rightarrow> True | Some w \<Rightarrow> no_loaded w)"
| "no_loaded (GoSlice vs) = (case vs of None \<Rightarrow> True | Some ws \<Rightarrow> list_all no_loaded ws)"
| "no_loaded (GoArray ws) = list_all no_loaded ws"
| "no_loaded (GoMap kvs) = (case kvs of None \<Rightarrow> True | Some ws \<Rightarrow> list_all (\<lambda>(k, w). no_loaded w) ws)"

section \<open>Candidates and members\<close>

lemma dominant_distinct:
  assumes "distinct (map ca_key cs)" and "c \<in> set cs"
  shows "dominant cs c"
proof -
  have "filter (\<lambda>d. ca_key d = ca_key c) cs = [c]"
    using assms
  proof (induction cs)
    case (Cons a cs)
    show ?case
    proof (cases "a = c")
      case True
      with Cons.prems have "ca_key c \<notin> ca_key ` set cs" by simp
      then have "filter (\<lambda>d. ca_key d = ca_key c) cs = []" unfolding filter_empty_conv by (metis image_eqI)
      with True show ?thesis by simp
    next
      case False
      with Cons.prems have "c \<in> set cs" "ca_key a \<noteq> ca_key c" by (auto simp: image_iff)
      with Cons show ?thesis by simp
    qed
  qed simp
  then show ?thesis by (simp add: dominant_def Let_def)
qed

lemma members_distinct:
  "distinct (map ca_key cs) \<Longrightarrow> members cs = map (\<lambda>c. (ca_key c, ca_json c)) (filter (\<lambda>c. \<not> ca_omitted c) cs)"
  using dominant_distinct [of cs] by (simp add: members_def cong: filter_cong)

text \<open>What a list of candidates says about a map of members.\<close>

definition agrees :: "(json \<Rightarrow> json) \<Rightarrow> (string \<times> json) list \<Rightarrow> candidate \<Rightarrow> bool" where
  "agrees h m c \<longleftrightarrow> map_option h (map_of m (ca_key c)) = (if ca_omitted c then None else Some (h (ca_json c)))"

lemma members_agree:
  assumes "distinct (map ca_key cs)" and "c \<in> set cs"
  shows "agrees h (members cs) c"
proof -
  have "map_of (map (\<lambda>c. (ca_key c, ca_json c)) (filter (\<lambda>c. \<not> ca_omitted c) cs)) (ca_key c)
      = (if ca_omitted c then None else Some (ca_json c))"
    using assms by (induction cs) (auto simp: map_of_eq_None_iff image_iff)
  then show ?thesis by (simp add: agrees_def members_distinct [OF assms(1)])
qed

lemma distinct_members: "distinct (map ca_key cs) \<Longrightarrow> distinct (map fst (members cs))"
  by (simp add: members_distinct comp_def distinct_map inj_on_def)

text \<open>Expansion changes neither the keys nor what is left out.\<close>

definition shape :: "candidate list \<Rightarrow> (string \<times> bool) list" where
  "shape cs = map (\<lambda>c. (ca_key c, ca_omitted c)) cs"

lemma shape_simps: "shape [] = []" "shape (c # cs) = (ca_key c, ca_omitted c) # shape cs" "shape (as @ bs) = shape as @ shape bs"
  by (simp_all add: shape_def)

lemma candidates_shape:
  "enc tt x t v = enc tt x t v"
  "shape (candidates tt x d fs vs) = shape (candidates tt y e fs vs)"
proof (induction tt x t v and tt x d fs vs arbitrary: and y e rule: enc_candidates.induct)
  case (8 tt x d f fs v vs)
  have r: "shape (candidates tt x d fs vs) = shape (candidates tt y e fs vs)" using "8.IH"(3) .
  show ?case
  proof (cases "\<not> json_ignored f \<and> promoted f")
    case True
    then show ?thesis
    proof (cases "inner_struct v")
      case (Some ws)
      have "shape (candidates tt x (Suc d) (fields_of tt (struct_key (elem_of_ptr (sf_Type f)))) ws)
          = shape (candidates tt y (Suc e) (fields_of tt (struct_key (elem_of_ptr (sf_Type f)))) ws)"
        using "8.IH"(1) True Some by blast
      then show ?thesis using True Some r by (simp add: shape_simps)
    qed (use r in \<open>simp add: shape_simps\<close>)
  qed (use r in \<open>auto simp: shape_simps\<close>)
qed simp_all

lemma candidate_keys: "map ca_key cs = map fst (shape cs)"
  by (simp add: shape_def comp_def)

lemma candidates_keys: "map ca_key (candidates tt x d fs vs) = map ca_key (candidates tt y e fs vs)"
  unfolding candidate_keys using candidates_shape(2) by metis

lemma plain_tableD: "plain_table tt \<Longrightarrow> f \<in> set (fields_of tt n) \<Longrightarrow> plain_field_ok f"
proof -
  assume p: "plain_table tt" and f: "f \<in> set (fields_of tt n)"
  then obtain st where st: "map_of tt n = Some st" "f \<in> set (st_fields st)"
    by (cases "map_of tt n") (auto simp: fields_of_def)
  with p map_of_SomeD [OF st(1)] show ?thesis by (auto simp: plain_table_def list_all_iff)
qed

lemma plain_promoted: "plain_field_ok f \<Longrightarrow> promoted f \<Longrightarrow> exported f"
  by (simp add: plain_field_ok_def promoted_def)

lemma plain_visible: "plain_field_ok f \<Longrightarrow> json_ignored f \<longleftrightarrow> \<not> exported f \<or> json_skipped f"
  by (auto simp: plain_field_ok_def json_ignored_def jsonTag_def Let_def split: if_splits)

text \<open>The type of the fields of a promoted struct.\<close>

definition inner_fields :: "type_table \<Rightarrow> struct_field \<Rightarrow> struct_field list" where
  "inner_fields tt f = fields_of tt (struct_key (elem_of_ptr (sf_Type f)))"

lemma inner_typed:
  assumes "has_type tt (sf_Type f) v" and "inner_struct v = Some ws"
  shows "typed_fields tt (inner_fields tt f) ws
    \<and> distinct (map ca_key (candidates tt False 0 (inner_fields tt f) ws))
    \<and> link_reachable tt (elem_of_ptr (sf_Type f)) = link_reachable tt (sf_Type f)
    \<and> \<not> IsLinkShape tt (elem_of_ptr (sf_Type f)) \<and> is_struct (elem_of_ptr (sf_Type f))"
proof (cases v)
  case (GoStruct us)
  then have "elem_of_ptr (sf_Type f) = sf_Type f" using assms(1) by (cases "sf_Type f") auto
  with GoStruct assms show ?thesis by (simp add: inner_struct_def inner_fields_def)
next
  case (GoPtr p)
  with assms(2) obtain us where p: "p = Some (GoStruct us)" "ws = us"
    by (auto simp: inner_struct_def split: option.splits gov.splits)
  with GoPtr assms(1) obtain u where u: "sf_Type f = TPtr u" by (cases "sf_Type f") auto
  with GoPtr p assms(1) show ?thesis by (simp add: inner_fields_def link_reachable_simps)
qed (use assms(2) in \<open>auto simp: inner_struct_def\<close>)

section \<open>Values without links\<close>

lemma struct_fields_reachable:
  "is_struct t \<Longrightarrow> \<not> link_reachable tt t \<Longrightarrow> f \<in> set (fields_of tt (struct_key t)) \<Longrightarrow> exported f
   \<Longrightarrow> \<not> link_reachable tt (sf_Type f)"
  by (cases t) (auto simp: link_reachable_simps)

lemma enc_no_link:
  assumes "plain_table tt"
  shows "has_type tt t v \<Longrightarrow> \<not> link_reachable tt t \<Longrightarrow> enc tt x t v = enc tt False t v"
    "typed_fields tt fs vs \<Longrightarrow> list_all plain_field_ok fs \<Longrightarrow> \<forall>f\<in>set fs. exported f \<longrightarrow> \<not> link_reachable tt (sf_Type f)
     \<Longrightarrow> candidates tt x d fs vs = candidates tt False d fs vs"
  using assms
proof (induction tt x t v and tt x d fs vs rule: enc_candidates.induct)
  case (2 tt x t vs)
  have "list_all plain_field_ok (fields_of tt (struct_key t))" using plain_tableD [OF "2.prems"(3)] by (simp add: list_all_iff)
  then show ?case using 2 struct_fields_reachable [of t tt] by simp
next
  case (3 tt x t i v loaded)
  then show ?case using link_reachable.here by auto
next
  case (4 tt x t v)
  then show ?case by (cases t) (auto simp: link_reachable_simps split: option.split)
next
  case (5 tt x t vs)
  then show ?case by (cases t) (auto simp: link_reachable_simps split: option.split)
next
  case (6 tt x t vs)
  then show ?case by (cases t) (auto simp: link_reachable_simps)
next
  case (7 tt x t kvs)
  show ?case
  proof (cases kvs)
    case (Some ws)
    from "7.prems" obtain u e where t: "t = TMap u e" "\<not> link_reachable tt e" by (cases t) (auto simp: link_reachable_simps)
    have "map (\<lambda>(k, w). (k, enc tt (x \<and> string_keyed t) e w)) ws = map (\<lambda>(k, w). (k, enc tt False e w)) ws"
    proof (rule map_cong [OF refl])
      fix p assume "p \<in> set ws"
      then obtain k w where p: "p = (k, w)" and kw: "(k, w) \<in> set ws" by (metis surj_pair)
      with "7.prems" Some t have "has_type tt e w" by auto
      then have "enc tt (x \<and> string_keyed t) e w = enc tt False e w"
        using "7.IH" [of ws "(k, w)" k w] Some kw t "7.prems"(3) by simp
      then show "(case p of (k, w) \<Rightarrow> (k, enc tt (x \<and> string_keyed t) e w)) = (case p of (k, w) \<Rightarrow> (k, enc tt False e w))"
        by (simp add: p)
    qed
    then show ?thesis using Some t by (simp del: map_eq_conv)
  qed simp
next
  case (8 tt x d f fs v vs)
  have rest: "candidates tt x d fs vs = candidates tt False d fs vs" using "8.IH"(3) "8.prems" by simp
  have tv: "has_type tt (sf_Type f) v" using "8.prems" by simp
  have pf: "plain_field_ok f" using "8.prems" by simp
  show ?case
  proof (cases "json_ignored f")
    case True
    then show ?thesis using rest by simp
  next
    case False
    then have ex: "exported f" using plain_visible [OF pf] by simp
    then have nl: "\<not> link_reachable tt (sf_Type f)" using "8.prems" by simp
    show ?thesis
    proof (cases "promoted f")
      case True
      show ?thesis
      proof (cases "inner_struct v")
        case (Some ws)
        note i = inner_typed [OF tv Some]
        have "list_all plain_field_ok (inner_fields tt f)"
          using plain_tableD [OF "8.prems"(4)] by (simp add: list_all_iff inner_fields_def)
        moreover have "\<forall>g\<in>set (inner_fields tt f). exported g \<longrightarrow> \<not> link_reachable tt (sf_Type g)"
          using struct_fields_reachable [of "elem_of_ptr (sf_Type f)" tt] i nl by (simp add: inner_fields_def)
        ultimately have "candidates tt x (Suc d) (inner_fields tt f) ws = candidates tt False (Suc d) (inner_fields tt f) ws"
          using "8.IH"(1) [OF False True Some] i "8.prems"(4) by (simp add: inner_fields_def)
        then show ?thesis using False True Some rest by (simp add: inner_fields_def)
      qed (use False True rest in simp)
    next
      case np: False
      have "enc tt x (sf_Type f) v = enc tt False (sf_Type f) v" using "8.IH"(2) [OF False np tv nl "8.prems"(4)] .
      then show ?thesis using False np rest by simp
    qed
  qed
qed auto

section \<open>Without loaded links\<close>

lemma agrees_id: "agrees (\<lambda>j. j) m c \<longleftrightarrow> map_of m (ca_key c) = (if ca_omitted c then None else Some (ca_json c))"
  by (simp add: agrees_def option.map_ident)

lemma patch_member_same: "map_of (fst p) k = None \<or> map_of (fst p) k = Some b \<Longrightarrow> patch_member k b p = p"
  by (auto simp: patch_member_def)

lemma marshal_unloaded:
  "has_type tt t v \<Longrightarrow> no_loaded v \<Longrightarrow> marshalValue tt t v = enc tt False t v"
  "typed_fields tt fs vs \<Longrightarrow> list_all no_loaded vs \<Longrightarrow> \<forall>c \<in> set (candidates tt False d fs vs). agrees (\<lambda>j. j) (fst p) c
     \<Longrightarrow> patchStructLinks tt fs vs p = p"
proof (induction tt t v and tt fs vs p arbitrary: and d rule: marshalValue_patchStructLinks.induct)
  case (1 tt t v)
  then show ?case by (auto split: option.splits)
next
  case (4 tt t vs)
  define fs where "fs = fields_of tt (struct_key t)"
  define raw where "raw = members (candidates tt False 0 fs vs)"
  have "\<forall>c \<in> set (candidates tt False 0 fs vs). agrees (\<lambda>j. j) raw c"
    using members_agree "4.prems"(1) by (simp add: fs_def raw_def)
  then have "patchStructLinks tt fs vs (raw, False) = (raw, False)" if "typeContainsLink tt t"
    using "4.IH" [of fs raw 0] "4.prems" that by (simp add: fs_def raw_def)
  then show ?case by (auto simp: Let_def fs_def raw_def finish_struct_def)
next
  case (5 tt t vs)
  then show ?case by (auto simp: list_all_iff split: option.splits)
next
  case (6 tt t ws)
  then show ?case by (auto simp: list_all_iff)
next
  case (7 tt t kvs)
  show ?case
  proof (cases kvs)
    case (Some ws)
    have "map (\<lambda>(k, w). (k, marshalValue tt (elem_type t) w)) ws = map (\<lambda>(k, w). (k, enc tt False (elem_type t) w)) ws"
      if c: "typeContainsLink tt t" "string_keyed t"
    proof (rule map_cong [OF refl])
      fix p assume "p \<in> set ws"
      then obtain k w where p: "p = (k, w)" and kw: "(k, w) \<in> set ws" by (metis surj_pair)
      with "7.prems" Some have "has_type tt (elem_type t) w" "no_loaded w" by (auto simp: list_all_iff)
      then have "marshalValue tt (elem_type t) w = enc tt False (elem_type t) w"
        using "7.IH" [of ws "(k, w)" k w] Some kw c by simp
      then show "(case p of (k, w) \<Rightarrow> (k, marshalValue tt (elem_type t) w)) = (case p of (k, w) \<Rightarrow> (k, enc tt False (elem_type t) w))"
        by (simp add: p)
    qed
    then show ?thesis using Some by (auto simp del: map_eq_conv)
  qed simp
next
  case (8 tt f fs v vs p)
  have tv: "has_type tt (sf_Type f) v" "no_loaded v" using "8.prems" by auto
  let ?head = "if \<not> exported f \<or> json_skipped f then p
        else if sf_Anonymous f \<and> \<not> json_named f then
          (let ft = elem_of_ptr (sf_Type f) in
           if is_struct ft \<and> typeContainsLink tt ft then
             (case inner_struct v of
                None \<Rightarrow> p
              | Some ws \<Rightarrow> patchStructLinks tt (fields_of tt (struct_key ft)) ws p)
           else p)
        else if \<not> typeContainsLink tt (sf_Type f) then p
        else patch_member (json_key f) (marshalValue tt (sf_Type f) v) p"
  have head: "?head = p"
  proof (cases "\<not> exported f \<or> json_skipped f")
    case False
    then have ni: "\<not> json_ignored f" by (simp add: json_ignored_def)
    show ?thesis
    proof (cases "sf_Anonymous f \<and> \<not> json_named f")
      case True
      then have pr: "promoted f" if "is_struct (elem_of_ptr (sf_Type f))" using that by (simp add: promoted_def)
      show ?thesis
      proof (cases "is_struct (elem_of_ptr (sf_Type f)) \<and> typeContainsLink tt (elem_of_ptr (sf_Type f))")
        case c: True
        show ?thesis
        proof (cases "inner_struct v")
          case (Some ws)
          have "list_all no_loaded ws" using tv(2) Some
            by (auto simp: inner_struct_def split: gov.splits option.splits)
          moreover have "\<forall>c \<in> set (candidates tt False (Suc d) (inner_fields tt f) ws). agrees (\<lambda>j. j) (fst p) c"
            using "8.prems"(3) ni pr c Some by (simp add: inner_fields_def)
          ultimately have "patchStructLinks tt (inner_fields tt f) ws p = p"
            using "8.IH"(1) [of "elem_of_ptr (sf_Type f)" ws "Suc d"] False True c Some inner_typed [OF tv(1) Some]
            by (simp add: inner_fields_def)
          then show ?thesis using False True c Some by (simp add: inner_fields_def)
        qed (use False True c in simp)
      qed (use False True in auto)
    next
      case np: False
      then have "\<not> promoted f" by (auto simp: promoted_def)
      with "8.prems"(3) ni have "map_of (fst p) (json_key f) \<in> {None, Some (enc tt False (sf_Type f) v)}"
        by (auto simp: agrees_id split: if_splits)
      then show ?thesis using "8.IH"(2) False np tv by (auto simp: patch_member_same)
    qed
  qed simp
  have "patchStructLinks tt fs vs ?head = ?head"
    by (rule "8.IH"(3) [of d]) (use "8.prems" head in auto)
  then show ?case using head by simp
qed (auto split: option.split)

section \<open>With loaded links\<close>

text \<open>JSON up to the order of the members of its objects.\<close>

fun canon :: "json \<Rightarrow> json" where
  "canon (JArr js) = JArr (map canon js)"
| "canon (JObj ms) = JObj (sort_key fst (map (\<lambda>(k, j). (k, canon j)) ms))"
| "canon j = j"

lemma sort_key_fst_map:
  assumes "\<And>x. fst (h x) = fst x"
  shows "sort_key fst (map h xs) = map h (sort_key fst xs)"
proof -
  have i: "insort_key fst (h x) (map h ys) = map h (insort_key fst x ys)" for x and ys
    by (induction ys) (simp_all add: assms)
  show ?thesis by (induction xs) (simp_all add: i)
qed

lemma canon_sorted: "canon (JObj (sort_key fst ms)) = canon (JObj ms)"
proof -
  have "sort_key fst (map (\<lambda>(k, j). (k, canon j)) (sort_key fst ms)) = map (\<lambda>(k, j). (k, canon j)) (sort_key fst (sort_key fst ms))"
    by (rule sort_key_fst_map) auto
  moreover have "sort_key fst (map (\<lambda>(k, j). (k, canon j)) ms) = map (\<lambda>(k, j). (k, canon j)) (sort_key fst ms)"
    by (rule sort_key_fst_map) auto
  ultimately show ?thesis by (simp add: sort_key_id_if_sorted)
qed

lemma map_of_set_member: "map_of (set_member k j m) n = (if n = k then map_option (\<lambda>_. j) (map_of m n) else map_of m n)"
  by (induction m) (auto simp: set_member_def)

lemma keys_set_member: "map fst (set_member k j m) = map fst m"
  by (auto simp: set_member_def)

lemma keys_patch_member: "map fst (fst (patch_member k b p)) = map fst (fst p)"
  by (auto simp: patch_member_def keys_set_member split: option.split)

lemma patch_member_other: "n \<noteq> k \<Longrightarrow> map_of (fst (patch_member k b p)) n = map_of (fst p) n"
  by (auto simp: patch_member_def map_of_set_member split: option.split)

lemma patch_member_changed: "snd (patch_member k b p) \<or> patch_member k b p = p"
  by (auto simp: patch_member_def split: option.split)

lemma patch_member_here:
  "map_of (fst p) k = Some raw \<Longrightarrow> map_of (fst (patch_member k b p)) k = Some b"
  by (auto simp: patch_member_def map_of_set_member)

lemma agrees_weaken: "agrees (\<lambda>j. j) m c \<Longrightarrow> agrees h m c"
  by (auto simp: agrees_def split: if_splits)

lemma agrees_cong: "map_of m (ca_key c) = map_of m' (ca_key c) \<Longrightarrow> agrees h m c = agrees h m' c"
  by (simp add: agrees_def)

text \<open>Two association lists with the same distinct keys and values are equal.\<close>

lemma alist_eqI:
  assumes "map fst xs = map fst ys" and "distinct (map fst xs)"
    and "\<And>k. k \<in> set (map fst xs) \<Longrightarrow> map_of xs k = map_of ys k"
  shows "xs = ys"
  using assms
proof (induction xs arbitrary: ys)
  case (Cons x xs)
  from Cons.prems(1) obtain y zs where ys: "ys = y # zs" "fst y = fst x" "map fst zs = map fst xs" by (cases ys) auto
  have "snd x = snd y" using Cons.prems(3) [of "fst x"] ys by simp
  then have "x = y" using ys by (simp add: prod_eq_iff)
  moreover have "xs = zs"
  proof (rule Cons.IH)
    fix k assume k: "k \<in> set (map fst xs)"
    then have "k \<noteq> fst x" using Cons.prems(2) by (metis distinct.simps(2) list.simps(9))
    then show "map_of xs k = map_of zs k" using Cons.prems(3) [of k] k ys by simp
  qed (use ys Cons.prems in auto)
  ultimately show ?case using ys by simp
qed simp

text \<open>What patching a list of fields does to a map that agrees with their plain encodings.\<close>

definition patched_to :: "(string \<times> json) list \<times> bool \<Rightarrow> candidate list \<Rightarrow> (string \<times> json) list \<times> bool \<Rightarrow> bool" where
  "patched_to p cs q \<longleftrightarrow> map fst (fst q) = map fst (fst p)
     \<and> (\<forall>k. k \<notin> ca_key ` set cs \<longrightarrow> map_of (fst q) k = map_of (fst p) k)
     \<and> (\<forall>c \<in> set cs. agrees canon (fst q) c) \<and> (snd q \<or> q = p)"

lemma patched_to_same:
  "\<forall>c \<in> set cs. agrees (\<lambda>j. j) (fst p) c \<Longrightarrow> patched_to p cs p"
  by (simp add: patched_to_def agrees_weaken)

lemma patched_to_append:
  assumes a: "patched_to p as q" and b: "patched_to q bs r" and d: "ca_key ` set as \<inter> ca_key ` set bs = {}"
  shows "patched_to p (as @ bs) r"
proof -
  have "agrees canon (fst r) c" if "c \<in> set as" for c
  proof -
    have "ca_key c \<notin> ca_key ` set bs" using d that by blast
    then have "map_of (fst r) (ca_key c) = map_of (fst q) (ca_key c)" using b by (simp add: patched_to_def)
    then show ?thesis using a that agrees_cong [of "fst r" c "fst q"] by (simp add: patched_to_def)
  qed
  then show ?thesis using a b by (auto simp: patched_to_def image_Un)
qed

lemma patch_head:
  assumes "patched_to p as q"
    and "ca_key ` set as \<inter> ca_key ` set cs = {}" and "c \<in> set cs" and "agrees (\<lambda>j. j) (fst p) c"
  shows "agrees (\<lambda>j. j) (fst q) c"
proof -
  have "ca_key c \<notin> ca_key ` set as" using assms(2,3) by blast
  then have "map_of (fst q) (ca_key c) = map_of (fst p) (ca_key c)" using assms(1) by (simp add: patched_to_def)
  with assms(4) show ?thesis using agrees_cong [of "fst q" c "fst p"] by simp
qed

lemma candidate_key_sets: "ca_key ` set (candidates tt x d fs vs) = ca_key ` set (candidates tt y e fs vs)"
  by (metis candidates_keys list.set_map)

lemma marshal_expands:
  assumes plain: "plain_table tt"
  shows "has_type tt t v \<Longrightarrow> canon (marshalValue tt t v) = canon (enc tt True t v)"
    "typed_fields tt fs vs \<Longrightarrow> list_all plain_field_ok fs \<Longrightarrow> distinct (map ca_key (candidates tt False d fs vs))
     \<Longrightarrow> \<forall>c \<in> set (candidates tt False d fs vs). agrees (\<lambda>j. j) (fst p) c
     \<Longrightarrow> patched_to p (candidates tt True d fs vs) (patchStructLinks tt fs vs p)"
  using assms
proof (induction tt t v and tt fs vs p arbitrary: and d rule: marshalValue_patchStructLinks.induct)
  case (1 tt t v)
  then show ?case by (auto split: option.splits)
next
  case (2 tt t i v loaded)
  then show ?case by (auto split: option.splits)
next
  case (4 tt t vs)
  define fs where "fs = fields_of tt (struct_key t)"
  define raw where "raw = members (candidates tt False 0 fs vs)"
  define q where "q = patchStructLinks tt fs vs (raw, False)"
  have dF: "distinct (map ca_key (candidates tt False 0 fs vs))" and ty: "typed_fields tt fs vs"
    using "4.prems"(1) by (simp_all add: fs_def)
  have dT: "distinct (map ca_key (candidates tt True 0 fs vs))" using dF candidates_keys by metis
  show ?case
  proof (cases "typeContainsLink tt t")
    case False
    then show ?thesis using enc_no_link(1) [OF "4.prems"(2,1), of True] by (simp add: typeContainsLink_iff del: enc.simps)
  next
    case True
    have "patched_to (raw, False) (candidates tt True 0 fs vs) q"
      using "4.IH" [of fs raw 0] True ty dF members_agree [OF dF] plain_tableD [OF "4.prems"(2)] "4.prems"(2)
      by (simp add: fs_def raw_def q_def list_all_iff)
    then have keys: "map fst (fst q) = map fst raw" and ag: "\<forall>c \<in> set (candidates tt True 0 fs vs). agrees canon (fst q) c"
      and ch: "snd q \<or> q = (raw, False)" by (auto simp: patched_to_def)
    let ?cp = "map (\<lambda>(k, j). (k, canon j))"
    have mk: "map fst (members (candidates tt x 0 fs vs)) = map fst (filter (\<lambda>(k, om). \<not> om) (shape (candidates tt x 0 fs vs)))"
      if "distinct (map ca_key (candidates tt x 0 fs vs))" for x
      by (simp add: members_distinct [OF that] shape_def filter_map comp_def)
    have kT: "map fst (members (candidates tt True 0 fs vs)) = map fst raw"
      using mk [OF dF] mk [OF dT] candidates_shape(2) [of tt True 0 fs vs False 0] by (simp add: raw_def)
    have "?cp (fst q) = ?cp (members (candidates tt True 0 fs vs))"
    proof (rule alist_eqI)
      fix k assume "k \<in> set (map fst (?cp (fst q)))"
      then have "k \<in> fst ` set (members (candidates tt True 0 fs vs))"
        using keys kT by (metis (no_types, lifting) comp_def list.map_comp list.set_map prod.case_eq_if fst_conv map_eq_conv)
      then obtain c where c: "c \<in> set (candidates tt True 0 fs vs)" "\<not> ca_omitted c" "k = ca_key c"
        by (auto simp: members_distinct [OF dT])
      with ag have "map_option canon (map_of (fst q) k) = Some (canon (ca_json c))" by (auto simp: agrees_def)
      moreover have "map_option canon (map_of (members (candidates tt True 0 fs vs)) k) = Some (canon (ca_json c))"
        using members_agree [OF dT c(1), of canon] c by (simp add: agrees_def)
      ultimately show "map_of (?cp (fst q)) k = map_of (?cp (members (candidates tt True 0 fs vs))) k"
        by (simp only: map_of_map o_apply)
    next
      show "map fst (?cp (fst q)) = map fst (?cp (members (candidates tt True 0 fs vs)))"
        using keys kT by (simp add: comp_def case_prod_beta)
      show "distinct (map fst (?cp (fst q)))" using keys kT distinct_members [OF dT] by (simp add: comp_def case_prod_beta)
    qed
    then have e: "canon (JObj (fst q)) = canon (JObj (members (candidates tt True 0 fs vs)))" by simp
    have "canon (finish_struct raw q) = canon (JObj (fst q))"
      using ch by (cases "snd q") (auto simp: finish_struct_def canon_sorted simp del: canon.simps)
    with e True show ?thesis by (simp add: Let_def fs_def raw_def q_def del: canon.simps)
  qed
next
  case (5 tt t vs)
  show ?case
  proof (cases "typeContainsLink tt t")
    case False
    then show ?thesis using enc_no_link(1) [OF "5.prems"(2,1), of True] by (simp add: typeContainsLink_iff del: enc.simps)
  next
    case True
    with 5 show ?thesis by (auto split: option.splits)
  qed
next
  case (6 tt t ws)
  show ?case
  proof (cases "typeContainsLink tt t")
    case False
    then show ?thesis using enc_no_link(1) [OF "6.prems"(2,1), of True] by (simp add: typeContainsLink_iff del: enc.simps)
  next
    case True
    with 6 show ?thesis by auto
  qed
next
  case (7 tt t kvs)
  show ?case
  proof (cases "typeContainsLink tt t")
    case False
    then show ?thesis using enc_no_link(1) [OF "7.prems"(2,1), of True] by (simp add: typeContainsLink_iff del: enc.simps)
  next
    case True
    show ?thesis
    proof (cases kvs)
      case (Some ws)
      have "map (\<lambda>(k, j). (k, canon j)) (map (\<lambda>(k, w). (k, marshalValue tt (elem_type t) w)) ws)
          = map (\<lambda>(k, j). (k, canon j)) (map (\<lambda>(k, w). (k, enc tt True (elem_type t) w)) ws)" if s: "string_keyed t"
        unfolding map_map
      proof (rule map_cong [OF refl])
        fix p assume "p \<in> set ws"
        then obtain k w where p: "p = (k, w)" and kw: "(k, w) \<in> set ws" by (metis surj_pair)
        with "7.prems" Some have "has_type tt (elem_type t) w" by auto
        then show "((\<lambda>(k, j). (k, canon j)) \<circ> (\<lambda>(k, w). (k, marshalValue tt (elem_type t) w))) p
            = ((\<lambda>(k, j). (k, canon j)) \<circ> (\<lambda>(k, w). (k, enc tt True (elem_type t) w))) p"
          using "7.IH" [of ws "(k, w)" k w] Some kw True s p "7.prems"(2) by simp
      qed
      then show ?thesis using Some True by (simp add: canon_sorted del: canon.simps map_map) (simp del: map_map map_eq_conv)
    qed (use True in simp)
  qed
next
  case (8 tt f fs v vs p)
  have tv: "has_type tt (sf_Type f) v" and pf: "plain_field_ok f" using "8.prems" by auto
  let ?head = "if \<not> exported f \<or> json_skipped f then p
        else if sf_Anonymous f \<and> \<not> json_named f then
          (let ft = elem_of_ptr (sf_Type f) in
           if is_struct ft \<and> typeContainsLink tt ft then
             (case inner_struct v of
                None \<Rightarrow> p
              | Some ws \<Rightarrow> patchStructLinks tt (fields_of tt (struct_key ft)) ws p)
           else p)
        else if \<not> typeContainsLink tt (sf_Type f) then p
        else patch_member (json_key f) (marshalValue tt (sf_Type f) v) p"
  let ?cs = "\<lambda>x. (if json_ignored f then []
      else if promoted f then
        (case inner_struct v of
           None \<Rightarrow> []
         | Some ws \<Rightarrow> candidates tt x (Suc d) (fields_of tt (struct_key (elem_of_ptr (sf_Type f)))) ws)
      else [\<lparr>ca_key = json_key f, ca_depth = d, ca_named = json_named f,
             ca_omitted = json_omitempty f \<and> empty_gov v, ca_json = enc tt x (sf_Type f) v\<rparr>])"
  have split: "candidates tt x d (f # fs) (v # vs) = ?cs x @ candidates tt x d fs vs" for x by simp
  have agF: "\<forall>c \<in> set (?cs False). agrees (\<lambda>j. j) (fst p) c"
    and agR: "\<forall>c \<in> set (candidates tt False d fs vs). agrees (\<lambda>j. j) (fst p) c"
    using "8.prems"(4) unfolding split by (metis Un_iff set_append)+
  have dF: "distinct (map ca_key (?cs False))" "distinct (map ca_key (candidates tt False d fs vs))"
    "ca_key ` set (?cs False) \<inter> ca_key ` set (candidates tt False d fs vs) = {}"
    using "8.prems"(3) unfolding split by (simp_all del: candidates.simps split del: if_split)
  have kc: "ca_key ` set (?cs True) = ca_key ` set (?cs False)"
  proof (cases "inner_struct v")
    case (Some ws)
    then show ?thesis
      using candidate_key_sets [of tt True "Suc d" "fields_of tt (struct_key (elem_of_ptr (sf_Type f)))" ws False "Suc d"]
      by simp
  qed simp
  have head: "patched_to p (?cs True) ?head"
  proof (cases "json_ignored f")
    case True
    then show ?thesis using plain_visible [OF pf] by (simp add: patched_to_same)
  next
    case ni: False
    then have vis: "exported f" "\<not> json_skipped f" using plain_visible [OF pf] by auto
    show ?thesis
    proof (cases "promoted f")
      case pr: True
      then have anon: "sf_Anonymous f" "\<not> json_named f" "is_struct (elem_of_ptr (sf_Type f))" by (auto simp: promoted_def)
      show ?thesis
      proof (cases "inner_struct v")
        case None
        then show ?thesis using ni vis pr anon by (simp add: patched_to_same Let_def)
      next
        case (Some ws)
        note i = inner_typed [OF tv Some]
        have pi: "list_all plain_field_ok (inner_fields tt f)"
          using plain_tableD [OF "8.prems"(5)] by (simp add: list_all_iff inner_fields_def)
        show ?thesis
        proof (cases "typeContainsLink tt (elem_of_ptr (sf_Type f))")
          case True
          have "patched_to p (candidates tt True (Suc d) (inner_fields tt f) ws) (patchStructLinks tt (inner_fields tt f) ws p)"
            using "8.IH"(1) [of "elem_of_ptr (sf_Type f)" ws "Suc d"] vis anon True Some i pi agF dF(1) ni pr "8.prems"(5)
            by (simp add: inner_fields_def)
          then show ?thesis using ni vis pr anon True Some by (simp add: inner_fields_def)
        next
          case False
          then have "\<forall>g\<in>set (inner_fields tt f). exported g \<longrightarrow> \<not> link_reachable tt (sf_Type g)"
            using struct_fields_reachable [of "elem_of_ptr (sf_Type f)" tt] anon
            by (simp add: inner_fields_def typeContainsLink_iff)
          then have "candidates tt True (Suc d) (inner_fields tt f) ws = candidates tt False (Suc d) (inner_fields tt f) ws"
            using enc_no_link(2) [OF "8.prems"(5)] i pi by blast
          then show ?thesis using agF ni vis pr anon False Some by (simp add: inner_fields_def patched_to_same)
        qed
      qed
    next
      case np: False
      then have na: "\<not> (sf_Anonymous f \<and> \<not> json_named f)" using pf by (auto simp: promoted_def plain_field_ok_def)
      let ?c = "\<lambda>x. \<lparr>ca_key = json_key f, ca_depth = d, ca_named = json_named f,
             ca_omitted = json_omitempty f \<and> empty_gov v, ca_json = enc tt x (sf_Type f) v\<rparr>"
      have one: "?cs x = [?c x]" for x using ni np by simp
      have ag: "agrees (\<lambda>j. j) (fst p) (?c False)" using agF one [of False] by simp
      show ?thesis
      proof (cases "typeContainsLink tt (sf_Type f)")
        case False
        then have "enc tt True (sf_Type f) v = enc tt False (sf_Type f) v"
          using enc_no_link(1) [OF "8.prems"(5) tv] by (simp add: typeContainsLink_iff)
        then have "patched_to p [?c True] p" using ag by (simp add: patched_to_same)
        moreover have "?head = p" using vis na False by presburger
        ultimately show ?thesis unfolding one by presburger
      next
        case True
        have ih: "canon (marshalValue tt (sf_Type f) v) = canon (enc tt True (sf_Type f) v)"
          using "8.IH"(2) vis na True tv "8.prems"(5) by blast
        have "patched_to p [?c True] (patch_member (json_key f) (marshalValue tt (sf_Type f) v) p)"
          unfolding patched_to_def
          using ag ih patch_member_changed
          by (auto simp: keys_patch_member patch_member_other agrees_def patch_member_here patch_member_same split: if_splits)
        moreover have "?head = patch_member (json_key f) (marshalValue tt (sf_Type f) v) p" using vis na True by presburger
        ultimately show ?thesis unfolding one by presburger
      qed
    qed
  qed
  have rest: "patched_to ?head (candidates tt True d fs vs) (patchStructLinks tt fs vs ?head)"
  proof (rule "8.IH"(3) [of d])
    show "\<forall>c \<in> set (candidates tt False d fs vs). agrees (\<lambda>j. j) (fst ?head) c"
      using patch_head [OF head] kc dF(3) agR by (metis (no_types, lifting))
  qed (use "8.prems" dF in auto)
  have "ca_key ` set (?cs True) \<inter> ca_key ` set (candidates tt True d fs vs) = {}"
    using dF(3) kc candidate_key_sets by metis
  from patched_to_append [OF head rest this] show ?case by (simp only: split patchStructLinks.simps)
qed (auto simp: patched_to_same)


text \<open>A note with its owner and a list of tags, embedding an audit record with a link.\<close>

definition go_field :: "string \<Rightarrow> bool \<Rightarrow> gtype \<Rightarrow> string \<Rightarrow> struct_field" where
  "go_field n anon t tag = \<lparr>sf_Name = n, sf_Anonymous = anon, sf_Type = t, sf_json = tag, sf_den = [], sf_validate = []\<rparr>"

definition go_types :: type_table where
  "go_types =
    [(''Link[User]'', \<lparr>st_Name = ''Link'', st_Text = ''Link[User]'', st_fields =
       [go_field ''ID'' False (TBasic ''string'' ''string'') [], go_field ''Value'' False (TPtr (TStruct ''User'')) [],
        go_field ''Loaded'' False (TBasic ''bool'' ''bool'') []]\<rparr>),
     (''User'', \<lparr>st_Name = ''User'', st_Text = ''User'', st_fields =
       [go_field ''Name'' False (TBasic ''string'' ''string'') ''name'']\<rparr>),
     (''Audit'', \<lparr>st_Name = ''Audit'', st_Text = ''Audit'', st_fields =
       [go_field ''Editor'' False (TStruct ''Link[User]'') ''editor'']\<rparr>),
     (''Note'', \<lparr>st_Name = ''Note'', st_Text = ''Note'', st_fields =
       [go_field ''Title'' False (TBasic ''string'' ''string'') ''title'', go_field ''Audit'' True (TStruct ''Audit'') [],
        go_field ''Owners'' False (TSlice (TStruct ''Link[User]'')) ''owners,omitempty'']\<rparr>),
     (''Draft'', \<lparr>st_Name = ''Draft'', st_Text = ''Draft'', st_fields =
       [go_field ''Audit'' True (TStruct ''Audit'') [], go_field ''Editor'' False (TBasic ''string'' ''string'') ''editor'']\<rparr>)]"

definition ann :: gov where "ann = GoStruct [GoBasic (JStr ''Ann'')]"

definition go_note :: gov where
  "go_note = GoPtr (Some (GoStruct [GoBasic (JStr ''Plan''), GoStruct [GoLink ''u1'' (Some ann) True],
     GoSlice (Some [GoLink ''u2'' None False, GoLink ''u1'' (Some ann) True])]))"


text \<open>A field that shadows an embedded link of the same key is overwritten with the link, although no link
  is loaded: the output is not that of \<open>json.Marshal\<close>.\<close>

lemma shadowed_link_overwrites:
  "let v = GoStruct [GoStruct [GoLink ''u1'' None False], GoBasic (JStr ''Bob'')] in
   no_loaded v \<and> enc go_types False (TStruct ''Draft'') v = JObj [(''editor'', JStr ''Bob'')]
   \<and> marshalValue go_types (TStruct ''Draft'') v = JObj [(''editor'', JStr ''u1'')]"
  by code_simp

end
