(* ===== verification/Urls.thy ===== *)
theory Urls
  imports Outcome
begin

text \<open>
  URL query strings and file paths as the Go standard library treats them: \<open>url.QueryEscape\<close>,
  \<open>url.QueryUnescape\<close>, \<open>url.ParseQuery\<close>, \<open>url.Values\<close> and its \<open>Encode\<close>, \<open>filepath.Clean\<close>, \<open>Dir\<close> and
  \<open>Join\<close> on a Unix system. A \<open>url.Values\<close> is a list of distinct keys with their values; its order is
  invisible, \<open>Encode\<close> sorts.
\<close>

section \<open>Escaping\<close>

definition unreserved :: "char \<Rightarrow> bool" where
  "unreserved c \<longleftrightarrow> is_letter c \<or> is_digit c \<or> c \<in> {CHR ''-'', CHR ''_'', CHR ''.'', CHR ''~''}"

definition upper_hex :: "nat \<Rightarrow> char" where
  "upper_hex d = (if d < 10 then char_of (48 + d) else char_of (55 + d))"

definition unhex :: "char \<Rightarrow> nat option" where
  "unhex c = (let n = (of_char c :: nat) in
     if 48 \<le> n \<and> n \<le> 57 then Some (n - 48) else if 97 \<le> n \<and> n \<le> 102 then Some (n - 87)
     else if 65 \<le> n \<and> n \<le> 70 then Some (n - 55) else None)"

definition escape_char :: "char \<Rightarrow> string" where
  "escape_char c = (if unreserved c then [c] else if c = CHR '' '' then ''+''
     else [CHR ''%'', upper_hex (of_char c div 16), upper_hex (of_char c mod 16)])"

definition QueryEscape :: "string \<Rightarrow> string" where
  "QueryEscape s = concat (map escape_char s)"

fun QueryUnescape :: "string \<Rightarrow> string option" where
  "QueryUnescape [] = Some []"
| "QueryUnescape (c # cs) =
     (if c = CHR ''%'' then
        (case cs of
           a # b # rest \<Rightarrow>
             (case (unhex a, unhex b) of
                (Some p, Some q) \<Rightarrow> map_option (Cons (char_of (p * 16 + q))) (QueryUnescape rest)
              | _ \<Rightarrow> None)
         | _ \<Rightarrow> None)
      else map_option (Cons (if c = CHR ''+'' then CHR '' '' else c)) (QueryUnescape cs))"

section \<open>Values\<close>

type_synonym url_values = "(string \<times> string list) list"

definition values_of :: "url_values \<Rightarrow> string \<Rightarrow> string list" where
  "values_of q k = (case map_of q k of None \<Rightarrow> [] | Some vs \<Rightarrow> vs)"

definition values_get :: "url_values \<Rightarrow> string \<Rightarrow> string" where
  "values_get q k = (case values_of q k of [] \<Rightarrow> [] | v # vs \<Rightarrow> v)"

fun values_put :: "string \<Rightarrow> (string list \<Rightarrow> string list) \<Rightarrow> url_values \<Rightarrow> url_values" where
  "values_put k f [] = [(k, f [])]"
| "values_put k f ((n, vs) # q) = (if n = k then (n, f vs) # q else (n, vs) # values_put k f q)"

definition values_add :: "string \<Rightarrow> string \<Rightarrow> url_values \<Rightarrow> url_values" where
  "values_add k v q = values_put k (\<lambda>vs. vs @ [v]) q"

definition values_set :: "string \<Rightarrow> string \<Rightarrow> url_values \<Rightarrow> url_values" where
  "values_set k v q = values_put k (\<lambda>vs. [v]) q"

definition values_del :: "string \<Rightarrow> url_values \<Rightarrow> url_values" where
  "values_del k q = filter (\<lambda>(n, vs). n \<noteq> k) q"

definition values_has :: "url_values \<Rightarrow> string \<Rightarrow> bool" where
  "values_has q k \<longleftrightarrow> k \<in> fst ` set q"

definition query_pair :: "string \<times> string \<Rightarrow> string" where
  "query_pair p = QueryEscape (fst p) @ ''='' @ QueryEscape (snd p)"

definition value_pairs :: "url_values \<Rightarrow> (string \<times> string) list" where
  "value_pairs q = concat (map (\<lambda>(k, vs). map (Pair k) vs) q)"

definition Encode :: "url_values \<Rightarrow> string" where
  "Encode q = join ''&'' (map query_pair (value_pairs (sort_key fst q)))"

text \<open>One piece between two ampersands: an error, nothing, or a pair.\<close>

definition parse_pair :: "string \<Rightarrow> gerr + (string \<times> string) option" where
  "parse_pair piece =
     (if CHR '';'' \<in> set piece then Inl (Msg ''invalid semicolon separator in query'')
      else if piece = [] then Inr None
      else (case (case str_cut piece ''='' of None \<Rightarrow> (piece, []) | Some kv \<Rightarrow> kv) of (k, v) \<Rightarrow>
        (case (QueryUnescape k, QueryUnescape v) of
           (Some k', Some v') \<Rightarrow> Inr (Some (k', v'))
         | _ \<Rightarrow> Inl (Msg ''invalid URL escape''))))"

text \<open>\<open>ParseQuery\<close> goes on after an error: the pairs it could read and the first error (a later
  semicolon error takes its place).\<close>

definition is_semicolon :: "string \<Rightarrow> bool" where
  "is_semicolon piece \<longleftrightarrow> CHR '';'' \<in> set piece"

fun parse_pieces :: "string list \<Rightarrow> url_values \<Rightarrow> gerr option \<Rightarrow> url_values \<times> gerr option" where
  "parse_pieces [] m err = (m, err)"
| "parse_pieces (p # ps) m err = (case parse_pair p of
      Inl e \<Rightarrow> parse_pieces ps m (if err = None \<or> is_semicolon p then Some e else err)
    | Inr None \<Rightarrow> parse_pieces ps m err
    | Inr (Some (k, v)) \<Rightarrow> parse_pieces ps (values_add k v m) err)"

definition ParseQuery :: "string \<Rightarrow> url_values \<times> gerr option" where
  "ParseQuery s = parse_pieces (split_on CHR ''&'' s) [] None"

section \<open>Paths\<close>

text \<open>\<open>filepath.Clean\<close>: the components kept so far, last first; \<open>..\<close> takes one away, stays at the front of a
  relative path and vanishes at the root.\<close>

fun clean_components :: "bool \<Rightarrow> string list \<Rightarrow> string list \<Rightarrow> string list" where
  "clean_components rooted kept [] = rev kept"
| "clean_components rooted kept (c # cs) =
     (if c = [] \<or> c = ''.'' then clean_components rooted kept cs
      else if c = ''..'' then
        (case kept of
           [] \<Rightarrow> clean_components rooted (if rooted then [] else [c]) cs
         | k # ks \<Rightarrow> clean_components rooted (if k = ''..'' then c # kept else ks) cs)
      else clean_components rooted (c # kept) cs)"

definition Clean :: "string \<Rightarrow> string" where
  "Clean path = (let rooted = has_prefix path ''/'';
        cs = clean_components rooted [] (split_on CHR ''/'' path)
     in if rooted then CHR ''/'' # join ''/'' cs else if cs = [] then ''.'' else join ''/'' cs)"

text \<open>\<open>filepath.Dir\<close>: the text up to the last slash, cleaned.\<close>

definition Dir :: "string \<Rightarrow> string" where
  "Dir path = Clean (rev (dropWhile (\<lambda>c. c \<noteq> CHR ''/'') (rev path)))"

text \<open>\<open>filepath.Join\<close> of the non-empty elements.\<close>

definition Join :: "string list \<Rightarrow> string" where
  "Join elems = (let es = filter (\<lambda>e. e \<noteq> []) elems in if es = [] then [] else Clean (join ''/'' es))"

section \<open>Round trip\<close>

lemma unhex_upper_hex: "d < 16 \<Longrightarrow> unhex (upper_hex d) = Some d"
  by (auto simp: unhex_def upper_hex_def)

lemma unreserved_plain: "unreserved c \<Longrightarrow> c \<notin> {CHR ''%'', CHR ''+'', CHR ''&'', CHR '';'', CHR ''=''}"
  by (auto simp: unreserved_def is_letter_def is_digit_def)

lemma unescape_char: "QueryUnescape (escape_char c @ s) = map_option (Cons c) (QueryUnescape s)"
proof -
  have "(of_char c :: nat) < 256" by simp
  then have d: "(of_char c :: nat) div 16 < 16" "(of_char c :: nat) mod 16 < 16" by (simp_all add: less_mult_imp_div_less)
  have "char_of ((of_char c :: nat) div 16 * 16 + of_char c mod 16) = c" by simp
  then show ?thesis using unreserved_plain [of c] unhex_upper_hex [OF d(1)] unhex_upper_hex [OF d(2)]
    by (simp add: escape_char_def)
qed

lemma unescape_escape: "QueryUnescape (QueryEscape s) = Some s"
  by (induction s) (simp_all add: QueryEscape_def unescape_char)

lemma upper_hex_plain: "d < 16 \<Longrightarrow> upper_hex d \<notin> {CHR ''&'', CHR '';'', CHR ''=''}"
proof
  assume "d < 16" and m: "upper_hex d \<in> {CHR ''&'', CHR '';'', CHR ''=''}"
  then have "unhex (upper_hex d) \<noteq> None" by (simp add: unhex_upper_hex)
  with m show False by (elim insertE) (simp_all add: unhex_def)
qed

lemma escape_free: "x \<in> {CHR ''&'', CHR '';'', CHR ''=''} \<Longrightarrow> x \<notin> set (QueryEscape s)"
proof -
  assume x: "x \<in> {CHR ''&'', CHR '';'', CHR ''=''}"
  have "x \<notin> set (escape_char c)" for c
  proof -
    have "(of_char c :: nat) < 256" by simp
    then have "(of_char c :: nat) div 16 < 16" "(of_char c :: nat) mod 16 < 16" by (simp_all add: less_mult_imp_div_less)
    then have "x \<notin> {upper_hex (of_char c div 16), upper_hex (of_char c mod 16)}" using upper_hex_plain x by blast
    moreover have "x \<notin> {CHR ''%'', CHR ''+''}" using x by auto
    moreover have "unreserved c \<Longrightarrow> x \<noteq> c" using unreserved_plain x by blast
    ultimately show ?thesis by (auto simp: escape_char_def)
  qed
  then show ?thesis by (simp add: QueryEscape_def)
qed

lemma str_cut_char: "c \<notin> set a \<Longrightarrow> str_cut (a @ c # b) [c] = Some (a, b)"
  by (induction a) auto

lemma parse_query_pair: "parse_pair (query_pair p) = Inr (Some p)"
proof -
  have "CHR '';'' \<notin> set (query_pair p)" using escape_free by (simp add: query_pair_def)
  moreover have "query_pair p \<noteq> []" by (simp add: query_pair_def)
  moreover have "str_cut (query_pair p) ''='' = Some (QueryEscape (fst p), QueryEscape (snd p))"
    using str_cut_char [of "CHR ''=''"] escape_free by (simp add: query_pair_def)
  ultimately show ?thesis by (simp add: parse_pair_def unescape_escape)
qed

lemma split_on_append_sep: "c \<notin> set p \<Longrightarrow> split_on c (p @ c # s) = p # split_on c s"
  by (induction p) auto

lemma split_on_join: "list_all (\<lambda>p. c \<notin> set p) ps \<Longrightarrow> ps \<noteq> [] \<Longrightarrow> split_on c (join [c] ps) = ps"
  by (induction "[c]" ps rule: join.induct) (auto simp: split_on_append_sep split_on_free_word)

lemma parse_encoded_pairs:
  "parse_pieces (map query_pair ps) m e = (foldl (\<lambda>m (k, v). values_add k v m) m ps, e)"
  by (induction ps arbitrary: m) (auto simp: parse_query_pair)

lemma values_put_last: "k \<notin> fst ` set m \<Longrightarrow> values_put k f (m @ [(k, vs)]) = m @ [(k, f vs)]"
  by (induction m) auto

lemma values_put_new: "k \<notin> fst ` set m \<Longrightarrow> values_put k f m = m @ [(k, f [])]"
  by (induction m) auto

lemma add_more:
  "k \<notin> fst ` set m \<Longrightarrow> foldl (\<lambda>m (k, v). values_add k v m) (m @ [(k, ws)]) (map (Pair k) vs) = m @ [(k, ws @ vs)]"
  by (induction vs arbitrary: ws) (simp_all add: values_add_def values_put_last)

lemma add_key:
  "k \<notin> fst ` set m \<Longrightarrow> vs \<noteq> [] \<Longrightarrow> foldl (\<lambda>m (k, v). values_add k v m) m (map (Pair k) vs) = m @ [(k, vs)]"
  using add_more [of k m "[hd vs]" "tl vs"] by (cases vs) (simp_all add: values_add_def values_put_new)

lemma add_all:
  "distinct (map fst (m @ q)) \<Longrightarrow> list_all (\<lambda>(k, vs). vs \<noteq> []) q
   \<Longrightarrow> foldl (\<lambda>m (k, v). values_add k v m) m (value_pairs q) = m @ q"
proof (induction q arbitrary: m)
  case (Cons kv q)
  obtain k vs where kv: "kv = (k, vs)" by fastforce
  then have "k \<notin> fst ` set m" "vs \<noteq> []" using Cons.prems by auto
  then show ?case using Cons.IH [of "m @ [(k, vs)]"] Cons.prems kv by (simp add: value_pairs_def add_key)
qed (simp add: value_pairs_def)

definition values_ok :: "url_values \<Rightarrow> bool" where
  "values_ok q \<longleftrightarrow> distinct (map fst q) \<and> list_all (\<lambda>(k, vs). vs \<noteq> []) q"

lemma query_pair_free: "CHR ''&'' \<notin> set (query_pair p)"
  using escape_free by (simp add: query_pair_def)

lemma parse_encode:
  assumes "values_ok q"
  shows "ParseQuery (Encode q) = (sort_key fst q, None)"
proof -
  let ?ps = "value_pairs (sort_key fst q)"
  have "distinct (map fst (sort_key fst q))" using assms by (simp add: values_ok_def distinct_map inj_on_def)
  moreover have ne: "list_all (\<lambda>(k, vs). vs \<noteq> []) (sort_key fst q)" using assms by (simp add: values_ok_def list_all_iff)
  ultimately have f: "foldl (\<lambda>m (k, v). values_add k v m) [] ?ps = sort_key fst q" using add_all [of "[]"] by simp
  show ?thesis
  proof (cases "?ps = []")
    case True
    then have "sort_key fst q = []" using f by simp
    then show ?thesis using True by (simp add: ParseQuery_def Encode_def parse_pair_def)
  next
    case False
    then have "split_on CHR ''&'' (Encode q) = map query_pair ?ps"
      using split_on_join [of "CHR ''&''" "map query_pair ?ps"] query_pair_free by (simp add: Encode_def list_all_iff)
    then show ?thesis by (simp add: ParseQuery_def parse_encoded_pairs f)
  qed
qed

lemma values_of_sorted: "distinct (map fst q) \<Longrightarrow> values_of (sort_key fst q) k = values_of q k"
proof -
  assume d: "distinct (map fst q)"
  have "map_of (sort_key fst q) = map_of q"
    by (rule map_of_eqI) (use d in \<open>auto simp: distinct_map inj_on_def intro: map_of_is_SomeI\<close>)
  then show ?thesis by (simp add: values_of_def)
qed

lemma keys_put: "fst ` set (values_put k f q) = insert k (fst ` set q)"
proof (induction q)
  case (Cons a q)
  then show ?case by (cases a; cases "fst a = k") (simp_all add: insert_commute)
qed simp

lemma values_ok_put: "values_ok q \<Longrightarrow> f (values_of q k) \<noteq> [] \<Longrightarrow> values_ok (values_put k f q)"
proof (induction q)
  case (Cons a q)
  then show ?case using keys_put [of k f q] by (cases a) (auto simp: values_ok_def values_of_def)
qed (simp add: values_ok_def values_of_def)

lemma values_of_put: "values_of (values_put k f q) n = (if n = k then f (values_of q k) else values_of q n)"
  by (induction q) (auto simp: values_of_def)

lemma values_ok_add: "values_ok q \<Longrightarrow> values_ok (values_add k v q)"
  by (simp add: values_add_def values_ok_put)

lemma values_ok_set: "values_ok q \<Longrightarrow> values_ok (values_set k v q)"
  by (simp add: values_set_def values_ok_put)

lemma values_ok_del: "values_ok q \<Longrightarrow> values_ok (values_del k q)"
  by (auto simp: values_ok_def values_del_def list_all_iff distinct_map_filter)

lemma values_ok_parse_pieces: "values_ok m \<Longrightarrow> values_ok (fst (parse_pieces ps m e))"
  by (induction ps m e rule: parse_pieces.induct) (auto simp: values_ok_add split: sum.split option.split)

lemma values_ok_parse: "values_ok (fst (ParseQuery s))"
  unfolding ParseQuery_def by (rule values_ok_parse_pieces) (simp add: values_ok_def)

end
