(* ===== verification/Open_Url.thy ===== *)
theory Open_Url
  imports Urls Sqlite_Driver Schema
begin

text \<open>
  Opening by URL: the registries of backends (\<^verbatim>\<open>engine/url.go\<close>) and of storages
  (\<^verbatim>\<open>storage/registry.go\<close>), the opener the SQLite backend registers and its \<open>Open\<close> with the data source
  name (\<^verbatim>\<open>backend/sqlite/sqlite.go\<close>), and the split of the \<open>url_prefix\<close> parameter. A registry is the
  list of its entries; the mutex is not modelled (registration happens in \<open>init\<close>). An opener is a
  program of its own state. The sentinels \<open>ErrUnsupportedScheme\<close> of the two packages are one here.
\<close>

section \<open>The two registries\<close>

type_synonym 'o entries = "(string \<times> 'o) list"

definition RegisterBackend :: "string \<Rightarrow> 'o option \<Rightarrow> 'o entries \<Rightarrow> 'o entries outcome" where
  "RegisterBackend scheme opener reg = (let s = to_lower scheme in
     if s = [] then Panic ''den: RegisterBackend with empty scheme''
     else (case opener of
         None \<Rightarrow> Panic (''den: RegisterBackend with nil opener for scheme '' @ s)
       | Some x \<Rightarrow>
           if map_of reg s \<noteq> None then Panic (''den: duplicate registration for scheme '' @ s)
           else Ok ((s, x) # reg)))"

definition parseScheme :: "string \<Rightarrow> gerr + string" where
  "parseScheme dsn =
     (if dsn = [] then Inl (Msg ''den: empty database URL'')
      else (case str_cut dsn ''://'' of
          None \<Rightarrow> Inl (Msg (''den: invalid database URL '' @ go_quote dsn
            @ '' (missing scheme, use sqlite:// or postgres://)''))
        | Some (scheme, rest) \<Rightarrow> Inr (to_lower scheme)))"

definition OpenURL ::
  "(string \<Rightarrow> ('w, 'b) prog) entries \<Rightarrow> ('b \<Rightarrow> ('w, 'd) prog) \<Rightarrow> string \<Rightarrow> ('w, 'd) prog" where
  "OpenURL reg openDB dsn = (case parseScheme dsn of
      Inl e \<Rightarrow> throwP e
    | Inr scheme \<Rightarrow> (case map_of reg scheme of
        None \<Rightarrow> throwP (Wrap (go_quote scheme @ '' (did you import the backend package?)'') [Sent ErrUnsupportedScheme])
      | Some opener \<Rightarrow> bindP (opener dsn) openDB))"

definition storage_Register :: "string \<Rightarrow> 'o option \<Rightarrow> 'o entries \<Rightarrow> 'o entries outcome" where
  "storage_Register scheme opener reg = (let s = to_lower scheme in
     if s = [] then Panic ''storage: Register with empty scheme''
     else (case opener of
         None \<Rightarrow> Panic (''storage: Register with nil opener for scheme '' @ s)
       | Some x \<Rightarrow>
           if map_of reg s \<noteq> None then Panic (''storage: duplicate registration for scheme '' @ s)
           else Ok ((s, x) # reg)))"

definition storage_OpenURL :: "(string \<Rightarrow> ('w, 's) prog) entries \<Rightarrow> string \<Rightarrow> ('w, 's) prog" where
  "storage_OpenURL reg dsn =
     (if dsn = [] then throwP (Msg ''storage: empty DSN'')
      else (case str_cut dsn ''://'' of
          None \<Rightarrow> throwP (Msg (''storage: missing scheme in DSN '' @ go_quote dsn @ '' (expected <scheme>://<location>)''))
        | Some (scheme, location) \<Rightarrow> (let s = to_lower scheme in case map_of reg s of
            None \<Rightarrow> throwP (Wrap (go_quote s @ '' (did you forget to import a backend sub-package?)'') [Sent ErrUnsupportedScheme])
          | Some opener \<Rightarrow> opener location)))"

text \<open>The registrations of a program, in the order of its \<open>init\<close> functions.\<close>

primrec register_all :: "(string \<Rightarrow> 'o option \<Rightarrow> 'r \<Rightarrow> 'r outcome) \<Rightarrow> (string \<times> 'o option) list \<Rightarrow> 'r \<Rightarrow> 'r outcome" where
  "register_all register [] r = Ok r"
| "register_all register (x # xs) r = (case register (fst x) (snd x) r of
      Ok r' \<Rightarrow> register_all register xs r' | Err e \<Rightarrow> Err e | Panic m \<Rightarrow> Panic m)"

section \<open>The SQLite opener\<close>

definition sqlite_path :: "string \<Rightarrow> string" where
  "sqlite_path dsn = (case cut_prefix dsn ''sqlite://'' of None \<Rightarrow> dsn | Some after \<Rightarrow> trim_prefix after ''/'')"

text \<open>\<open>ensureParentDir\<close>: the directory to create, if any.\<close>

definition parent_dir :: "string \<Rightarrow> string option" where
  "parent_dir path = (let p = (case str_cut path ''?'' of None \<Rightarrow> path | Some (b, q) \<Rightarrow> b) in
     if p = [] \<or> p = '':memory:'' \<or> has_prefix p ''file:'' then None
     else (let parent = Dir p in if parent = ''.'' \<or> parent = ''/'' \<or> parent = [] then None else Some parent))"

definition ensureParentDir :: "(string \<Rightarrow> ('w, unit) prog) \<Rightarrow> string \<Rightarrow> ('w, unit) prog" where
  "ensureParentDir mkdir path = (case parent_dir path of None \<Rightarrow> returnP () | Some d \<Rightarrow> mkdir d)"

definition defaultPragmas :: "string list" where
  "defaultPragmas = [''journal_mode(WAL)'', ''busy_timeout(5000)'', ''synchronous(NORMAL)'', ''foreign_keys(ON)'',
     ''temp_store(MEMORY)'', ''mmap_size(134217728)'', ''journal_size_limit(27103364)'', ''cache_size(2000)'']"

definition pragma_name :: "string \<Rightarrow> string" where
  "pragma_name p = to_lower (case str_cut p ''('' of None \<Rightarrow> p | Some (n, rest) \<Rightarrow> n)"

definition split_query :: "string \<Rightarrow> string \<times> string" where
  "split_query path = (case str_cut path ''?'' of None \<Rightarrow> (path, []) | Some bq \<Rightarrow> bq)"

definition dsn_params :: "url_values \<Rightarrow> url_values" where
  "dsn_params userParams =
     (let userPragmas = map pragma_name (values_of userParams ''_pragma'');
          params = (if values_get userParams ''_txlock'' = [] then values_set ''_txlock'' ''immediate'' userParams else userParams)
      in foldl (\<lambda>q p. if pragma_name p \<in> set userPragmas then q else values_add ''_pragma'' p q) params defaultPragmas)"

definition buildDSN :: "string \<Rightarrow> string" where
  "buildDSN path = (case split_query path of (base, queryStr) \<Rightarrow>
     base @ ''?'' @ Encode (dsn_params (fst (ParseQuery queryStr))))"

text \<open>\<open>Open\<close>: \<open>mkdir\<close> is \<open>os.MkdirAll\<close> and \<open>connect\<close> is \<open>sql.Open\<close>.\<close>

definition lite_Open :: "(string \<Rightarrow> ('w, unit) prog) \<Rightarrow> (string \<Rightarrow> ('w, 'w driver) prog) \<Rightarrow> string \<Rightarrow> ('w, 'w driver) prog" where
  "lite_Open mkdir connect path =
     map_err (\<lambda>e. Wrap (''sqlite open '' @ go_quote path) [e])
       (bindP (ensureParentDir mkdir path) (\<lambda>_.
        bindP (connect (buildDSN path)) (\<lambda>drv.
        bindP (lite_ensureMetadataTable drv) (\<lambda>_. returnP drv))))"

definition sqlite_opener :: "(string \<Rightarrow> ('w, unit) prog) \<Rightarrow> (string \<Rightarrow> ('w, 'w driver) prog) \<Rightarrow> string \<Rightarrow> ('w, 'w driver) prog" where
  "sqlite_opener mkdir connect dsn = lite_Open mkdir connect (sqlite_path dsn)"

section \<open>The URL prefix of a storage\<close>

definition URLPrefixFromLocation :: "string \<Rightarrow> string \<times> string" where
  "URLPrefixFromLocation location = (case str_cut location ''?'' of
      None \<Rightarrow> (location, [])
    | Some (base, rawQuery) \<Rightarrow> (case ParseQuery rawQuery of (q, err) \<Rightarrow>
        if err \<noteq> None \<or> \<not> values_has q ''url_prefix'' then (location, [])
        else (let encoded = Encode (values_del ''url_prefix'' q) in
          (if encoded = [] then base else base @ ''?'' @ encoded, values_get q ''url_prefix''))))"

section \<open>What a registry of schemes promises\<close>

locale scheme_registry =
  fixes register :: "string \<Rightarrow> 'o option \<Rightarrow> 'r \<Rightarrow> 'r outcome"
    and lookup :: "'r \<Rightarrow> string \<Rightarrow> 'o option"
  assumes registered: "register s v r = Ok r' \<Longrightarrow> lookup r' (to_lower s) = v \<and> v \<noteq> None"
    and other_schemes: "register s v r = Ok r' \<Longrightarrow> k \<noteq> to_lower s \<Longrightarrow> lookup r' k = lookup r k"
    and duplicate: "lookup r (to_lower s) \<noteq> None \<Longrightarrow> register s v r \<noteq> Ok r'"
begin

lemma found_stays: "register_all register xs r = Ok r' \<Longrightarrow> lookup r k = Some x \<Longrightarrow> lookup r' k = Some x"
proof (induction xs arbitrary: r)
  case (Cons a xs)
  then obtain r1 where r1: "register (fst a) (snd a) r = Ok r1" "register_all register xs r1 = Ok r'"
    by (auto split: outcome.splits)
  have "k \<noteq> to_lower (fst a)" using duplicate [of r "fst a" "snd a" r1] r1(1) Cons.prems(2) by auto
  then have "lookup r1 k = Some x" using other_schemes [OF r1(1)] Cons.prems(2) by simp
  then show ?case using Cons.IH r1(2) by blast
qed simp

lemma all_found:
  "register_all register xs r = Ok r' \<Longrightarrow> (s, v) \<in> set xs \<Longrightarrow> lookup r' (to_lower s) = v \<and> v \<noteq> None"
proof (induction xs arbitrary: r)
  case (Cons a xs)
  then obtain r1 where r1: "register (fst a) (snd a) r = Ok r1" "register_all register xs r1 = Ok r'"
    by (auto split: outcome.splits)
  show ?case
  proof (cases "(s, v) = a")
    case True
    with registered [OF r1(1)] have "lookup r1 (to_lower s) = v" "v \<noteq> None" by auto
    then show ?thesis using found_stays [OF r1(2)] by auto
  next
    case False
    then show ?thesis using Cons r1(2) by auto
  qed
qed simp

lemma nothing_else:
  "register_all register xs r = Ok r' \<Longrightarrow> k \<notin> (to_lower \<circ> fst) ` set xs \<Longrightarrow> lookup r' k = lookup r k"
proof (induction xs arbitrary: r)
  case (Cons a xs)
  then obtain r1 where r1: "register (fst a) (snd a) r = Ok r1" "register_all register xs r1 = Ok r'"
    by (auto split: outcome.splits)
  then show ?case using Cons other_schemes [OF r1(1)] by simp
qed simp

end

interpretation backends: scheme_registry RegisterBackend map_of
  by unfold_locales (auto simp: RegisterBackend_def Let_def split: if_splits option.splits)

interpretation storages: scheme_registry storage_Register map_of
  by unfold_locales (auto simp: storage_Register_def Let_def split: if_splits option.splits)

end
