(* ===== verification/Open_Properties.thy ===== *)
theory Open_Properties
  imports Open_Url
begin

text \<open>
  Opening by URL: which opener runs, which path the SQLite backend opens, and what the data source name
  tells the driver.
\<close>

section \<open>Dispatch\<close>

lemma str_cut_no_first: "s \<notin> set a \<Longrightarrow> str_cut (a @ s # sep @ b) (s # sep) = Some (a, b)"
  by (induction a) auto

lemma entry_of:
  "register_all RegisterBackend xs [] = Ok reg \<Longrightarrow>
   map_of reg (to_lower t) = (case find (\<lambda>x. to_lower (fst x) = to_lower t) xs of None \<Rightarrow> None | Some x \<Rightarrow> snd x)"
proof -
  assume r: "register_all RegisterBackend xs [] = Ok reg"
  show ?thesis
  proof (cases "find (\<lambda>x. to_lower (fst x) = to_lower t) xs")
    case None
    then have "to_lower t \<notin> (to_lower \<circ> fst) ` set xs" by (auto simp: find_None_iff)
    with backends.nothing_else [OF r] None show ?thesis by simp
  next
    case (Some x)
    then have "x \<in> set xs" "to_lower (fst x) = to_lower t" by (auto simp: find_Some_iff)
    with backends.all_found [OF r, of "fst x" "snd x"] Some show ?thesis by simp
  qed
qed

lemma open_url_dispatches:
  assumes "register_all RegisterBackend xs [] = Ok reg" and "str_cut dsn ''://'' = Some (t, loc)"
  shows "OpenURL reg openDB dsn =
    (case find (\<lambda>x. to_lower (fst x) = to_lower t) xs of
       Some (s, Some opener) \<Rightarrow> bindP (opener dsn) openDB
     | _ \<Rightarrow> throwP (Wrap (go_quote (to_lower t) @ '' (did you import the backend package?)'') [Sent ErrUnsupportedScheme]))"
proof -
  have "parseScheme dsn = Inr (to_lower t)" using assms(2) by (auto simp: parseScheme_def)
  then show ?thesis using entry_of [OF assms(1), of t]
    by (simp add: OpenURL_def split: option.split)
qed

lemma storage_url_dispatches:
  assumes "register_all storage_Register xs [] = Ok reg" and "(s, Some opener) \<in> set xs"
    and "str_cut dsn ''://'' = Some (t, loc)" and "to_lower t = to_lower s"
  shows "storage_OpenURL reg dsn = opener loc"
  using storages.all_found [OF assms(1,2)] assms(3,4) by (auto simp: storage_OpenURL_def Let_def)

lemma no_colon: "to_lower t = ''sqlite'' \<Longrightarrow> CHR '':'' \<notin> set t"
proof
  assume l: "to_lower t = ''sqlite''" and "CHR '':'' \<in> set t"
  then have "lower_char (CHR '':'') \<in> set (to_lower t)" unfolding to_lower_def by (metis imageI list.set_map)
  then show False by (simp add: l lower_char_def)
qed

lemma cut_sqlite:
  assumes "to_lower t = ''sqlite''"
  shows "sqlite_path (t @ ''://'' @ loc) = (if t = ''sqlite'' then trim_prefix loc ''/'' else t @ ''://'' @ loc)"
proof -
  have "length (to_lower t) = length t" by (simp add: to_lower_def)
  then have len: "length t = 6" by (simp add: assms)
  have "has_prefix (t @ ''://'' @ loc) ''sqlite://'' \<longleftrightarrow> t = ''sqlite''"
    using len by (auto simp: has_prefix_take)
  then show ?thesis using len by (auto simp: sqlite_path_def cut_prefix_def)
qed

text \<open>C35. A URL whose scheme is any spelling of \<open>sqlite\<close> reaches the opener of the SQLite backend, in
  whatever order the backends were registered. The opener strips the scheme from the lower-case
  spelling only: any other spelling makes the whole URL the path of the database file.\<close>

theorem sqlite_urls_open_a_path:
  assumes "register_all RegisterBackend xs [] = Ok reg" and "(''sqlite'', Some (sqlite_opener mkdir connect)) \<in> set xs"
    and "to_lower t = ''sqlite''"
  shows "OpenURL reg openDB (t @ ''://'' @ loc)
    = bindP (lite_Open mkdir connect (if t = ''sqlite'' then trim_prefix loc ''/'' else t @ ''://'' @ loc)) openDB"
proof -
  have l: "to_lower ''sqlite'' = ''sqlite''" by code_simp
  have "map_of reg ''sqlite'' = Some (sqlite_opener mkdir connect)"
    using backends.all_found [OF assms(1,2)] l by simp
  moreover have "str_cut (t @ ''://'' @ loc) ''://'' = Some (t, loc)"
    using str_cut_no_first [OF no_colon [OF assms(3)], of "''//''" loc] by simp
  then have "parseScheme (t @ ''://'' @ loc) = Inr ''sqlite''" using assms(3) by (simp add: parseScheme_def)
  ultimately have "OpenURL reg openDB (t @ ''://'' @ loc) = bindP (sqlite_opener mkdir connect (t @ ''://'' @ loc)) openDB"
    by (simp add: OpenURL_def)
  then show ?thesis unfolding sqlite_opener_def cut_sqlite [OF assms(3)] .
qed

text \<open>A driver that accepts everything; the state is the list of the data source names and directories
  asked for.\<close>

definition quiet_driver :: "string list driver" where
  "quiet_driver = \<lparr>dr_exec = \<lambda>_ _ w. (Inr (), w), dr_query = \<lambda>_ _ w. (Inr ([], None), w), dr_row = \<lambda>_ _ w. (Inl NoRows, w),
     dr_prepare = \<lambda>_ w. (Inr (), w), dr_begin = \<lambda>w. (Inr (), w), dr_commit = \<lambda>w. (Inr (), w), dr_rollback = \<lambda>w. (Inr (), w)\<rparr>"

definition note_dir :: "string \<Rightarrow> (string list, unit) prog" where
  "note_dir d w = (Ok (), (''mkdir '' @ d) # w)"

definition note_dsn :: "string \<Rightarrow> (string list, string list driver) prog" where
  "note_dsn dsn w = (Ok quiet_driver, takeWhile (\<lambda>c. c \<noteq> CHR ''?'') dsn # w)"

theorem sqlite_urls_witness:
  "\<exists>reg. register_all RegisterBackend [(''sqlite'', Some (sqlite_opener note_dir note_dsn))] [] = Ok reg
   \<and> snd (OpenURL reg (\<lambda>_. returnP ()) ''sqlite:///data/app.db'' []) = [''data/app.db'', ''mkdir data'']
   \<and> snd (OpenURL reg (\<lambda>_. returnP ()) ''SQLite:///data/app.db'' []) = [''SQLite:///data/app.db'', ''mkdir SQLite:/data'']"
proof -
  let ?xs = "[(''sqlite'', Some (sqlite_opener note_dir note_dsn))]"
  have l: "to_lower ''sqlite'' = ''sqlite''" "to_lower ''SQLite'' = ''sqlite''" by code_simp+
  have r: "register_all RegisterBackend ?xs [] = Ok [(''sqlite'', sqlite_opener note_dir note_dsn)]"
    by (simp add: RegisterBackend_def Let_def l)
  have m: "(''sqlite'', Some (sqlite_opener note_dir note_dsn)) \<in> set ?xs" by simp
  have a: "OpenURL [(''sqlite'', sqlite_opener note_dir note_dsn)] (\<lambda>_. returnP ()) (''sqlite'' @ ''://'' @ ''/data/app.db'')
      = bindP (lite_Open note_dir note_dsn (if ''sqlite'' = ''sqlite'' then trim_prefix ''/data/app.db'' ''/'' else ''sqlite'' @ ''://'' @ ''/data/app.db'')) (\<lambda>_. returnP ())"
    by (rule sqlite_urls_open_a_path [OF r m l(1)])
  have b: "OpenURL [(''sqlite'', sqlite_opener note_dir note_dsn)] (\<lambda>_. returnP ()) (''SQLite'' @ ''://'' @ ''/data/app.db'')
      = bindP (lite_Open note_dir note_dsn (if ''SQLite'' = ''sqlite'' then trim_prefix ''/data/app.db'' ''/'' else ''SQLite'' @ ''://'' @ ''/data/app.db'')) (\<lambda>_. returnP ())"
    by (rule sqlite_urls_open_a_path [OF r m l(2)])
  have "snd (bindP (lite_Open note_dir note_dsn (trim_prefix ''/data/app.db'' ''/'')) (\<lambda>_. returnP ()) []) = [''data/app.db'', ''mkdir data'']"
    "snd (bindP (lite_Open note_dir note_dsn ''SQLite:///data/app.db'') (\<lambda>_. returnP ()) []) = [''SQLite:///data/app.db'', ''mkdir SQLite:/data'']"
    by code_simp+
  with a b r show ?thesis by (intro exI [of _ "[(''sqlite'', sqlite_opener note_dir note_dsn)]"]) simp
qed

section \<open>The data source name\<close>

lemma defaults_added:
  "values_of (foldl (\<lambda>q p. if P p then q else values_add ''_pragma'' p q) q ps) k
   = (if k = ''_pragma'' then values_of q k @ filter (\<lambda>p. \<not> P p) ps else values_of q k)"
  by (induction ps arbitrary: q) (auto simp: values_add_def values_of_put)

lemma defaults_ok:
  "values_ok q \<Longrightarrow> values_ok (foldl (\<lambda>q p. if P p then q else values_add ''_pragma'' p q) q ps)"
  by (induction ps arbitrary: q) (auto simp: values_ok_add)

lemma split_query_cut: "split_query path = (base, q) \<Longrightarrow> CHR ''?'' \<notin> set base"
proof -
  assume s: "split_query path = (base, q)"
  have "str_cut path [c] = Some (a, b) \<Longrightarrow> c \<notin> set a" for c a b
    by (induction path arbitrary: a b) (auto split: if_splits)
  moreover have "str_cut path [c] = None \<Longrightarrow> c \<notin> set path" for c
    by (induction path) (auto split: if_splits)
  ultimately show ?thesis using s by (auto simp: split_query_def split: option.splits)
qed

text \<open>The data source name keeps the path and every parameter of the user: what the driver reads back
  from it are the user's values under every key, with \<open>_txlock\<close> set to \<open>immediate\<close> where the user gives
  none, and the default pragmas the user does not name, in any case, added after the user's own. A
  malformed parameter of the user is dropped, the others stay.\<close>

theorem dsn_keeps_the_settings:
  "\<exists>params. str_cut (buildDSN path) ''?'' = Some (fst (split_query path), params)
    \<and> (let user = fst (ParseQuery (snd (split_query path))); read = ParseQuery params in
        snd read = None
        \<and> (\<forall>k. values_of (fst read) k =
             (if k = ''_pragma'' then values_of user k @ filter (\<lambda>p. pragma_name p \<notin> pragma_name ` set (values_of user k)) defaultPragmas
              else if k = ''_txlock'' \<and> values_get user k = [] then [''immediate''] else values_of user k)))"
proof -
  obtain base q where s: "split_query path = (base, q)" by fastforce
  define user where "user = fst (ParseQuery q)"
  define params where "params = Encode (dsn_params user)"
  have ok: "values_ok user" by (simp add: user_def values_ok_parse)
  then have okd: "values_ok (dsn_params user)" by (simp add: dsn_params_def Let_def defaults_ok values_ok_set)
  have "buildDSN path = base @ CHR ''?'' # params" by (simp add: buildDSN_def s params_def user_def)
  then have cut: "str_cut (buildDSN path) ''?'' = Some (base, params)"
    using str_cut_char [OF split_query_cut [OF s]] by simp
  have read: "ParseQuery params = (sort_key fst (dsn_params user), None)"
    unfolding params_def by (rule parse_encode [OF okd])
  have "distinct (map fst (dsn_params user))" using okd by (simp add: values_ok_def)
  then have "values_of (fst (ParseQuery params)) k = values_of (dsn_params user) k" for k
    by (simp add: read values_of_sorted)
  then have "values_of (fst (ParseQuery params)) k =
             (if k = ''_pragma'' then values_of user k @ filter (\<lambda>p. pragma_name p \<notin> pragma_name ` set (values_of user k)) defaultPragmas
              else if k = ''_txlock'' \<and> values_get user k = [] then [''immediate''] else values_of user k)" for k
    by (auto simp: dsn_params_def Let_def defaults_added values_set_def values_of_put)
  then show ?thesis using cut read s by (auto simp: Let_def user_def)
qed

section \<open>The URL prefix\<close>

lemma url_prefix_split_off:
  assumes "str_cut location ''?'' = Some (base, rawQuery)" and "ParseQuery rawQuery = (q, None)" and "values_has q ''url_prefix''"
  shows "URLPrefixFromLocation location
    = ((let rest = values_del ''url_prefix'' q in if Encode rest = [] then base else base @ ''?'' @ Encode rest), values_get q ''url_prefix'')"
    and "ParseQuery (Encode (values_del ''url_prefix'' q)) = (sort_key fst (values_del ''url_prefix'' q), None)"
proof -
  show "URLPrefixFromLocation location
    = ((let rest = values_del ''url_prefix'' q in if Encode rest = [] then base else base @ ''?'' @ Encode rest), values_get q ''url_prefix'')"
    using assms by (simp add: URLPrefixFromLocation_def Let_def)
  have "values_ok q" using values_ok_parse [of rawQuery] assms(2) by simp
  then show "ParseQuery (Encode (values_del ''url_prefix'' q)) = (sort_key fst (values_del ''url_prefix'' q), None)"
    using parse_encode values_ok_del by blast
qed

end
