(* ===== verification/Os_Files.thy ===== *)
theory Os_Files
  imports Urls
begin

text \<open>
  The file operations of the Go standard library on a Unix file system, and programs that make them.

  A file system maps locations (a path without \<open>.\<close>, \<open>..\<close> and double slashes) to directories and to
  inodes; a hard link is a second entry of an inode. Symbolic links, permissions and the alias between a
  relative path and its absolute form are not modelled. A program is a tree of calls: each constructor is one atomic call with the
  continuation that gets its answer. Programs run alone (\<open>exec\<close>) or interleaved call by call (\<open>run_pool\<close>).
  What the environment decides, a failure of the call or the name of a temporary file, is an argument.
\<close>

section \<open>Locations and files\<close>

type_synonym loc = "bool \<times> string list"

definition path_rooted :: "string \<Rightarrow> bool" where
  "path_rooted p = has_prefix p ''/''"

definition location :: "string \<Rightarrow> loc" where
  "location p = (path_rooted p, clean_components (path_rooted p) [] (split_on CHR ''/'' p))"

definition under :: "loc \<Rightarrow> string list \<Rightarrow> loc" where
  "under l cs = (fst l, snd l @ cs)"

datatype node = Directory | File nat

datatype syserr = EExist | ENoEnt | ESys gerr

definition err_of :: "syserr \<Rightarrow> gerr" where
  "err_of e = (case e of EExist \<Rightarrow> Msg ''file exists'' | ENoEnt \<Rightarrow> Msg ''no such file or directory'' | ESys g \<Rightarrow> g)"

record files =
  entries :: "loc \<Rightarrow> node option"
  inodes :: "nat \<Rightarrow> string"
  next_inode :: nat

text \<open>The root and the working directory are always there.\<close>

definition node_at :: "files \<Rightarrow> loc \<Rightarrow> node option" where
  "node_at fs l = (if snd l = [] then Some Directory else entries fs l)"

definition parent_loc :: "loc \<Rightarrow> loc" where
  "parent_loc l = (fst l, butlast (snd l))"

definition put_entry :: "loc \<Rightarrow> node option \<Rightarrow> files \<Rightarrow> files" where
  "put_entry l n fs = fs\<lparr>entries := (entries fs)(l := n)\<rparr>"

text \<open>What the environment decides for one call: it runs, with the number it would draw and the year and
  month it would see, or it fails after part of its work.\<close>

datatype choice = Runs nat nat nat | Faults gerr nat

section \<open>The calls\<close>

text \<open>\<open>os.MkdirAll\<close>: the directories missing on the way, from the top; \<open>budget\<close> is how many of them it
  makes before it fails.\<close>

fun mkdirs :: "(gerr \<times> nat) option \<Rightarrow> loc \<Rightarrow> string list \<Rightarrow> files \<Rightarrow> syserr option \<times> files" where
  "mkdirs budget l [] fs = (map_option (\<lambda>(g, n). ESys g) budget, fs)"
| "mkdirs budget l (c # cs) fs = (let l' = under l [c] in case entries fs l' of
      Some Directory \<Rightarrow> mkdirs budget l' cs fs
    | Some (File i) \<Rightarrow> (Some (ESys (Msg ''not a directory'')), fs)
    | None \<Rightarrow> (case budget of
        None \<Rightarrow> mkdirs None l' cs (put_entry l' (Some Directory) fs)
      | Some (g, 0) \<Rightarrow> (Some (ESys g), fs)
      | Some (g, Suc n) \<Rightarrow> mkdirs (Some (g, n)) l' cs (put_entry l' (Some Directory) fs)))"

definition budget_of :: "choice \<Rightarrow> (gerr \<times> nat) option" where
  "budget_of c = (case c of Runs d y m \<Rightarrow> None | Faults g n \<Rightarrow> Some (g, n))"

definition sys_mkdir_all :: "choice \<Rightarrow> string \<Rightarrow> files \<Rightarrow> syserr option \<times> files" where
  "sys_mkdir_all c p fs = (if p = [] then (Some ENoEnt, fs)
     else (case location p of (r, cs) \<Rightarrow> mkdirs (budget_of c) (r, []) cs fs))"

text \<open>\<open>os.CreateTemp(dir, prefix + "*")\<close> for a non-empty \<open>dir\<close>: a new empty file of its own inode; the
  answer is the open file with its name.\<close>

definition temp_path :: "string \<Rightarrow> string \<Rightarrow> nat \<Rightarrow> string" where
  "temp_path dir prefix d = (if last dir = CHR ''/'' then dir else dir @ ''/'') @ prefix @ dec d"

definition sys_create_temp :: "choice \<Rightarrow> string \<Rightarrow> string \<Rightarrow> files \<Rightarrow> (syserr + nat \<times> string) \<times> files" where
  "sys_create_temp c dir prefix fs = (case c of
      Faults g n \<Rightarrow> (Inl (ESys g), fs)
    | Runs d y m \<Rightarrow>
        (let l = location (temp_path dir prefix d); i = next_inode fs in
         if node_at fs l \<noteq> None then (Inl EExist, fs)
         else if node_at fs (parent_loc l) \<noteq> Some Directory then (Inl ENoEnt, fs)
         else (Inr (i, temp_path dir prefix d),
           put_entry l (Some (File i)) (fs\<lparr>inodes := (inodes fs)(i := []), next_inode := Suc i\<rparr>))))"

definition sys_write :: "choice \<Rightarrow> nat \<Rightarrow> string \<Rightarrow> files \<Rightarrow> syserr option \<times> files" where
  "sys_write c fd bs fs = (case c of
      Runs d y m \<Rightarrow> (None, fs\<lparr>inodes := (inodes fs)(fd := inodes fs fd @ bs)\<rparr>)
    | Faults g n \<Rightarrow> (Some (ESys g), fs\<lparr>inodes := (inodes fs)(fd := inodes fs fd @ take n bs)\<rparr>))"

definition fault_of :: "choice \<Rightarrow> syserr option" where
  "fault_of c = (case c of Runs d y m \<Rightarrow> None | Faults g n \<Rightarrow> Some (ESys g))"

text \<open>\<open>os.Link\<close>: never replaces what is there.\<close>

definition sys_link :: "choice \<Rightarrow> string \<Rightarrow> string \<Rightarrow> files \<Rightarrow> syserr option \<times> files" where
  "sys_link c old new fs = (case fault_of c of
      Some e \<Rightarrow> (Some e, fs)
    | None \<Rightarrow> (case node_at fs (location old) of
        None \<Rightarrow> (Some ENoEnt, fs)
      | Some Directory \<Rightarrow> (Some (ESys (Msg ''operation not permitted'')), fs)
      | Some (File i) \<Rightarrow>
          (if node_at fs (location new) \<noteq> None then (Some EExist, fs)
           else if node_at fs (parent_loc (location new)) \<noteq> Some Directory then (Some ENoEnt, fs)
           else (None, put_entry (location new) (Some (File i)) fs))))"

definition has_children :: "files \<Rightarrow> loc \<Rightarrow> bool" where
  "has_children fs l \<longleftrightarrow> (\<exists>n. entries fs (under l [n]) \<noteq> None)"

definition remove_at :: "loc \<Rightarrow> files \<Rightarrow> syserr option \<times> files" where
  "remove_at l fs = (case node_at fs l of
      None \<Rightarrow> (Some ENoEnt, fs)
    | Some Directory \<Rightarrow> (if snd l = [] \<or> has_children fs l then (Some (ESys (Msg ''directory not empty'')), fs)
        else (None, put_entry l None fs))
    | Some (File i) \<Rightarrow> (None, put_entry l None fs))"

definition sys_remove :: "choice \<Rightarrow> string \<Rightarrow> files \<Rightarrow> syserr option \<times> files" where
  "sys_remove c p fs = (case fault_of c of Some e \<Rightarrow> (Some e, fs) | None \<Rightarrow> remove_at (location p) fs)"

definition sys_open_root :: "choice \<Rightarrow> string \<Rightarrow> files \<Rightarrow> syserr option \<times> files" where
  "sys_open_root c p fs = (case fault_of c of
      Some e \<Rightarrow> (Some e, fs)
    | None \<Rightarrow> ((case node_at fs (location p) of
        Some Directory \<Rightarrow> None | Some (File i) \<Rightarrow> Some (ESys (Msg ''not a directory'')) | None \<Rightarrow> Some ENoEnt), fs))"

text \<open>A name under an \<open>os.Root\<close>: the walk never leaves the root, every step but the last one must be a
  directory.\<close>

fun root_walk :: "files \<Rightarrow> loc \<Rightarrow> string list \<Rightarrow> string list \<Rightarrow> syserr + loc" where
  "root_walk fs l at [] = Inr (under l at)"
| "root_walk fs l at (c # cs) =
     (if c = [] \<or> c = ''.'' then root_walk fs l at cs
      else if c = ''..'' then
        (if at = [] then Inl (ESys (Msg ''path escapes from parent'')) else root_walk fs l (butlast at) cs)
      else if cs = [] then Inr (under l (at @ [c]))
      else (case entries fs (under l (at @ [c])) of
          Some Directory \<Rightarrow> root_walk fs l (at @ [c]) cs
        | Some (File i) \<Rightarrow> Inl (ESys (Msg ''not a directory''))
        | None \<Rightarrow> Inl ENoEnt))"

definition root_lookup :: "files \<Rightarrow> string \<Rightarrow> string \<Rightarrow> syserr + loc" where
  "root_lookup fs root name =
     (if name = [] then Inl ENoEnt
      else if path_rooted name then Inl (ESys (Msg ''path escapes from parent''))
      else root_walk fs (location root) [] (split_on CHR ''/'' name))"

definition sys_root_open :: "choice \<Rightarrow> string \<Rightarrow> string \<Rightarrow> files \<Rightarrow> (syserr + node) \<times> files" where
  "sys_root_open c root name fs = ((case fault_of c of
      Some e \<Rightarrow> Inl e
    | None \<Rightarrow> (case root_lookup fs root name of
        Inl e \<Rightarrow> Inl e
      | Inr l \<Rightarrow> (case node_at fs l of None \<Rightarrow> Inl ENoEnt | Some n \<Rightarrow> Inr n))), fs)"

definition sys_root_remove :: "choice \<Rightarrow> string \<Rightarrow> string \<Rightarrow> files \<Rightarrow> syserr option \<times> files" where
  "sys_root_remove c root name fs = (case fault_of c of
      Some e \<Rightarrow> (Some e, fs)
    | None \<Rightarrow> (case root_lookup fs root name of
        Inl e \<Rightarrow> (Some e, fs)
      | Inr l \<Rightarrow> (if l = location root then (Some (ESys (Msg ''invalid argument'')), fs) else remove_at l fs)))"

definition sys_now :: "choice \<Rightarrow> nat \<times> nat" where
  "sys_now c = (case c of Runs d y m \<Rightarrow> (y, m) | Faults g n \<Rightarrow> (n, 1))"

section \<open>Programs of calls\<close>

datatype 'a proc =
    PRet 'a
  | PMkdirAll string "syserr option \<Rightarrow> 'a proc"
  | PCreateTemp string string "syserr + nat \<times> string \<Rightarrow> 'a proc"
  | PWrite nat string "syserr option \<Rightarrow> 'a proc"
  | PClose nat "syserr option \<Rightarrow> 'a proc"
  | PLink string string "syserr option \<Rightarrow> 'a proc"
  | PRemove string "syserr option \<Rightarrow> 'a proc"
  | POpenRoot string "syserr option \<Rightarrow> 'a proc"
  | PRootOpen string string "syserr + node \<Rightarrow> 'a proc"
  | PRootRemove string string "syserr option \<Rightarrow> 'a proc"
  | PNow "nat \<times> nat \<Rightarrow> 'a proc"

primrec bindI :: "'a proc \<Rightarrow> ('a \<Rightarrow> 'b proc) \<Rightarrow> 'b proc" where
  "bindI (PRet x) f = f x"
| "bindI (PMkdirAll p k) f = PMkdirAll p (\<lambda>r. bindI (k r) f)"
| "bindI (PCreateTemp d p k) f = PCreateTemp d p (\<lambda>r. bindI (k r) f)"
| "bindI (PWrite fd bs k) f = PWrite fd bs (\<lambda>r. bindI (k r) f)"
| "bindI (PClose fd k) f = PClose fd (\<lambda>r. bindI (k r) f)"
| "bindI (PLink a b k) f = PLink a b (\<lambda>r. bindI (k r) f)"
| "bindI (PRemove p k) f = PRemove p (\<lambda>r. bindI (k r) f)"
| "bindI (POpenRoot p k) f = POpenRoot p (\<lambda>r. bindI (k r) f)"
| "bindI (PRootOpen p n k) f = PRootOpen p n (\<lambda>r. bindI (k r) f)"
| "bindI (PRootRemove p n k) f = PRootRemove p n (\<lambda>r. bindI (k r) f)"
| "bindI (PNow k) f = PNow (\<lambda>r. bindI (k r) f)"

text \<open>One call of a program.\<close>

definition resume :: "('r \<Rightarrow> 'a proc) \<Rightarrow> 'r \<times> files \<Rightarrow> 'a proc \<times> files" where
  "resume k rf = (k (fst rf), snd rf)"

primrec step_proc :: "choice \<Rightarrow> 'a proc \<Rightarrow> files \<Rightarrow> 'a proc \<times> files" where
  "step_proc c (PRet x) fs = (PRet x, fs)"
| "step_proc c (PMkdirAll p k) fs = resume k (sys_mkdir_all c p fs)"
| "step_proc c (PCreateTemp d p k) fs = resume k (sys_create_temp c d p fs)"
| "step_proc c (PWrite fd bs k) fs = resume k (sys_write c fd bs fs)"
| "step_proc c (PClose fd k) fs = resume k (fault_of c, fs)"
| "step_proc c (PLink a b k) fs = resume k (sys_link c a b fs)"
| "step_proc c (PRemove p k) fs = resume k (sys_remove c p fs)"
| "step_proc c (POpenRoot p k) fs = resume k (sys_open_root c p fs)"
| "step_proc c (PRootOpen p n k) fs = resume k (sys_root_open c p n fs)"
| "step_proc c (PRootRemove p n k) fs = resume k (sys_root_remove c p n fs)"
| "step_proc c (PNow k) fs = resume k (sys_now c, fs)"

text \<open>A program alone, under a sequence of choices: its result, the choices left and the files.\<close>

definition later :: "(nat \<Rightarrow> choice) \<Rightarrow> nat \<Rightarrow> choice" where
  "later ch = (\<lambda>n. ch (Suc n))"

definition continue ::
  "('r \<Rightarrow> (nat \<Rightarrow> choice) \<Rightarrow> files \<Rightarrow> 'a \<times> (nat \<Rightarrow> choice) \<times> files) \<Rightarrow> 'r \<times> files \<Rightarrow> (nat \<Rightarrow> choice)
   \<Rightarrow> 'a \<times> (nat \<Rightarrow> choice) \<times> files" where
  "continue k rf ch = k (fst rf) (later ch) (snd rf)"

primrec exec :: "'a proc \<Rightarrow> (nat \<Rightarrow> choice) \<Rightarrow> files \<Rightarrow> 'a \<times> (nat \<Rightarrow> choice) \<times> files" where
  "exec (PRet x) = (\<lambda>ch fs. (x, ch, fs))"
| "exec (PMkdirAll p k) = (\<lambda>ch fs. continue (\<lambda>r. exec (k r)) (sys_mkdir_all (ch 0) p fs) ch)"
| "exec (PCreateTemp d p k) = (\<lambda>ch fs. continue (\<lambda>r. exec (k r)) (sys_create_temp (ch 0) d p fs) ch)"
| "exec (PWrite fd bs k) = (\<lambda>ch fs. continue (\<lambda>r. exec (k r)) (sys_write (ch 0) fd bs fs) ch)"
| "exec (PClose fd k) = (\<lambda>ch fs. continue (\<lambda>r. exec (k r)) (fault_of (ch 0), fs) ch)"
| "exec (PLink a b k) = (\<lambda>ch fs. continue (\<lambda>r. exec (k r)) (sys_link (ch 0) a b fs) ch)"
| "exec (PRemove p k) = (\<lambda>ch fs. continue (\<lambda>r. exec (k r)) (sys_remove (ch 0) p fs) ch)"
| "exec (POpenRoot p k) = (\<lambda>ch fs. continue (\<lambda>r. exec (k r)) (sys_open_root (ch 0) p fs) ch)"
| "exec (PRootOpen p n k) = (\<lambda>ch fs. continue (\<lambda>r. exec (k r)) (sys_root_open (ch 0) p n fs) ch)"
| "exec (PRootRemove p n k) = (\<lambda>ch fs. continue (\<lambda>r. exec (k r)) (sys_root_remove (ch 0) p n fs) ch)"
| "exec (PNow k) = (\<lambda>ch fs. continue (\<lambda>r. exec (k r)) (sys_now (ch 0), fs) ch)"

text \<open>Programs side by side: a schedule picks the program that makes the next call.\<close>

definition pool_step :: "nat \<times> choice \<Rightarrow> 'a proc list \<times> files \<Rightarrow> 'a proc list \<times> files" where
  "pool_step ic pf = (if fst ic < length (fst pf)
     then (case step_proc (snd ic) (fst pf ! fst ic) (snd pf) of (p, fs) \<Rightarrow> ((fst pf)[fst ic := p], fs)) else pf)"

definition run_pool :: "(nat \<times> choice) list \<Rightarrow> 'a proc list \<times> files \<Rightarrow> 'a proc list \<times> files" where
  "run_pool sched pf = fold pool_step sched pf"

end
