(* ===== verification/Sha256.thy ===== *)
theory Sha256
  imports Prelude "HOL-Library.Word"
begin

text \<open>
  SHA-256 as \<open>crypto/sha256\<close> computes it (FIPS 180-4) over 32-bit words that wrap, and
  \<open>hex.EncodeToString\<close>. A byte sequence is a string.
\<close>

unbundle bit_operations_syntax

definition big_sigma0 :: "32 word \<Rightarrow> 32 word" where
  "big_sigma0 x = word_rotr 2 x XOR word_rotr 13 x XOR word_rotr 22 x"

definition big_sigma1 :: "32 word \<Rightarrow> 32 word" where
  "big_sigma1 x = word_rotr 6 x XOR word_rotr 11 x XOR word_rotr 25 x"

definition small_sigma0 :: "32 word \<Rightarrow> 32 word" where
  "small_sigma0 x = word_rotr 7 x XOR word_rotr 18 x XOR drop_bit 3 x"

definition small_sigma1 :: "32 word \<Rightarrow> 32 word" where
  "small_sigma1 x = word_rotr 17 x XOR word_rotr 19 x XOR drop_bit 10 x"

definition choose_bits :: "32 word \<Rightarrow> 32 word \<Rightarrow> 32 word \<Rightarrow> 32 word" where
  "choose_bits x y z = (x AND y) XOR (NOT x AND z)"

definition majority :: "32 word \<Rightarrow> 32 word \<Rightarrow> 32 word \<Rightarrow> 32 word" where
  "majority x y z = (x AND y) XOR (x AND z) XOR (y AND z)"

definition round_constants :: "32 word list" where
  "round_constants =
    [0x428A2F98, 0x71374491, 0xB5C0FBCF, 0xE9B5DBA5, 0x3956C25B, 0x59F111F1,
     0x923F82A4, 0xAB1C5ED5, 0xD807AA98, 0x12835B01, 0x243185BE, 0x550C7DC3,
     0x72BE5D74, 0x80DEB1FE, 0x9BDC06A7, 0xC19BF174, 0xE49B69C1, 0xEFBE4786,
     0x0FC19DC6, 0x240CA1CC, 0x2DE92C6F, 0x4A7484AA, 0x5CB0A9DC, 0x76F988DA,
     0x983E5152, 0xA831C66D, 0xB00327C8, 0xBF597FC7, 0xC6E00BF3, 0xD5A79147,
     0x06CA6351, 0x14292967, 0x27B70A85, 0x2E1B2138, 0x4D2C6DFC, 0x53380D13,
     0x650A7354, 0x766A0ABB, 0x81C2C92E, 0x92722C85, 0xA2BFE8A1, 0xA81A664B,
     0xC24B8B70, 0xC76C51A3, 0xD192E819, 0xD6990624, 0xF40E3585, 0x106AA070,
     0x19A4C116, 0x1E376C08, 0x2748774C, 0x34B0BCB5, 0x391C0CB3, 0x4ED8AA4A,
     0x5B9CCA4F, 0x682E6FF3, 0x748F82EE, 0x78A5636F, 0x84C87814, 0x8CC70208,
     0x90BEFFFA, 0xA4506CEB, 0xBEF9A3F7, 0xC67178F2]"

definition initial_hash :: "32 word list" where
  "initial_hash =
    [0x6A09E667, 0xBB67AE85, 0x3C6EF372, 0xA54FF53A, 0x510E527F, 0x9B05688C,
     0x1F83D9AB, 0x5BE0CD19]"

section \<open>One block\<close>

text \<open>The message schedule, last word first: \<open>n\<close> more words.\<close>

fun expand_words :: "nat \<Rightarrow> 32 word list \<Rightarrow> 32 word list" where
  "expand_words 0 ws = ws"
| "expand_words (Suc n) ws =
     expand_words n ((small_sigma1 (ws ! 1) + ws ! 6 + small_sigma0 (ws ! 14) + ws ! 15) # ws)"

definition schedule :: "32 word list \<Rightarrow> 32 word list" where
  "schedule block = rev (expand_words 48 (rev block))"

fun sha_round :: "32 word list \<Rightarrow> 32 word \<times> 32 word \<Rightarrow> 32 word list" where
  "sha_round [a, b, c, d, e, f, g, h] (k, w) =
     (let t1 = h + big_sigma1 e + choose_bits e f g + k + w; t2 = big_sigma0 a + majority a b c
      in [t1 + t2, a, b, c, d + t1, e, f, g])"
| "sha_round hs kw = hs"

definition compress :: "32 word list \<Rightarrow> 32 word list \<Rightarrow> 32 word list" where
  "compress hs block = map2 (+) hs (foldl sha_round hs (zip round_constants (schedule block)))"

section \<open>Padding and output\<close>

fun word_of_bytes :: "nat list \<Rightarrow> 32 word" where
  "word_of_bytes [a, b, c, d] = of_nat (a * 16777216 + b * 65536 + c * 256 + d)"
| "word_of_bytes bs = 0"

fun chunks_of :: "nat \<Rightarrow> nat \<Rightarrow> 'a list \<Rightarrow> 'a list list" where
  "chunks_of 0 k xs = []"
| "chunks_of (Suc n) k xs = take k xs # chunks_of n k (drop k xs)"

definition be_bytes :: "nat \<Rightarrow> nat \<Rightarrow> nat list" where
  "be_bytes n x = map (\<lambda>i. x div 256 ^ i mod 256) (rev [0..<n])"

definition padded :: "string \<Rightarrow> nat list" where
  "padded m = (let n = length m in
     map of_char m @ [128] @ replicate ((119 - n mod 64) mod 64) 0 @ be_bytes 8 (8 * n))"

definition blocks :: "string \<Rightarrow> 32 word list list" where
  "blocks m = (let bs = padded m in
     map (\<lambda>b. map word_of_bytes (chunks_of 16 4 b)) (chunks_of (length bs div 64) 64 bs))"

definition sha256 :: "string \<Rightarrow> string" where
  "sha256 m = concat (map (\<lambda>w. map char_of (be_bytes 4 (unat w))) (foldl compress initial_hash (blocks m)))"

definition EncodeToString :: "string \<Rightarrow> string" where
  "EncodeToString s = concat (map (\<lambda>c. [hex_char (of_char c div 16), hex_char (of_char c mod 16)]) s)"

definition sha256_hex :: "string \<Rightarrow> string" where
  "sha256_hex m = EncodeToString (sha256 m)"

section \<open>Shape of the digest\<close>

lemma length_sha_round [simp]: "length (sha_round hs kw) = length hs"
  by (induction hs kw rule: sha_round.induct) (simp_all add: Let_def)

lemma length_sha_rounds [simp]: "length (foldl sha_round hs kws) = length hs"
  by (induction kws arbitrary: hs) simp_all

lemma length_compress [simp]: "length (foldl compress hs bs) = length hs"
  by (induction bs arbitrary: hs) (simp_all add: compress_def)

lemma length_sha256: "length (sha256 m) = 32"
proof -
  have len: "length (concat (map (\<lambda>w. map char_of (be_bytes 4 (unat w))) ws) :: string) = 4 * length ws" for ws :: "32 word list"
    by (induction ws) (simp_all add: be_bytes_def)
  show ?thesis unfolding sha256_def len by (simp add: initial_hash_def)
qed

lemma length_EncodeToString: "length (EncodeToString s) = 2 * length s"
  by (induction s) (simp_all add: EncodeToString_def)

lemma length_sha256_hex: "length (sha256_hex m) = 64"
  by (simp add: sha256_hex_def length_EncodeToString length_sha256)

lemma hex_char_plain: "d < 16 \<Longrightarrow> hex_char d \<notin> {CHR ''/'', CHR ''.''}"
proof
  assume "d < 16" and "hex_char d \<in> {CHR ''/'', CHR ''.''}"
  then have "(of_char (hex_char d) :: nat) \<in> {47, 46}" by auto
  with \<open>d < 16\<close> show False by (auto simp: hex_char_def split: if_splits)
qed

lemma set_EncodeToString: "set (EncodeToString s) \<subseteq> hex_char ` {..<16}"
proof (induction s)
  case (Cons b s)
  have "(of_char b :: nat) < 256" by simp
  then have "(of_char b :: nat) div 16 < 16" "(of_char b :: nat) mod 16 < 16" by (simp_all add: less_mult_imp_div_less)
  then show ?case using Cons by (simp add: EncodeToString_def)
qed (simp add: EncodeToString_def)

lemma EncodeToString_plain: "c \<in> {CHR ''/'', CHR ''.''} \<Longrightarrow> c \<notin> set (EncodeToString s)"
proof
  assume c: "c \<in> {CHR ''/'', CHR ''.''}" and "c \<in> set (EncodeToString s)"
  then obtain d where "d < 16" "c = hex_char d" using set_EncodeToString by blast
  then show False using hex_char_plain c by blast
qed

lemma sha256_hex_plain: "CHR ''/'' \<notin> set (sha256_hex m)" "CHR ''.'' \<notin> set (sha256_hex m)"
  by (simp_all add: sha256_hex_def EncodeToString_plain)

text \<open>Sixteen digits cannot tell all inputs apart: there are more texts of nine bytes than prefixes.\<close>

lemma prefixes_collide: "\<exists>a b. a \<noteq> b \<and> length a = 9 \<and> length b = 9 \<and> take 16 (sha256_hex a) = take 16 (sha256_hex b)"
proof -
  let ?A = "{s :: string. set s \<subseteq> UNIV \<and> length s = 9}" and ?H = "{s. set s \<subseteq> hex_char ` {..<16} \<and> length s = 16}"
  let ?f = "\<lambda>s. take 16 (sha256_hex s)"
  have "card (hex_char ` {..<16}) \<le> card {..<16 :: nat}" by (rule card_image_le) simp
  then have "card (hex_char ` {..<16}) ^ 16 \<le> 16 ^ 16" by (intro power_mono) simp_all
  then have h: "card ?H \<le> 16 ^ 16" by (simp only: card_lists_length_eq finite_imageI finite_lessThan)
  have "card ?A = 256 ^ 9" by (simp only: card_lists_length_eq finite card_UNIV_char)
  moreover have "finite ?H" by (rule finite_lists_length_eq) simp
  moreover have "?f ` ?A \<subseteq> ?H"
    using set_EncodeToString length_sha256_hex by (fastforce simp: sha256_hex_def dest: in_set_takeD)
  ultimately have "card (?f ` ?A) < card ?A" using card_mono [of ?H "?f ` ?A"] h by simp
  then have "\<not> inj_on ?f ?A" using pigeonhole by blast
  then show ?thesis by (auto simp: inj_on_def)
qed

end
