(* ===== verification/File_Storage.thy ===== *)
theory File_Storage
  imports Os_Files Sha256 Open_Url Document
begin

text \<open>
  The local file storage (\<^verbatim>\<open>storage/file/file.go\<close>): \<open>New\<close>, \<open>Store\<close>, \<open>Open\<close>, \<open>Delete\<close>, \<open>URL\<close> and the opener of the
  \<^verbatim>\<open>file://\<close> scheme, as programs of file calls. The reader of an upload is the list of the pieces its \<open>Read\<close>
  returns and the error that ends it (none for \<open>io.EOF\<close>).
\<close>

record file_storage =
  rootPath :: string
  urlPrefix :: string

record reader =
  rd_pieces :: "string list"
  rd_error :: "gerr option"

section \<open>Opening\<close>

definition trim_right_slash :: "string \<Rightarrow> string" where
  "trim_right_slash s = rev (dropWhile (\<lambda>c. c = CHR ''/'') (rev s))"

definition New :: "string \<Rightarrow> string \<Rightarrow> file_storage outcome proc" where
  "New root prefix =
     PMkdirAll root (\<lambda>r. case r of
       Some e \<Rightarrow> PRet (Err (Wrap (''creating storage root '' @ go_quote root) [err_of e]))
     | None \<Rightarrow> POpenRoot root (\<lambda>r. case r of
         Some e \<Rightarrow> PRet (Err (Wrap (''opening storage root '' @ go_quote root) [err_of e]))
       | None \<Rightarrow> PRet (Ok \<lparr>rootPath = root, urlPrefix = trim_right_slash prefix\<rparr>)))"

definition file_opener :: "string \<Rightarrow> file_storage outcome proc" where
  "file_opener loc = (case URLPrefixFromLocation loc of (stripped, prefix) \<Rightarrow>
     (let path = trim_prefix stripped ''/'' in
      if path = [] then PRet (Err (Msg ''storage/file: file:// requires a path''))
      else New path prefix))"

section \<open>Store\<close>

text \<open>\<open>io.Copy\<close> into the temporary file through the \<open>TeeReader\<close>: the bytes the hasher saw and the error.\<close>

fun copy_pieces :: "nat \<Rightarrow> string list \<Rightarrow> gerr option \<Rightarrow> string \<Rightarrow> (string \<times> gerr option) proc" where
  "copy_pieces fd [] err hashed = PRet (hashed, err)"
| "copy_pieces fd (b # bs) err hashed =
     (if b = [] then copy_pieces fd bs err hashed
      else PWrite fd b (\<lambda>r. case r of
          None \<Rightarrow> copy_pieces fd bs err (hashed @ b)
        | Some e \<Rightarrow> PRet (hashed @ b, Some (err_of e))))"

definition rel_path :: "nat \<times> nat \<Rightarrow> string \<Rightarrow> string \<Rightarrow> string" where
  "rel_path now hashHex ext =
     Join [zero_padded 4 (fst now), zero_padded 2 (snd now), take 16 hashHex @ ext]"

definition link_into_place :: "file_storage \<Rightarrow> string \<Rightarrow> string \<Rightarrow> attachment \<Rightarrow> attachment outcome proc" where
  "link_into_place s tmpPath absPath att =
     PMkdirAll (Dir absPath) (\<lambda>r. case r of
       Some e \<Rightarrow> PRet (Err (Wrap ''creating storage directory'' [err_of e]))
     | None \<Rightarrow> PLink tmpPath absPath (\<lambda>r. case r of
         None \<Rightarrow> PRet (Ok att)
       | Some e \<Rightarrow> (if e = EExist then PRet (Ok att)
           else PRet (Err (Wrap (''linking '' @ absPath @ '' into place'') [err_of e])))))"

definition store_copied :: "file_storage \<Rightarrow> string \<Rightarrow> string \<Rightarrow> string \<Rightarrow> string \<Rightarrow> gerr option \<Rightarrow> attachment outcome proc" where
  "store_copied s ext mime tmpPath hashed copyErr = (case copyErr of
       Some e \<Rightarrow> PRet (Err (Wrap ''writing to temp file'' [e]))
     | None \<Rightarrow>
         (if hashed = [] then PRet (Err (Sent ErrEmptyContent))
          else (let hashHex = sha256_hex hashed in PNow (\<lambda>now.
            let relPath = rel_path now hashHex ext; absPath = Join [rootPath s, relPath] in
            link_into_place s tmpPath absPath (Attachment relPath mime (int (length hashed)) hashHex)))))"

definition Store :: "file_storage \<Rightarrow> reader \<Rightarrow> string \<Rightarrow> string \<Rightarrow> attachment outcome proc" where
  "Store s r ext mime =
     PCreateTemp (rootPath s) ''upload-'' (\<lambda>t. case t of
       Inl e \<Rightarrow> PRet (Err (Wrap ''creating temp file'' [err_of e]))
     | Inr (fd, tmpPath) \<Rightarrow>
         bindI (bindI (copy_pieces fd (rd_pieces r) (rd_error r) []) (\<lambda>(hashed, copyErr).
            PClose fd (\<lambda>closeErr. store_copied s ext mime tmpPath hashed
              (if copyErr = None then map_option err_of closeErr else copyErr))))
          (\<lambda>result. PRemove tmpPath (\<lambda>r. PRet result)))"

section \<open>Open, Delete and URL\<close>

definition openFile :: "file_storage \<Rightarrow> attachment \<Rightarrow> node outcome proc" where
  "openFile s a = PRootOpen (rootPath s) (StoragePath a) (\<lambda>r. case r of
      Inl e \<Rightarrow> PRet (Err (Wrap (''opening '' @ StoragePath a) [err_of e]))
    | Inr n \<Rightarrow> PRet (Ok n))"

definition file_Open :: "file_storage \<Rightarrow> attachment \<Rightarrow> node outcome proc" where
  "file_Open s a = openFile s a"

definition file_OpenSeekable :: "file_storage \<Rightarrow> attachment \<Rightarrow> node outcome proc" where
  "file_OpenSeekable s a = openFile s a"

definition file_Delete :: "file_storage \<Rightarrow> attachment \<Rightarrow> unit outcome proc" where
  "file_Delete s a = PRootRemove (rootPath s) (StoragePath a) (\<lambda>r. case r of
      None \<Rightarrow> PRet (Ok ())
    | Some e \<Rightarrow> (if e = ENoEnt then PRet (Ok ()) else PRet (Err (Wrap (''deleting '' @ StoragePath a) [err_of e]))))"

definition file_URLPrefix :: "file_storage \<Rightarrow> string" where
  "file_URLPrefix s = urlPrefix s"

definition file_URL :: "file_storage \<Rightarrow> attachment \<Rightarrow> string" where
  "file_URL s a = urlPrefix s @ ''/'' @ dropWhile (\<lambda>c. c = CHR ''/'') (StoragePath a)"

end
