(* ===== verification/File_Paths.thy ===== *)
theory File_Paths
  imports File_Storage
begin

text \<open>
  Where the paths of the file storage lie: \<open>Clean\<close> does not change the location of a path, \<open>Join\<close> goes below
  it and \<open>Dir\<close> one step up.
\<close>

section \<open>Clean\<close>

definition plain_name :: "string \<Rightarrow> bool" where
  "plain_name c \<longleftrightarrow> c \<noteq> [] \<and> c \<noteq> ''.'' \<and> c \<noteq> ''..'' \<and> CHR ''/'' \<notin> set c"

lemma clean_append:
  "clean_components r kept (xs @ ys) = clean_components r (rev (clean_components r kept xs)) ys"
  by (induction r kept xs rule: clean_components.induct) (auto split: list.split)

lemma clean_plain: "list_all plain_name cs \<Longrightarrow> clean_components r kept cs = rev kept @ cs"
  by (induction cs arbitrary: kept) (simp_all add: plain_name_def)

lemma clean_skip [simp]: "clean_components r kept (cs @ [[]]) = clean_components r kept cs"
  by (simp add: clean_append)

definition clean_stack :: "bool \<Rightarrow> string list \<Rightarrow> bool" where
  "clean_stack r cs \<longleftrightarrow> (\<exists>n ps. cs = replicate n ''..'' @ ps \<and> list_all plain_name ps \<and> (r \<longrightarrow> n = 0))"

lemma clean_stack_Nil [simp]: "clean_stack r []"
proof -
  have "([] :: string list) = replicate 0 ''..'' @ [] \<and> list_all plain_name [] \<and> (r \<longrightarrow> (0 :: nat) = 0)" by simp
  then show ?thesis unfolding clean_stack_def by blast
qed

lemma clean_stack_plain: "clean_stack r cs \<Longrightarrow> plain_name c \<Longrightarrow> clean_stack r (cs @ [c])"
proof -
  assume "clean_stack r cs" and c: "plain_name c"
  then obtain n ps where "cs = replicate n ''..'' @ ps" "list_all plain_name ps" "r \<longrightarrow> n = 0"
    by (auto simp: clean_stack_def)
  then have "cs @ [c] = replicate n ''..'' @ (ps @ [c]) \<and> list_all plain_name (ps @ [c]) \<and> (r \<longrightarrow> n = 0)" using c by simp
  then show ?thesis unfolding clean_stack_def by blast
qed

lemma clean_stack_up: "clean_stack r (cs @ [k]) \<Longrightarrow> k \<noteq> ''..'' \<Longrightarrow> clean_stack r cs"
proof -
  assume "clean_stack r (cs @ [k])" and k: "k \<noteq> ''..''"
  then obtain n ps where p: "cs @ [k] = replicate n ''..'' @ ps" "list_all plain_name ps" "r \<longrightarrow> n = 0"
    by (auto simp: clean_stack_def)
  have "ps \<noteq> []"
  proof
    assume "ps = []"
    then have "k \<in> set (replicate n ''..'')" using p(1) by (metis append_Nil2 in_set_conv_decomp)
    with k show False by simp
  qed
  then obtain qs q where "ps = qs @ [q]" by (metis append_butlast_last_id)
  with p have "cs = replicate n ''..'' @ qs" "list_all plain_name qs" by simp_all
  with p(3) show ?thesis unfolding clean_stack_def by blast
qed

lemma clean_stack_dots: "clean_stack False cs \<Longrightarrow> cs = [] \<or> last cs = ''..'' \<Longrightarrow> clean_stack False (cs @ [''..''])"
proof -
  assume "clean_stack False cs" and d: "cs = [] \<or> last cs = ''..''"
  then obtain n ps where p: "cs = replicate n ''..'' @ ps" "list_all plain_name ps" by (auto simp: clean_stack_def)
  have "ps = []"
  proof (rule ccontr)
    assume "ps \<noteq> []"
    then have "last cs \<in> set ps" "cs \<noteq> []" using p(1) by simp_all
    with d p(2) show False by (auto simp: list_all_iff plain_name_def)
  qed
  then have "cs @ [''..''] = replicate (Suc n) ''..'' @ []" using p(1) by (simp add: replicate_append_same)
  then show ?thesis unfolding clean_stack_def by (metis list.pred_inject(1))
qed

lemma rooted_stack_plain: "clean_stack True cs \<Longrightarrow> list_all plain_name cs"
  by (auto simp: clean_stack_def)

lemma clean_is_stack:
  "clean_stack r (rev kept) \<Longrightarrow> list_all (\<lambda>c. CHR ''/'' \<notin> set c) cs \<Longrightarrow> clean_stack r (clean_components r kept cs)"
proof (induction r kept cs rule: clean_components.induct)
  case (2 r kept c cs)
  show ?case
  proof (cases "c = [] \<or> c = ''.''")
    case True
    then show ?thesis using "2.IH"(1) "2.prems" by simp
  next
    case skip: False
    show ?thesis
    proof (cases "c = ''..''")
      case up: True
      show ?thesis
      proof (cases kept)
        case Nil
        have "clean_stack r (rev (if r then [] else [c]))"
          using clean_stack_dots [of "[]"] "2.prems"(1) Nil up by (cases r) simp_all
        then show ?thesis using "2.IH"(2) [OF skip up Nil] "2.prems" Nil up by (cases r) simp_all
      next
        case (Cons k ks)
        have st: "clean_stack r (rev ks @ [k])" using "2.prems"(1) Cons by simp
        have "\<not> r \<or> k \<noteq> ''..''" using rooted_stack_plain [of "rev ks @ [k]"] st by (cases r) (auto simp: plain_name_def)
        then have "clean_stack r (rev (if k = ''..'' then c # kept else ks))"
          using st clean_stack_up [OF st] clean_stack_dots [of "rev kept"] Cons up by (cases r) auto
        then show ?thesis using "2.IH"(3) [OF skip up Cons] "2.prems" Cons up skip by (cases "k = ''..''") simp_all
      qed
    next
      case False
      then have "clean_stack r (rev (c # kept))" using clean_stack_plain "2.prems" skip by (simp add: plain_name_def)
      then show ?thesis using "2.IH"(4) [OF skip False] "2.prems" skip False by simp
    qed
  qed
qed simp

lemma clean_dots: "clean_components False (replicate m ''..'') (replicate n ''..'' @ cs) = clean_components False (replicate (m + n) ''..'') cs"
proof (induction n arbitrary: m)
  case (Suc n)
  then show ?case using Suc.IH [of "Suc m"] by (cases m) simp_all
qed simp

lemma clean_fixed: "clean_stack r cs \<Longrightarrow> clean_components r [] cs = cs"
proof -
  assume "clean_stack r cs"
  then obtain n ps where p: "cs = replicate n ''..'' @ ps" "list_all plain_name ps" "r \<longrightarrow> n = 0"
    by (auto simp: clean_stack_def)
  show ?thesis
  proof (cases r)
    case True
    then show ?thesis using p clean_plain [of ps r "[]"] by simp
  next
    case False
    then show ?thesis using p clean_plain [of ps False "replicate n ''..''"] clean_dots [of 0 n ps] by simp
  qed
qed

section \<open>Locations\<close>

lemma split_free: "list_all (\<lambda>c. x \<notin> set c) (split_on x s)"
  using split_on_free by (auto simp: list_all_iff)

lemma location_stack: "clean_stack (path_rooted p) (snd (location p))"
  unfolding location_def snd_conv by (rule clean_is_stack) (simp_all add: split_free)

lemma stack_free: "clean_stack r cs \<Longrightarrow> list_all (\<lambda>c. c \<noteq> [] \<and> CHR ''/'' \<notin> set c) cs"
proof -
  assume "clean_stack r cs"
  then obtain n ps where p: "cs = replicate n ''..'' @ ps" "list_all plain_name ps" by (auto simp: clean_stack_def)
  have "list_all (\<lambda>c. c \<noteq> [] \<and> CHR ''/'' \<notin> set c) (replicate n ''..'')" by (induction n) simp_all
  moreover have "list_all (\<lambda>c. c \<noteq> [] \<and> CHR ''/'' \<notin> set c) ps" using p(2) by (simp add: list_all_iff plain_name_def)
  ultimately show ?thesis by (simp add: p(1))
qed

lemma join_rooted: "list_all (\<lambda>c. c \<noteq> [] \<and> CHR ''/'' \<notin> set c) cs \<Longrightarrow> \<not> path_rooted (join ''/'' cs)"
proof (cases cs)
  case (Cons c ds)
  assume "list_all (\<lambda>c. c \<noteq> [] \<and> CHR ''/'' \<notin> set c) cs"
  then obtain x xs where "c = x # xs" "x \<noteq> CHR ''/''" using Cons by (cases c) auto
  then show ?thesis using Cons by (cases ds) (simp_all add: path_rooted_def)
qed (simp add: path_rooted_def)

definition show_location :: "loc \<Rightarrow> string" where
  "show_location l = (if fst l then CHR ''/'' # join ''/'' (snd l) else if snd l = [] then ''.'' else join ''/'' (snd l))"

lemma Clean_shows: "Clean p = show_location (location p)"
  by (simp add: Clean_def Let_def show_location_def location_def path_rooted_def)

lemma location_show:
  assumes "clean_stack (fst l) (snd l)"
  shows "location (show_location l) = l"
proof -
  obtain r cs where l: "l = (r, cs)" by fastforce
  have st: "clean_stack r cs" using assms l by simp
  have f: "list_all (\<lambda>c. c \<noteq> [] \<and> CHR ''/'' \<notin> set c) cs" by (rule stack_free [OF st])
  then have sp: "cs \<noteq> [] \<Longrightarrow> split_on CHR ''/'' (join ''/'' cs) = cs"
    using split_on_join [of "CHR ''/''" cs] by (simp add: list_all_iff)
  have sp': "clean_components r [] (split_on CHR ''/'' (join ''/'' cs)) = cs"
    using clean_fixed [OF st] sp by (cases "cs = []") simp_all
  show ?thesis
  proof (cases r)
    case True
    then show ?thesis using sp' l by (simp add: show_location_def location_def path_rooted_def)
  next
    case False
    then show ?thesis using sp' l join_rooted [OF f]
      by (cases "cs = []") (simp_all add: show_location_def location_def path_rooted_def)
  qed
qed

lemma location_Clean [simp]: "location (Clean p) = location p"
proof -
  have "fst (location p) = path_rooted p" by (simp add: location_def)
  with location_stack [of p] have "clean_stack (fst (location p)) (snd (location p))" by simp
  then show ?thesis unfolding Clean_shows by (rule location_show)
qed

lemma split_on_slash: "split_on x (a @ x # b) = split_on x a @ split_on x b"
  by (induction a) (auto split: list.split)

lemma rooted_append: "a \<noteq> [] \<Longrightarrow> path_rooted (a @ b) = path_rooted a"
  by (cases a) (simp_all add: path_rooted_def)

lemma location_trailing: "p \<noteq> [] \<Longrightarrow> location (p @ ''/'') = location p"
  by (simp add: location_def rooted_append split_on_slash)

lemma clean_below:
  "list_all plain_name cs \<Longrightarrow> clean_components r [] (xs @ cs) = clean_components r [] xs @ cs"
  by (simp add: clean_append clean_plain)

lemma location_below:
  assumes "p \<noteq> []" and "list_all plain_name cs" and "cs \<noteq> []"
  shows "location (p @ CHR ''/'' # join ''/'' cs) = under (location p) cs"
proof -
  have "split_on CHR ''/'' (join ''/'' cs) = cs"
    using split_on_join [of "CHR ''/''" cs] assms(2,3) by (simp add: list_all_iff plain_name_def)
  then show ?thesis using assms by (simp add: location_def rooted_append split_on_slash clean_below under_def)
qed

lemma Join_plain: "list_all plain_name cs \<Longrightarrow> cs \<noteq> [] \<Longrightarrow> Join cs = join ''/'' cs"
proof -
  assume cs: "list_all plain_name cs" "cs \<noteq> []"
  then have "filter (\<lambda>e. e \<noteq> []) cs = cs" by (simp add: filter_id_conv list_all_iff plain_name_def)
  moreover have "list_all (\<lambda>c. c \<noteq> [] \<and> CHR ''/'' \<notin> set c) cs" using cs(1) by (simp add: list_all_iff plain_name_def)
  then have "\<not> path_rooted (join ''/'' cs)" by (rule join_rooted)
  moreover have "split_on CHR ''/'' (join ''/'' cs) = cs"
    using split_on_join [of "CHR ''/''" cs] cs by (simp add: list_all_iff plain_name_def)
  ultimately show ?thesis using cs clean_plain [OF cs(1), of False "[]"]
    by (simp add: Join_def Let_def Clean_shows show_location_def location_def)
qed

lemma join_nonempty: "list_all plain_name cs \<Longrightarrow> cs \<noteq> [] \<Longrightarrow> join sep cs \<noteq> []"
proof (cases cs)
  case (Cons c ds)
  assume "list_all plain_name cs"
  then have "c \<noteq> []" using Cons by (simp add: plain_name_def)
  then show ?thesis using Cons by (cases ds) simp_all
qed simp

lemma under_last: "under a [c] = under b (cs @ [c]) \<Longrightarrow> a = under b cs"
  by (simp add: under_def prod_eq_iff)

lemma location_Join: "p \<noteq> [] \<Longrightarrow> list_all plain_name cs \<Longrightarrow> cs \<noteq> [] \<Longrightarrow> location (Join [p, join ''/'' cs]) = under (location p) cs"
proof -
  assume a: "p \<noteq> []" "list_all plain_name cs" "cs \<noteq> []"
  then have "join ''/'' cs \<noteq> []" by (simp add: join_nonempty)
  then show ?thesis using location_below [OF a] a(1) by (simp add: Join_def Let_def)
qed

lemma location_Dir: "plain_name c \<Longrightarrow> location (p @ CHR ''/'' # c) = under (location (Dir (p @ CHR ''/'' # c))) [c]"
proof -
  assume c: "plain_name c"
  then have "dropWhile (\<lambda>x. x \<noteq> CHR ''/'') (rev c @ CHR ''/'' # rev p) = CHR ''/'' # rev p"
    by (subst dropWhile_append2) (auto simp: plain_name_def)
  then have d: "location (Dir (p @ CHR ''/'' # c)) = location (p @ ''/'')" by (simp add: Dir_def)
  have "path_rooted (p @ CHR ''/'' # c) = path_rooted (p @ ''/'')" by (cases p) (simp_all add: path_rooted_def)
  moreover have "split_on CHR ''/'' c = [c]" using c by (simp add: split_on_free_word plain_name_def)
  ultimately show ?thesis unfolding d using c clean_below [of "[c]"]
    by (simp add: location_def split_on_slash under_def)
qed

lemma location_Dir_Join:
  assumes "p \<noteq> []" and "list_all plain_name (cs @ [c])" and "cs \<noteq> []"
  shows "location (Dir (Join [p, join ''/'' (cs @ [c])])) = under (location p) cs"
proof -
  let ?q = "Join [p, join ''/'' (cs @ [c])]"
  have l: "location ?q = under (location p) (cs @ [c])" by (rule location_Join) (use assms in simp_all)
  have "?q = show_location (location ?q)"
  proof -
    have "join ''/'' (cs @ [c]) \<noteq> []" using assms(2) by (rule join_nonempty) simp
    then have "?q = Clean (p @ CHR ''/'' # join ''/'' (cs @ [c]))" using assms(1) by (simp add: Join_def Let_def)
    then show ?thesis by (metis Clean_shows location_Clean)
  qed
  also have "\<dots> = (if fst (location p) then ''/'' else []) @ join ''/'' (snd (location p) @ cs) @ CHR ''/'' # c"
    using assms(3) unfolding l by (simp add: show_location_def under_def join_append flip: append_assoc)
  finally obtain pre where "?q = pre @ CHR ''/'' # c" by auto
  moreover have "plain_name c" using assms(2) by simp
  ultimately have "under (location (Dir ?q)) [c] = location ?q" using location_Dir [of c pre] by simp
  then show ?thesis unfolding l by (rule under_last)
qed

lemma location_temp:
  assumes "p \<noteq> []" and "plain_name (prefix @ dec d)"
  shows "location (temp_path p prefix d) = under (location p) [prefix @ dec d]"
proof (cases "last p = CHR ''/''")
  case False
  then show ?thesis using location_below [of p "[prefix @ dec d]"] assms by (simp add: temp_path_def)
next
  case True
  then obtain q where q: "p = q @ ''/''" using assms(1) by (metis append_butlast_last_id)
  have "split_on CHR ''/'' (prefix @ dec d) = [prefix @ dec d]" using assms(2) by (simp add: split_on_free_word plain_name_def)
  moreover have "path_rooted (q @ CHR ''/'' # prefix @ dec d) = path_rooted (q @ ''/'')" by (cases q) (simp_all add: path_rooted_def)
  ultimately show ?thesis using True assms(2) q clean_below [of "[prefix @ dec d]"]
    by (simp add: temp_path_def location_def split_on_slash under_def)
qed

end
