(* ===== verification/File_Laws.thy ===== *)
theory File_Laws
  imports File_Paths
begin

text \<open>
  What the file calls do to a well-formed file system, and what the programs of the storage do when they
  run alone.
\<close>

section \<open>Well-formed file systems\<close>

declare split_paired_All [simp del] split_paired_Ex [simp del] split_paired_all [simp del]

definition files_ok :: "files \<Rightarrow> bool" where
  "files_ok fs \<longleftrightarrow> (\<forall>l n. entries fs l = Some n \<longrightarrow>
     snd l \<noteq> [] \<and> node_at fs (parent_loc l) = Some Directory \<and> (\<forall>i. n = File i \<longrightarrow> i < next_inode fs))"

lemma files_okD:
  "files_ok fs \<Longrightarrow> entries fs l = Some n \<Longrightarrow> snd l \<noteq> [] \<and> node_at fs (parent_loc l) = Some Directory"
  by (simp add: files_ok_def)

lemma files_ok_inode: "files_ok fs \<Longrightarrow> entries fs l = Some (File i) \<Longrightarrow> i < next_inode fs"
  by (simp add: files_ok_def)

lemma node_at_entries: "files_ok fs \<Longrightarrow> snd l \<noteq> [] \<Longrightarrow> node_at fs l = entries fs l"
  by (simp add: node_at_def)

lemma put_entry_simps [simp]:
  "entries (put_entry l n fs) = (entries fs)(l := n)" "inodes (put_entry l n fs) = inodes fs"
  "next_inode (put_entry l n fs) = next_inode fs"
  by (simp_all add: put_entry_def)

lemma parent_of_child [simp]: "parent_loc (under l [c]) = l"
  by (simp add: parent_loc_def under_def)

lemma under_child: "snd l \<noteq> [] \<Longrightarrow> l = under (parent_loc l) [last (snd l)]"
  by (cases l) (simp add: parent_loc_def under_def)

lemma under_Nil [simp]: "under l [] = l"
  by (simp add: under_def)

lemma under_under [simp]: "under (under l a) b = under l (a @ b)"
  by (simp add: under_def)

lemma under_eq [simp]: "under l a = under l b \<longleftrightarrow> a = b"
  by (simp add: under_def)

lemma snd_under [simp]: "snd (under l cs) = snd l @ cs"
  by (simp add: under_def)

lemma node_at_put: "snd l \<noteq> [] \<Longrightarrow> node_at (put_entry l n fs) l' = (if l' = l then n else node_at fs l')"
  by (simp add: node_at_def)

lemma files_ok_new:
  assumes "files_ok fs" and "node_at fs l = None" and "node_at fs (parent_loc l) = Some Directory"
    and "\<And>i. n = File i \<Longrightarrow> i < next_inode fs"
  shows "files_ok (put_entry l (Some n) fs)"
proof -
  have l: "snd l \<noteq> []" using assms(2) by (auto simp: node_at_def)
  have "node_at (put_entry l (Some n) fs) (parent_loc k) = Some Directory"
    if "node_at fs (parent_loc k) = Some Directory" for k
    using that assms(2) l by (auto simp: node_at_put)
  then show ?thesis using assms l by (auto simp: files_ok_def)
qed

lemma files_ok_gone:
  assumes "files_ok fs" and "node_at fs l = Some n" and "n = Directory \<Longrightarrow> \<not> has_children fs l"
  shows "files_ok (put_entry l None fs)"
proof (cases "snd l = []")
  case True
  then have "entries fs l = None" using assms(1) files_okD by (metis not_None_eq)
  then have "put_entry l None fs = fs" by (simp add: put_entry_def fun_upd_idem)
  then show ?thesis using assms(1) by simp
next
  case False
  have "parent_loc k \<noteq> l" if "entries fs k = Some m" "k \<noteq> l" for k m
  proof
    assume p: "parent_loc k = l"
    have k: "snd k \<noteq> []" "node_at fs (parent_loc k) = Some Directory" using files_okD [OF assms(1) that(1)] by auto
    then have "n = Directory" using assms(2) p by simp
    moreover have "has_children fs l" using that(1) under_child [OF k(1)] p unfolding has_children_def by (metis option.distinct(1))
    ultimately show False using assms(3) by simp
  qed
  then show ?thesis using assms(1) False by (auto simp: files_ok_def node_at_put)
qed

lemma files_ok_contents:
  "files_ok fs \<Longrightarrow> next_inode fs \<le> n \<Longrightarrow> files_ok (fs\<lparr>inodes := b, next_inode := n\<rparr>)"
proof -
  assume ok: "files_ok fs" "next_inode fs \<le> n"
  have "node_at (fs\<lparr>inodes := b, next_inode := n\<rparr>) = node_at fs" by (simp add: fun_eq_iff node_at_def)
  moreover have "i < n" if "entries fs l = Some (File i)" for l i using files_ok_inode [OF ok(1) that] ok(2) by simp
  ultimately show ?thesis using ok(1) by (auto simp: files_ok_def)
qed

lemma files_ok_inodes [simp]: "files_ok (fs\<lparr>inodes := b\<rparr>) = files_ok fs"
  by (simp add: files_ok_def node_at_def)

section \<open>The calls keep it\<close>

lemma remove_at_ok: "files_ok fs \<Longrightarrow> files_ok (snd (remove_at l fs))"
  using files_ok_gone [of fs l] by (auto simp: remove_at_def split: option.split node.split)

lemma mkdirs_ok:
  "files_ok fs \<Longrightarrow> node_at fs l = Some Directory \<Longrightarrow> files_ok (snd (mkdirs b l cs fs))"
proof (induction b l cs fs rule: mkdirs.induct)
  case (2 b l c cs fs)
  let ?l = "under l [c]"
  have at: "node_at fs ?l = entries fs ?l" by (simp add: node_at_def)
  show ?case
  proof (cases "entries fs ?l")
    case None
    have ok: "files_ok (put_entry ?l (Some Directory) fs)"
      by (rule files_ok_new) (use 2 None at in simp_all)
    have n: "node_at (put_entry ?l (Some Directory) fs) ?l = Some Directory" by (simp add: node_at_def)
    show ?thesis
    proof (cases b)
      case (Some gn)
      then show ?thesis using 2 None ok n by (cases gn; cases "snd gn") (simp_all add: Let_def)
    qed (use 2 None ok n in \<open>simp add: Let_def\<close>)
  next
    case (Some n)
    then show ?thesis using 2 at by (cases n) (simp_all add: Let_def)
  qed
qed simp

lemma sys_mkdir_all_ok: "files_ok fs \<Longrightarrow> files_ok (snd (sys_mkdir_all c p fs))"
  using mkdirs_ok [of fs "(fst (location p), [])"] by (auto simp: sys_mkdir_all_def node_at_def split: prod.split)

lemma sys_create_temp_ok: "files_ok fs \<Longrightarrow> files_ok (snd (sys_create_temp c d p fs))"
proof -
  assume ok: "files_ok fs"
  let ?fs = "fs\<lparr>inodes := (inodes fs)(next_inode fs := []), next_inode := Suc (next_inode fs)\<rparr>"
  have "files_ok ?fs" by (rule files_ok_contents [OF ok]) simp
  moreover have "node_at ?fs l = node_at fs l" for l by (simp add: node_at_def)
  ultimately have "files_ok (put_entry l (Some (File (next_inode fs))) ?fs)"
    if "node_at fs l = None" "node_at fs (parent_loc l) = Some Directory" for l
    using that by (intro files_ok_new) simp_all
  then show ?thesis using ok by (auto simp: sys_create_temp_def Let_def split: choice.split)
qed

lemma sys_write_ok: "files_ok fs \<Longrightarrow> files_ok (snd (sys_write c fd bs fs))"
  by (simp add: sys_write_def split: choice.split)

lemma sys_link_ok: "files_ok fs \<Longrightarrow> files_ok (snd (sys_link c a b fs))"
proof -
  assume ok: "files_ok fs"
  have "files_ok (put_entry (location b) (Some (File i)) fs)"
    if "node_at fs (location a) = Some (File i)" "node_at fs (location b) = None" "node_at fs (parent_loc (location b)) = Some Directory" for i
    by (rule files_ok_new [OF ok]) (use that files_ok_inode [OF ok] in \<open>auto simp: node_at_def split: if_splits\<close>)
  then show ?thesis using ok by (auto simp: sys_link_def split: option.split node.split)
qed

lemma sys_remove_ok: "files_ok fs \<Longrightarrow> files_ok (snd (sys_remove c p fs))"
  by (simp add: sys_remove_def remove_at_ok split: option.split)

lemma sys_root_remove_ok: "files_ok fs \<Longrightarrow> files_ok (snd (sys_root_remove c p n fs))"
  by (simp add: sys_root_remove_def remove_at_ok split: option.split sum.split)

lemma other_calls_ok:
  "snd (sys_open_root c p fs) = fs" "snd (sys_root_open c p n fs) = fs"
  by (auto simp: sys_open_root_def sys_root_open_def split: option.split)

lemmas calls_ok = sys_mkdir_all_ok sys_create_temp_ok sys_write_ok sys_link_ok sys_remove_ok sys_root_remove_ok other_calls_ok

theorem step_keeps_files_ok: "files_ok fs \<Longrightarrow> files_ok (snd (step_proc c p fs))"
  by (cases p) (simp_all add: resume_def calls_ok)

lemma exec_keeps_files_ok: "files_ok fs \<Longrightarrow> files_ok (snd (snd (exec p ch fs)))"
  by (induction p arbitrary: ch fs) (simp_all add: continue_def calls_ok)

section \<open>Running alone\<close>

lemma continue_pair [simp]: "continue k (r, fs) ch = k r (later ch) fs"
  by (simp add: continue_def)

lemma exec_bind: "exec (bindI p f) ch fs = (case exec p ch fs of (x, ch', fs') \<Rightarrow> exec (f x) ch' fs')"
  by (induction p arbitrary: ch fs) (simp_all add: continue_def)

text \<open>One program alone is a schedule that picks only it.\<close>

lemma exec_run_pool:
  "\<exists>sched. run_pool sched ([p], fs) = ([PRet (fst (exec p ch fs))], snd (snd (exec p ch fs)))"
proof -
  have step: "\<exists>sched. run_pool sched ([q], fs) = R"
    if "\<exists>sched. run_pool sched ([fst (step_proc c q fs)], snd (step_proc c q fs)) = R" for c q fs R
  proof -
    from that obtain sched where "run_pool sched ([fst (step_proc c q fs)], snd (step_proc c q fs)) = R" by blast
    then have "run_pool ((0, c) # sched) ([q], fs) = R" by (simp add: run_pool_def pool_step_def case_prod_beta)
    then show ?thesis by blast
  qed
  show ?thesis
  proof (induction p arbitrary: ch fs)
    case (PRet x)
    have "run_pool [] ([PRet x], fs) = ([PRet x], fs)" by (simp add: run_pool_def)
    then show ?case by auto
  next
    case (PMkdirAll p k)
    then show ?case by - (rule step [of "ch 0"], simp add: resume_def continue_def)
  next
    case (PCreateTemp d p k)
    then show ?case by - (rule step [of "ch 0"], simp add: resume_def continue_def)
  next
    case (PWrite fd bs k)
    then show ?case by - (rule step [of "ch 0"], simp add: resume_def continue_def)
  next
    case (PClose fd k)
    then show ?case by - (rule step [of "ch 0"], simp add: resume_def continue_def)
  next
    case (PLink a b k)
    then show ?case by - (rule step [of "ch 0"], simp add: resume_def continue_def)
  next
    case (PRemove p k)
    then show ?case by - (rule step [of "ch 0"], simp add: resume_def continue_def)
  next
    case (POpenRoot p k)
    then show ?case by - (rule step [of "ch 0"], simp add: resume_def continue_def)
  next
    case (PRootOpen p n k)
    then show ?case by - (rule step [of "ch 0"], simp add: resume_def continue_def)
  next
    case (PRootRemove p n k)
    then show ?case by - (rule step [of "ch 0"], simp add: resume_def continue_def)
  next
    case (PNow k)
    then show ?case by - (rule step [of "ch 0"], simp add: resume_def continue_def)
  qed
qed

end
