(* ===== verification/File_Properties.thy ===== *)
theory File_Properties
  imports File_Laws
begin

text \<open>
  The file storage alone: what \<open>Store\<close> leaves behind on every path, what \<open>Open\<close> then reads, and where the
  content address is not the content.
\<close>

section \<open>Names\<close>

lemma plain_digits: "s \<noteq> [] \<Longrightarrow> (\<And>c. c \<in> set s \<Longrightarrow> is_digit c) \<Longrightarrow> plain_name s"
proof -
  assume s: "s \<noteq> []" and d: "\<And>c. c \<in> set s \<Longrightarrow> is_digit c"
  have "\<not> is_digit CHR ''.''" "\<not> is_digit CHR ''/''" by (simp_all add: is_digit_def)
  then have "CHR ''.'' \<notin> set s" "CHR ''/'' \<notin> set s" using d by blast+
  then show ?thesis using s by (auto simp: plain_name_def)
qed

lemma plain_zero_padded: "plain_name (zero_padded w n)"
proof (rule plain_digits)
  have "is_digit CHR ''0''" by (simp add: is_digit_def)
  then show "is_digit c" if "c \<in> set (zero_padded w n)" for c using that dec_digits by (auto simp: zero_padded_def)
qed (simp add: zero_padded_def)

definition bucket_name :: "string \<Rightarrow> string \<Rightarrow> string" where
  "bucket_name bytes ext = take 16 (sha256_hex bytes) @ ext"

lemma plain_bucket_name: "CHR ''/'' \<notin> set ext \<Longrightarrow> plain_name (bucket_name bytes ext)"
proof -
  assume e: "CHR ''/'' \<notin> set ext"
  have "16 \<le> length (bucket_name bytes ext)" by (simp add: bucket_name_def length_sha256_hex)
  then have "bucket_name bytes ext \<noteq> []" "bucket_name bytes ext \<noteq> ''.''" "bucket_name bytes ext \<noteq> ''..''" by auto
  moreover have "CHR ''/'' \<notin> set (bucket_name bytes ext)"
    using sha256_hex_plain(1) e by (auto simp: bucket_name_def dest: in_set_takeD)
  ultimately show ?thesis by (simp add: plain_name_def)
qed

definition bucket :: "nat \<times> nat \<Rightarrow> string \<Rightarrow> string \<Rightarrow> string list" where
  "bucket now bytes ext = [zero_padded 4 (fst now), zero_padded 2 (snd now), bucket_name bytes ext]"

lemma plain_bucket: "CHR ''/'' \<notin> set ext \<Longrightarrow> list_all plain_name (bucket now bytes ext)"
  by (simp add: bucket_def plain_zero_padded plain_bucket_name)

lemma rel_path_bucket: "CHR ''/'' \<notin> set ext \<Longrightarrow> rel_path now (sha256_hex bytes) ext = join ''/'' (bucket now bytes ext)"
  using Join_plain [OF plain_bucket] by (simp add: rel_path_def bucket_def bucket_name_def)

lemma plain_temp: "plain_name (''upload-'' @ dec d)"
proof -
  have "CHR ''/'' \<notin> set (''upload-'' @ dec d)" using dec_digits [of "CHR ''/''" d] by (auto simp: is_digit_def)
  then show ?thesis by (simp add: plain_name_def)
qed

definition dest_loc :: "file_storage \<Rightarrow> nat \<times> nat \<Rightarrow> string \<Rightarrow> string \<Rightarrow> loc" where
  "dest_loc s now bytes ext = under (location (rootPath s)) (bucket now bytes ext)"

definition stored_as :: "nat \<times> nat \<Rightarrow> string \<Rightarrow> string \<Rightarrow> string \<Rightarrow> attachment" where
  "stored_as now bytes ext mime =
     Attachment (rel_path now (sha256_hex bytes) ext) mime (int (length bytes)) (sha256_hex bytes)"

section \<open>Directories on the way\<close>

text \<open>Only directories are new, on the way to a location.\<close>

definition grows :: "loc \<Rightarrow> files \<Rightarrow> files \<Rightarrow> bool" where
  "grows k fs fs' \<longleftrightarrow> inodes fs' = inodes fs \<and> next_inode fs' = next_inode fs
     \<and> (\<forall>l. entries fs' l = entries fs l \<or> (entries fs l = None \<and> entries fs' l = Some Directory \<and> (\<exists>ds. k = under l ds)))"

lemma grows_refl [simp]: "grows k fs fs"
  by (simp add: grows_def)

lemma grows_trans: "grows k a b \<Longrightarrow> grows k b c \<Longrightarrow> grows k a c"
  unfolding grows_def by (metis option.distinct(1))

lemma grows_put: "entries fs l = None \<Longrightarrow> k = under l ds \<Longrightarrow> grows k fs (put_entry l (Some Directory) fs)"
  by (auto simp: grows_def)

lemma mkdirs_grows: "grows (under l cs) fs (snd (mkdirs b l cs fs))"
proof (induction cs arbitrary: b l fs)
  case (Cons c cs)
  let ?l = "under l [c]" and ?k = "under l (c # cs)"
  have ih: "grows ?k x (snd (mkdirs b' ?l cs x))" for b' x using Cons.IH [of ?l x b'] by simp
  have "grows ?k fs (snd (mkdirs b' ?l cs (put_entry ?l (Some Directory) fs)))" if "entries fs ?l = None" for b'
    by (rule grows_trans [OF grows_put [OF that, of _ cs] ih]) simp
  then show ?case using ih by (auto simp: Let_def split: option.split node.split nat.split)
qed simp

lemma sys_mkdir_all_grows: "grows (location p) fs (snd (sys_mkdir_all c p fs))"
proof -
  have "under (fst (location p), []) (snd (location p)) = location p" by (simp add: under_def)
  then show ?thesis using mkdirs_grows [of "(fst (location p), [])" "snd (location p)" fs "budget_of c"]
    by (simp add: sys_mkdir_all_def case_prod_beta)
qed

lemma grows_file: "grows k fs fs' \<Longrightarrow> entries fs l = Some n \<Longrightarrow> entries fs' l = Some n"
  unfolding grows_def by (metis option.distinct(1))

lemma grows_file_back: "grows k fs fs' \<Longrightarrow> entries fs' l = Some (File i) \<Longrightarrow> entries fs l = Some (File i)"
  unfolding grows_def by (metis node.distinct(1) option.inject)

lemma grows_dir_back: "grows k fs fs' \<Longrightarrow> entries fs' l = Some Directory \<Longrightarrow> entries fs l = Some Directory \<or> (\<exists>ds. k = under l ds)"
  unfolding grows_def by metis

lemma grows_below: "grows k fs fs' \<Longrightarrow> l = under k [c] \<Longrightarrow> entries fs' l = entries fs l"
proof -
  assume g: "grows k fs fs'" and l: "l = under k [c]"
  have "k \<noteq> under l ds" for ds unfolding l by (simp add: under_def prod_eq_iff)
  then show ?thesis using g unfolding grows_def by blast
qed

definition month_loc :: "file_storage \<Rightarrow> nat \<times> nat \<Rightarrow> loc" where
  "month_loc s now = under (location (rootPath s)) [zero_padded 4 (fst now), zero_padded 2 (snd now)]"

lemma dest_below_month: "dest_loc s now bytes ext = under (month_loc s now) [bucket_name bytes ext]"
  by (simp add: dest_loc_def month_loc_def bucket_def)

section \<open>Store\<close>

lemma copy_exec:
  "exec (copy_pieces fd bs err h) ch fs = ((h', e), ch', fs') \<Longrightarrow>
   (\<exists>w. fs' = fs\<lparr>inodes := (inodes fs)(fd := inodes fs fd @ w)\<rparr> \<and> (e = None \<longrightarrow> err = None \<and> h' = h @ w \<and> w = concat bs))"
proof (induction fd bs err h arbitrary: ch fs rule: copy_pieces.induct)
  case (1 fd err h)
  then have "fs' = fs \<and> h' = h \<and> e = err" by simp
  then show ?case by (intro exI [of _ "[]"]) simp
next
  case (2 fd b bs err h)
  show ?case
  proof (cases "b = []")
    case False
    show ?thesis
    proof (cases "ch 0")
      case (Runs d y m)
      let ?fs = "fs\<lparr>inodes := (inodes fs)(fd := inodes fs fd @ b)\<rparr>"
      have "exec (copy_pieces fd bs err (h @ b)) (later ch) ?fs = ((h', e), ch', fs')"
        using "2.prems" False Runs by (simp add: continue_def sys_write_def)
      from "2.IH"(2) [OF False this] obtain w where
        "fs' = ?fs\<lparr>inodes := (inodes ?fs)(fd := inodes ?fs fd @ w)\<rparr>" "e = None \<longrightarrow> err = None \<and> h' = (h @ b) @ w \<and> w = concat bs"
        by blast
      then have "fs' = fs\<lparr>inodes := (inodes fs)(fd := inodes fs fd @ (b @ w))\<rparr>"
        and "e = None \<longrightarrow> err = None \<and> h' = h @ (b @ w) \<and> b @ w = concat (b # bs)" by simp_all
      then show ?thesis by blast
    next
      case (Faults g n)
      then have "fs' = fs\<lparr>inodes := (inodes fs)(fd := inodes fs fd @ take n b)\<rparr>" and "e \<noteq> None"
        using "2.prems" False by (auto simp: continue_def sys_write_def)
      then show ?thesis by blast
    qed
  qed (use 2 in simp)
qed

lemma store_copied_now:
  "h \<noteq> [] \<Longrightarrow> CHR ''/'' \<notin> set ext \<Longrightarrow> store_copied s ext mime tmp h None = PNow (\<lambda>now.
     link_into_place s tmp (Join [rootPath s, join ''/'' (bucket now h ext)]) (stored_as now h ext mime))"
  by (simp add: store_copied_def Let_def stored_as_def rel_path_bucket)

lemma exec_link_into_place:
  "exec (link_into_place s tmp ap att) ch fs = (case sys_mkdir_all (ch 0) (Dir ap) fs of
      (Some e, fs1) \<Rightarrow> (Err (Wrap ''creating storage directory'' [err_of e]), later ch, fs1)
    | (None, fs1) \<Rightarrow> (case sys_link (ch 1) tmp ap fs1 of
        (None, fs2) \<Rightarrow> (Ok att, later (later ch), fs2)
      | (Some e, fs2) \<Rightarrow> (if e = EExist then Ok att else Err (Wrap (''linking '' @ ap @ '' into place'') [err_of e]),
          later (later ch), fs2)))"
  by (simp add: link_into_place_def continue_def later_def split: prod.split option.split)

lemma store_copied_exec:
  assumes ok: "files_ok fs" and root: "rootPath s \<noteq> []" and ext: "CHR ''/'' \<notin> set ext"
    and tmp: "entries fs (location tmp) = Some (File i)"
    and ex: "exec (store_copied s ext mime tmp h e) ch fs = (res, ch', fs')"
  obtains (kept) month where "grows (month_loc s month) fs fs'"
      and "\<And>att. res = Ok att \<Longrightarrow> e = None \<and> h \<noteq> [] \<and>
        (\<exists>now. att = stored_as now h ext mime \<and> entries fs (dest_loc s now h ext) \<noteq> None)"
    | (linked) fs1 now where "grows (month_loc s now) fs fs1" and "e = None" and "h \<noteq> []" and "res = Ok (stored_as now h ext mime)"
      and "entries fs (dest_loc s now h ext) = None" and "files_ok (put_entry (dest_loc s now h ext) (Some (File i)) fs1)"
      and "fs' = put_entry (dest_loc s now h ext) (Some (File i)) fs1"
proof (cases "e = None \<and> h \<noteq> []")
  case False
  then have "fs' = fs \<and> (\<forall>att. res \<noteq> Ok att)" using ex by (cases e) (auto simp: store_copied_def)
  then show ?thesis using kept [of "(0, 0)"] by auto
next
  case True
  define now where "now = sys_now (ch 0)"
  define absPath where "absPath = Join [rootPath s, join ''/'' (bucket now h ext)]"
  let ?d = "dest_loc s now h ext" and ?att = "stored_as now h ext mime"
  have b: "bucket now h ext = [zero_padded 4 (fst now), zero_padded 2 (snd now)] @ [bucket_name h ext]" by (simp add: bucket_def)
  have loc: "location absPath = ?d"
    unfolding absPath_def dest_loc_def by (rule location_Join [OF root plain_bucket [OF ext]]) (simp add: bucket_def)
  have dirloc: "location (Dir absPath) = parent_loc ?d"
    using location_Dir_Join [of "rootPath s" "[zero_padded 4 (fst now), zero_padded 2 (snd now)]" "bucket_name h ext"]
      root plain_bucket [OF ext, of now h]
    unfolding absPath_def dest_loc_def b by (simp add: parent_loc_def under_def butlast_append)
  have ne: "snd ?d \<noteq> []" by (simp add: dest_loc_def bucket_def)
  obtain r fs1 where mk: "sys_mkdir_all (later ch 0) (Dir absPath) fs = (r, fs1)" by fastforce
  have g: "grows (month_loc s now) fs fs1"
    using sys_mkdir_all_grows [of "Dir absPath" fs "later ch 0"] mk dirloc by (simp add: dest_below_month)
  have same: "entries fs1 ?d = entries fs ?d" by (rule grows_below [OF g dest_below_month])
  have ok1: "files_ok fs1" using sys_mkdir_all_ok [OF ok, of "later ch 0" "Dir absPath"] mk by simp
  have ex1: "exec (link_into_place s tmp absPath ?att) (later ch) fs = (res, ch', fs')"
    using ex True by (simp add: store_copied_now ext continue_def now_def absPath_def)
  show ?thesis
  proof (cases r)
    case (Some e')
    then have "fs' = fs1" "\<And>att. res \<noteq> Ok att" using ex1 mk by (auto simp: exec_link_into_place)
    with g show ?thesis by (intro kept [of now]) auto
  next
    case None
    have t: "node_at fs1 (location tmp) = Some (File i)"
      using grows_file [OF g tmp] files_okD [OF ok1] by (simp add: node_at_def)
    show ?thesis
    proof (cases "\<exists>z. sys_link (later ch 1) tmp absPath fs1 = (None, z)")
      case True
      then have l: "sys_link (later ch 1) tmp absPath fs1 = (None, put_entry ?d (Some (File i)) fs1)" "node_at fs1 ?d = None"
        using t by (auto simp: sys_link_def loc split: option.splits node.splits if_splits)
      then have "fs' = put_entry ?d (Some (File i)) fs1" "res = Ok ?att"
        using ex1 None mk by (auto simp: exec_link_into_place)
      moreover have "entries fs ?d = None" using l(2) same ne by (simp add: node_at_def)
      moreover have "files_ok (put_entry ?d (Some (File i)) fs1)"
        using sys_link_ok [OF ok1, of "later ch 1" tmp absPath] l(1) by simp
      ultimately show ?thesis using \<open>e = None \<and> h \<noteq> []\<close> by (intro linked [OF g]) auto
    next
      case False
      then obtain e' where l: "sys_link (later ch 1) tmp absPath fs1 = (Some e', fs1)"
        using t by (cases "fault_of (later ch 1)") (auto simp: sys_link_def split: if_splits)
      have "e' = EExist \<Longrightarrow> entries fs1 ?d \<noteq> None"
        using l t ne loc by (auto simp: sys_link_def node_at_def fault_of_def split: choice.splits if_splits)
      moreover have "fs' = fs1" "\<And>att. res = Ok att \<Longrightarrow> e' = EExist \<and> att = ?att"
        using ex1 None mk l by (auto simp: exec_link_into_place split: if_splits)
      ultimately show ?thesis using g same \<open>e = None \<and> h \<noteq> []\<close> by (intro kept [of now]) auto
    qed
  qed
qed


text \<open>The temporary file is open for writing, named by the draw of \<open>CreateTemp\<close>.\<close>

definition temp_loc :: "file_storage \<Rightarrow> nat \<Rightarrow> loc" where
  "temp_loc s d = under (location (rootPath s)) [''upload-'' @ dec d]"

lemma location_temp_path: "rootPath s \<noteq> [] \<Longrightarrow> location (temp_path (rootPath s) ''upload-'' d) = temp_loc s d"
  unfolding temp_loc_def by (rule location_temp) (assumption, rule plain_temp)

lemma temp_not_dest [simp]: "temp_loc s d \<noteq> dest_loc s now bytes ext"
  by (simp add: temp_loc_def dest_loc_def bucket_def)

lemma sys_remove_file:
  "entries fs (location p) = Some (File i) \<Longrightarrow> files_ok fs \<Longrightarrow>
   snd (sys_remove c p fs) \<in> {fs, put_entry (location p) None fs}"
  using files_okD [of fs "location p"] by (auto simp: sys_remove_def remove_at_def node_at_def split: option.split)

text \<open>A run of \<open>Store\<close> in a well-formed file system. What was there stays, files with their bytes. A new name is
  the temporary file or the destination. A nil error: the reader ended without one, and the
  destination holds the bytes of the reader unless it was there before.\<close>

definition drawn :: "choice \<Rightarrow> nat" where
  "drawn c = (case c of Runs d y m \<Rightarrow> d | Faults g n \<Rightarrow> 0)"

definition store_effect :: "file_storage \<Rightarrow> reader \<Rightarrow> string \<Rightarrow> string \<Rightarrow> nat \<Rightarrow> files \<Rightarrow> attachment outcome \<Rightarrow> files \<Rightarrow> bool" where
  "store_effect s r ext mime d fs res fs' \<longleftrightarrow> (let bytes = concat (rd_pieces r) in
     files_ok fs'
   \<and> (\<forall>l n. entries fs l = Some n \<longrightarrow> entries fs' l = Some n) \<and> (\<forall>i < next_inode fs. inodes fs' i = inodes fs i)
   \<and> (\<forall>l i. entries fs' l = Some (File i) \<longrightarrow> entries fs l = Some (File i)
        \<or> i = next_inode fs \<and> (l = temp_loc s d \<or> is_ok res \<and> (\<exists>now. l = dest_loc s now bytes ext)))
   \<and> (\<forall>l. entries fs' l = Some Directory \<longrightarrow> entries fs l = Some Directory \<or> (\<exists>now ds. month_loc s now = under l ds))
   \<and> (\<forall>att. res = Ok att \<longrightarrow> rd_error r = None \<and> bytes \<noteq> [] \<and> (\<exists>now. att = stored_as now bytes ext mime
        \<and> entries fs' (dest_loc s now bytes ext) =
            (case entries fs (dest_loc s now bytes ext) of None \<Rightarrow> Some (File (next_inode fs)) | Some n \<Rightarrow> Some n)
        \<and> (entries fs (dest_loc s now bytes ext) = None \<longrightarrow> inodes fs' (next_inode fs) = bytes))))"


text \<open>The file system after the upload has been written to the temporary file, seen from the start.\<close>

definition with_temp :: "file_storage \<Rightarrow> nat \<Rightarrow> string \<Rightarrow> files \<Rightarrow> files \<Rightarrow> bool" where
  "with_temp s d bytes fs fs2 \<longleftrightarrow> files_ok fs2 \<and> entries fs (temp_loc s d) = None
     \<and> entries fs2 = (entries fs)(temp_loc s d := Some (File (next_inode fs)))
     \<and> inodes fs2 = (inodes fs)(next_inode fs := bytes)"

lemma effect_after_remove:
  assumes ok: "files_ok fs" "files_ok fs'" and wt: "with_temp s d w fs fs2"
    and ino: "inodes fs3 = inodes fs2"
    and fs': "fs' = fs3 \<or> fs' = put_entry (temp_loc s d) None fs3"
    and old: "\<And>l n. entries fs2 l = Some n \<Longrightarrow> entries fs3 l = Some n"
    and new: "\<And>l i. entries fs3 l = Some (File i) \<Longrightarrow> entries fs2 l = Some (File i)
      \<or> i = next_inode fs \<and> is_ok res \<and> (\<exists>now. l = dest_loc s now (concat (rd_pieces r)) ext)"
    and dirs: "\<And>l. entries fs3 l = Some Directory \<Longrightarrow> entries fs2 l = Some Directory \<or> (\<exists>now ds. month_loc s now = under l ds)"
    and res: "\<And>att. res = Ok att \<Longrightarrow> rd_error r = None \<and> w = concat (rd_pieces r) \<and> w \<noteq> [] \<and> (\<exists>now. att = stored_as now w ext mime
        \<and> entries fs3 (dest_loc s now w ext) = (case entries fs (dest_loc s now w ext) of None \<Rightarrow> Some (File (next_inode fs)) | Some n \<Rightarrow> Some n))"
  shows "store_effect s r ext mime d fs res fs'"
proof -
  let ?t = "temp_loc s d"
  have t: "entries fs ?t = None" "entries fs2 = (entries fs)(?t := Some (File (next_inode fs)))"
    "inodes fs2 = (inodes fs)(next_inode fs := w)" using wt by (simp_all add: with_temp_def)
  have e: "entries fs' l = (if l = ?t \<and> fs' \<noteq> fs3 then None else entries fs3 l)" and i: "inodes fs' = inodes fs3" for l
    using fs' by auto
  have "entries fs' l = Some n" if "entries fs l = Some n" for l n
  proof -
    have "l \<noteq> ?t" using that t(1) by auto
    then have "entries fs3 l = Some n" using that old t(2) by simp
    then show ?thesis using \<open>l \<noteq> ?t\<close> e by simp
  qed
  moreover have "inodes fs' i = inodes fs i" if "i < next_inode fs" for i using that \<open>inodes fs' = inodes fs3\<close> ino t(3) by simp
  moreover have "entries fs l = Some (File i)
        \<or> i = next_inode fs \<and> (l = temp_loc s d \<or> is_ok res \<and> (\<exists>now. l = dest_loc s now (concat (rd_pieces r)) ext))"
    if "entries fs' l = Some (File i)" for l i
    using new [of l i] that e t(2) by (auto split: if_splits)
  moreover have "entries fs l = Some Directory \<or> (\<exists>now ds. month_loc s now = under l ds)" if "entries fs' l = Some Directory" for l
    using dirs [of l] that e t(2) by (auto split: if_splits)
  moreover have "rd_error r = None \<and> concat (rd_pieces r) \<noteq> [] \<and> (\<exists>now. att = stored_as now (concat (rd_pieces r)) ext mime
        \<and> entries fs' (dest_loc s now (concat (rd_pieces r)) ext) =
            (case entries fs (dest_loc s now (concat (rd_pieces r)) ext) of None \<Rightarrow> Some (File (next_inode fs)) | Some n \<Rightarrow> Some n)
        \<and> (entries fs (dest_loc s now (concat (rd_pieces r)) ext) = None \<longrightarrow> inodes fs' (next_inode fs) = concat (rd_pieces r)))"
    if "res = Ok att" for att
  proof -
    from res [OF that] obtain now where r: "rd_error r = None" "w = concat (rd_pieces r)" "w \<noteq> []" "att = stored_as now w ext mime"
      "entries fs3 (dest_loc s now w ext) = (case entries fs (dest_loc s now w ext) of None \<Rightarrow> Some (File (next_inode fs)) | Some n \<Rightarrow> Some n)"
      by blast
    have "dest_loc s now w ext \<noteq> ?t" using temp_not_dest by metis
    then have "entries fs' (dest_loc s now w ext) = entries fs3 (dest_loc s now w ext)" using e by simp
    moreover have "inodes fs' (next_inode fs) = w" using i ino t(3) by simp
    ultimately show ?thesis using r by auto
  qed
  ultimately show ?thesis using ok(2) unfolding store_effect_def Let_def by blast
qed

lemma store_copied_effect:
  assumes ok: "files_ok fs" and root: "rootPath s \<noteq> []" and ext: "CHR ''/'' \<notin> set ext"
    and wt: "with_temp s d w fs fs2" and tmp: "location tmp = temp_loc s d"
    and e: "e = None \<Longrightarrow> rd_error r = None \<and> h = w \<and> w = concat (rd_pieces r)"
    and ex: "exec (store_copied s ext mime tmp h e) ch fs2 = (res, ch', fs3)"
    and rm: "fs' = snd (sys_remove c tmp fs3)"
  shows "store_effect s r ext mime d fs res fs'"
proof -
  have ok2: "files_ok fs2" and t2: "entries fs2 (location tmp) = Some (File (next_inode fs))"
    using wt tmp by (simp_all add: with_temp_def)
  have ok3: "files_ok fs3" using exec_keeps_files_ok [OF ok2] ex by (metis snd_conv)
  have ok': "files_ok fs'" unfolding rm by (rule sys_remove_ok [OF ok3])
  have base: "entries fs2 (dest_loc s now b x) = entries fs (dest_loc s now b x)" for now b x
    using wt temp_not_dest [of s d now b x, symmetric] by (simp add: with_temp_def)
  have fs'_cases: "fs' = fs3 \<or> fs' = put_entry (temp_loc s d) None fs3" if "entries fs3 (location tmp) = Some (File i)" for i
    using sys_remove_file [OF that ok3, of c] rm tmp by simp
  show ?thesis
  proof (rule store_copied_exec [OF ok2 root ext t2 ex])
    fix month
    assume g: "grows (month_loc s month) fs2 fs3" and a: "\<And>att. res = Ok att \<Longrightarrow> e = None \<and> h \<noteq> [] \<and>
        (\<exists>now. att = stored_as now h ext mime \<and> entries fs2 (dest_loc s now h ext) \<noteq> None)"
    show ?thesis
    proof (rule effect_after_remove [OF ok ok' wt])
      show "inodes fs3 = inodes fs2" using g by (simp add: grows_def)
      show "fs' = fs3 \<or> fs' = put_entry (temp_loc s d) None fs3" by (rule fs'_cases [OF grows_file [OF g t2]])
      show "entries fs3 l = Some n" if "entries fs2 l = Some n" for l n by (rule grows_file [OF g that])
      show "rd_error r = None \<and> w = concat (rd_pieces r) \<and> w \<noteq> [] \<and> (\<exists>now. att = stored_as now w ext mime
        \<and> entries fs3 (dest_loc s now w ext) = (case entries fs (dest_loc s now w ext) of None \<Rightarrow> Some (File (next_inode fs)) | Some n \<Rightarrow> Some n))"
        if "res = Ok att" for att
      proof -
        from a [OF that] obtain now n where a: "e = None" "h \<noteq> []" "att = stored_as now h ext mime" "entries fs2 (dest_loc s now h ext) = Some n" by blast
        then have "rd_error r = None" "w = concat (rd_pieces r)" "h = w" using e by simp_all
        moreover have "entries fs3 (dest_loc s now h ext) = Some n" "entries fs (dest_loc s now h ext) = Some n"
          using a(4) grows_file [OF g] base by simp_all
        ultimately show ?thesis using a by (intro conjI exI [of _ now]) simp_all
      qed
    qed (use grows_file_back [OF g] grows_dir_back [OF g] in blast)+
  next
    fix fs1 now
    let ?d = "dest_loc s now h ext"
    assume g: "grows (month_loc s now) fs2 fs1" and en: "e = None" "h \<noteq> []" and res: "res = Ok (stored_as now h ext mime)"
      and nd: "entries fs2 ?d = None" and fs3: "fs3 = put_entry ?d (Some (File (next_inode fs))) fs1"
    have h: "rd_error r = None" "h = w" "w = concat (rd_pieces r)" using e [OF en(1)] by simp_all
    have keep: "entries fs3 l = Some n" if "entries fs2 l = Some n" for l n
      using grows_file [OF g that] that nd fs3 by auto
    show ?thesis
    proof (rule effect_after_remove [OF ok ok' wt])
      show "inodes fs3 = inodes fs2" using g fs3 by (simp add: grows_def)
      show "fs' = fs3 \<or> fs' = put_entry (temp_loc s d) None fs3" by (rule fs'_cases [OF keep [OF t2]])
      show "entries fs2 l = Some (File i) \<or> i = next_inode fs \<and> is_ok res \<and> (\<exists>now. l = dest_loc s now (concat (rd_pieces r)) ext)"
        if "entries fs3 l = Some (File i)" for l i
        using that fs3 grows_file_back [OF g] res h by (auto split: if_splits)
      show "rd_error r = None \<and> w = concat (rd_pieces r) \<and> w \<noteq> [] \<and> (\<exists>now. att = stored_as now w ext mime
        \<and> entries fs3 (dest_loc s now w ext) = (case entries fs (dest_loc s now w ext) of None \<Rightarrow> Some (File (next_inode fs)) | Some n \<Rightarrow> Some n))"
        if "res = Ok att" for att
        using that res h en nd base fs3 by auto
      show "entries fs2 l = Some Directory \<or> (\<exists>now ds. month_loc s now = under l ds)" if "entries fs3 l = Some Directory" for l
      proof -
        have "entries fs1 l = Some Directory" using that fs3 by (simp split: if_splits)
        from grows_dir_back [OF g this] show ?thesis by blast
      qed
    qed (rule keep)
  qed
qed

lemma store_exec:
  assumes ok: "files_ok fs" and root: "rootPath s \<noteq> []" and ext: "CHR ''/'' \<notin> set ext"
    and ex: "exec (Store s r ext mime) ch fs = (res, ch', fs')"
  shows "store_effect s r ext mime (drawn (ch 0)) fs res fs'"
proof (cases "sys_create_temp (ch 0) (rootPath s) ''upload-'' fs")
  case (Pair t fs1)
  show ?thesis
  proof (cases t)
    case (Inl e)
    then have "fs1 = fs" using Pair by (auto simp: sys_create_temp_def Let_def split: choice.splits if_splits)
    then have "fs' = fs" "\<not> is_ok res" using ex Pair Inl by (auto simp: Store_def continue_def)
    then show ?thesis using ok by (cases res) (auto simp: store_effect_def)
  next
    case (Inr ft)
    obtain d y m where c: "ch 0 = Runs d y m" using Pair Inr by (cases "ch 0") (auto simp: sys_create_temp_def)
    let ?i = "next_inode fs" and ?tmp = "temp_path (rootPath s) ''upload-'' d"
    have loc: "location ?tmp = temp_loc s d" by (rule location_temp_path [OF root])
    have none: "entries fs (temp_loc s d) = None" and ft: "ft = (?i, ?tmp)"
      and fs1: "fs1 = put_entry (temp_loc s d) (Some (File ?i)) (fs\<lparr>inodes := (inodes fs)(?i := []), next_inode := Suc ?i\<rparr>)"
      using Pair Inr c loc by (auto simp: sys_create_temp_def Let_def node_at_def split: if_splits)
    obtain h e1 ch2 fs2 where cp: "exec (copy_pieces ?i (rd_pieces r) (rd_error r) []) (later ch) fs1 = ((h, e1), ch2, fs2)"
      by (metis prod.exhaust)
    obtain w where fs2: "fs2 = fs1\<lparr>inodes := (inodes fs1)(?i := inodes fs1 ?i @ w)\<rparr>"
      and w: "e1 = None \<longrightarrow> rd_error r = None \<and> h = [] @ w \<and> w = concat (rd_pieces r)" using copy_exec [OF cp] by blast
    define e where "e = (if e1 = None then map_option err_of (fault_of (ch2 0)) else e1)"
    obtain res3 ch3 fs3 where sc: "exec (store_copied s ext mime ?tmp h e) (later ch2) fs2 = (res3, ch3, fs3)"
      by (metis prod.exhaust)
    obtain rr fs4 where rm: "sys_remove (ch3 0) ?tmp fs3 = (rr, fs4)" by fastforce
    have fin: "res = res3" "fs' = snd (sys_remove (ch3 0) ?tmp fs3)"
      using ex Pair Inr ft cp sc rm by (auto simp: Store_def exec_bind e_def)
    have "files_ok fs1" using sys_create_temp_ok [OF ok, of "ch 0" "rootPath s" "''upload-''"] Pair by simp
    then have wt: "with_temp s d w fs fs2" using none by (simp add: with_temp_def fs2 fs1)
    have "store_effect s r ext mime d fs res3 fs'"
      by (rule store_copied_effect [OF ok root ext wt loc _ sc fin(2)]) (use w e_def in \<open>auto split: if_splits\<close>)
    then show ?thesis using fin(1) c by (simp add: drawn_def)
  qed
qed


section \<open>Reading back\<close>

definition calm :: "nat \<Rightarrow> choice" where
  "calm n = Runs 0 1970 1"

definition opened_bytes :: "file_storage \<Rightarrow> attachment \<Rightarrow> files \<Rightarrow> string option" where
  "opened_bytes s a fs = (case fst (exec (file_Open s a) calm fs) of Ok (File i) \<Rightarrow> Some (inodes fs i) | _ \<Rightarrow> None)"

lemma exec_open: "fst (exec (file_Open s a) calm fs) = Ok n \<longleftrightarrow>
  (\<exists>l. root_lookup fs (rootPath s) (StoragePath a) = Inr l \<and> node_at fs l = Some n)"
  by (auto simp: file_Open_def openFile_def sys_root_open_def calm_def fault_of_def split: sum.split option.split)

lemma opened_bytes_Some: "opened_bytes s a fs = Some b \<longleftrightarrow> (\<exists>i. fst (exec (file_Open s a) calm fs) = Ok (File i) \<and> b = inodes fs i)"
  by (auto simp: opened_bytes_def split: outcome.split node.split)

lemma opened_bytes_None: "opened_bytes s a fs = None \<longleftrightarrow> (\<forall>i. fst (exec (file_Open s a) calm fs) \<noteq> Ok (File i))"
  by (auto simp: opened_bytes_def split: outcome.split node.split)

lemma root_walk_mono:
  "(\<And>l n. entries fs l = Some n \<Longrightarrow> entries fs' l = Some n) \<Longrightarrow> root_walk fs l at cs = Inr x \<Longrightarrow> root_walk fs' l at cs = Inr x"
proof (induction cs arbitrary: at)
  case (Cons c cs)
  have keep: "entries fs' (under l (at @ [c])) = Some Directory" if "entries fs (under l (at @ [c])) = Some Directory"
    by (rule Cons.prems(1) [OF that])
  show ?case using Cons.prems(2) Cons.IH [OF Cons.prems(1)] keep
    by (auto split: if_splits option.splits node.splits)
qed simp

lemma open_mono:
  assumes "\<And>l n. entries fs l = Some n \<Longrightarrow> entries fs' l = Some n" and "fst (exec (file_Open s a) calm fs) = Ok n"
  shows "fst (exec (file_Open s a) calm fs') = Ok n"
proof -
  obtain l where l: "root_lookup fs (rootPath s) (StoragePath a) = Inr l" "node_at fs l = Some n"
    using assms(2) exec_open by blast
  then have "root_lookup fs' (rootPath s) (StoragePath a) = Inr l"
    using root_walk_mono [OF assms(1)] by (auto simp: root_lookup_def split: if_splits)
  moreover have "node_at fs' l = Some n" using l(2) assms(1) by (auto simp: node_at_def split: if_splits)
  ultimately show ?thesis using exec_open by blast
qed

lemma dir_above: "files_ok fs \<Longrightarrow> node_at fs (under l (cs @ ds)) = Some n \<Longrightarrow> ds \<noteq> [] \<Longrightarrow> node_at fs (under l cs) = Some Directory"
proof (induction ds arbitrary: n rule: rev_induct)
  case (snoc d ds)
  have "entries fs (under (under l (cs @ ds)) [d]) = Some n" using snoc.prems(2) by (simp add: node_at_def)
  from files_okD [OF snoc.prems(1) this] have "node_at fs (under l (cs @ ds)) = Some Directory" unfolding parent_of_child by (rule conjunct2)
  then show ?case using snoc.IH snoc.prems(1) by (cases "ds = []") auto
qed simp

lemma root_walk_plain:
  "list_all plain_name cs \<Longrightarrow> cs \<noteq> [] \<Longrightarrow> root_walk fs l at cs = Inr x \<Longrightarrow> x = under l (at @ cs)"
proof (induction cs arbitrary: at)
  case (Cons c cs)
  then have "plain_name c" and cs: "list_all plain_name cs" by simp_all
  then have c: "c \<noteq> []" "c \<noteq> ''.''" "c \<noteq> ''..''" by (simp_all add: plain_name_def)
  show ?case using Cons.IH [of "at @ [c]"] Cons.prems(3) c cs
    by (cases "cs = []") (simp_all split: option.splits node.splits)
qed simp

lemma root_walk_found:
  "files_ok fs \<Longrightarrow> list_all plain_name cs \<Longrightarrow> cs \<noteq> [] \<Longrightarrow> node_at fs (under l (at @ cs)) = Some n
   \<Longrightarrow> root_walk fs l at cs = Inr (under l (at @ cs))"
proof (induction cs arbitrary: at)
  case (Cons c cs)
  show ?case
  proof (cases "cs = []")
    case False
    have "node_at fs (under l (at @ [c])) = Some Directory"
      using dir_above [of fs l "at @ [c]" cs n] Cons.prems(1,4) False by simp
    then have "entries fs (under l (at @ [c])) = Some Directory" by (simp add: node_at_def)
    then show ?thesis using Cons False by (simp add: plain_name_def)
  qed (use Cons.prems in \<open>simp add: plain_name_def\<close>)
qed simp

lemma open_plain:
  assumes ok: "files_ok fs" and cs: "list_all plain_name cs" "cs \<noteq> []" and p: "StoragePath a = join ''/'' cs"
  shows "fst (exec (file_Open s a) calm fs) = Ok n \<longleftrightarrow> entries fs (under (location (rootPath s)) cs) = Some n"
proof -
  have f: "list_all (\<lambda>c. c \<noteq> [] \<and> CHR ''/'' \<notin> set c) cs" using cs(1) by (simp add: list_all_iff plain_name_def)
  then have "split_on CHR ''/'' (join ''/'' cs) = cs"
    using split_on_join [of "CHR ''/''" cs] cs(2) by (simp add: list_all_iff)
  then have "root_lookup fs (rootPath s) (StoragePath a) = root_walk fs (location (rootPath s)) [] cs"
    using join_nonempty [OF cs] join_rooted [OF f] p by (simp add: root_lookup_def)
  moreover have "node_at fs (under (location (rootPath s)) cs) = entries fs (under (location (rootPath s)) cs)"
    using cs(2) by (simp add: node_at_def)
  ultimately show ?thesis
    using exec_open [of s a fs n] root_walk_plain [OF cs, of fs "location (rootPath s)" "[]"]
      root_walk_found [OF ok cs, of "location (rootPath s)" "[]" n] by (metis append_Nil)
qed

lemma open_stored:
  "files_ok fs \<Longrightarrow> CHR ''/'' \<notin> set ext \<Longrightarrow>
   fst (exec (file_Open s (stored_as now bytes ext mime)) calm fs) = Ok n \<longleftrightarrow> entries fs (dest_loc s now bytes ext) = Some n"
  unfolding dest_loc_def
  by (rule open_plain [OF _ plain_bucket]) (simp_all add: stored_as_def rel_path_bucket bucket_def)

lemma store_then_open:
  assumes ok: "files_ok fs" and root: "rootPath s \<noteq> []" and ext: "CHR ''/'' \<notin> set ext"
    and ex: "exec (Store s r ext mime) ch fs = (res, ch', fs')"
  shows "opened_bytes s a fs = Some b \<Longrightarrow> opened_bytes s a fs' = Some b"
    and "res = Ok att \<Longrightarrow> fst (exec (file_Open s att) calm fs) \<noteq> Ok Directory \<Longrightarrow>
      rd_error r = None \<and> (\<exists>now. att = stored_as now (concat (rd_pieces r)) ext mime)
      \<and> opened_bytes s att fs' = Some (case opened_bytes s att fs of None \<Rightarrow> concat (rd_pieces r) | Some old \<Rightarrow> old)"
proof -
  have ef: "store_effect s r ext mime (drawn (ch 0)) fs res fs'" by (rule store_exec [OF ok root ext ex])
  have ok': "files_ok fs'" and mono: "\<And>l n. entries fs l = Some n \<Longrightarrow> entries fs' l = Some n"
    and ino: "\<And>i. i < next_inode fs \<Longrightarrow> inodes fs' i = inodes fs i" using ef by (simp_all add: store_effect_def Let_def)
  have lt: "i < next_inode fs" if opened: "fst (exec (file_Open s a) calm fs) = Ok (File i)" for i a
  proof -
    obtain l where "node_at fs l = Some (File i)" using opened exec_open [of s a fs "File i"] by blast
    then have "entries fs l = Some (File i)" by (auto simp: node_at_def split: if_splits)
    then show ?thesis by (rule files_ok_inode [OF ok])
  qed
  show "opened_bytes s a fs = Some b \<Longrightarrow> opened_bytes s a fs' = Some b" for a b
    using open_mono [OF mono] lt [of a] ino by (auto simp: opened_bytes_Some)
  then have old: "opened_bytes s att fs = Some b \<Longrightarrow> opened_bytes s att fs' = Some b" for b .
  show "rd_error r = None \<and> (\<exists>now. att = stored_as now (concat (rd_pieces r)) ext mime)
      \<and> opened_bytes s att fs' = Some (case opened_bytes s att fs of None \<Rightarrow> concat (rd_pieces r) | Some old \<Rightarrow> old)"
    if res: "res = Ok att" and nd: "fst (exec (file_Open s att) calm fs) \<noteq> Ok Directory"
  proof -
    obtain now where e: "rd_error r = None" "att = stored_as now (concat (rd_pieces r)) ext mime"
      "entries fs' (dest_loc s now (concat (rd_pieces r)) ext) =
         (case entries fs (dest_loc s now (concat (rd_pieces r)) ext) of None \<Rightarrow> Some (File (next_inode fs)) | Some n \<Rightarrow> Some n)"
      "entries fs (dest_loc s now (concat (rd_pieces r)) ext) = None \<longrightarrow> inodes fs' (next_inode fs) = concat (rd_pieces r)"
      using ef res by (auto simp: store_effect_def Let_def)
    show ?thesis
    proof (cases "opened_bytes s att fs")
      case (Some b)
      then show ?thesis using e old by auto
    next
      case None
      have "entries fs (dest_loc s now (concat (rd_pieces r)) ext) = None"
      proof (rule ccontr)
        assume "entries fs (dest_loc s now (concat (rd_pieces r)) ext) \<noteq> None"
        then obtain n where "fst (exec (file_Open s att) calm fs) = Ok n" using open_stored [OF ok ext] e(2) by blast
        then show False using nd None by (cases n) (auto simp: opened_bytes_None)
      qed
      then have "fst (exec (file_Open s att) calm fs') = Ok (File (next_inode fs))" "inodes fs' (next_inode fs) = concat (rd_pieces r)"
        using e open_stored [OF ok' ext] by simp_all
      then show ?thesis using e None by (auto simp: opened_bytes_Some)
    qed
  qed
qed


section \<open>When nothing fails\<close>

definition steady :: "nat \<Rightarrow> nat \<Rightarrow> nat \<Rightarrow> nat \<Rightarrow> choice" where
  "steady d y m n = Runs d y m"

lemma later_steady [simp]: "later (steady d y m) = steady d y m"
  by (simp add: later_def steady_def fun_eq_iff)

lemma steady_simps [simp]: "steady d y m 0 = Runs d y m" "steady d y m (Suc 0) = Runs d y m" "sys_now (Runs d y m) = (y, m)" "fault_of (Runs d y m) = None" "budget_of (Runs d y m) = None"
  by (simp_all add: steady_def sys_now_def fault_of_def budget_of_def)

lemma copy_steady:
  "exec (copy_pieces fd bs None h) (steady d y m) fs
   = ((h @ concat bs, None), steady d y m, fs\<lparr>inodes := (inodes fs)(fd := inodes fs fd @ concat bs)\<rparr>)"
proof (induction bs arbitrary: h fs)
  case (Cons b bs)
  let ?fs = "fs\<lparr>inodes := (inodes fs)(fd := inodes fs fd @ b)\<rparr>"
  have "?fs\<lparr>inodes := (inodes ?fs)(fd := inodes ?fs fd @ concat bs)\<rparr> = fs\<lparr>inodes := (inodes fs)(fd := inodes fs fd @ b @ concat bs)\<rparr>"
    by simp
  then show ?case using Cons.IH [of "h @ b" ?fs] Cons.IH [of h fs]
    by (cases "b = []") (simp_all add: sys_write_def del: fun_upd_apply)
qed simp

lemma mkdirs_steady:
  "(\<And>k i. entries fs (under l (take (Suc k) cs)) \<noteq> Some (File i)) \<Longrightarrow> fst (mkdirs None l cs fs) = None"
proof (induction cs arbitrary: l fs)
  case (Cons c cs)
  let ?l = "under l [c]"
  have "entries fs ?l \<noteq> Some (File i)" for i using Cons.prems [of 0] by simp
  moreover have "entries (put_entry ?l (Some Directory) fs) (under ?l (take (Suc k) cs)) \<noteq> Some (File i)"
    and "entries fs (under ?l (take (Suc k) cs)) \<noteq> Some (File i)" for k i
    using Cons.prems [of "Suc k" i] by simp_all
  ultimately show ?case using Cons.IH by (auto simp: Let_def split: option.split node.split)
qed simp

lemma mkdirs_made: "mkdirs b l cs fs = (None, fs') \<Longrightarrow> node_at fs l = Some Directory \<Longrightarrow> node_at fs' (under l cs) = Some Directory"
proof (induction cs arbitrary: b l fs)
  case (Cons c cs)
  let ?l = "under l [c]"
  have new: "node_at (put_entry ?l (Some Directory) fs) ?l = Some Directory" by (simp add: node_at_def)
  have "under l (c # cs) = under ?l cs" by simp
  moreover have "node_at fs' (under ?l cs) = Some Directory"
  proof (cases "entries fs ?l")
    case None
    show ?thesis using Cons.prems(1) None Cons.IH [OF _ new]
      by (auto simp: Let_def simp del: under_under split: option.splits prod.splits nat.splits)
  next
    case (Some n)
    then have "n = Directory \<Longrightarrow> node_at fs ?l = Some Directory" by (simp add: node_at_def)
    then show ?thesis using Cons.prems(1) Some Cons.IH [of b ?l fs]
      by (cases n) (auto simp: Let_def simp del: under_under)
  qed
  ultimately show ?case by simp
qed auto

lemma store_succeeds:
  assumes ok: "files_ok fs" and root: "rootPath s \<noteq> []" and ext: "CHR ''/'' \<notin> set ext"
    and dir: "node_at fs (location (rootPath s)) = Some Directory"
    and free: "entries fs (temp_loc s d) = None"
    and way: "\<And>k i. entries fs (under (location (rootPath s)) (take (Suc k) [zero_padded 4 y, zero_padded 2 m])) \<noteq> Some (File i)"
    and rd: "rd_error r = None" "concat (rd_pieces r) \<noteq> []"
  shows "fst (exec (Store s r ext mime) (steady d y m) fs) = Ok (stored_as (y, m) (concat (rd_pieces r)) ext mime)"
proof -
  let ?i = "next_inode fs" and ?tmp = "temp_path (rootPath s) ''upload-'' d" and ?b = "concat (rd_pieces r)"
  let ?root = "location (rootPath s)" and ?t = "temp_loc s d" and ?d = "dest_loc s (y, m) (concat (rd_pieces r)) ext"
  define fs1 where "fs1 = put_entry ?t (Some (File ?i)) (fs\<lparr>inodes := (inodes fs)(?i := []), next_inode := Suc ?i\<rparr>)"
  define fs2 where "fs2 = fs1\<lparr>inodes := (inodes fs1)(?i := inodes fs1 ?i @ ?b)\<rparr>"
  have loc: "location ?tmp = ?t" by (rule location_temp_path [OF root])
  have par: "parent_loc ?t = ?root" by (simp add: temp_loc_def)
  have ct: "sys_create_temp (Runs d y m) (rootPath s) ''upload-'' fs = (Inr (?i, ?tmp), fs1)"
    using free dir loc par by (simp add: sys_create_temp_def Let_def fs1_def node_at_def temp_loc_def)
  have ok2: "files_ok fs2" using sys_create_temp_ok [OF ok, of "Runs d y m"] ct by (metis files_ok_inodes fs2_def snd_conv)
  have e2: "entries fs2 = (entries fs)(?t := Some (File ?i))" by (simp add: fs2_def fs1_def)
  define ap where "ap = Join [rootPath s, join ''/'' (bucket (y, m) ?b ext)]"
  have apl: "location ap = ?d"
    unfolding ap_def dest_loc_def by (rule location_Join [OF root plain_bucket [OF ext]]) (simp add: bucket_def)
  have dirl: "location (Dir ap) = under ?root [zero_padded 4 y, zero_padded 2 m]"
    using location_Dir_Join [OF root, of "[zero_padded 4 y, zero_padded 2 m]" "bucket_name ?b ext"] plain_bucket [OF ext, of "(y, m)" ?b]
    by (simp add: ap_def bucket_def)
  obtain rr fs3 where mk: "sys_mkdir_all (Runs d y m) (Dir ap) fs2 = (rr, fs3)" by fastforce
  have "?root \<noteq> ?t" by (simp add: temp_loc_def under_def prod_eq_iff)
  then have dir2: "node_at fs2 ?root = Some Directory" using dir e2 by (auto simp: node_at_def)
  have nofile: "entries fs2 (under (fst ?root, []) (take (Suc k) (snd ?root @ [zero_padded 4 y, zero_padded 2 m]))) \<noteq> Some (File i)" for k i
  proof (cases "Suc k \<le> length (snd ?root)")
    case True
    have "under (fst ?root, []) (snd ?root) = ?root" by (simp add: under_def)
    then have "node_at fs2 (under (fst ?root, []) (take (Suc k) (snd ?root))) = Some Directory"
      using dir_above [OF ok2, of "(fst ?root, [])" "take (Suc k) (snd ?root)" "drop (Suc k) (snd ?root)"] dir2
      by (cases "drop (Suc k) (snd ?root) = []") simp_all
    then show ?thesis using True by (auto simp: node_at_def under_def split: if_splits)
  next
    case False
    then obtain j where j: "Suc k = length (snd ?root) + Suc j" by (metis add_Suc_right less_natE not_le)
    then have l: "under (fst ?root, []) (take (Suc k) (snd ?root @ [zero_padded 4 y, zero_padded 2 m]))
      = under ?root (take (Suc j) [zero_padded 4 y, zero_padded 2 m])" by (simp add: under_def)
    have "CHR ''u'' \<notin> set (zero_padded 4 y)" using dec_digits [of "CHR ''u''" y] by (auto simp: zero_padded_def is_digit_def)
    then have "zero_padded 4 y \<noteq> ''upload-'' @ dec d" by (metis append_Cons list.set_intros(1))
    then have "under ?root (take (Suc j) [zero_padded 4 y, zero_padded 2 m]) \<noteq> ?t" by (cases j) (simp_all add: temp_loc_def)
    then show ?thesis unfolding l e2 using way [of j i] by simp
  qed
  moreover have "location [] = (False, [])" by (simp add: location_def path_rooted_def)
  then have "Dir ap \<noteq> []" using dirl by (auto simp: under_def)
  moreover have mk': "mkdirs None (fst ?root, []) (snd ?root @ [zero_padded 4 y, zero_padded 2 m]) fs2 = (rr, fs3)"
    using mk dirl \<open>Dir ap \<noteq> []\<close> by (simp add: sys_mkdir_all_def under_def)
  ultimately have rr: "rr = None" using mkdirs_steady [OF nofile] by simp
  have "node_at fs3 (under (fst ?root, []) (snd ?root @ [zero_padded 4 y, zero_padded 2 m])) = Some Directory"
    by (rule mkdirs_made [OF mk' [unfolded rr]]) (simp add: node_at_def)
  moreover have "parent_loc ?d = under (fst ?root, []) (snd ?root @ [zero_padded 4 y, zero_padded 2 m])"
    by (simp add: dest_loc_def bucket_def parent_loc_def under_def butlast_append)
  ultimately have par3: "node_at fs3 (parent_loc ?d) = Some Directory" by simp
  have "entries fs3 ?t = Some (File ?i)"
    using grows_file [OF sys_mkdir_all_grows, of fs2 ?t] e2 mk by (metis fun_upd_same snd_conv)
  then have t3: "node_at fs3 ?t = Some (File ?i)" by (simp add: node_at_def temp_loc_def)
  obtain lr fs4 where lk: "sys_link (Runs d y m) ?tmp ap fs3 = (lr, fs4)" by fastforce
  then have lr: "lr = None \<or> lr = Some EExist" using t3 par3 apl loc
    by (auto simp: sys_link_def split: if_splits)
  have "exec (link_into_place s ?tmp ap att) (steady d y m) fs2 = (Ok att, steady d y m, fs4)" for att
    using mk lk rr lr by (auto simp: exec_link_into_place)
  then have "exec (store_copied s ext mime ?tmp ?b None) (steady d y m) fs2
    = (Ok (stored_as (y, m) ?b ext mime), steady d y m, fs4)"
    using store_copied_now [OF rd(2) ext] by (simp flip: ap_def)
  then show ?thesis using ct rd(1) copy_steady [of ?i "rd_pieces r" "[]" d y m fs1]
    by (simp add: Store_def exec_bind fs2_def [symmetric] continue_def)
qed


section \<open>What a content address promises\<close>

text \<open>C37. \<open>Store\<close> and \<open>Open\<close>. In a well-formed file system, whatever fails: every attachment that could be read
  before a \<open>Store\<close> reads the same after it. When \<open>Store\<close> returns an attachment, the reader had ended without
  an error, the size and the hash are those of its bytes, and \<open>Open\<close> reads these bytes, or those of the file
  that was already there under the path.\<close>

theorem stored_bytes_are_read_back:
  assumes "files_ok fs" and "rootPath s \<noteq> []" and "CHR ''/'' \<notin> set ext"
    and "exec (Store s r ext mime) ch fs = (res, ch', fs')"
  shows "(\<forall>a b. opened_bytes s a fs = Some b \<longrightarrow> opened_bytes s a fs' = Some b)
    \<and> (\<forall>att. res = Ok att \<longrightarrow> fst (exec (file_Open s att) calm fs) \<noteq> Ok Directory \<longrightarrow>
        rd_error r = None \<and> Mime att = mime \<and> Size att = int (length (concat (rd_pieces r)))
        \<and> SHA256 att = sha256_hex (concat (rd_pieces r))
        \<and> opened_bytes s att fs' = Some (case opened_bytes s att fs of None \<Rightarrow> concat (rd_pieces r) | Some old \<Rightarrow> old))"
proof -
  have old: "opened_bytes s a fs' = Some b" if "opened_bytes s a fs = Some b" for a b
    by (rule store_then_open(1) [OF assms that])
  have "rd_error r = None \<and> Mime att = mime \<and> Size att = int (length (concat (rd_pieces r)))
        \<and> SHA256 att = sha256_hex (concat (rd_pieces r))
        \<and> opened_bytes s att fs' = Some (case opened_bytes s att fs of None \<Rightarrow> concat (rd_pieces r) | Some old \<Rightarrow> old)"
    if "res = Ok att" "fst (exec (file_Open s att) calm fs) \<noteq> Ok Directory" for att
    using store_then_open(2) [OF assms that] by (auto simp: stored_as_def)
  with old show ?thesis by blast
qed

definition data_dir :: files where
  "data_dir = \<lparr>entries = (\<lambda>l. None)((False, [''data'']) := Some Directory), inodes = (\<lambda>i. []), next_inode = 0\<rparr>"

definition data_storage :: file_storage where
  "data_storage = \<lparr>rootPath = ''data'', urlPrefix = ''/media''\<rparr>"

lemma data_root: "location (rootPath data_storage) = (False, [''data''])" "rootPath data_storage \<noteq> []"
  by (simp_all add: data_storage_def location_def path_rooted_def)

lemma data_dir_ok: "files_ok data_dir"
  by (auto simp: files_ok_def data_dir_def parent_loc_def node_at_def)

lemma data_dir_free: "entries data_dir (temp_loc data_storage d) = None" "entries data_dir (dest_loc data_storage now b ext) = None"
  by (simp_all add: data_dir_def temp_loc_def dest_loc_def bucket_def data_root under_def)

lemma store_in_data_dir:
  assumes "rd_error r = None" and "concat (rd_pieces r) \<noteq> []" and "CHR ''/'' \<notin> set ext"
  shows "fst (exec (Store data_storage r ext mime) (steady d y m) data_dir) = Ok (stored_as (y, m) (concat (rd_pieces r)) ext mime)"
proof (rule store_succeeds [OF data_dir_ok data_root(2) assms(3) _ data_dir_free(1) _ assms(1,2)])
  show "node_at data_dir (location (rootPath data_storage)) = Some Directory" by (simp add: data_root node_at_def data_dir_def)
qed (simp add: data_dir_def data_root under_def)

definition text_reader :: "string \<Rightarrow> reader" where
  "text_reader s = \<lparr>rd_pieces = [s], rd_error = None\<rparr>"

lemma open_in_data_dir:
  assumes "CHR ''/'' \<notin> set ext"
  shows "fst (exec (file_Open data_storage (stored_as now b ext mime)) calm data_dir) \<noteq> Ok n"
    and "opened_bytes data_storage (stored_as now b ext mime) data_dir = None"
  using open_stored [OF data_dir_ok assms, of data_storage now b mime] data_dir_free(2)
  by (simp_all add: opened_bytes_None)

theorem stored_bytes_witness:
  "\<exists>att ch' fs'. exec (Store data_storage \<lparr>rd_pieces = [''ab'', [], ''c''], rd_error = None\<rparr> ''.txt'' ''text/plain'') (steady 7 2026 4) data_dir
      = (Ok att, ch', fs') \<and> Size att = 3 \<and> opened_bytes data_storage att fs' = Some ''abc''"
proof -
  let ?r = "\<lparr>rd_pieces = [''ab'', [], ''c''], rd_error = None\<rparr>" and ?att = "stored_as (2026, 4) ''abc'' ''.txt'' ''text/plain''"
  have "fst (exec (Store data_storage ?r ''.txt'' ''text/plain'') (steady 7 2026 4) data_dir) = Ok ?att"
    using store_in_data_dir [of ?r "''.txt''"] by simp
  then obtain ch' fs' where ex: "exec (Store data_storage ?r ''.txt'' ''text/plain'') (steady 7 2026 4) data_dir = (Ok ?att, ch', fs')"
    by (metis prod.collapse)
  have x: "CHR ''/'' \<notin> set ''.txt''" by simp
  have "opened_bytes data_storage ?att fs' = Some ''abc''" "Size ?att = 3"
    using stored_bytes_are_read_back [OF data_dir_ok data_root(2) x ex] open_in_data_dir [OF x] by simp_all
  with ex show ?thesis by blast
qed

section \<open>Where it breaks\<close>

lemma zero_padded_digit: "n < 10 \<Longrightarrow> zero_padded 2 n = [CHR ''0'', digit_char n]"
  by (simp add: zero_padded_def dec.simps numeral_2_eq_2)

lemma root_dir_stays:
  assumes "files_ok fs" and "CHR ''/'' \<notin> set ext" and "exec (Store data_storage r ext mime) ch fs = (res, ch', fs')"
    and "entries fs l = Some n"
  shows "entries fs' l = Some n"
  using store_exec [OF assms(1) data_root(2) assms(2,3)] assms(4) by (simp add: store_effect_def Let_def)


lemma digits_not_temp: "zero_padded w n \<noteq> ''upload-'' @ dec d"
proof -
  have "CHR ''u'' \<notin> set (zero_padded w n)" using dec_digits [of "CHR ''u''" n] by (auto simp: zero_padded_def is_digit_def)
  then show ?thesis by (metis append_Cons list.set_intros(1))
qed

lemma store_in_data_dir_twice:
  assumes ra: "rd_error ra = None" "concat (rd_pieces ra) \<noteq> []" and rb: "rd_error rb = None" "concat (rd_pieces rb) \<noteq> []"
    and ext: "CHR ''/'' \<notin> set ext"
  obtains fs1 fs2 ch1 ch2 where "exec (Store data_storage ra ext mime) (steady 0 y m) data_dir
        = (Ok (stored_as (y, m) (concat (rd_pieces ra)) ext mime), ch1, fs1)"
    and "exec (Store data_storage rb ext mime) (steady 1 y' m') fs1
        = (Ok (stored_as (y', m') (concat (rd_pieces rb)) ext mime), ch2, fs2)"
    and "files_ok fs1" and "opened_bytes data_storage (stored_as (y, m) (concat (rd_pieces ra)) ext mime) fs1 = Some (concat (rd_pieces ra))"
proof -
  let ?s = data_storage and ?root = "(False, [''data''])"
  obtain ch1 fs1 where a: "exec (Store ?s ra ext mime) (steady 0 y m) data_dir
      = (Ok (stored_as (y, m) (concat (rd_pieces ra)) ext mime), ch1, fs1)"
    using store_in_data_dir [OF ra ext, of mime 0 y m] by (metis prod.collapse)
  have ef: "store_effect ?s ra ext mime 0 data_dir (Ok (stored_as (y, m) (concat (rd_pieces ra)) ext mime)) fs1"
    using store_exec [OF data_dir_ok data_root(2) ext a] by (simp add: drawn_def)
  then have ok1: "files_ok fs1" and dirs: "\<And>l. entries fs1 l = Some Directory \<Longrightarrow> entries data_dir l = Some Directory
      \<or> (\<exists>now ds. month_loc ?s now = under l ds)" and new: "\<And>l i. entries fs1 l = Some (File i) \<Longrightarrow> entries data_dir l = Some (File i)
      \<or> l = temp_loc ?s 0 \<or> (\<exists>now. l = dest_loc ?s now (concat (rd_pieces ra)) ext)"
    by (auto simp: store_effect_def Let_def)
  have rd: "entries fs1 ?root = Some Directory"
    by (rule root_dir_stays [OF data_dir_ok ext a]) (simp add: data_dir_def)
  have "fst (exec (Store ?s rb ext mime) (steady 1 y' m') fs1) = Ok (stored_as (y', m') (concat (rd_pieces rb)) ext mime)"
  proof (rule store_succeeds [OF ok1 data_root(2) ext _ _ _ rb])
    show "node_at fs1 (location (rootPath ?s)) = Some Directory" by (simp add: data_root node_at_def rd)
    have "dec 1 \<noteq> dec 0" by (simp add: dec.simps digit_char_def)
    then have "temp_loc ?s 1 \<noteq> temp_loc ?s 0" by (simp add: temp_loc_def)
    moreover have "month_loc ?s now \<noteq> under (temp_loc ?s 1) ds" for now ds
      using digits_not_temp [of 4 "fst now" 1] by (simp add: month_loc_def temp_loc_def)
    ultimately show "entries fs1 (temp_loc ?s 1) = None"
      using new [of "temp_loc ?s 1"] dirs [of "temp_loc ?s 1"] data_dir_free(1) [of 1]
      by (cases "entries fs1 (temp_loc ?s 1)") (metis node.exhaust option.distinct(1) temp_not_dest)+
    show "entries fs1 (under (location (rootPath ?s)) (take (Suc k) [zero_padded 4 y', zero_padded 2 m'])) \<noteq> Some (File i)" for k i
    proof
      assume f: "entries fs1 (under (location (rootPath ?s)) (take (Suc k) [zero_padded 4 y', zero_padded 2 m'])) = Some (File i)"
      have "take (Suc k) [zero_padded 4 y', zero_padded 2 m'] \<noteq> bucket now b ext" for now b by (cases k) (simp_all add: bucket_def)
      moreover have "take (Suc k) [zero_padded 4 y', zero_padded 2 m'] \<noteq> [''upload-'' @ dec 0]"
        using digits_not_temp [of 4 y' 0] by (cases k) simp_all
      moreover have "entries data_dir l = Some n \<Longrightarrow> n = Directory" for l n by (simp add: data_dir_def split: if_splits)
      ultimately show False using new [OF f] unfolding temp_loc_def dest_loc_def under_eq by blast
    qed
  qed
  then obtain ch2 fs2 where b: "exec (Store ?s rb ext mime) (steady 1 y' m') fs1
      = (Ok (stored_as (y', m') (concat (rd_pieces rb)) ext mime), ch2, fs2)" by (metis prod.collapse)
  have "opened_bytes ?s (stored_as (y, m) (concat (rd_pieces ra)) ext mime) fs1 = Some (concat (rd_pieces ra))"
    using store_then_open(2) [OF data_dir_ok data_root(2) ext a refl] open_in_data_dir [OF ext] by simp
  then show thesis by (rule that [OF a b ok1])
qed

lemma opened_bytes_path: "StoragePath a = StoragePath b \<Longrightarrow> opened_bytes s a fs = opened_bytes s b fs"
proof -
  assume "StoragePath a = StoragePath b"
  then have "fst (exec (file_Open s a) calm fs) = Ok n \<longleftrightarrow> fst (exec (file_Open s b) calm fs) = Ok n" for n
    by (simp add: exec_open)
  then have "opened_bytes s a fs = Some x \<longleftrightarrow> opened_bytes s b fs = Some x" for x by (simp add: opened_bytes_Some)
  then show ?thesis by (metis not_Some_eq)
qed

lemma path_of_stored:
  "CHR ''/'' \<notin> set ext \<Longrightarrow> take 16 (sha256_hex a) = take 16 (sha256_hex b) \<Longrightarrow>
   StoragePath (stored_as now a ext mime) = StoragePath (stored_as now b ext mime)"
  by (simp add: stored_as_def rel_path_bucket bucket_def bucket_name_def)


text \<open>C38. The path is not the content. Equal bytes stored in two months get two paths. And there are two different
  files of one month with one path: the second \<open>Store\<close> reports success and the hash of its own
  bytes, and its attachment opens the first file.\<close>

theorem path_is_not_the_content:
  "(\<exists>att att' ch1 ch2 fs1 fs2. exec (Store data_storage (text_reader ''abc'') ''.txt'' ''text/plain'') (steady 0 2026 4) data_dir = (Ok att, ch1, fs1)
      \<and> exec (Store data_storage (text_reader ''abc'') ''.txt'' ''text/plain'') (steady 1 2026 5) fs1 = (Ok att', ch2, fs2)
      \<and> SHA256 att' = SHA256 att \<and> StoragePath att' \<noteq> StoragePath att)
   \<and> (\<exists>a b att att' ch1 ch2 fs1 fs2. a \<noteq> b
      \<and> exec (Store data_storage (text_reader a) ''.txt'' ''text/plain'') (steady 0 2026 4) data_dir = (Ok att, ch1, fs1)
      \<and> exec (Store data_storage (text_reader b) ''.txt'' ''text/plain'') (steady 1 2026 4) fs1 = (Ok att', ch2, fs2)
      \<and> SHA256 att' = sha256_hex b \<and> opened_bytes data_storage att' fs2 = Some a)"
proof
  have x: "CHR ''/'' \<notin> set ''.txt''" by simp
  have rd: "rd_error (text_reader s) = None" "concat (rd_pieces (text_reader s)) = s" for s by (simp_all add: text_reader_def)
  let ?att = "\<lambda>m s. stored_as (2026, m) s ''.txt'' ''text/plain''"
  obtain fs1 fs2 ch1 ch2 where e: "exec (Store data_storage (text_reader ''abc'') ''.txt'' ''text/plain'') (steady 0 2026 4) data_dir = (Ok (?att 4 ''abc''), ch1, fs1)"
    "exec (Store data_storage (text_reader ''abc'') ''.txt'' ''text/plain'') (steady 1 2026 5) fs1 = (Ok (?att 5 ''abc''), ch2, fs2)"
    by (rule store_in_data_dir_twice [of "text_reader ''abc''" "text_reader ''abc''" "''.txt''" "''text/plain''" 2026 4 2026 5,
          unfolded rd, OF refl _ refl _ x]) (simp, simp, blast)
  have "zero_padded 2 4 \<noteq> zero_padded 2 5" by (simp add: zero_padded_digit digit_char_def)
  then have "StoragePath (?att 5 ''abc'') \<noteq> StoragePath (?att 4 ''abc'')"
    using x by (simp add: stored_as_def rel_path_bucket bucket_def)
  moreover have "SHA256 (?att 5 ''abc'') = SHA256 (?att 4 ''abc'')" by (simp add: stored_as_def)
  ultimately show "\<exists>att att' ch1 ch2 fs1 fs2. exec (Store data_storage (text_reader ''abc'') ''.txt'' ''text/plain'') (steady 0 2026 4) data_dir = (Ok att, ch1, fs1)
      \<and> exec (Store data_storage (text_reader ''abc'') ''.txt'' ''text/plain'') (steady 1 2026 5) fs1 = (Ok att', ch2, fs2)
      \<and> SHA256 att' = SHA256 att \<and> StoragePath att' \<noteq> StoragePath att" using e by blast
  obtain a b where ab: "a \<noteq> b" "length a = 9" "length b = 9" "take 16 (sha256_hex a) = take 16 (sha256_hex b)"
    using prefixes_collide by blast
  then have ne: "a \<noteq> []" "b \<noteq> []" by auto
  obtain fs1 fs2 ch1 ch2 where f: "exec (Store data_storage (text_reader a) ''.txt'' ''text/plain'') (steady 0 2026 4) data_dir = (Ok (?att 4 a), ch1, fs1)"
    "exec (Store data_storage (text_reader b) ''.txt'' ''text/plain'') (steady 1 2026 4) fs1 = (Ok (?att 4 b), ch2, fs2)"
    "files_ok fs1" "opened_bytes data_storage (?att 4 a) fs1 = Some a"
    by (rule store_in_data_dir_twice [of "text_reader a" "text_reader b" "''.txt''" "''text/plain''" 2026 4 2026 4,
          unfolded rd, OF refl ne(1) refl ne(2) x]) blast
  have "opened_bytes data_storage (?att 4 b) fs1 = Some a"
    using f(4) opened_bytes_path [OF path_of_stored [OF x ab(4)]] by simp
  then have "opened_bytes data_storage (?att 4 b) fs2 = Some a"
    by (rule store_then_open(1) [OF f(3) data_root(2) x f(2)])
  moreover have "SHA256 (?att 4 b) = sha256_hex b" by (simp add: stored_as_def)
  ultimately show "\<exists>a b att att' ch1 ch2 fs1 fs2. a \<noteq> b
      \<and> exec (Store data_storage (text_reader a) ''.txt'' ''text/plain'') (steady 0 2026 4) data_dir = (Ok att, ch1, fs1)
      \<and> exec (Store data_storage (text_reader b) ''.txt'' ''text/plain'') (steady 1 2026 4) fs1 = (Ok att', ch2, fs2)
      \<and> SHA256 att' = sha256_hex b \<and> opened_bytes data_storage att' fs2 = Some a" using f(1,2) ab(1) by blast
qed

section \<open>Delete\<close>

text \<open>\<open>Delete\<close> of an attachment that opens to a file takes its name away, other paths stay, and a second one
  succeeds too.\<close>

lemma delete_removes:
  assumes ok: "files_ok fs" and cs: "list_all plain_name cs" "cs \<noteq> []" and p: "StoragePath a = join ''/'' cs"
    and there: "entries fs (under (location (rootPath s)) cs) = Some (File i)"
  shows "exec (file_Delete s a) calm fs = (Ok (), later calm, put_entry (under (location (rootPath s)) cs) None fs)"
proof -
  let ?l = "under (location (rootPath s)) cs"
  have "fst (exec (file_Open s a) calm fs) = Ok (File i)" using there open_plain [OF ok cs p] by simp
  then obtain l where "root_lookup fs (rootPath s) (StoragePath a) = Inr l" using exec_open by blast
  moreover from this have "root_walk fs (location (rootPath s)) [] (split_on CHR ''/'' (StoragePath a)) = Inr l"
    by (simp add: root_lookup_def split: if_splits)
  moreover have "split_on CHR ''/'' (join ''/'' cs) = cs"
    using split_on_join [of "CHR ''/''" cs] cs by (simp add: list_all_iff plain_name_def)
  ultimately have "root_lookup fs (rootPath s) (StoragePath a) = Inr ?l"
    using root_walk_plain [OF cs, of fs "location (rootPath s)" "[]" l] p by simp
  moreover have "?l \<noteq> location (rootPath s)" using cs(2) by (simp add: under_def prod_eq_iff)
  moreover have "node_at fs ?l = Some (File i)" using there cs(2) by (simp add: node_at_def)
  ultimately show ?thesis
    by (simp add: file_Delete_def sys_root_remove_def remove_at_def continue_def calm_def fault_of_def)
qed

lemma delete_missing:
  assumes gone: "root_lookup fs (rootPath s) (StoragePath a) = Inr l" "node_at fs l = None" "l \<noteq> location (rootPath s)"
  shows "exec (file_Delete s a) calm fs = (Ok (), later calm, fs)"
  using gone by (simp add: file_Delete_def sys_root_remove_def remove_at_def continue_def calm_def fault_of_def)

end
