(* ===== verification/File_Concurrency.thy ===== *)
theory File_Concurrency
  imports File_Properties
begin

text \<open>
  The file storage under concurrency: requests whose file calls interleave in any order, with any call
  failing. Each program carries a ghost state: the temporary file it owns (inode, drawn number, bytes
  written, linked or not), the locations it has seen occupied, and the inodes it has opened. \<open>safe\<close> says what
  a program may do with it, \<open>ghost_ok\<close> ties it to the files; a step of one program keeps the ghost states
  of the others (rely and guarantee).
\<close>

section \<open>Requests\<close>

datatype request = RStore reader string string | ROpen attachment | RDelete attachment

datatype answer = Stored "attachment outcome" | Opened "node outcome" | Deleted "unit outcome"

definition serve :: "file_storage \<Rightarrow> request \<Rightarrow> answer proc" where
  "serve s q = (case q of
      RStore r ext mime \<Rightarrow> bindI (Store s r ext mime) (\<lambda>x. PRet (Stored x))
    | ROpen a \<Rightarrow> bindI (file_Open s a) (\<lambda>x. PRet (Opened x))
    | RDelete a \<Rightarrow> bindI (file_Delete s a) (\<lambda>x. PRet (Deleted x)))"

text \<open>The path of an object: three plain components, as \<open>Store\<close> returns them.\<close>

definition object_path :: "string \<Rightarrow> bool" where
  "object_path p \<longleftrightarrow> (let cs = split_on CHR ''/'' p in list_all plain_name cs \<and> length cs = 3)"

definition is_delete :: "request \<Rightarrow> bool" where
  "is_delete q \<longleftrightarrow> (case q of RDelete a \<Rightarrow> True | _ \<Rightarrow> False)"

definition request_ok :: "request \<Rightarrow> bool" where
  "request_ok q \<longleftrightarrow> (case q of RStore r ext mime \<Rightarrow> CHR ''/'' \<notin> set ext | ROpen a \<Rightarrow> True | RDelete a \<Rightarrow> object_path (StoragePath a))"

text \<open>The name of an object against its bytes.\<close>

definition named_after :: "string \<Rightarrow> string \<Rightarrow> bool" where
  "named_after f bytes \<longleftrightarrow> bytes \<noteq> [] \<and> take 16 f = take 16 (sha256_hex bytes)"

definition objects_ok :: "file_storage \<Rightarrow> files \<Rightarrow> bool" where
  "objects_ok s fs \<longleftrightarrow> (\<forall>cs n. length cs = 3 \<longrightarrow> entries fs (under (location (rootPath s)) cs) = Some n
     \<longrightarrow> (\<exists>i. n = File i \<and> named_after (last cs) (inodes fs i)))"

section \<open>Ghost states\<close>

record ghost =
  g_temp :: "(nat \<times> nat \<times> string \<times> bool) option"
  g_placed :: "loc set"
  g_seen :: "(string \<times> nat) set"

definition writes :: "ghost \<Rightarrow> nat \<Rightarrow> bool" where
  "writes g i \<longleftrightarrow> (\<exists>n w. g_temp g = Some (i, n, w, False))"

definition ghost_ok :: "file_storage \<Rightarrow> bool \<Rightarrow> ghost \<Rightarrow> files \<Rightarrow> bool" where
  "ghost_ok s dels g fs \<longleftrightarrow>
     (\<forall>fd n w lk. g_temp g = Some (fd, n, w, lk) \<longrightarrow> entries fs (temp_loc s n) = Some (File fd) \<and> inodes fs fd = w
        \<and> (\<not> lk \<longrightarrow> (\<forall>l. entries fs l = Some (File fd) \<longrightarrow> l = temp_loc s n)))
   \<and> (\<not> dels \<longrightarrow> (\<forall>l \<in> g_placed g. entries fs l \<noteq> None \<and> (\<forall>d. l \<noteq> temp_loc s d)))
   \<and> (\<forall>(p, i) \<in> g_seen g. named_after (last (split_on CHR ''/'' p)) (inodes fs i) \<and> i < next_inode fs)"

definition two_temps :: "(nat \<times> nat \<times> string \<times> bool) option \<Rightarrow> (nat \<times> nat \<times> string \<times> bool) option \<Rightarrow> bool" where
  "two_temps t u \<longleftrightarrow> (\<forall>fd r fd' r'. t = Some (fd, r) \<longrightarrow> u = Some (fd', r') \<longrightarrow> fd \<noteq> fd')"

definition apart :: "ghost \<Rightarrow> ghost \<Rightarrow> bool" where
  "apart g h \<longleftrightarrow> two_temps (g_temp g) (g_temp h)
     \<and> (\<forall>(p, i) \<in> g_seen h. \<not> writes g i) \<and> (\<forall>(p, i) \<in> g_seen g. \<not> writes h i)"

definition unread :: "ghost \<Rightarrow> bool" where
  "unread g \<longleftrightarrow> (\<forall>(p, i) \<in> g_seen g. \<not> writes g i)"

definition with_seen :: "string \<Rightarrow> syserr + node \<Rightarrow> ghost \<Rightarrow> ghost" where
  "with_seen p r g = (case r of
      Inr (File i) \<Rightarrow> (if object_path p then g\<lparr>g_seen := insert (p, i) (g_seen g)\<rparr> else g)
    | _ \<Rightarrow> g)"

definition with_placed :: "loc \<Rightarrow> ghost \<Rightarrow> ghost" where
  "with_placed l g = g\<lparr>g_placed := insert l (g_placed g)\<rparr>"

section \<open>What a program may do\<close>

primrec safe :: "file_storage \<Rightarrow> bool \<Rightarrow> ('a \<Rightarrow> ghost \<Rightarrow> bool) \<Rightarrow> 'a proc \<Rightarrow> ghost \<Rightarrow> bool" where
  "safe s dels Q (PRet x) = (\<lambda>g. Q x g)"
| "safe s dels Q (PMkdirAll p k) = (\<lambda>g. (\<exists>now. location p = month_loc s now) \<and> (\<forall>r. safe s dels Q (k r) g))"
| "safe s dels Q (PCreateTemp d p k) = (\<lambda>g. g_temp g = None \<and> d = rootPath s \<and> p = ''upload-''
     \<and> (\<forall>e. safe s dels Q (k (Inl e)) g)
     \<and> (\<forall>i n. safe s dels Q (k (Inr (i, temp_path d p n))) (g\<lparr>g_temp := Some (i, n, [], False)\<rparr>)))"
| "safe s dels Q (PWrite fd bs k) = (\<lambda>g. \<exists>n w. g_temp g = Some (fd, n, w, False)
     \<and> safe s dels Q (k None) (g\<lparr>g_temp := Some (fd, n, w @ bs, False)\<rparr>)
     \<and> (\<forall>e j. safe s dels Q (k (Some e)) (g\<lparr>g_temp := Some (fd, n, w @ take j bs, False)\<rparr>)))"
| "safe s dels Q (PClose fd k) = (\<lambda>g. \<forall>r. safe s dels Q (k r) g)"
| "safe s dels Q (PLink a b k) = (\<lambda>g. \<exists>fd n w. g_temp g = Some (fd, n, w, False) \<and> location a = temp_loc s n
     \<and> w \<noteq> [] \<and> (\<exists>now ext. location b = dest_loc s now w ext)
     \<and> safe s dels Q (k None) (with_placed (location b) (g\<lparr>g_temp := Some (fd, n, w, True)\<rparr>))
     \<and> safe s dels Q (k (Some EExist)) (with_placed (location b) g)
     \<and> (\<forall>e. e \<noteq> EExist \<longrightarrow> safe s dels Q (k (Some e)) g))"
| "safe s dels Q (PRemove a k) = (\<lambda>g. \<exists>fd n w lk. g_temp g = Some (fd, n, w, lk) \<and> location a = temp_loc s n
     \<and> (\<forall>r. safe s dels Q (k r) (g\<lparr>g_temp := None\<rparr>)))"
| "safe s dels Q (POpenRoot p k) = (\<lambda>g. \<forall>r. safe s dels Q (k r) g)"
| "safe s dels Q (PRootOpen p n k) = (\<lambda>g. p = rootPath s \<and> (\<forall>r. safe s dels Q (k r) (with_seen n r g)))"
| "safe s dels Q (PRootRemove p n k) = (\<lambda>g. dels \<and> p = rootPath s \<and> object_path n \<and> (\<forall>r. safe s dels Q (k r) g))"
| "safe s dels Q (PNow k) = (\<lambda>g. \<forall>r. safe s dels Q (k r) g)"

lemma safe_bind: "safe s dels Q (bindI p f) g = safe s dels (\<lambda>x. safe s dels Q (f x)) p g"
  by (induction p arbitrary: g) simp_all

lemma safe_weaken: "safe s dels Q p g \<Longrightarrow> (\<And>x g. Q x g \<Longrightarrow> R x g) \<Longrightarrow> safe s dels R p g"
proof (induction p arbitrary: g)
  case (PWrite fd bs k)
  then obtain n w where g: "g_temp g = Some (fd, n, w, False)" by auto
  then show ?case using PWrite by auto
next
  case (PLink a b k)
  from PLink.prems(1) obtain fd n w where "g_temp g = Some (fd, n, w, False)" by auto
  then show ?case using PLink by auto
next
  case (PRemove a k)
  from PRemove.prems(1) obtain fd n w lk where "g_temp g = Some (fd, n, w, lk)" by auto
  then show ?case using PRemove by auto
qed auto

section \<open>The requests are safe\<close>

lemma safe_copy:
  "g_temp g = Some (fd, n, h, False) \<Longrightarrow>
   safe s dels (\<lambda>(h', e) g'. \<exists>w. g' = g\<lparr>g_temp := Some (fd, n, w, False)\<rparr> \<and> (e = None \<longrightarrow> h' = w)) (copy_pieces fd bs err h) g"
proof (induction fd bs err h arbitrary: g rule: copy_pieces.induct)
  case (1 fd err h)
  then have "g = g\<lparr>g_temp := Some (fd, n, h, False)\<rparr>" by simp
  then show ?case by auto
next
  case (2 fd b bs err h)
  show ?case
  proof (cases "b = []")
    case False
    let ?g = "g\<lparr>g_temp := Some (fd, n, h @ b, False)\<rparr>"
    have "safe s dels (\<lambda>(h', e) g'. \<exists>w. g' = ?g\<lparr>g_temp := Some (fd, n, w, False)\<rparr> \<and> (e = None \<longrightarrow> h' = w))
        (copy_pieces fd bs err (h @ b)) ?g" using "2.IH"(2) [OF False, of ?g] by simp
    then show ?thesis using 2(3) False by (auto simp: err_of_def)
  qed (use 2 in simp)
qed

definition placed_attachment :: "file_storage \<Rightarrow> attachment outcome \<Rightarrow> ghost \<Rightarrow> bool" where
  "placed_attachment s res g \<longleftrightarrow> (\<forall>att. res = Ok att \<longrightarrow>
     object_path (StoragePath att) \<and> under (location (rootPath s)) (split_on CHR ''/'' (StoragePath att)) \<in> g_placed g)"

lemma placed_stored:
  assumes "CHR ''/'' \<notin> set ext" and "dest_loc s now b ext \<in> g_placed g"
  shows "placed_attachment s (Ok (stored_as now b ext mime)) g"
proof -
  have pl: "list_all plain_name (bucket now b ext)" by (rule plain_bucket [OF assms(1)])
  then have "split_on CHR ''/'' (join ''/'' (bucket now b ext)) = bucket now b ext"
    using split_on_join [of "CHR ''/''" "bucket now b ext"] by (simp add: list_all_iff plain_name_def bucket_def)
  then show ?thesis using pl assms
    by (simp add: placed_attachment_def object_path_def stored_as_def rel_path_bucket dest_loc_def) (simp add: bucket_def)
qed

lemma safe_store_copied:
  assumes root: "rootPath s \<noteq> []" and ext: "CHR ''/'' \<notin> set ext" and tmp: "location tmp = temp_loc s n"
    and g: "g_temp g = Some (fd, n, w, False)" and e: "e = None \<Longrightarrow> h = w"
  shows "safe s dels (\<lambda>res g'. (\<exists>lk. g_temp g' = Some (fd, n, w, lk)) \<and> placed_attachment s res g') (store_copied s ext mime tmp h e) g"
proof (cases "e = None \<and> h \<noteq> []")
  case False
  then show ?thesis using g by (cases e) (auto simp: store_copied_def placed_attachment_def)
next
  case True
  have loc: "location (Join [rootPath s, join ''/'' (bucket now h ext)]) = dest_loc s now h ext" for now
    unfolding dest_loc_def by (rule location_Join [OF root plain_bucket [OF ext]]) (simp add: bucket_def)
  have dir: "location (Dir (Join [rootPath s, join ''/'' (bucket now h ext)])) = month_loc s now" for now
    using location_Dir_Join [OF root, of "[zero_padded 4 (fst now), zero_padded 2 (snd now)]" "bucket_name h ext"]
      plain_bucket [OF ext, of now h] by (simp add: bucket_def month_loc_def)
  have nowhere: "placed_attachment s (Err x) g'" for x g' by (simp add: placed_attachment_def)
  have w: "h = w" "w \<noteq> []" using True e by auto
  show ?thesis using True g w(2) nowhere
    unfolding w(1)
    by (auto simp: store_copied_now ext link_into_place_def tmp loc [unfolded w(1)] dir [unfolded w(1)] with_placed_def
        split: option.split intro!: placed_stored)
qed


text \<open>What holds of the answer to a request at its end.\<close>

definition answer_ok :: "file_storage \<Rightarrow> request \<Rightarrow> answer \<Rightarrow> ghost \<Rightarrow> bool" where
  "answer_ok s q x g \<longleftrightarrow>
     (\<forall>res. x = Stored res \<longrightarrow> placed_attachment s res g)
   \<and> (\<forall>a i. q = ROpen a \<longrightarrow> x = Opened (Ok (File i)) \<longrightarrow> object_path (StoragePath a) \<longrightarrow> (StoragePath a, i) \<in> g_seen g)"

definition fresh_ghost :: ghost where
  "fresh_ghost = \<lparr>g_temp = None, g_placed = {}, g_seen = {}\<rparr>"

lemma safe_Store:
  assumes "rootPath s \<noteq> []" and "CHR ''/'' \<notin> set ext" and "g_temp g = None"
  shows "safe s dels (\<lambda>res g'. placed_attachment s res g') (Store s r ext mime) g"
proof -
  have cont: "safe s dels (\<lambda>res g'. placed_attachment s res g')
     (bindI (bindI (copy_pieces i (rd_pieces r) (rd_error r) []) (\<lambda>(hashed, copyErr).
            PClose i (\<lambda>closeErr. store_copied s ext mime (temp_path (rootPath s) ''upload-'' n) hashed
              (if copyErr = None then map_option err_of closeErr else copyErr))))
          (\<lambda>result. PRemove (temp_path (rootPath s) ''upload-'' n) (\<lambda>r. PRet result))) (g\<lparr>g_temp := Some (i, n, [], False)\<rparr>)" for i n
  proof -
    let ?g = "g\<lparr>g_temp := Some (i, n, [], False)\<rparr>" and ?tmp = "temp_path (rootPath s) ''upload-'' n"
    have loc: "location ?tmp = temp_loc s n" by (rule location_temp_path [OF assms(1)])
    have fin: "safe s dels (\<lambda>res g'. (\<exists>w lk. g_temp g' = Some (i, n, w, lk)) \<and> placed_attachment s res g')
        (PClose i (\<lambda>closeErr. store_copied s ext mime ?tmp h (if e = None then map_option err_of closeErr else e)))
        (?g\<lparr>g_temp := Some (i, n, w, False)\<rparr>)" if "e = None \<longrightarrow> h = w" for h e w
      unfolding safe.simps
      by (intro allI safe_weaken [OF safe_store_copied [OF assms(1,2) loc, of _ i w]]) (use that in \<open>auto split: if_splits\<close>)
    have "safe s dels (\<lambda>res g'. (\<exists>w lk. g_temp g' = Some (i, n, w, lk)) \<and> placed_attachment s res g')
     (bindI (copy_pieces i (rd_pieces r) (rd_error r) []) (\<lambda>(hashed, copyErr).
            PClose i (\<lambda>closeErr. store_copied s ext mime ?tmp hashed (if copyErr = None then map_option err_of closeErr else copyErr)))) ?g"
      unfolding safe_bind
    proof (rule safe_weaken [OF safe_copy [where n = n]])
      fix x :: "string \<times> gerr option" and g'
      assume "(\<lambda>(h', e) g'. \<exists>w. g' = ?g\<lparr>g_temp := Some (i, n, w, False)\<rparr> \<and> (e = None \<longrightarrow> h' = w)) x g'"
      then obtain h e w where x: "x = (h, e)" "g' = ?g\<lparr>g_temp := Some (i, n, w, False)\<rparr>" "e = None \<longrightarrow> h = w" by (cases x) auto
      show "safe s dels (\<lambda>res g'. (\<exists>w lk. g_temp g' = Some (i, n, w, lk)) \<and> placed_attachment s res g')
        ((\<lambda>(hashed, copyErr). PClose i (\<lambda>closeErr. store_copied s ext mime ?tmp hashed
            (if copyErr = None then map_option err_of closeErr else copyErr))) x) g'"
        unfolding x(1,2) prod.case by (rule fin [OF x(3)])
    qed simp
    then show ?thesis unfolding safe_bind [of _ _ _ "bindI _ _"]
      by (rule safe_weaken) (use loc in \<open>auto simp: placed_attachment_def\<close>)
  qed
  show ?thesis using assms(3) cont by (auto simp: Store_def placed_attachment_def)
qed

lemma safe_serve:
  assumes "rootPath s \<noteq> []" and "request_ok q" and "is_delete q \<longrightarrow> dels"
  shows "safe s dels (answer_ok s q) (serve s q) fresh_ghost"
proof (cases q)
  case (RStore r ext mime)
  have "safe s dels (\<lambda>res g'. placed_attachment s res g') (Store s r ext mime) fresh_ghost"
    by (rule safe_Store) (use assms RStore in \<open>simp_all add: request_ok_def fresh_ghost_def\<close>)
  then show ?thesis using RStore
    by (auto simp: serve_def safe_bind answer_ok_def intro: safe_weaken)
next
  case (ROpen a)
  then show ?thesis
    by (auto simp: serve_def file_Open_def openFile_def safe_bind answer_ok_def with_seen_def split: sum.split node.split)
next
  case (RDelete a)
  then show ?thesis using assms(2,3)
    by (auto simp: serve_def file_Delete_def safe_bind answer_ok_def request_ok_def is_delete_def split: option.split)
qed

section \<open>One call\<close>

definition advance :: "file_storage \<Rightarrow> bool \<Rightarrow> ghost \<Rightarrow> files \<Rightarrow> ghost \<Rightarrow> files \<Rightarrow> bool" where
  "advance s dels g fs g' fs' \<longleftrightarrow> ghost_ok s dels g' fs' \<and> unread g' \<and> objects_ok s fs'
     \<and> (\<forall>h. ghost_ok s dels h fs \<longrightarrow> apart g h \<longrightarrow> ghost_ok s dels h fs' \<and> apart g' h)"

definition ready :: "file_storage \<Rightarrow> bool \<Rightarrow> ghost \<Rightarrow> files \<Rightarrow> bool" where
  "ready s dels g fs \<longleftrightarrow> files_ok fs \<and> objects_ok s fs \<and> ghost_ok s dels g fs \<and> unread g"

lemma ready_simps:
  "ready s dels g fs \<Longrightarrow> files_ok fs" "ready s dels g fs \<Longrightarrow> objects_ok s fs"
  "ready s dels g fs \<Longrightarrow> ghost_ok s dels g fs" "ready s dels g fs \<Longrightarrow> unread g"
  by (simp_all add: ready_def)

lemma advance_same: "ready s dels g fs \<Longrightarrow> advance s dels g fs g fs"
  by (simp add: ready_def advance_def)

lemma ghost_okD:
  assumes "ghost_ok s dels g fs"
  shows "g_temp g = Some (fd, n, w, lk) \<Longrightarrow> entries fs (temp_loc s n) = Some (File fd)"
    and "g_temp g = Some (fd, n, w, lk) \<Longrightarrow> inodes fs fd = w"
    and "g_temp g = Some (fd, n, w, False) \<Longrightarrow> entries fs l = Some (File fd) \<Longrightarrow> l = temp_loc s n"
    and "\<not> dels \<Longrightarrow> l \<in> g_placed g \<Longrightarrow> entries fs l \<noteq> None"
    and "\<not> dels \<Longrightarrow> l \<in> g_placed g \<Longrightarrow> l \<noteq> temp_loc s d"
    and "(p, i) \<in> g_seen g \<Longrightarrow> named_after (last (split_on CHR ''/'' p)) (inodes fs i)"
    and "(p, i) \<in> g_seen g \<Longrightarrow> i < next_inode fs"
  using assms unfolding ghost_ok_def by auto

lemma ghost_okI:
  assumes "\<And>fd n w lk. g_temp g = Some (fd, n, w, lk) \<Longrightarrow> entries fs (temp_loc s n) = Some (File fd) \<and> inodes fs fd = w"
    and "\<And>fd n w l. g_temp g = Some (fd, n, w, False) \<Longrightarrow> entries fs l = Some (File fd) \<Longrightarrow> l = temp_loc s n"
    and "\<And>l d. \<not> dels \<Longrightarrow> l \<in> g_placed g \<Longrightarrow> entries fs l \<noteq> None \<and> l \<noteq> temp_loc s d"
    and "\<And>p i. (p, i) \<in> g_seen g \<Longrightarrow> named_after (last (split_on CHR ''/'' p)) (inodes fs i) \<and> i < next_inode fs"
  shows "ghost_ok s dels g fs"
  using assms unfolding ghost_ok_def by auto

lemma temp_not_object: "length cs = 3 \<Longrightarrow> temp_loc s d \<noteq> under (location (rootPath s)) cs"
  by (auto simp: temp_loc_def)

lemma temp_loc_inj: "entries fs (temp_loc s n) = Some (File a) \<Longrightarrow> entries fs (temp_loc s m) = Some (File b) \<Longrightarrow> a \<noteq> b \<Longrightarrow> temp_loc s n \<noteq> temp_loc s m"
  by auto

lemma ghost_ok_grows: "grows k fs fs' \<Longrightarrow> ghost_ok s dels g fs \<Longrightarrow> ghost_ok s dels g fs'"
proof -
  assume gr: "grows k fs fs'" and g: "ghost_ok s dels g fs"
  have i: "inodes fs' = inodes fs" "next_inode fs' = next_inode fs" using gr by (simp_all add: grows_def)
  show ?thesis
  proof (rule ghost_okI)
    show "l = temp_loc s n" if "g_temp g = Some (fd, n, w, False)" "entries fs' l = Some (File fd)" for fd n w l
      using ghost_okD(3) [OF g that(1)] grows_file_back [OF gr that(2)] by blast
    show "entries fs' l \<noteq> None \<and> l \<noteq> temp_loc s d" if "\<not> dels" "l \<in> g_placed g" for l d
      using ghost_okD(4,5) [OF g that] grows_file [OF gr] by fastforce
  qed (use ghost_okD [OF g] grows_file [OF gr] i in auto)
qed

lemma advance_grows: "grows (month_loc s now) fs fs' \<Longrightarrow> ready s dels g fs \<Longrightarrow> advance s dels g fs g fs'"
proof -
  assume gr: "grows (month_loc s now) fs fs'" and r: "ready s dels g fs"
  have "entries fs' (under (location (rootPath s)) cs) = entries fs (under (location (rootPath s)) cs)" if "length cs = 3" for cs
  proof -
    have "month_loc s now \<noteq> under (under (location (rootPath s)) cs) ds" for ds
      using that by (auto simp: month_loc_def dest: arg_cong [where f = length])
    then show ?thesis using gr unfolding grows_def by blast
  qed
  then have "objects_ok s fs'" using ready_simps(2) [OF r] gr by (simp add: objects_ok_def grows_def)
  then show ?thesis using r ghost_ok_grows [OF gr] by (auto simp: advance_def ready_def)
qed

lemma ghost_ok_temp:
  assumes ok: "files_ok fs" and h: "ghost_ok s dels h fs" and none: "entries fs (temp_loc s n) = None"
  shows "ghost_ok s dels h (put_entry (temp_loc s n) (Some (File (next_inode fs)))
    (fs\<lparr>inodes := (inodes fs)(next_inode fs := []), next_inode := Suc (next_inode fs)\<rparr>))"
proof (rule ghost_okI)
  fix fd n' w lk
  assume t: "g_temp h = Some (fd, n', w, lk)"
  have e: "entries fs (temp_loc s n') = Some (File fd)" "inodes fs fd = w" using ghost_okD(1,2) [OF h t] .
  then have "fd < next_inode fs" using files_ok_inode [OF ok] by blast
  then show "entries (put_entry (temp_loc s n) (Some (File (next_inode fs)))
      (fs\<lparr>inodes := (inodes fs)(next_inode fs := []), next_inode := Suc (next_inode fs)\<rparr>)) (temp_loc s n') = Some (File fd)
    \<and> inodes (put_entry (temp_loc s n) (Some (File (next_inode fs)))
      (fs\<lparr>inodes := (inodes fs)(next_inode fs := []), next_inode := Suc (next_inode fs)\<rparr>)) fd = w"
    using e none by auto
next
  fix fd n' w l
  assume t: "g_temp h = Some (fd, n', w, False)" and l: "entries (put_entry (temp_loc s n) (Some (File (next_inode fs)))
      (fs\<lparr>inodes := (inodes fs)(next_inode fs := []), next_inode := Suc (next_inode fs)\<rparr>)) l = Some (File fd)"
  have "fd < next_inode fs" using ghost_okD(1) [OF h t] files_ok_inode [OF ok] by blast
  then have "entries fs l = Some (File fd)" using l by (simp split: if_splits)
  then show "l = temp_loc s n'" by (rule ghost_okD(3) [OF h t])
qed (use ghost_okD(4-7) [OF h] in \<open>fastforce+\<close>)

lemma advance_temp:
  assumes r: "ready s dels g fs" and g: "g_temp g = None" and none: "entries fs (temp_loc s n) = None"
  shows "advance s dels g fs (g\<lparr>g_temp := Some (next_inode fs, n, [], False)\<rparr>) (put_entry (temp_loc s n) (Some (File (next_inode fs)))
    (fs\<lparr>inodes := (inodes fs)(next_inode fs := []), next_inode := Suc (next_inode fs)\<rparr>))"
    (is "advance s dels g fs ?g ?fs")
proof -
  note ok = ready_simps(1) [OF r]
  have fresh: "entries fs l \<noteq> Some (File (next_inode fs))" for l using files_ok_inode [OF ok] by blast
  have seen: "(p, next_inode fs) \<notin> g_seen h" if "ghost_ok s dels h fs" for h p using ghost_okD(7) [OF that] by blast
  have "ghost_ok s dels g ?fs" by (rule ghost_ok_temp [OF ok ready_simps(3) [OF r] none])
  then have "ghost_ok s dels ?g ?fs" using fresh by (auto simp: ghost_ok_def)
  moreover have "unread ?g" using seen [OF ready_simps(3) [OF r]] by (auto simp: unread_def writes_def)
  moreover have "objects_ok s ?fs"
    unfolding objects_ok_def
  proof (intro allI impI)
    fix cs m
    assume len: "length cs = 3" and m: "entries ?fs (under (location (rootPath s)) cs) = Some m"
    then have e: "entries fs (under (location (rootPath s)) cs) = Some m" using temp_not_object [OF len, of s n] by (simp split: if_splits)
    then obtain i where i: "m = File i" "named_after (last cs) (inodes fs i)" using ready_simps(2) [OF r] len by (auto simp: objects_ok_def)
    then have "i \<noteq> next_inode fs" using fresh e by blast
    then show "\<exists>i. m = File i \<and> named_after (last cs) (inodes ?fs i)" using i by auto
  qed
  moreover have "apart ?g h" if "ghost_ok s dels h fs" "apart g h" for h
  proof -
    have "fd \<noteq> next_inode fs" if "g_temp h = Some (fd, n', w, lk)" for fd n' w lk
      using ghost_okD(1) [OF \<open>ghost_ok s dels h fs\<close> that] fresh by metis
    then show ?thesis using that(2) seen [OF that(1)] by (auto simp: apart_def two_temps_def writes_def)
  qed
  ultimately show ?thesis using ghost_ok_temp [OF ok _ none] by (simp add: advance_def)
qed

lemma advance_write:
  assumes r: "ready s dels g fs" and g: "g_temp g = Some (fd, n, w, False)"
  shows "advance s dels g fs (g\<lparr>g_temp := Some (fd, n, w @ bs, False)\<rparr>) (fs\<lparr>inodes := (inodes fs)(fd := inodes fs fd @ bs)\<rparr>)"
    (is "advance s dels g fs ?g ?fs")
proof -
  note gk = ready_simps(3) [OF r]
  have wr: "writes g fd" using g by (simp add: writes_def)
  have "ghost_ok s dels ?g ?fs"
    using gk g ready_simps(4) [OF r] wr by (auto simp: ghost_ok_def unread_def)
  moreover have "unread ?g" using ready_simps(4) [OF r] g by (auto simp: unread_def writes_def)
  moreover have "objects_ok s ?fs"
    using ready_simps(2) [OF r] ghost_okD(3) [OF gk g] temp_not_object [of _ s n] by (fastforce simp: objects_ok_def)
  moreover have "ghost_ok s dels h ?fs \<and> apart ?g h" if "ghost_ok s dels h fs" "apart g h" for h
    using that g wr by (auto simp: ghost_ok_def apart_def two_temps_def writes_def)
  ultimately show ?thesis by (simp add: advance_def)
qed


lemma object_dest: "under (location (rootPath s)) cs = dest_loc s now w ext \<Longrightarrow> w \<noteq> [] \<Longrightarrow> named_after (last cs) w"
proof -
  assume "under (location (rootPath s)) cs = dest_loc s now w ext" and w: "w \<noteq> []"
  then have "cs = bucket now w ext" by (simp add: dest_loc_def)
  then have "last cs = take 16 (sha256_hex w) @ ext" by (simp add: bucket_def bucket_name_def)
  then show ?thesis using w by (simp add: named_after_def length_sha256_hex)
qed

lemma advance_placed:
  assumes r: "ready s dels g fs" and "entries fs l \<noteq> None" and "\<And>d. l \<noteq> temp_loc s d"
  shows "advance s dels g fs (with_placed l g) fs"
proof -
  note gk = ready_simps(3) [OF r]
  have same: "g_temp (with_placed l g) = g_temp g" "g_seen (with_placed l g) = g_seen g" "writes (with_placed l g) = writes g"
    by (simp_all add: with_placed_def writes_def fun_eq_iff)
  have "ghost_ok s dels (with_placed l g) fs"
  proof (rule ghost_okI)
    show "entries fs k \<noteq> None \<and> k \<noteq> temp_loc s d" if "\<not> dels" "k \<in> g_placed (with_placed l g)" for k d
      using that(2) assms(2,3) ghost_okD(4,5) [OF gk that(1)] unfolding with_placed_def by simp metis
  qed (use ghost_okD [OF gk] same in simp_all)
  moreover have "unread (with_placed l g)" using ready_simps(4) [OF r] by (simp add: unread_def same)
  moreover have "apart (with_placed l g) h" if "apart g h" for h using that unfolding apart_def same .
  ultimately show ?thesis using ready_simps(2) [OF r] by (simp add: advance_def)
qed

lemma advance_link:
  assumes r: "ready s dels g fs" and g: "g_temp g = Some (fd, n, w, False)" and w: "w \<noteq> []"
    and none: "entries fs (dest_loc s now w ext) = None"
  shows "advance s dels g fs (with_placed (dest_loc s now w ext) (g\<lparr>g_temp := Some (fd, n, w, True)\<rparr>))
     (put_entry (dest_loc s now w ext) (Some (File fd)) fs)"
    (is "advance s dels g fs ?g ?fs")
proof -
  let ?d = "dest_loc s now w ext"
  note gk = ready_simps(3) [OF r]
  have nt: "temp_loc s k \<noteq> ?d" "?d \<noteq> temp_loc s k" for k
    using temp_not_dest [of s k now w ext] by (blast, metis)
  have "ghost_ok s dels ?g ?fs"
    using gk g nt none by (auto simp: ghost_ok_def with_placed_def)
  moreover have "unread ?g" by (auto simp: unread_def writes_def with_placed_def)
  moreover have "objects_ok s ?fs"
    using ready_simps(2) [OF r] object_dest [OF _ w] ghost_okD(2) [OF gk g] by (auto simp: objects_ok_def)
  moreover have "ghost_ok s dels h ?fs \<and> apart ?g h" if "ghost_ok s dels h fs" "apart g h" for h
    using that g nt none by (auto simp: ghost_ok_def apart_def two_temps_def writes_def with_placed_def)
  ultimately show ?thesis by (simp add: advance_def)
qed

lemma ghost_ok_gone:
  assumes h: "ghost_ok s dels h fs"
    and l: "\<And>fd n w lk. g_temp h = Some (fd, n, w, lk) \<Longrightarrow> l \<noteq> temp_loc s n" and d: "dels \<or> (\<exists>d. l = temp_loc s d)"
  shows "ghost_ok s dels h (put_entry l None fs)"
proof (rule ghost_okI)
  show "entries (put_entry l None fs) (temp_loc s n) = Some (File fd) \<and> inodes (put_entry l None fs) fd = w"
    if "g_temp h = Some (fd, n, w, lk)" for fd n w lk using ghost_okD(1,2) [OF h that] l [OF that] by auto
  show "k = temp_loc s n" if "g_temp h = Some (fd, n, w, False)" "entries (put_entry l None fs) k = Some (File fd)" for fd n w k
    using ghost_okD(3) [OF h that(1)] that(2) by (simp split: if_splits)
  show "entries (put_entry l None fs) k \<noteq> None \<and> k \<noteq> temp_loc s d" if "\<not> dels" "k \<in> g_placed h" for k d
    using ghost_okD(4,5) [OF h that] d that(1) by auto
qed (use ghost_okD(6,7) [OF h] in auto)

lemma objects_ok_gone: "objects_ok s fs \<Longrightarrow> objects_ok s (put_entry l None fs)"
  by (simp add: objects_ok_def)

lemma advance_remove_temp:
  assumes r: "ready s dels g fs" and g: "g_temp g = Some (fd, n, w, lk)"
    and fs': "fs' = fs \<or> fs' = put_entry (temp_loc s n) None fs"
  shows "advance s dels g fs (g\<lparr>g_temp := None\<rparr>) fs'"
proof -
  let ?g = "g\<lparr>g_temp := None\<rparr>"
  note gk = ready_simps(3) [OF r]
  have g0: "ghost_ok s dels ?g fs" using gk by (auto simp: ghost_ok_def)
  have "ghost_ok s dels ?g fs'" using fs' g0 ghost_ok_gone [OF g0, of "temp_loc s n"] by auto
  moreover have "unread ?g" by (auto simp: unread_def writes_def)
  moreover have "objects_ok s fs'" using fs' by (elim disjE) (simp_all add: objects_ok_gone ready_simps(2) [OF r])
  moreover have "ghost_ok s dels h fs' \<and> apart ?g h" if h: "ghost_ok s dels h fs" "apart g h" for h
  proof
    have "temp_loc s n \<noteq> temp_loc s n'" if "g_temp h = Some (fd', n', w', lk')" for fd' n' w' lk'
      by (rule temp_loc_inj [OF ghost_okD(1) [OF gk g] ghost_okD(1) [OF h(1) that]]) (use h(2) g that in \<open>auto simp: apart_def two_temps_def\<close>)
    then show "ghost_ok s dels h fs'" using fs' h(1) ghost_ok_gone [OF h(1), of "temp_loc s n"] by blast
    show "apart ?g h" using h(2) by (auto simp: apart_def two_temps_def writes_def)
  qed
  ultimately show ?thesis by (simp add: advance_def)
qed

lemma object_lookup:
  assumes "object_path p" and "root_lookup fs (rootPath s) p = Inr l"
  shows "l = under (location (rootPath s)) (split_on CHR ''/'' p)" and "length (split_on CHR ''/'' p) = 3"
proof -
  have cs: "list_all plain_name (split_on CHR ''/'' p)" "length (split_on CHR ''/'' p) = 3" using assms(1) by (simp_all add: object_path_def Let_def)
  have "root_walk fs (location (rootPath s)) [] (split_on CHR ''/'' p) = Inr l"
    using assms(2) by (simp add: root_lookup_def split: if_splits)
  from root_walk_plain [OF cs(1) _ this] show "l = under (location (rootPath s)) (split_on CHR ''/'' p)" by simp
qed (use assms(1) in \<open>simp add: object_path_def Let_def\<close>)

lemma advance_seen:
  assumes r: "ready s dels g fs" and op: "sys_root_open c (rootPath s) p fs = (x, fs')"
  shows "advance s dels g fs (with_seen p x g) fs'"
proof -
  have fs': "fs' = fs" using other_calls_ok(2) [of c "rootPath s" p fs] op by simp
  show ?thesis
  proof (cases "\<exists>i. x = Inr (File i) \<and> object_path p")
    case False
    then have "with_seen p x g = g" by (auto simp: with_seen_def split: sum.split node.split)
    then show ?thesis using advance_same [OF r] fs' by simp
  next
    case True
    then obtain i where i: "x = Inr (File i)" "object_path p" by blast
    let ?g = "g\<lparr>g_seen := insert (p, i) (g_seen g)\<rparr>" and ?l = "under (location (rootPath s)) (split_on CHR ''/'' p)"
    obtain l where l: "root_lookup fs (rootPath s) p = Inr l" "node_at fs l = Some (File i)"
      using op i(1) by (auto simp: sys_root_open_def split: option.splits sum.splits)
    then have ent: "entries fs ?l = Some (File i)" and len: "length (split_on CHR ''/'' p) = 3"
      using object_lookup [OF i(2) l(1)] by (auto simp: node_at_def split: if_splits)
    have new: "named_after (last (split_on CHR ''/'' p)) (inodes fs i)" "i < next_inode fs"
      using ready_simps(2) [OF r] ent len files_ok_inode [OF ready_simps(1) [OF r] ent] by (auto simp: objects_ok_def)
    have nw: "\<not> writes h i" if "ghost_ok s dels h fs" for h
    proof
      assume "writes h i"
      then obtain n w where "g_temp h = Some (i, n, w, False)" by (auto simp: writes_def)
      from ghost_okD(3) [OF that this ent] temp_not_object [OF len, of s n] show False by simp
    qed
    have "ghost_ok s dels ?g fs" using ready_simps(3) [OF r] new by (auto simp: ghost_ok_def)
    moreover have "unread ?g" using ready_simps(3,4) [OF r] nw [of g] by (auto simp: unread_def writes_def)
    moreover have "apart ?g h" if "ghost_ok s dels h fs" "apart g h" for h
    proof -
      have "g_temp ?g = g_temp g" "writes ?g = writes g" "g_seen ?g = insert (p, i) (g_seen g)" by (simp_all add: writes_def fun_eq_iff)
      then show ?thesis using that(2) nw [OF that(1)] unfolding apart_def by simp
    qed
    ultimately show ?thesis using i ready_simps(2) [OF r] fs' by (simp add: advance_def with_seen_def)
  qed
qed

lemma advance_root_remove:
  assumes r: "ready s dels g fs" and dels and p: "object_path p"
  shows "advance s dels g fs g (snd (sys_root_remove c (rootPath s) p fs))"
proof -
  have "snd (sys_root_remove c (rootPath s) p fs) = fs
      \<or> (\<exists>l. root_lookup fs (rootPath s) p = Inr l \<and> snd (sys_root_remove c (rootPath s) p fs) = put_entry l None fs)"
    by (auto simp: sys_root_remove_def remove_at_def split: option.split sum.split node.split)
  then show ?thesis
  proof
    assume "\<exists>l. root_lookup fs (rootPath s) p = Inr l \<and> snd (sys_root_remove c (rootPath s) p fs) = put_entry l None fs"
    then obtain l where l: "root_lookup fs (rootPath s) p = Inr l" "snd (sys_root_remove c (rootPath s) p fs) = put_entry l None fs" by blast
    have "l \<noteq> temp_loc s n" for n using object_lookup [OF p l(1)] temp_not_object by metis
    then have "ghost_ok s dels h (put_entry l None fs)" if "ghost_ok s dels h fs" for h
      using ghost_ok_gone [OF that, of l] \<open>dels\<close> by blast
    then show ?thesis using r objects_ok_gone l(2) by (auto simp: advance_def ready_def)
  qed (use advance_same [OF r] in simp)
qed


lemma step_safe:
  assumes r: "ready s dels g fs" and root: "rootPath s \<noteq> []" and sf: "safe s dels Q p g" and st: "step_proc c p fs = (p', fs')"
  shows "\<exists>g'. safe s dels Q p' g' \<and> advance s dels g fs g' fs'"
proof (cases p)
  case (PRet x)
  then show ?thesis using sf st advance_same [OF r] by auto
next
  case (PMkdirAll path k)
  then obtain now where "location path = month_loc s now" using sf by auto
  then have "grows (month_loc s now) fs fs'" "safe s dels Q p' g"
    using PMkdirAll sf st sys_mkdir_all_grows [of path fs c] by (auto simp: resume_def)
  then show ?thesis using advance_grows r by blast
next
  case (PCreateTemp dir pre k)
  then have d: "dir = rootPath s" "pre = ''upload-''" "g_temp g = None" using sf by auto
  show ?thesis
  proof (cases "sys_create_temp c (rootPath s) ''upload-'' fs")
    case (Pair x fs1)
    show ?thesis
    proof (cases x)
      case (Inl e)
      then have "fs1 = fs" using Pair by (auto simp: sys_create_temp_def Let_def split: choice.splits if_splits)
      then show ?thesis using PCreateTemp sf st d Pair Inl advance_same [OF r] by (auto simp: resume_def)
    next
      case (Inr y)
      obtain n yy mm where c: "c = Runs n yy mm" using Pair Inr by (cases c) (auto simp: sys_create_temp_def)
      have y: "y = (next_inode fs, temp_path (rootPath s) ''upload-'' n)" "entries fs (temp_loc s n) = None"
        "fs1 = put_entry (temp_loc s n) (Some (File (next_inode fs))) (fs\<lparr>inodes := (inodes fs)(next_inode fs := []), next_inode := Suc (next_inode fs)\<rparr>)"
        using Pair Inr c location_temp_path [OF root, of n]
        by (auto simp: sys_create_temp_def Let_def node_at_def split: if_splits)
      have "p' = k (Inr y)" "fs' = fs1" using PCreateTemp st d Pair Inr by (simp_all add: resume_def)
      then show ?thesis using PCreateTemp sf y d advance_temp [OF r d(3) y(2)] by auto
    qed
  qed
next
  case (PWrite fd bs k)
  then obtain n w where g: "g_temp g = Some (fd, n, w, False)"
    and k: "safe s dels Q (k None) (g\<lparr>g_temp := Some (fd, n, w @ bs, False)\<rparr>)"
      "\<And>e j. safe s dels Q (k (Some e)) (g\<lparr>g_temp := Some (fd, n, w @ take j bs, False)\<rparr>)" using sf by auto
  have st': "(p', fs') = resume k (sys_write c fd bs fs)" using st PWrite by simp
  show ?thesis
  proof (cases c)
    case (Runs a b d)
    then have "p' = k None" "fs' = fs\<lparr>inodes := (inodes fs)(fd := inodes fs fd @ bs)\<rparr>" using st' by (simp_all add: resume_def sys_write_def)
    then show ?thesis using k(1) advance_write [OF r g] by blast
  next
    case (Faults e j)
    then have "p' = k (Some (ESys e))" "fs' = fs\<lparr>inodes := (inodes fs)(fd := inodes fs fd @ take j bs)\<rparr>" using st' by (simp_all add: resume_def sys_write_def)
    then show ?thesis using k(2) advance_write [OF r g] by blast
  qed
next
  case (PClose fd k)
  then show ?thesis using sf st advance_same [OF r] by (auto simp: resume_def)
next
  case (PLink a b k)
  then obtain fd n w now ext where g: "g_temp g = Some (fd, n, w, False)" "location a = temp_loc s n" "w \<noteq> []"
    and b: "location b = dest_loc s now w ext"
    and k: "safe s dels Q (k None) (with_placed (location b) (g\<lparr>g_temp := Some (fd, n, w, True)\<rparr>))"
      "safe s dels Q (k (Some EExist)) (with_placed (location b) g)" "\<And>e. e \<noteq> EExist \<Longrightarrow> safe s dels Q (k (Some e)) g"
    using sf by auto
  have old: "node_at fs (location a) = Some (File fd)" using ghost_okD(1) [OF ready_simps(3) [OF r] g(1)] g(2)
    by (simp add: node_at_def temp_loc_def)
  have dest: "node_at fs (location b) = entries fs (location b)" by (simp add: node_at_def b dest_loc_def bucket_def)
  have nt: "location b \<noteq> temp_loc s d" for d unfolding b using temp_not_dest by metis
  obtain x fs1 where lk: "sys_link c a b fs = (x, fs1)" by fastforce
  then have p': "p' = k x" "fs' = fs1" using st PLink by (simp_all add: resume_def)
  show ?thesis
  proof (cases x)
    case None
    then have "entries fs (location b) = None" "fs1 = put_entry (location b) (Some (File fd)) fs"
      using lk old dest by (auto simp: sys_link_def split: option.splits if_splits)
    moreover from this have "advance s dels g fs (with_placed (location b) (g\<lparr>g_temp := Some (fd, n, w, True)\<rparr>)) fs1"
      using advance_link [OF r g(1,3), of now ext] b by simp
    ultimately show ?thesis using p' None k(1) by blast
  next
    case (Some e)
    then have "fs1 = fs" and ex: "e = EExist \<longrightarrow> entries fs (location b) \<noteq> None"
      using lk old dest by (auto simp: sys_link_def fault_of_def split: option.splits if_splits choice.splits)
    show ?thesis
    proof (cases "e = EExist")
      case True
      then show ?thesis using p' Some k(2) advance_placed [OF r _ nt] ex \<open>fs1 = fs\<close> by blast
    next
      case False
      then show ?thesis using p' Some k(3) advance_same [OF r] \<open>fs1 = fs\<close> by blast
    qed
  qed
next
  case (PRemove a k)
  then obtain fd n w lk where g: "g_temp g = Some (fd, n, w, lk)" "location a = temp_loc s n"
    and k: "\<And>r. safe s dels Q (k r) (g\<lparr>g_temp := None\<rparr>)" using sf by auto
  have "entries fs (location a) = Some (File fd)" using ghost_okD(1) [OF ready_simps(3) [OF r] g(1)] g(2) by simp
  then have "snd (sys_remove c a fs) = fs \<or> snd (sys_remove c a fs) = put_entry (temp_loc s n) None fs"
    using sys_remove_file [of fs a fd c] ready_simps(1) [OF r] g(2) by auto
  then show ?thesis using PRemove st k advance_remove_temp [OF r g(1)] by (auto simp: resume_def)
next
  case (POpenRoot path k)
  then show ?thesis using sf st advance_same [OF r] by (auto simp: resume_def other_calls_ok)
next
  case (PRootOpen path n k)
  then have "advance s dels g fs (with_seen n (fst (sys_root_open c (rootPath s) n fs)) g) (snd (sys_root_open c (rootPath s) n fs))"
    by (intro advance_seen [OF r]) simp
  then show ?thesis using PRootOpen sf st by (auto simp: resume_def)
next
  case (PRootRemove path n k)
  then have "advance s dels g fs g (snd (sys_root_remove c (rootPath s) n fs))"
    by (intro advance_root_remove [OF r]) (use sf in auto)
  moreover have "safe s dels Q p' g" "fs' = snd (sys_root_remove c (rootPath s) n fs)"
    using PRootRemove sf st by (auto simp: resume_def)
  ultimately show ?thesis by blast
next
  case (PNow k)
  then show ?thesis using sf st advance_same [OF r] by (auto simp: resume_def)
qed

section \<open>The pool\<close>

definition pool_inv :: "file_storage \<Rightarrow> bool \<Rightarrow> request list \<Rightarrow> answer proc list \<Rightarrow> ghost list \<Rightarrow> files \<Rightarrow> bool" where
  "pool_inv s dels qs ps gs fs \<longleftrightarrow> files_ok fs \<and> objects_ok s fs \<and> length ps = length qs \<and> length gs = length qs
   \<and> (\<forall>j < length qs. safe s dels (answer_ok s (qs ! j)) (ps ! j) (gs ! j) \<and> ghost_ok s dels (gs ! j) fs \<and> unread (gs ! j))
   \<and> (\<forall>j < length qs. \<forall>k < length qs. j \<noteq> k \<longrightarrow> apart (gs ! j) (gs ! k))"

lemma apart_sym: "apart g h \<Longrightarrow> apart h g"
  by (auto simp: apart_def two_temps_def)

lemma pool_inv_step:
  assumes inv: "pool_inv s dels qs ps gs fs" and root: "rootPath s \<noteq> []" and st: "pool_step (i, c) (ps, fs) = (ps', fs')"
  shows "\<exists>gs'. pool_inv s dels qs ps' gs' fs'"
proof (cases "i < length qs")
  case False
  then have "ps' = ps \<and> fs' = fs" using st inv by (auto simp: pool_step_def pool_inv_def)
  then show ?thesis using inv by blast
next
  case True
  let ?g = "gs ! i"
  have len: "length ps = length qs" "length gs = length qs" using inv by (simp_all add: pool_inv_def)
  obtain p' where step: "step_proc c (ps ! i) fs = (p', fs')" and ps': "ps' = ps[i := p']"
    using st True len by (auto simp: pool_step_def split: prod.splits)
  have ready: "ready s dels ?g fs" using inv True by (simp add: pool_inv_def ready_def)
  have sf: "safe s dels (answer_ok s (qs ! i)) (ps ! i) ?g" using inv True by (simp add: pool_inv_def)
  from step_safe [OF ready root sf step] obtain g' where g': "safe s dels (answer_ok s (qs ! i)) p' g'" "advance s dels ?g fs g' fs'"
    by blast
  have files: "files_ok fs'" using step_keeps_files_ok [OF ready_simps(1) [OF ready], of c "ps ! i"] step by simp
  have others: "ghost_ok s dels (gs ! j) fs' \<and> apart g' (gs ! j)" if "j < length qs" "j \<noteq> i" for j
  proof -
    have "ghost_ok s dels (gs ! j) fs" "apart ?g (gs ! j)" using inv that True by (auto simp: pool_inv_def)
    then show ?thesis using g'(2) unfolding advance_def by blast
  qed
  have "pool_inv s dels qs ps' (gs[i := g']) fs'"
    unfolding pool_inv_def
  proof (intro conjI allI impI)
    fix j assume j: "j < length qs"
    show "safe s dels (answer_ok s (qs ! j)) (ps' ! j) (gs[i := g'] ! j)"
      using inv j g'(1) len by (cases "j = i") (simp_all add: pool_inv_def ps')
    show "ghost_ok s dels (gs[i := g'] ! j) fs'" "unread (gs[i := g'] ! j)"
      using inv j g'(2) others [OF j] len by (cases "j = i"; simp add: pool_inv_def advance_def)+
    fix k assume k: "k < length qs" and "j \<noteq> k"
    then show "apart (gs[i := g'] ! j) (gs[i := g'] ! k)"
      using inv j others [OF j] others [OF k] len apart_sym
      by (cases "j = i"; cases "k = i") (auto simp: pool_inv_def)
  qed (use files g'(2) len in \<open>simp_all add: ps' advance_def\<close>)
  then show ?thesis by blast
qed

lemma pool_inv_run:
  "pool_inv s dels qs ps gs fs \<Longrightarrow> rootPath s \<noteq> [] \<Longrightarrow> run_pool sched (ps, fs) = (ps', fs') \<Longrightarrow> \<exists>gs'. pool_inv s dels qs ps' gs' fs'"
proof (induction sched arbitrary: ps gs fs)
  case (Cons ic sched)
  obtain i c where ic: "ic = (i, c)" by fastforce
  obtain ps1 fs1 where st: "pool_step (i, c) (ps, fs) = (ps1, fs1)" by fastforce
  obtain gs1 where "pool_inv s dels qs ps1 gs1 fs1" using pool_inv_step [OF Cons.prems(1,2) st] by blast
  moreover have "run_pool sched (ps1, fs1) = (ps', fs')" using Cons.prems(3) st ic by (simp add: run_pool_def)
  ultimately show ?case using Cons.IH Cons.prems(2) by blast
qed (auto simp: run_pool_def)

lemma pool_inv_start:
  assumes "files_ok fs" and "objects_ok s fs" and "rootPath s \<noteq> []" and "list_all request_ok qs" and "list_ex is_delete qs \<longrightarrow> dels"
  shows "pool_inv s dels qs (map (serve s) qs) (map (\<lambda>q. fresh_ghost) qs) fs"
proof -
  have "safe s dels (answer_ok s q) (serve s q) fresh_ghost" if "q \<in> set qs" for q
    by (rule safe_serve) (use assms(3-5) that in \<open>auto simp: list_all_iff list_ex_iff\<close>)
  then show ?thesis using assms(1,2)
    by (auto simp: pool_inv_def fresh_ghost_def ghost_ok_def unread_def apart_def two_temps_def writes_def)
qed


lemma pool_opened:
  assumes inv: "pool_inv s dels qs ps gs fs" and j: "j < length qs" "qs ! j = ROpen a" "object_path (StoragePath a)"
    and p: "ps ! j = PRet (Opened (Ok (File i)))"
  shows "named_after (last (split_on CHR ''/'' (StoragePath a))) (inodes fs i)"
proof -
  have "(StoragePath a, i) \<in> g_seen (gs ! j)" "ghost_ok s dels (gs ! j) fs"
    using inv j p by (auto simp: pool_inv_def answer_ok_def dest: spec [of _ j])
  then show ?thesis using ghost_okD(6) by blast
qed

lemma pool_stored:
  assumes inv: "pool_inv s False qs ps gs fs" and j: "j < length qs" and p: "ps ! j = PRet (Stored (Ok att))"
  shows "\<exists>b. opened_bytes s att fs = Some b \<and> named_after (last (split_on CHR ''/'' (StoragePath att))) b"
proof -
  let ?cs = "split_on CHR ''/'' (StoragePath att)"
  have "placed_attachment s (Ok att) (gs ! j)" and gk: "ghost_ok s False (gs ! j) fs"
    using inv j p by (auto simp: pool_inv_def answer_ok_def dest: spec [of _ j])
  then have op: "object_path (StoragePath att)" and pl: "under (location (rootPath s)) ?cs \<in> g_placed (gs ! j)"
    by (simp_all add: placed_attachment_def)
  have cs: "list_all plain_name ?cs" "?cs \<noteq> []" "length ?cs = 3" using op by (simp_all add: object_path_def Let_def)
  obtain n where n: "entries fs (under (location (rootPath s)) ?cs) = Some n" using ghost_okD(4) [OF gk _ pl] by auto
  then obtain i where i: "n = File i" "named_after (last ?cs) (inodes fs i)"
    using inv cs(3) by (auto simp: pool_inv_def objects_ok_def)
  have "fst (exec (file_Open s att) calm fs) = Ok n"
    using open_plain [OF _ cs(1,2), of fs att s n] inv n by (simp add: pool_inv_def join_split_on)
  then show ?thesis using i by (auto simp: opened_bytes_Some)
qed

text \<open>C36. Concurrent requests to the file storage, their file calls interleaved in any order and any of them
  failing: at every moment each object under the root is a file of complete bytes, named by the hash of these
  bytes; what a request has opened keeps bytes that fit the name it asked for, also after a
  \<open>Delete\<close>; and when no request deletes, every attachment that \<open>Store\<close> has returned opens to such bytes.\<close>

theorem interleaved_requests_see_whole_objects:
  assumes "files_ok fs" and "objects_ok s fs" and "rootPath s \<noteq> []" and "list_all request_ok qs"
    and "run_pool sched (map (serve s) qs, fs) = (ps, fs')"
  shows "files_ok fs' \<and> objects_ok s fs'
    \<and> (\<forall>j < length qs. \<forall>a i. qs ! j = ROpen a \<longrightarrow> object_path (StoragePath a) \<longrightarrow> ps ! j = PRet (Opened (Ok (File i)))
        \<longrightarrow> named_after (last (split_on CHR ''/'' (StoragePath a))) (inodes fs' i))
    \<and> (\<not> list_ex is_delete qs \<longrightarrow> (\<forall>j < length qs. \<forall>att. ps ! j = PRet (Stored (Ok att)) \<longrightarrow>
        (\<exists>b. opened_bytes s att fs' = Some b \<and> named_after (last (split_on CHR ''/'' (StoragePath att))) b)))"
proof -
  have inv: "\<exists>gs. pool_inv s dels qs ps gs fs'" if "list_ex is_delete qs \<longrightarrow> dels" for dels
    by (rule pool_inv_run [OF pool_inv_start [OF assms(1-4) that] assms(3,5)])
  obtain gs where a: "pool_inv s True qs ps gs fs'" using inv [of True] by blast
  have b: "\<exists>b. opened_bytes s att fs' = Some b \<and> named_after (last (split_on CHR ''/'' (StoragePath att))) b"
    if "\<not> list_ex is_delete qs" "j < length qs" "ps ! j = PRet (Stored (Ok att))" for j att
  proof -
    obtain gs where "pool_inv s False qs ps gs fs'" using inv [of False] \<open>\<not> list_ex is_delete qs\<close> by blast
    then show ?thesis by (rule pool_stored) (rule that(2), rule that(3))
  qed
  show ?thesis using a pool_opened [OF a] b by (auto simp: pool_inv_def)
qed


theorem interleaved_requests_witness:
  "\<exists>sched att fs' b. run_pool sched (map (serve data_storage) [RStore (text_reader ''abc'') ''.txt'' ''text/plain''], data_dir)
       = ([PRet (Stored (Ok att))], fs')
     \<and> opened_bytes data_storage att fs' = Some b \<and> named_after (last (split_on CHR ''/'' (StoragePath att))) b"
proof -
  let ?q = "RStore (text_reader ''abc'') ''.txt'' ''text/plain''" and ?att = "stored_as (2026, 4) ''abc'' ''.txt'' ''text/plain''"
  have "fst (exec (Store data_storage (text_reader ''abc'') ''.txt'' ''text/plain'') (steady 0 2026 4) data_dir) = Ok ?att"
    using store_in_data_dir [of "text_reader ''abc''" "''.txt''" "''text/plain''" 0 2026 4] by (simp add: text_reader_def)
  then have "fst (exec (serve data_storage ?q) (steady 0 2026 4) data_dir) = Stored (Ok ?att)"
    by (simp add: serve_def exec_bind case_prod_beta)
  then obtain sched fs' where run: "run_pool sched (map (serve data_storage) [?q], data_dir) = ([PRet (Stored (Ok ?att))], fs')"
    using exec_run_pool [of "serve data_storage ?q" data_dir "steady 0 2026 4"] by auto
  have "objects_ok data_storage data_dir" by (simp add: objects_ok_def data_dir_def data_root under_def)
  moreover have "list_all request_ok [?q]" by (simp add: request_ok_def)
  ultimately have "\<exists>b. opened_bytes data_storage ?att fs' = Some b \<and> named_after (last (split_on CHR ''/'' (StoragePath ?att))) b"
    using interleaved_requests_see_whole_objects [OF data_dir_ok _ data_root(2) _ run] by (auto simp: is_delete_def)
  with run show ?thesis by blast
qed

end
