(* ===== verification/Regexp.thy ===== *)
theory Regexp
  imports Prelude
begin

text \<open>
  Regular expressions with groups, as the package \<^verbatim>\<open>regexp\<close> matches them from the beginning of a text: of all
  matches the one that a backtracking search finds first. \<open>match_re\<close> is that search, in continuation
  style; a continuation that gives \<open>None\<close> makes it backtrack. \<open>matches\<close> says which texts an expression
  describes and what its groups hold; the search is sound and complete for it. Expressions range over
  bytes, which agrees with Go's runes here, since no class of the repository separates the bytes of a rune.
\<close>

datatype re =
    Lit string
  | Many1 "char \<Rightarrow> bool"
  | Few1 "char \<Rightarrow> bool"
  | Cat re re
  | Or re re
  | Opt re
  | Group nat re

text \<open>\<open>Many1\<close> is \<open>x+\<close>, \<open>Few1\<close> is \<open>x+?\<close>, for a class of characters. The groups are listed with the last one
  closed first.\<close>

type_synonym groups = "(nat \<times> string) list"

fun many :: "(char \<Rightarrow> bool) \<Rightarrow> string \<Rightarrow> (string \<Rightarrow> 'a option) \<Rightarrow> 'a option" where
  "many P [] k = k []"
| "many P (c # cs) k =
     (if P c then (case many P cs k of Some x \<Rightarrow> Some x | None \<Rightarrow> k (c # cs)) else k (c # cs))"

fun few :: "(char \<Rightarrow> bool) \<Rightarrow> string \<Rightarrow> (string \<Rightarrow> 'a option) \<Rightarrow> 'a option" where
  "few P [] k = k []"
| "few P (c # cs) k = (case k (c # cs) of Some x \<Rightarrow> Some x | None \<Rightarrow> if P c then few P cs k else None)"

definition one_of :: "(char \<Rightarrow> bool) \<Rightarrow> string \<Rightarrow> (string \<Rightarrow> 'a option) \<Rightarrow> 'a option" where
  "one_of P s k = (case s of [] \<Rightarrow> None | c # cs \<Rightarrow> if P c then k cs else None)"

primrec match_re :: "re \<Rightarrow> groups \<Rightarrow> string \<Rightarrow> (groups \<Rightarrow> string \<Rightarrow> 'a option) \<Rightarrow> 'a option" where
  "match_re (Lit l) gs s k = (case cut_prefix s l of Some rest \<Rightarrow> k gs rest | None \<Rightarrow> None)"
| "match_re (Many1 P) gs s k = one_of P s (\<lambda>rest. many P rest (k gs))"
| "match_re (Few1 P) gs s k = one_of P s (\<lambda>rest. few P rest (k gs))"
| "match_re (Cat r t) gs s k = match_re r gs s (\<lambda>gs rest. match_re t gs rest k)"
| "match_re (Or r t) gs s k = (case match_re r gs s k of Some x \<Rightarrow> Some x | None \<Rightarrow> match_re t gs s k)"
| "match_re (Opt r) gs s k = (case match_re r gs s k of Some x \<Rightarrow> Some x | None \<Rightarrow> k gs s)"
| "match_re (Group i r) gs s k =
     match_re r gs s (\<lambda>gs rest. k ((i, take (length s - length rest) s) # gs) rest)"

text \<open>\<open>FindStringSubmatch\<close> of an expression that begins with \<open>^\<close>: the groups of the match; a group that
  takes no part in it is the empty string.\<close>

definition submatch :: "re \<Rightarrow> string \<Rightarrow> groups option" where
  "submatch r s = match_re r [] s (\<lambda>gs rest. Some gs)"

definition group :: "groups \<Rightarrow> nat \<Rightarrow> string" where
  "group gs i = (case map_of gs i of Some g \<Rightarrow> g | None \<Rightarrow> [])"

section \<open>What an expression describes\<close>

inductive matches :: "re \<Rightarrow> string \<Rightarrow> groups \<Rightarrow> bool" where
  lit: "matches (Lit l) l []"
| many: "w \<noteq> [] \<Longrightarrow> list_all P w \<Longrightarrow> matches (Many1 P) w []"
| few: "w \<noteq> [] \<Longrightarrow> list_all P w \<Longrightarrow> matches (Few1 P) w []"
| cat: "matches r v gs \<Longrightarrow> matches t w hs \<Longrightarrow> matches (Cat r t) (v @ w) (hs @ gs)"
| or_left: "matches r w gs \<Longrightarrow> matches (Or r t) w gs"
| or_right: "matches t w gs \<Longrightarrow> matches (Or r t) w gs"
| opt_some: "matches r w gs \<Longrightarrow> matches (Opt r) w gs"
| opt_none: "matches (Opt r) [] []"
| group: "matches r w gs \<Longrightarrow> matches (Group i r) w ((i, w) # gs)"

inductive_simps matches_simps:
  "matches (Lit l) w gs"
  "matches (Many1 P) w gs"
  "matches (Few1 P) w gs"
  "matches (Cat r t) w gs"
  "matches (Or r t) w gs"
  "matches (Opt r) w gs"
  "matches (Group i r) w gs"

lemma many_sound: "many P s k = Some x \<Longrightarrow> \<exists>v rest. s = v @ rest \<and> list_all P v \<and> k rest = Some x"
proof (induction s)
  case (Cons c cs)
  have here: "\<exists>v rest. c # cs = v @ rest \<and> list_all P v \<and> k rest = Some x" if "k (c # cs) = Some x"
    using that by (intro exI [of _ "[]"] exI [of _ "c # cs"]) simp
  show ?case
  proof (cases "P c \<and> many P cs k = Some x")
    case True
    then obtain v rest where "cs = v @ rest" "list_all P v" "k rest = Some x" using Cons.IH by blast
    with True show ?thesis by (intro exI [of _ "c # v"] exI [of _ rest]) simp
  next
    case False
    with Cons.prems have "k (c # cs) = Some x" by (auto split: if_splits option.splits)
    then show ?thesis by (rule here)
  qed
qed simp

lemma few_sound: "few P s k = Some x \<Longrightarrow> \<exists>v rest. s = v @ rest \<and> list_all P v \<and> k rest = Some x"
proof (induction s)
  case (Cons c cs)
  show ?case
  proof (cases "k (c # cs)")
    case None
    with Cons obtain v rest where "P c" "cs = v @ rest" "list_all P v" "k rest = Some x" by (auto split: if_splits)
    then show ?thesis by (intro exI [of _ "c # v"] exI [of _ rest]) simp
  next
    case (Some y)
    with Cons.prems show ?thesis by (intro exI [of _ "[]"] exI [of _ "c # cs"]) simp
  qed
qed simp

lemma many_complete: "list_all P v \<Longrightarrow> k rest \<noteq> None \<Longrightarrow> many P (v @ rest) k \<noteq> None"
proof (induction v)
  case Nil
  then show ?case by (cases rest) (auto split: option.splits)
qed (auto split: option.splits)

lemma few_complete: "list_all P v \<Longrightarrow> k rest \<noteq> None \<Longrightarrow> few P (v @ rest) k \<noteq> None"
proof (induction v)
  case Nil
  then show ?case by (cases rest) (auto split: option.splits)
qed (auto split: option.splits)

lemma match_sound:
  "match_re r gs s k = Some x \<Longrightarrow> \<exists>v rest hs. s = v @ rest \<and> matches r v hs \<and> k (hs @ gs) rest = Some x"
proof (induction r arbitrary: gs s k)
  case (Lit l)
  then have l: "has_prefix s l" "k ([] @ gs) (drop (length l) s) = Some x"
    by (auto simp: cut_prefix_def split: if_splits)
  show ?case using has_prefix_split [OF l(1)] l(2) matches.lit [of l] by blast
next
  case (Many1 P)
  then obtain c cs where s: "s = c # cs" "P c" "many P cs (k gs) = Some x"
    by (auto simp: one_of_def split: list.splits if_splits)
  from many_sound [OF s(3)] obtain v rest where v: "cs = v @ rest" "list_all P v" "k gs rest = Some x" by blast
  have "matches (Many1 P) (c # v) []" using s(2) v(2) by (intro matches.many) simp_all
  with s(1) v(1,3) show ?case by (intro exI [of _ "c # v"] exI [of _ rest] exI [of _ "[]"]) simp
next
  case (Few1 P)
  then obtain c cs where s: "s = c # cs" "P c" "few P cs (k gs) = Some x"
    by (auto simp: one_of_def split: list.splits if_splits)
  from few_sound [OF s(3)] obtain v rest where v: "cs = v @ rest" "list_all P v" "k gs rest = Some x" by blast
  have "matches (Few1 P) (c # v) []" using s(2) v(2) by (intro matches.few) simp_all
  with s(1) v(1,3) show ?case by (intro exI [of _ "c # v"] exI [of _ rest] exI [of _ "[]"]) simp
next
  case (Cat r t)
  from Cat.IH(1) [OF Cat.prems [unfolded match_re.simps]] obtain v rest hs where
    r: "s = v @ rest" "matches r v hs" "match_re t (hs @ gs) rest k = Some x" by blast
  from Cat.IH(2) [OF r(3)] obtain w rest' hs' where
    "rest = w @ rest'" "matches t w hs'" "k (hs' @ hs @ gs) rest' = Some x" by blast
  with r show ?case
    by (intro exI [of _ "v @ w"] exI [of _ rest'] exI [of _ "hs' @ hs"]) (auto intro: matches.cat)
next
  case (Or r t)
  show ?case
  proof (cases "match_re r gs s k")
    case None
    with Or.prems have "match_re t gs s k = Some x" by simp
    from Or.IH(2) [OF this] show ?thesis using matches.or_right [of t _ _ r] by blast
  next
    case (Some y)
    with Or.prems have "match_re r gs s k = Some x" by simp
    from Or.IH(1) [OF this] show ?thesis using matches.or_left [of r _ _ t] by blast
  qed
next
  case (Opt r)
  show ?case
  proof (cases "match_re r gs s k")
    case None
    with Opt.prems have "k ([] @ gs) s = Some x" by simp
    then show ?thesis by (intro exI [of _ "[]"] exI [of _ s]) (auto intro: matches.opt_none)
  next
    case (Some y)
    with Opt.prems have "match_re r gs s k = Some x" by simp
    from Opt.IH [OF this] show ?thesis using matches.opt_some [of r] by blast
  qed
next
  case (Group i r)
  from Group.IH [OF Group.prems [unfolded match_re.simps]] obtain v rest hs where
    "s = v @ rest" "matches r v hs" "k ((i, take (length s - length rest) s) # hs @ gs) rest = Some x" by blast
  then show ?case
    by (intro exI [of _ v] exI [of _ rest] exI [of _ "(i, v) # hs"]) (simp add: matches.group)
qed

lemma match_complete:
  "matches r v hs \<Longrightarrow> k (hs @ gs) rest \<noteq> None \<Longrightarrow> match_re r gs (v @ rest) k \<noteq> None"
proof (induction r v hs arbitrary: gs rest k rule: matches.induct)
  case (lit l)
  then show ?case by (simp add: cut_prefix_def has_prefix_append)
next
  case (many w P)
  then show ?case by (cases w) (auto simp: one_of_def dest: many_complete)
next
  case (few w P)
  then show ?case by (cases w) (auto simp: one_of_def dest: few_complete)
next
  case (cat r v gs t w hs)
  then show ?case by simp
next
  case (or_left r w hs t)
  then have "match_re r gs (w @ rest) k \<noteq> None" by blast
  then show ?case by (auto split: option.split)
next
  case (opt_some r w hs)
  then have "match_re r gs (w @ rest) k \<noteq> None" by blast
  then show ?case by (auto split: option.split)
next
  case (group r w gs i)
  then show ?case by simp
qed (auto split: option.splits)

text \<open>The search finds a match exactly when the text begins with one.\<close>

lemma submatch_None: "submatch r s = None \<longleftrightarrow> (\<nexists>v rest hs. s = v @ rest \<and> matches r v hs)"
proof
  assume "submatch r s = None"
  then show "\<nexists>v rest hs. s = v @ rest \<and> matches r v hs"
    using match_complete [of r _ _ "\<lambda>gs rest. Some gs" "[]"] by (fastforce simp: submatch_def)
next
  assume "\<nexists>v rest hs. s = v @ rest \<and> matches r v hs"
  then show "submatch r s = None"
    using match_sound [of r "[]" s "\<lambda>gs rest. Some gs"] by (cases "submatch r s") (auto simp: submatch_def)
qed

lemma submatch_matches: "submatch r s = Some gs \<Longrightarrow> \<exists>v rest. s = v @ rest \<and> matches r v gs"
  using match_sound [of r "[]" s "\<lambda>gs rest. Some gs" gs] by (auto simp: submatch_def)

section \<open>What the groups hold\<close>

text \<open>The groups of an expression with their bodies, and those that take part in every match.\<close>

primrec groups_in :: "re \<Rightarrow> (nat \<times> re) list" where
  "groups_in (Lit l) = []"
| "groups_in (Many1 P) = []"
| "groups_in (Few1 P) = []"
| "groups_in (Cat r t) = groups_in r @ groups_in t"
| "groups_in (Or r t) = groups_in r @ groups_in t"
| "groups_in (Opt r) = groups_in r"
| "groups_in (Group i r) = (i, r) # groups_in r"

primrec sure_groups :: "re \<Rightarrow> nat list" where
  "sure_groups (Lit l) = []"
| "sure_groups (Many1 P) = []"
| "sure_groups (Few1 P) = []"
| "sure_groups (Cat r t) = sure_groups r @ sure_groups t"
| "sure_groups (Or r t) = filter (\<lambda>i. i \<in> set (sure_groups t)) (sure_groups r)"
| "sure_groups (Opt r) = []"
| "sure_groups (Group i r) = i # sure_groups r"

lemma group_body:
  "matches r v gs \<Longrightarrow> (i, w) \<in> set gs \<Longrightarrow> \<exists>t hs. (i, t) \<in> set (groups_in r) \<and> matches t w hs"
  by (induction r v gs rule: matches.induct) auto

lemma group_present: "matches r v gs \<Longrightarrow> i \<in> set (sure_groups r) \<Longrightarrow> i \<in> fst ` set gs"
  by (induction r v gs rule: matches.induct) auto

lemma group_cases:
  assumes "matches r v gs"
  shows "group gs i = [] \<and> i \<notin> set (sure_groups r)
    \<or> (\<exists>t hs. (i, t) \<in> set (groups_in r) \<and> matches t (group gs i) hs)"
proof (cases "map_of gs i")
  case None
  then have "i \<notin> set (sure_groups r)" using group_present [OF assms] by (auto simp: map_of_eq_None_iff)
  with None show ?thesis by (simp add: group_def)
next
  case (Some w)
  then show ?thesis using group_body [OF assms map_of_SomeD [OF Some]] by (simp add: group_def)
qed

section \<open>Unambiguous runs\<close>

text \<open>A greedy run ends where its class ends, when the rest matches there.\<close>

lemma many_run:
  assumes "list_all P v" "rest = [] \<or> \<not> P (hd rest)" "k rest \<noteq> None"
  shows "many P (v @ rest) k = k rest"
  using assms
proof (induction v)
  case Nil
  then show ?case by (cases rest) auto
qed (auto split: option.split)

lemma many1_run:
  assumes "w \<noteq> []" "list_all P w" "rest = [] \<or> \<not> P (hd rest)" "k gs rest \<noteq> None"
  shows "match_re (Many1 P) gs (w @ rest) k = k gs rest"
  using assms by (cases w) (simp_all add: one_of_def many_run)

text \<open>A lazy run ends at the first place where the rest matches.\<close>

lemma few_run:
  assumes "list_all P v" "\<And>a b. v = a @ b \<Longrightarrow> b \<noteq> [] \<Longrightarrow> k (b @ rest) = None" "k rest \<noteq> None"
  shows "few P (v @ rest) k = k rest"
  using assms
proof (induction v)
  case Nil
  then show ?case by (cases rest) (auto split: option.split)
next
  case (Cons c v)
  have "k (c # v @ rest) = None" using Cons.prems(2) [of "[]" "c # v"] by simp
  moreover have "few P (v @ rest) k = k rest"
  proof (rule Cons.IH)
    fix a b
    assume "v = a @ b" "b \<noteq> []"
    then show "k (b @ rest) = None" using Cons.prems(2) [of "c # a" b] by simp
  qed (use Cons.prems in auto)
  ultimately show ?case using Cons.prems(1) by simp
qed

text \<open>Steps of a search that succeeds without backtracking.\<close>

named_theorems match_steps

lemma cat_step [match_steps]:
  "match_re r gs s (\<lambda>gs rest. match_re t gs rest k) = Some x \<Longrightarrow> match_re (Cat r t) gs s k = Some x"
  by simp

lemma lit_step [match_steps]: "k gs rest = Some x \<Longrightarrow> match_re (Lit l) gs (l @ rest) k = Some x"
  by (simp add: cut_prefix_def)

lemma opt_step [match_steps]: "match_re r gs s k = Some x \<Longrightarrow> match_re (Opt r) gs s k = Some x"
  by simp

lemma or_step: "match_re r gs s k = Some x \<Longrightarrow> match_re (Or r t) gs s k = Some x"
  by simp

lemma many_step:
  assumes "w \<noteq> []" "list_all P w" "rest = [] \<or> \<not> P (hd rest)" "k gs rest = Some x"
  shows "match_re (Many1 P) gs (w @ rest) k = Some x"
  using many1_run [OF assms(1-3), of k gs] assms(4) by simp

lemma group_many_step:
  assumes "w \<noteq> []" "list_all P w" "rest = [] \<or> \<not> P (hd rest)" "k ((i, w) # gs) rest = Some x"
  shows "match_re (Group i (Many1 P)) gs (w @ rest) k = Some x"
  using many1_run [OF assms(1-3), of "\<lambda>gs rest'. k ((i, take (length (w @ rest) - length rest') (w @ rest)) # gs) rest'" gs]
    assms(4) by simp

lemma group_few_step:
  assumes "w \<noteq> []" "list_all P w" "k ((i, w) # gs) rest = Some x"
    and "\<And>a b. w = a @ b \<Longrightarrow> a \<noteq> [] \<Longrightarrow> b \<noteq> [] \<Longrightarrow> k ((i, a) # gs) (b @ rest) = None"
  shows "match_re (Group i (Few1 P)) gs (w @ rest) k = Some x"
proof -
  obtain c v where w: "w = c # v" using assms(1) by (cases w) auto
  let ?k = "\<lambda>rest'. k ((i, take (length (w @ rest) - length rest') (w @ rest)) # gs) rest'"
  have "few P (v @ rest) ?k = ?k rest"
  proof (rule few_run)
    fix a b
    assume "v = a @ b" "b \<noteq> []"
    then show "?k (b @ rest) = None" using assms(4) [of "c # a" b] by (simp add: w)
  qed (use assms(2,3) in \<open>simp_all add: w\<close>)
  then show ?thesis using assms(2,3) by (simp add: w one_of_def)
qed

end
