(* ===== verification/Float64.thy ===== *)
theory Float64
  imports Prelude Complex_Main
begin

text \<open>
  The non-negative numbers of \<open>float64\<close>: finite ones as the rational number they are, and positive infinity.
  An operation computes the exact result and rounds it to 53 significant bits, ties to even, with the
  exponent range of IEEE 754 binary64; \<open>ParseFloat\<close> and the verb \<open>%.kf\<close> of \<open>fmt\<close> round correctly, too. Signed
  numbers and NaN do not arise in the repository's use.
\<close>

datatype f64 = Fin rat | PInf

definition half_even :: "rat \<Rightarrow> int" where
  "half_even x = (let n = \<lfloor>x\<rfloor>; d = x - of_int n in if d < 1/2 \<or> d = 1/2 \<and> even n then n else n + 1)"

function bit_length :: "int \<Rightarrow> int" where
  "bit_length n = (if n \<le> 0 then 0 else 1 + bit_length (n div 2))"
  by pat_completeness auto
termination
  by (relation "measure nat") auto

declare bit_length.simps [simp del]

text \<open>The integer part of the binary logarithm of a positive number.\<close>

definition floor_log2 :: "rat \<Rightarrow> int" where
  "floor_log2 x = (if 1 \<le> x then bit_length \<lfloor>x\<rfloor> - 1 else - bit_length (\<lceil>1 / x\<rceil> - 1))"

definition pow2 :: "int \<Rightarrow> rat" where
  "pow2 e = (if 0 \<le> e then 2 ^ nat e else 1 / 2 ^ nat (- e))"

definition round_f64 :: "rat \<Rightarrow> f64" where
  "round_f64 x =
     (if x = 0 then Fin 0
      else (let e = max (- 1074) (floor_log2 x - 52); y = of_int (half_even (x / pow2 e)) * pow2 e
            in if 2 ^ 1024 \<le> y then PInf else Fin y))"

definition f64_div :: "f64 \<Rightarrow> rat \<Rightarrow> f64" where
  "f64_div f c = (case f of Fin x \<Rightarrow> round_f64 (x / c) | PInf \<Rightarrow> PInf)"

text \<open>The quotient of a positive constant.\<close>

definition div_f64 :: "rat \<Rightarrow> f64 \<Rightarrow> f64" where
  "div_f64 c f = (case f of Fin x \<Rightarrow> if x = 0 then PInf else round_f64 (c / x) | PInf \<Rightarrow> Fin 0)"

definition f64_at_least :: "f64 \<Rightarrow> rat \<Rightarrow> bool" where
  "f64_at_least f c = (case f of Fin x \<Rightarrow> c \<le> x | PInf \<Rightarrow> True)"

section \<open>Text\<close>

definition digit_value :: "char \<Rightarrow> int" where
  "digit_value c = int (of_char c) - 48"

definition digits_value :: "string \<Rightarrow> int" where
  "digits_value s = foldl (\<lambda>n c. 10 * n + digit_value c) 0 s"

text \<open>\<open>strconv.ParseFloat\<close> of a text of digits and points; \<open>None\<close> is an error (syntax or range).\<close>

definition ParseFloat :: "string \<Rightarrow> f64 option" where
  "ParseFloat s =
     (let (a, b) = (case str_cut s ''.'' of Some p \<Rightarrow> p | None \<Rightarrow> (s, [])) in
      if a @ b = [] \<or> \<not> list_all is_digit (a @ b) then None
      else (case round_f64 (of_int (digits_value (a @ b)) / 10 ^ length b) of
          PInf \<Rightarrow> None
        | f \<Rightarrow> Some f))"

text \<open>\<open>strconv.ParseInt\<close> of a text of digits, its range error ignored: the largest value then.\<close>

definition ParseInt :: "string \<Rightarrow> int" where
  "ParseInt s = min (digits_value s) (2 ^ 63 - 1)"

definition format_fixed :: "nat \<Rightarrow> f64 \<Rightarrow> string" where
  "format_fixed k f = (case f of
       PInf \<Rightarrow> ''+Inf''
     | Fin x \<Rightarrow> (let n = nat (half_even (x * 10 ^ k))
                in dec (n div 10 ^ k) @ (if k = 0 then [] else ''.'' @ zero_padded k (n mod 10 ^ k))))"

section \<open>Rounding\<close>

lemma half_even_near: "\<bar>of_int (half_even x) - x\<bar> \<le> 1/2"
proof -
  have "of_int \<lfloor>x\<rfloor> \<le> x" "x < of_int \<lfloor>x\<rfloor> + 1" by linarith+
  then show ?thesis unfolding half_even_def Let_def abs_le_iff by (simp only: of_int_add of_int_1 split: if_split) linarith
qed

lemma half_even_of_int [simp]: "half_even (of_int n) = n"
  by (simp add: half_even_def)

lemma pow2_pos: "0 < pow2 e"
  by (simp add: pow2_def)

lemma pow2_nonzero [simp]: "pow2 e \<noteq> 0"
  using pow2_pos [of e] by simp

text \<open>A finite result is within half a unit in the last place of the exact one.\<close>

lemma round_f64_near:
  assumes "round_f64 x = Fin y"
  shows "\<bar>y - x\<bar> \<le> pow2 (max (- 1074) (floor_log2 x - 52)) / 2"
proof (cases "x = 0")
  case True
  with assms show ?thesis using pow2_pos by (simp add: round_f64_def less_imp_le)
next
  case False
  let ?p = "pow2 (max (- 1074) (floor_log2 x - 52))"
  have y: "y = of_int (half_even (x / ?p)) * ?p"
    using assms False by (auto simp: round_f64_def Let_def split: if_splits)
  have p: "0 < ?p" by (rule pow2_pos)
  have "x / ?p * ?p = x" by simp
  then have "y - x = (of_int (half_even (x / ?p)) - x / ?p) * ?p" by (simp only: y left_diff_distrib)
  with p have "\<bar>y - x\<bar> = \<bar>of_int (half_even (x / ?p)) - x / ?p\<bar> * ?p"
    by (simp only: abs_mult abs_of_pos)
  also have "\<dots> \<le> 1/2 * ?p"
    by (rule mult_right_mono [OF half_even_near less_imp_le [OF p]])
  finally show ?thesis by simp
qed

text \<open>Formatted numbers hold digits, a point and the letters of infinity.\<close>

lemma set_format_fixed: "c \<in> set (format_fixed k f) \<Longrightarrow> is_digit c \<or> c \<in> set ''.+Inf''"
proof (cases f)
  case (Fin x)
  moreover have "c \<in> set (zero_padded w n) \<Longrightarrow> is_digit c" for w n
    using dec_digits [of c n] by (auto simp: zero_padded_def is_digit_def)
  moreover assume "c \<in> set (format_fixed k f)"
  ultimately show ?thesis using dec_digits by (auto simp: format_fixed_def Let_def split: if_splits)
qed (auto simp: format_fixed_def)

end
