(* ===== verification/Bench_Report.thy ===== *)
theory Bench_Report
  imports Outcome Regexp Float64
begin

text \<open>
  The command \<^verbatim>\<open>bench-report\<close> (\<^verbatim>\<open>internal/cmd/bench-report/main.go\<close>): it reads the output of \<^verbatim>\<open>go test -bench\<close> and
  writes two tables between markers of the README. A run is a function of the standard input, of what
  \<open>os.ReadFile\<close> returns and of whether \<open>os.WriteFile\<close> succeeds.
\<close>

section \<open>Reading benchmark lines\<close>

record result =
  scenario :: string
  bench_backend :: string
  nsPerOp :: f64
  allocs :: int

text \<open>The classes \<open>\s\<close>, \<open>\S\<close>, \<open>\d\<close> and \<open>[\d.]\<close>, and the expression \<open>benchLine\<close>.\<close>

definition re_space :: "char \<Rightarrow> bool" where
  "re_space c \<longleftrightarrow> c \<in> {CHR 0x09, CHR 0x0A, CHR 0x0C, CHR 0x0D, CHR '' ''}"

definition spaces :: re where "spaces = Many1 re_space"

definition digits :: re where "digits = Many1 is_digit"

definition decimal :: re where "decimal = Many1 (\<lambda>c. is_digit c \<or> c = CHR ''.'')"

fun sequence :: "re list \<Rightarrow> re" where
  "sequence [] = Lit []"
| "sequence (r # rs) = Cat r (sequence rs)"

definition benchLine :: re where
  "benchLine = sequence
    [Lit ''Benchmark'', Group 1 (Or (Lit ''RW'') (Lit ''Concurrent'')), Lit ''_'',
     Group 2 (Or (Lit ''SQLite'') (Lit ''Postgres'')), Lit ''_'',
     Group 3 (Few1 (\<lambda>c. \<not> re_space c)), Opt (Cat (Lit ''-'') digits), spaces, digits, spaces,
     Group 4 decimal, spaces, Lit ''ns/op'',
     Opt (sequence [spaces, digits, spaces, Lit ''B/op'']),
     Opt (sequence [spaces, Group 5 digits, spaces, Lit ''allocs/op''])]"

text \<open>The result of one line with its kind, when the line is one.\<close>

definition parse_line :: "string \<Rightarrow> (string \<times> result) option" where
  "parse_line line = (case submatch benchLine line of
       None \<Rightarrow> None
     | Some m \<Rightarrow> (case ParseFloat (group m 4) of
           None \<Rightarrow> None
         | Some ns \<Rightarrow> Some (group m 1,
             \<lparr>scenario = group m 3, bench_backend = group m 2, nsPerOp = ns,
              allocs = (if group m 5 \<noteq> [] then ParseInt (group m 5) else 0)\<rparr>)))"

text \<open>\<open>bufio.Scanner\<close> with lines: the lines without their line ends up to the first one that does not fit
  the buffer of \<open>2 ^ 20\<close> bytes, and the error of the scan. The reader is the bytes it delivers and the error
  that ends it (none for \<open>io.EOF\<close>).\<close>

definition maxTokenSize :: nat where
  "maxTokenSize = 2 ^ 20"

definition dropCR :: "string \<Rightarrow> string" where
  "dropCR l = (if l \<noteq> [] \<and> last l = CHR 0x0D then butlast l else l)"

definition scan_lines :: "string \<Rightarrow> string list" where
  "scan_lines s = (let ls = split_on CHR 0x0A s in if last ls = [] then butlast ls else ls)"

definition scan :: "string \<times> gerr option \<Rightarrow> string list \<times> gerr option" where
  "scan rd =
     (let ls = scan_lines (fst rd); ok = takeWhile (\<lambda>l. length l < maxTokenSize) ls
      in (map dropCR ok, if ok = ls then snd rd else Some (Msg ''bufio.Scanner: token too long'')))"

fun parse_loop :: "string list \<Rightarrow> result list \<Rightarrow> result list \<Rightarrow> result list \<times> result list" where
  "parse_loop [] serial concurrent = (serial, concurrent)"
| "parse_loop (line # lines) serial concurrent = (case parse_line line of
      None \<Rightarrow> parse_loop lines serial concurrent
    | Some (kind, res) \<Rightarrow>
        if kind = ''RW'' then parse_loop lines (serial @ [res]) concurrent
        else if kind = ''Concurrent'' then parse_loop lines serial (concurrent @ [res])
        else parse_loop lines serial concurrent)"

definition parse :: "string \<times> gerr option \<Rightarrow> result list \<times> result list \<times> gerr option" where
  "parse rd = (let (lines, err) = scan rd; (serial, concurrent) = parse_loop lines [] []
     in (serial, concurrent, err))"

section \<open>Tables\<close>

type_synonym group_row = "result option \<times> result option"

fun seen_order :: "result list \<Rightarrow> string list \<Rightarrow> string list" where
  "seen_order [] order = order"
| "seen_order (r # rs) order =
     seen_order rs (if scenario r \<in> set order then order else order @ [scenario r])"

fun index_in :: "string \<Rightarrow> string list \<Rightarrow> nat" where
  "index_in s [] = 0"
| "index_in s (x # xs) = (if x = s then 0 else Suc (index_in s xs))"

fun fill_groups :: "string list \<Rightarrow> result list \<Rightarrow> group_row list \<Rightarrow> group_row list" where
  "fill_groups order [] out = out"
| "fill_groups order (r # rs) out =
     (let idx = index_in (scenario r) order; (a, b) = out ! idx in
      fill_groups order rs
        (if bench_backend r = ''SQLite'' then out[idx := (Some r, b)]
         else if bench_backend r = ''Postgres'' then out[idx := (a, Some r)]
         else out))"

definition groupByScenario :: "result list \<Rightarrow> group_row list" where
  "groupByScenario rs =
     (let order = seen_order rs [] in fill_groups order rs (replicate (length order) (None, None)))"

definition micro :: string where "micro = [CHR 0xC2, CHR 0xB5]"

definition em_dash :: string where "em_dash = [CHR 0xE2, CHR 0x80, CHR 0x94]"

definition formatDuration :: "f64 \<Rightarrow> string" where
  "formatDuration ns =
     (if f64_at_least ns 1000000 then format_fixed 2 (f64_div ns 1000000) @ '' ms''
      else if f64_at_least ns 1000 then format_fixed 1 (f64_div ns 1000) @ '' '' @ micro @ ''s''
      else format_fixed 0 ns @ '' ns'')"

definition formatThroughput :: "f64 \<Rightarrow> string" where
  "formatThroughput ns =
     (let ops = div_f64 1000000000 ns in
      if f64_at_least ops 1000000 then format_fixed 2 (f64_div ops 1000000) @ ''M ops/s''
      else if f64_at_least ops 1000 then format_fixed 1 (f64_div ops 1000) @ ''k ops/s''
      else format_fixed 0 ops @ '' ops/s'')"

definition cell :: "result option \<Rightarrow> (f64 \<Rightarrow> string) \<Rightarrow> string" where
  "cell r fmtFn = (case r of None \<Rightarrow> em_dash | Some r \<Rightarrow> fmtFn (nsPerOp r))"

definition cellAllocs :: "result option \<Rightarrow> string" where
  "cellAllocs r = (case r of None \<Rightarrow> em_dash | Some r \<Rightarrow> dec_int (allocs r))"

definition scenarioOrderKey :: "group_row \<Rightarrow> string" where
  "scenarioOrderKey g = []"

definition scenario_labels :: "(string \<times> string) list" where
  "scenario_labels =
    [(''Insert'', ''Save (insert)''), (''InsertMany100'', ''SaveAll (100)''), (''InsertMany1000'', ''SaveAll (1000)''),
     (''FindByID'', ''FindByID''), (''FindByIDs10'', ''FindByIDs (10)''),
     (''QueryFiltered10'', ''Query + Sort + Limit(10)''), (''QueryFiltered100'', ''Query + Sort + Limit(100)''),
     (''Iter1000'', ''Iter (1000 rows)''), (''CountFiltered'', ''Count(filter)''), (''SumFiltered'', ''Sum(filter)''),
     (''Search'', ''FTS Search''), (''WithFetchLinks'', ''WithFetchLinks (20 rows)''), (''Update'', ''Save (update)''),
     (''BulkUpdate100'', ''QuerySet.Update (100)''), (''Transaction'', ''RunInTransaction''),
     (''Mixed8020'', ''Mixed reads/writes 80/20''), (''QueueConsumer'', ''Queue consumer (SkipLocked)'')]"

definition humanScenario :: "string \<Rightarrow> string" where
  "humanScenario s = (case map_of scenario_labels s of Some l \<Rightarrow> l | None \<Rightarrow> s)"

definition group_name :: "group_row \<Rightarrow> string" where
  "group_name g = (case g of (Some r, _) \<Rightarrow> scenario r | (None, Some r) \<Rightarrow> scenario r | (None, None) \<Rightarrow> [])"

definition line_end :: string where "line_end = [CHR 0x0A]"

definition serial_row :: "group_row \<Rightarrow> string" where
  "serial_row g = ''| '' @ humanScenario (group_name g) @ '' | '' @ cell (fst g) formatDuration @ '' | ''
     @ cell (snd g) formatDuration @ '' | '' @ cellAllocs (fst g) @ '' | '' @ cellAllocs (snd g) @ '' |'' @ line_end"

definition renderSerial :: "result list \<Rightarrow> string" where
  "renderSerial rs =
     ''| Scenario | SQLite | Postgres | SQLite allocs | Postgres allocs |'' @ line_end
     @ ''|---|---:|---:|---:|---:|'' @ line_end
     @ concat (map serial_row (sort_key scenarioOrderKey (groupByScenario rs)))"

definition concurrent_row :: "group_row \<Rightarrow> string" where
  "concurrent_row g = ''| '' @ humanScenario (group_name g) @ '' | '' @ cell (fst g) formatThroughput @ '' | ''
     @ cell (snd g) formatThroughput @ '' |'' @ line_end"

definition renderConcurrent :: "result list \<Rightarrow> string" where
  "renderConcurrent rs =
     ''| Scenario | SQLite | Postgres |'' @ line_end @ ''|---|---:|---:|'' @ line_end
     @ concat (map concurrent_row (groupByScenario rs))"

section \<open>The README\<close>

text \<open>\<open>strings.Index\<close>.\<close>

fun str_index :: "string \<Rightarrow> string \<Rightarrow> nat option" where
  "str_index [] sub = (if sub = [] then Some 0 else None)"
| "str_index (c # cs) sub = (if has_prefix (c # cs) sub then Some 0 else map_option Suc (str_index cs sub))"

definition splice :: "string \<Rightarrow> string \<Rightarrow> string \<Rightarrow> string \<Rightarrow> gerr + string" where
  "splice body startMarker endMarker replacement =
     (case str_index body startMarker of
        None \<Rightarrow> Inl (Msg (''missing start marker '' @ go_quote startMarker))
      | Some start \<Rightarrow> (case str_index body endMarker of
            None \<Rightarrow> Inl (Msg (''missing end marker '' @ go_quote endMarker))
          | Some e \<Rightarrow>
              if e < start
              then Inl (Msg (go_quote endMarker @ '' appears before '' @ go_quote startMarker))
              else Inr (take (start + length startMarker) body @ line_end @ replacement @ line_end
                        @ drop e body)))"

definition serial_start :: string where "serial_start = ''<!-- BENCH:SERIAL -->''"
definition serial_end :: string where "serial_end = ''<!-- /BENCH:SERIAL -->''"
definition concurrent_start :: string where "concurrent_start = ''<!-- BENCH:CONCURRENT -->''"
definition concurrent_end :: string where "concurrent_end = ''<!-- /BENCH:CONCURRENT -->''"

text \<open>The outcome of a run: the arguments of \<open>log.Fatalf\<close>, a text and the error printed after it, or the new
  README with the counts reported on the standard error.\<close>

datatype bench_run = Fatal string "gerr option" | Updated string nat nat

text \<open>The tables that have results are spliced, the serial one first.\<close>

definition splice_table :: "string \<Rightarrow> string \<Rightarrow> string \<Rightarrow> result list \<Rightarrow> (result list \<Rightarrow> string) \<Rightarrow> gerr + string" where
  "splice_table body startMarker endMarker rs render =
     (if rs = [] then Inr body else splice body startMarker endMarker (render rs))"

definition bench_main :: "string \<times> gerr option \<Rightarrow> gerr + string \<Rightarrow> (string \<Rightarrow> gerr option) \<Rightarrow> bench_run" where
  "bench_main stdin readme write =
     (case parse stdin of
        (serial, concurrent, Some e) \<Rightarrow> Fatal ''parse: '' (Some e)
      | (serial, concurrent, None) \<Rightarrow>
          if serial = [] \<and> concurrent = [] then Fatal ''no benchmark results found on stdin'' None
          else (case readme of
              Inl e \<Rightarrow> Fatal ''read readme: '' (Some e)
            | Inr body \<Rightarrow> (case splice_table body serial_start serial_end serial renderSerial of
                  Inl e \<Rightarrow> Fatal ''splice serial: '' (Some e)
                | Inr updated \<Rightarrow> (case splice_table updated concurrent_start concurrent_end concurrent renderConcurrent of
                      Inl e \<Rightarrow> Fatal ''splice concurrent: '' (Some e)
                    | Inr updated \<Rightarrow> (case write updated of
                          Some e \<Rightarrow> Fatal ''write readme: '' (Some e)
                        | None \<Rightarrow> Updated updated (length serial) (length concurrent))))))"

end
