(* ===== verification/Bench_Properties.thy ===== *)
theory Bench_Properties
  imports Bench_Report
begin

text \<open>
  The benchmark report: which lines of \<^verbatim>\<open>go test -bench\<close> are read and as what, that a table has one row per
  scenario with the latest result of each backend, and that a run writes its tables between the markers and
  nothing else, so that running it again changes nothing.
\<close>

section \<open>Lines\<close>

lemma benchLine_matches:
  assumes "matches benchLine v gs"
  shows "group gs 1 \<in> {''RW'', ''Concurrent''}" "group gs 2 \<in> {''SQLite'', ''Postgres''}"
    "group gs 3 \<noteq> []" "list_all (\<lambda>c. \<not> re_space c) (group gs 3)" "group gs 4 \<noteq> []"
    "list_all (\<lambda>c. is_digit c \<or> c = CHR ''.'') (group gs 4)" "list_all is_digit (group gs 5)"
  using group_cases [OF assms, of 1] group_cases [OF assms, of 2] group_cases [OF assms, of 3]
    group_cases [OF assms, of 4] group_cases [OF assms, of 5]
  by (auto simp: benchLine_def spaces_def digits_def decimal_def matches_simps)

lemma parse_line_result:
  assumes "parse_line line = Some (kind, r)"
  shows "kind = ''RW'' \<or> kind = ''Concurrent''" "bench_backend r = ''SQLite'' \<or> bench_backend r = ''Postgres''"
    "scenario r \<noteq> []" "list_all (\<lambda>c. \<not> re_space c) (scenario r)"
proof -
  from assms obtain m where m: "submatch benchLine line = Some m" "kind = group m 1"
      "scenario r = group m 3" "bench_backend r = group m 2"
    by (auto simp: parse_line_def split: option.splits)
  from submatch_matches [OF m(1)] obtain v where "matches benchLine v m" by blast
  from benchLine_matches [OF this] show "kind = ''RW'' \<or> kind = ''Concurrent''"
    "bench_backend r = ''SQLite'' \<or> bench_backend r = ''Postgres''"
    "scenario r \<noteq> []" "list_all (\<lambda>c. \<not> re_space c) (scenario r)"
    by (simp_all add: m)
qed

definition readable :: "result \<Rightarrow> bool" where
  "readable r \<longleftrightarrow> list_all (\<lambda>c. \<not> re_space c) (scenario r)"

lemma parse_loop_readable:
  "parse_loop ls serial concurrent = (s, c) \<Longrightarrow> list_all readable serial \<Longrightarrow> list_all readable concurrent \<Longrightarrow>
    list_all readable s \<and> list_all readable c"
proof (induction ls arbitrary: serial concurrent)
  case (Cons l ls)
  show ?case
  proof (cases "parse_line l")
    case None
    with Cons.prems(1) show ?thesis using Cons.IH [OF _ Cons.prems(2,3)] by simp
  next
    case (Some p)
    then obtain kind r where p: "p = (kind, r)" "readable r"
      using parse_line_result(4) by (cases p) (auto simp: readable_def)
    with Some Cons.prems(1) show ?thesis
      using Cons.IH [of "serial @ [r]" concurrent] Cons.IH [of serial "concurrent @ [r]"]
        Cons.IH [of serial concurrent] Cons.prems(2,3) by (simp split: if_splits)
  qed
qed simp

lemma parse_readable: "parse rd = (s, c, e) \<Longrightarrow> list_all readable s \<and> list_all readable c"
  by (auto simp: parse_def Let_def split: prod.splits dest!: parse_loop_readable)

section \<open>A line of \<^verbatim>\<open>go test\<close>\<close>

text \<open>White space and digits exclude each other, so that each run of a line ends where the line says.\<close>

definition blank :: "string \<Rightarrow> bool" where
  "blank w \<longleftrightarrow> w \<noteq> [] \<and> list_all re_space w"

definition number :: "string \<Rightarrow> bool" where
  "number d \<longleftrightarrow> d \<noteq> [] \<and> list_all is_digit d"

lemma digit_no_space: "is_digit c \<Longrightarrow> \<not> re_space c" "re_space c \<Longrightarrow> \<not> is_digit c"
  by (auto simp: re_space_def is_digit_def)

lemma spaces_step [match_steps]:
  "blank w \<Longrightarrow> number d \<Longrightarrow> k gs (d @ rest) = Some x \<Longrightarrow> match_re spaces gs (w @ d @ rest) k = Some x"
  unfolding spaces_def using digit_no_space(1) [of "hd d"]
  by (intro many_step) (auto simp: blank_def number_def neq_Nil_conv)

lemma spaces_lit_step:
  "blank w \<Longrightarrow> l \<noteq> [] \<Longrightarrow> \<not> re_space (hd l) \<Longrightarrow> k gs (l @ rest) = Some x \<Longrightarrow> match_re spaces gs (w @ l @ rest) k = Some x"
  unfolding spaces_def by (intro many_step) (auto simp: blank_def)

lemma digits_step [match_steps]:
  "number d \<Longrightarrow> blank w \<Longrightarrow> k gs (w @ rest) = Some x \<Longrightarrow> match_re digits gs (d @ w @ rest) k = Some x"
  unfolding digits_def using digit_no_space(2) [of "hd w"]
  by (intro many_step) (auto simp: blank_def number_def neq_Nil_conv)

lemma group_digits_step [match_steps]:
  "number d \<Longrightarrow> blank w \<Longrightarrow> k ((i, d) # gs) (w @ rest) = Some x \<Longrightarrow> match_re (Group i digits) gs (d @ w @ rest) k = Some x"
  unfolding digits_def using digit_no_space(2) [of "hd w"]
  by (intro group_many_step) (auto simp: blank_def number_def neq_Nil_conv)

definition decimal_text :: "string \<Rightarrow> bool" where
  "decimal_text d \<longleftrightarrow> d \<noteq> [] \<and> list_all (\<lambda>c. is_digit c \<or> c = CHR ''.'') d"

lemma group_decimal_step [match_steps]:
  "decimal_text d \<Longrightarrow> blank w \<Longrightarrow> k ((i, d) # gs) (w @ rest) = Some x \<Longrightarrow> match_re (Group i decimal) gs (d @ w @ rest) k = Some x"
  unfolding decimal_def using digit_no_space(2) [of "hd w"]
  by (intro group_many_step) (auto simp: blank_def decimal_text_def neq_Nil_conv re_space_def)

lemma nil_step [match_steps]: "k gs s = Some x \<Longrightarrow> match_re (Lit []) gs s k = Some x"
  by (simp add: cut_prefix_def)

lemma spaces_texts [match_steps]:
  "blank w \<Longrightarrow> k gs (''ns/op'' @ rest) = Some x \<Longrightarrow> match_re spaces gs (w @ ''ns/op'' @ rest) k = Some x"
  "blank w \<Longrightarrow> k gs (''B/op'' @ rest) = Some x \<Longrightarrow> match_re spaces gs (w @ ''B/op'' @ rest) k = Some x"
  "blank w \<Longrightarrow> k gs (''allocs/op'' @ rest) = Some x \<Longrightarrow> match_re spaces gs (w @ ''allocs/op'' @ rest) k = Some x"
  by (rule spaces_lit_step; simp add: re_space_def)+

lemma spaces_decimal [match_steps]:
  "blank w \<Longrightarrow> decimal_text d \<Longrightarrow> k gs (d @ rest) = Some x \<Longrightarrow> match_re spaces gs (w @ d @ rest) k = Some x"
  unfolding spaces_def using digit_no_space(1) [of "hd d"]
  by (intro many_step) (auto simp: blank_def decimal_text_def neq_Nil_conv re_space_def is_digit_def)

lemma group_either:
  "t = u \<or> t = v \<and> (\<forall>rest. \<not> has_prefix (v @ rest) u) \<Longrightarrow> k ((i, t) # gs) rest = Some x \<Longrightarrow>
    match_re (Group i (Or (Lit u) (Lit v))) gs (t @ rest) k = Some x"
  by (auto simp: cut_prefix_def)

text \<open>What follows the scenario.\<close>

definition measures :: re where
  "measures = sequence
    [spaces, digits, spaces, Group 4 decimal, spaces, Lit ''ns/op'',
     Opt (sequence [spaces, digits, spaces, Lit ''B/op'']),
     Opt (sequence [spaces, Group 5 digits, spaces, Lit ''allocs/op''])]"

lemma measures_read:
  assumes "blank w1" "blank w2" "blank w3" "blank w4" "blank w5" "blank w6" "blank w7"
    and "number n" "decimal_text ns" "number bytes" "number al"
  shows "match_re measures gs (w1 @ n @ w2 @ ns @ w3 @ ''ns/op'' @ w4 @ bytes @ w5 @ ''B/op'' @ w6 @ al @ w7
      @ ''allocs/op'' @ rest) (\<lambda>gs rest. Some gs) = Some ((5, al) # (4, ns) # gs)"
  unfolding measures_def sequence.simps
  by (rule match_steps assms refl)+

text \<open>The lazy scenario does not end before the number of processors: what is left would begin with neither
  white space nor a dash and digits before white space.\<close>

lemma scenario_not_shorter:
  assumes "b \<noteq> []" "list_all (\<lambda>c. \<not> re_space c) b" "number procs" "blank w"
  shows "match_re (Cat (Opt (Cat (Lit ''-'') digits)) measures) gs (b @ ''-'' @ procs @ w @ tail) k = None"
proof (rule ccontr)
  let ?s = "b @ ''-'' @ procs @ w @ tail"
  assume "match_re (Cat (Opt (Cat (Lit ''-'') digits)) measures) gs ?s k \<noteq> None"
  then obtain v rest hs where v: "?s = v @ rest" "matches (Cat (Opt (Cat (Lit ''-'') digits)) measures) v hs"
    using match_sound by (metis option.exhaust)
  from v(2) obtain p q ps qs where q: "v = p @ q" "matches measures q qs" "matches (Opt (Cat (Lit ''-'') digits)) p ps"
    by (auto simp: matches_simps(4))
  from q(2) obtain ws r where ws: "q = ws @ r" "ws \<noteq> []" "list_all re_space ws"
    unfolding measures_def sequence.simps spaces_def by (auto simp: matches_simps(2,4))
  from q(3) have p: "p = [] \<or> (\<exists>ds. p = CHR ''-'' # ds \<and> list_all is_digit ds)"
    by (auto simp: matches_simps digits_def)
  moreover have dash: "\<not> re_space (CHR ''-'')" by (simp add: re_space_def)
  ultimately have np: "list_all (\<lambda>c. \<not> re_space c) p" using digit_no_space(1) by (auto simp: list_all_iff)
  have "takeWhile (\<lambda>c. \<not> re_space c) (p @ ws @ r @ rest) = p"
    using np ws(2,3) by (cases ws) (simp_all add: list_all_iff takeWhile_append)
  moreover have "takeWhile (\<lambda>c. \<not> re_space c) ?s = b @ ''-'' @ procs"
  proof -
    have "\<forall>c\<in>set (b @ ''-'' @ procs). \<not> re_space c"
      using assms(2,3) digit_no_space(1) dash by (auto simp: list_all_iff number_def)
    then have "takeWhile (\<lambda>c. \<not> re_space c) ((b @ ''-'' @ procs) @ w @ tail) = b @ ''-'' @ procs"
      using assms(4) by (cases w) (simp_all add: takeWhile_append blank_def)
    then show ?thesis by simp
  qed
  ultimately have "p = b @ ''-'' @ procs" using v(1) q(1) ws(1) by simp
  then have "b @ ''-'' @ procs = CHR ''-'' # ds \<Longrightarrow> False" if "list_all is_digit ds" for ds
    using that assms(1) by (cases b) (auto simp: is_digit_def)
  with p \<open>p = b @ ''-'' @ procs\<close> assms(1) show False by auto
qed

lemma submatch_line:
  assumes "blank w1" "blank w2" "blank w3" "blank w4" "blank w5" "blank w6" "blank w7"
    and "number n" "decimal_text ns" "number bytes" "number al" "number procs"
    and "kind = ''RW'' \<or> kind = ''Concurrent''" "db = ''SQLite'' \<or> db = ''Postgres''"
    and scen: "scen \<noteq> []" "list_all (\<lambda>c. \<not> re_space c) scen"
  shows "submatch benchLine (''Benchmark'' @ kind @ ''_'' @ db @ ''_'' @ scen @ ''-'' @ procs @ w1 @ n @ w2 @ ns
      @ w3 @ ''ns/op'' @ w4 @ bytes @ w5 @ ''B/op'' @ w6 @ al @ w7 @ ''allocs/op'' @ rest)
    = Some [(5, al), (4, ns), (3, scen), (2, db), (1, kind)]"
proof -
  let ?tail = "n @ w2 @ ns @ w3 @ ''ns/op'' @ w4 @ bytes @ w5 @ ''B/op'' @ w6 @ al @ w7 @ ''allocs/op'' @ rest"
  let ?k = "\<lambda>gs rest. Some gs :: groups option"
  let ?m = "Cat (Opt (Cat (Lit ''-'') digits)) measures"
  have m: "match_re ?m gs (''-'' @ procs @ w1 @ ?tail) ?k = Some ((5, al) # (4, ns) # gs)" for gs
    by (rule match_steps assms measures_read)+
  have "match_re (Group 3 (Few1 (\<lambda>c. \<not> re_space c))) gs (scen @ ''-'' @ procs @ w1 @ ?tail)
      (\<lambda>gs rest. match_re ?m gs rest ?k) = Some ((5, al) # (4, ns) # (3, scen) # gs)" for gs
  proof (rule group_few_step [OF scen])
    show "match_re ?m ((3, scen) # gs) (''-'' @ procs @ w1 @ ?tail) ?k = Some ((5, al) # (4, ns) # (3, scen) # gs)"
      by (rule m)
    fix a b
    assume b: "scen = a @ b" "a \<noteq> []" "b \<noteq> []"
    show "match_re ?m ((3, a) # gs) (b @ ''-'' @ procs @ w1 @ ?tail) ?k = None"
      by (rule scenario_not_shorter) (use b scen assms in auto)
  qed
  note scenario = this
  have db: "db = ''SQLite'' \<or> db = ''Postgres'' \<and> (\<forall>rest. \<not> has_prefix (''Postgres'' @ rest) ''SQLite'')"
    and kind: "kind = ''RW'' \<or> kind = ''Concurrent'' \<and> (\<forall>rest. \<not> has_prefix (''Concurrent'' @ rest) ''RW'')"
    using assms(13,14) by simp_all
  have line: "benchLine = Cat (Lit ''Benchmark'') (Cat (Group 1 (Or (Lit ''RW'') (Lit ''Concurrent''))) (Cat (Lit ''_'')
      (Cat (Group 2 (Or (Lit ''SQLite'') (Lit ''Postgres''))) (Cat (Lit ''_'')
        (Cat (Group 3 (Few1 (\<lambda>c. \<not> re_space c))) ?m)))))"
    by (simp add: benchLine_def measures_def)
  show ?thesis unfolding submatch_def line
    by (rule cat_step lit_step group_either [OF kind] group_either [OF db] scenario)+
qed

definition go_line :: "string \<Rightarrow> string \<Rightarrow> string \<Rightarrow> string \<Rightarrow> string \<Rightarrow> string \<Rightarrow> string \<Rightarrow> string \<Rightarrow> string" where
  "go_line kind db scen procs n ns bytes al =
     ''Benchmark'' @ kind @ ''_'' @ db @ ''_'' @ scen @ ''-'' @ procs @ [CHR 0x09] @ n @ [CHR 0x09] @ ns
     @ '' '' @ ''ns/op'' @ [CHR 0x09] @ bytes @ '' '' @ ''B/op'' @ [CHR 0x09] @ al @ '' '' @ ''allocs/op'' @ []"

text \<open>A line that \<^verbatim>\<open>go test -benchmem\<close> writes for one of the benchmarks is read as what it says: the name without
  the number of processors, whatever dashes and digits it has, the time per operation and the allocations.\<close>

lemma go_line_read:
  assumes "number n" "decimal_text ns" "number bytes" "number al" "number procs"
    and "kind = ''RW'' \<or> kind = ''Concurrent''" "db = ''SQLite'' \<or> db = ''Postgres''"
    and "scen \<noteq> []" "list_all (\<lambda>c. \<not> re_space c) scen" and f: "ParseFloat ns = Some f"
  shows "parse_line (go_line kind db scen procs n ns bytes al)
    = Some (kind, \<lparr>scenario = scen, bench_backend = db, nsPerOp = f, allocs = ParseInt al\<rparr>)"
proof -
  have tab: "blank [CHR 0x09]" "blank '' ''" by (simp_all add: blank_def re_space_def)
  have "submatch benchLine (go_line kind db scen procs n ns bytes al) = Some [(5, al), (4, ns), (3, scen), (2, db), (1, kind)]"
    unfolding go_line_def by (rule submatch_line tab assms)+
  with f assms(4) show ?thesis by (simp add: parse_line_def group_def number_def)
qed

section \<open>Groups\<close>

text \<open>The reference: the scenarios in the order of their first results, each with the latest result of
  either backend.\<close>

definition latest :: "result list \<Rightarrow> string \<Rightarrow> string \<Rightarrow> result option" where
  "latest rs s b = find (\<lambda>r. scenario r = s \<and> bench_backend r = b) (rev rs)"

definition first_seen :: "result list \<Rightarrow> string list" where
  "first_seen rs = rev (remdups (rev (map scenario rs)))"

definition latest_groups :: "result list \<Rightarrow> group_row list" where
  "latest_groups rs = map (\<lambda>s. (latest rs s ''SQLite'', latest rs s ''Postgres'')) (first_seen rs)"

lemma remdups_snoc: "remdups (xs @ [x]) = remdups (filter (\<lambda>y. y \<noteq> x) xs) @ [x]"
  by (induction xs) auto

lemma first_seen_Cons: "first_seen (r # rs) = scenario r # filter (\<lambda>s. s \<noteq> scenario r) (first_seen rs)"
  by (simp add: first_seen_def remdups_snoc rev_filter remdups_filter)

lemma seen_order_eq: "seen_order rs order = order @ filter (\<lambda>s. s \<notin> set order) (first_seen rs)"
proof (induction rs arbitrary: order)
  case (Cons r rs)
  show ?case
  proof (cases "scenario r \<in> set order")
    case True
    then have "filter (\<lambda>s. s \<notin> set order) (filter (\<lambda>s. s \<noteq> scenario r) (first_seen rs))
      = filter (\<lambda>s. s \<notin> set order) (first_seen rs)"
      unfolding filter_filter by (intro filter_cong) auto
    with True Cons.IH [of order] show ?thesis by (simp add: first_seen_Cons)
  next
    case False
    with Cons.IH [of "order @ [scenario r]"] show ?thesis
      by (simp add: first_seen_Cons filter_filter conj_commute)
  qed
qed (simp add: first_seen_def)

lemma distinct_first_seen: "distinct (first_seen rs)"
  by (simp add: first_seen_def)

lemma set_first_seen: "set (first_seen rs) = scenario ` set rs"
  by (simp add: first_seen_def)

lemma index_in_nth: "s \<in> set xs \<Longrightarrow> index_in s xs < length xs \<and> xs ! index_in s xs = s"
  by (induction xs) auto

lemma index_in_unique: "distinct xs \<Longrightarrow> i < length xs \<Longrightarrow> index_in (xs ! i) xs = i"
proof (induction xs arbitrary: i)
  case (Cons x xs)
  then show ?case by (cases i) auto
qed simp

lemma latest_snoc:
  "latest (rs @ [r]) s b = (if scenario r = s \<and> bench_backend r = b then Some r else latest rs s b)"
  by (simp add: latest_def)

text \<open>The loop keeps one row per scenario of \<open>order\<close>, holding the latest of the results filled so far.\<close>

lemma fill_groups_latest:
  assumes "distinct order" "scenario ` set rs \<subseteq> set order"
    and "out = map (\<lambda>s. (latest done s ''SQLite'', latest done s ''Postgres'')) order"
  shows "fill_groups order rs out
    = map (\<lambda>s. (latest (done @ rs) s ''SQLite'', latest (done @ rs) s ''Postgres'')) order"
  using assms(2,3)
proof (induction rs arbitrary: out "done")
  case (Cons r rs)
  let ?f = "\<lambda>d s. (latest d s ''SQLite'', latest d s ''Postgres'')"
  let ?i = "index_in (scenario r) order"
  have i: "?i < length order" "order ! ?i = scenario r" using Cons.prems(1) index_in_nth by auto
  have len: "length out = length order" using Cons.prems(2) by simp
  have out: "out ! j = ?f done (order ! j)" if "j < length order" for j using that Cons.prems(2) by simp
  have other: "j = ?i" if "j < length order" "order ! j = scenario r" for j
    using index_in_unique [OF assms(1) that(1)] that(2) by simp
  let ?out = "if bench_backend r = ''SQLite'' then out[?i := (Some r, snd (out ! ?i))]
    else if bench_backend r = ''Postgres'' then out[?i := (fst (out ! ?i), Some r)] else out"
  have step: "?out = map (?f (done @ [r])) order"
  proof (rule nth_equalityI)
    fix j
    assume "j < length ?out"
    then have j: "j < length order" by (simp add: len split: if_splits)
    show "?out ! j = map (?f (done @ [r])) order ! j"
    proof (cases "j = ?i")
      case True
      with i out [OF i(1)] show ?thesis by (simp add: len latest_snoc)
    next
      case False
      with other [OF j] have "scenario r \<noteq> order ! j" by auto
      with False j out [OF j] show ?thesis by (simp add: len latest_snoc)
    qed
  qed (simp add: len)
  have "fill_groups order (r # rs) out = fill_groups order rs ?out"
    by (simp add: Let_def split_def)
  also have "\<dots> = map (?f ((done @ [r]) @ rs)) order"
    by (rule Cons.IH) (use Cons.prems(1) step in auto)
  finally show ?case by simp
qed simp

lemma groups_are_latest: "groupByScenario rs = latest_groups rs"
proof -
  have order: "seen_order rs [] = first_seen rs" by (simp add: seen_order_eq)
  have "replicate n (None, None) = map (\<lambda>s. (latest [] s ''SQLite'', latest [] s ''Postgres'')) (first_seen rs)"
    if "n = length (first_seen rs)" for n
    using that by (simp add: latest_def map_replicate_const)
  from fill_groups_latest [OF distinct_first_seen _ this] show ?thesis
    by (simp add: groupByScenario_def Let_def order set_first_seen latest_groups_def)
qed

lemma sort_const [simp]: "sort_key scenarioOrderKey xs = xs"
proof (induction xs)
  case (Cons x xs)
  then show ?case by (cases xs) (simp_all add: scenarioOrderKey_def)
qed simp

section \<open>Markers\<close>

text \<open>The first occurrence of a marker is looked for piece by piece: a marker begins with the one \<open><\<close> it has and
  holds no line end.\<close>

definition marker :: "string \<Rightarrow> bool" where
  "marker m \<longleftrightarrow> m \<noteq> [] \<and> hd m = CHR ''<'' \<and> CHR ''<'' \<notin> set (tl m) \<and> CHR 0x0A \<notin> set (tl m)"

definition free :: "string \<Rightarrow> string \<Rightarrow> bool" where
  "free m s \<longleftrightarrow> str_index s m = None"

lemma index_here [simp]: "str_index (m @ q) m = Some 0"
  using has_prefix_append [of m q] by (cases m; cases q) auto

lemma shift_zero [simp]: "map_option ((+) (0::nat)) x = x"
  by (cases x) simp_all

lemma shift_Suc: "map_option ((+) (Suc n)) x = map_option (\<lambda>i. Suc (n + i)) x"
  by (cases x) simp_all

lemma prefix_inside:
  "has_prefix (u @ c # q) m \<Longrightarrow> u \<noteq> [] \<Longrightarrow> c \<notin> set (tl m) \<Longrightarrow> has_prefix u m"
proof (induction u m rule: has_prefix.induct)
  case (3 d ds p ps)
  show ?case
  proof (cases "ds = []")
    case True
    with 3 show ?thesis by (cases ps) auto
  next
    case False
    from 3(4) have "c \<notin> set (tl ps)" by (cases ps) auto
    with 3 False show ?thesis by simp
  qed
qed simp_all

lemma index_free:
  assumes "marker m" "c = CHR ''<'' \<or> c = CHR 0x0A"
  shows "free m p \<Longrightarrow> str_index (p @ c # q) m = map_option ((+) (length p)) (str_index (c # q) m)"
proof (induction p)
  case (Cons d p)
  have "c \<notin> set (tl m)" using assms by (auto simp: marker_def)
  then have "\<not> has_prefix ((d # p) @ c # q) m" using Cons.prems prefix_inside [of "d # p" c q m]
    by (auto simp: free_def split: if_splits)
  moreover have "free m p" using Cons.prems by (auto simp: free_def split: if_splits)
  ultimately show ?case using Cons.IH by (simp add: option.map_comp comp_def shift_Suc)
qed simp

lemma index_skip: "marker m \<Longrightarrow> CHR ''<'' \<notin> set t \<Longrightarrow> str_index (t @ q) m = map_option ((+) (length t)) (str_index q m)"
proof (induction t)
  case (Cons d t)
  then have "\<not> has_prefix ((d # t) @ q) m" by (cases m) (auto simp: marker_def)
  with Cons show ?case by (simp add: option.map_comp comp_def shift_Suc)
qed simp

text \<open>Two different markers differ before either ends.\<close>

definition apart :: "string \<Rightarrow> string \<Rightarrow> bool" where
  "apart m n \<longleftrightarrow> list_ex (\<lambda>(c, d). c \<noteq> d) (zip m n)"

lemma index_other:
  assumes "marker m" "marker n" "apart m n"
  shows "str_index (n @ q) m = map_option ((+) (length n)) (str_index q m)"
proof -
  obtain i where i: "i < length m" "i < length n" "m ! i \<noteq> n ! i" using assms(3) by (auto simp: apart_def list_ex_iff set_zip)
  have no: "\<not> has_prefix (n @ q) m"
  proof
    assume "has_prefix (n @ q) m"
    then have "take (length m) (n @ q) = m" by (simp add: has_prefix_take)
    then have "m ! i = (n @ q) ! i" using i(1) by (metis nth_take)
    with i show False by (simp add: nth_append)
  qed
  obtain c t where n: "n = c # t" using assms(2) by (cases n) (auto simp: marker_def)
  then have "str_index (t @ q) m = map_option ((+) (length t)) (str_index q m)"
    using assms(2) by (intro index_skip [OF assms(1)]) (simp add: marker_def)
  with no n show ?thesis by (simp add: option.map_comp comp_def shift_Suc)
qed

lemma free_append:
  "marker m \<Longrightarrow> c = CHR ''<'' \<or> c = CHR 0x0A \<Longrightarrow> free m p \<Longrightarrow> free m (c # q) \<Longrightarrow> free m (p @ c # q)"
  using index_free [of m c p q] by (simp add: free_def)

lemma free_marker: "marker m \<Longrightarrow> marker n \<Longrightarrow> apart m n \<Longrightarrow> free m q \<Longrightarrow> free m (n @ q)"
  using index_other [of m n q] by (simp add: free_def)

lemma marker_Cons: "marker n \<Longrightarrow> \<exists>t. n = CHR ''<'' # t"
  by (cases n) (auto simp: marker_def)

lemma index_before_marker:
  "marker m \<Longrightarrow> marker n \<Longrightarrow> free m p \<Longrightarrow> str_index (p @ n @ q) m = map_option ((+) (length p)) (str_index (n @ q) m)"
  using index_free [of m "CHR ''<''" p] marker_Cons [of n] by auto

lemma free_before_marker:
  "marker m \<Longrightarrow> marker n \<Longrightarrow> apart m n \<Longrightarrow> free m p \<Longrightarrow> free m q \<Longrightarrow> free m (p @ n @ q)"
  using index_before_marker [of m n p q] free_marker [of m n q] by (simp add: free_def)

text \<open>The region between the first start marker and the first end marker is replaced.\<close>

lemma splice_region:
  assumes "marker s" "marker e" "apart e s" "free s a" "free e a" "free e x"
  shows "splice (a @ s @ x @ e @ b) s e r = Inr (a @ s @ line_end @ r @ line_end @ e @ b)"
proof -
  have "str_index (a @ s @ x @ e @ b) s = Some (length a)"
    using index_before_marker [OF assms(1,1,4)] by simp
  moreover have "str_index (a @ s @ x @ e @ b) e = Some (length a + (length s + length x))"
    using index_before_marker [OF assms(2,1,5)] index_other [OF assms(2,1,3)] index_before_marker [OF assms(2,2,6)]
    by simp
  ultimately show ?thesis by (simp add: splice_def)
qed

section \<open>Tables hold no marker\<close>

text \<open>In a table a dash and a space are followed by a bar; in a marker they are not.\<close>

fun bar_next :: "string \<Rightarrow> bool" where
  "bar_next (c # d # s) = (c = CHR '' '' \<longrightarrow> d = CHR ''|'')"
| "bar_next [c] = (c \<noteq> CHR '' '')"
| "bar_next [] = True"

fun calm :: "string \<Rightarrow> bool" where
  "calm [] = True"
| "calm (c # s) = ((c = CHR ''-'' \<longrightarrow> bar_next s) \<and> calm s)"

lemma calm_plain [simp]: "CHR ''-'' \<notin> set xs \<Longrightarrow> calm (xs @ ys) = calm ys"
  by (induction xs) auto

lemma bar_next_word: "CHR '' '' \<notin> set xs \<Longrightarrow> bar_next ys \<Longrightarrow> bar_next (xs @ ys)"
  by (cases xs; cases "tl xs @ ys") auto

lemma calm_word: "CHR '' '' \<notin> set xs \<Longrightarrow> bar_next ys \<Longrightarrow> calm ys \<Longrightarrow> calm (xs @ ys)"
  by (induction xs) (auto simp: bar_next_word)

lemma calm_label:
  assumes "list_all (\<lambda>c. \<not> re_space c) s" "bar_next ys" "calm ys"
  shows "calm (humanScenario s @ ys)"
proof (cases "map_of scenario_labels s")
  case None
  moreover have "CHR '' '' \<notin> set s" using assms(1) by (auto simp: list_all_iff re_space_def)
  ultimately show ?thesis using assms(2,3) by (simp add: humanScenario_def calm_word)
next
  case (Some l)
  have "list_all (\<lambda>(k, l). CHR ''-'' \<notin> set l) scenario_labels" by (simp add: scenario_labels_def)
  with map_of_SomeD [OF Some] have "CHR ''-'' \<notin> set l" by (auto simp: list_all_iff)
  with Some assms(3) show ?thesis by (simp add: humanScenario_def)
qed

lemma no_dash_number: "CHR ''-'' \<notin> set (format_fixed k f)"
  using set_format_fixed [of "CHR ''-''" k f] by (auto simp: is_digit_def)

lemma calm_duration [simp]: "calm (cell r formatDuration @ ys) = calm ys"
  by (rule calm_plain) (simp add: cell_def formatDuration_def micro_def em_dash_def no_dash_number split: option.split)

lemma calm_throughput [simp]: "calm (cell r formatThroughput @ ys) = calm ys"
  by (rule calm_plain)
    (simp add: cell_def formatThroughput_def em_dash_def no_dash_number Let_def split: option.split)

lemma calm_allocs: "bar_next ys \<Longrightarrow> calm ys \<Longrightarrow> calm (cellAllocs r @ ys)"
proof (rule calm_word)
  have "CHR '' '' \<notin> set (dec n)" for n using dec_digits [of "CHR '' ''" n] by (auto simp: is_digit_def)
  then show "CHR '' '' \<notin> set (cellAllocs r)"
    by (simp add: cellAllocs_def em_dash_def dec_int.simps split: option.split)
qed

definition readable_row :: "group_row \<Rightarrow> bool" where
  "readable_row g \<longleftrightarrow> list_all (\<lambda>c. \<not> re_space c) (group_name g)"

lemma calm_rows:
  assumes "calm ys"
  shows "readable_row g \<Longrightarrow> calm (serial_row g @ ys)" "readable_row g \<Longrightarrow> calm (concurrent_row g @ ys)"
  using assms by (simp_all add: serial_row_def concurrent_row_def line_end_def readable_row_def calm_label calm_allocs)

lemma calm_tables:
  assumes "calm ys" "list_all readable_row gs"
  shows "calm (concat (map serial_row gs) @ ys)" "calm (concat (map concurrent_row gs) @ ys)"
  using assms by (induction gs) (simp_all add: calm_rows)

lemma latest_readable: "list_all readable rs \<Longrightarrow> latest rs s b = Some r \<Longrightarrow> readable r"
  by (auto simp: latest_def find_Some_iff list_all_iff) (metis length_rev nth_mem set_rev)

lemma latest_groups_readable:
  assumes "list_all readable rs"
  shows "list_all readable_row (latest_groups rs)"
proof -
  have "readable_row (latest rs s b, latest rs s b')" for s b b'
    using latest_readable [OF assms, of s b] latest_readable [OF assms, of s b']
    by (auto simp: readable_row_def group_name_def readable_def split: option.split)
  then show ?thesis by (simp add: latest_groups_def list_all_iff)
qed

definition report_markers :: "string list" where
  "report_markers = [serial_start, serial_end, concurrent_start, concurrent_end]"

lemmas marker_texts = report_markers_def serial_start_def serial_end_def concurrent_start_def concurrent_end_def

lemma report_markers: "m \<in> set report_markers \<Longrightarrow> marker m"
  by (auto simp: marker_texts marker_def)

lemma marker_not_calm: "m \<in> set report_markers \<Longrightarrow> \<not> calm (m @ q)"
  by (auto simp: marker_texts)

lemma calm_free:
  assumes "m \<in> set report_markers"
  shows "calm s \<Longrightarrow> free m s"
proof (induction s)
  case Nil
  with report_markers [OF assms] show ?case by (simp add: free_def marker_def)
next
  case (Cons c s)
  have "\<not> has_prefix (c # s) m"
  proof
    assume "has_prefix (c # s) m"
    from has_prefix_split [OF this] Cons.prems marker_not_calm [OF assms] show False by metis
  qed
  with Cons show ?case by (simp add: free_def)
qed

section \<open>The report\<close>

definition serial_header :: string where
  "serial_header = ''| Scenario | SQLite | Postgres | SQLite allocs | Postgres allocs |'' @ line_end
     @ ''|---|---:|---:|---:|---:|'' @ line_end"

definition concurrent_header :: string where
  "concurrent_header = ''| Scenario | SQLite | Postgres |'' @ line_end @ ''|---|---:|---:|'' @ line_end"

text \<open>What a region holds after a run.\<close>

definition new_region :: "string \<Rightarrow> (group_row \<Rightarrow> string) \<Rightarrow> result list \<Rightarrow> string \<Rightarrow> string" where
  "new_region header row rs old =
     (if rs = [] then old else line_end @ (header @ concat (map row (latest_groups rs))) @ line_end)"

definition readme :: "string \<Rightarrow> string \<Rightarrow> string \<Rightarrow> string \<Rightarrow> string \<Rightarrow> string" where
  "readme a x b y c = a @ serial_start @ x @ serial_end @ b @ concurrent_start @ y @ concurrent_end @ c"

lemma rendered:
  "renderSerial rs = serial_header @ concat (map serial_row (latest_groups rs))"
  "renderConcurrent rs = concurrent_header @ concat (map concurrent_row (latest_groups rs))"
  by (simp_all add: renderSerial_def renderConcurrent_def serial_header_def concurrent_header_def groups_are_latest)

lemma new_region_free:
  assumes "m \<in> set report_markers" "list_all readable rs"
  shows "free m old \<Longrightarrow> free m (new_region serial_header serial_row rs old)"
    "free m old \<Longrightarrow> free m (new_region concurrent_header concurrent_row rs old)"
proof -
  have nl: "calm line_end" by (simp add: line_end_def)
  have "calm (line_end @ (serial_header @ concat (map serial_row (latest_groups rs))) @ line_end)"
    "calm (line_end @ (concurrent_header @ concat (map concurrent_row (latest_groups rs))) @ line_end)"
    using calm_tables [OF nl latest_groups_readable [OF assms(2)]]
    by (simp_all add: serial_header_def concurrent_header_def line_end_def)
  then show "free m old \<Longrightarrow> free m (new_region serial_header serial_row rs old)"
    "free m old \<Longrightarrow> free m (new_region concurrent_header concurrent_row rs old)"
    using calm_free [OF assms(1)] by (auto simp: new_region_def)
qed

lemma markers_apart: "m \<in> set report_markers \<Longrightarrow> n \<in> set report_markers \<Longrightarrow> m \<noteq> n \<Longrightarrow> apart m n"
proof -
  have "list_all (\<lambda>m. list_all (\<lambda>n. m = n \<or> apart m n) report_markers) report_markers"
    by (simp add: marker_texts apart_def)
  then show "m \<in> set report_markers \<Longrightarrow> n \<in> set report_markers \<Longrightarrow> m \<noteq> n \<Longrightarrow> apart m n"
    by (auto simp: list_all_iff)
qed

lemma known_markers [simp]:
  "serial_start \<in> set report_markers" "serial_end \<in> set report_markers"
  "concurrent_start \<in> set report_markers" "concurrent_end \<in> set report_markers"
  by (simp_all add: report_markers_def)

lemma distinct_markers:
  "serial_end \<noteq> serial_start" "concurrent_end \<noteq> concurrent_start" "concurrent_start \<noteq> serial_start"
  "concurrent_start \<noteq> serial_end" "concurrent_end \<noteq> serial_start" "concurrent_end \<noteq> serial_end"
  by (simp_all add: marker_texts)

definition outside :: "string \<Rightarrow> bool" where
  "outside s \<longleftrightarrow> (\<forall>m\<in>set report_markers. free m s)"

lemma serial_spliced:
  assumes "outside a" "outside x"
  shows "splice_table (readme a x b y c) serial_start serial_end rs renderSerial
    = Inr (readme a (new_region serial_header serial_row rs x) b y c)"
proof -
  have "splice (a @ serial_start @ x @ serial_end @ r) serial_start serial_end t
    = Inr (a @ serial_start @ line_end @ t @ line_end @ serial_end @ r)" for r t
    by (rule splice_region) (use assms in \<open>simp_all add: outside_def report_markers markers_apart distinct_markers\<close>)
  then show ?thesis by (simp add: splice_table_def readme_def new_region_def rendered)
qed

lemma concurrent_spliced:
  assumes "outside a" "outside x" "outside b" "outside y"
  shows "splice_table (readme a x b y c) concurrent_start concurrent_end rs renderConcurrent
    = Inr (readme a x b (new_region concurrent_header concurrent_row rs y) c)"
proof -
  let ?p = "a @ serial_start @ x @ serial_end @ b"
  have "free m ?p" if m: "m \<in> {concurrent_start, concurrent_end}" for m
  proof -
    from m have k: "marker m" "apart m serial_start" "apart m serial_end" "m \<in> set report_markers"
      by (auto simp: report_markers markers_apart distinct_markers)
    from assms k(4) have f: "free m a" "free m x" "free m b" by (auto simp: outside_def)
    have "free m (x @ serial_end @ b)"
      by (rule free_before_marker [OF k(1) _ k(3) f(2,3)]) (simp add: report_markers)
    then show ?thesis by (intro free_before_marker [OF k(1) _ k(2) f(1)]) (simp_all add: report_markers)
  qed
  then have "splice (?p @ concurrent_start @ y @ concurrent_end @ r) concurrent_start concurrent_end t
    = Inr (?p @ concurrent_start @ line_end @ t @ line_end @ concurrent_end @ r)" for r t
    by (intro splice_region) (use assms in \<open>simp_all add: outside_def report_markers markers_apart distinct_markers\<close>)
  then show ?thesis by (simp add: splice_table_def readme_def new_region_def rendered)
qed

text \<open>C40. A run of the report on a README with the two pairs of markers replaces the text between a pair by
  the table of its results, one row per scenario in the order of the benchmark output with the latest
  result of each backend, keeps everything else byte for byte, keeps a region without results, and a
  second run on the same output changes nothing.\<close>

theorem report_replaces_its_regions:
  assumes "parse stdin = (serial, concurrent, None)" "serial \<noteq> [] \<or> concurrent \<noteq> []"
    and "outside a" "outside x" "outside b" "outside y"
  shows "(let x' = new_region serial_header serial_row serial x;
              y' = new_region concurrent_header concurrent_row concurrent y;
              done = Updated (readme a x' b y' c) (length serial) (length concurrent)
     in bench_main stdin (Inr (readme a x b y c)) (\<lambda>_. None) = done
      \<and> bench_main stdin (Inr (readme a x' b y' c)) (\<lambda>_. None) = done)"
proof -
  let ?x = "new_region serial_header serial_row serial x"
  let ?y = "new_region concurrent_header concurrent_row concurrent y"
  have out: "outside ?x" "outside ?y"
    using new_region_free parse_readable [OF assms(1)] assms(4,6) by (auto simp: outside_def)
  have run: "bench_main stdin (Inr (readme a u b v c)) (\<lambda>_. None)
      = Updated (readme a (new_region serial_header serial_row serial u) b
          (new_region concurrent_header concurrent_row concurrent v) c) (length serial) (length concurrent)"
    if "outside u" "outside v" for u v
  proof -
    have "outside (new_region serial_header serial_row serial u)"
      using new_region_free(1) parse_readable [OF assms(1)] that(1) by (auto simp: outside_def)
    with that assms show ?thesis by (auto simp: bench_main_def serial_spliced concurrent_spliced)
  qed
  have "new_region serial_header serial_row serial ?x = ?x" "new_region concurrent_header concurrent_row concurrent ?y = ?y"
    by (simp_all add: new_region_def)
  with run [OF assms(4,6)] run [OF out] show ?thesis by (simp add: Let_def)
qed

text \<open>One line of output, and a README with empty regions.\<close>

lemma one_line:
  "parse (go_line ''RW'' ''SQLite'' ''Insert'' ''8'' ''90'' ''136'' ''28'' ''3'' @ line_end, None)
    = ([\<lparr>scenario = ''Insert'', bench_backend = ''SQLite'', nsPerOp = Fin 136, allocs = 3\<rparr>], [], None)"
proof -
  have "ParseFloat ''136'' = Some (Fin 136)"
    by (simp add: ParseFloat_def digits_value_def digit_value_def is_digit_def round_f64_def floor_log2_def pow2_def
        half_even_def bit_length.simps Let_def)
  then have "parse_line (go_line ''RW'' ''SQLite'' ''Insert'' ''8'' ''90'' ''136'' ''28'' ''3'')
    = Some (''RW'', \<lparr>scenario = ''Insert'', bench_backend = ''SQLite'', nsPerOp = Fin 136, allocs = 3\<rparr>)"
    by (subst go_line_read)
      (simp_all add: number_def decimal_text_def is_digit_def re_space_def ParseInt_def digits_value_def digit_value_def)
  moreover have "scan (go_line ''RW'' ''SQLite'' ''Insert'' ''8'' ''90'' ''136'' ''28'' ''3'' @ line_end, None)
    = ([go_line ''RW'' ''SQLite'' ''Insert'' ''8'' ''90'' ''136'' ''28'' ''3''], None)"
    by (simp add: scan_def scan_lines_def go_line_def line_end_def dropCR_def maxTokenSize_def Let_def)
  ultimately show ?thesis by (simp add: parse_def)
qed

theorem report_replaces_its_regions_witness:
  "\<exists>x' y'. bench_main (go_line ''RW'' ''SQLite'' ''Insert'' ''8'' ''90'' ''136'' ''28'' ''3'' @ line_end, None)
      (Inr (readme ''# Den'' [] [] [] [])) (\<lambda>_. None) = Updated (readme ''# Den'' x' [] y' []) 1 0"
proof -
  have "outside []" "outside ''# Den''" by (simp_all add: outside_def free_def marker_texts)
  then show ?thesis
    using report_replaces_its_regions [OF one_line, of "''# Den''" "[]" "[]" "[]" "[]"] by (auto simp: Let_def)
qed

end
