(* ===== verification/Blob_Storage.thy ===== *)
theory Blob_Storage
  imports File_Concurrency
begin

text \<open>
  The storage interface (\<^verbatim>\<open>storage/storage.go\<close>): its operations as a record of programs over the state of the
  storage and the engine's loop over \<open>Delete\<close> (\<^verbatim>\<open>engine/attachments.go\<close>). What its comments promise is the
  locale \<open>blob_storage\<close>; the file storage satisfies it.
\<close>

section \<open>The interface\<close>

text \<open>\<open>'h\<close> is the type of the readers that \<open>Open\<close> returns.\<close>

record ('w, 'h) storage =
  so_Store :: "reader \<Rightarrow> string \<Rightarrow> string \<Rightarrow> ('w, attachment) prog"
  so_Open :: "attachment \<Rightarrow> ('w, 'h) prog"
  so_Delete :: "attachment \<Rightarrow> ('w, unit) prog"
  so_URL :: "attachment \<Rightarrow> string"

text \<open>The loop of \<open>cleanupAttachments\<close>: an error of \<open>Delete\<close> is logged and the loop goes on.\<close>

definition logged :: "('w, unit) prog \<Rightarrow> ('w, unit) prog" where
  "logged m = (\<lambda>w. case m w of (Err e, w') \<Rightarrow> (Ok (), w') | rw \<Rightarrow> rw)"

definition delete_bytes :: "('w, 'h) storage \<Rightarrow> attachment list \<Rightarrow> ('w, unit) prog" where
  "delete_bytes st attachments = forP (\<lambda>a. logged (so_Delete st a)) attachments"

lemma delete_bytes_Nil [simp]: "delete_bytes st [] w = (Ok (), w)"
  by (simp add: delete_bytes_def returnP_def)

lemma delete_bytes_Cons:
  "delete_bytes st (a # as) w = (case so_Delete st a w of
      (Panic p, w') \<Rightarrow> (Panic p, w') | (_, w') \<Rightarrow> delete_bytes st as w')"
  by (simp add: delete_bytes_def logged_def bindP_def split: prod.split outcome.split)

section \<open>The contract\<close>

text \<open>\<open>opens w a\<close>: the bytes an \<open>Open\<close> of \<open>a\<close> gives to read; \<open>good\<close>: an invariant of the storage; \<open>addressed\<close>:
  the attachments that name an object; \<open>quiet\<close>: no call fails from now on.\<close>

locale blob_storage =
  fixes st :: "('w, 'h) storage"
    and good :: "'w \<Rightarrow> bool" and addressed :: "attachment \<Rightarrow> bool"
    and quiet :: "'w \<Rightarrow> bool" and opens :: "'w \<Rightarrow> attachment \<Rightarrow> string option"
    and accepted :: "string \<Rightarrow> bool"
  assumes by_path: "StoragePath a = StoragePath b \<Longrightarrow> opens w a = opens w b"
    and by_path_addressed: "StoragePath a = StoragePath b \<Longrightarrow> addressed a = addressed b"
    and delete_good: "good w \<Longrightarrow> so_Delete st a w = (r, w') \<Longrightarrow> good w' \<and> (\<forall>p. r \<noteq> Panic p)"
    and delete_quiet: "quiet w \<Longrightarrow> so_Delete st a w = (r, w') \<Longrightarrow> quiet w'"
    and delete_gone: "good w \<Longrightarrow> addressed a \<Longrightarrow> so_Delete st a w = (r, w') \<Longrightarrow> is_ok r \<or> quiet w \<Longrightarrow> opens w' a = None"
    and delete_failed: "so_Delete st a w = (r, w') \<Longrightarrow> \<not> is_ok r \<Longrightarrow> opens w' b = opens w b"
    and delete_other: "good w \<Longrightarrow> addressed a \<Longrightarrow> addressed b \<Longrightarrow> StoragePath a \<noteq> StoragePath b
      \<Longrightarrow> so_Delete st a w = (r, w') \<Longrightarrow> opens w' b = opens w b"
    and store_good: "good w \<Longrightarrow> accepted ext \<Longrightarrow> so_Store st rd ext mime w = (q, w') \<Longrightarrow> good w'"
    and store_keeps: "good w \<Longrightarrow> accepted ext \<Longrightarrow> so_Store st rd ext mime w = (q, w') \<Longrightarrow> opens w a = Some x \<Longrightarrow> opens w' a = Some x"
    and store_opens: "good w \<Longrightarrow> accepted ext \<Longrightarrow> so_Store st rd ext mime w = (Ok a, w')
      \<Longrightarrow> addressed a \<and> opens w' a = Some (case opens w a of None \<Rightarrow> concat (rd_pieces rd) | Some old \<Rightarrow> old)"
begin

lemma delete_one:
  assumes "good w" and "addressed a" and "addressed b" and "so_Delete st a w = (r, w')"
  shows "opens w' b = opens w b \<or> (StoragePath b = StoragePath a \<and> opens w' b = None)"
  using delete_other [OF assms(1-3) _ assms(4)] delete_failed [OF assms(4)] delete_gone [OF assms(1,2,4)]
    by_path [of a b w'] by (cases "is_ok r") metis+

text \<open>The loop: it keeps every object it is not told to delete, and takes the others away where no call fails.\<close>

lemma cleanup:
  assumes "good w" and "\<forall>a \<in> set as. addressed a" and "delete_bytes st as w = (r, w')"
  shows "r = Ok () \<and> good w' \<and> (quiet w \<longrightarrow> quiet w')
    \<and> (\<forall>b. addressed b \<longrightarrow> opens w' b = opens w b \<or> (StoragePath b \<in> StoragePath ` set as \<and> opens w' b = None))
    \<and> (\<forall>b. quiet w \<longrightarrow> addressed b \<longrightarrow> StoragePath b \<in> StoragePath ` set as \<longrightarrow> opens w' b = None)"
  using assms
proof (induction as arbitrary: w)
  case (Cons a as)
  obtain q w1 where d: "so_Delete st a w = (q, w1)" by fastforce
  note g = delete_good [OF Cons.prems(1) d]
  then have loop: "delete_bytes st as w1 = (r, w')"
    using Cons.prems(3) d by (cases q) (simp_all add: delete_bytes_Cons)
  have a: "addressed a" using Cons.prems(2) by simp
  have rest: "\<forall>x \<in> set as. addressed x" using Cons.prems(2) by simp
  note IH = Cons.IH [OF conjunct1 [OF g] rest loop]
  have keep: "opens w' b = opens w b \<or> (StoragePath b \<in> StoragePath ` set (a # as) \<and> opens w' b = None)" if "addressed b" for b
    using IH delete_one [OF Cons.prems(1) a that d] that by auto
  have gone: "opens w' b = None" if "quiet w" "addressed b" "StoragePath b \<in> StoragePath ` set (a # as)" for b
  proof (cases "StoragePath b \<in> StoragePath ` set as")
    case True
    then show ?thesis using IH that delete_quiet [OF that(1) d] by blast
  next
    case False
    then have "StoragePath a = StoragePath b" using that(3) by auto
    then have "opens w1 b = None" using delete_gone [OF Cons.prems(1) a d] that(1) by_path by metis
    then show ?thesis using IH that(2) by metis
  qed
  show ?case using IH delete_quiet [OF _ d] keep gone by blast
qed simp

text \<open>A second document that holds the path of a deleted one: its bytes are gone, whoever stored them.\<close>

lemma stored_then_cleaned:
  assumes "good w" and "accepted ext" and "so_Store st rd ext mime w = (Ok a, w1)" and "StoragePath b = StoragePath a"
    and "delete_bytes st [b] w1 = (r, w2)" and "quiet w1"
  shows "opens w1 b \<noteq> None \<and> opens w2 a = None"
proof -
  have s: "addressed a" "opens w1 a \<noteq> None" using store_opens [OF assms(1-3)] by auto
  then have "addressed b" "opens w1 b \<noteq> None" using by_path [OF assms(4)] by_path_addressed [OF assms(4)] by auto
  moreover have "opens w2 a = None"
    using cleanup [OF store_good [OF assms(1-3)] _ assms(5)] \<open>addressed b\<close> s(1) assms(4,6) by simp
  ultimately show ?thesis by simp
qed

end

section \<open>The file storage\<close>

definition on_disk :: "'a outcome proc \<Rightarrow> ((nat \<Rightarrow> choice) \<times> files, 'a) prog" where
  "on_disk p = (\<lambda>(ch, fs). case exec p ch fs of (r, ch', fs') \<Rightarrow> (r, (ch', fs')))"

definition file_iface :: "file_storage \<Rightarrow> ((nat \<Rightarrow> choice) \<times> files, node) storage" where
  "file_iface s = \<lparr>so_Store = (\<lambda>r ext mime. on_disk (Store s r ext mime)), so_Open = (\<lambda>a. on_disk (file_Open s a)),
     so_Delete = (\<lambda>a. on_disk (file_Delete s a)), so_URL = file_URL s\<rparr>"

lemma file_iface_simps [simp]:
  "so_Store (file_iface s) r ext mime = on_disk (Store s r ext mime)" "so_Delete (file_iface s) a = on_disk (file_Delete s a)"
  by (simp_all add: file_iface_def)

text \<open>No directory stands where objects do.\<close>

definition storage_ok :: "file_storage \<Rightarrow> files \<Rightarrow> bool" where
  "storage_ok s fs \<longleftrightarrow> rootPath s \<noteq> [] \<and> files_ok fs
     \<and> (\<forall>cs. length cs = 3 \<longrightarrow> entries fs (under (location (rootPath s)) cs) \<noteq> Some Directory)"

definition no_faults :: "(nat \<Rightarrow> choice) \<Rightarrow> bool" where
  "no_faults ch \<longleftrightarrow> (\<forall>n. fault_of (ch n) = None)"

definition object_loc :: "file_storage \<Rightarrow> attachment \<Rightarrow> loc" where
  "object_loc s a = under (location (rootPath s)) (split_on CHR ''/'' (StoragePath a))"

lemma opened_object:
  assumes "files_ok fs" and "object_path (StoragePath a)"
  shows "opened_bytes s a fs = (case entries fs (object_loc s a) of Some (File i) \<Rightarrow> Some (inodes fs i) | _ \<Rightarrow> None)"
proof -
  have cs: "list_all plain_name (split_on CHR ''/'' (StoragePath a))" using assms(2) by (simp add: object_path_def Let_def)
  have "fst (exec (file_Open s a) calm fs) = Ok n \<longleftrightarrow> entries fs (object_loc s a) = Some n" for n
    unfolding object_loc_def by (rule open_plain [OF assms(1) cs split_on_nonempty]) (simp add: join_split_on)
  then have "opened_bytes s a fs = Some x \<longleftrightarrow> (\<exists>i. entries fs (object_loc s a) = Some (File i) \<and> x = inodes fs i)" for x
    by (simp add: opened_bytes_Some)
  then show ?thesis by (auto split: option.split node.split) (metis not_None_eq node.distinct(1) option.inject option.distinct(1))+
qed

lemma object_loc_eq: "object_loc s a = object_loc s b \<longleftrightarrow> StoragePath a = StoragePath b"
  unfolding object_loc_def by (metis join_split_on under_eq)

text \<open>One \<open>Delete\<close>: the object is gone, or the files are as they were.\<close>

lemma exec_delete:
  "exec (file_Delete s a) ch fs = (case sys_root_remove (ch 0) (rootPath s) (StoragePath a) fs of
     (None, fs') \<Rightarrow> (Ok (), later ch, fs')
   | (Some e, fs') \<Rightarrow> (if e = ENoEnt then Ok () else Err (Wrap (''deleting '' @ StoragePath a) [err_of e]), later ch, fs'))"
  by (simp add: file_Delete_def continue_def split: prod.split option.split)

lemma root_remove_object:
  assumes "sys_root_remove c (rootPath s) p fs = (x, fs')" and "object_path p"
  shows "(fs' = fs \<and> x \<noteq> None) \<or> (x = None \<and> fs' = put_entry (under (location (rootPath s)) (split_on CHR ''/'' p)) None fs)"
proof -
  have "\<exists>l. root_lookup fs (rootPath s) p = Inr l \<and> fs' = put_entry l None fs" if "x = None \<or> fs' \<noteq> fs"
    using assms(1) that by (auto simp: sys_root_remove_def remove_at_def split: option.splits sum.splits if_splits node.splits)
  moreover have "x = None" if "fs' \<noteq> fs"
    using assms(1) that by (auto simp: sys_root_remove_def remove_at_def split: option.splits sum.splits if_splits node.splits)
  moreover have "l = under (location (rootPath s)) (split_on CHR ''/'' p)" if "root_lookup fs (rootPath s) p = Inr l" for l
    by (rule object_lookup(1) [OF assms(2) that])
  ultimately show ?thesis by (cases "x = None") blast+
qed

lemma root_remove_absent:
  assumes ok: "files_ok fs" and p: "object_path p" and e: "sys_root_remove c (rootPath s) p fs = (Some e, fs')"
    and f: "fault_of c = None \<or> e = ENoEnt" and i: "entries fs (under (location (rootPath s)) (split_on CHR ''/'' p)) = Some (File i)"
  shows False
proof -
  let ?cs = "split_on CHR ''/'' p" and ?r = "location (rootPath s)"
  have cs: "list_all plain_name ?cs" using p by (simp add: object_path_def Let_def)
  have n: "node_at fs (under ?r ?cs) = Some (File i)" using i by (simp add: node_at_def)
  have f2: "list_all (\<lambda>c. c \<noteq> [] \<and> CHR ''/'' \<notin> set c) ?cs" using cs by (simp add: list_all_iff plain_name_def)
  have "p \<noteq> []" "\<not> path_rooted p"
    using join_nonempty [OF cs split_on_nonempty, of "''/''"] join_rooted [OF f2] by (simp_all add: join_split_on)
  moreover have "root_walk fs ?r [] ?cs = Inr (under ?r ?cs)"
    using root_walk_found [OF ok cs split_on_nonempty, of ?r "[]" "File i"] n by simp
  ultimately have "root_lookup fs (rootPath s) p = Inr (under ?r ?cs)" by (simp add: root_lookup_def)
  moreover have "under ?r ?cs \<noteq> ?r" by (simp add: under_def prod_eq_iff)
  ultimately show False using e f n by (cases c) (auto simp: sys_root_remove_def remove_at_def fault_of_def)
qed

lemma root_remove_ok:
  assumes ok: "storage_ok s fs" and r: "sys_root_remove c (rootPath s) p fs = (x, fs')"
  shows "storage_ok s fs'"
proof -
  have "fs' = fs \<or> (\<exists>l. fs' = put_entry l None fs)"
    using r by (auto simp: sys_root_remove_def remove_at_def split: option.splits sum.splits if_splits node.splits)
  moreover have "files_ok fs'" using sys_root_remove_ok [of fs c "rootPath s" p] ok r by (simp add: storage_ok_def)
  ultimately show ?thesis using ok by (auto simp: storage_ok_def split: if_splits)
qed

lemma delete_object:
  assumes ok: "files_ok fs" and a: "object_path (StoragePath a)" and ex: "exec (file_Delete s a) ch fs = (r, ch', fs')"
  shows "is_ok r \<or> fault_of (ch 0) = None \<Longrightarrow> opened_bytes s a fs' = None"
    and "object_path (StoragePath b) \<Longrightarrow> StoragePath a \<noteq> StoragePath b \<Longrightarrow> opened_bytes s b fs' = opened_bytes s b fs"
proof -
  obtain x where x: "sys_root_remove (ch 0) (rootPath s) (StoragePath a) fs = (x, fs')"
    using ex by (auto simp: exec_delete split: prod.splits option.splits if_splits)
  have ok': "files_ok fs'" using sys_root_remove_ok [OF ok, of "ch 0" "rootPath s" "StoragePath a"] x by simp
  note op = opened_object [OF ok']
  note cases = root_remove_object [OF x a, folded object_loc_def]
  show "opened_bytes s a fs' = None" if q: "is_ok r \<or> fault_of (ch 0) = None"
  proof (cases x)
    case None
    then show ?thesis using cases op [OF a] by simp
  next
    case (Some e)
    then have "fs' = fs" using cases by simp
    moreover have "fault_of (ch 0) = None \<or> e = ENoEnt"
      using q ex x Some by (auto simp: exec_delete split: if_splits)
    ultimately have "entries fs' (object_loc s a) \<noteq> Some (File i)" for i
      using root_remove_absent [OF ok a, of "ch 0" s e fs' i] x Some by (auto simp: object_loc_def)
    then show ?thesis using op [OF a] by (simp split: option.split node.split)
  qed
  show "opened_bytes s b fs' = opened_bytes s b fs" if "object_path (StoragePath b)" "StoragePath a \<noteq> StoragePath b"
  proof -
    have "object_loc s b \<noteq> object_loc s a" using that(2) by (metis object_loc_eq)
    then show ?thesis using cases op [OF that(1)] opened_object [OF ok that(1)] by (auto split: option.split node.split)
  qed
qed

lemma delete_failed_keeps:
  assumes ex: "exec (file_Delete s a) ch fs = (r, ch', fs')" and "\<not> is_ok r"
  shows "fs' = fs"
proof -
  obtain x where x: "sys_root_remove (ch 0) (rootPath s) (StoragePath a) fs = (x, fs')" "x \<noteq> None"
    using ex assms(2) by (auto simp: exec_delete split: prod.splits option.splits if_splits)
  then show ?thesis
    by (auto simp: sys_root_remove_def remove_at_def split: option.splits sum.splits if_splits node.splits)
qed

lemma store_keeps_ok:
  assumes ok: "storage_ok s fs" and ext: "CHR ''/'' \<notin> set ext" and ex: "exec (Store s r ext mime) ch fs = (res, ch', fs')"
  shows "storage_ok s fs'"
proof -
  have root: "rootPath s \<noteq> []" and fok: "files_ok fs" using ok by (simp_all add: storage_ok_def)
  have e: "files_ok fs'" and dirs: "\<And>l. entries fs' l = Some Directory \<Longrightarrow>
      entries fs l = Some Directory \<or> (\<exists>now ds. month_loc s now = under l ds)"
    using store_exec [OF fok root ext ex] by (auto simp: store_effect_def Let_def)
  have "entries fs' (under (location (rootPath s)) cs) \<noteq> Some Directory" if l: "length cs = 3" for cs
  proof
    assume "entries fs' (under (location (rootPath s)) cs) = Some Directory"
    from dirs [OF this] obtain now ds where "month_loc s now = under (under (location (rootPath s)) cs) ds"
      using ok l by (auto simp: storage_ok_def)
    then have "[zero_padded 4 (fst now), zero_padded 2 (snd now)] = cs @ ds" by (simp add: month_loc_def)
    from arg_cong [OF this, of length] l show False by simp
  qed
  with root e show ?thesis by (simp add: storage_ok_def)
qed

lemma stored_object: "CHR ''/'' \<notin> set ext \<Longrightarrow> object_path (StoragePath (stored_as now b ext mime))"
  using placed_stored [of ext data_storage now b "\<lparr>g_temp = None, g_placed = {dest_loc data_storage now b ext}, g_seen = {}\<rparr>" mime]
  by (simp add: placed_attachment_def)

lemma store_opens_object:
  assumes ok: "storage_ok s fs" and ext: "CHR ''/'' \<notin> set ext" and ex: "exec (Store s r ext mime) ch fs = (Ok att, ch', fs')"
  shows "object_path (StoragePath att) \<and> opened_bytes s att fs' =
    Some (case opened_bytes s att fs of None \<Rightarrow> concat (rd_pieces r) | Some old \<Rightarrow> old)"
proof -
  have root: "rootPath s \<noteq> []" and fok: "files_ok fs" using ok by (simp_all add: storage_ok_def)
  obtain now where now: "att = stored_as now (concat (rd_pieces r)) ext mime"
    using store_exec [OF fok root ext ex] by (auto simp: store_effect_def Let_def)
  have "fst (exec (file_Open s att) calm fs) \<noteq> Ok Directory"
    using ok open_stored [OF fok ext, of s now "concat (rd_pieces r)" mime Directory] unfolding now
    by (auto simp: storage_ok_def dest_loc_def bucket_def)
  with store_then_open(2) [OF fok root ext ex] stored_object [OF ext] now show ?thesis by blast
qed

text \<open>The file storage keeps the contract.\<close>

interpretation fb: blob_storage "file_iface s" "\<lambda>(ch, fs). storage_ok s fs" "\<lambda>a. object_path (StoragePath a)"
  "\<lambda>(ch, fs). no_faults ch" "\<lambda>(ch, fs) a. opened_bytes s a fs" "\<lambda>ext. CHR ''/'' \<notin> set ext"
  for s
proof
  fix a b :: attachment and w w' :: "(nat \<Rightarrow> choice) \<times> files" and r :: "unit outcome" and q :: "attachment outcome"
    and ext mime x :: string and rd :: reader
  obtain ch fs ch' fs' where w: "w = (ch, fs)" "w' = (ch', fs')" by (metis prod.collapse)
  note defs = w on_disk_def
  show "(case w of (ch, fs) \<Rightarrow> \<lambda>a. opened_bytes s a fs) a = (case w of (ch, fs) \<Rightarrow> \<lambda>a. opened_bytes s a fs) b"
    if "StoragePath a = StoragePath b" using opened_bytes_path [OF that] by (simp add: w)
  show "object_path (StoragePath a) = object_path (StoragePath b)" if "StoragePath a = StoragePath b" using that by simp
  {
    assume d: "so_Delete (file_iface s) a w = (r, w')"
    then have ex: "exec (file_Delete s a) ch fs = (r, ch', fs')" by (auto simp: defs split: prod.splits)
    have l: "ch' = later ch" using ex by (auto simp: exec_delete split: prod.splits option.splits if_splits)
    obtain x where x: "sys_root_remove (ch 0) (rootPath s) (StoragePath a) fs = (x, fs')"
      using ex by (auto simp: exec_delete split: prod.splits option.splits if_splits)
    have p: "r \<noteq> Panic p" for p using ex by (auto simp: exec_delete split: prod.splits option.splits if_splits)
    show "(case w' of (ch, fs) \<Rightarrow> storage_ok s fs) \<and> (\<forall>p. r \<noteq> Panic p)" if "case w of (ch, fs) \<Rightarrow> storage_ok s fs"
      using root_remove_ok [OF _ x] that p by (simp add: w)
    show "case w' of (ch, fs) \<Rightarrow> no_faults ch" if "case w of (ch, fs) \<Rightarrow> no_faults ch"
      using that l by (simp add: w no_faults_def later_def)
    show "(case w' of (ch, fs) \<Rightarrow> \<lambda>a. opened_bytes s a fs) a = None"
      if "case w of (ch, fs) \<Rightarrow> storage_ok s fs" "object_path (StoragePath a)" "is_ok r \<or> (case w of (ch, fs) \<Rightarrow> no_faults ch)"
      using delete_object(1) [OF _ that(2) ex] that(1,3) by (auto simp: w storage_ok_def no_faults_def)
    show "(case w' of (ch, fs) \<Rightarrow> \<lambda>a. opened_bytes s a fs) b = (case w of (ch, fs) \<Rightarrow> \<lambda>a. opened_bytes s a fs) b"
      if "\<not> is_ok r" using delete_failed_keeps [OF ex that] by (simp add: w)
    show "(case w' of (ch, fs) \<Rightarrow> \<lambda>a. opened_bytes s a fs) b = (case w of (ch, fs) \<Rightarrow> \<lambda>a. opened_bytes s a fs) b"
      if "case w of (ch, fs) \<Rightarrow> storage_ok s fs" "object_path (StoragePath a)" "object_path (StoragePath b)"
        "StoragePath a \<noteq> StoragePath b"
      using delete_object(2) [OF _ that(2) ex that(3,4)] that(1) by (simp add: w storage_ok_def)
  }
  {
    assume g: "case w of (ch, fs) \<Rightarrow> storage_ok s fs" and e: "CHR ''/'' \<notin> set ext"
      and d: "so_Store (file_iface s) rd ext mime w = (q, w')"
    then have ok: "storage_ok s fs" and ex: "exec (Store s rd ext mime) ch fs = (q, ch', fs')"
      by (auto simp: defs split: prod.splits)
    show "case w' of (ch, fs) \<Rightarrow> storage_ok s fs" using store_keeps_ok [OF ok e ex] by (simp add: w)
    show "(case w' of (ch, fs) \<Rightarrow> \<lambda>a. opened_bytes s a fs) a = Some x"
      if "(case w of (ch, fs) \<Rightarrow> \<lambda>a. opened_bytes s a fs) a = Some x"
      using store_then_open(1) [OF _ _ e ex, of a x] ok that by (simp add: w storage_ok_def)
  }
  show "object_path (StoragePath a) \<and> (case w' of (ch, fs) \<Rightarrow> \<lambda>a. opened_bytes s a fs) a
      = Some (case (case w of (ch, fs) \<Rightarrow> \<lambda>a. opened_bytes s a fs) a of None \<Rightarrow> concat (rd_pieces rd) | Some old \<Rightarrow> old)"
    if "case w of (ch, fs) \<Rightarrow> storage_ok s fs" "CHR ''/'' \<notin> set ext" "so_Store (file_iface s) rd ext mime w = (Ok a, w')"
    using store_opens_object [of s fs ext rd mime ch a ch' fs'] that by (auto simp: defs split: prod.splits)
qed

end
