(* ===== verification/Attachment_Properties.thy ===== *)
theory Attachment_Properties
  imports Blob_Storage Delete_Properties Bulk_Properties
begin

text \<open>
  Documents and the bytes of their attachments together: the engine (\<^verbatim>\<open>engine/crud_delete.go\<close>,
  \<^verbatim>\<open>engine/attachments.go\<close>) over a database and the file storage. A run of the engine lists in \<open>w_deleted\<close> the
  attachments it hands to \<open>Storage.Delete\<close>; \<open>delete_bytes\<close> is that loop on the storage.
\<close>

section \<open>What a hard delete hands over\<close>

definition handed_over :: "world \<Rightarrow> world \<Rightarrow> attachment list" where
  "handed_over w w' = drop (length (w_deleted w)) (w_deleted w')"

lemma walk_fields_in: "(n, oe, v) \<in> set fs \<Longrightarrow> set (walk_field v) \<subseteq> set (walk_fields fs)"
  by (induction fs) auto

lemma walk_fields_of: "collectAttachments d = walk_fields (doc_fields d)"
  by (cases d) (simp add: collectAttachments_def)

text \<open>A loaded link is walked into: the attachments of its target are handed over with those of the
  document.\<close>

lemma linked_attachments:
  "(n, oe, FLink ty e (Link i (Some t) b)) \<in> set (doc_fields d) \<Longrightarrow> set (collectAttachments t) \<subseteq> set (collectAttachments d)"
  using walk_fields_in [of n oe "FLink ty e (Link i (Some t) b)" "doc_fields d"]
  by (simp add: walk_fields_of [of d]) (simp add: collectAttachments_def)

text \<open>C6. A hard delete removes exactly the row of the document and hands the storage exactly the
  files of the document's non-empty attachments, in field order; a hard delete that reports an error did
  neither. Over the file storage: every other object opens as before, and those of the document are gone
  unless a file call fails, which the delete does not report. The document's attachments include those of the
  documents its loaded links hold, whose rows stay.\<close>

theorem hard_delete_removes_row_and_bytes:
  assumes run: "Delete env sc opts (d, w) = (r, (d', w'))" and hooks: "no_hooks env"
    and rule: "linkRule (applyCRUDOpts opts) \<noteq> LinkDelete"
    and col: "collectionForType env (doc_type d) = Inr col"
    and hard: "\<not> cm_HasSoftDelete (ci_meta col) \<or> hardDelete (applyCRUDOpts opts)"
    and disk: "delete_bytes (file_iface s) (handed_over w w') (ch, fs) = (q, (ch', fs'))" "storage_ok s fs"
    and paths: "\<forall>a \<in> set (collectAttachments d). object_path (StoragePath a)"
  shows "(is_ok r \<longrightarrow> st_get (w_store w') c i = (if c = col_name col \<and> i = getID d then None else st_get (w_store w) c i)
             \<and> handed_over w w' = collectAttachments d \<and> (e_storage env = None \<longrightarrow> collectAttachments d = []))
    \<and> (\<not> is_ok r \<longrightarrow> w_store w' = w_store w \<and> handed_over w w' = [])
    \<and> q = Ok () \<and> (\<forall>b. object_path (StoragePath b) \<longrightarrow>
        (if is_ok r \<and> StoragePath b \<in> StoragePath ` set (collectAttachments d)
         then opened_bytes s b fs' = None \<or> \<not> no_faults ch \<and> opened_bytes s b fs' = opened_bytes s b fs
         else opened_bytes s b fs' = opened_bytes s b fs))
    \<and> (\<forall>n oe ty e k t ld. (n, oe, FLink ty e (Link k (Some t) ld)) \<in> set (doc_fields d)
        \<longrightarrow> set (collectAttachments t) \<subseteq> set (collectAttachments d))"
proof -
  note row = hard_delete_row [OF run hooks rule col hard]
  then have h: "handed_over w w' = (if is_ok r then collectAttachments d else [])" by (auto simp: handed_over_def)
  with paths have ad: "\<forall>a \<in> set (handed_over w w'). object_path (StoragePath a)" by simp
  note C = fb.cleanup [of s "(ch, fs)", simplified, OF disk(2) ad disk(1)]
  have "if is_ok r \<and> StoragePath b \<in> StoragePath ` set (collectAttachments d)
      then opened_bytes s b fs' = None \<or> \<not> no_faults ch \<and> opened_bytes s b fs' = opened_bytes s b fs
      else opened_bytes s b fs' = opened_bytes s b fs" if "object_path (StoragePath b)" for b
    using C that unfolding h by (cases "is_ok r") auto
  with row h C linked_attachments show ?thesis by simp
qed

section \<open>A media directory\<close>

text \<open>The storage of the examples holds one object, the file of the note \<open>t\<close>; the note \<open>k\<close> links to it.\<close>

definition media_name :: string where
  "media_name = ''ba7816bf8f01cfea.txt''"

definition media_file :: attachment where
  "media_file = Attachment (''2026/04/'' @ media_name) ''text/plain'' 3
     ''ba7816bf8f01cfea414140de5dae2223b00361a396177a9cb410ff61f20015ad''"

definition media_dir :: files where
  "media_dir = \<lparr>entries = (\<lambda>l. None)((False, [''data'']) := Some Directory, (False, [''data'', ''2026'']) := Some Directory,
       (False, [''data'', ''2026'', ''04'']) := Some Directory, (False, [''data'', ''2026'', ''04'', media_name]) := Some (File 0)),
     inodes = (\<lambda>i. [])(0 := ''abc''), next_inode = 1\<rparr>"

definition storage_env :: env where
  "storage_env = (note_env True False)\<lparr>e_storage := Some (\<lambda>a. None)\<rparr>"

definition note_with_file :: doc where
  "note_with_file = set_field ''file'' (FAttPtr (Some media_file)) (note_doc ''t'' ''r1'' ''target'' [])"

definition note_with_link :: doc where
  "note_with_link = set_field ''next'' (FLink ''Note'' False (Link ''t'' (Some note_with_file) True)) (note_doc ''k'' ''r1'' ''source'' ''t'')"

lemma media_path: "split_on CHR ''/'' (StoragePath media_file) = [''2026'', ''04'', media_name]"
  by (simp add: media_file_def media_name_def)

lemma media_object [simp]: "object_path (StoragePath media_file)"
  by (simp add: object_path_def Let_def media_path) (simp add: plain_name_def media_name_def)

lemma media_dir_ok: "storage_ok data_storage media_dir"
proof -
  have "files_ok media_dir" by (auto simp: files_ok_def media_dir_def parent_loc_def node_at_def)
  then show ?thesis by (auto simp: storage_ok_def data_root media_dir_def under_def)
qed

lemma media_opens: "opened_bytes data_storage media_file media_dir = Some ''abc''"
proof -
  have "files_ok media_dir" using media_dir_ok by (simp add: storage_ok_def)
  from opened_object [OF this media_object, of data_storage] show ?thesis
    by (simp add: object_loc_def media_path data_root under_def media_dir_def)
qed

lemma storage_env_simps [simp]:
  "no_hooks storage_env" "e_storage storage_env \<noteq> None"
  "collectionForType storage_env ''Note'' = Inr (note_collection True False)"
proof -
  show "collectionForType storage_env ''Note'' = Inr (note_collection True False)" by code_simp
qed (simp_all add: storage_env_def no_hooks_def)

lemma note_files [simp]:
  "collectAttachments note_with_file = [media_file]" "collectAttachments note_with_link = [media_file]"
  "doc_type note_with_file = ''Note''" "doc_type note_with_link = ''Note''" "getID note_with_file = ''t''" "getID note_with_link = ''k''"
  by code_simp+

lemma steady_quiet [simp]: "no_faults (steady d y m)"
  by (simp add: no_faults_def steady_def fault_of_def)

text \<open>The note with the link is deleted, and the file of the note it links to is gone, although that note's row stays.\<close>

theorem hard_delete_takes_linked_bytes:
  "\<exists>r w' q ch' fs'. Delete storage_env ScopeDB [] (note_with_link, note_world [note_with_link, note_with_file]) = (r, (note_with_link, w'))
     \<and> delete_bytes (file_iface data_storage) (handed_over (note_world [note_with_link, note_with_file]) w') (steady 0 2026 4, media_dir) = (q, (ch', fs'))
     \<and> r = Ok () \<and> st_get (w_store w') ''note'' ''t'' = Some (Document.encode note_with_file)
     \<and> opened_bytes data_storage media_file media_dir = Some ''abc'' \<and> opened_bytes data_storage media_file fs' = None"
proof -
  let ?w = "note_world [note_with_link, note_with_file]"
  obtain r d' w' where run: "Delete storage_env ScopeDB [] (note_with_link, ?w) = (r, (d', w'))" by (metis prod_cases3)
  obtain q ch' fs' where disk: "delete_bytes (file_iface data_storage) (handed_over ?w w') (steady 0 2026 4, media_dir) = (q, (ch', fs'))"
    by (metis prod_cases3)
  have "fst (Delete storage_env ScopeDB [] (note_with_link, ?w)) = Ok ()"
    "fst (snd (Delete storage_env ScopeDB [] (note_with_link, ?w))) = note_with_link" by code_simp+
  then have ok: "r = Ok ()" "d' = note_with_link" using run by simp_all
  have row: "st_get (w_store ?w) ''note'' ''t'' = Some (Document.encode note_with_file)" by code_simp
  have col: "col_name (note_collection True False) = ''note''" by (simp add: col_name_def note_collection_def)
  have "\<not> cm_HasSoftDelete (ci_meta (note_collection True False))" by (simp add: note_collection_def)
  note hard = this
  have P: "linkRule (applyCRUDOpts []) \<noteq> LinkDelete"
    "collectionForType storage_env (doc_type note_with_link) = Inr (note_collection True False)"
    "\<forall>a \<in> set (collectAttachments note_with_link). object_path (StoragePath a)" by simp_all
  note R = hard_delete_removes_row_and_bytes [OF run storage_env_simps(1) P(1,2) disjI1 [OF hard] disk media_dir_ok P(3), of "''note''" "''t''"]
  have "st_get (w_store w') ''note'' ''t'' = st_get (w_store ?w) ''note'' ''t''" using R ok col by simp
  moreover have "opened_bytes data_storage media_file fs' = None"
  proof -
    from R have "\<forall>b. object_path (StoragePath b) \<longrightarrow>
        (if is_ok r \<and> StoragePath b \<in> StoragePath ` set (collectAttachments note_with_link)
         then opened_bytes data_storage b fs' = None
           \<or> \<not> no_faults (steady 0 2026 4) \<and> opened_bytes data_storage b fs' = opened_bytes data_storage b media_dir
         else opened_bytes data_storage b fs' = opened_bytes data_storage b media_dir)" by (elim conjE) assumption
    from this [rule_format, OF media_object] ok show ?thesis by simp
  qed
  ultimately have "st_get (w_store w') ''note'' ''t'' = st_get (w_store ?w) ''note'' ''t''" "opened_bytes data_storage media_file fs' = None" .
  with run disk ok row media_opens show ?thesis by auto
qed

section \<open>A batch that is rolled back\<close>

definition hard_deletable :: "env \<Rightarrow> crud_option list \<Rightarrow> store \<Rightarrow> doc \<Rightarrow> bool" where
  "hard_deletable env opts st d \<longleftrightarrow> getID d \<noteq> [] \<and> (case collectionForType env (doc_type d) of
      Inl e \<Rightarrow> False
    | Inr col \<Rightarrow> has_table st (col_name col) \<and> (\<not> cm_HasSoftDelete (ci_meta col) \<or> hardDelete (applyCRUDOpts opts)))"

lemma hard_deletable_after: "hard_deletable env opts (st_delete c i st) = hard_deletable env opts st"
  by (auto simp: fun_eq_iff hard_deletable_def has_table_def st_delete_def split: sum.split option.split)

lemma delete_without_id:
  "getID d = [] \<Longrightarrow> collectionForType env (doc_type d) = Inr col \<Longrightarrow>
   Delete env sc opts (d, w) = (Err (Wrap ''cannot delete document without ID'' [Sent ErrValidation]), (d, w))"
  by (simp add: Delete_def deleteCore_def Let_def with_collection_def)

lemma each_delete_until:
  assumes env: "no_hooks env" "e_storage env \<noteq> None" "linkRule (applyCRUDOpts opts) \<noteq> LinkDelete"
    and bad: "getID d = []" "collectionForType env (doc_type d) = Inr col"
  shows "w_faults w = [] \<Longrightarrow> w_polls w = [] \<Longrightarrow> list_all (hard_deletable env opts (w_store w)) xs \<Longrightarrow>
    \<exists>stt. each_doc what (Delete env sc opts) i (xs @ d # ys) w =
      (Err (Wrap (''den: '' @ what @ '' failed at index '' @ dec (i + length xs))
         [Wrap ''cannot delete document without ID'' [Sent ErrValidation]]),
       xs @ d # ys, w\<lparr>w_store := stt, w_deleted := w_deleted w @ concat (map collectAttachments xs)\<rparr>)"
proof (induction xs arbitrary: i w)
  case Nil
  then show ?case using delete_without_id [OF bad] by (intro exI [of _ "w_store w"]) (simp add: ctx_err_def)
next
  case (Cons x xs)
  then obtain cx where x: "getID x \<noteq> []" "collectionForType env (doc_type x) = Inr cx" "has_table (w_store w) (col_name cx)"
    "\<not> cm_HasSoftDelete (ci_meta cx) \<or> hardDelete (applyCRUDOpts opts)"
    by (auto simp: hard_deletable_def split: sum.splits)
  let ?w = "w\<lparr>w_store := st_delete (col_name cx) (getID x) (w_store w), w_deleted := w_deleted w @ collectAttachments x\<rparr>"
  have one: "Delete env sc opts (x, w) = (Ok (), (x, ?w))"
    by (rule hard_delete_one [OF env(1) x(2,1,4) env(3,2) Cons.prems(1) x(3)])
  have "list_all (hard_deletable env opts (w_store ?w)) xs" using Cons.prems(3) by (simp add: hard_deletable_after)
  from Cons.IH [OF _ _ this, of "Suc i"] Cons.prems one show ?case by (auto simp: ctx_err_def)
qed

lemma delete_all_rolled_back:
  assumes env: "no_hooks env" "e_storage env \<noteq> None" "linkRule (applyCRUDOpts opts) \<noteq> LinkDelete"
    and bad: "getID d = []" "collectionForType env (doc_type d) = Inr col"
    and w: "w_faults w = []" "w_polls w = []" "w_saved w = None" "list_all (hard_deletable env opts (w_store w)) xs"
  shows "DeleteAll env ScopeDB opts (xs @ d # ys, w) =
      (Err (Wrap (''den: delete failed at index '' @ dec (length xs))
         [Wrap ''cannot delete document without ID'' [Sent ErrValidation]]),
       (xs @ d # ys, w\<lparr>w_deleted := w_deleted w @ concat (map collectAttachments xs)\<rparr>))"
proof -
  let ?w = "w\<lparr>w_saved := Some (w_store w)\<rparr>"
  from each_delete_until [OF env bad, of ?w xs "''delete''" ScopeTx 0 ys] w obtain stt where
    "each_doc ''delete'' (Delete env ScopeTx opts) 0 (xs @ d # ys) ?w =
      (Err (Wrap (''den: '' @ ''delete'' @ '' failed at index '' @ dec (length xs))
         [Wrap ''cannot delete document without ID'' [Sent ErrValidation]]),
       xs @ d # ys, ?w\<lparr>w_store := stt, w_deleted := w_deleted w @ concat (map collectAttachments xs)\<rparr>)" by auto
  with w show ?thesis
    by (simp add: DeleteAll_def runOnScopeVoid_def RunInTransaction_def bindP_def map_err_def on_snd_def be_Begin_def
        fault_def finish_tx_def each_doc_op_def be_Rollback_def close_tx_def)
qed

text \<open>C7. A \<open>DeleteAll\<close> on the database that fails at a document rolls the rows back, but not the bytes: whenever the
  documents before the failing one can be hard-deleted, the database is as it was after the error,
  every row and all, and the objects of all their attachments are gone.\<close>

theorem rolled_back_delete_loses_the_bytes:
  assumes env: "no_hooks env" "e_storage env \<noteq> None" "linkRule (applyCRUDOpts opts) \<noteq> LinkDelete"
    and bad: "getID d = []" "collectionForType env (doc_type d) = Inr col"
    and w: "w_faults w = []" "w_polls w = []" "w_saved w = None" "list_all (hard_deletable env opts (w_store w)) xs"
    and run: "DeleteAll env ScopeDB opts (xs @ d # ys, w) = (r, (ds', w'))"
    and disk: "delete_bytes (file_iface s) (handed_over w w') (ch, fs) = (q, (ch', fs'))" "storage_ok s fs" "no_faults ch"
    and paths: "\<forall>x \<in> set xs. \<forall>a \<in> set (collectAttachments x). object_path (StoragePath a)"
  shows "r = Err (Wrap (''den: delete failed at index '' @ dec (length xs))
           [Wrap ''cannot delete document without ID'' [Sent ErrValidation]])
    \<and> w_store w' = w_store w \<and> q = Ok ()
    \<and> (\<forall>x \<in> set xs. \<forall>a \<in> set (collectAttachments x). opened_bytes s a fs' = None)"
proof -
  have res: "r = Err (Wrap (''den: delete failed at index '' @ dec (length xs))
           [Wrap ''cannot delete document without ID'' [Sent ErrValidation]])"
    and w': "w' = w\<lparr>w_deleted := w_deleted w @ concat (map collectAttachments xs)\<rparr>"
    using run delete_all_rolled_back [OF env bad w] by simp_all
  then have h: "handed_over w w' = concat (map collectAttachments xs)" by (simp add: handed_over_def)
  with paths have "\<forall>a \<in> set (handed_over w w'). object_path (StoragePath a)" by auto
  note C = fb.cleanup [of s "(ch, fs)", simplified, OF disk(2) this disk(1)]
  have "opened_bytes s a fs' = None" if "x \<in> set xs" "a \<in> set (collectAttachments x)" for x a
  proof -
    have "StoragePath a \<in> StoragePath ` set (handed_over w w')" using that h by auto
    moreover have "object_path (StoragePath a)" using paths that by blast
    ultimately show ?thesis using C disk(3) by simp
  qed
  moreover have "q = Ok ()" using C by simp
  ultimately show ?thesis using res w' by simp
qed

text \<open>Two notes are deleted, the second has no identifier: the error leaves both in place and the file of the first is
  gone.\<close>

theorem rolled_back_delete_witness:
  "\<exists>r ds' w' q ch' fs'. DeleteAll storage_env ScopeDB [] ([note_with_file, note_doc [] [] ''new'' []], note_world [note_with_file]) = (r, (ds', w'))
     \<and> delete_bytes (file_iface data_storage) (handed_over (note_world [note_with_file]) w') (steady 0 2026 4, media_dir) = (q, (ch', fs'))
     \<and> \<not> is_ok r \<and> st_get (w_store w') ''note'' ''t'' = Some (Document.encode note_with_file)
     \<and> opened_bytes data_storage media_file fs' = None"
proof -
  let ?w = "note_world [note_with_file]" and ?bad = "note_doc [] [] ''new'' []"
  obtain r ds' w' where run: "DeleteAll storage_env ScopeDB [] ([note_with_file] @ ?bad # [], ?w) = (r, (ds', w'))"
    by (metis prod_cases3)
  obtain q ch' fs' where disk: "delete_bytes (file_iface data_storage) (handed_over ?w w') (steady 0 2026 4, media_dir) = (q, (ch', fs'))"
    by (metis prod_cases3)
  have w: "w_faults ?w = []" "w_polls ?w = []" "w_saved ?w = None" by (simp_all add: note_world_def initial_world_def)
  have hd: "hard_deletable storage_env [] (w_store ?w) note_with_file" by code_simp
  have bad: "getID ?bad = []" "collectionForType storage_env (doc_type ?bad) = Inr (note_collection True False)" by code_simp+
  have row: "st_get (w_store ?w) ''note'' ''t'' = Some (Document.encode note_with_file)" by code_simp
  from rolled_back_delete_loses_the_bytes [OF storage_env_simps(1,2) _ bad w _ run disk media_dir_ok steady_quiet] hd
  have "\<not> is_ok r" "w_store w' = w_store ?w" "opened_bytes data_storage media_file fs' = None" by simp_all
  with run disk row show ?thesis by auto
qed

end
