(* ===== verification/Spec2Isabelle.thy ===== *)
theory Spec2Isabelle
  imports Ulid SQL_Properties Bulk_Properties Hook_Properties Select_Properties Query_Properties Delete_Loop Migrate_Properties Register_Properties Hydration_Properties Aggregate_Properties Refinement Driver_Properties Link_Json Marshal_Properties Open_Properties File_Concurrency
    Bench_Properties Attachment_Properties
begin

text \<open>
  A model of Den, an object-document mapper for Go over SQLite and PostgreSQL (module
  \<^verbatim>\<open>github.com/oliverandrich/den\<close>): documents are Go structs, stored as JSON in one table per type.

  \<^bold>\<open>The program.\<close> An application registers its struct types (\<^verbatim>\<open>engine/collection.go\<close>, with the struct walker
  of \<^verbatim>\<open>internal/util/reflect.go\<close>), which creates a table and its indexes, and then writes and reads documents:
  \<open>Save\<close>, \<open>Delete\<close> and their bulk forms (\<^verbatim>\<open>engine/crud*.go\<close>) run hooks, validation, revision checks, soft
  deletes, link cascades and attachments around one row write; \<open>QuerySet\<close> (\<^verbatim>\<open>engine/queryset.go\<close>) builds
  queries, hydrates links and has terminals that update and delete in bulk; both run either on the database or
  inside a transaction (\<^verbatim>\<open>engine/tx.go\<close>). The engine speaks to a backend through the interface of
  \<^verbatim>\<open>backend/backend.go\<close>; the two backends (\<^verbatim>\<open>backend/sqlite\<close>, \<^verbatim>\<open>backend/postgres\<close>) build SQL and send it to a
  driver. Beside the engine stand the identifier generator (\<^verbatim>\<open>idgen\<close>), the migration runner (\<^verbatim>\<open>migrate\<close>), the file
  storage of attachments (\<^verbatim>\<open>storage/file\<close>), the registries that open backends and storages by URL, and a
  command that writes benchmark tables into the README (\<^verbatim>\<open>internal/cmd/bench-report\<close>).

  \<^bold>\<open>How the model reads.\<close> A Go string is a byte string. An operation with effects is a function
  \<open>'s \<Rightarrow> 'a outcome \<times> 's\<close> whose outcome is a value, an error or a panic (\<open>Outcome\<close>); \<open>bindP\<close> is the early return. The
  state of the engine is \<open>world\<close> (\<open>World\<close>): the tables, the indexes and their metadata, the copy saved by an open
  transaction, the clock, the generator, the answers of \<open>ctx.Err()\<close>, and the list of faults the backend is still
  going to report, so that every statement about a \<open>world\<close> also speaks of every backend failure. What is not
  in the repository (the evaluation of a SELECT, the validator, user hooks, the JSON normal form of the
  database, \<open>reflect\<close>'s conversions) is a field of \<open>env\<close>; the attachments a run hands to the storage are a list of
  \<open>world\<close>, and \<open>Attachment_Properties\<close> runs the storage on them.

  \<^bold>\<open>Theories.\<close>
  \<^item> \<open>Prelude\<close>, \<open>Outcome\<close>: strings, decimal text, generic list lemmas; errors, \<open>errors.Is\<close> and the outcome monad
    (\<^verbatim>\<open>engine/errors.go\<close>). The collections \<open>den_simps\<close>, \<open>preserves_intros\<close>, \<open>neutral\<close>, \<open>reading\<close> and \<open>silence\<close>
    carry the automation.
  \<^item> \<open>Ulid\<close>: \<^verbatim>\<open>idgen/ulid.go\<close> over machine words; the identifiers of a run are strictly increasing until the
    80-bit counter wraps, and what happens when it does.
  \<^item> \<open>Names\<close>: field names, struct tags, LIKE and FTS5 escaping (\<^verbatim>\<open>internal/util\<close>, \<^verbatim>\<open>search\<close>); \<open>Json\<close>: JSON literals
    and the driver values of bind arguments; \<open>Where\<close>: conditions and queries (\<^verbatim>\<open>where\<close>, \<^verbatim>\<open>backend/backend.go\<close>).
  \<^item> \<open>Sqlite_SQL\<close>, \<open>Postgres_SQL\<close>: every statement builder as exact text with arguments. \<open>SQL_Contract\<close> states the
    locale \<open>sql_dialect\<close> (placeholders and parentheses of a rendered condition), \<open>SQL_Properties\<close> interprets it on
    both backends (\<open>lite\<close>, \<open>pg\<close>) and proves the statement-level properties.
  \<^item> \<open>Document\<close>: documents in memory, JSON encoding and decoding, validation errors, base fields (\<^verbatim>\<open>document\<close>,
    \<^verbatim>\<open>validate\<close>, \<^verbatim>\<open>engine/fields.go\<close>). \<open>World\<close>: the store and the backend operations, with the interface \<open>kv_store\<close>
    and its interpretation \<open>kv\<close>; \<open>Tx\<close>: transactions and scopes (\<^verbatim>\<open>engine/tx.go\<close>).
  \<^item> \<open>Crud\<close>: the write path. \<open>Crud_Lemmas\<close> and \<open>Crud_Effects\<close> say what a write does to the store and to a
    transaction; \<open>Crud_Properties\<close>, \<open>Bulk_Properties\<close>, \<open>Delete_Properties\<close> and \<open>Hook_Properties\<close> give its contract:
    the stored row, optimistic locking, all-or-nothing bulk writes, soft and hard deletes, attachments, the order
    of hooks. \<open>Refinement\<close> shows that \<open>Save\<close>, \<open>Delete\<close> and \<open>FindByID\<close> implement an abstract map (locale
    \<open>plain_collection\<close>).
  \<^item> \<open>Query\<close>, \<open>Query_Write\<close>: queries, hydration, lookups and the terminals that write. \<open>Query_Lemmas\<close> (reading leaves
    the store alone), \<open>Query_Properties\<close> (atomicity, errors), \<open>Select_Properties\<close> (what a query returns, given the
    contract \<open>select_ok\<close> of the database), \<open>Delete_Loop\<close> (termination of the chunked delete),
    \<open>Hydration_Properties\<close> (batched hydration equals pointwise resolution), \<open>Aggregate\<close> and \<open>Aggregate_Properties\<close>
    (\<^verbatim>\<open>engine/aggregate*.go\<close>), \<open>Track\<close> and \<open>Track_Properties\<close> (\<^verbatim>\<open>engine/track.go\<close>).
  \<^item> \<open>Schema\<close>, \<open>Schema_Properties\<close>, \<open>Register_Properties\<close>: struct analysis, registration and index maintenance
    (\<^verbatim>\<open>internal/util/reflect.go\<close>, \<^verbatim>\<open>engine/collection.go\<close>, \<^verbatim>\<open>engine/settings.go\<close>). \<open>Migrate\<close>, \<open>Migrate_Lemmas\<close>,
    \<open>Migrate_Properties\<close>: the runner as a step relation, with an abstract schema as the state of any number of
    runners.
  \<^item> \<open>Driver\<close>, \<open>Postgres_Driver\<close>, \<open>Sqlite_Driver\<close>, \<open>Driver_Properties\<close>: the backends as the statements they send to a
    driver, the classification of its errors, the set-up of full-text search, the cache of prepared statements;
    over drivers that do what their statements say both backends answer like a map of rows.
  \<^item> \<open>Link_Json\<close>, \<open>Marshal\<close>, \<open>Marshal_Properties\<close>: the JSON form of links and \<open>den.Marshal\<close>.
  \<^item> \<open>Urls\<close>, \<open>Open_Url\<close>, \<open>Open_Properties\<close>: opening by URL (\<^verbatim>\<open>engine/url.go\<close>, \<^verbatim>\<open>storage/registry.go\<close>,
    \<^verbatim>\<open>backend/sqlite/sqlite.go\<close>), with the locale \<open>scheme_registry\<close> interpreted for both registries.
  \<^item> \<open>Sha256\<close>, \<open>Os_Files\<close>, \<open>File_Storage\<close>, \<open>File_Paths\<close>, \<open>File_Laws\<close>, \<open>File_Properties\<close>, \<open>File_Concurrency\<close>: the file
    storage as programs of file calls over a file system with inodes and faults, alone and interleaved.
    \<open>Blob_Storage\<close>: the interface of \<^verbatim>\<open>storage/storage.go\<close> as a record, its promises as the locale \<open>blob_storage\<close> and its
    interpretation \<open>fb\<close> on the file storage; \<open>Attachment_Properties\<close>: hard deletes of the engine over that storage.
  \<^item> \<open>Regexp\<close>, \<open>Float64\<close>: what the repository uses of \<^verbatim>\<open>regexp\<close> (a backtracking search, sound and complete for a
    match relation) and of \<open>float64\<close> (exact rationals rounded to 53 bits); \<open>Bench_Report\<close>, \<open>Bench_Properties\<close>: the
    command \<^verbatim>\<open>internal/cmd/bench-report\<close>.
  \<^item> \<open>Sample\<close>: the concrete type and database the witnesses use.

  \<^bold>\<open>Bounds and fuel.\<close> The only loop with fuel is that of \<open>QuerySet.Delete\<close> (\<open>delete_loop\<close>), one unit per round of
  the chunked delete. \<open>query_delete_removes_the_matches\<close> shows that for a hard delete more fuel than there are
  matching rows is enough, for every chunk size; \<open>delete_including_deleted_never_ends\<close> that for a soft delete with
  \<open>IncludeDeleted\<close> and a full chunk no fuel is. All other recursions are structural or have termination proofs:
  the type walkers enter a struct type at most once on a path, the regular-expression cache and the migration log
  are finite lists. Identifiers, SHA-256 and counters of the generator are machine words.

  \<^bold>\<open>Contracts assumed.\<close> \<open>hooks_ok\<close>: user hooks change the client's fields only. \<open>select_ok\<close>: a SELECT returns rows of
  the table, at most as many as its limit, none that falsifies a condition, and all that satisfy all
  conditions. \<open>norm_ok\<close>: a stored document reads back like its encoding. \<open>migrations_ok\<close>: a migration that
  returns has the effect of its version. \<open>serves\<close> (\<open>Driver_Properties\<close>): a driver
  does to the table what the statement says. Each has a concrete instance in a witness.

  \<^bold>\<open>Not modelled.\<close> The evaluation of SQL, and network and pool handling of the drivers (third-party code);
  contexts other than \<open>ctx.Err()\<close> and the mutexes around in-memory registries and caches, whose calls are
  sequential in the model; the caches per type, which repeat the function they cache; \<open>log/slog\<close> output other than the
  list of events; symbolic links and permissions of the file system; letters beyond ASCII in \<open>strings.ToLower\<close>.
  Members of a
  JSON object are matched by their exact names, which are those Den writes, and types nested in themselves have no
  values in the model. \<^verbatim>\<open>den.go\<close>, \<^verbatim>\<open>crud.go\<close>, \<^verbatim>\<open>aliases.go\<close>,
  \<^verbatim>\<open>options.go\<close>, \<^verbatim>\<open>query.go\<close> and \<^verbatim>\<open>engine/aliases.go\<close> re-export the engine and contain no code of their own;
  \<^verbatim>\<open>dentest\<close> sets up tests around \<open>testing.TB\<close>.
\<close>

end
